(* ===== verification/Prelude.thy ===== *)
theory Prelude
  imports Complex_Main "HOL-Library.Word" "HOL-Library.Signed_Division"
begin

text \<open>
  Shared vocabulary of the development: the error codes the library returns
  (\<^verbatim>\<open>include/libiarray/iarray.h\<close>), the C integer operations its index arithmetic
  uses (division and remainder truncate towards zero, conversions to a \<open>w\<close>-bit
  type wrap around), and generic facts on lists, products and ceilings that the
  component theories share.
\<close>

section \<open>Error codes\<close>

text \<open>
  Every operation of the library returns an \<open>ina_rc_t\<close>. An error return is a value
  \<open>Inl e\<close> of the sum type \<open>'a res\<close>, a successful one is \<open>Inr\<close> of what the
  operation leaves in its output arguments. Constructors carry the names of the macros.
\<close>

datatype ina_err =
    INA_ERR_FAILED
  | INA_ERR_INVALID
  | INA_ERR_INVALID_ARGUMENT
  | INA_ERR_OPERATION_INVALID
  | INA_ERR_NOT_SUPPORTED
  | INA_ERR_NOT_COMPLETE
  | INA_ERR_FULL
  | INA_ERR_NULL
  | INA_ERR_FILE_OPEN
  | IARRAY_ERR_INVALID_DTYPE
  | IARRAY_ERR_INVALID_SHAPE
  | IARRAY_ERR_INVALID_CHUNKSHAPE
  | IARRAY_ERR_INVALID_BLOCKSHAPE
  | IARRAY_ERR_INVALID_ITERSHAPE
  | IARRAY_ERR_INVALID_NDIM
  | IARRAY_ERR_INVALID_AXIS
  | IARRAY_ERR_INVALID_EVAL_METHOD
  | IARRAY_ERR_INVALID_STORAGE
  | IARRAY_ERR_TOO_SMALL_BUFFER
  | IARRAY_ERR_CATERVA_FAILED
  | IARRAY_ERR_BLOSC_FAILED
  | IARRAY_ERR_ASSERTION_FAILED
  | IARRAY_ERR_END_ITER
  | IARRAY_ERR_NOT_END_ITER

type_synonym 'a res = "ina_err + 'a"

text \<open>\<open>IARRAY_RETURN_IF_FAILED\<close>: hand the error on, otherwise continue with the result.\<close>

definition res_bind :: "'a res \<Rightarrow> ('a \<Rightarrow> 'b res) \<Rightarrow> 'b res" where
  "res_bind r f = (case r of Inl e \<Rightarrow> Inl e | Inr x \<Rightarrow> f x)"

lemma res_bind_simps [simp]:
  "res_bind (Inl e) f = Inl e"
  "res_bind (Inr x) f = f x"
  by (simp_all add: res_bind_def)

lemma res_bind_eq_Inr_iff:
  "res_bind r f = Inr y \<longleftrightarrow> (\<exists>x. r = Inr x \<and> f x = Inr y)"
  by (cases r) auto

definition succeeds :: "'a res \<Rightarrow> bool" where
  "succeeds r = (case r of Inl _ \<Rightarrow> False | Inr _ \<Rightarrow> True)"

lemma succeeds_simps [simp]: "succeeds (Inl e) = False" "succeeds (Inr x) = True"
  by (simp_all add: succeeds_def)

text \<open>Loops whose body may fail: over a list with a state, and collecting a result for every element.\<close>

fun res_fold :: "('a \<Rightarrow> 's \<Rightarrow> 's res) \<Rightarrow> 'a list \<Rightarrow> 's \<Rightarrow> 's res" where
  "res_fold f [] s = Inr s"
| "res_fold f (x # xs) s = res_bind (f x s) (res_fold f xs)"

fun res_map :: "('a \<Rightarrow> 'b res) \<Rightarrow> 'a list \<Rightarrow> 'b list res" where
  "res_map f [] = Inr []"
| "res_map f (x # xs) = res_bind (f x) (\<lambda>y. res_bind (res_map f xs) (\<lambda>ys. Inr (y # ys)))"

lemma res_fold_append: "res_fold f (xs @ ys) s = res_bind (res_fold f xs s) (res_fold f ys)"
  by (induction xs arbitrary: s) (simp_all add: res_bind_def split: sum.splits)

lemma res_fold_Inr: "(\<And>x s. x \<in> set xs \<Longrightarrow> f x s = Inr (g x s)) \<Longrightarrow> res_fold f xs s = Inr (fold g xs s)"
  by (induction xs arbitrary: s) simp_all

lemma res_map_Inr: "(\<And>x. x \<in> set xs \<Longrightarrow> f x = Inr (g x)) \<Longrightarrow> res_map f xs = Inr (map g xs)"
  by (induction xs) simp_all

lemma res_map_length: "res_map f xs = Inr ys \<Longrightarrow> length ys = length xs"
  by (induction xs arbitrary: ys) (auto simp: res_bind_eq_Inr_iff)

text \<open>A loop that keeps an invariant, which makes its body succeed.\<close>

lemma res_fold_inv:
  assumes "P 0 s" "\<And>k s. k < length xs \<Longrightarrow> P k s \<Longrightarrow> \<exists>s'. f (xs ! k) s = Inr s' \<and> P (Suc k) s'"
  shows "\<exists>s'. res_fold f xs s = Inr s' \<and> P (length xs) s'"
  using assms
proof (induction xs arbitrary: s P)
  case (Cons x xs)
  obtain s1 where s1: "f x s = Inr s1" "P (Suc 0) s1" using Cons.prems(1) Cons.prems(2) [of 0 s] by auto
  have "\<exists>s'. res_fold f xs s1 = Inr s' \<and> P (Suc (length xs)) s'"
    using Cons.prems(2) s1(2) by (intro Cons.IH [of "\<lambda>k. P (Suc k)"]) fastforce+
  then show ?case using s1 by simp
qed simp

section \<open>C integer arithmetic\<close>

text \<open>
  Lengths and indices of the library are \<open>int64_t\<close>. They are modelled by \<open>int\<close>:
  signed overflow is undefined in C, so a model that agrees with the code wherever no
  overflow occurs is all a proof can ask for; where overflow decides what the code
  does (the doubling loop of the partition advice) the wrap-around is written out with
  \<open>to_i64\<close>. Division and remainder are C's, which truncate towards zero.
\<close>

definition cdiv :: "int \<Rightarrow> int \<Rightarrow> int" where
  "cdiv a b = a sdiv b"

definition cmod :: "int \<Rightarrow> int \<Rightarrow> int" where
  "cmod a b = a smod b"

definition to_i64 :: "int \<Rightarrow> int" where
  "to_i64 x = (x + 2 ^ 63) mod 2 ^ 64 - 2 ^ 63"

definition INT64_MAX :: int where
  "INT64_MAX = 2 ^ 63 - 1"

definition INT32_MAX :: int where
  "INT32_MAX = 2 ^ 31 - 1"

named_theorems c_arith "C division and remainder on non-negative operands"

lemma cdiv_nonneg [c_arith]: "0 \<le> a \<Longrightarrow> 0 \<le> b \<Longrightarrow> cdiv a b = a div b"
  by (simp add: cdiv_def signed_divide_int_def sgn_if)

lemma cmod_nonneg [c_arith]: "0 \<le> a \<Longrightarrow> 0 \<le> b \<Longrightarrow> cmod a b = a mod b"
  by (simp add: cmod_def signed_modulo_int_def signed_divide_int_def sgn_if
      minus_mult_div_eq_mod [symmetric] mult.commute)

lemma div_less_of_mult: "0 < b \<Longrightarrow> a < n * b \<Longrightarrow> a div b < (n :: int)"
  by (metis mult.commute mult_less_cancel_right order.asym order_le_less_trans
      minus_mod_eq_mult_div diff_le_eq le_add_same_cancel1 pos_mod_sign)

lemma to_i64_id: "- (2 ^ 63) \<le> x \<Longrightarrow> x < 2 ^ 63 \<Longrightarrow> to_i64 x = x"
  by (simp add: to_i64_def)

section \<open>Products\<close>

lemma prod_list_pos: "(\<forall>x \<in> set xs. 0 < (x::int)) \<Longrightarrow> 0 < prod_list xs"
  by (induction xs) auto

lemma prod_list_nonneg: "(\<forall>x \<in> set xs. 0 \<le> (x::int)) \<Longrightarrow> 0 \<le> prod_list xs"
  by (induction xs) auto

lemma sum_list_update_int:
  "i < length xs \<Longrightarrow> sum_list (xs[i := y]) = sum_list xs + y - (xs ! i :: int)"
proof (induction xs arbitrary: i)
  case (Cons x xs)
  then show ?case by (cases i) auto
qed simp

lemma fold_mult_map: "fold (\<lambda>i p. p * f i) is (p :: int) = p * prod_list (map f is)"
  by (induction "is" arbitrary: p) (simp_all add: ac_simps)

lemma map_nth_take: "n \<le> length xs \<Longrightarrow> map ((!) xs) [0..<n] = take n xs"
  by (rule nth_equalityI) auto

lemma fold_mult_nth:
  "n \<le> length xs \<Longrightarrow> fold (\<lambda>i p. p * xs ! i) [0..<n] (p :: int) = p * prod_list (take n xs)"
  by (simp add: fold_mult_map map_nth_take)

lemma prod_list_mono_int:
  "list_all2 (\<lambda>a b. 0 \<le> a \<and> a \<le> b) xs ys \<Longrightarrow>
   0 \<le> prod_list xs \<and> prod_list xs \<le> (prod_list ys :: int)"
proof (induction rule: list_all2_induct)
  case (Cons x xs y ys)
  then show ?case by (auto intro: mult_mono)
qed simp

section \<open>Loops over arrays\<close>

text \<open>
  The two loop shapes of the index arithmetic: every slot of a C array is assigned once,
  upwards from a constant, or downwards with a running product of another array.
\<close>

lemma fold_update_up:
  "b \<le> length xs \<Longrightarrow> a \<le> b \<Longrightarrow>
   fold (\<lambda>i xs. xs[i := f i]) [a..<b] xs = take a xs @ map f [a..<b] @ drop b xs"
proof (induction "b - a" arbitrary: b)
  case 0
  then show ?case by simp
next
  case (Suc n)
  then obtain c where c: "b = Suc c" "a \<le> c" by (cases b) auto
  have d: "drop c xs = xs ! c # drop (Suc c) xs"
    using Suc.prems c by (simp add: Cons_nth_drop_Suc)
  show ?case
    using Suc.hyps Suc.prems c d by (simp add: list_update_append)
qed

lemma fold_update_all:
  "length xs = n \<Longrightarrow> fold (\<lambda>i xs. xs[i := f i]) [0..<n] xs = map f [0..<n]"
  using fold_update_up [of n xs 0 f] by simp

lemma fold_update_down:
  "n \<le> length xs \<Longrightarrow> n \<le> length ws \<Longrightarrow>
   fold (\<lambda>i (xs, inc). (xs[i := f i inc], inc * ws ! i)) (rev [0..<n]) (xs, c :: int) =
   (map (\<lambda>i. f i (c * prod_list (drop (Suc i) (take n ws)))) [0..<n] @ drop n xs,
    c * prod_list (take n ws))"
proof (induction n arbitrary: xs c)
  case 0
  then show ?case by simp
next
  case (Suc n)
  have t: "take (Suc n) ws = take n ws @ [ws ! n]"
    using Suc.prems by (simp add: take_Suc_conv_app_nth)
  have d: "drop n (xs[n := f n c]) = f n c # drop (Suc n) xs"
    using Suc.prems by (simp add: Cons_nth_drop_Suc [symmetric])
  have m: "map (\<lambda>i. f i (c * ws ! n * prod_list (drop (Suc i) (take n ws)))) [0..<n] =
      map (\<lambda>i. f i (c * prod_list (drop (Suc i) (take (Suc n) ws)))) [0..<n]"
    using Suc.prems unfolding t by (simp add: ac_simps)
  show ?case
    using Suc.IH [of "xs[n := f n c]" "c * ws ! n"] Suc.prems d m
    by (simp add: t ac_simps)
qed

lemma those_map_Some:
  "\<forall>i \<in> set js. \<exists>y. f i = Some y \<and> P i y \<Longrightarrow>
   \<exists>ys. those (map f js) = Some ys \<and> list_all2 P js ys"
proof (induction js)
  case (Cons j js)
  then obtain y ys where "f j = Some y" "P j y" "those (map f js) = Some ys" "list_all2 P js ys"
    by auto
  then show ?case by auto
qed simp

text \<open>A loop that adds to selected slots of an array, no slot twice.\<close>

lemma fold_length_inv:
  "(\<And>i st. length (f i st) = length st) \<Longrightarrow> length (fold f js xs) = length xs"
  by (induction js arbitrary: xs) auto

lemma fold_add_other:
  "\<forall>i \<in> set js. g i \<noteq> j \<Longrightarrow>
   fold (\<lambda>i st. st[g i := h i (st ! g i)]) js xs ! j = xs ! j"
  by (induction js arbitrary: xs) auto

lemma fold_add_slot:
  "distinct js \<Longrightarrow> inj_on g (set js) \<Longrightarrow> i \<in> set js \<Longrightarrow> g i < length xs \<Longrightarrow>
   fold (\<lambda>i st. st[g i := h i (st ! g i)]) js xs ! g i = h i (xs ! g i)"
proof (induction js arbitrary: xs)
  case (Cons k js)
  show ?case
  proof (cases "i = k")
    case True
    then have "\<forall>l \<in> set js. g l \<noteq> g i" using Cons.prems by (auto simp: inj_on_def)
    then show ?thesis using True Cons.prems(4) by (simp add: fold_add_other)
  next
    case False
    then have "g k \<noteq> g i" using Cons.prems by (auto simp: inj_on_def)
    then show ?thesis using False Cons by simp
  qed
qed simp

section \<open>Ceilings\<close>

text \<open>
  The number of blocks of length \<open>b\<close> that cover \<open>n\<close> items, written in the code as
  \<open>n % b == 0 ? n / b : n / b + 1\<close> in a dozen places.
\<close>

definition ceil_blocks :: "int \<Rightarrow> int \<Rightarrow> int" where
  "ceil_blocks n b = (if cmod n b = 0 then cdiv n b else cdiv n b + 1)"

lemma ceil_blocks_nonneg: "0 \<le> n \<Longrightarrow> 0 < b \<Longrightarrow> 0 \<le> ceil_blocks n b"
  by (simp add: ceil_blocks_def c_arith pos_imp_zdiv_nonneg_iff)

lemma ceil_blocks_mult_ge:
  assumes "0 \<le> n" "0 < b"
  shows "n \<le> ceil_blocks n b * b" and "ceil_blocks n b * b < n + b"
proof -
  have d: "n = n div b * b + n mod b" by simp
  have m: "0 \<le> n mod b" "n mod b < b" using assms by simp_all
  show "n \<le> ceil_blocks n b * b"
  proof (cases "n mod b = 0")
    case True
    then have "n \<le> n div b * b" using d by linarith
    then show ?thesis using assms True by (simp add: ceil_blocks_def c_arith)
  next
    case False
    have "n \<le> n div b * b + b" using d m by linarith
    then show ?thesis using assms False by (simp add: ceil_blocks_def c_arith distrib_right)
  qed
  show "ceil_blocks n b * b < n + b"
  proof (cases "n mod b = 0")
    case True
    then show ?thesis using assms d by (simp add: ceil_blocks_def c_arith)
  next
    case False
    then have "n div b * b < n" using d m(1) by linarith
    then show ?thesis using assms False by (simp add: ceil_blocks_def c_arith distrib_right)
  qed
qed

lemma ceil_blocks_pos: "0 < n \<Longrightarrow> 0 < b \<Longrightarrow> 0 < ceil_blocks n b"
  using ceil_blocks_mult_ge(1) [of n b]
  by (metis less_le_trans order_less_imp_le zero_less_mult_pos2)

lemma block_index_less_ceil:
  assumes "0 \<le> x" "x < n" "0 < b"
  shows "x div b < ceil_blocks n b"
proof -
  have "x < ceil_blocks n b * b"
    using ceil_blocks_mult_ge(1) [of n b] assms by linarith
  moreover have "x div b * b \<le> x"
    using assms(3) by (simp add: minus_mod_eq_div_mult [symmetric])
  ultimately have "x div b * b < ceil_blocks n b * b" by linarith
  then show ?thesis using assms(3) by (simp add: mult_less_cancel_right)
qed

lemma block_start_less:
  assumes "0 \<le> k" "k < ceil_blocks n b" "0 \<le> n" "0 < b"
  shows "k * b < n"
proof -
  have "(k + 1) * b \<le> ceil_blocks n b * b"
    using assms by (intro mult_right_mono) auto
  then have "k * b + b \<le> ceil_blocks n b * b" by (simp add: distrib_right)
  then show ?thesis using ceil_blocks_mult_ge(2) [of n b] assms by linarith
qed

end
