(* ===== verification/Index.thy ===== *)
theory Index
  imports Prelude
begin

text \<open>
  The index arithmetic of the library (\<^verbatim>\<open>src/iarray_private.h\<close>, section "Inline
  functions"): strides of a row-major array and the conversions between a
  multidimensional index and its position in the flattened array, plus the block-number
  decoder that the iterators write in line. The contract of a decoder (it hits every
  index of the box exactly once) is the locale \<open>numbering\<close>; each routine of the library is
  an interpretation of it.
\<close>

section \<open>Reference semantics\<close>

text \<open>Row-major numbering of the index box of a shape, by recursion on the dimensions.\<close>

definition in_box :: "int list \<Rightarrow> int list \<Rightarrow> bool" where
  "in_box ns ix = list_all2 (\<lambda>n i. 0 \<le> i \<and> i < n) ns ix"

lemma in_box_simps [simp]:
  "in_box [] []"
  "in_box [] (i # ix) = False"
  "in_box (n # ns) [] = False"
  "in_box (n # ns) (i # ix) = (0 \<le> i \<and> i < n \<and> in_box ns ix)"
  by (simp_all add: in_box_def)

lemma in_box_length: "in_box ns ix \<Longrightarrow> length ix = length ns"
  by (simp add: in_box_def list_all2_lengthD)

lemma in_box_nth: "in_box ns ix \<longleftrightarrow>
  length ix = length ns \<and> (\<forall>j < length ns. 0 \<le> ix ! j \<and> ix ! j < ns ! j)"
  by (auto simp: in_box_def list_all2_conv_all_nth)

fun flat :: "int list \<Rightarrow> int list \<Rightarrow> int" where
  "flat (n # ns) (i # ix) = i * prod_list ns + flat ns ix"
| "flat _ _ = 0"

fun unflat :: "int list \<Rightarrow> int \<Rightarrow> int list" where
  "unflat [] k = []"
| "unflat (n # ns) k = k div prod_list ns # unflat ns (k mod prod_list ns)"

fun strides_of :: "int list \<Rightarrow> int list" where
  "strides_of [] = []"
| "strides_of (n # ns) = prod_list ns # strides_of ns"

definition all_pos :: "int list \<Rightarrow> bool" where
  "all_pos ns = list_all (\<lambda>n. 0 < n) ns"

lemma all_pos_simps [simp]: "all_pos []" "all_pos (n # ns) = (0 < n \<and> all_pos ns)"
  by (simp_all add: all_pos_def)

lemma all_pos_prod: "all_pos ns \<Longrightarrow> 0 < prod_list ns"
  by (induction ns) auto

lemma all_pos_nth: "all_pos ns \<longleftrightarrow> (\<forall>j < length ns. 0 < ns ! j)"
  by (simp add: all_pos_def list_all_length)

lemma all_pos_drop: "all_pos ns \<Longrightarrow> all_pos (drop j ns)"
  by (simp add: all_pos_def list_all_iff) (meson in_set_dropD)

lemma length_strides_of [simp]: "length (strides_of ns) = length ns"
  by (induction ns) auto

lemma strides_of_nth: "j < length ns \<Longrightarrow> strides_of ns ! j = prod_list (drop (Suc j) ns)"
proof (induction ns arbitrary: j)
  case (Cons n ns)
  then show ?case by (cases j) auto
qed simp

lemma length_unflat [simp]: "length (unflat ns k) = length ns"
  by (induction ns arbitrary: k) auto

lemma flat_bounds: "in_box ns ix \<Longrightarrow> 0 \<le> flat ns ix \<and> flat ns ix < prod_list ns"
proof (induction ns arbitrary: ix)
  case Nil
  then show ?case by (cases ix) auto
next
  case (Cons n ns)
  then obtain i js where ix: "ix = i # js" by (cases ix) auto
  with Cons have i: "0 \<le> i" "i < n" and b: "0 \<le> flat ns js" "flat ns js < prod_list ns" by auto
  have "(i + 1) * prod_list ns \<le> n * prod_list ns"
    using i b by (intro mult_right_mono) auto
  moreover have "0 \<le> i * prod_list ns" using i b by simp
  ultimately show ?case using ix b by (simp add: distrib_right)
qed

lemma unflat_in_box: "all_pos ns \<Longrightarrow> 0 \<le> k \<Longrightarrow> k < prod_list ns \<Longrightarrow> in_box ns (unflat ns k)"
proof (induction ns arbitrary: k)
  case (Cons n ns)
  then have p: "0 < prod_list ns" by (simp add: all_pos_prod)
  have "k div prod_list ns < n"
    using Cons.prems p by (intro div_less_of_mult) simp_all
  then show ?case
    using Cons p by (simp add: pos_imp_zdiv_nonneg_iff)
qed simp

lemma flat_unflat: "all_pos ns \<Longrightarrow> 0 \<le> k \<Longrightarrow> k < prod_list ns \<Longrightarrow> flat ns (unflat ns k) = k"
proof (induction ns arbitrary: k)
  case (Cons n ns)
  then have p: "0 < prod_list ns" by (simp add: all_pos_prod)
  then show ?case using Cons by simp
qed simp

lemma unflat_flat: "in_box ns ix \<Longrightarrow> unflat ns (flat ns ix) = ix"
proof (induction ns arbitrary: ix)
  case Nil
  then show ?case by (cases ix) auto
next
  case (Cons n ns)
  then obtain i js where ix: "ix = i # js" by (cases ix) auto
  with Cons have b: "0 \<le> flat ns js" "flat ns js < prod_list ns" and i: "0 \<le> i"
    using flat_bounds by auto
  then show ?case using Cons ix by simp
qed

lemma flat_inj:
  assumes "in_box ns ix" "in_box ns jx" "flat ns ix = flat ns jx"
  shows "ix = jx"
  using assms unflat_flat by metis

text \<open>The digits in closed form: what each iteration of the decoding loops assigns.\<close>

lemma unflat_nth_gen:
  assumes "all_pos ns" "j < length ns"
  shows "unflat ns k ! j =
    (if j = 0 then k div prod_list (drop 1 ns)
     else k mod prod_list (drop j ns) div prod_list (drop (Suc j) ns))"
  using assms
proof (induction ns arbitrary: j k)
  case (Cons n ns)
  show ?case
  proof (cases j)
    case (Suc i)
    show ?thesis
    proof (cases i)
      case 0
      then show ?thesis using Cons Suc by simp
    next
      case (Suc l)
      have "prod_list (drop i ns) dvd prod_list ns"
        by (metis append_take_drop_id dvd_triv_right prod_list.append)
      then show ?thesis
        using Cons Suc \<open>j = Suc i\<close> by (simp add: mod_mod_cancel)
    qed
  qed simp
qed simp

lemma unflat_nth:
  assumes "all_pos ns" "j < length ns" "0 \<le> k" "k < prod_list ns"
  shows "unflat ns k ! j = k mod prod_list (drop j ns) div prod_list (drop (Suc j) ns)"
  using unflat_nth_gen [OF assms(1,2)] assms by (cases j) auto

section \<open>The routines\<close>

text \<open>
  \<open>compute_strides\<close>: the output array is updated in place, the last stride first. An
  array longer than \<open>ndim\<close> keeps its tail, as the fixed-size arrays of the code do.
\<close>

definition compute_strides :: "nat \<Rightarrow> int list \<Rightarrow> int list \<Rightarrow> int list" where
  "compute_strides ndim shape strides =
     (if ndim = 0 then strides
      else fold (\<lambda>j st. st[j := shape ! (j + 1) * st ! (j + 1)])
             (rev [0..<ndim - 1]) (strides[ndim - 1 := 1]))"

definition iarray_index_multidim_to_unidim :: "nat \<Rightarrow> int list \<Rightarrow> int list \<Rightarrow> int" where
  "iarray_index_multidim_to_unidim ndim strides index =
     fold (\<lambda>j i. i + index ! j * strides ! j) [0..<ndim] 0"

definition iarray_index_unidim_to_multidim ::
    "nat \<Rightarrow> int list \<Rightarrow> int \<Rightarrow> int list \<Rightarrow> int list" where
  "iarray_index_unidim_to_multidim ndim strides i index =
     (if ndim = 0 then index
      else fold (\<lambda>j ix. ix[j := cdiv (cmod i (strides ! (j - 1))) (strides ! j)])
             [1..<ndim] (index[0 := cdiv i (strides ! 0)]))"

text \<open>The variant that computes the strides itself, in a local array of \<open>CATERVA_MAX_DIM\<close> slots.\<close>

definition CATERVA_MAX_DIM :: nat where
  "CATERVA_MAX_DIM = 8"

definition iarray_index_unidim_to_multidim_shape ::
    "nat \<Rightarrow> int list \<Rightarrow> int \<Rightarrow> int list \<Rightarrow> int list" where
  "iarray_index_unidim_to_multidim_shape ndim shape i index =
     (if ndim = 0 then index
      else let strides = compute_strides ndim shape (replicate CATERVA_MAX_DIM 0) in
        fold (\<lambda>j ix. ix[j := cdiv (cmod i (strides ! (j - 1))) (strides ! j)])
          [1..<ndim] (index[0 := cdiv i (strides ! 0)]))"

text \<open>
  The decoding loop that the iterators write in line, from the last dimension to the first
  with a running product \<open>inc\<close>: \<open>index[i] = nblock % (aux[i] * inc) / inc; inc *= aux[i]\<close>.
\<close>

definition mixed_radix :: "nat \<Rightarrow> int list \<Rightarrow> int \<Rightarrow> int list \<Rightarrow> int list" where
  "mixed_radix ndim aux nblock index =
     fst (fold (\<lambda>i (ix, inc). (ix[i := cdiv (cmod nblock (aux ! i * inc)) inc], inc * aux ! i))
            (rev [0..<ndim]) (index, 1))"

section \<open>Strides\<close>

lemma compute_strides_loop:
  "Suc m \<le> length shape \<Longrightarrow> Suc m \<le> length st \<Longrightarrow>
   st ! m = prod_list (drop (Suc m) (take n shape)) \<Longrightarrow> m < n \<Longrightarrow> n \<le> length shape \<Longrightarrow>
   fold (\<lambda>j st. st[j := shape ! (j + 1) * st ! (j + 1)]) (rev [0..<m]) st =
   map (\<lambda>j. prod_list (drop (Suc j) (take n shape))) [0..<m] @ drop m st"
proof (induction m arbitrary: st)
  case (Suc m)
  let ?st = "st[m := shape ! Suc m * st ! Suc m]"
  have d: "drop (Suc m) (take n shape) = shape ! Suc m # drop (Suc (Suc m)) (take n shape)"
    using Suc.prems by (subst Cons_nth_drop_Suc [symmetric]) auto
  have v: "?st ! m = prod_list (drop (Suc m) (take n shape))"
    using Suc.prems d by simp
  have r: "drop m ?st = ?st ! m # drop (Suc m) st"
    using Suc.prems by (subst Cons_nth_drop_Suc [symmetric]) auto
  show ?case
    using Suc.IH [of ?st] Suc.prems v r by simp
qed simp

lemma compute_strides_eq:
  assumes "ndim \<le> length shape" "ndim \<le> length strides"
  shows "compute_strides ndim shape strides = strides_of (take ndim shape) @ drop ndim strides"
proof (cases ndim)
  case 0
  then show ?thesis by (simp add: compute_strides_def)
next
  case (Suc m)
  have "fold (\<lambda>j st. st[j := shape ! (j + 1) * st ! (j + 1)]) (rev [0..<m]) (strides[m := 1]) =
      map (\<lambda>j. prod_list (drop (Suc j) (take ndim shape))) [0..<m] @ drop m (strides[m := 1])"
    using assms Suc by (intro compute_strides_loop) auto
  moreover have "drop m (strides[m := 1]) = 1 # drop ndim strides"
    using assms Suc by (simp add: Cons_nth_drop_Suc [symmetric])
  moreover have "strides_of (take ndim shape) =
      map (\<lambda>j. prod_list (drop (Suc j) (take ndim shape))) [0..<m] @ [1]"
    using assms Suc by (intro nth_equalityI) (auto simp: strides_of_nth nth_append)
  ultimately show ?thesis using Suc by (simp add: compute_strides_def)
qed

lemma compute_strides_full:
  "length strides = length shape \<Longrightarrow> compute_strides (length shape) shape strides = strides_of shape"
  by (simp add: compute_strides_eq)

lemma compute_strides_nth:
  "ndim \<le> length shape \<Longrightarrow> ndim \<le> length strides \<Longrightarrow> j < ndim \<Longrightarrow>
   compute_strides ndim shape strides ! j = strides_of (take ndim shape) ! j"
  by (simp add: compute_strides_eq nth_append)

section \<open>Flattening\<close>

lemma fold_plus: "fold (\<lambda>j i. i + f j) js (a::int) = a + sum_list (map f js)"
  by (induction js arbitrary: a) auto

lemma flat_sum: "length ix = length ns \<Longrightarrow>
  flat ns ix = sum_list (map (\<lambda>j. ix ! j * strides_of ns ! j) [0..<length ns])"
proof (induction ns arbitrary: ix)
  case Nil
  then show ?case by simp
next
  case (Cons n ns)
  then obtain i js where "ix = i # js" by (cases ix) auto
  moreover have "[0..<Suc (length ns)] = 0 # map Suc [0..<length ns]"
    by (simp only: map_Suc_upt upt_conv_Cons zero_less_Suc)
  ultimately show ?case using Cons by (simp add: comp_def del: upt_Suc)
qed

lemma multidim_to_unidim_flat:
  assumes "ndim \<le> length shape" "ndim \<le> length strides" "ndim \<le> length ix"
  shows "iarray_index_multidim_to_unidim ndim (compute_strides ndim shape strides) ix =
    flat (take ndim shape) (take ndim ix)"
proof -
  have "sum_list (map (\<lambda>j. ix ! j * compute_strides ndim shape strides ! j) [0..<ndim]) =
      sum_list (map (\<lambda>j. take ndim ix ! j * strides_of (take ndim shape) ! j) [0..<ndim])"
    using assms by (intro arg_cong [where f = sum_list] map_cong)
      (auto simp: compute_strides_nth)
  then show ?thesis
    using assms by (simp add: iarray_index_multidim_to_unidim_def fold_plus flat_sum)
qed

section \<open>Decoding\<close>

lemma unidim_to_multidim_map:
  assumes "ndim \<le> length index" "0 < ndim"
  shows "iarray_index_unidim_to_multidim ndim strides i index =
    map (\<lambda>j. if j = 0 then cdiv i (strides ! 0)
             else cdiv (cmod i (strides ! (j - 1))) (strides ! j)) [0..<ndim] @ drop ndim index"
proof -
  have "[0..<ndim] = 0 # [1..<ndim]" using assms(2) by (simp add: upt_conv_Cons)
  moreover have "take 1 (index[0 := cdiv i (strides ! 0)]) = [cdiv i (strides ! 0)]"
    using assms by (cases index) auto
  moreover have "drop ndim (index[0 := cdiv i (strides ! 0)]) = drop ndim index"
    using assms by simp
  ultimately show ?thesis
    using assms fold_update_up [of ndim "index[0 := cdiv i (strides ! 0)]" 1
        "\<lambda>j. cdiv (cmod i (strides ! (j - 1))) (strides ! j)"]
    by (simp add: iarray_index_unidim_to_multidim_def)
qed

lemma unidim_to_multidim_unflat:
  assumes "all_pos (take ndim shape)" "ndim \<le> length shape" "ndim \<le> length index"
    and "0 \<le> i" and "\<And>j. j < ndim \<Longrightarrow> strides ! j = strides_of (take ndim shape) ! j"
  shows "iarray_index_unidim_to_multidim ndim strides i index =
    unflat (take ndim shape) i @ drop ndim index"
proof (cases "ndim = 0")
  case True
  then show ?thesis by (simp add: iarray_index_unidim_to_multidim_def)
next
  case False
  let ?ns = "take ndim shape"
  have pos: "0 < prod_list (drop j ?ns)" for j
    using assms(1) by (intro all_pos_prod all_pos_drop)
  have len: "length ?ns = ndim" using assms by simp
  have dig: "(if j = 0 then cdiv i (strides ! 0)
      else cdiv (cmod i (strides ! (j - 1))) (strides ! j)) = unflat ?ns i ! j" if "j < ndim" for j
    using that assms(4) pos [of j] pos [of "Suc j"] len
    by (cases j) (simp_all add: assms(5) strides_of_nth unflat_nth_gen [OF assms(1)]
        c_arith less_imp_le del: drop_take take_drop)
  have "map (\<lambda>j. if j = 0 then cdiv i (strides ! 0)
      else cdiv (cmod i (strides ! (j - 1))) (strides ! j)) [0..<ndim] = unflat ?ns i"
    by (rule nth_equalityI) (use len dig in \<open>simp_all only: length_map length_upt nth_map_upt
        length_unflat diff_zero add_0\<close>)
  then show ?thesis using unidim_to_multidim_map [of ndim index] assms(3) False by simp
qed

lemma unidim_to_multidim_shape_unflat:
  assumes "all_pos (take ndim shape)" "ndim \<le> length shape" "ndim \<le> length index"
    and "0 \<le> i" "ndim \<le> CATERVA_MAX_DIM"
  shows "iarray_index_unidim_to_multidim_shape ndim shape i index =
    unflat (take ndim shape) i @ drop ndim index"
proof -
  have "iarray_index_unidim_to_multidim_shape ndim shape i index =
      iarray_index_unidim_to_multidim ndim
        (compute_strides ndim shape (replicate CATERVA_MAX_DIM 0)) i index"
    by (simp add: iarray_index_unidim_to_multidim_shape_def iarray_index_unidim_to_multidim_def Let_def)
  also have "\<dots> = unflat (take ndim shape) i @ drop ndim index"
    using assms by (intro unidim_to_multidim_unflat) (simp_all add: compute_strides_nth)
  finally show ?thesis .
qed

lemma mixed_radix_unflat:
  assumes "all_pos (take ndim aux)" "ndim \<le> length aux" "ndim \<le> length index"
    and "0 \<le> k" "k < prod_list (take ndim aux)"
  shows "mixed_radix ndim aux k index = unflat (take ndim aux) k @ drop ndim index"
proof -
  let ?ns = "take ndim aux"
  have pos: "0 < prod_list (drop j ?ns)" for j
    using assms(1) by (intro all_pos_prod all_pos_drop)
  have len: "length ?ns = ndim" using assms by simp
  have "cdiv (cmod k (aux ! j * (1 * prod_list (drop (Suc j) ?ns)))) (1 * prod_list (drop (Suc j) ?ns))
      = unflat ?ns k ! j" if "j < ndim" for j
  proof -
    have "drop j ?ns = aux ! j # drop (Suc j) ?ns"
      using that assms by (subst Cons_nth_drop_Suc [symmetric]) auto
    then have "aux ! j * prod_list (drop (Suc j) ?ns) = prod_list (drop j ?ns)" by simp
    then show ?thesis
      using that assms(4,5) pos [of j] pos [of "Suc j"] len
      by (simp add: unflat_nth [OF assms(1)] c_arith less_imp_le del: drop_take take_drop)
  qed
  then have "map (\<lambda>j. cdiv (cmod k (aux ! j * (1 * prod_list (drop (Suc j) ?ns))))
      (1 * prod_list (drop (Suc j) ?ns))) [0..<ndim] = unflat ?ns k"
    by (intro nth_equalityI) (use len in \<open>simp_all only: length_map length_upt nth_map_upt
        length_unflat diff_zero add_0\<close>)
  then show ?thesis
    unfolding mixed_radix_def using assms(2,3)
    by (simp only: fold_update_down fst_conv) 
qed

section \<open>The contract of a block-number decoder\<close>

text \<open>
  A decoder turns the number of a block (or item) into its index. Its client, a loop over
  the numbers \<open>0, 1, \<dots>\<close>, relies on two laws: the index lies in the box of the
  shape, and it is the one whose row-major position is the number. From these follow that
  the loop meets every index of the box exactly once.
\<close>

definition good_shape :: "int list \<Rightarrow> bool" where
  "good_shape ns \<longleftrightarrow> all_pos ns \<and> length ns \<le> CATERVA_MAX_DIM"

locale numbering =
  fixes decode :: "int list \<Rightarrow> int \<Rightarrow> int list"
  assumes decode_in_box: "good_shape ns \<Longrightarrow> 0 \<le> k \<Longrightarrow> k < prod_list ns \<Longrightarrow> in_box ns (decode ns k)"
    and flat_decode: "good_shape ns \<Longrightarrow> 0 \<le> k \<Longrightarrow> k < prod_list ns \<Longrightarrow> flat ns (decode ns k) = k"
begin

lemma decode_flat:
  assumes "good_shape ns" "in_box ns ix"
  shows "decode ns (flat ns ix) = ix"
  using assms flat_bounds [of ns ix] flat_inj [OF decode_in_box _ flat_decode]
  by (auto simp: decode_in_box)

lemma decode_eq_unflat:
  "good_shape ns \<Longrightarrow> 0 \<le> k \<Longrightarrow> k < prod_list ns \<Longrightarrow> decode ns k = unflat ns k"
  by (metis decode_flat flat_unflat good_shape_def unflat_in_box)

lemma visits_once:
  assumes "good_shape ns" "in_box ns ix"
  shows "\<exists>!k. 0 \<le> k \<and> k < prod_list ns \<and> decode ns k = ix"
proof (rule ex1I [of _ "flat ns ix"])
  show "0 \<le> flat ns ix \<and> flat ns ix < prod_list ns \<and> decode ns (flat ns ix) = ix"
    using assms by (simp add: flat_bounds decode_flat)
  show "k = flat ns ix" if "0 \<le> k \<and> k < prod_list ns \<and> decode ns k = ix" for k
    using that flat_decode [OF assms(1), of k] by auto
qed

lemma bij_decode:
  "good_shape ns \<Longrightarrow> bij_betw (decode ns) {0..<prod_list ns} {ix. in_box ns ix}"
  by (rule bij_betw_byWitness [where f' = "flat ns"])
    (auto simp: decode_flat flat_decode decode_in_box flat_bounds)

end

interpretation ref: numbering unflat
  by unfold_locales (auto simp: good_shape_def unflat_in_box flat_unflat)

definition decode_strides :: "int list \<Rightarrow> int \<Rightarrow> int list" where
  "decode_strides ns k = iarray_index_unidim_to_multidim (length ns)
     (compute_strides (length ns) ns (replicate (length ns) 0)) k (replicate (length ns) 0)"

definition decode_shape :: "int list \<Rightarrow> int \<Rightarrow> int list" where
  "decode_shape ns k = iarray_index_unidim_to_multidim_shape (length ns) ns k (replicate (length ns) 0)"

definition decode_radix :: "int list \<Rightarrow> int \<Rightarrow> int list" where
  "decode_radix ns k = mixed_radix (length ns) ns k (replicate (length ns) 0)"

lemma decode_strides_unflat:
  "all_pos ns \<Longrightarrow> 0 \<le> k \<Longrightarrow> decode_strides ns k = unflat ns k"
  using unidim_to_multidim_unflat [of "length ns" ns "replicate (length ns) 0" k "strides_of ns"]
  by (simp add: decode_strides_def compute_strides_full)

lemma decode_shape_unflat:
  "good_shape ns \<Longrightarrow> 0 \<le> k \<Longrightarrow> decode_shape ns k = unflat ns k"
  using unidim_to_multidim_shape_unflat [of "length ns" ns "replicate (length ns) 0" k]
  by (simp add: decode_shape_def good_shape_def)

lemma decode_radix_unflat:
  "all_pos ns \<Longrightarrow> 0 \<le> k \<Longrightarrow> k < prod_list ns \<Longrightarrow> decode_radix ns k = unflat ns k"
  using mixed_radix_unflat [of "length ns" ns "replicate (length ns) 0" k]
  by (simp add: decode_radix_def)

interpretation strd: numbering decode_strides
  by unfold_locales
    (simp_all add: good_shape_def decode_strides_unflat unflat_in_box flat_unflat)

interpretation shp: numbering decode_shape
  by unfold_locales
    (simp_all add: decode_shape_unflat, simp_all add: good_shape_def unflat_in_box flat_unflat)

interpretation rdx: numbering decode_radix
  by unfold_locales
    (simp_all add: good_shape_def decode_radix_unflat unflat_in_box flat_unflat)

section \<open>Properties\<close>

text \<open>
  \<open>compute_strides\<close> leaves in the first \<open>ndim\<close> slots of its output the row-major
  strides of the first \<open>ndim\<close> dimensions (stride \<open>j\<close> is the product of the later
  dimensions) and does not touch the slots behind them, whatever the output array held.
\<close>

lemma compute_strides_correct:
  assumes "ndim \<le> length shape" "ndim \<le> length strides"
  shows "length (compute_strides ndim shape strides) = length strides \<and>
    (\<forall>j. j < ndim \<longrightarrow>
      compute_strides ndim shape strides ! j = prod_list (drop (Suc j) (take ndim shape))) \<and>
    drop ndim (compute_strides ndim shape strides) = drop ndim strides"
  using assms by (auto simp: compute_strides_eq nth_append strides_of_nth simp del: drop_take)

lemma compute_strides_correct_witness:
  "length (compute_strides 3 [4, 5, 6, 0] [9, 9, 9, 7]) = 4 \<and>
   compute_strides 3 [4, 5, 6, 0] [9, 9, 9, 7] ! 0 = 30 \<and>
   compute_strides 3 [4, 5, 6, 0] [9, 9, 9, 7] ! 2 = 1 \<and>
   drop 3 (compute_strides 3 [4, 5, 6, 0] [9, 9, 9, 7]) = [7]"
  using compute_strides_correct [of 3 "[4, 5, 6, 0]" "[9, 9, 9, 7]"]
  by (simp add: numeral_3_eq_3)

text \<open>
  Claim C27. Round trip of the index conversions: the number of an index of the box, computed by
  \<open>iarray_index_multidim_to_unidim\<close> with the strides of the shape, lies within the array,
  and \<open>iarray_index_unidim_to_multidim\<close> turns it back into the index.
\<close>

theorem index_roundtrip:
  assumes "good_shape ns" "in_box ns ix" "length buf = length ns"
  defines "st \<equiv> compute_strides (length ns) ns (replicate (length ns) 0)"
  defines "k \<equiv> iarray_index_multidim_to_unidim (length ns) st ix"
  shows "0 \<le> k \<and> k < prod_list ns \<and> iarray_index_unidim_to_multidim (length ns) st k buf = ix"
proof -
  have k: "k = flat ns ix"
    using multidim_to_unidim_flat [of "length ns" ns "replicate (length ns) 0" ix] assms(2)
    by (simp add: k_def st_def in_box_length)
  have "iarray_index_unidim_to_multidim (length ns) st (flat ns ix) buf = unflat ns (flat ns ix)"
    using unidim_to_multidim_unflat [of "length ns" ns buf "flat ns ix" st] assms flat_bounds
    by (simp add: st_def compute_strides_full good_shape_def)
  then show ?thesis using k assms(2) by (simp add: flat_bounds unflat_flat)
qed

lemma index_roundtrip_witness:
  "iarray_index_unidim_to_multidim 3 [30, 6, 1]
     (iarray_index_multidim_to_unidim 3 [30, 6, 1] [3, 2, 5]) [0, 0, 0] = [3, 2, 5]"
  using index_roundtrip [of "[4, 5, 6]" "[3, 2, 5]" "[0, 0, 0]"]
  by (simp add: compute_strides_def good_shape_def CATERVA_MAX_DIM_def numeral_3_eq_3 numeral_2_eq_2)

text \<open>
  The three decoders of the library (with precomputed strides, with its own strides,
  and the running-product loop of the iterators) compute the same index for every number of
  an array element, so code that mixes them addresses the same block.
\<close>

lemma decoders_agree:
  assumes "good_shape ns" "0 \<le> k" "k < prod_list ns"
  shows "decode_shape ns k = decode_strides ns k \<and> decode_radix ns k = decode_strides ns k"
  using assms by (simp add: shp.decode_eq_unflat strd.decode_eq_unflat rdx.decode_eq_unflat)

lemma decoders_agree_witness:
  "decode_shape [4, 5, 6] 77 = decode_strides [4, 5, 6] 77 \<and>
   decode_radix [4, 5, 6] 77 = decode_strides [4, 5, 6] 77"
  using decoders_agree [of "[4, 5, 6]" 77] by (simp add: good_shape_def CATERVA_MAX_DIM_def)

text \<open>
  A loop over the numbers below the size of a shape that decodes with the running-product
  loop meets every index of the box exactly once.
\<close>

lemma mixed_radix_visits_once:
  assumes "good_shape ns" "in_box ns ix" "length buf = length ns"
  shows "\<exists>!k. 0 \<le> k \<and> k < prod_list ns \<and> mixed_radix (length ns) ns k buf = ix"
proof -
  have "mixed_radix (length ns) ns k buf = decode_radix ns k" if "0 \<le> k" "k < prod_list ns" for k
    using that assms mixed_radix_unflat [of "length ns" ns buf k]
    by (simp add: rdx.decode_eq_unflat good_shape_def)
  then show ?thesis using rdx.visits_once [OF assms(1,2)] by metis
qed

lemma mixed_radix_visits_once_witness:
  "\<exists>!k. 0 \<le> k \<and> k < 24 \<and> mixed_radix 3 [2, 3, 4] k [0, 0, 0] = [1, 0, 3]"
  using mixed_radix_visits_once [of "[2, 3, 4]" "[1, 0, 3]" "[0, 0, 0]"]
  by (simp add: good_shape_def CATERVA_MAX_DIM_def numeral_3_eq_3)

end
