(* ===== verification/Types.thy ===== *)
theory Types
  imports Prelude
begin

text \<open>
  The public data types of \<^verbatim>\<open>include/libiarray/iarray.h\<close> and the tables over them: element
  types with their codes and sizes (\<open>iarray_set_dtype_size\<close>), the "iarray" metalayer that
  stores the element type with an array (\<open>_iarray_serialize_meta\<close>,
  \<open>_iarray_deserialize_meta\<close> in \<^verbatim>\<open>src/iarray_private.h\<close>), the argument types handed to the
  expression compiler (\<open>iarray_udf_func_register\<close>) and the configuration records.
\<close>

section \<open>Element types\<close>

datatype iarray_data_type =
    IARRAY_DATA_TYPE_DOUBLE
  | IARRAY_DATA_TYPE_FLOAT
  | IARRAY_DATA_TYPE_INT64
  | IARRAY_DATA_TYPE_INT32
  | IARRAY_DATA_TYPE_INT16
  | IARRAY_DATA_TYPE_INT8
  | IARRAY_DATA_TYPE_UINT64
  | IARRAY_DATA_TYPE_UINT32
  | IARRAY_DATA_TYPE_UINT16
  | IARRAY_DATA_TYPE_UINT8
  | IARRAY_DATA_TYPE_BOOL
  | IARRAY_DATA_TYPE_MAX

fun dtype_code :: "iarray_data_type \<Rightarrow> int" where
  "dtype_code IARRAY_DATA_TYPE_DOUBLE = 0"
| "dtype_code IARRAY_DATA_TYPE_FLOAT = 1"
| "dtype_code IARRAY_DATA_TYPE_INT64 = 10"
| "dtype_code IARRAY_DATA_TYPE_INT32 = 11"
| "dtype_code IARRAY_DATA_TYPE_INT16 = 12"
| "dtype_code IARRAY_DATA_TYPE_INT8 = 13"
| "dtype_code IARRAY_DATA_TYPE_UINT64 = 16"
| "dtype_code IARRAY_DATA_TYPE_UINT32 = 17"
| "dtype_code IARRAY_DATA_TYPE_UINT16 = 18"
| "dtype_code IARRAY_DATA_TYPE_UINT8 = 19"
| "dtype_code IARRAY_DATA_TYPE_BOOL = 24"
| "dtype_code IARRAY_DATA_TYPE_MAX = 25"

text \<open>
  An enumeration variable of C holds any integer. Where the code takes one from outside (the
  metalayer of a file) the model keeps the integer; \<open>dtype_of_code\<close> names it when it is the
  value of an enumerator.
\<close>

definition all_dtypes :: "iarray_data_type list" where
  "all_dtypes = [IARRAY_DATA_TYPE_DOUBLE, IARRAY_DATA_TYPE_FLOAT, IARRAY_DATA_TYPE_INT64,
     IARRAY_DATA_TYPE_INT32, IARRAY_DATA_TYPE_INT16, IARRAY_DATA_TYPE_INT8,
     IARRAY_DATA_TYPE_UINT64, IARRAY_DATA_TYPE_UINT32, IARRAY_DATA_TYPE_UINT16,
     IARRAY_DATA_TYPE_UINT8, IARRAY_DATA_TYPE_BOOL, IARRAY_DATA_TYPE_MAX]"

definition dtype_of_code :: "int \<Rightarrow> iarray_data_type option" where
  "dtype_of_code c = find (\<lambda>d. dtype_code d = c) all_dtypes"

lemma dtype_code_inj [simp]: "dtype_code a = dtype_code b \<longleftrightarrow> a = b"
  by (cases a; cases b) simp_all

lemma dtype_of_code_code [simp]: "dtype_of_code (dtype_code d) = Some d"
  by (cases d) (simp_all add: dtype_of_code_def all_dtypes_def)

lemma dtype_of_code_SomeD: "dtype_of_code c = Some d \<Longrightarrow> dtype_code d = c"
  by (auto simp: dtype_of_code_def find_Some_iff)

lemma dtype_code_bounds: "0 \<le> dtype_code d" "dtype_code d \<le> 25"
  by (cases d; simp)+

text \<open>The code compares element types by their codes (\<open>dtype > IARRAY_DATA_TYPE_MAX\<close>).\<close>

instantiation iarray_data_type :: linorder
begin

definition less_eq_iarray_data_type :: "iarray_data_type \<Rightarrow> iarray_data_type \<Rightarrow> bool" where
  "less_eq_iarray_data_type a b = (dtype_code a \<le> dtype_code b)"

definition less_iarray_data_type :: "iarray_data_type \<Rightarrow> iarray_data_type \<Rightarrow> bool" where
  "less_iarray_data_type a b = (dtype_code a < dtype_code b)"

instance
  by intro_classes (auto simp: less_eq_iarray_data_type_def less_iarray_data_type_def)

end

lemma dtype_le_MAX [simp]: "d \<le> IARRAY_DATA_TYPE_MAX"
  by (simp add: less_eq_iarray_data_type_def dtype_code_bounds)

lemma dtype_less_MAX: "d < IARRAY_DATA_TYPE_MAX \<longleftrightarrow> d \<noteq> IARRAY_DATA_TYPE_MAX"
  by (simp add: order_less_le)

section \<open>Shapes, storage and configuration\<close>

text \<open>
  \<open>iarray_dtshape_t\<close>, \<open>iarray_storage_t\<close>, \<open>iarray_auxshape_t\<close>. The arrays have
  \<open>IARRAY_DIMENSION_MAX\<close> slots in the code, of which the first \<open>ndim\<close> are in use.
\<close>

definition IARRAY_DIMENSION_MAX :: nat where
  "IARRAY_DIMENSION_MAX = 8"

record iarray_dtshape =
  dtype :: iarray_data_type
  dtype_size :: int
  ndim :: nat
  shape :: "int list"

record iarray_storage =
  urlpath :: "string option"
  contiguous :: bool
  chunkshape :: "int list"
  blockshape :: "int list"

record iarray_auxshape =
  aux_offset :: "int list"
  shape_wos :: "int list"
  chunkshape_wos :: "int list"
  blockshape_wos :: "int list"
  aux_index :: "nat list"

datatype iarray_compression_codec =
    IARRAY_COMPRESSION_BLOSCLZ
  | IARRAY_COMPRESSION_LZ4
  | IARRAY_COMPRESSION_LZ4HC
  | IARRAY_COMPRESSION_SNAPPY
  | IARRAY_COMPRESSION_ZLIB
  | IARRAY_COMPRESSION_ZSTD
  | IARRAY_COMPRESSION_ZFP_FIXED_ACCURACY
  | IARRAY_COMPRESSION_ZFP_FIXED_PRECISION
  | IARRAY_COMPRESSION_ZFP_FIXED_RATE

datatype iarray_compression_favor =
    IARRAY_COMPRESSION_FAVOR_BALANCE
  | IARRAY_COMPRESSION_FAVOR_SPEED
  | IARRAY_COMPRESSION_FAVOR_CRATIO

text \<open>
  \<open>iarray_config_t\<close>. The bit set \<open>filter_flags\<close> is kept as a 32-bit word; \<open>eval_method\<close> keeps
  its three low bits for the method, as the header file says.
\<close>

record iarray_config =
  compression_codec :: iarray_compression_codec
  compression_level :: int
  compression_favor :: iarray_compression_favor
  use_dict :: int
  splitmode :: int
  filter_flags :: "32 word"
  eval_method :: int
  max_num_threads :: int
  fp_mantissa_bits :: int
  cfg_btune :: bool
  compression_meta :: int

definition IARRAY_COMP_SHUFFLE :: "32 word" where "IARRAY_COMP_SHUFFLE = 1"
definition IARRAY_COMP_BITSHUFFLE :: "32 word" where "IARRAY_COMP_BITSHUFFLE = 2"
definition IARRAY_COMP_DELTA :: "32 word" where "IARRAY_COMP_DELTA = 4"
definition IARRAY_COMP_TRUNC_PREC :: "32 word" where "IARRAY_COMP_TRUNC_PREC = 8"

lemmas comp_flag_defs = IARRAY_COMP_SHUFFLE_def IARRAY_COMP_BITSHUFFLE_def
  IARRAY_COMP_DELTA_def IARRAY_COMP_TRUNC_PREC_def

definition IARRAY_CONFIG_DEFAULTS :: iarray_config where
  "IARRAY_CONFIG_DEFAULTS = \<lparr> compression_codec = IARRAY_COMPRESSION_LZ4,
     compression_level = 5, compression_favor = IARRAY_COMPRESSION_FAVOR_BALANCE,
     use_dict = 0, splitmode = 3, filter_flags = IARRAY_COMP_SHUFFLE, eval_method = 2,
     max_num_threads = 1, fp_mantissa_bits = 0, cfg_btune = True, compression_meta = 0 \<rparr>"

definition IARRAY_CONFIG_NO_COMPRESSION :: iarray_config where
  "IARRAY_CONFIG_NO_COMPRESSION = \<lparr> compression_codec = IARRAY_COMPRESSION_LZ4,
     compression_level = 0, compression_favor = IARRAY_COMPRESSION_FAVOR_BALANCE,
     use_dict = 0, splitmode = 3, filter_flags = 0, eval_method = 0,
     max_num_threads = 1, fp_mantissa_bits = 0, cfg_btune = False, compression_meta = 0 \<rparr>"

section \<open>Element sizes\<close>

fun iarray_set_dtype_size :: "iarray_dtshape \<Rightarrow> iarray_dtshape res" where
  "iarray_set_dtype_size d =
     (case dtype d of
        IARRAY_DATA_TYPE_DOUBLE \<Rightarrow> Inr (d\<lparr>dtype_size := 8\<rparr>)
      | IARRAY_DATA_TYPE_INT64 \<Rightarrow> Inr (d\<lparr>dtype_size := 8\<rparr>)
      | IARRAY_DATA_TYPE_UINT64 \<Rightarrow> Inr (d\<lparr>dtype_size := 8\<rparr>)
      | IARRAY_DATA_TYPE_FLOAT \<Rightarrow> Inr (d\<lparr>dtype_size := 4\<rparr>)
      | IARRAY_DATA_TYPE_INT32 \<Rightarrow> Inr (d\<lparr>dtype_size := 4\<rparr>)
      | IARRAY_DATA_TYPE_UINT32 \<Rightarrow> Inr (d\<lparr>dtype_size := 4\<rparr>)
      | IARRAY_DATA_TYPE_INT16 \<Rightarrow> Inr (d\<lparr>dtype_size := 2\<rparr>)
      | IARRAY_DATA_TYPE_UINT16 \<Rightarrow> Inr (d\<lparr>dtype_size := 2\<rparr>)
      | IARRAY_DATA_TYPE_INT8 \<Rightarrow> Inr (d\<lparr>dtype_size := 1\<rparr>)
      | IARRAY_DATA_TYPE_UINT8 \<Rightarrow> Inr (d\<lparr>dtype_size := 1\<rparr>)
      | IARRAY_DATA_TYPE_BOOL \<Rightarrow> Inr (d\<lparr>dtype_size := 1\<rparr>)
      | IARRAY_DATA_TYPE_MAX \<Rightarrow> Inl IARRAY_ERR_INVALID_DTYPE)"

lemma set_dtype_size_succeeds_iff:
  "(\<exists>d'. iarray_set_dtype_size d = Inr d') \<longleftrightarrow> dtype d \<noteq> IARRAY_DATA_TYPE_MAX"
  by (cases "dtype d") simp_all

lemma set_dtype_size_InrD:
  assumes "iarray_set_dtype_size d = Inr d'"
  shows "dtype d' = dtype d" "shape d' = shape d" "ndim d' = ndim d"
    "dtype_size d' \<in> {1, 2, 4, 8}"
  using assms by (cases "dtype d"; auto)+

declare iarray_set_dtype_size.simps [simp del]

section \<open>The metalayer\<close>

text \<open>
  Four bytes: the msgpack marker of a three-element array, the version, the element type and
  the flags. \<open>None\<close> stands for the return value \<open>-1\<close>.
\<close>

definition iarray_serialize_meta :: "iarray_data_type \<Rightarrow> 8 word list option" where
  "iarray_serialize_meta d =
     (if d > IARRAY_DATA_TYPE_MAX then None
      else Some [0x93, 0, word_of_int (dtype_code d), 0])"

text \<open>
  The reader checks the marker with \<open>INA_ASSERT_EQUAL\<close> and the length with \<open>assert\<close>; both
  abort in a debug build, which is the error \<open>IARRAY_ERR_ASSERTION_FAILED\<close> here. It stores
  the byte without looking whether an enumerator has that value, so the result is an integer.
\<close>

definition iarray_deserialize_meta :: "8 word list \<Rightarrow> int res" where
  "iarray_deserialize_meta smeta =
     (if length smeta \<noteq> 4 \<or> smeta ! 0 \<noteq> 0x93 then Inl IARRAY_ERR_ASSERTION_FAILED
      else let dtype = uint (smeta ! 2) in
        if dtype \<ge> dtype_code IARRAY_DATA_TYPE_MAX then Inl IARRAY_ERR_INVALID_DTYPE
        else Inr dtype)"

lemma uint_dtype_code [simp]: "uint (word_of_int (dtype_code d) :: 8 word) = dtype_code d"
  by (cases d) simp_all

lemma deserialize_serialize:
  "iarray_serialize_meta d = Some b \<Longrightarrow> iarray_deserialize_meta b =
    (if d = IARRAY_DATA_TYPE_MAX then Inl IARRAY_ERR_INVALID_DTYPE else Inr (dtype_code d))"
  by (cases d) (auto simp: iarray_serialize_meta_def iarray_deserialize_meta_def split: if_splits)

section \<open>Types of the expression compiler\<close>

datatype jug_expression_dtype =
    JUG_EXPRESSION_DTYPE_DOUBLE
  | JUG_EXPRESSION_DTYPE_FLOAT
  | JUG_EXPRESSION_DTYPE_SINT64
  | JUG_EXPRESSION_DTYPE_SINT32
  | JUG_EXPRESSION_DTYPE_SINT16
  | JUG_EXPRESSION_DTYPE_SINT8
  | JUG_EXPRESSION_DTYPE_UINT64
  | JUG_EXPRESSION_DTYPE_UINT32
  | JUG_EXPRESSION_DTYPE_UINT16
  | JUG_EXPRESSION_DTYPE_UINT8

fun udf_return_dtype :: "iarray_data_type \<Rightarrow> jug_expression_dtype res" where
  "udf_return_dtype IARRAY_DATA_TYPE_DOUBLE = Inr JUG_EXPRESSION_DTYPE_DOUBLE"
| "udf_return_dtype IARRAY_DATA_TYPE_INT64 = Inr JUG_EXPRESSION_DTYPE_SINT64"
| "udf_return_dtype IARRAY_DATA_TYPE_UINT64 = Inr JUG_EXPRESSION_DTYPE_UINT64"
| "udf_return_dtype IARRAY_DATA_TYPE_FLOAT = Inr JUG_EXPRESSION_DTYPE_FLOAT"
| "udf_return_dtype IARRAY_DATA_TYPE_INT32 = Inr JUG_EXPRESSION_DTYPE_SINT32"
| "udf_return_dtype IARRAY_DATA_TYPE_UINT32 = Inr JUG_EXPRESSION_DTYPE_UINT32"
| "udf_return_dtype IARRAY_DATA_TYPE_INT16 = Inr JUG_EXPRESSION_DTYPE_SINT16"
| "udf_return_dtype IARRAY_DATA_TYPE_UINT16 = Inr JUG_EXPRESSION_DTYPE_UINT16"
| "udf_return_dtype IARRAY_DATA_TYPE_INT8 = Inr JUG_EXPRESSION_DTYPE_SINT8"
| "udf_return_dtype IARRAY_DATA_TYPE_UINT8 = Inr JUG_EXPRESSION_DTYPE_UINT8"
| "udf_return_dtype IARRAY_DATA_TYPE_BOOL = Inr JUG_EXPRESSION_DTYPE_SINT8"
| "udf_return_dtype IARRAY_DATA_TYPE_MAX = Inl IARRAY_ERR_INVALID_DTYPE"

text \<open>
  The argument loop has a second copy of the table and stops at the first type it rejects.
\<close>

fun udf_arg_dtypes :: "iarray_data_type list \<Rightarrow> jug_expression_dtype list res" where
  "udf_arg_dtypes [] = Inr []"
| "udf_arg_dtypes (t # ts) =
     (let jt = (case t of
          IARRAY_DATA_TYPE_DOUBLE \<Rightarrow> Inr JUG_EXPRESSION_DTYPE_DOUBLE
        | IARRAY_DATA_TYPE_INT64 \<Rightarrow> Inr JUG_EXPRESSION_DTYPE_SINT64
        | IARRAY_DATA_TYPE_UINT64 \<Rightarrow> Inr JUG_EXPRESSION_DTYPE_UINT64
        | IARRAY_DATA_TYPE_FLOAT \<Rightarrow> Inr JUG_EXPRESSION_DTYPE_FLOAT
        | IARRAY_DATA_TYPE_INT32 \<Rightarrow> Inr JUG_EXPRESSION_DTYPE_SINT32
        | IARRAY_DATA_TYPE_UINT32 \<Rightarrow> Inr JUG_EXPRESSION_DTYPE_UINT32
        | IARRAY_DATA_TYPE_INT16 \<Rightarrow> Inr JUG_EXPRESSION_DTYPE_SINT16
        | IARRAY_DATA_TYPE_UINT16 \<Rightarrow> Inr JUG_EXPRESSION_DTYPE_UINT16
        | IARRAY_DATA_TYPE_INT8 \<Rightarrow> Inr JUG_EXPRESSION_DTYPE_SINT8
        | IARRAY_DATA_TYPE_UINT8 \<Rightarrow> Inr JUG_EXPRESSION_DTYPE_UINT8
        | IARRAY_DATA_TYPE_BOOL \<Rightarrow> Inr JUG_EXPRESSION_DTYPE_SINT8
        | IARRAY_DATA_TYPE_MAX \<Rightarrow> Inl IARRAY_ERR_INVALID_DTYPE)
      in res_bind jt (\<lambda>j. res_bind (udf_arg_dtypes ts) (\<lambda>js. Inr (j # js))))"

text \<open>
  \<open>iarray_udf_func_register\<close>: \<open>register\<close> is \<open>jug_udf_func_register\<close> of the bundled compiler,
  a parameter; it is only called when every type has a translation.
\<close>

definition iarray_udf_func_register ::
    "(string \<Rightarrow> jug_expression_dtype \<Rightarrow> jug_expression_dtype list \<Rightarrow> 'r res) \<Rightarrow>
     iarray_data_type \<Rightarrow> iarray_data_type list \<Rightarrow> string \<Rightarrow> 'r res" where
  "iarray_udf_func_register register return_type arg_types name =
     res_bind (udf_return_dtype return_type) (\<lambda>jrt.
     res_bind (udf_arg_dtypes arg_types) (\<lambda>jargs.
     register name jrt jargs))"

definition jug_width :: "jug_expression_dtype \<Rightarrow> int" where
  "jug_width t = (case t of
      JUG_EXPRESSION_DTYPE_DOUBLE \<Rightarrow> 8 | JUG_EXPRESSION_DTYPE_FLOAT \<Rightarrow> 4
    | JUG_EXPRESSION_DTYPE_SINT64 \<Rightarrow> 8 | JUG_EXPRESSION_DTYPE_SINT32 \<Rightarrow> 4
    | JUG_EXPRESSION_DTYPE_SINT16 \<Rightarrow> 2 | JUG_EXPRESSION_DTYPE_SINT8 \<Rightarrow> 1
    | JUG_EXPRESSION_DTYPE_UINT64 \<Rightarrow> 8 | JUG_EXPRESSION_DTYPE_UINT32 \<Rightarrow> 4
    | JUG_EXPRESSION_DTYPE_UINT16 \<Rightarrow> 2 | JUG_EXPRESSION_DTYPE_UINT8 \<Rightarrow> 1)"

lemma udf_arg_dtypes_table:
  "udf_arg_dtypes (t # ts) =
    res_bind (udf_return_dtype t) (\<lambda>j. res_bind (udf_arg_dtypes ts) (\<lambda>js. Inr (j # js)))"
  by (cases t) simp_all

declare udf_arg_dtypes.simps(2) [simp del]

section \<open>Error subjects\<close>

text \<open>
  \<open>__get_err_getsubject\<close>: the text for a subject number of the error dictionary, relative to
  \<open>INA_ES_USER_DEFINED\<close>; the numbers 20 and 23 (iteration shape and axis) have no case.
\<close>

definition get_err_getsubject :: "int \<Rightarrow> string" where
  "get_err_getsubject i = (case map_of
     [(1, ''CONTAINER''), (2, ''DTSHAPE''), (3, ''SHAPE''), (4, ''CHUNK SHAPE''),
      (5, ''NUMBER OF DIMENSIONS''), (6, ''DATA TYPE''), (7, ''STORAGE''), (8, ''PERSISTENCY''),
      (9, ''BUFFER''), (10, ''CATERVA''), (11, ''BLOSC''), (12, ''ASSERTION''),
      (13, ''BLOCK SHAPE''), (14, ''RANDOM GENERATOR METHOD''), (15, ''RANDOM METHOD''),
      (16, ''RANDOM PARAM''), (17, ''ITERATOR''), (18, ''EVALUATION METHOD''),
      (19, ''EVALUATION ENGINE''), (21, ''NUMBER OF CORES''), (22, ''CACHE SIZES'')] i of
     None \<Rightarrow> '''' | Some s \<Rightarrow> s)"

section \<open>Properties\<close>

text \<open>
  Claim C39. What the metalayer writer produces for an element type of the library, the reader
  turns back into the code of that type, and the code names the type again.
\<close>

theorem meta_roundtrip:
  assumes "d \<noteq> IARRAY_DATA_TYPE_MAX" "iarray_serialize_meta d = Some b"
  shows "length b = 4 \<and>
    (\<exists>c. iarray_deserialize_meta b = Inr c \<and> dtype_of_code c = Some d)"
  using assms deserialize_serialize [OF assms(2)]
  by (auto simp: iarray_serialize_meta_def split: if_splits)

lemma meta_roundtrip_witness:
  "\<exists>c. iarray_deserialize_meta [0x93, 0, 17, 0] = Inr c \<and>
    dtype_of_code c = Some IARRAY_DATA_TYPE_UINT32"
  using meta_roundtrip [of IARRAY_DATA_TYPE_UINT32 "[0x93, 0, 17, 0]"]
  by (simp add: iarray_serialize_meta_def not_less)

text \<open>
  The guards of the two sides disagree: the writer accepts the marker
  \<open>IARRAY_DATA_TYPE_MAX\<close>, which the reader of the same bytes rejects, and the reader accepts
  code numbers that no enumerator has (such as the reserved 2), for which
  \<open>dtype_of_code\<close> finds no type.
\<close>

lemma meta_guards_disagree:
  "(\<exists>b. iarray_serialize_meta IARRAY_DATA_TYPE_MAX = Some b \<and>
      iarray_deserialize_meta b = Inl IARRAY_ERR_INVALID_DTYPE) \<and>
   iarray_deserialize_meta [0x93, 0, 2, 0] = Inr 2 \<and> dtype_of_code 2 = None"
proof (intro conjI)
  show "\<exists>b. iarray_serialize_meta IARRAY_DATA_TYPE_MAX = Some b \<and>
      iarray_deserialize_meta b = Inl IARRAY_ERR_INVALID_DTYPE"
    using deserialize_serialize [of IARRAY_DATA_TYPE_MAX]
    by (auto simp: iarray_serialize_meta_def)
  show "iarray_deserialize_meta [0x93, 0, 2, 0] = Inr 2"
    by (simp add: iarray_deserialize_meta_def)
  show "dtype_of_code 2 = None"
    by (simp add: dtype_of_code_def all_dtypes_def)
qed

text \<open>
  Registration of a user-defined function calls the compiler exactly when the return type
  and every argument type are element types of the library, and then hands over one
  translated type per argument, each as wide as \<open>iarray_set_dtype_size\<close> says the
  elements are; otherwise it fails with \<open>IARRAY_ERR_INVALID_DTYPE\<close> without calling it.
\<close>

lemma udf_register_translates:
  fixes d :: iarray_dtshape
  defines "sz t \<equiv> iarray_set_dtype_size (d\<lparr>dtype := t\<rparr>)"
  shows "if IARRAY_DATA_TYPE_MAX \<in> set (rt # ats)
    then iarray_udf_func_register register rt ats name = Inl IARRAY_ERR_INVALID_DTYPE
    else \<exists>jrt jats. iarray_udf_func_register register rt ats name = register name jrt jats \<and>
      list_all2 (\<lambda>t j. sz t = Inr (d\<lparr>dtype := t, dtype_size := jug_width j\<rparr>))
        (rt # ats) (jrt # jats)"
proof -
  have ret: "\<exists>j. udf_return_dtype t = Inr j \<and> sz t = Inr (d\<lparr>dtype := t, dtype_size := jug_width j\<rparr>)"
    if "t \<noteq> IARRAY_DATA_TYPE_MAX" for t
    using that by (cases t) (simp_all add: sz_def jug_width_def iarray_set_dtype_size.simps)
  have args: "\<exists>js. udf_arg_dtypes ts = Inr js \<and>
      list_all2 (\<lambda>t j. sz t = Inr (d\<lparr>dtype := t, dtype_size := jug_width j\<rparr>)) ts js"
    if "IARRAY_DATA_TYPE_MAX \<notin> set ts" for ts
    using that
  proof (induction ts)
    case (Cons t ts)
    then obtain js where js: "udf_arg_dtypes ts = Inr js"
        "list_all2 (\<lambda>t j. sz t = Inr (d\<lparr>dtype := t, dtype_size := jug_width j\<rparr>)) ts js"
      by auto
    obtain j where "udf_return_dtype t = Inr j"
        "sz t = Inr (d\<lparr>dtype := t, dtype_size := jug_width j\<rparr>)"
      using ret [of t] Cons.prems by auto
    then show ?case using js by (simp add: udf_arg_dtypes_table)
  qed simp
  have bad: "udf_arg_dtypes ts = Inl IARRAY_ERR_INVALID_DTYPE"
    if "IARRAY_DATA_TYPE_MAX \<in> set ts" for ts
    using that
  proof (induction ts)
    case (Cons t ts)
    then show ?case using ret [of t]
      by (cases "t = IARRAY_DATA_TYPE_MAX") (auto simp: udf_arg_dtypes_table)
  qed simp
  show ?thesis
  proof (cases "rt = IARRAY_DATA_TYPE_MAX")
    case True
    then show ?thesis by (simp add: iarray_udf_func_register_def)
  next
    case False
    then obtain jrt where jrt: "udf_return_dtype rt = Inr jrt"
        "sz rt = Inr (d\<lparr>dtype := rt, dtype_size := jug_width jrt\<rparr>)"
      using ret by blast
    show ?thesis
    proof (cases "IARRAY_DATA_TYPE_MAX \<in> set ats")
      case True
      then show ?thesis using jrt(1) bad by (simp add: iarray_udf_func_register_def)
    next
      case no: False
      then obtain js where "udf_arg_dtypes ats = Inr js"
          "list_all2 (\<lambda>t j. sz t = Inr (d\<lparr>dtype := t, dtype_size := jug_width j\<rparr>)) ats js"
        using args by blast
      then have "iarray_udf_func_register register rt ats name = register name jrt js \<and>
          list_all2 (\<lambda>t j. sz t = Inr (d\<lparr>dtype := t, dtype_size := jug_width j\<rparr>))
            (rt # ats) (jrt # js)"
        using jrt by (simp add: iarray_udf_func_register_def)
      then show ?thesis using no False by auto
    qed
  qed
qed

end
