(* ===== verification/BtuneConfig.thy ===== *)
theory BtuneConfig
  imports Prelude
begin

text \<open>
  The configuration of the tuner, the public part of \<^verbatim>\<open>src/btune/iabtune.h\<close>: its modes, the numbers of
  readapts and waits, and the defaults from which \<^verbatim>\<open>src/iarray.c\<close> starts.
\<close>

datatype btune_comp_mode = BTUNE_COMP_HSP | BTUNE_COMP_BALANCED | BTUNE_COMP_HCR
datatype btune_performance_mode = BTUNE_PERF_COMP | BTUNE_PERF_DECOMP | BTUNE_PERF_BALANCED
datatype btune_repeat_mode = BTUNE_STOP | BTUNE_REPEAT_SOFT | BTUNE_REPEAT_ALL

record btune_behaviour =
  nwaits_before_readapt :: nat
  nsofts_before_hard :: nat
  nhards_before_stop :: nat
  repeat_mode :: btune_repeat_mode

record btune_config =
  bandwidth :: int
  perf_mode :: btune_performance_mode
  comp_mode :: btune_comp_mode
  behaviour :: btune_behaviour
  cparams_hint :: bool

definition BTUNE_CONFIG_DEFAULTS :: btune_config where
  "BTUNE_CONFIG_DEFAULTS = \<lparr> bandwidth = 2 * (10 * 1024 * 1024), perf_mode = BTUNE_PERF_BALANCED,
     comp_mode = BTUNE_COMP_BALANCED,
     behaviour = \<lparr> nwaits_before_readapt = 0, nsofts_before_hard = 5, nhards_before_stop = 1,
       repeat_mode = BTUNE_STOP \<rparr>, cparams_hint = False \<rparr>"

end
