(* ===== verification/Config.thy ===== *)
theory Config
  imports Types BtuneConfig
begin

text \<open>
  Translation of a library configuration into the parameters of the storage layer
  (\<^verbatim>\<open>src/iarray.c\<close>: \<open>iarray_create_blosc_cparams\<close>, \<open>iarray_create_caterva_cfg\<close>,
  \<open>iarray_create_caterva_params\<close>, \<open>iarray_create_caterva_storage\<close>) and back
  (\<^verbatim>\<open>src/iarray_container.c\<close>: \<open>iarray_get_cfg\<close>). The filter identifiers and the number
  of filter slots are constants of c-blosc2; its codec numbers for ZFP, its default
  compression parameters and the creation of a super-chunk from a configuration are
  arguments of the definitions and theorems.
\<close>

unbundle bit_operations_syntax

datatype blosc_filter =
    BLOSC_NOFILTER
  | BLOSC_SHUFFLE
  | BLOSC_BITSHUFFLE
  | BLOSC_DELTA
  | BLOSC_TRUNC_PREC
  | BLOSC_OTHER_FILTER nat

definition BLOSC2_MAX_FILTERS :: nat where
  "BLOSC2_MAX_FILTERS = 6"

fun codec_code :: "iarray_compression_codec \<Rightarrow> int" where
  "codec_code IARRAY_COMPRESSION_BLOSCLZ = 0"
| "codec_code IARRAY_COMPRESSION_LZ4 = 1"
| "codec_code IARRAY_COMPRESSION_LZ4HC = 2"
| "codec_code IARRAY_COMPRESSION_SNAPPY = 3"
| "codec_code IARRAY_COMPRESSION_ZLIB = 4"
| "codec_code IARRAY_COMPRESSION_ZSTD = 5"
| "codec_code IARRAY_COMPRESSION_ZFP_FIXED_ACCURACY = 6"
| "codec_code IARRAY_COMPRESSION_ZFP_FIXED_PRECISION = 7"
| "codec_code IARRAY_COMPRESSION_ZFP_FIXED_RATE = 8"

definition is_zfp :: "iarray_compression_codec \<Rightarrow> bool" where
  "is_zfp c \<longleftrightarrow> c \<in> {IARRAY_COMPRESSION_ZFP_FIXED_ACCURACY,
     IARRAY_COMPRESSION_ZFP_FIXED_PRECISION, IARRAY_COMPRESSION_ZFP_FIXED_RATE}"

lemma codec_code_inj [simp]: "codec_code a = codec_code b \<longleftrightarrow> a = b"
  by (cases a; cases b) simp_all

definition to_i16 :: "int \<Rightarrow> int" where
  "to_i16 x = (x + 2 ^ 15) mod 2 ^ 16 - 2 ^ 15"

definition to_i32 :: "int \<Rightarrow> int" where
  "to_i32 x = (x + 2 ^ 31) mod 2 ^ 32 - 2 ^ 31"

section \<open>Parameters of the storage layer\<close>

record blosc_params =
  filters :: "blosc_filter list"
  filters_meta :: "int list"
  compcode :: int
  compcode_meta :: int
  clevel :: int
  p_use_dict :: int
  p_splitmode :: int
  p_nthreads :: int

record blosc2_cparams = blosc_params +
  blocksize :: int
  typesize :: int

record caterva_config = blosc_params +
  udbtune :: "btune_config option"

text \<open>
  The filter pipeline of \<open>iarray_create_blosc_cparams\<close>, over the arrays \<open>filters\<close> and
  \<open>filters_meta\<close>. The slot index is a local variable that the code never advances.
\<close>

definition blosc_filter_pipeline ::
    "32 word \<Rightarrow> int \<Rightarrow> blosc_filter list \<times> int list \<Rightarrow> blosc_filter list \<times> int list" where
  "blosc_filter_pipeline flags mantissa fm =
     (let (f, m) = fm;
        blosc_filter_idx = 0;
        (f, m) = (if flags AND IARRAY_COMP_TRUNC_PREC \<noteq> 0
                  then (f[blosc_filter_idx := BLOSC_TRUNC_PREC], m[blosc_filter_idx := mantissa])
                  else (f, m));
        f = (if flags AND IARRAY_COMP_DELTA \<noteq> 0 then f[blosc_filter_idx := BLOSC_DELTA] else f);
        f = (if flags AND IARRAY_COMP_BITSHUFFLE \<noteq> 0
             then f[BLOSC2_MAX_FILTERS - 1 := BLOSC_BITSHUFFLE] else f);
        f = (if flags AND IARRAY_COMP_SHUFFLE \<noteq> 0
             then f[BLOSC2_MAX_FILTERS - 1 := BLOSC_SHUFFLE] else f)
      in (f, m))"

definition iarray_create_blosc_cparams ::
    "(iarray_compression_codec \<Rightarrow> int) \<Rightarrow> blosc2_cparams \<Rightarrow> iarray_config \<Rightarrow> int \<Rightarrow> int \<Rightarrow> blosc2_cparams" where
  "iarray_create_blosc_cparams zfp_code cparams_defaults cfg ts bs =
     (let cp = cparams_defaults
          \<lparr>compcode := codec_code (compression_codec cfg), p_use_dict := use_dict cfg,
           clevel := compression_level cfg mod 256, blocksize := bs,
           p_splitmode := splitmode cfg, typesize := ts,
           p_nthreads := to_i16 (max_num_threads cfg)\<rparr>;
        fm = blosc_filter_pipeline (filter_flags cfg) (fp_mantissa_bits cfg)
               (filters cp, filters_meta cp);
        cp = cp\<lparr>filters := fst fm, filters_meta := snd fm\<rparr>
      in if is_zfp (compression_codec cfg)
         then cp\<lparr>compcode := zfp_code (compression_codec cfg), compcode_meta := compression_meta cfg\<rparr>
         else cp\<lparr>compcode := codec_code (compression_codec cfg)\<rparr>)"

text \<open>
  The fields \<open>complevel\<close>, \<open>compcodec\<close> and \<open>compmeta\<close> of the storage configuration are of type
  \<open>uint8_t\<close>, so the assignments keep the value modulo 256; the mantissa bits are \<open>uint8_t\<close> on
  both sides. \<open>iarray_create_caterva_cfg\<close> has its own copy of the pipeline, which advances the slot
  index. It also writes to its input: level 0 switches the tuner off.
  The result is the configuration afterwards and the storage configuration; the tuner
  callbacks it installs are represented by the compression mode they run with.
\<close>

definition caterva_filter_pipeline :: "32 word \<Rightarrow> int \<Rightarrow> blosc_filter list \<times> int list" where
  "caterva_filter_pipeline flags mantissa =
     (let f = replicate BLOSC2_MAX_FILTERS BLOSC_NOFILTER;
        m = replicate BLOSC2_MAX_FILTERS 0;
        blosc_filter_idx = (0::nat);
        (f, m, blosc_filter_idx) = (if flags AND IARRAY_COMP_TRUNC_PREC \<noteq> 0
             then (f[blosc_filter_idx := BLOSC_TRUNC_PREC], m[blosc_filter_idx := mantissa],
                   blosc_filter_idx + 1)
             else (f, m, blosc_filter_idx));
        f = (if flags AND IARRAY_COMP_DELTA \<noteq> 0 then f[blosc_filter_idx := BLOSC_DELTA] else f);
        f = (if flags AND IARRAY_COMP_BITSHUFFLE \<noteq> 0
             then f[BLOSC2_MAX_FILTERS - 1 := BLOSC_BITSHUFFLE] else f);
        f = (if flags AND IARRAY_COMP_SHUFFLE \<noteq> 0
             then f[BLOSC2_MAX_FILTERS - 1 := BLOSC_SHUFFLE] else f)
      in (f, m))"

definition iarray_create_caterva_cfg ::
    "(iarray_compression_codec \<Rightarrow> int) \<Rightarrow> iarray_config \<Rightarrow> iarray_config \<times> caterva_config" where
  "iarray_create_caterva_cfg zfp_code cfg =
     (let cfg = (if compression_level cfg = 0 then cfg\<lparr>cfg_btune := False\<rparr> else cfg);
        fm = caterva_filter_pipeline (filter_flags cfg) (fp_mantissa_bits cfg);
        zfp = is_zfp (compression_codec cfg)
      in (cfg,
         \<lparr> filters = fst fm, filters_meta = snd fm,
           compcode = (if zfp then zfp_code (compression_codec cfg)
                       else codec_code (compression_codec cfg)) mod 256,
           compcode_meta = (if zfp then compression_meta cfg else 0) mod 256,
           clevel = compression_level cfg mod 256, p_use_dict = use_dict cfg,
           p_splitmode = splitmode cfg, p_nthreads = to_i16 (max_num_threads cfg),
           udbtune = (if cfg_btune cfg
              then Some (BTUNE_CONFIG_DEFAULTS\<lparr>comp_mode := (case compression_favor cfg of
                    IARRAY_COMPRESSION_FAVOR_CRATIO \<Rightarrow> BTUNE_COMP_HCR
                  | IARRAY_COMPRESSION_FAVOR_SPEED \<Rightarrow> BTUNE_COMP_HSP
                  | IARRAY_COMPRESSION_FAVOR_BALANCE \<Rightarrow> BTUNE_COMP_BALANCED)\<rparr>)
              else None) \<rparr>))"

text \<open>
  The super-chunk (\<open>blosc2_schunk\<close>) of a container is created by caterva and c-blosc2, which are not
  part of this code: the function from the storage configuration to the parameters the
  super-chunk holds is a parameter of the theorems, and \<open>keeps_params\<close> states what is relied
  on, the documented behaviour that the fields \<open>filters\<close>, \<open>filters_meta\<close>, \<open>clevel\<close>, \<open>compcode\<close> and
  \<open>compcode_meta\<close> of a new super-chunk are those it was created with.
\<close>

type_synonym schunk_params = blosc_params

definition keeps_params :: "(caterva_config \<Rightarrow> schunk_params) \<Rightarrow> bool" where
  "keeps_params new_schunk \<longleftrightarrow> (\<forall>cc. filters (new_schunk cc) = filters cc \<and>
     filters_meta (new_schunk cc) = filters_meta cc \<and> clevel (new_schunk cc) = clevel cc \<and>
     compcode (new_schunk cc) = compcode cc \<and> compcode_meta (new_schunk cc) = compcode_meta cc)"

text \<open>
  \<open>iarray_get_cfg\<close> reads the parameters back from the super-chunk of a container. The
  codec field receives the number as it is, so it stays a number here.
\<close>

definition get_cfg_filter ::
    "(32 word \<times> int) res \<Rightarrow> blosc_filter \<times> int \<Rightarrow> (32 word \<times> int) res" where
  "get_cfg_filter r fm = res_bind r (\<lambda>(flags, bits).
     (case fst fm of
        BLOSC_SHUFFLE \<Rightarrow> Inr (flags OR IARRAY_COMP_SHUFFLE, bits)
      | BLOSC_BITSHUFFLE \<Rightarrow> Inr (flags OR IARRAY_COMP_BITSHUFFLE, bits)
      | BLOSC_DELTA \<Rightarrow> Inr (flags OR IARRAY_COMP_DELTA, bits)
      | BLOSC_TRUNC_PREC \<Rightarrow> Inr (flags OR IARRAY_COMP_TRUNC_PREC, snd fm)
      | BLOSC_NOFILTER \<Rightarrow> Inr (flags, bits)
      | BLOSC_OTHER_FILTER _ \<Rightarrow> Inl IARRAY_ERR_BLOSC_FAILED))"

record read_cfg =
  r_filter_flags :: "32 word"
  r_fp_mantissa_bits :: int
  r_compression_level :: int
  r_compression_codec :: int
  r_compression_meta :: int
  r_use_dict :: int
  r_btune :: bool
  r_max_num_threads :: int
  r_eval_method :: int
  r_compression_favor :: iarray_compression_favor

definition iarray_get_cfg :: "iarray_config \<Rightarrow> schunk_params \<Rightarrow> read_cfg res" where
  "iarray_get_cfg ctx_cfg sc =
     res_bind (fold (\<lambda>i r. get_cfg_filter r (filters sc ! i, filters_meta sc ! i))
                 [0..<BLOSC2_MAX_FILTERS] (Inr (0, 0)))
       (\<lambda>(flags, bits). Inr
         \<lparr> r_filter_flags = flags, r_fp_mantissa_bits = bits,
           r_compression_level = clevel sc, r_compression_codec = compcode sc,
           r_compression_meta = compcode_meta sc, r_use_dict = 0,
           r_btune = cfg_btune ctx_cfg, r_max_num_threads = max_num_threads ctx_cfg,
           r_eval_method = eval_method ctx_cfg, r_compression_favor = compression_favor ctx_cfg \<rparr>)"

section \<open>Shape and storage parameters\<close>

record caterva_params =
  cp_ndim :: nat
  cp_itemsize :: int
  cp_shape :: "int list"

definition iarray_create_caterva_params :: "iarray_dtshape \<Rightarrow> caterva_params" where
  "iarray_create_caterva_params d =
     \<lparr> cp_ndim = ndim d, cp_itemsize = dtype_size d mod 256,
       cp_shape = fold (\<lambda>i s. s[i := shape d ! i]) [0..<ndim d] (replicate IARRAY_DIMENSION_MAX 0) \<rparr>"

record caterva_storage =
  cs_contiguous :: bool
  cs_urlpath :: "string option"
  cs_chunkshape :: "int list"
  cs_blockshape :: "int list"
  cs_metalayers :: "(string \<times> 8 word list) list"

text \<open>
  \<open>caterva_storage_fields\<close> is what \<open>iarray_create_caterva_storage\<close> has set when the metalayer cannot be
  serialised; a caller that does not look at the result goes on with it.
\<close>

definition caterva_storage_fields :: "iarray_dtshape \<Rightarrow> iarray_storage \<Rightarrow> caterva_storage" where
  "caterva_storage_fields d st =
     \<lparr> cs_contiguous = contiguous st, cs_urlpath = urlpath st,
       cs_chunkshape = fold (\<lambda>i s. s[i := to_i32 (chunkshape st ! i)]) [0..<ndim d]
         (replicate IARRAY_DIMENSION_MAX 0),
       cs_blockshape = fold (\<lambda>i s. s[i := to_i32 (blockshape st ! i)]) [0..<ndim d]
         (replicate IARRAY_DIMENSION_MAX 0),
       cs_metalayers = [] \<rparr>"

definition iarray_create_caterva_storage ::
    "iarray_dtshape \<Rightarrow> iarray_storage \<Rightarrow> caterva_storage res" where
  "iarray_create_caterva_storage d st =
     (let cs = caterva_storage_fields d st
      in case iarray_serialize_meta (dtype d) of
           None \<Rightarrow> Inl INA_ERR_FAILED
         | Some smeta \<Rightarrow> Inr (cs\<lparr>cs_metalayers := [(''iarray'', smeta)]\<rparr>))"

section \<open>Filters\<close>

text \<open>The four flag bits, one at a time.\<close>

lemma flag_tests:
  "w AND IARRAY_COMP_SHUFFLE \<noteq> 0 \<longleftrightarrow> bit w 0"
  "w AND IARRAY_COMP_BITSHUFFLE \<noteq> 0 \<longleftrightarrow> bit w 1"
  "w AND IARRAY_COMP_DELTA \<noteq> 0 \<longleftrightarrow> bit w 2"
  "w AND IARRAY_COMP_TRUNC_PREC \<noteq> 0 \<longleftrightarrow> bit w 3"
  unfolding comp_flag_defs
  by (auto simp: bit_iff_and_push_bit_not_eq_0 push_bit_eq_mult)

lemma filters6:
  "replicate BLOSC2_MAX_FILTERS x = [x, x, x, x, x, x]" "BLOSC2_MAX_FILTERS - 1 = 5"
  "[0..<BLOSC2_MAX_FILTERS] = [0, 1, 2, 3, 4, 5]"
  by (simp_all add: BLOSC2_MAX_FILTERS_def numeral_eq_Suc upt_rec)

lemma caterva_filter_pipeline_eq:
  "caterva_filter_pipeline w mb =
    ([if bit w 3 then BLOSC_TRUNC_PREC else if bit w 2 then BLOSC_DELTA else BLOSC_NOFILTER,
      if bit w 3 \<and> bit w 2 then BLOSC_DELTA else BLOSC_NOFILTER,
      BLOSC_NOFILTER, BLOSC_NOFILTER, BLOSC_NOFILTER,
      if bit w 0 then BLOSC_SHUFFLE else if bit w 1 then BLOSC_BITSHUFFLE else BLOSC_NOFILTER],
     [if bit w 3 then mb else 0, 0, 0, 0, 0, 0])"
  unfolding caterva_filter_pipeline_def Let_def flag_tests filters6
  by (cases "bit w 0"; cases "bit w 1"; cases "bit w 2"; cases "bit w 3")
    (simp_all add: numeral_eq_Suc)

definition pipeline_flags :: "32 word \<Rightarrow> 32 word" where
  "pipeline_flags w =
     (if bit w 3 then IARRAY_COMP_TRUNC_PREC else 0) OR
     (if bit w 2 then IARRAY_COMP_DELTA else 0) OR
     (if bit w 0 then IARRAY_COMP_SHUFFLE else if bit w 1 then IARRAY_COMP_BITSHUFFLE else 0)"

lemma get_cfg_filters:
  "fold (\<lambda>i r. get_cfg_filter r (fst (caterva_filter_pipeline w mb) ! i,
        snd (caterva_filter_pipeline w mb) ! i)) [0..<BLOSC2_MAX_FILTERS] (Inr (0, 0)) =
    Inr (pipeline_flags w, if bit w 3 then mb else 0)"
  unfolding caterva_filter_pipeline_eq filters6 pipeline_flags_def
  by (cases "bit w 0"; cases "bit w 1"; cases "bit w 2"; cases "bit w 3")
    (simp_all add: get_cfg_filter_def or.assoc)

lemma pipeline_flags_id:
  assumes "w < 16" "\<not> (bit w 0 \<and> bit w 1)"
  shows "pipeline_flags w = w"
proof -
  obtain n where n: "w = word_of_nat n" "n < 16"
    using assms(1) that [of "unat w"] by (simp add: word_less_nat_alt)
  moreover have "list_all (\<lambda>n. bit (word_of_nat n :: 32 word) 0 \<and> bit (word_of_nat n :: 32 word) 1 \<or>
      pipeline_flags (word_of_nat n) = word_of_nat n) [0..<16]"
    by code_simp
  ultimately show ?thesis using assms(2) by (auto simp: list_all_iff)
qed

section \<open>Properties\<close>

text \<open>
  Claim C34. The filters, the codec, the precision and the level modulo 256 (the level itself from 0 to
  255) that a configuration asks for are what \<open>iarray_get_cfg\<close> reports for the super-chunk
  created with it, for every combination of the four filter flags that does not ask for
  both shuffles, every codec but the ZFP ones, and every creation of super-chunks that
  keeps the parameters it is given.
\<close>

theorem config_roundtrip:
  assumes "filter_flags cfg < 16" "\<not> (bit (filter_flags cfg) 0 \<and> bit (filter_flags cfg) 1)"
    and "\<not> is_zfp (compression_codec cfg)"
    and "keeps_params new_schunk"
    and "iarray_create_caterva_cfg zfp cfg = (cfg', cc)"
  shows "\<exists>r. iarray_get_cfg ctx (new_schunk cc) = Inr r \<and> r_filter_flags r = filter_flags cfg \<and>
    r_fp_mantissa_bits r = (if filter_flags cfg AND IARRAY_COMP_TRUNC_PREC \<noteq> 0
       then fp_mantissa_bits cfg else 0) \<and>
    r_compression_level r = compression_level cfg mod 256 \<and>
    r_compression_codec r = codec_code (compression_codec cfg)"
proof -
  let ?fm = "caterva_filter_pipeline (filter_flags cfg) (fp_mantissa_bits cfg)"
  have "codec_code (compression_codec cfg) mod 256 = codec_code (compression_codec cfg)"
    by (cases "compression_codec cfg") simp_all
  then have "filters cc = fst ?fm" "filters_meta cc = snd ?fm"
      "clevel cc = compression_level cfg mod 256" "compcode cc = codec_code (compression_codec cfg)"
    using assms(3,5) by (auto simp: iarray_create_caterva_cfg_def Let_def)
  then show ?thesis
    using get_cfg_filters [of "filter_flags cfg" "fp_mantissa_bits cfg"] assms(1,2,4)
    by (simp add: iarray_get_cfg_def keeps_params_def pipeline_flags_id flag_tests)
qed

definition trunc_delta_config :: iarray_config where
  "trunc_delta_config = IARRAY_CONFIG_DEFAULTS\<lparr>filter_flags := 13, fp_mantissa_bits := 20\<rparr>"

definition plain_schunk :: "caterva_config \<Rightarrow> schunk_params" where
  "plain_schunk cc = \<lparr> filters = filters cc, filters_meta = filters_meta cc, compcode = compcode cc,
     compcode_meta = compcode_meta cc, clevel = clevel cc, p_use_dict = p_use_dict cc,
     p_splitmode = p_splitmode cc, p_nthreads = p_nthreads cc \<rparr>"

lemma config_roundtrip_witness:
  "\<exists>r. iarray_get_cfg IARRAY_CONFIG_DEFAULTS
      (plain_schunk (snd (iarray_create_caterva_cfg (\<lambda>c. 33) trunc_delta_config))) = Inr r \<and>
    r_filter_flags r = 13 \<and> r_fp_mantissa_bits r = 20 \<and>
    r_compression_level r = compression_level IARRAY_CONFIG_DEFAULTS"
proof -
  have "keeps_params plain_schunk" by (simp add: keeps_params_def plain_schunk_def)
  then show ?thesis
    using config_roundtrip [of trunc_delta_config plain_schunk "\<lambda>c. 33"
      "fst (iarray_create_caterva_cfg (\<lambda>c. 33) trunc_delta_config)"
      "snd (iarray_create_caterva_cfg (\<lambda>c. 33) trunc_delta_config)" IARRAY_CONFIG_DEFAULTS]
    by (auto simp: trunc_delta_config_def IARRAY_CONFIG_DEFAULTS_def is_zfp_def comp_flag_defs)
qed

text \<open>
  The level is not checked before it is narrowed: a configuration with level 256 keeps the
  tuner on and is stored, and reported, as level 0 (no compression).
\<close>

lemma level_256_is_stored_as_0:
  assumes "keeps_params new_schunk" "compression_level cfg = 256" "cfg_btune cfg" "\<not> is_zfp (compression_codec cfg)"
    and "iarray_create_caterva_cfg zfp cfg = (cfg', cc)"
  shows "clevel (new_schunk cc) = 0 \<and> cfg_btune cfg' \<and> udbtune cc \<noteq> None"
  using assms by (auto simp: iarray_create_caterva_cfg_def Let_def keeps_params_def)

text \<open>
  The other constructor of compression parameters, \<open>iarray_create_blosc_cparams\<close>, does not
  agree with it: when a configuration asks for both truncation and delta, the delta filter is
  written over the truncation filter in slot 0 (the slot index is not advanced), so the
  parameters it builds never truncate, while those of \<open>iarray_create_caterva_cfg\<close> do.
\<close>

lemma cparams_delta_drops_truncation:
  assumes "bit (filter_flags cfg) 2" "bit (filter_flags cfg) 3"
    and "length (filters defaults) = BLOSC2_MAX_FILTERS"
    and "BLOSC_TRUNC_PREC \<notin> set (filters defaults)"
  shows "BLOSC_TRUNC_PREC \<notin> set (filters (iarray_create_blosc_cparams zfp defaults cfg ts bs)) \<and>
    filters (iarray_create_blosc_cparams zfp defaults cfg ts bs) ! 0 = BLOSC_DELTA \<and>
    filters (snd (iarray_create_caterva_cfg zfp cfg)) ! 0 = BLOSC_TRUNC_PREC \<and>
    filters (snd (iarray_create_caterva_cfg zfp cfg)) ! 1 = BLOSC_DELTA"
proof -
  obtain a b c d e f where d: "filters defaults = [a, b, c, d, e, f]"
    using assms(3) by (auto simp: BLOSC2_MAX_FILTERS_def length_Suc_conv numeral_eq_Suc)
  have "filters (iarray_create_blosc_cparams zfp defaults cfg ts bs) =
      fst (blosc_filter_pipeline (filter_flags cfg) (fp_mantissa_bits cfg)
        (filters defaults, filters_meta defaults))"
    by (simp add: iarray_create_blosc_cparams_def Let_def)
  also have "\<dots> = [BLOSC_DELTA, b, c, d, e, if bit (filter_flags cfg) 0 then BLOSC_SHUFFLE
      else if bit (filter_flags cfg) 1 then BLOSC_BITSHUFFLE else f]"
    using assms(1,2) unfolding blosc_filter_pipeline_def flag_tests d filters6 Let_def
    by (simp add: numeral_eq_Suc)
  finally show ?thesis using assms d
    by (auto simp: iarray_create_caterva_cfg_def Let_def caterva_filter_pipeline_eq split: if_splits)
qed

definition blosc2_cparams_example :: blosc2_cparams where
  "blosc2_cparams_example = \<lparr> filters = [BLOSC_NOFILTER, BLOSC_NOFILTER, BLOSC_NOFILTER,
     BLOSC_NOFILTER, BLOSC_NOFILTER, BLOSC_SHUFFLE], filters_meta = [0, 0, 0, 0, 0, 0],
     compcode = 0, compcode_meta = 0, clevel = 5, p_use_dict = 0, p_splitmode = 4,
     p_nthreads = 1, blocksize = 0, typesize = 8 \<rparr>"

lemma cparams_delta_drops_truncation_witness:
  "BLOSC_TRUNC_PREC \<notin> set (filters
     (iarray_create_blosc_cparams (\<lambda>c. 33) blosc2_cparams_example trunc_delta_config 8 4096))"
  using cparams_delta_drops_truncation [of trunc_delta_config blosc2_cparams_example "\<lambda>c. 33" 8 4096]
  by (simp add: trunc_delta_config_def blosc2_cparams_example_def BLOSC2_MAX_FILTERS_def bit_numeral_rec)

end
