(* ===== verification/Floats.thy ===== *)
theory Floats
  imports Prelude "HOL-Library.Log_Nat"
begin

text \<open>
  The part of IEEE-754 arithmetic that decides something in the modelled code: rounding of a
  rational number to a given number of significant bits, ties to even. Exponent range limits
  are left out, the values that occur (conversions of 64-bit integers and quotients of such)
  stay far inside them.
\<close>

text \<open>Rounding to the nearest integer, a tie to the even one.\<close>

definition round_even :: "rat \<Rightarrow> int" where
  "round_even x = (let f = \<lfloor>x\<rfloor>; r = x - of_int f in
     if r < 1 / 2 then f
     else if r > 1 / 2 then f + 1
     else if even f then f else f + 1)"

text \<open>Multiplication by a possibly negative power of two.\<close>

definition scale2 :: "rat \<Rightarrow> int \<Rightarrow> rat" where
  "scale2 x e = (if 0 \<le> e then x * 2 ^ nat e else x / 2 ^ nat (- e))"

text \<open>
  Exponent of a positive rational: the \<open>e\<close> with \<open>2 ^ e \<le> x < 2 ^ (e + 1)\<close>, estimated from the
  lengths of numerator and denominator and corrected by one comparison.
\<close>

definition exponent2 :: "rat \<Rightarrow> int" where
  "exponent2 x = (let (n, d) = quotient_of x; e = bitlen n - bitlen d in
     if scale2 1 e \<le> x then e else e - 1)"

definition round_sig :: "nat \<Rightarrow> rat \<Rightarrow> rat" where
  "round_sig p x =
     (if x = 0 then 0
      else let s = int p - 1 - exponent2 \<bar>x\<bar> in scale2 (of_int (round_even (scale2 x s))) (- s))"

definition to_float :: "rat \<Rightarrow> rat" where
  "to_float = round_sig 24"

definition to_double :: "rat \<Rightarrow> rat" where
  "to_double = round_sig 53"

lemma round_even_of_int [simp]: "round_even (of_int n) = n"
  by (simp add: round_even_def)

lemma round_sig_0 [simp]: "round_sig p 0 = 0"
  by (simp add: round_sig_def)

lemma round_even_mono_0: "0 \<le> x \<Longrightarrow> 0 \<le> round_even x"
  by (auto simp: round_even_def Let_def)

lemma round_sig_nonneg: "0 \<le> x \<Longrightarrow> 0 \<le> round_sig p x"
  by (auto simp: round_sig_def Let_def scale2_def intro!: mult_nonneg_nonneg divide_nonneg_nonneg
      round_even_mono_0)

section \<open>Values\<close>

text \<open>
  A floating-point value is finite, an infinity (\<open>Inf True\<close> is the negative one) or
  not-a-number. Array items are integers or floating-point values.
\<close>

datatype fp = Fin rat | Inf bool | NaN

datatype ina_val = VInt int | VFp fp

definition trunc_rat :: "rat \<Rightarrow> int" where
  "trunc_rat r = (if 0 \<le> r then \<lfloor>r\<rfloor> else - \<lfloor>- r\<rfloor>)"

text \<open>Reduction of an integer to \<open>w\<close> bits, without and with sign.\<close>

definition wrap_unsigned :: "nat \<Rightarrow> int \<Rightarrow> int" where
  "wrap_unsigned w x = x mod 2 ^ w"

definition wrap_signed :: "nat \<Rightarrow> int \<Rightarrow> int" where
  "wrap_signed w x = (x + 2 ^ (w - 1)) mod 2 ^ w - 2 ^ (w - 1)"

lemma wrap_unsigned_range: "0 \<le> wrap_unsigned w x" "wrap_unsigned w x < 2 ^ w"
  by (simp_all add: wrap_unsigned_def)

lemma two_power_split: "0 < w \<Longrightarrow> (2::int) ^ w = 2 ^ (w - 1) + 2 ^ (w - 1)"
  by (cases w) simp_all

lemma wrap_signed_range:
  assumes "0 < w"
  shows "- (2 ^ (w - 1)) \<le> wrap_signed w x" "wrap_signed w x < 2 ^ (w - 1)"
proof -
  have "0 \<le> (x + 2 ^ (w - 1)) mod 2 ^ w" "(x + 2 ^ (w - 1)) mod 2 ^ w < 2 ^ w" by simp_all
  then show "- (2 ^ (w - 1)) \<le> wrap_signed w x" "wrap_signed w x < 2 ^ (w - 1)"
    using two_power_split [OF assms] by (simp_all add: wrap_signed_def)
qed

lemma wrap_unsigned_id: "0 \<le> x \<Longrightarrow> x < 2 ^ w \<Longrightarrow> wrap_unsigned w x = x"
  by (simp add: wrap_unsigned_def)

lemma wrap_signed_id:
  assumes "0 < w" "- (2 ^ (w - 1)) \<le> x" "x < 2 ^ (w - 1)"
  shows "wrap_signed w x = x"
proof -
  have "0 \<le> x + 2 ^ (w - 1)" "x + 2 ^ (w - 1) < 2 ^ w"
    using assms two_power_split [OF assms(1)] by simp_all
  then show ?thesis by (simp add: wrap_signed_def)
qed

lemma wrap_cong: "wrap_unsigned w x mod 2 ^ w = x mod 2 ^ w" "wrap_signed w x mod 2 ^ w = x mod 2 ^ w"
  by (simp_all add: wrap_unsigned_def wrap_signed_def mod_diff_left_eq)

section \<open>Arithmetic\<close>

text \<open>
  The operations of C on floating-point values, with the rounding of the type as an argument; the sign of
  zero is not represented.
\<close>

fun fp_neg :: "fp \<Rightarrow> fp" where
  "fp_neg (Fin a) = Fin (- a)"
| "fp_neg (Inf s) = Inf (\<not> s)"
| "fp_neg NaN = NaN"

fun fp_plus :: "(rat \<Rightarrow> rat) \<Rightarrow> fp \<Rightarrow> fp \<Rightarrow> fp" where
  "fp_plus rnd (Fin a) (Fin b) = Fin (rnd (a + b))"
| "fp_plus rnd NaN _ = NaN"
| "fp_plus rnd _ NaN = NaN"
| "fp_plus rnd (Inf s) (Inf t) = (if s = t then Inf s else NaN)"
| "fp_plus rnd (Inf s) _ = Inf s"
| "fp_plus rnd _ (Inf s) = Inf s"

fun fp_times :: "(rat \<Rightarrow> rat) \<Rightarrow> fp \<Rightarrow> fp \<Rightarrow> fp" where
  "fp_times rnd (Fin a) (Fin b) = Fin (rnd (a * b))"
| "fp_times rnd NaN _ = NaN"
| "fp_times rnd _ NaN = NaN"
| "fp_times rnd (Inf s) (Inf t) = Inf (s \<noteq> t)"
| "fp_times rnd (Inf s) (Fin b) = (if b = 0 then NaN else Inf (s \<noteq> (b < 0)))"
| "fp_times rnd (Fin a) (Inf t) = (if a = 0 then NaN else Inf ((a < 0) \<noteq> t))"

fun fp_quot :: "(rat \<Rightarrow> rat) \<Rightarrow> fp \<Rightarrow> fp \<Rightarrow> fp" where
  "fp_quot rnd (Fin a) (Fin b) = (if b \<noteq> 0 then Fin (rnd (a / b)) else if a = 0 then NaN else Inf (a < 0))"
| "fp_quot rnd (Fin a) (Inf s) = Fin 0"
| "fp_quot rnd (Inf s) (Fin b) = Inf (s \<noteq> (b < 0))"
| "fp_quot rnd _ _ = NaN"

fun fp_less :: "fp \<Rightarrow> fp \<Rightarrow> bool" where
  "fp_less (Fin a) (Fin b) = (a < b)"
| "fp_less (Fin a) (Inf s) = (\<not> s)"
| "fp_less (Inf s) (Fin b) = s"
| "fp_less (Inf s) (Inf t) = (s \<and> \<not> t)"
| "fp_less _ _ = False"

text \<open>In double precision.\<close>

definition dbl :: "rat \<Rightarrow> fp" where
  "dbl r = Fin (to_double r)"

abbreviation fp_add :: "fp \<Rightarrow> fp \<Rightarrow> fp" where "fp_add \<equiv> fp_plus to_double"
abbreviation fp_div :: "fp \<Rightarrow> fp \<Rightarrow> fp" where "fp_div \<equiv> fp_quot to_double"

text \<open>
  The square root, rounded correctly as IEEE-754 demands: the integer root of the scaled argument keeps more
  bits than the result has, and a half is added where the root is not exact.
\<close>

fun isqrt :: "nat \<Rightarrow> nat" where
  "isqrt n = (if n = 0 then 0 else let s = 2 * isqrt (n div 4) in if (s + 1) ^ 2 \<le> n then s + 1 else s)"

declare isqrt.simps [simp del]

lemma isqrt_bounds: "isqrt n ^ 2 \<le> n \<and> n < (isqrt n + 1) ^ 2"
proof (induction n rule: isqrt.induct)
  case (1 n)
  show ?case
  proof (cases "n = 0")
    case True
    then show ?thesis by (simp add: isqrt.simps)
  next
    case False
    define r where "r = isqrt (n div 4)"
    have ih: "r ^ 2 \<le> n div 4" "n div 4 < (r + 1) ^ 2" using 1 [OF False] by (simp_all add: r_def)
    have lo: "(2 * r) ^ 2 \<le> n" using ih(1) by (simp add: power2_eq_square)
    have hi: "n < (2 * r + 2) ^ 2"
    proof -
      have "n < 4 * q" if "n div 4 < q" for q using that by linarith
      then have "n < 4 * (r + 1) ^ 2" using ih(2) .
      also have "\<dots> = (2 * r + 2) ^ 2" by (simp add: power2_eq_square algebra_simps)
      finally show ?thesis .
    qed
    have "isqrt n = (if (2 * r + 1) ^ 2 \<le> n then 2 * r + 1 else 2 * r)"
      using False by (subst isqrt.simps) (simp add: r_def Let_def)
    then show ?thesis using lo hi by simp
  qed
qed

definition round_sqrt :: "nat \<Rightarrow> rat \<Rightarrow> rat" where
  "round_sqrt p x =
     (if x \<le> 0 then 0
      else let k = int p + 2 - exponent2 x div 2; y = scale2 x (2 * k); m = isqrt (nat \<lfloor>y\<rfloor>);
               r = (if of_nat (m ^ 2) = y then of_nat m else of_nat m + 1 / 2)
           in round_sig p (scale2 r (- k)))"

definition fp_sqrt :: "nat \<Rightarrow> fp \<Rightarrow> fp" where
  "fp_sqrt p x = (case x of Fin a \<Rightarrow> if a < 0 then NaN else Fin (round_sqrt p a)
     | Inf s \<Rightarrow> if s then NaN else Inf False | NaN \<Rightarrow> NaN)"

end
