(* ===== verification/Partition.thy ===== *)
theory Partition
  imports Types Floats Index
begin

text \<open>
  Partition advice (\<^verbatim>\<open>src/iarray.c\<close>): how the library picks chunk and block shapes.
  \<open>get_nearest_power2\<close> and the shrinking loop of \<open>boxed_optim_partition\<close> are loops without a
  bound in the code, so they are partial functions whose value is \<open>None\<close> when the loop does
  not end.
\<close>

section \<open>Nearest power of two\<close>

text \<open>
  The doubling is an \<open>int64_t\<close> multiplication; \<open>to_i64\<close> writes its wrap-around out.
\<close>

partial_function (option) power2_loop :: "int \<Rightarrow> int \<Rightarrow> int option" where
  "power2_loop v pow2 =
     (if pow2 \<le> v \<and> pow2 < INT64_MAX then power2_loop v (to_i64 (pow2 * 2))
      else Some pow2)"

definition get_nearest_power2 :: "int \<Rightarrow> int option" where
  "get_nearest_power2 v = map_option (\<lambda>p. cdiv p 2) (power2_loop v 2)"

section \<open>The boxed partition\<close>

datatype shrink_exit = Exit_out | Exit_out2

text \<open>The size in bytes is an \<open>int64_t\<close> as well: each product is reduced to 64 bits.\<close>

definition part_bytes :: "int \<Rightarrow> nat \<Rightarrow> int list \<Rightarrow> int" where
  "part_bytes itemsize nd partshape = fold (\<lambda>j s. to_i64 (s * partshape ! j)) [0..<nd] itemsize"

text \<open>
  The \<open>do ... while (true)\<close> around the \<open>for\<close> loop over the dimensions: \<open>i\<close> is the dimension the
  inner loop stands at, and reaching \<open>ndim\<close> starts it again at 0.
\<close>

partial_function (option) shrink_loop ::
    "nat \<Rightarrow> int \<Rightarrow> int \<Rightarrow> int \<Rightarrow> nat \<Rightarrow> int list \<Rightarrow> (shrink_exit \<times> int \<times> int list) option" where
  "shrink_loop nd itemsize minsize maxsize i partshape =
     (if nd \<le> i then shrink_loop nd itemsize minsize maxsize 0 partshape
      else let partsize = part_bytes itemsize nd partshape in
        if partsize < minsize then Some (Exit_out2, partsize, partshape)
        else if partsize \<le> maxsize then Some (Exit_out, partsize, partshape)
        else if partshape ! i = 1
        then shrink_loop nd itemsize minsize maxsize (i + 1) partshape
        else shrink_loop nd itemsize minsize maxsize (i + 1)
               (partshape[i := cdiv (partshape ! i) 2]))"

text \<open>
  \<open>(float) (shape[i] - partshape[i]) / (float) partshape[i] < 0.1\<close>: both conversions and the
  quotient round to single precision, the comparison is one of doubles. A zero divisor
  gives an infinity or not-a-number.
\<close>

definition too_close :: "int \<Rightarrow> int \<Rightarrow> bool" where
  "too_close sh part =
     (if part = 0 then sh < 0
      else to_float (to_float (of_int (sh - part)) / to_float (of_int part)) < to_double (1 / 10))"

text \<open>The loop at label \<open>out\<close>; \<open>break\<close> leaves the shape as it is.\<close>

fun refine_loop :: "nat \<Rightarrow> int list \<Rightarrow> int \<Rightarrow> int \<Rightarrow> int \<Rightarrow> bool \<Rightarrow> nat list \<Rightarrow> int \<times> int list \<Rightarrow> int \<times> int list" where
  "refine_loop nd sh itemsize minsize maxsize btune [] st = st"
| "refine_loop nd sh itemsize minsize maxsize btune (i # js) (_, part) =
     (let partsize = part_bytes itemsize nd part in
      if partsize < minsize then (partsize, part)
      else if partsize \<le> cdiv maxsize 2 then (partsize, part)
      else if part ! i = 1 then refine_loop nd sh itemsize minsize maxsize btune js (partsize, part)
      else
        let part1 = (if too_close (sh ! i) (part ! i) then part[i := cdiv (part ! i) 2] else part);
            part2 = (if btune \<and> nd = 1 \<and> sh ! i < to_i64 (part1 ! i * 4)
                     then part1[i := cdiv (part1 ! i) 4] else part1)
        in refine_loop nd sh itemsize minsize maxsize btune js (partsize, part2))"

definition boxed_optim_partition ::
    "nat \<Rightarrow> int list \<Rightarrow> int \<Rightarrow> int \<Rightarrow> int \<Rightarrow> bool \<Rightarrow> int list res option" where
  "boxed_optim_partition nd sh itemsize minsize maxsize btune =
     Option.bind (those (map (\<lambda>i. get_nearest_power2 (sh ! i)) [0..<nd])) (\<lambda>partshape.
     Option.bind (shrink_loop nd itemsize minsize maxsize 0 partshape) (\<lambda>(ex, partsize, part).
       let (partsize, part) =
         (case ex of
            Exit_out \<Rightarrow> refine_loop nd sh itemsize minsize maxsize btune [0..<nd] (partsize, part)
          | Exit_out2 \<Rightarrow> (partsize, part))
       in if partsize > INT32_MAX then Some (Inl IARRAY_ERR_INVALID_CHUNKSHAPE)
          else if partsize \<le> 0 then Some (Inl IARRAY_ERR_INVALID_CHUNKSHAPE)
          else Some (Inr part)))"

section \<open>The advice\<close>

definition default_max_blocksize :: "iarray_compression_favor \<Rightarrow> int" where
  "default_max_blocksize f = (case f of
      IARRAY_COMPRESSION_FAVOR_CRATIO \<Rightarrow> 512 * 1024
    | IARRAY_COMPRESSION_FAVOR_SPEED \<Rightarrow> 128 * 1024
    | IARRAY_COMPRESSION_FAVOR_BALANCE \<Rightarrow> 128 * 1024)"

definition default_max_chunksize :: "iarray_compression_favor \<Rightarrow> int" where
  "default_max_chunksize f = (case f of
      IARRAY_COMPRESSION_FAVOR_CRATIO \<Rightarrow> 16 * 1024 * 1024
    | IARRAY_COMPRESSION_FAVOR_SPEED \<Rightarrow> 16 * 1024 * 1024
    | IARRAY_COMPRESSION_FAVOR_BALANCE \<Rightarrow> 16 * 1024 * 1024)"

text \<open>
  The result is the chunk shape and the block shape (the first \<open>ndim\<close> entries of the arrays
  in the storage record).
\<close>

definition iarray_partition_advice ::
    "iarray_config \<Rightarrow> iarray_dtshape \<Rightarrow> int \<Rightarrow> int \<Rightarrow> int \<Rightarrow> int \<Rightarrow> (int list \<times> int list) res option" where
  "iarray_partition_advice cfg d min_chunksize max_chunksize min_blocksize max_blocksize =
     (let max_blocksize = (if max_blocksize = 0 then default_max_blocksize (compression_favor cfg)
                           else max_blocksize);
          min_blocksize = (if min_blocksize = 0 then 1024 else min_blocksize);
          max_chunksize = (if max_chunksize = 0 then default_max_chunksize (compression_favor cfg)
                           else max_chunksize);
          min_chunksize = (if min_chunksize = 0 then 256 * 1024 else min_chunksize)
      in case iarray_set_dtype_size d of
           Inl e \<Rightarrow> Some (Inl e)
         | Inr d \<Rightarrow>
           Option.bind (boxed_optim_partition (ndim d) (shape d) (dtype_size d)
                          min_chunksize max_chunksize (cfg_btune cfg)) (\<lambda>r.
             case r of
               Inl e \<Rightarrow> Some (Inl e)
             | Inr chunks \<Rightarrow>
               let chunksize = part_bytes (dtype_size d) (ndim d) chunks;
                   max_blocksize = (if chunksize < max_blocksize then chunksize else max_blocksize)
               in Option.bind (boxed_optim_partition (ndim d) chunks (dtype_size d)
                                 min_blocksize max_blocksize (cfg_btune cfg)) (\<lambda>r.
                    case r of
                      Inl e \<Rightarrow> Some (Inl e)
                    | Inr blocks \<Rightarrow> Some (Inr (chunks, blocks)))))"

section \<open>Powers of two\<close>

lemma to_i64_double: "- (2 ^ 62) \<le> p \<Longrightarrow> p < 2 ^ 62 \<Longrightarrow> to_i64 (p * 2) = p * 2"
  by (rule to_i64_id) simp_all

lemma power2_loop_Some:
  assumes "k < 62" "v < 2 ^ 62" "2 ^ k \<le> v \<or> k = 1"
  shows "\<exists>m. power2_loop v (2 ^ k) = Some (2 ^ m) \<and> k \<le> m \<and> v < 2 ^ m \<and>
    (k = m \<or> 2 ^ m \<le> v * 2)"
  using assms
proof (induction "62 - k" arbitrary: k)
  case (Suc n)
  show ?case
  proof (cases "2 ^ k \<le> v")
    case False
    then show ?thesis by (intro exI [of _ k]) (simp add: power2_loop.simps)
  next
    case True
    have lt: "(2::int) ^ k < 2 ^ 62" using Suc.prems(1) by (intro power_strict_increasing) auto
    have step: "power2_loop v (2 ^ k) = power2_loop v (2 ^ Suc k)"
      using True lt Suc.prems to_i64_double [of "2 ^ k"]
      by (subst power2_loop.simps) (simp add: INT64_MAX_def mult.commute order.trans [of _ 0])
    show ?thesis
    proof (cases "2 ^ Suc k \<le> v")
      case True
      then have "(2::int) ^ Suc k < 2 ^ 62" using Suc.prems by linarith
      then have k: "Suc k < 62" by (rule power_less_imp_less_exp [rotated]) simp
      obtain m where "power2_loop v (2 ^ Suc k) = Some (2 ^ m)" "Suc k \<le> m" "v < 2 ^ m"
          "Suc k = m \<or> 2 ^ m \<le> v * 2"
        using Suc.hyps(1) [of "Suc k"] Suc.hyps(2) Suc.prems k True
        by (metis Suc_diff_Suc Suc_inject less_or_eq_imp_le diff_Suc_Suc)
      then show ?thesis using step True
        by (intro exI [of _ m]) auto
    next
      case False
      then show ?thesis using step True
        by (intro exI [of _ "Suc k"]) (simp add: power2_loop.simps)
    qed
  qed
qed simp

lemma nearest_power2_spec:
  assumes "1 \<le> v" "v < 2 ^ 62"
  shows "\<exists>m. get_nearest_power2 v = Some (2 ^ m) \<and> 2 ^ m \<le> v \<and> v < 2 ^ (m + 1)"
proof -
  obtain m where m: "power2_loop v 2 = Some (2 ^ m)" "1 \<le> m" "v < 2 ^ m"
      "1 = m \<or> 2 ^ m \<le> v * 2"
    using power2_loop_Some [of 1 v] assms by auto
  then obtain n where n: "m = Suc n" by (cases m) auto
  have "cdiv (2 ^ Suc n) 2 = (2::int) ^ n" by (simp add: c_arith)
  then show ?thesis using m n assms(1)
    by (intro exI [of _ n]) (auto simp: get_nearest_power2_def)
qed

lemma power2_loop_stuck:
  assumes "power2_loop v p = Some y"
  shows "2 ^ 62 \<le> v \<Longrightarrow> \<not> (p = 0 \<or> p = - (2 ^ 63) \<or> (\<exists>k \<le> 62. p = 2 ^ k))"
  using assms
proof (induction rule: power2_loop.raw_induct [rotated, consumes 1, case_names step])
  case (step loop v p y)
  show ?case
  proof
    assume st: "p = 0 \<or> p = - (2 ^ 63) \<or> (\<exists>k \<le> 62. p = 2 ^ k)"
    have le: "p \<le> 2 ^ 62" using st power_increasing [of _ 62 "2::int"] by auto
    then have "loop v (to_i64 (p * 2)) = Some y"
      using step.prems step.hyps by (auto simp: INT64_MAX_def split: if_splits)
    then have "\<not> (to_i64 (p * 2) = 0 \<or> to_i64 (p * 2) = - (2 ^ 63) \<or>
        (\<exists>k \<le> 62. to_i64 (p * 2) = 2 ^ k))"
      using step.IH step.prems by blast
    moreover from st consider "p = 0 \<or> p = - (2 ^ 63)" | "p = 2 ^ 62"
      | k where "k < 62" "p = 2 ^ k" by (metis le_neq_implies_less)
    then have "to_i64 (p * 2) = 0 \<or> to_i64 (p * 2) = - (2 ^ 63) \<or>
        (\<exists>k \<le> 62. to_i64 (p * 2) = 2 ^ k)"
    proof cases
      case 3
      have "(2::int) ^ k < 2 ^ 62" using 3 by (intro power_strict_increasing) auto
      then have "to_i64 (p * 2) = 2 ^ Suc k"
        using 3 to_i64_double [of p] order.trans [of _ 0 "2 ^ k :: int"] by simp
      then show ?thesis using 3(1) by (metis Suc_leI)
    qed (auto simp: to_i64_def)
    ultimately show False by blast
  qed
qed

section \<open>The shrinking loop\<close>

lemma part_bytes_fold:
  assumes "length part = nd"
  shows "part_bytes itemsize nd part = fold (\<lambda>x s. to_i64 (s * x)) part itemsize"
proof -
  have "fold (\<lambda>x s. to_i64 (s * x)) (map ((!) part) [0..<nd]) itemsize = part_bytes itemsize nd part"
    by (simp add: part_bytes_def fold_map comp_def)
  moreover have "map ((!) part) [0..<nd] = part" using map_nth [of part] assms by simp
  ultimately show ?thesis by simp
qed

text \<open>Below \<open>2 ^ 63\<close> the size is the product; beyond, it is the product modulo \<open>2 ^ 64\<close>, between the limits of the type.\<close>

lemma fold_to_i64:
  "0 < s \<Longrightarrow> \<forall>x \<in> set xs. 1 \<le> x \<Longrightarrow> s * prod_list xs < 2 ^ 63 \<Longrightarrow> fold (\<lambda>x s. to_i64 (s * x)) xs s = s * prod_list xs"
proof (induction xs arbitrary: s)
  case (Cons x xs)
  have "1 \<le> prod_list xs" using prod_list_pos [of xs] Cons.prems(2) by fastforce
  then have "s * x * 1 \<le> s * x * prod_list xs" using Cons.prems(1,2) by (intro mult_left_mono) auto
  then have "s * x < 2 ^ 63" using Cons.prems(3) by (simp add: mult.assoc)
  moreover have "0 < s * x" using Cons.prems(1,2) by auto
  ultimately show ?case using Cons.IH [of "s * x"] Cons.prems(2,3) by (simp add: to_i64_id mult.assoc)
qed simp

lemma part_bytes_eq:
  assumes "length part = nd" "0 < itemsize" "\<forall>x \<in> set part. 1 \<le> x" "itemsize * prod_list part < 2 ^ 63"
  shows "part_bytes itemsize nd part = itemsize * prod_list part"
  using assms fold_to_i64 [of itemsize part] by (simp add: part_bytes_fold)

lemma to_i64_mult: "to_i64 (to_i64 a * x) = to_i64 (a * x)"
proof -
  have "(to_i64 a * x + 2 ^ 63) mod 2 ^ 64 = (a * x + 2 ^ 63) mod (2 ^ 64 :: int)"
    unfolding to_i64_def by (metis (no_types, lifting) add_diff_cancel_right' mod_add_left_eq mod_diff_left_eq mod_mult_left_eq)
  then show ?thesis by (simp add: to_i64_def)
qed

lemma fold_to_i64_mod: "xs \<noteq> [] \<Longrightarrow> fold (\<lambda>x s. to_i64 (s * x)) xs s = to_i64 (s * prod_list xs)"
proof (induction xs arbitrary: s)
  case (Cons x xs)
  show ?case
  proof (cases "xs = []")
    case False
    then show ?thesis using Cons.IH [of "to_i64 (s * x)"] to_i64_mult [of "s * x" "prod_list xs"] by (simp add: mult.assoc)
  qed simp
qed simp

lemma part_bytes_mod:
  "length part = nd \<Longrightarrow> 0 < nd \<Longrightarrow> part_bytes itemsize nd part = to_i64 (itemsize * prod_list part)"
  by (cases "part = []") (simp_all add: part_bytes_fold fold_to_i64_mod)

definition is_pow2 :: "int \<Rightarrow> bool" where
  "is_pow2 x \<longleftrightarrow> (\<exists>k::nat. x = 2 ^ k)"

lemma is_pow2_pos: "is_pow2 x \<Longrightarrow> 0 < x"
  by (auto simp: is_pow2_def)

lemma is_pow2_halve: "is_pow2 x \<Longrightarrow> x \<noteq> 1 \<Longrightarrow> is_pow2 (cdiv x 2) \<and> 2 * cdiv x 2 = x"
proof -
  assume "is_pow2 x" "x \<noteq> 1"
  then obtain k where "x = 2 ^ k" "k \<noteq> 0" by (metis is_pow2_def power_0)
  then obtain j where "x = 2 ^ Suc j" by (cases k) auto
  moreover have "cdiv (2 ^ Suc j) 2 = (2::int) ^ j" by (simp add: c_arith)
  ultimately show ?thesis by (auto simp: is_pow2_def)
qed

lemma cdiv_pos_less: "1 < x \<Longrightarrow> 1 \<le> cdiv x 2 \<and> cdiv x 2 < x"
  by (simp add: c_arith) presburger

lemma prod_list_1: "\<forall>x \<in> set xs. x = (1::int) \<Longrightarrow> prod_list xs = 1"
  by (induction xs) auto

text \<open>
  What the loop may find: sizes positive and, once it returns, the exit tests. The
  termination measure is the sum of the sizes and, within one value of it, the
  distance to the next dimension that can still be halved.
\<close>

definition next_big :: "nat \<Rightarrow> nat \<Rightarrow> int list \<Rightarrow> nat" where
  "next_big nd i part =
     (if \<exists>j < nd. i \<le> j \<and> part ! j \<noteq> 1 then nd - i else nd - i + nd + 1)"

lemma ite_less: "a < c \<Longrightarrow> b < d \<Longrightarrow> (if P then a else b) < (if P then c else (d :: nat))"
  by simp

lemma shrink_done:
  assumes "0 < nd" "part_bytes itemsize nd part < minsize \<or> part_bytes itemsize nd part \<le> maxsize"
  shows "\<exists>r. shrink_loop nd itemsize minsize maxsize i part = Some r"
proof -
  have now: "\<exists>r. shrink_loop nd itemsize minsize maxsize j part = Some r" if "j < nd" for j
    using assms that by (subst shrink_loop.simps) (auto simp: Let_def)
  show ?thesis
  proof (cases "i < nd")
    case False
    then show ?thesis using now [of 0] assms(1) by (subst shrink_loop.simps) simp
  qed (rule now)
qed

lemma shrink_terminates:
  assumes "0 < nd" "length part = nd" "\<forall>x \<in> set part. 1 \<le> x" "0 < itemsize" "itemsize \<le> maxsize" "itemsize < 2 ^ 63"
  shows "\<exists>r. shrink_loop nd itemsize minsize maxsize i part = Some r"
  using assms(2,3)
proof (induction "(nat (sum_list part), next_big nd i part)" arbitrary: i part
    rule: wf_induct_rule [OF wf_lex_prod [OF wf_less wf_less]])
  case less: 1
  show ?case
  proof (cases "part_bytes itemsize nd part < minsize \<or> part_bytes itemsize nd part \<le> maxsize")
    case True
    then show ?thesis using shrink_done assms(1) by blast
  next
    case False
    have big: "\<exists>j < nd. part ! j \<noteq> 1"
    proof (rule ccontr)
      assume "\<not> ?thesis"
      then have "prod_list part = 1"
        using less.prems by (intro prod_list_1) (auto simp: in_set_conv_nth)
      then show False using False assms(4-6) less.prems by (simp add: part_bytes_eq)
    qed
    have pos: "1 \<le> part ! j" if "j < nd" for j using less.prems that by auto
    consider "nd \<le> i" | "i < nd" "part ! i = 1" | "i < nd" "part ! i \<noteq> 1" by linarith
    then show ?thesis
    proof cases
      case 1
      have "next_big nd 0 part < next_big nd i part" using 1 big by (auto simp: next_big_def)
      then have "\<exists>r. shrink_loop nd itemsize minsize maxsize 0 part = Some r"
        using less.hyps less.prems by simp
      then show ?thesis using 1 by (subst shrink_loop.simps) simp
    next
      case 2
      have "next_big nd (i + 1) part < next_big nd i part"
      proof -
        have same: "(\<exists>j < nd. i \<le> j \<and> part ! j \<noteq> 1) \<longleftrightarrow> (\<exists>j < nd. i + 1 \<le> j \<and> part ! j \<noteq> 1)"
          using 2 by (metis Suc_eq_plus1 Suc_leD le_antisym not_less_eq_eq)
        show ?thesis unfolding next_big_def same
          by (rule ite_less) (use 2(1) in simp_all)
      qed
      then have "\<exists>r. shrink_loop nd itemsize minsize maxsize (i + 1) part = Some r"
        using less.hyps less.prems by simp
      then show ?thesis using 2 False by (subst shrink_loop.simps) (simp add: Let_def)
    next
      case 3
      let ?part = "part[i := cdiv (part ! i) 2]"
      have h: "1 \<le> cdiv (part ! i) 2" "cdiv (part ! i) 2 < part ! i"
        using cdiv_pos_less [of "part ! i"] pos [of i] 3 by auto
      have ge: "\<forall>x \<in> set ?part. 1 \<le> x"
        using h(1) less.prems set_update_subset_insert [of part i "cdiv (part ! i) 2"] by blast
      have "sum_list ?part = sum_list part + cdiv (part ! i) 2 - part ! i"
        using 3 less.prems by (simp add: sum_list_update_int)
      moreover have "0 \<le> sum_list ?part" using ge by (intro sum_list_nonneg) auto
      ultimately have "nat (sum_list ?part) < nat (sum_list part)" using h by simp
      then have "\<exists>r. shrink_loop nd itemsize minsize maxsize (i + 1) ?part = Some r"
        using less.hyps less.prems ge by simp
      then show ?thesis using 3 False by (subst shrink_loop.simps) (simp add: Let_def)
    qed
  qed
qed

section \<open>What the partition satisfies\<close>

text \<open>
  \<open>shrunk q p\<close>: every size of \<open>q\<close> is a power of two and at most the one of \<open>p\<close>.
\<close>

definition shrunk :: "int list \<Rightarrow> int list \<Rightarrow> bool" where
  "shrunk q p \<longleftrightarrow> list_all2 (\<lambda>a b. is_pow2 a \<and> a \<le> b) q p"

lemma shrunk_length: "shrunk q p \<Longrightarrow> length q = length p"
  by (simp add: shrunk_def list_all2_lengthD)

lemma shrunk_nth: "shrunk q p \<longleftrightarrow>
  length q = length p \<and> (\<forall>j < length p. is_pow2 (q ! j) \<and> q ! j \<le> p ! j)"
  by (auto simp: shrunk_def list_all2_conv_all_nth)

lemma shrunk_refl: "\<forall>x \<in> set p. is_pow2 x \<Longrightarrow> shrunk p p"
  by (simp add: shrunk_nth)

lemma shrunk_trans: "shrunk r q \<Longrightarrow> shrunk q p \<Longrightarrow> shrunk r p"
  by (auto simp: shrunk_nth intro: order.trans)

lemma shrunk_halve:
  "shrunk q p \<Longrightarrow> i < length q \<Longrightarrow> q ! i \<noteq> 1 \<Longrightarrow> shrunk (q[i := cdiv (q ! i) 2]) p"
  using is_pow2_halve [of "q ! i"] is_pow2_pos [of "q ! i"]
  by (auto simp: shrunk_nth nth_list_update dest: is_pow2_pos)

lemma shrunk_bytes:
  assumes "shrunk q p" "0 < itemsize"
  shows "0 < itemsize * prod_list q \<and> itemsize * prod_list q \<le> itemsize * prod_list p"
proof -
  have "list_all2 (\<lambda>a b. 0 \<le> a \<and> a \<le> b) q p"
    using assms(1) unfolding shrunk_def
    by (rule list_all2_mono) (use is_pow2_pos less_imp_le in blast)
  moreover have "0 < prod_list q"
    using assms(1) by (intro prod_list_pos) (auto simp: shrunk_nth in_set_conv_nth intro!: is_pow2_pos)
  ultimately show ?thesis using assms(2) prod_list_mono_int by simp
qed

lemma part_bytes_shrunk:
  assumes "shrunk part p0" "0 < itemsize" "itemsize * prod_list p0 < 2 ^ 63" "length p0 = nd"
  shows "part_bytes itemsize nd part = itemsize * prod_list part"
proof (rule part_bytes_eq)
  show "\<forall>x \<in> set part. 1 \<le> x" using assms(1) is_pow2_pos by (fastforce simp: shrunk_nth in_set_conv_nth)
  show "itemsize * prod_list part < 2 ^ 63"
    using shrunk_bytes [OF assms(1,2)] assms(3) by linarith
qed (use assms shrunk_length [OF assms(1)] in simp_all)

definition shrink_post :: "int list \<Rightarrow> int \<Rightarrow> int \<Rightarrow> int \<Rightarrow> shrink_exit \<times> int \<times> int list \<Rightarrow> bool" where
  "shrink_post p0 itemsize minsize maxsize = (\<lambda>(ex, ps, part).
     shrunk part p0 \<and> ps = itemsize * prod_list part \<and>
     (case ex of Exit_out2 \<Rightarrow> ps < minsize | Exit_out \<Rightarrow> minsize \<le> ps \<and> ps \<le> maxsize))"

lemma shrink_result:
  assumes "shrink_loop nd itemsize minsize maxsize i part = Some r"
  shows "0 < nd \<Longrightarrow> length p0 = nd \<Longrightarrow> shrunk part p0 \<Longrightarrow> 0 < itemsize \<Longrightarrow> itemsize * prod_list p0 < 2 ^ 63 \<Longrightarrow>
    shrink_post p0 itemsize minsize maxsize r"
  using assms
proof (induction rule: shrink_loop.raw_induct [rotated, consumes 1, case_names step])
  case (step loop nd itemsize minsize maxsize i part r)
  have b: "part_bytes itemsize nd part = itemsize * prod_list part"
    using part_bytes_shrunk [OF step.prems(3,4,5,2)] .
  show ?case
    using step shrunk_halve [OF step.prems(3), of i] shrunk_length [OF step.prems(3)]
    by (auto simp: Let_def b shrink_post_def split: if_splits)
qed

lemma refine_step_bytes:
  assumes "shrunk part p0" "0 < itemsize" "length p0 = nd" "itemsize * prod_list p0 < 2 ^ 63"
  shows "part_bytes itemsize nd part = itemsize * prod_list part"
    "0 < part_bytes itemsize nd part" "part_bytes itemsize nd part \<le> itemsize * prod_list p0"
  using shrunk_bytes [OF assms(1,2)] part_bytes_shrunk [OF assms(1,2,4,3)] by simp_all

lemma refine_break:
  "part_bytes itemsize nd part < minsize \<or> part_bytes itemsize nd part \<le> cdiv maxsize 2 \<Longrightarrow>
   refine_loop nd sh itemsize minsize maxsize bt (i # js) (ps, part) = (part_bytes itemsize nd part, part)"
  by (cases "part_bytes itemsize nd part < minsize") (simp_all add: Let_def)

lemma refine_skip:
  "\<not> (part_bytes itemsize nd part < minsize \<or> part_bytes itemsize nd part \<le> cdiv maxsize 2) \<Longrightarrow>
   part ! i = 1 \<Longrightarrow>
   refine_loop nd sh itemsize minsize maxsize bt (i # js) (ps, part) =
   refine_loop nd sh itemsize minsize maxsize bt js (part_bytes itemsize nd part, part)"
  by (simp add: Let_def)

definition refine_part :: "nat \<Rightarrow> int list \<Rightarrow> bool \<Rightarrow> nat \<Rightarrow> int list \<Rightarrow> int list" where
  "refine_part nd sh bt i part =
     (let part1 = (if too_close (sh ! i) (part ! i) then part[i := cdiv (part ! i) 2] else part)
      in if bt \<and> nd = 1 \<and> sh ! i < to_i64 (part1 ! i * 4) then part1[i := cdiv (part1 ! i) 4] else part1)"

lemma refine_step:
  "\<not> (part_bytes itemsize nd part < minsize \<or> part_bytes itemsize nd part \<le> cdiv maxsize 2) \<Longrightarrow>
   part ! i \<noteq> 1 \<Longrightarrow>
   refine_loop nd sh itemsize minsize maxsize bt (i # js) (ps, part) =
   refine_loop nd sh itemsize minsize maxsize bt js
     (part_bytes itemsize nd part, refine_part nd sh bt i part)"
  unfolding refine_loop.simps Let_def refine_part_def by simp

declare refine_loop.simps(2) [simp del]

lemma refine_shrunk:
  assumes "\<not> (bt \<and> nd = 1)" "length p0 = nd" "0 < itemsize" "itemsize * prod_list p0 < 2 ^ 63"
  shows "shrunk part p0 \<Longrightarrow> 0 < ps \<Longrightarrow> ps \<le> itemsize * prod_list p0 \<Longrightarrow> set js \<subseteq> {..<nd} \<Longrightarrow>
    refine_loop nd sh itemsize minsize maxsize bt js (ps, part) = (ps', part') \<Longrightarrow>
    shrunk part' p0 \<and> 0 < ps' \<and> ps' \<le> itemsize * prod_list p0"
proof (induction js arbitrary: ps part)
  case (Cons i js)
  note b = refine_step_bytes [OF Cons.prems(1) assms(3,2,4)]
  have i: "i < length part" using Cons.prems shrunk_length [OF Cons.prems(1)] assms(2) by simp
  let ?pb = "part_bytes itemsize nd part"
  have next_part: "shrunk (refine_part nd sh bt i part) p0" if "part ! i \<noteq> 1"
    using shrunk_halve [OF Cons.prems(1) i that] Cons.prems(1) assms(1)
    by (auto simp: refine_part_def Let_def)
  have js: "set js \<subseteq> {..<nd}" using Cons.prems(4) by simp
  consider "?pb < minsize \<or> ?pb \<le> cdiv maxsize 2"
    | "\<not> (?pb < minsize \<or> ?pb \<le> cdiv maxsize 2)" "part ! i = 1"
    | "\<not> (?pb < minsize \<or> ?pb \<le> cdiv maxsize 2)" "part ! i \<noteq> 1" by blast
  then show ?case
  proof cases
    case 1
    then have "(ps', part') = (?pb, part)" using Cons.prems(5) refine_break [OF 1] by metis
    then show ?thesis using Cons.prems(1) b by auto
  next
    case 2
    then show ?thesis
      using Cons.IH [OF Cons.prems(1) b(2,3) js] Cons.prems(5) by (simp add: refine_skip [OF 2])
  next
    case 3
    then show ?thesis
      using Cons.IH [OF next_part [OF 3(2)] b(2,3) js] Cons.prems(5) by (simp add: refine_step [OF 3])
  qed
qed simp

text \<open>
  With the tuner on and one dimension the size may lose three factors of two; from 8 on it
  stays positive.
\<close>

lemma is_pow2_8:
  assumes "is_pow2 p" "8 \<le> p"
  shows "is_pow2 (cdiv p 4)" "cdiv p 4 \<le> p" "is_pow2 (cdiv (cdiv p 2) 4)" "cdiv (cdiv p 2) 4 \<le> p"
    "is_pow2 (cdiv p 2)" "cdiv p 2 \<le> p"
proof -
  obtain k where k: "p = 2 ^ k" using assms(1) by (auto simp: is_pow2_def)
  have "3 \<le> k"
  proof (rule ccontr)
    assume "\<not> 3 \<le> k"
    then have "(2::int) ^ k \<le> 2 ^ 2" by (intro power_increasing) auto
    then show False using k assms(2) by simp
  qed
  then obtain j where j: "k = 3 + j" using le_Suc_ex by blast
  have e: "cdiv p 2 = 2 ^ (j + 2)" "cdiv p 4 = 2 ^ (j + 1)" "cdiv (cdiv p 2) 4 = 2 ^ j"
    using k j by (simp_all add: c_arith power_add)
  have l: "(2::int) ^ (j + 2) \<le> p" "(2::int) ^ (j + 1) \<le> p" "(2::int) ^ j \<le> p"
    using k j by (simp_all add: power_add)
  have pow: "is_pow2 (2 ^ n)" for n by (auto simp: is_pow2_def)
  show "is_pow2 (cdiv p 4)" unfolding e(2) by (rule pow)
  show "is_pow2 (cdiv (cdiv p 2) 4)" unfolding e(3) by (rule pow)
  show "is_pow2 (cdiv p 2)" unfolding e(1) by (rule pow)
  show "cdiv p 4 \<le> p" unfolding e(2) by (rule l)
  show "cdiv (cdiv p 2) 4 \<le> p" unfolding e(3) by (rule l)
  show "cdiv p 2 \<le> p" unfolding e(1) by (rule l)
qed

lemma refine_shrunk_1:
  assumes "is_pow2 p" "8 \<le> p" "p \<le> q" "0 < itemsize" "ps = itemsize * p" "ps < 2 ^ 63"
    and "refine_loop 1 sh itemsize minsize maxsize bt [0] (ps, [p]) = (ps', part')"
  shows "shrunk part' [q] \<and> ps' = ps"
proof -
  have b: "part_bytes itemsize 1 [p] = ps" using assms(2,4-6) by (simp add: part_bytes_eq)
  have sh1: "shrunk [r] [q]" if "is_pow2 r" "r \<le> p" for r
    using that assms(3) by (simp add: shrunk_def)
  show ?thesis
  proof (cases "part_bytes itemsize 1 [p] < minsize \<or> part_bytes itemsize 1 [p] \<le> cdiv maxsize 2")
    case True
    then show ?thesis using assms(7) b sh1 [OF assms(1)] by (simp only: refine_break) simp
  next
    case False
    then have "(ps', part') = (ps, refine_part 1 sh bt 0 [p])"
      using assms(2,7) b refine_step [OF False, of 0 sh bt "[]" ps] by simp
    moreover have "refine_part 1 sh bt 0 [p] \<in> {[p], [cdiv p 2], [cdiv p 4], [cdiv (cdiv p 2) 4]}"
      by (simp add: refine_part_def Let_def)
    ultimately show ?thesis using sh1 is_pow2_8 [OF assms(1,2)] assms(1) by auto
  qed
qed

section \<open>The boxed partition and the advice\<close>

lemma nearest_init:
  assumes "\<forall>j < nd. 1 \<le> sh ! j \<and> sh ! j < 2 ^ 62" "nd \<le> length sh"
  shows "\<exists>p. those (map (\<lambda>i. get_nearest_power2 (sh ! i)) [0..<nd]) = Some p \<and> shrunk p (take nd sh)"
proof -
  have "\<exists>p. those (map (\<lambda>i. get_nearest_power2 (sh ! i)) [0..<nd]) = Some p \<and>
      list_all2 (\<lambda>i y. is_pow2 y \<and> y \<le> sh ! i) [0..<nd] p"
  proof (rule those_map_Some)
    show "\<forall>i \<in> set [0..<nd]. \<exists>y. get_nearest_power2 (sh ! i) = Some y \<and> is_pow2 y \<and> y \<le> sh ! i"
      using assms(1) nearest_power2_spec by (fastforce simp: is_pow2_def)
  qed
  then show ?thesis using assms(2) by (auto simp: list_all2_conv_all_nth shrunk_nth)
qed

definition boxed_ok :: "nat \<Rightarrow> int list \<Rightarrow> int \<Rightarrow> int \<Rightarrow> int \<Rightarrow> bool \<Rightarrow> bool" where
  "boxed_ok nd sh itemsize minsize maxsize bt \<longleftrightarrow>
     0 < nd \<and> nd \<le> length sh \<and> (\<forall>j < nd. 1 \<le> sh ! j \<and> sh ! j < 2 ^ 62) \<and>
     0 < itemsize \<and> itemsize * prod_list (take nd sh) < 2 ^ 63 \<and> itemsize \<le> maxsize \<and> maxsize \<le> INT32_MAX \<and> minsize \<le> INT32_MAX \<and>
     (bt \<and> nd = 1 \<longrightarrow> 8 * itemsize \<le> minsize)"

lemma boxed_spec:
  assumes "boxed_ok nd sh itemsize minsize maxsize bt"
  shows "\<exists>part. boxed_optim_partition nd sh itemsize minsize maxsize bt = Some (Inr part) \<and>
    shrunk part (take nd sh) \<and>
    (itemsize * prod_list part < minsize \<or> itemsize * prod_list part \<le> maxsize)"
proof -
  note ok = assms [unfolded boxed_ok_def]
  obtain p where p: "those (map (\<lambda>i. get_nearest_power2 (sh ! i)) [0..<nd]) = Some p"
      "shrunk p (take nd sh)"
    using nearest_init ok by blast
  have lp: "length p = nd" using p(2) ok by (simp add: shrunk_length)
  have size_p: "itemsize * prod_list p < 2 ^ 63"
    using shrunk_bytes [OF p(2), of itemsize] ok by linarith
  have size_1: "itemsize < 2 ^ 63" using ok by (simp add: INT32_MAX_def)
  have "\<forall>x \<in> set p. is_pow2 x" using p(2) by (auto simp: shrunk_nth in_set_conv_nth)
  then have pp: "shrunk p p" and "\<forall>x \<in> set p. 1 \<le> x"
    using shrunk_refl is_pow2_pos by fastforce+
  then obtain ex ps q where s: "shrink_loop nd itemsize minsize maxsize 0 p = Some (ex, ps, q)"
    using shrink_terminates [of nd p itemsize maxsize minsize 0] lp ok size_1 by (metis prod_cases3)
  have post: "shrunk q p" "ps = itemsize * prod_list q"
      "case ex of Exit_out2 \<Rightarrow> ps < minsize | Exit_out \<Rightarrow> minsize \<le> ps \<and> ps \<le> maxsize"
    using shrink_result [OF s _ lp pp _ size_p] ok by (simp_all add: shrink_post_def)
  have qsh: "shrunk q (take nd sh)" using shrunk_trans post(1) p(2) by blast
  have lq: "length q = nd" using post(1) lp by (simp add: shrunk_length)
  have qq: "shrunk q q" using post(1) by (auto simp: shrunk_nth)
  have pos: "0 < ps" using shrunk_bytes [OF post(1)] post(2) ok by simp
  have size_q: "itemsize * prod_list q < 2 ^ 63"
    using shrunk_bytes [OF post(1), of itemsize] ok size_p by linarith
  show ?thesis
  proof (cases ex)
    case Exit_out2
    then show ?thesis using p s post pos ok qsh
      by (simp add: boxed_optim_partition_def Let_def)
  next
    case Exit_out
    obtain ps' q' where r: "refine_loop nd sh itemsize minsize maxsize bt [0..<nd] (ps, q) = (ps', q')"
      by fastforce
    have rng: "set [0..<nd] \<subseteq> {..<nd}" by auto
    have res: "shrunk q' q \<and> 0 < ps' \<and> ps' \<le> ps"
    proof (cases "bt \<and> nd = 1")
      case False
      then show ?thesis using refine_shrunk [OF False lq _ size_q qq pos _ rng r] ok post(2) by simp
    next
      case True
      then obtain x where x: "q = [x]" using lq by (auto simp: length_Suc_conv)
      have "8 * itemsize \<le> minsize" using True ok by blast
      moreover have "minsize \<le> itemsize * x" using post Exit_out x by simp
      ultimately have "itemsize * 8 \<le> itemsize * x" by linarith
      then have "8 \<le> x" using ok mult_le_cancel_left_pos by blast
      moreover have "is_pow2 x" using qq x by (simp add: shrunk_def)
      ultimately show ?thesis
        using refine_shrunk_1 [of x x itemsize ps sh minsize maxsize bt ps' q'] r x True post(2) ok pos
          size_q by simp
    qed
    have "itemsize * prod_list q' \<le> itemsize * prod_list q"
      using shrunk_bytes [of q' q itemsize] res ok by blast
    moreover have "itemsize * prod_list q \<le> maxsize" using post Exit_out by simp
    ultimately have "itemsize * prod_list q' \<le> maxsize" by linarith
    moreover have "shrunk q' (take nd sh)" using res qsh shrunk_trans by blast
    ultimately show ?thesis using p s r res post Exit_out ok
      by (simp add: boxed_optim_partition_def)
  qed
qed

lemma shrink_hangs:
  assumes "shrink_loop nd itemsize minsize maxsize i part = Some r"
  shows "\<not> (nd = 0 \<or> (length part = nd \<and> (\<forall>x \<in> set part. 1 \<le> x) \<and>
    itemsize * prod_list part < 2 ^ 63 \<and> 0 < itemsize \<and> maxsize < itemsize \<and> minsize \<le> itemsize))"
  using assms
proof (induction rule: shrink_loop.raw_induct [rotated, consumes 1, case_names step])
  case (step loop nd itemsize minsize maxsize i part r)
  show ?case
  proof
    assume "nd = 0 \<or> (length part = nd \<and> (\<forall>x \<in> set part. 1 \<le> x) \<and>
      itemsize * prod_list part < 2 ^ 63 \<and> 0 < itemsize \<and> maxsize < itemsize \<and> minsize \<le> itemsize)"
    then consider "nd \<le> i" "nd = 0 \<or> (length part = nd \<and> (\<forall>x \<in> set part. 1 \<le> x) \<and>
        itemsize * prod_list part < 2 ^ 63 \<and> 0 < itemsize \<and> maxsize < itemsize \<and> minsize \<le> itemsize)"
      | "i < nd" "length part = nd" "\<forall>x \<in> set part. 1 \<le> x" "itemsize * prod_list part < 2 ^ 63"
        "0 < itemsize" "maxsize < itemsize" "minsize \<le> itemsize" by fastforce
    then show False
    proof cases
      case 1
      have "loop nd itemsize minsize maxsize 0 part = Some r" using step.hyps 1(1) by simp
      then show ?thesis using step.IH 1(2) by blast
    next
      case 2
      have pos: "1 \<le> prod_list part" using prod_list_pos [of part] 2(3) by fastforce
      have b: "part_bytes itemsize nd part = itemsize * prod_list part"
        using part_bytes_eq 2 by blast
      then have big: "itemsize \<le> part_bytes itemsize nd part" using pos 2(5) by simp
      have p: "1 \<le> part ! i" using 2 by auto
      let ?part = "part[i := cdiv (part ! i) 2]"
      have ge: "\<forall>x \<in> set ?part. 1 \<le> x" if "part ! i \<noteq> 1"
        using that p cdiv_pos_less [of "part ! i"] 2(3)
          set_update_subset_insert [of part i "cdiv (part ! i) 2"] by auto
      have less: "itemsize * prod_list ?part < 2 ^ 63" if "part ! i \<noteq> 1"
      proof -
        have "list_all2 (\<lambda>a b. 0 \<le> a \<and> a \<le> b) ?part part"
          unfolding list_all2_conv_all_nth
        proof (intro conjI allI impI)
          fix j assume j: "j < length (part[i := cdiv (part ! i) 2])"
          then have "1 \<le> part ! j" using 2(3) by simp
          then show "0 \<le> part[i := cdiv (part ! i) 2] ! j" "part[i := cdiv (part ! i) 2] ! j \<le> part ! j"
            using cdiv_pos_less [of "part ! i"] p that j by (cases "j = i"; simp)+
        qed simp
        then have "prod_list ?part \<le> prod_list part" using prod_list_mono_int by blast
        then have "itemsize * prod_list ?part \<le> itemsize * prod_list part" using 2(5) by simp
        then show ?thesis using 2(4) by linarith
      qed
      have "\<exists>part'. loop nd itemsize minsize maxsize (i + 1) part' = Some r \<and> length part' = nd \<and>
          (\<forall>x \<in> set part'. 1 \<le> x) \<and> itemsize * prod_list part' < 2 ^ 63"
        using step.hyps 2 big ge less by (cases "part ! i = 1") (auto simp: Let_def)
      then show ?thesis using step.IH 2(5-7) by blast
    qed
  qed
qed

lemma advice_boxed_ok:
  assumes "iarray_set_dtype_size d = Inr d'"
    and "0 < nd" "nd \<le> length sh" "\<forall>j < nd. 1 \<le> sh ! j \<and> sh ! j < 2 ^ 62"
    and "dtype_size d' * prod_list (take nd sh) < 2 ^ 63"
    and "dtype_size d' \<le> maxsize" "maxsize \<le> INT32_MAX" "1024 \<le> minsize" "minsize \<le> INT32_MAX"
  shows "boxed_ok nd sh (dtype_size d') minsize maxsize bt"
  using assms set_dtype_size_InrD(4) [OF assms(1)] by (auto simp: boxed_ok_def)

section \<open>Properties\<close>

text \<open>
  Claim C31. \<open>get_nearest_power2\<close> returns the largest power of two that is at most its argument, for
  every argument from 1 to \<open>2 ^ 62 - 1\<close>; in particular its loop ends there.
\<close>

theorem get_nearest_power2_correct:
  assumes "1 \<le> v" "v < 2 ^ 62"
  shows "\<exists>m::nat. get_nearest_power2 v = Some (2 ^ m) \<and> 2 ^ m \<le> v \<and> v < 2 ^ (m + 1)"
  using assms by (rule nearest_power2_spec)

lemma get_nearest_power2_correct_witness:
  "\<exists>m::nat. get_nearest_power2 1000 = Some (2 ^ m) \<and> 2 ^ m \<le> (1000::int) \<and> 1000 < (2::int) ^ (m + 1)"
  using get_nearest_power2_correct [of 1000] by simp

text \<open>
  From \<open>2 ^ 62\<close> on the doubling overflows before it passes the argument: the counter goes
  to the smallest 64-bit integer and then stays at 0, so the loop does not end. The guard
  \<open>power2 < INT64_MAX\<close> of the code does not prevent this.
\<close>

lemma get_nearest_power2_diverges:
  assumes "2 ^ 62 \<le> v" "v \<le> INT64_MAX"
  shows "get_nearest_power2 v = None"
proof -
  have "\<exists>k \<le> 62. (2::int) = 2 ^ k" by (rule exI [of _ 1]) simp
  then have "power2_loop v 2 = None"
    using power2_loop_stuck [of v 2] assms(1) by (cases "power2_loop v 2") blast+
  then show ?thesis by (simp add: get_nearest_power2_def)
qed

lemma get_nearest_power2_diverges_witness: "get_nearest_power2 (2 ^ 62) = None"
  using get_nearest_power2_diverges [of "2 ^ 62"] by (simp add: INT64_MAX_def)

text \<open>
  Claim C23. \<open>boxed_optim_partition\<close> returns with success whenever every dimension is at least 1 (and
  below \<open>2 ^ 62\<close>), the bytes of the whole shape fit into a signed 64-bit integer, one item fits
  into \<open>maxsize\<close>, the limits fit into 32 bits and, with the tuner on a one-dimensional array,
  eight items fit below \<open>minsize\<close>. Every size it advises is a power of two between 1 and the
  dimension, and the partition in bytes is at most \<open>maxsize\<close>, or below \<open>minsize\<close> (when a
  halving jumps over the range between the two limits).
\<close>

theorem boxed_optim_partition_correct:
  assumes "0 < nd" "nd \<le> length sh" "\<forall>j < nd. 1 \<le> sh ! j \<and> sh ! j < 2 ^ 62"
    and "itemsize * prod_list (take nd sh) < 2 ^ 63"
    and "0 < itemsize" "itemsize \<le> maxsize" "maxsize \<le> INT32_MAX" "minsize \<le> INT32_MAX"
    and "bt \<and> nd = 1 \<longrightarrow> 8 * itemsize \<le> minsize"
  shows "\<exists>part. boxed_optim_partition nd sh itemsize minsize maxsize bt = Some (Inr part) \<and>
    length part = nd \<and>
    (\<forall>j < nd. 1 \<le> part ! j \<and> part ! j \<le> sh ! j \<and> (\<exists>k::nat. part ! j = 2 ^ k)) \<and>
    itemsize * prod_list part \<le> max maxsize (minsize - 1)"
proof -
  have "boxed_ok nd sh itemsize minsize maxsize bt" using assms by (simp add: boxed_ok_def)
  then obtain part where p: "boxed_optim_partition nd sh itemsize minsize maxsize bt = Some (Inr part)"
      "shrunk part (take nd sh)"
      "itemsize * prod_list part < minsize \<or> itemsize * prod_list part \<le> maxsize"
    using boxed_spec by blast
  have "itemsize * prod_list part \<le> max maxsize (minsize - 1)" using p(3) by auto
  moreover have "length part = nd" "\<forall>j < nd. is_pow2 (part ! j) \<and> part ! j \<le> sh ! j"
    using p(2) assms(2) by (simp_all add: shrunk_nth)
  ultimately show ?thesis using p(1) is_pow2_pos
    by (intro exI [of _ part]) (fastforce simp: is_pow2_def)
qed

lemma boxed_optim_partition_correct_witness:
  "\<exists>part. boxed_optim_partition 2 [1000, 300] 8 1024 65536 True = Some (Inr part) \<and>
    length part = 2 \<and> 8 * prod_list part \<le> 65536"
  using boxed_optim_partition_correct [of 2 "[1000, 300]" 8 65536 1024 True]
  by (auto simp: INT32_MAX_def less_Suc_eq numeral_2_eq_2)

text \<open>
  Claim C40. Two inputs on which the shrinking loop never ends, so the call does not return: an array
  without dimensions (which the header calls a scalar), and a \<open>maxsize\<close> smaller than one
  item while \<open>minsize\<close> is at most one item, for a shape whose bytes fit into a signed 64-bit
  integer.
\<close>

theorem boxed_optim_partition_diverges:
  assumes "nd = 0 \<or> (nd \<le> length sh \<and> (\<forall>j < nd. 1 \<le> sh ! j \<and> sh ! j < 2 ^ 62) \<and>
      itemsize * prod_list (take nd sh) < 2 ^ 63 \<and> 0 < itemsize \<and> maxsize < itemsize \<and> minsize \<le> itemsize)"
  shows "boxed_optim_partition nd sh itemsize minsize maxsize bt = None"
proof -
  obtain p where p: "those (map (\<lambda>i. get_nearest_power2 (sh ! i)) [0..<nd]) = Some p"
      "shrunk p (take nd sh)"
    using nearest_init [of nd sh] assms by auto
  have "\<forall>x \<in> set p. 1 \<le> x" using p(2) is_pow2_pos by (fastforce simp: shrunk_nth in_set_conv_nth)
  moreover have "length p = nd" using p(2) assms by (auto simp: shrunk_length)
  moreover have "nd = 0 \<or> itemsize * prod_list p < 2 ^ 63"
    using shrunk_bytes [OF p(2), of itemsize] assms by linarith
  ultimately have "shrink_loop nd itemsize minsize maxsize 0 p = None"
    using shrink_hangs [of nd itemsize minsize maxsize 0 p] assms
    by (cases "shrink_loop nd itemsize minsize maxsize 0 p") auto
  then show ?thesis using p(1) by (simp add: boxed_optim_partition_def)
qed

lemma boxed_optim_partition_diverges_witness:
  "boxed_optim_partition 1 [100] 8 1 4 False = None \<and> boxed_optim_partition 0 [] 8 1024 65536 True = None"
  using boxed_optim_partition_diverges [of 1 "[100]" 8 4 1 False]
    boxed_optim_partition_diverges [of 0 "[]" 8 65536 1024 True] by simp

text \<open>
  When the bytes of the shape of powers of two reach \<open>2 ^ 63\<close> the 64-bit product overflows to 0 or
  to the smallest integer, the loop takes the size to be below \<open>minsize\<close>, and the call fails
  at once, although a partition within the limits exists.
\<close>

lemma is_pow2_prod: "\<forall>x \<in> set xs. is_pow2 x \<Longrightarrow> is_pow2 (prod_list xs)"
proof (induction xs)
  case (Cons x xs)
  then obtain a b where "x = 2 ^ a" "prod_list xs = 2 ^ b" by (auto simp: is_pow2_def)
  then show ?case by (auto simp: is_pow2_def simp flip: power_add)
qed (simp add: is_pow2_def exI [of _ 0])

lemma to_i64_pow2:
  assumes "is_pow2 x" "2 ^ 63 \<le> x"
  shows "to_i64 x \<le> 0"
proof -
  obtain k where k: "x = 2 ^ k" using assms(1) by (auto simp: is_pow2_def)
  have "\<not> k < 63" using assms(2) power_strict_increasing [of k 63 "2 :: int"] unfolding k by fastforce
  then have "63 \<le> k" by simp
  show ?thesis
  proof (cases "k = 63")
    case True
    then show ?thesis by (simp add: k to_i64_def)
  next
    case False
    then obtain j where "k = 64 + j" using \<open>63 \<le> k\<close> le_Suc_ex [of 64 k] by auto
    then show ?thesis by (simp add: k to_i64_def power_add)
  qed
qed

lemma boxed_optim_partition_overflow:
  assumes "0 < nd" "nd \<le> length sh" "\<forall>j < nd. 1 \<le> sh ! j \<and> sh ! j < 2 ^ 62" "is_pow2 itemsize"
    and "those (map (\<lambda>i. get_nearest_power2 (sh ! i)) [0..<nd]) = Some p"
    and "2 ^ 63 \<le> itemsize * prod_list p" "0 < minsize"
  shows "boxed_optim_partition nd sh itemsize minsize maxsize bt = Some (Inl IARRAY_ERR_INVALID_CHUNKSHAPE)"
proof -
  have p: "shrunk p (take nd sh)" using nearest_init [OF assms(3,2)] assms(5) by simp
  then have lp: "length p = nd" and "\<forall>x \<in> set p. is_pow2 x"
    using assms(2) by (auto simp: shrunk_nth in_set_conv_nth)
  then have "is_pow2 (itemsize * prod_list p)" using is_pow2_prod [of "itemsize # p"] assms(4) by simp
  then have small: "part_bytes itemsize nd p \<le> 0"
    using to_i64_pow2 assms(6) by (simp add: part_bytes_mod lp assms(1))
  then have "shrink_loop nd itemsize minsize maxsize 0 p = Some (Exit_out2, part_bytes itemsize nd p, p)"
    using assms(1,7) by (subst shrink_loop.simps) (simp add: Let_def)
  then show ?thesis using small assms(5) by (simp add: boxed_optim_partition_def INT32_MAX_def)
qed

text \<open>An array of \<open>2 ^ 31\<close> by \<open>2 ^ 31\<close> doubles (32 exabytes) gets no advice.\<close>

lemma boxed_optim_partition_overflow_example:
  "boxed_optim_partition 2 [2 ^ 31, 2 ^ 31] 8 262144 16777216 False = Some (Inl IARRAY_ERR_INVALID_CHUNKSHAPE)"
proof -
  obtain m where m: "get_nearest_power2 (2 ^ 31) = Some (2 ^ m)" "2 ^ m \<le> (2 :: int) ^ 31" "(2 :: int) ^ 31 < 2 ^ (m + 1)"
    using nearest_power2_spec [of "2 ^ 31"] by auto
  have "m = 31" using m(2,3) power_le_imp_le_exp [of "2 :: int" m 31] power_less_imp_less_exp [of "2 :: int" 31 "m + 1"]
    by linarith
  then have p: "get_nearest_power2 2147483648 = Some 2147483648" using m(1) by simp
  have "is_pow2 8" unfolding is_pow2_def by (rule exI [of _ 3]) simp
  note p8 = this
  show ?thesis
  proof (rule boxed_optim_partition_overflow [OF _ _ _ p8])
    show "those (map (\<lambda>i. get_nearest_power2 ([2 ^ 31, 2 ^ 31] ! i)) [0..<2]) = Some [2147483648, 2147483648]"
      using p by (simp add: upt_rec)
    show "\<forall>j < 2. 1 \<le> [2 ^ 31, 2 ^ 31 :: int] ! j \<and> [2 ^ 31, 2 ^ 31] ! j < (2 :: int) ^ 62"
      by (simp add: less_2_cases_iff)
  qed simp_all
qed

text \<open>
  Claim C18. When the caller leaves all four limits at 0, so that the defaults apply, the advice always
  succeeds: for every element type, at least one dimension, every dimension from 1 to \<open>2 ^ 62 - 1\<close>,
  the bytes of the whole array below \<open>2 ^ 63\<close> and any configuration, every block size lies between 1 and the chunk size, every chunk size
  between 1 and the dimension, a chunk has at most 16 MB and a block at most 512 KB.
\<close>

theorem partition_advice_defaults:
  assumes "0 < ndim d" "ndim d \<le> length (shape d)"
    and "\<forall>j < ndim d. 1 \<le> shape d ! j \<and> shape d ! j < 2 ^ 62"
    and "iarray_set_dtype_size d = Inr d'" "dtype_size d' * prod_list (take (ndim d) (shape d)) < 2 ^ 63"
  shows "\<exists>chunks blocks. iarray_partition_advice cfg d 0 0 0 0 = Some (Inr (chunks, blocks)) \<and>
    length chunks = ndim d \<and> length blocks = ndim d \<and>
    (\<forall>j < ndim d. 1 \<le> blocks ! j \<and> blocks ! j \<le> chunks ! j \<and> chunks ! j \<le> shape d ! j) \<and>
    dtype_size d' * prod_list chunks \<le> 16 * 1024 * 1024 \<and>
    dtype_size d' * prod_list blocks \<le> 512 * 1024"
proof -
  note d' = assms(4)
  note sz = set_dtype_size_InrD [OF d']
  have szp: "0 < dtype_size d'" using sz(4) by auto
  let ?mc = "default_max_chunksize (compression_favor cfg)"
  let ?mb = "default_max_blocksize (compression_favor cfg)"
  have lim: "?mc = 16777216" "131072 \<le> ?mb" "?mb \<le> 524288"
    by (cases "compression_favor cfg"; simp add: default_max_chunksize_def default_max_blocksize_def)+
  obtain chunks where c: "boxed_optim_partition (ndim d) (shape d) (dtype_size d') (256 * 1024) ?mc
        (cfg_btune cfg) = Some (Inr chunks)" "shrunk chunks (take (ndim d) (shape d))"
      "dtype_size d' * prod_list chunks < 256 * 1024 \<or> dtype_size d' * prod_list chunks \<le> ?mc"
    using boxed_spec [OF advice_boxed_ok [OF d' assms(1-3,5), of ?mc "256 * 1024" "cfg_btune cfg"]]
      lim sz(4) by (auto simp: INT32_MAX_def)
  have lc: "length chunks = ndim d" and cj: "\<forall>j < ndim d. is_pow2 (chunks ! j) \<and> chunks ! j \<le> shape d ! j"
    using c(2) assms(2) by (simp_all add: shrunk_nth)
  have cpos: "\<forall>j < ndim d. 1 \<le> chunks ! j \<and> chunks ! j < 2 ^ 62"
    using cj assms(3) is_pow2_pos by (fastforce intro: order.strict_trans1)
  have cp: "0 < prod_list chunks"
    using cpos lc by (intro prod_list_pos) (fastforce simp: in_set_conv_nth)
  have cb: "dtype_size d' * prod_list chunks < 2 ^ 63"
    using shrunk_bytes [OF c(2) szp] assms(5) by linarith
  have pb: "part_bytes (dtype_size d') (ndim d) chunks = dtype_size d' * prod_list chunks"
    using part_bytes_shrunk [OF c(2) szp assms(5)] assms(2) by simp
  have it: "dtype_size d' \<le> dtype_size d' * prod_list chunks" using sz(4) cp by auto
  define mb where "mb = (if dtype_size d' * prod_list chunks < ?mb
    then dtype_size d' * prod_list chunks else ?mb)"
  have mb: "dtype_size d' \<le> mb" "mb \<le> 524288" using it lim sz(4) by (auto simp: mb_def)
  obtain blocks where b: "boxed_optim_partition (ndim d) chunks (dtype_size d') 1024 mb
        (cfg_btune cfg) = Some (Inr blocks)" "shrunk blocks (take (ndim d) chunks)"
      "dtype_size d' * prod_list blocks < 1024 \<or> dtype_size d' * prod_list blocks \<le> mb"
    using boxed_spec [OF advice_boxed_ok [OF d' assms(1) _ cpos, of mb 1024 "cfg_btune cfg"]]
      mb lc cb by (auto simp: INT32_MAX_def)
  have bj: "length blocks = ndim d \<and> (\<forall>j < ndim d. 1 \<le> blocks ! j \<and> blocks ! j \<le> chunks ! j)"
    using b(2) lc is_pow2_pos by (fastforce simp: shrunk_nth)
  have "iarray_partition_advice cfg d 0 0 0 0 = Some (Inr (chunks, blocks))"
    using d' c(1) b(1) sz(2,3) lc
    by (simp add: iarray_partition_advice_def Let_def pb mb_def split del: if_split cong: if_cong)
  then show ?thesis using lc bj cj cpos c(3) b(3) mb(2) lim(1)
    by (intro exI [of _ chunks] exI [of _ blocks]) auto
qed

definition example_dtshape :: iarray_dtshape where
  "example_dtshape = \<lparr> dtype = IARRAY_DATA_TYPE_DOUBLE, dtype_size = 0, ndim = 2,
     shape = [1000, 300] \<rparr>"

lemma partition_advice_defaults_witness:
  "\<exists>chunks blocks. iarray_partition_advice IARRAY_CONFIG_DEFAULTS example_dtshape 0 0 0 0 =
      Some (Inr (chunks, blocks)) \<and> 8 * prod_list chunks \<le> 16777216 \<and> 8 * prod_list blocks \<le> 524288"
proof -
  let ?d = "example_dtshape \<lparr> dtype_size := 8 \<rparr>"
  have "\<forall>j < ndim example_dtshape. 1 \<le> shape example_dtshape ! j \<and> shape example_dtshape ! j < 2 ^ 62"
    by (simp add: example_dtshape_def less_2_cases_iff)
  moreover have "iarray_set_dtype_size example_dtshape = Inr ?d"
    by (simp add: example_dtshape_def iarray_set_dtype_size.simps)
  ultimately show ?thesis
    using partition_advice_defaults [of example_dtshape ?d IARRAY_CONFIG_DEFAULTS]
    by (auto simp: example_dtshape_def)
qed

text \<open>
  With limits of the caller's choice the tuner's extra division can go wrong in one
  dimension: for an array of two one-byte items with \<open>minsize\<close> 1 and \<open>maxsize\<close> 3 the size
  is halved to 1 and then divided by 4, and the call reports success with a size of 0 (the
  test \<open>partsize <= 0\<close> looks at the size from before the divisions).
\<close>

lemma boxed_optim_partition_zero:
  "boxed_optim_partition 1 [2] 1 1 3 True = Some (Inr [0])"
proof -
  have p: "get_nearest_power2 2 = Some 2"
    by (simp add: get_nearest_power2_def power2_loop.simps to_i64_def INT64_MAX_def c_arith)
  have s: "shrink_loop 1 1 1 3 0 [2] = Some (Exit_out, 2, [2])"
    by (subst shrink_loop.simps) (simp add: part_bytes_def to_i64_def)
  have t: "too_close 2 2" by code_simp
  show ?thesis
    using p s t
    by (simp add: boxed_optim_partition_def refine_loop.simps(2) part_bytes_def to_i64_def c_arith INT32_MAX_def)
qed

end
