(* ===== verification/Views.thy ===== *)
theory Views
  imports Types Floats
begin

text \<open>
  Views (\<^verbatim>\<open>src/iarray_views.c\<close>). A view has no data of its own: reading one of its blocks
  runs a postfilter that reads the block of the predecessor's super-chunk and, when the
  element types differ, casts every item. The file chooses the cast from a table over the
  type of the container at the end of the chain and the type of the view.
\<close>

section \<open>Casts\<close>

fun dtype_width :: "iarray_data_type \<Rightarrow> nat" where
  "dtype_width IARRAY_DATA_TYPE_DOUBLE = 64"
| "dtype_width IARRAY_DATA_TYPE_FLOAT = 32"
| "dtype_width IARRAY_DATA_TYPE_INT64 = 64"
| "dtype_width IARRAY_DATA_TYPE_INT32 = 32"
| "dtype_width IARRAY_DATA_TYPE_INT16 = 16"
| "dtype_width IARRAY_DATA_TYPE_INT8 = 8"
| "dtype_width IARRAY_DATA_TYPE_UINT64 = 64"
| "dtype_width IARRAY_DATA_TYPE_UINT32 = 32"
| "dtype_width IARRAY_DATA_TYPE_UINT16 = 16"
| "dtype_width IARRAY_DATA_TYPE_UINT8 = 8"
| "dtype_width IARRAY_DATA_TYPE_BOOL = 8"
| "dtype_width IARRAY_DATA_TYPE_MAX = 0"

definition itemsize_of :: "iarray_data_type \<Rightarrow> int" where
  "itemsize_of d = int (dtype_width d) div 8"

definition is_signed_dtype :: "iarray_data_type \<Rightarrow> bool" where
  "is_signed_dtype d \<longleftrightarrow> d \<in> {IARRAY_DATA_TYPE_INT64, IARRAY_DATA_TYPE_INT32,
     IARRAY_DATA_TYPE_INT16, IARRAY_DATA_TYPE_INT8}"

definition is_unsigned_dtype :: "iarray_data_type \<Rightarrow> bool" where
  "is_unsigned_dtype d \<longleftrightarrow> d \<in> {IARRAY_DATA_TYPE_UINT64, IARRAY_DATA_TYPE_UINT32,
     IARRAY_DATA_TYPE_UINT16, IARRAY_DATA_TYPE_UINT8}"

text \<open>The values an item of a type can have.\<close>

definition int_in_range :: "iarray_data_type \<Rightarrow> int \<Rightarrow> bool" where
  "int_in_range d n \<longleftrightarrow>
     (if is_signed_dtype d then - (2 ^ (dtype_width d - 1)) \<le> n \<and> n < 2 ^ (dtype_width d - 1)
      else if is_unsigned_dtype d then 0 \<le> n \<and> n < 2 ^ dtype_width d
      else d = IARRAY_DATA_TYPE_BOOL \<and> (n = 0 \<or> n = 1))"

definition int_to_dtype :: "iarray_data_type \<Rightarrow> int \<Rightarrow> int" where
  "int_to_dtype d n =
     (if is_signed_dtype d then wrap_signed (dtype_width d) n
      else if is_unsigned_dtype d then wrap_unsigned (dtype_width d) n
      else if n = 0 then 0 else 1)"

definition fp_round :: "iarray_data_type \<Rightarrow> rat \<Rightarrow> rat" where
  "fp_round d r = (if d = IARRAY_DATA_TYPE_FLOAT then to_float r else to_double r)"

text \<open>
  The assignment \<open>*dst = *src\<close> of the macro \<open>VIEW_CAST\<close>: C's implicit conversion between the
  two item types. \<open>None\<close> is a floating-point value that does not fit the integer type, which
  C leaves undefined.
\<close>

definition cast_item :: "iarray_data_type \<Rightarrow> ina_val \<Rightarrow> ina_val option" where
  "cast_item dst v =
     (if dst = IARRAY_DATA_TYPE_DOUBLE \<or> dst = IARRAY_DATA_TYPE_FLOAT
      then (case v of
          VInt n \<Rightarrow> Some (VFp (Fin (fp_round dst (of_int n))))
        | VFp (Fin r) \<Rightarrow> Some (VFp (Fin (fp_round dst r)))
        | VFp x \<Rightarrow> Some (VFp x))
      else (case v of
          VInt n \<Rightarrow> Some (VInt (int_to_dtype dst n))
        | VFp (Fin r) \<Rightarrow>
            if dst = IARRAY_DATA_TYPE_BOOL then Some (VInt (if r = 0 then 0 else 1))
            else if int_in_range dst (trunc_rat r) then Some (VInt (trunc_rat r)) else None
        | VFp _ \<Rightarrow> if dst = IARRAY_DATA_TYPE_BOOL then Some (VInt 1) else None))"

text \<open>
  One cast function of the file: the C types of its two pointers. \<open>run_cast\<close> is the loop of
  the macro over the items of a block.
\<close>

datatype cast_fn = VIEW_CAST (cast_src: iarray_data_type) (cast_dst: iarray_data_type)

definition run_cast :: "cast_fn \<Rightarrow> ina_val list \<Rightarrow> ina_val list option" where
  "run_cast c xs = those (map (cast_item (cast_dst c)) xs)"

section \<open>The cast table\<close>

text \<open>One definition per \<open>case\<close> of the outer \<open>switch\<close>; \<open>None\<close> is \<open>goto fail\<close>.\<close>

definition view_cast_double :: "iarray_data_type \<Rightarrow> cast_fn option" where
  "view_cast_double view = (case view of
       IARRAY_DATA_TYPE_INT64 \<Rightarrow> Some (VIEW_CAST IARRAY_DATA_TYPE_DOUBLE IARRAY_DATA_TYPE_INT64)
     | IARRAY_DATA_TYPE_UINT64 \<Rightarrow> Some (VIEW_CAST IARRAY_DATA_TYPE_DOUBLE IARRAY_DATA_TYPE_UINT64)
     | _ \<Rightarrow> None)"

definition view_cast_float :: "iarray_data_type \<Rightarrow> cast_fn option" where
  "view_cast_float view = (case view of
       IARRAY_DATA_TYPE_DOUBLE \<Rightarrow> Some (VIEW_CAST IARRAY_DATA_TYPE_FLOAT IARRAY_DATA_TYPE_DOUBLE)
     | IARRAY_DATA_TYPE_INT64 \<Rightarrow> Some (VIEW_CAST IARRAY_DATA_TYPE_FLOAT IARRAY_DATA_TYPE_INT64)
     | IARRAY_DATA_TYPE_INT32 \<Rightarrow> Some (VIEW_CAST IARRAY_DATA_TYPE_FLOAT IARRAY_DATA_TYPE_INT32)
     | IARRAY_DATA_TYPE_UINT64 \<Rightarrow> Some (VIEW_CAST IARRAY_DATA_TYPE_FLOAT IARRAY_DATA_TYPE_UINT64)
     | IARRAY_DATA_TYPE_UINT32 \<Rightarrow> Some (VIEW_CAST IARRAY_DATA_TYPE_FLOAT IARRAY_DATA_TYPE_UINT32)
     | _ \<Rightarrow> None)"

definition view_cast_int64 :: "iarray_data_type \<Rightarrow> cast_fn option" where
  "view_cast_int64 view = (case view of
       IARRAY_DATA_TYPE_DOUBLE \<Rightarrow> Some (VIEW_CAST IARRAY_DATA_TYPE_INT64 IARRAY_DATA_TYPE_DOUBLE)
     | IARRAY_DATA_TYPE_UINT64 \<Rightarrow> Some (VIEW_CAST IARRAY_DATA_TYPE_INT64 IARRAY_DATA_TYPE_UINT64)
     | _ \<Rightarrow> None)"

definition view_cast_int32 :: "iarray_data_type \<Rightarrow> cast_fn option" where
  "view_cast_int32 view = (case view of
       IARRAY_DATA_TYPE_DOUBLE \<Rightarrow> Some (VIEW_CAST IARRAY_DATA_TYPE_INT32 IARRAY_DATA_TYPE_DOUBLE)
     | IARRAY_DATA_TYPE_FLOAT \<Rightarrow> Some (VIEW_CAST IARRAY_DATA_TYPE_INT32 IARRAY_DATA_TYPE_FLOAT)
     | IARRAY_DATA_TYPE_INT64 \<Rightarrow> Some (VIEW_CAST IARRAY_DATA_TYPE_INT32 IARRAY_DATA_TYPE_INT64)
     | IARRAY_DATA_TYPE_UINT64 \<Rightarrow> Some (VIEW_CAST IARRAY_DATA_TYPE_INT32 IARRAY_DATA_TYPE_UINT64)
     | IARRAY_DATA_TYPE_UINT32 \<Rightarrow> Some (VIEW_CAST IARRAY_DATA_TYPE_INT32 IARRAY_DATA_TYPE_UINT32)
     | _ \<Rightarrow> None)"

definition view_cast_int16 :: "iarray_data_type \<Rightarrow> cast_fn option" where
  "view_cast_int16 view = (case view of
       IARRAY_DATA_TYPE_DOUBLE \<Rightarrow> Some (VIEW_CAST IARRAY_DATA_TYPE_INT16 IARRAY_DATA_TYPE_DOUBLE)
     | IARRAY_DATA_TYPE_FLOAT \<Rightarrow> Some (VIEW_CAST IARRAY_DATA_TYPE_INT16 IARRAY_DATA_TYPE_FLOAT)
     | IARRAY_DATA_TYPE_INT64 \<Rightarrow> Some (VIEW_CAST IARRAY_DATA_TYPE_INT16 IARRAY_DATA_TYPE_INT64)
     | IARRAY_DATA_TYPE_INT32 \<Rightarrow> Some (VIEW_CAST IARRAY_DATA_TYPE_INT16 IARRAY_DATA_TYPE_INT32)
     | IARRAY_DATA_TYPE_UINT64 \<Rightarrow> Some (VIEW_CAST IARRAY_DATA_TYPE_INT16 IARRAY_DATA_TYPE_UINT64)
     | IARRAY_DATA_TYPE_UINT32 \<Rightarrow> Some (VIEW_CAST IARRAY_DATA_TYPE_INT16 IARRAY_DATA_TYPE_UINT32)
     | IARRAY_DATA_TYPE_UINT16 \<Rightarrow> Some (VIEW_CAST IARRAY_DATA_TYPE_INT16 IARRAY_DATA_TYPE_UINT16)
     | _ \<Rightarrow> None)"

definition view_cast_int8 :: "iarray_data_type \<Rightarrow> cast_fn option" where
  "view_cast_int8 view = (case view of
       IARRAY_DATA_TYPE_DOUBLE \<Rightarrow> Some (VIEW_CAST IARRAY_DATA_TYPE_INT8 IARRAY_DATA_TYPE_DOUBLE)
     | IARRAY_DATA_TYPE_FLOAT \<Rightarrow> Some (VIEW_CAST IARRAY_DATA_TYPE_INT8 IARRAY_DATA_TYPE_FLOAT)
     | IARRAY_DATA_TYPE_INT64 \<Rightarrow> Some (VIEW_CAST IARRAY_DATA_TYPE_INT8 IARRAY_DATA_TYPE_INT64)
     | IARRAY_DATA_TYPE_INT32 \<Rightarrow> Some (VIEW_CAST IARRAY_DATA_TYPE_INT8 IARRAY_DATA_TYPE_INT32)
     | IARRAY_DATA_TYPE_INT16 \<Rightarrow> Some (VIEW_CAST IARRAY_DATA_TYPE_INT8 IARRAY_DATA_TYPE_INT16)
     | IARRAY_DATA_TYPE_UINT64 \<Rightarrow> Some (VIEW_CAST IARRAY_DATA_TYPE_INT8 IARRAY_DATA_TYPE_UINT64)
     | IARRAY_DATA_TYPE_UINT32 \<Rightarrow> Some (VIEW_CAST IARRAY_DATA_TYPE_INT8 IARRAY_DATA_TYPE_UINT32)
     | IARRAY_DATA_TYPE_UINT16 \<Rightarrow> Some (VIEW_CAST IARRAY_DATA_TYPE_INT8 IARRAY_DATA_TYPE_UINT16)
     | IARRAY_DATA_TYPE_UINT8 \<Rightarrow> Some (VIEW_CAST IARRAY_DATA_TYPE_INT8 IARRAY_DATA_TYPE_UINT8)
     | IARRAY_DATA_TYPE_BOOL \<Rightarrow> Some (VIEW_CAST IARRAY_DATA_TYPE_INT8 IARRAY_DATA_TYPE_BOOL)
     | _ \<Rightarrow> None)"

definition view_cast_uint64 :: "iarray_data_type \<Rightarrow> cast_fn option" where
  "view_cast_uint64 view = (case view of
       IARRAY_DATA_TYPE_DOUBLE \<Rightarrow> Some (VIEW_CAST IARRAY_DATA_TYPE_UINT64 IARRAY_DATA_TYPE_DOUBLE)
     | IARRAY_DATA_TYPE_INT64 \<Rightarrow> Some (VIEW_CAST IARRAY_DATA_TYPE_UINT64 IARRAY_DATA_TYPE_INT64)
     | _ \<Rightarrow> None)"

definition view_cast_uint32 :: "iarray_data_type \<Rightarrow> cast_fn option" where
  "view_cast_uint32 view = (case view of
       IARRAY_DATA_TYPE_DOUBLE \<Rightarrow> Some (VIEW_CAST IARRAY_DATA_TYPE_UINT32 IARRAY_DATA_TYPE_DOUBLE)
     | IARRAY_DATA_TYPE_FLOAT \<Rightarrow> Some (VIEW_CAST IARRAY_DATA_TYPE_UINT32 IARRAY_DATA_TYPE_FLOAT)
     | IARRAY_DATA_TYPE_INT64 \<Rightarrow> Some (VIEW_CAST IARRAY_DATA_TYPE_UINT32 IARRAY_DATA_TYPE_INT64)
     | IARRAY_DATA_TYPE_INT32 \<Rightarrow> Some (VIEW_CAST IARRAY_DATA_TYPE_UINT32 IARRAY_DATA_TYPE_INT32)
     | IARRAY_DATA_TYPE_UINT64 \<Rightarrow> Some (VIEW_CAST IARRAY_DATA_TYPE_UINT32 IARRAY_DATA_TYPE_UINT64)
     | _ \<Rightarrow> None)"

definition view_cast_uint16 :: "iarray_data_type \<Rightarrow> cast_fn option" where
  "view_cast_uint16 view = (case view of
       IARRAY_DATA_TYPE_DOUBLE \<Rightarrow> Some (VIEW_CAST IARRAY_DATA_TYPE_UINT16 IARRAY_DATA_TYPE_DOUBLE)
     | IARRAY_DATA_TYPE_FLOAT \<Rightarrow> Some (VIEW_CAST IARRAY_DATA_TYPE_UINT16 IARRAY_DATA_TYPE_FLOAT)
     | IARRAY_DATA_TYPE_INT64 \<Rightarrow> Some (VIEW_CAST IARRAY_DATA_TYPE_UINT16 IARRAY_DATA_TYPE_INT64)
     | IARRAY_DATA_TYPE_INT32 \<Rightarrow> Some (VIEW_CAST IARRAY_DATA_TYPE_UINT16 IARRAY_DATA_TYPE_INT32)
     | IARRAY_DATA_TYPE_INT16 \<Rightarrow> Some (VIEW_CAST IARRAY_DATA_TYPE_UINT16 IARRAY_DATA_TYPE_INT16)
     | IARRAY_DATA_TYPE_UINT64 \<Rightarrow> Some (VIEW_CAST IARRAY_DATA_TYPE_UINT16 IARRAY_DATA_TYPE_UINT64)
     | IARRAY_DATA_TYPE_UINT32 \<Rightarrow> Some (VIEW_CAST IARRAY_DATA_TYPE_UINT16 IARRAY_DATA_TYPE_UINT32)
     | _ \<Rightarrow> None)"

definition view_cast_uint8 :: "iarray_data_type \<Rightarrow> cast_fn option" where
  "view_cast_uint8 view = (case view of
       IARRAY_DATA_TYPE_DOUBLE \<Rightarrow> Some (VIEW_CAST IARRAY_DATA_TYPE_UINT8 IARRAY_DATA_TYPE_DOUBLE)
     | IARRAY_DATA_TYPE_FLOAT \<Rightarrow> Some (VIEW_CAST IARRAY_DATA_TYPE_UINT8 IARRAY_DATA_TYPE_FLOAT)
     | IARRAY_DATA_TYPE_INT64 \<Rightarrow> Some (VIEW_CAST IARRAY_DATA_TYPE_UINT8 IARRAY_DATA_TYPE_INT64)
     | IARRAY_DATA_TYPE_INT32 \<Rightarrow> Some (VIEW_CAST IARRAY_DATA_TYPE_UINT8 IARRAY_DATA_TYPE_INT32)
     | IARRAY_DATA_TYPE_INT16 \<Rightarrow> Some (VIEW_CAST IARRAY_DATA_TYPE_UINT8 IARRAY_DATA_TYPE_INT16)
     | IARRAY_DATA_TYPE_INT8 \<Rightarrow> Some (VIEW_CAST IARRAY_DATA_TYPE_UINT8 IARRAY_DATA_TYPE_INT8)
     | IARRAY_DATA_TYPE_UINT64 \<Rightarrow> Some (VIEW_CAST IARRAY_DATA_TYPE_UINT8 IARRAY_DATA_TYPE_UINT64)
     | IARRAY_DATA_TYPE_UINT32 \<Rightarrow> Some (VIEW_CAST IARRAY_DATA_TYPE_UINT8 IARRAY_DATA_TYPE_UINT32)
     | IARRAY_DATA_TYPE_UINT16 \<Rightarrow> Some (VIEW_CAST IARRAY_DATA_TYPE_UINT8 IARRAY_DATA_TYPE_UINT16)
     | IARRAY_DATA_TYPE_BOOL \<Rightarrow> Some (VIEW_CAST IARRAY_DATA_TYPE_UINT8 IARRAY_DATA_TYPE_BOOL)
     | _ \<Rightarrow> None)"

definition view_cast_bool :: "iarray_data_type \<Rightarrow> cast_fn option" where
  "view_cast_bool view = (case view of
       IARRAY_DATA_TYPE_DOUBLE \<Rightarrow> Some (VIEW_CAST IARRAY_DATA_TYPE_BOOL IARRAY_DATA_TYPE_DOUBLE)
     | IARRAY_DATA_TYPE_FLOAT \<Rightarrow> Some (VIEW_CAST IARRAY_DATA_TYPE_BOOL IARRAY_DATA_TYPE_FLOAT)
     | IARRAY_DATA_TYPE_INT64 \<Rightarrow> Some (VIEW_CAST IARRAY_DATA_TYPE_BOOL IARRAY_DATA_TYPE_INT64)
     | IARRAY_DATA_TYPE_INT32 \<Rightarrow> Some (VIEW_CAST IARRAY_DATA_TYPE_BOOL IARRAY_DATA_TYPE_INT32)
     | IARRAY_DATA_TYPE_INT16 \<Rightarrow> Some (VIEW_CAST IARRAY_DATA_TYPE_BOOL IARRAY_DATA_TYPE_INT16)
     | IARRAY_DATA_TYPE_INT8 \<Rightarrow> Some (VIEW_CAST IARRAY_DATA_TYPE_BOOL IARRAY_DATA_TYPE_INT8)
     | IARRAY_DATA_TYPE_UINT64 \<Rightarrow> Some (VIEW_CAST IARRAY_DATA_TYPE_BOOL IARRAY_DATA_TYPE_UINT64)
     | IARRAY_DATA_TYPE_UINT32 \<Rightarrow> Some (VIEW_CAST IARRAY_DATA_TYPE_BOOL IARRAY_DATA_TYPE_UINT32)
     | IARRAY_DATA_TYPE_UINT16 \<Rightarrow> Some (VIEW_CAST IARRAY_DATA_TYPE_BOOL IARRAY_DATA_TYPE_UINT16)
     | IARRAY_DATA_TYPE_UINT8 \<Rightarrow> Some (VIEW_CAST IARRAY_DATA_TYPE_BOOL IARRAY_DATA_TYPE_UINT8)
     | _ \<Rightarrow> None)"

definition view_cast :: "iarray_data_type \<Rightarrow> iarray_data_type \<Rightarrow> cast_fn option" where
  "view_cast base view = (case base of
       IARRAY_DATA_TYPE_DOUBLE \<Rightarrow> view_cast_double view
     | IARRAY_DATA_TYPE_FLOAT \<Rightarrow> view_cast_float view
     | IARRAY_DATA_TYPE_INT64 \<Rightarrow> view_cast_int64 view
     | IARRAY_DATA_TYPE_INT32 \<Rightarrow> view_cast_int32 view
     | IARRAY_DATA_TYPE_INT16 \<Rightarrow> view_cast_int16 view
     | IARRAY_DATA_TYPE_INT8 \<Rightarrow> view_cast_int8 view
     | IARRAY_DATA_TYPE_UINT64 \<Rightarrow> view_cast_uint64 view
     | IARRAY_DATA_TYPE_UINT32 \<Rightarrow> view_cast_uint32 view
     | IARRAY_DATA_TYPE_UINT16 \<Rightarrow> view_cast_uint16 view
     | IARRAY_DATA_TYPE_UINT8 \<Rightarrow> view_cast_uint8 view
     | IARRAY_DATA_TYPE_BOOL \<Rightarrow> view_cast_bool view
     | IARRAY_DATA_TYPE_MAX \<Rightarrow> None)"

lemmas view_cast_defs = view_cast_def view_cast_double_def view_cast_float_def
  view_cast_int64_def view_cast_int32_def view_cast_int16_def view_cast_int8_def
  view_cast_uint64_def view_cast_uint32_def view_cast_uint16_def view_cast_uint8_def
  view_cast_bool_def

section \<open>Postfilters\<close>

datatype postfilter = Slice_view_postfilter | Type_view_postfilter cast_fn

record view_dparams =
  vp_postfilter :: postfilter
  vp_nthreads :: int

text \<open>
  \<open>iarray_add_view_postfilter\<close>: \<open>view_dtype\<close> is the type of the view, \<open>pred_dtype\<close> the one of the
  container it was made from, \<open>base_dtype\<close> the one of \<open>view->container_viewed\<close> (the end of the
  chain); \<open>pred_is_view\<close> says whether the predecessor is itself a view.
\<close>

definition iarray_add_view_postfilter ::
    "iarray_data_type \<Rightarrow> iarray_data_type \<Rightarrow> iarray_data_type \<Rightarrow> bool \<Rightarrow> int \<Rightarrow> view_dparams res" where
  "iarray_add_view_postfilter view_dtype pred_dtype base_dtype pred_is_view nthreads =
     (let nthreads' = (if pred_is_view then 1 else nthreads) in
      if view_dtype = pred_dtype
      then Inr \<lparr> vp_postfilter = Slice_view_postfilter, vp_nthreads = nthreads' \<rparr>
      else case view_cast base_dtype view_dtype of
          None \<Rightarrow> Inl IARRAY_ERR_INVALID_DTYPE
        | Some c \<Rightarrow> Inr \<lparr> vp_postfilter = Type_view_postfilter c, vp_nthreads = nthreads' \<rparr>)"

text \<open>
  The two postfilters. \<open>getitem start nitems destsize\<close> is \<open>blosc2_getitem_ctx\<close> on the lazy chunk
  of the viewed super-chunk: the items read, or \<open>None\<close> for a negative return value. The
  outer option is \<open>None\<close> when the division by \<open>prop\<close> is one by zero, or when a cast is
  undefined.
\<close>

definition type_view_postfilter ::
    "(int \<Rightarrow> int \<Rightarrow> int \<Rightarrow> ina_val list option) \<Rightarrow> cast_fn \<Rightarrow> int \<Rightarrow> int \<Rightarrow> int \<Rightarrow> int \<Rightarrow> ina_val list res option" where
  "type_view_postfilter getitem c nbytes typesize viewed_typesize nblock =
     (let block_nitems = cdiv nbytes typesize;
          prop = cdiv typesize viewed_typesize
      in if prop = 0 then None
         else case getitem (nblock * block_nitems) block_nitems (cdiv nbytes prop) of
             None \<Rightarrow> Some (Inl IARRAY_ERR_BLOSC_FAILED)
           | Some aux \<Rightarrow> map_option Inr (run_cast c aux))"

definition slice_view_postfilter ::
    "(int \<Rightarrow> int \<Rightarrow> int \<Rightarrow> ina_val list option) \<Rightarrow> int \<Rightarrow> int \<Rightarrow> int \<Rightarrow> int \<Rightarrow> ina_val list res" where
  "slice_view_postfilter getitem nbytes typesize viewed_blocksize nblock =
     (let block_nitems = cdiv viewed_blocksize typesize
      in case getitem (nblock * block_nitems) block_nitems nbytes of
           None \<Rightarrow> Inl IARRAY_ERR_BLOSC_FAILED
         | Some out \<Rightarrow> Inr out)"

section \<open>Facts on the table\<close>

lemma view_cast_entry:
  "view_cast base view = Some c \<Longrightarrow> c = VIEW_CAST base view \<and> base \<noteq> view"
  by (cases base; cases view) (auto simp: view_cast_defs)

lemma view_cast_widens:
  "view_cast base view = Some c \<Longrightarrow> itemsize_of view mod itemsize_of base = 0 \<and>
    0 < itemsize_of base \<and> itemsize_of base \<le> itemsize_of view"
  by (cases base; cases view) (auto simp: view_cast_defs itemsize_of_def)

lemma itemsize_of_set_dtype_size:
  "iarray_set_dtype_size d = Inr d' \<Longrightarrow> dtype_size d' = itemsize_of (dtype d)"
  by (cases "dtype d") (auto simp: itemsize_of_def iarray_set_dtype_size.simps)

section \<open>Properties\<close>

text \<open>
  Claim C33. Every cast that the table accepts for a view of a container reads items of the
  container's type and writes items of the view's type, and an item of the view takes a whole
  positive number of container items' bytes (no type view shrinks the items).
\<close>

theorem view_table_sound:
  assumes "iarray_add_view_postfilter view base base False n = Inr vp"
    and "vp_postfilter vp = Type_view_postfilter c"
  shows "cast_src c = base \<and> cast_dst c = view \<and> base \<noteq> view \<and>
    itemsize_of view mod itemsize_of base = 0 \<and> itemsize_of base \<le> itemsize_of view"
  using assms view_cast_entry [of base view c] view_cast_widens [of base view c]
  by (auto simp: iarray_add_view_postfilter_def Let_def split: if_splits option.splits)

lemma view_table_sound_witness:
  "itemsize_of IARRAY_DATA_TYPE_DOUBLE mod itemsize_of IARRAY_DATA_TYPE_INT16 = 0"
  using view_table_sound [of IARRAY_DATA_TYPE_DOUBLE IARRAY_DATA_TYPE_INT16 4
      "\<lparr> vp_postfilter = Type_view_postfilter
          (VIEW_CAST IARRAY_DATA_TYPE_INT16 IARRAY_DATA_TYPE_DOUBLE), vp_nthreads = 4 \<rparr>"
      "VIEW_CAST IARRAY_DATA_TYPE_INT16 IARRAY_DATA_TYPE_DOUBLE"]
  by (simp add: iarray_add_view_postfilter_def view_cast_defs)

text \<open>
  Claim C35. Reading a block of a type view of a plain container asks the viewed super-chunk for exactly
  the items of that block, into a buffer of exactly their size, and returns their casts, or the
  error of the read.
\<close>

theorem type_view_reads_block:
  assumes "view_cast base view = Some c" "0 \<le> nitems"
    and "nbytes = nitems * itemsize_of view"
  shows "type_view_postfilter getitem c nbytes (itemsize_of view) (itemsize_of base) nblock =
    (case getitem (nblock * nitems) nitems (nitems * itemsize_of base) of
       None \<Rightarrow> Some (Inl IARRAY_ERR_BLOSC_FAILED)
     | Some xs \<Rightarrow> map_option Inr (those (map (cast_item view) xs)))"
proof -
  note w = view_cast_widens [OF assms(1)]
  have n: "cdiv nbytes (itemsize_of view) = nitems"
    using assms w by (simp add: c_arith)
  obtain k where k: "itemsize_of view = itemsize_of base * k" using w by (auto simp: dvd_def)
  have pos: "0 < k" using k w by (metis less_le_trans zero_less_mult_pos)
  have p: "cdiv (itemsize_of view) (itemsize_of base) = k" using k w pos by (simp add: c_arith)
  have "cdiv nbytes k = nitems * itemsize_of base"
    using assms(2,3) k pos w by (simp add: c_arith)
  then show ?thesis
    using n p pos view_cast_entry [OF assms(1)]
    by (simp add: type_view_postfilter_def run_cast_def split: option.split)
qed

lemma type_view_reads_block_witness:
  "type_view_postfilter (\<lambda>s n b. Some [VInt 7, VInt (- 3)])
      (VIEW_CAST IARRAY_DATA_TYPE_INT8 IARRAY_DATA_TYPE_INT32) 8 4 1 5 =
    Some (Inr [VInt 7, VInt (- 3)])"
  using type_view_reads_block [of IARRAY_DATA_TYPE_INT8 IARRAY_DATA_TYPE_INT32
      "VIEW_CAST IARRAY_DATA_TYPE_INT8 IARRAY_DATA_TYPE_INT32" 2 8
      "\<lambda>s n b. Some [VInt 7, VInt (- 3)]" 5]
  by (simp add: view_cast_defs itemsize_of_def cast_item_def int_to_dtype_def is_signed_dtype_def
      wrap_signed_def)

text \<open>
  A type view of a type view takes its cast from the type at the end of the chain,
  although the items it reads come from the predecessor, already cast: whenever the call
  succeeds for three types of which the predecessor's differs from both others, the cast
  function reads items of a type that the data do not have.
\<close>

lemma chained_type_view_wrong_source:
  assumes "base \<noteq> prd" "prd \<noteq> view"
    and "iarray_add_view_postfilter view prd base True n = Inr vp"
  shows "\<exists>c. vp_postfilter vp = Type_view_postfilter c \<and> cast_src c = base \<and> cast_src c \<noteq> prd"
proof -
  obtain c where "view_cast base view = Some c" "vp_postfilter vp = Type_view_postfilter c"
    using assms by (auto simp: iarray_add_view_postfilter_def split: option.splits)
  then show ?thesis using assms(1) view_cast_entry by fastforce
qed

lemma chained_type_view_wrong_source_witness:
  "iarray_add_view_postfilter IARRAY_DATA_TYPE_INT64 IARRAY_DATA_TYPE_DOUBLE
      IARRAY_DATA_TYPE_INT32 True 4 =
    Inr \<lparr> vp_postfilter = Type_view_postfilter
      (VIEW_CAST IARRAY_DATA_TYPE_INT32 IARRAY_DATA_TYPE_INT64), vp_nthreads = 1 \<rparr> \<and>
   IARRAY_DATA_TYPE_INT32 \<noteq> IARRAY_DATA_TYPE_DOUBLE"
  using chained_type_view_wrong_source [of IARRAY_DATA_TYPE_INT32 IARRAY_DATA_TYPE_DOUBLE
      IARRAY_DATA_TYPE_INT64 4 "\<lparr> vp_postfilter = Type_view_postfilter
      (VIEW_CAST IARRAY_DATA_TYPE_INT32 IARRAY_DATA_TYPE_INT64), vp_nthreads = 1 \<rparr>"]
  by (simp add: iarray_add_view_postfilter_def view_cast_defs)

text \<open>
  For a 16-bit view of a 64-bit view of an 8-bit array the view is created, and
  reading any of its blocks divides by zero: the predecessor's items are larger than the
  view's, so the ratio \<open>prop\<close> of the two sizes is 0.
\<close>

lemma chained_type_view_crashes:
  "\<exists>c. iarray_add_view_postfilter IARRAY_DATA_TYPE_INT16 IARRAY_DATA_TYPE_INT64
      IARRAY_DATA_TYPE_INT8 True n =
    Inr \<lparr> vp_postfilter = Type_view_postfilter c, vp_nthreads = 1 \<rparr> \<and>
   type_view_postfilter getitem c nbytes (itemsize_of IARRAY_DATA_TYPE_INT16)
     (itemsize_of IARRAY_DATA_TYPE_INT64) nblock = None"
  by (simp add: iarray_add_view_postfilter_def view_cast_defs type_view_postfilter_def
      itemsize_of_def c_arith)

end
