(* ===== verification/Container.thy ===== *)
theory Container
  imports Config Views Index
begin

text \<open>
  Containers (\<^verbatim>\<open>src/iarray_container.c\<close>, \<^verbatim>\<open>src/iarray_constructor.h\<close>): the record that
  ties an array's type and shape to its caterva array, views and the coordinates they
  translate, slices, squeezing, and the operations that change an array. The caterva and
  blosc calls are arguments of the definitions; \<open>'d\<close> is the type of what caterva stores.
\<close>

section \<open>State\<close>

text \<open>
  The fields of \<open>caterva_array_t\<close> the library reads, and \<open>iarray_container_t\<close>. A pointer to the
  viewed container is its address, a natural number.
\<close>

record 'd caterva_array =
  c_ndim :: nat
  c_shape :: "int list"
  c_chunkshape :: "int list"
  c_blockshape :: "int list"
  c_extshape :: "int list"
  c_extchunkshape :: "int list"
  c_itemsize :: int
  c_nitems :: int
  c_nchunks :: int
  c_data :: 'd

record 'd container =
  dtshape :: iarray_dtshape
  auxshape :: iarray_auxshape
  catarr :: "'d caterva_array"
  storage :: iarray_storage
  container_viewed :: "nat option"
  transposed :: bool

definition set_prefix :: "nat \<Rightarrow> (nat \<Rightarrow> 'a) \<Rightarrow> 'a list \<Rightarrow> 'a list" where
  "set_prefix n f xs = fold (\<lambda>i ys. ys[i := f i]) [0..<n] xs"

lemma set_prefix_eq: "n \<le> length xs \<Longrightarrow> set_prefix n f xs = map f [0..<n] @ drop n xs"
  using fold_update_up [of n xs 0 f] by (simp add: set_prefix_def)

lemma length_set_prefix [simp]: "length (set_prefix n f xs) = length xs"
proof -
  have "length (fold (\<lambda>i ys. ys[i := f i]) js xs) = length xs" for js :: "nat list"
    by (induction js arbitrary: xs) auto
  then show ?thesis by (simp add: set_prefix_def)
qed

lemma set_prefix_nth: "n \<le> length xs \<Longrightarrow> j < n \<Longrightarrow> set_prefix n f xs ! j = f j"
  by (simp add: set_prefix_eq nth_append)

text \<open>
  \<open>iarray_container_dtshape_equal\<close> compares all \<open>CATERVA_MAX_DIM\<close> slots of the shape arrays.
\<close>

definition iarray_container_dtshape_equal :: "iarray_dtshape \<Rightarrow> iarray_dtshape \<Rightarrow> unit res" where
  "iarray_container_dtshape_equal a b =
     (if dtype a \<noteq> dtype b then Inl IARRAY_ERR_INVALID_DTYPE
      else if ndim a \<noteq> ndim b then Inl IARRAY_ERR_INVALID_NDIM
      else if \<exists>i < CATERVA_MAX_DIM. shape a ! i \<noteq> shape b ! i then Inl IARRAY_ERR_INVALID_SHAPE
      else Inr ())"

section \<open>Creation\<close>

text \<open>The arrays of \<open>iarray_auxshape_t\<close> before their first \<open>ndim\<close> slots are set hold anything.\<close>

definition fresh_slots :: "int list" where
  "fresh_slots = replicate IARRAY_DIMENSION_MAX 0"

text \<open>
  \<open>_iarray_container_new\<close>; \<open>arr\<close> is what the caller stores in the \<open>catarr\<close> field afterwards
  (the function itself leaves a null pointer there).
\<close>

definition iarray_container_new ::
    "iarray_dtshape \<Rightarrow> iarray_storage \<Rightarrow> 'd caterva_array \<Rightarrow> 'd container res" where
  "iarray_container_new d st arr =
     (if ndim d > CATERVA_MAX_DIM then Inl IARRAY_ERR_INVALID_NDIM
      else res_bind (iarray_set_dtype_size d) (\<lambda>d.
        Inr \<lparr> dtshape = d,
          auxshape = \<lparr> aux_offset = set_prefix (ndim d) (\<lambda>i. 0) fresh_slots,
            shape_wos = set_prefix (ndim d) (\<lambda>i. shape d ! i) fresh_slots,
            chunkshape_wos = set_prefix (ndim d) (\<lambda>i. chunkshape st ! i) fresh_slots,
            blockshape_wos = set_prefix (ndim d) (\<lambda>i. blockshape st ! i) fresh_slots,
            aux_index = set_prefix (ndim d) (\<lambda>i. i) (replicate IARRAY_DIMENSION_MAX 0) \<rparr>,
          catarr = arr, storage = st, container_viewed = None, transposed = False \<rparr>))"

text \<open>
  What the creation of a view uses from outside: \<open>ve_empty\<close> is \<open>caterva_empty\<close> (with its context),
  \<open>ve_nthreads\<close> the thread count in the decompression parameters of a super-chunk, \<open>ve_dctx vp pred sc\<close>
  the super-chunk \<open>sc\<close> after \<open>blosc2_create_dctx\<close> with the postfilter \<open>vp\<close>, whose parameters hold a
  pointer to the super-chunk \<open>pred\<close>, and \<open>ve_dtype\<close> the element type of the container at an address.
\<close>

record 'd view_env =
  ve_empty :: "caterva_params \<Rightarrow> caterva_storage \<Rightarrow> 'd caterva_array res"
  ve_nthreads :: "'d \<Rightarrow> int"
  ve_dctx :: "view_dparams \<Rightarrow> 'd \<Rightarrow> 'd \<Rightarrow> 'd"
  ve_dtype :: "nat \<Rightarrow> iarray_data_type"

text \<open>
  The call of \<open>iarray_add_view_postfilter\<close>, whose result the caller does not look at: when the table
  has no cast, the view keeps the decompression context it was created with.
\<close>

definition view_postfilter_on :: "'d view_env \<Rightarrow> 'd container \<Rightarrow> iarray_data_type \<Rightarrow> 'd caterva_array \<Rightarrow> 'd caterva_array" where
  "view_postfilter_on env src view_dtype arr =
     (case iarray_add_view_postfilter view_dtype (dtype (dtshape src))
        (case container_viewed src of Some b \<Rightarrow> ve_dtype env b | None \<Rightarrow> dtype (dtshape src))
        (container_viewed src \<noteq> None) (ve_nthreads env (c_data arr)) of
        Inl _ \<Rightarrow> arr
      | Inr vp \<Rightarrow> arr\<lparr>c_data := ve_dctx env vp (c_data (catarr src)) (c_data arr)\<rparr>)"

text \<open>
  \<open>_iarray_view_new\<close>: \<open>src_addr\<close> is the address of the container the view is made from. A view of a
  view points to the container at the end of the chain. The shape array of the view's own
  caterva array is the one of the source. The result of \<open>iarray_create_caterva_storage\<close> is not
  looked at either.
\<close>

definition iarray_view_new ::
    "'d view_env \<Rightarrow> nat \<Rightarrow> 'd container \<Rightarrow> iarray_dtshape \<Rightarrow> int list \<Rightarrow> 'd container res" where
  "iarray_view_new env src_addr src d offs =
     (if ndim d > CATERVA_MAX_DIM then Inl IARRAY_ERR_INVALID_NDIM
      else
        let aux = \<lparr> aux_offset = set_prefix (ndim d) (\<lambda>i. offs ! i) fresh_slots,
              shape_wos = set_prefix (ndim d) (\<lambda>i. shape d ! i) fresh_slots,
              chunkshape_wos = set_prefix (ndim d) (\<lambda>i. chunkshape (storage src) ! i) fresh_slots,
              blockshape_wos = set_prefix (ndim d) (\<lambda>i. blockshape (storage src) ! i) fresh_slots,
              aux_index = set_prefix (ndim d) (\<lambda>i. i) (replicate IARRAY_DIMENSION_MAX 0) \<rparr>;
            store = \<lparr> urlpath = None, contiguous = contiguous (storage src),
              chunkshape = set_prefix (ndim d) (\<lambda>i. chunkshape (storage src) ! i) fresh_slots,
              blockshape = set_prefix (ndim d) (\<lambda>i. blockshape (storage src) ! i) fresh_slots \<rparr>;
            viewed = (case container_viewed src of Some b \<Rightarrow> Some b | None \<Rightarrow> Some src_addr);
            d' = d\<lparr>shape := set_prefix (ndim d) (\<lambda>i. c_shape (catarr src) ! i) (shape d)\<rparr>;
            cs = (case iarray_create_caterva_storage d' store of
                Inl _ \<Rightarrow> caterva_storage_fields d' store | Inr cs \<Rightarrow> cs)
        in res_bind (ve_empty env (iarray_create_caterva_params d') cs) (\<lambda>arr.
             Inr \<lparr> dtshape = d, auxshape = aux, catarr = view_postfilter_on env src (dtype d) arr,
               storage = store, container_viewed = viewed, transposed = False \<rparr>))"

section \<open>Slices\<close>

text \<open>
  The coordinates a slice request has in the caterva array. Three functions of the file share
  these loops: every caterva dimension starts as the single position \<open>offset\<close>, and the
  bounds of dimension \<open>i\<close> of the container, negative ones counted from the end, are added
  at position \<open>index[i]\<close>.
\<close>

definition slice_start :: "'d container \<Rightarrow> int list \<Rightarrow> int list" where
  "slice_start c start =
     fold (\<lambda>i st. let j = aux_index (auxshape c) ! i in
             st[j := st ! j + (if start ! i < 0 then start ! i + shape (dtshape c) ! i else start ! i)])
       [0..<ndim (dtshape c)]
       (set_prefix (c_ndim (catarr c)) (\<lambda>i. 0 + aux_offset (auxshape c) ! i) fresh_slots)"

definition slice_stop :: "'d container \<Rightarrow> int list \<Rightarrow> int list" where
  "slice_stop c stop =
     fold (\<lambda>i st. let j = aux_index (auxshape c) ! i in
             st[j := st ! j + (if stop ! i < 0 then stop ! i + shape (dtshape c) ! i - 1 else stop ! i - 1)])
       [0..<ndim (dtshape c)]
       (set_prefix (c_ndim (catarr c)) (\<lambda>i. 1 + aux_offset (auxshape c) ! i) fresh_slots)"

definition swap_dims :: "bool \<Rightarrow> nat \<Rightarrow> int list \<Rightarrow> int list" where
  "swap_dims tr nd xs = (if tr then set_prefix nd (\<lambda>i. xs ! (nd - 1 - i)) xs else xs)"

text \<open>
  \<open>iarray_get_slice\<close> with \<open>view\<close> set. The bounds test only compares the two ends with each other.
\<close>

definition iarray_get_slice_view ::
    "'d view_env \<Rightarrow> nat \<Rightarrow> 'd container \<Rightarrow> int list \<Rightarrow> int list \<Rightarrow> 'd container res" where
  "iarray_get_slice_view env src_addr src start stop =
     (let nd = ndim (dtshape src);
          start' = swap_dims (transposed src) nd (slice_start src start);
          stop' = swap_dims (transposed src) nd (slice_stop src stop)
      in if \<exists>i < nd. start' ! i > stop' ! i then Inl INA_ERR_INVALID_ARGUMENT
         else
           let d = (dtshape src)\<lparr>shape := set_prefix nd (\<lambda>i. stop' ! i - start' ! i) fresh_slots\<rparr>
           in res_bind (iarray_set_dtype_size d) (\<lambda>d.
              iarray_view_new env src_addr src d start'))"

text \<open>
  \<open>iarray_get_slice\<close> without \<open>view\<close>: a new container filled by \<open>caterva_get_slice\<close>. The loop
  tests dimension by dimension, so the first failing dimension decides the error.
\<close>

fun slice_copy_checks :: "int list \<Rightarrow> int list \<Rightarrow> int list \<Rightarrow> nat list \<Rightarrow> unit res" where
  "slice_copy_checks start stop chunks [] = Inr ()"
| "slice_copy_checks start stop chunks (i # js) =
     (if start ! i > stop ! i then Inl INA_ERR_INVALID_ARGUMENT
      else if chunks ! i > stop ! i - start ! i then Inl IARRAY_ERR_INVALID_CHUNKSHAPE
      else slice_copy_checks start stop chunks js)"

definition iarray_get_slice_copy ::
    "('d caterva_array \<Rightarrow> int list \<Rightarrow> int list \<Rightarrow> caterva_storage \<Rightarrow> 'd caterva_array res) \<Rightarrow>
     'd container \<Rightarrow> int list \<Rightarrow> int list \<Rightarrow> iarray_storage \<Rightarrow> 'd container res" where
  "iarray_get_slice_copy caterva_get_slice src start stop st =
     (let nd = ndim (dtshape src);
          start' = swap_dims (transposed src) nd (slice_start src start);
          stop' = swap_dims (transposed src) nd (slice_stop src stop)
      in res_bind (slice_copy_checks start' stop' (chunkshape st) [0..<nd]) (\<lambda>_.
         let d = (dtshape src)\<lparr>shape := set_prefix nd (\<lambda>i. stop' ! i - start' ! i) fresh_slots\<rparr>
         in res_bind (iarray_container_new d st (catarr src)) (\<lambda>c.
            res_bind (iarray_create_caterva_storage (dtshape c) st) (\<lambda>cs.
            res_bind (caterva_get_slice (catarr src) start' stop' cs) (\<lambda>arr.
              Inr (c\<lparr>catarr := arr\<rparr>))))))"

text \<open>
  \<open>_iarray_get_slice_buffer\<close>: read a region into a buffer of shape \<open>bshape\<close>. The reader
  \<open>caterva_get_slice_buffer arr start stop shape\<close> gives the items; a transposed container
  is read in the order of its base and transposed by \<open>mkl_?omatcopy\<close>, which exists for the two
  floating-point types only.
\<close>

definition slice_buffer_shape :: "'d container \<Rightarrow> int list \<Rightarrow> int list" where
  "slice_buffer_shape c bshape =
     fold (\<lambda>i st. let j = aux_index (auxshape c) ! i in st[j := st ! j + (bshape ! i - 1)])
       [0..<ndim (dtshape c)]
       (set_prefix (c_ndim (catarr c)) (\<lambda>i. 1) fresh_slots)"

definition iarray_get_slice_buffer_raw ::
    "('d caterva_array \<Rightarrow> int list \<Rightarrow> int list \<Rightarrow> int list \<Rightarrow> 'v list res) \<Rightarrow>
     (int \<Rightarrow> int \<Rightarrow> 'v list \<Rightarrow> 'v list) \<Rightarrow> 'd container \<Rightarrow> int list \<Rightarrow> int list \<Rightarrow> int list \<Rightarrow> int \<Rightarrow>
     'v list res" where
  "iarray_get_slice_buffer_raw caterva_get_slice_buffer omatcopy c start stop bshape buflen =
     (let nd = ndim (dtshape c);
          start' = swap_dims (transposed c) nd (slice_start c start);
          stop' = swap_dims (transposed c) nd (slice_stop c stop);
          bshape' = swap_dims (transposed c) nd (slice_buffer_shape c bshape)
      in if \<exists>i < nd. start' ! i > stop' ! i then Inl INA_ERR_INVALID_ARGUMENT
         else
           let nitems = fold (\<lambda>i s. s * bshape' ! i) [0..<c_ndim (catarr c)] 1
           in if nitems * dtype_size (dtshape c) > buflen then Inl IARRAY_ERR_TOO_SMALL_BUFFER
              else res_bind (caterva_get_slice_buffer (catarr c) start' stop' bshape') (\<lambda>buf.
                if transposed c
                then (case dtype (dtshape c) of
                    IARRAY_DATA_TYPE_DOUBLE \<Rightarrow> Inr (omatcopy (bshape' ! 0) (bshape' ! 1) buf)
                  | IARRAY_DATA_TYPE_FLOAT \<Rightarrow> Inr (omatcopy (bshape' ! 0) (bshape' ! 1) buf)
                  | _ \<Rightarrow> Inl IARRAY_ERR_INVALID_DTYPE)
                else Inr buf))"

text \<open>\<open>iarray_get_slice_buffer\<close>: the buffer has the shape of the slice. \<open>None\<close>: buffer untouched.\<close>

definition iarray_get_slice_buffer ::
    "('d caterva_array \<Rightarrow> int list \<Rightarrow> int list \<Rightarrow> int list \<Rightarrow> 'v list res) \<Rightarrow>
     (int \<Rightarrow> int \<Rightarrow> 'v list \<Rightarrow> 'v list) \<Rightarrow> 'd container \<Rightarrow> int list \<Rightarrow> int list \<Rightarrow> int \<Rightarrow>
     'v list option res" where
  "iarray_get_slice_buffer caterva_get_slice_buffer omatcopy c start stop buflen =
     (let nd = ndim (dtshape c);
          nelems = fold (\<lambda>i s. s * shape (dtshape c) ! i) [0..<nd] 1
      in if nelems = 0 then Inr None
         else
           let start' = set_prefix nd (\<lambda>i. if start ! i < 0 then start ! i + shape (dtshape c) ! i
                                           else start ! i) fresh_slots;
               stop' = set_prefix nd (\<lambda>i. if stop ! i < 0 then stop ! i + shape (dtshape c) ! i
                                          else stop ! i) fresh_slots;
               shape' = set_prefix nd (\<lambda>i. stop' ! i - start' ! i) fresh_slots
           in res_bind (iarray_get_slice_buffer_raw caterva_get_slice_buffer omatcopy c
                          start stop shape' buflen) (\<lambda>buf. Inr (Some buf)))"

text \<open>
  \<open>iarray_set_slice_buffer\<close>: the only place of the file that compares a region with the shape of
  the array. \<open>caterva_set_slice_buffer arr shape start stop buffer\<close> is a parameter.
\<close>

fun set_slice_checks :: "int list \<Rightarrow> int list \<Rightarrow> int list \<Rightarrow> nat list \<Rightarrow> unit res" where
  "set_slice_checks start stop sh [] = Inr ()"
| "set_slice_checks start stop sh (i # js) =
     (if start ! i < 0 then Inl INA_ERR_INVALID_ARGUMENT
      else if stop ! i < start ! i then Inl INA_ERR_INVALID_ARGUMENT
      else if sh ! i < stop ! i then Inl INA_ERR_INVALID_ARGUMENT
      else set_slice_checks start stop sh js)"

definition iarray_set_slice_buffer ::
    "('d caterva_array \<Rightarrow> int list \<Rightarrow> int list \<Rightarrow> int list \<Rightarrow> 'v list \<Rightarrow> 'd caterva_array res) \<Rightarrow>
     'd container \<Rightarrow> int list \<Rightarrow> int list \<Rightarrow> 'v list \<Rightarrow> int \<Rightarrow> 'd container res" where
  "iarray_set_slice_buffer caterva_set_slice_buffer c start stop buffer buflen =
     (if container_viewed c \<noteq> None then Inl IARRAY_ERR_INVALID_STORAGE
      else
        let start' = slice_start c start;
            stop' = slice_stop c stop;
            cnd = c_ndim (catarr c)
        in res_bind (set_slice_checks start' stop' (c_shape (catarr c)) [0..<cnd]) (\<lambda>_.
           let shape' = set_prefix cnd (\<lambda>i. stop' ! i - start' ! i) fresh_slots;
               chunksize = fold (\<lambda>i s. s * shape' ! i) [0..<cnd] 1
           in if chunksize * dtype_size (dtshape c) > buflen then Inl IARRAY_ERR_TOO_SMALL_BUFFER
              else res_bind (caterva_set_slice_buffer (catarr c) shape' start' stop' buffer) (\<lambda>arr.
                     Inr (c\<lparr>catarr := arr\<rparr>))))"

section \<open>Type views, squeezing and changes of shape\<close>

definition iarray_get_type_view ::
    "'d view_env \<Rightarrow> nat \<Rightarrow> 'd container \<Rightarrow> iarray_data_type \<Rightarrow> 'd container res" where
  "iarray_get_type_view env src_addr src view_dtype =
     (let nd = ndim (dtshape src);
          d = (dtshape src)\<lparr>dtype := view_dtype,
                 shape := set_prefix nd (\<lambda>i. shape (dtshape src) ! i) fresh_slots\<rparr>
      in res_bind (iarray_set_dtype_size d) (\<lambda>d.
         iarray_view_new env src_addr src d (aux_offset (auxshape src))))"

text \<open>
  \<open>iarray_squeeze_index\<close>: a plain array lets caterva drop the dimensions and copies the new shapes; a
  view only renumbers its own dimensions. The loop of the second branch reads and writes the
  same arrays.
\<close>

definition squeeze_plain_step ::
    "bool list \<Rightarrow> nat \<Rightarrow> nat \<times> 'd container \<Rightarrow> nat \<times> 'd container" where
  "squeeze_plain_step ix i st =
     (let (inc, c) = st;
          inc = (if ix ! i then inc + 1 else inc);
          a = catarr c;
          aux = auxshape c
      in (inc, c\<lparr>dtshape := (dtshape c)\<lparr>shape := (shape (dtshape c))[i := c_shape a ! i]\<rparr>,
            storage := (storage c)\<lparr>chunkshape := (chunkshape (storage c))[i := c_chunkshape a ! i],
              blockshape := (blockshape (storage c))[i := c_blockshape a ! i]\<rparr>,
            auxshape := aux\<lparr>shape_wos := (shape_wos aux)[i := c_shape a ! i],
              chunkshape_wos := (chunkshape_wos aux)[i := c_chunkshape a ! i],
              blockshape_wos := (blockshape_wos aux)[i := c_blockshape a ! i],
              aux_offset := (aux_offset aux)[i := aux_offset aux ! (i + inc)]\<rparr>\<rparr>))"

definition squeeze_view_step ::
    "bool list \<Rightarrow> nat \<Rightarrow> nat \<times> int list \<times> nat list \<Rightarrow> nat \<times> int list \<times> nat list" where
  "squeeze_view_step ix i st =
     (let (inc, sh, idx) = st in
      if ix ! i then (inc + 1, sh, idx)
      else (inc, sh[i - inc := sh ! i], idx[i - inc := i]))"

definition iarray_squeeze_index ::
    "('d caterva_array \<Rightarrow> bool list \<Rightarrow> 'd caterva_array res) \<Rightarrow> 'd container \<Rightarrow> bool list \<Rightarrow>
     'd container res" where
  "iarray_squeeze_index caterva_squeeze_index c ix =
     (case container_viewed c of
        None \<Rightarrow>
          res_bind (caterva_squeeze_index (catarr c) ix) (\<lambda>arr.
            let c = c\<lparr>catarr := arr\<rparr> in
            if ndim (dtshape c) \<noteq> c_ndim arr
            then Inr (snd (fold (squeeze_plain_step ix) [0..<c_ndim arr]
                   (0, c\<lparr>dtshape := (dtshape c)\<lparr>ndim := c_ndim arr\<rparr>\<rparr>)))
            else Inr c)
      | Some _ \<Rightarrow>
          let d = dtshape c;
              (inc, sh, idx) = fold (squeeze_view_step ix) [0..<ndim d]
                                 (0, shape d, aux_index (auxshape c))
          in Inr (c\<lparr>dtshape := d\<lparr>shape := sh, ndim := ndim d - inc\<rparr>,
                    auxshape := (auxshape c)\<lparr>aux_index := idx\<rparr>\<rparr>))"

definition iarray_squeeze ::
    "('d caterva_array \<Rightarrow> bool list \<Rightarrow> 'd caterva_array res) \<Rightarrow> 'd container \<Rightarrow> 'd container res" where
  "iarray_squeeze caterva_squeeze_index c =
     iarray_squeeze_index caterva_squeeze_index c
       (fold (\<lambda>i ix. if shape (dtshape c) ! i = 1 then ix[i := True] else ix)
          [0..<ndim (dtshape c)] (replicate IARRAY_DIMENSION_MAX False))"

text \<open>
  Resize, insert, append and delete share their form: views are refused, caterva does the work,
  and the shape of the container is copied back from the caterva array (resize copies the
  shape the caller asked for).
\<close>

definition copy_shape_back :: "'d container \<Rightarrow> (nat \<Rightarrow> int) \<Rightarrow> 'd container" where
  "copy_shape_back c f =
     c\<lparr>dtshape := (dtshape c)\<lparr>shape := set_prefix (ndim (dtshape c)) f (shape (dtshape c))\<rparr>\<rparr>"

definition iarray_container_resize ::
    "('d caterva_array \<Rightarrow> int list \<Rightarrow> int list \<Rightarrow> 'd caterva_array res) \<Rightarrow> 'd container \<Rightarrow> int list \<Rightarrow>
     int list \<Rightarrow> 'd container res" where
  "iarray_container_resize caterva_resize c new_shape start =
     (if container_viewed c \<noteq> None then Inl IARRAY_ERR_INVALID_STORAGE
      else res_bind (caterva_resize (catarr c) new_shape start) (\<lambda>arr.
             Inr (copy_shape_back (c\<lparr>catarr := arr\<rparr>) (\<lambda>i. new_shape ! i))))"

definition iarray_container_insert ::
    "('d caterva_array \<Rightarrow> 'v list \<Rightarrow> int \<Rightarrow> nat \<Rightarrow> int \<Rightarrow> 'd caterva_array res) \<Rightarrow> 'd container \<Rightarrow>
     'v list \<Rightarrow> int \<Rightarrow> nat \<Rightarrow> int \<Rightarrow> 'd container res" where
  "iarray_container_insert caterva_insert c buffer buffersize axis insert_start =
     (if container_viewed c \<noteq> None then Inl IARRAY_ERR_INVALID_STORAGE
      else res_bind (caterva_insert (catarr c) buffer buffersize axis insert_start) (\<lambda>arr.
             Inr (copy_shape_back (c\<lparr>catarr := arr\<rparr>) (\<lambda>i. c_shape arr ! i))))"

definition iarray_container_append ::
    "('d caterva_array \<Rightarrow> 'v list \<Rightarrow> int \<Rightarrow> nat \<Rightarrow> 'd caterva_array res) \<Rightarrow> 'd container \<Rightarrow>
     'v list \<Rightarrow> int \<Rightarrow> nat \<Rightarrow> 'd container res" where
  "iarray_container_append caterva_append c buffer buffersize axis =
     (if container_viewed c \<noteq> None then Inl IARRAY_ERR_INVALID_STORAGE
      else res_bind (caterva_append (catarr c) buffer buffersize axis) (\<lambda>arr.
             Inr (copy_shape_back (c\<lparr>catarr := arr\<rparr>) (\<lambda>i. c_shape arr ! i))))"

definition iarray_container_delete ::
    "('d caterva_array \<Rightarrow> nat \<Rightarrow> int \<Rightarrow> int \<Rightarrow> 'd caterva_array res) \<Rightarrow> 'd container \<Rightarrow>
     nat \<Rightarrow> int \<Rightarrow> int \<Rightarrow> 'd container res" where
  "iarray_container_delete caterva_delete c axis delete_start delete_len =
     (if container_viewed c \<noteq> None then Inl IARRAY_ERR_INVALID_STORAGE
      else res_bind (caterva_delete (catarr c) axis delete_start delete_len) (\<lambda>arr.
             Inr (copy_shape_back (c\<lparr>catarr := arr\<rparr>) (\<lambda>i. c_shape arr ! i))))"

section \<open>Storage on disk and in frames\<close>

text \<open>
  \<open>iarray_container_save\<close>: \<open>schunk_copy\<close> writes the super-chunk to the path. The stored path of the
  super-chunk decides whether the array is on disk already.
\<close>

definition iarray_container_save ::
    "('d \<Rightarrow> string option) \<Rightarrow> ('d \<Rightarrow> string \<Rightarrow> 'f) \<Rightarrow> 'd container \<Rightarrow> string \<Rightarrow> 'f res" where
  "iarray_container_save sc_urlpath schunk_copy c path =
     (if container_viewed c \<noteq> None then Inl IARRAY_ERR_INVALID_STORAGE
      else if sc_urlpath (c_data (catarr c)) \<noteq> None then Inl IARRAY_ERR_INVALID_STORAGE
      else Inr (schunk_copy (c_data (catarr c)) path))"

text \<open>
  The container that \<open>_iarray_container_load\<close> and \<open>iarray_from_cframe\<close> build around an opened
  caterva array: \<open>smeta\<close> is the content of its "iarray" metalayer (\<open>None\<close> when it has none) and
  \<open>cont\<close> the contiguity flag of its super-chunk. A code without enumerator reaches
  the \<open>default\<close> of \<open>iarray_set_dtype_size\<close>.
\<close>

definition container_of_catarr ::
    "'d caterva_array \<Rightarrow> 8 word list option \<Rightarrow> bool \<Rightarrow> string option \<Rightarrow> 'd container res" where
  "container_of_catarr arr smeta cont path =
     (case smeta of
        None \<Rightarrow> Inl IARRAY_ERR_BLOSC_FAILED
      | Some b \<Rightarrow>
        (case iarray_deserialize_meta b of
           Inl _ \<Rightarrow> Inl IARRAY_ERR_BLOSC_FAILED
         | Inr code \<Rightarrow>
           (case dtype_of_code code of
              None \<Rightarrow> Inl IARRAY_ERR_INVALID_DTYPE
            | Some t \<Rightarrow>
              res_bind (iarray_set_dtype_size \<lparr> dtype = t, dtype_size = 0, ndim = c_ndim arr,
                  shape = set_prefix (c_ndim arr) (\<lambda>i. c_shape arr ! i) fresh_slots \<rparr>) (\<lambda>d.
                Inr \<lparr> dtshape = d,
                  auxshape = \<lparr> aux_offset = set_prefix (c_ndim arr) (\<lambda>i. 0) fresh_slots,
                    shape_wos = set_prefix (c_ndim arr) (\<lambda>i. c_shape arr ! i) fresh_slots,
                    chunkshape_wos = set_prefix (c_ndim arr) (\<lambda>i. c_chunkshape arr ! i) fresh_slots,
                    blockshape_wos = set_prefix (c_ndim arr) (\<lambda>i. c_blockshape arr ! i) fresh_slots,
                    aux_index = set_prefix (c_ndim arr) (\<lambda>i. i) (replicate IARRAY_DIMENSION_MAX 0) \<rparr>,
                  catarr = arr,
                  storage = \<lparr> urlpath = path, contiguous = cont,
                    chunkshape = set_prefix (c_ndim arr) (\<lambda>i. c_chunkshape arr ! i) fresh_slots,
                    blockshape = set_prefix (c_ndim arr) (\<lambda>i. c_blockshape arr ! i) fresh_slots \<rparr>,
                  container_viewed = None, transposed = False \<rparr>))))"

text \<open>
  \<open>_iarray_container_load\<close>: \<open>caterva_open\<close> and \<open>caterva_copy\<close> are parameters, as are the accessors of
  the opened super-chunk. \<open>contiguous_copy\<close> is the flag that distinguishes \<open>iarray_container_load\<close>
  (copy into memory) from \<open>iarray_container_open\<close>.
\<close>

definition iarray_container_load_gen ::
    "(string \<Rightarrow> 'd caterva_array res option) \<Rightarrow> ('d caterva_array \<Rightarrow> caterva_storage \<Rightarrow> 'd caterva_array res) \<Rightarrow>
     ('d \<Rightarrow> 8 word list option) \<Rightarrow> ('d \<Rightarrow> bool) \<Rightarrow> string \<Rightarrow> bool \<Rightarrow> 'd container res" where
  "iarray_container_load_gen caterva_open caterva_copy meta_get sc_contiguous path contiguous_copy =
     (case caterva_open path of
        None \<Rightarrow> Inl INA_ERR_FILE_OPEN
      | Some opened \<Rightarrow> res_bind opened (\<lambda>aux.
          let cs = \<lparr> cs_contiguous = sc_contiguous (c_data aux), cs_urlpath = None,
                cs_chunkshape = set_prefix (c_ndim aux) (\<lambda>i. c_chunkshape aux ! i) fresh_slots,
                cs_blockshape = set_prefix (c_ndim aux) (\<lambda>i. c_blockshape aux ! i) fresh_slots,
                cs_metalayers = [] \<rparr>
          in res_bind (if contiguous_copy then caterva_copy aux cs else Inr aux) (\<lambda>arr.
               container_of_catarr arr (meta_get (c_data arr)) (sc_contiguous (c_data arr)) (Some path))))"

definition iarray_from_cframe ::
    "('f \<Rightarrow> bool \<Rightarrow> 'd caterva_array res) \<Rightarrow> ('d \<Rightarrow> 8 word list option) \<Rightarrow> ('d \<Rightarrow> bool) \<Rightarrow> 'f \<Rightarrow> bool \<Rightarrow>
     'd container res" where
  "iarray_from_cframe caterva_from_cframe meta_get sc_contiguous frame copy =
     res_bind (caterva_from_cframe frame copy) (\<lambda>arr.
       container_of_catarr arr (meta_get (c_data arr)) (sc_contiguous (c_data arr)) None)"

text \<open>Accessors.\<close>

definition iarray_is_view :: "'d container \<Rightarrow> bool" where
  "iarray_is_view c = (if container_viewed c \<noteq> None then True else False)"

definition iarray_get_dtshape :: "'d container \<Rightarrow> iarray_dtshape \<Rightarrow> iarray_dtshape" where
  "iarray_get_dtshape c out =
     \<lparr> dtype = dtype (dtshape c), dtype_size = dtype_size (dtshape c), ndim = ndim (dtshape c),
       shape = set_prefix (ndim (dtshape c)) (\<lambda>i. shape (dtshape c) ! i) (shape out) \<rparr>"

section \<open>Facts on slices\<close>

lemma length_fresh [simp]: "length fresh_slots = 8"
  by (simp add: fresh_slots_def IARRAY_DIMENSION_MAX_def)

text \<open>
  What every container of the library satisfies: its dimensions are those of the caterva array
  or, for a squeezed view, are mapped into them without collision.
\<close>

definition wf_container :: "'d container \<Rightarrow> bool" where
  "wf_container c \<longleftrightarrow> ndim (dtshape c) \<le> c_ndim (catarr c) \<and> c_ndim (catarr c) \<le> 8 \<and>
     (\<forall>i < ndim (dtshape c). aux_index (auxshape c) ! i < c_ndim (catarr c)) \<and>
     inj_on (\<lambda>i. aux_index (auxshape c) ! i) {..<ndim (dtshape c)}"

text \<open>A container whose dimensions are those of its caterva array, in order.\<close>

definition unsqueezed :: "'d container \<Rightarrow> bool" where
  "unsqueezed c \<longleftrightarrow> ndim (dtshape c) = c_ndim (catarr c) \<and> c_ndim (catarr c) \<le> 8 \<and>
     (\<forall>i < ndim (dtshape c). aux_index (auxshape c) ! i = i)"

lemma unsqueezed_wf: "unsqueezed c \<Longrightarrow> wf_container c"
  by (auto simp: unsqueezed_def wf_container_def inj_on_def)

definition norm_bound :: "int \<Rightarrow> int \<Rightarrow> int" where
  "norm_bound x n = (if x < 0 then x + n else x)"

lemma slice_start_at:
  assumes "wf_container c" "i < ndim (dtshape c)"
  shows "slice_start c start ! (aux_index (auxshape c) ! i) =
    aux_offset (auxshape c) ! (aux_index (auxshape c) ! i) + norm_bound (start ! i) (shape (dtshape c) ! i)"
  using assms unfolding slice_start_def Let_def
  by (subst fold_add_slot [where h = "\<lambda>i x. x + (if start ! i < 0 then start ! i + shape (dtshape c) ! i else start ! i)"])
    (auto simp: wf_container_def atLeast0LessThan norm_bound_def set_prefix_nth intro: order.strict_trans2)

lemma slice_stop_at:
  assumes "wf_container c" "i < ndim (dtshape c)"
  shows "slice_stop c stop ! (aux_index (auxshape c) ! i) =
    aux_offset (auxshape c) ! (aux_index (auxshape c) ! i) + norm_bound (stop ! i) (shape (dtshape c) ! i)"
  using assms unfolding slice_stop_def Let_def
  by (subst fold_add_slot [where h = "\<lambda>i x. x + (if stop ! i < 0 then stop ! i + shape (dtshape c) ! i - 1 else stop ! i - 1)"])
    (auto simp: wf_container_def atLeast0LessThan norm_bound_def set_prefix_nth intro: order.strict_trans2)

lemma slice_buffer_shape_at:
  assumes "wf_container c" "i < ndim (dtshape c)"
  shows "slice_buffer_shape c bshape ! (aux_index (auxshape c) ! i) = bshape ! i"
  using assms unfolding slice_buffer_shape_def Let_def
  by (subst fold_add_slot [where h = "\<lambda>i x. x + (bshape ! i - 1)"])
    (auto simp: wf_container_def atLeast0LessThan set_prefix_nth intro: order.strict_trans2)

lemma slice_other:
  assumes "wf_container c" "j < c_ndim (catarr c)" "\<forall>i < ndim (dtshape c). aux_index (auxshape c) ! i \<noteq> j"
  shows "slice_start c start ! j = aux_offset (auxshape c) ! j"
    "slice_stop c stop ! j = aux_offset (auxshape c) ! j + 1"
    "slice_buffer_shape c bshape ! j = 1"
  using assms unfolding slice_start_def slice_stop_def slice_buffer_shape_def Let_def
  by (subst fold_add_other; auto simp: wf_container_def set_prefix_nth)+

lemma length_slice [simp]:
  "length (slice_start c start) = 8" "length (slice_stop c stop) = 8"
  "length (slice_buffer_shape c bshape) = 8"
  by (simp_all add: slice_start_def slice_stop_def slice_buffer_shape_def Let_def fold_length_inv)

lemma storage_meta_ok:
  "\<exists>cs. iarray_create_caterva_storage d st = Inr cs"
  by (simp add: iarray_create_caterva_storage_def iarray_serialize_meta_def not_less)

text \<open>What caterva promises for a new empty array: the number of dimensions and the shape asked for.\<close>

definition caterva_empty_spec ::
    "(caterva_params \<Rightarrow> caterva_storage \<Rightarrow> 'd caterva_array res) \<Rightarrow> bool" where
  "caterva_empty_spec ce \<longleftrightarrow> (\<forall>p s. \<exists>arr. ce p s = Inr arr \<and> c_ndim arr = cp_ndim p \<and>
     c_shape arr = cp_shape p)"

lemma create_params_simps:
  "cp_ndim (iarray_create_caterva_params d) = ndim d"
  "ndim d \<le> 8 \<Longrightarrow> j < ndim d \<Longrightarrow> cp_shape (iarray_create_caterva_params d) ! j = shape d ! j"
  using set_prefix_nth [of "ndim d" "replicate IARRAY_DIMENSION_MAX 0" j "\<lambda>i. shape d ! i"]
  by (simp_all add: iarray_create_caterva_params_def set_prefix_def IARRAY_DIMENSION_MAX_def)

text \<open>
  The super-chunk of a view of type \<open>t\<close>: \<open>s\<close> is the one \<open>caterva_empty\<close> made.
\<close>

lemma view_postfilter_same:
  assumes "t = dtype (dtshape src)"
  shows "view_postfilter_on env src t arr = arr\<lparr>c_data := ve_dctx env
    \<lparr> vp_postfilter = Slice_view_postfilter,
      vp_nthreads = if container_viewed src = None then ve_nthreads env (c_data arr) else 1 \<rparr>
    (c_data (catarr src)) (c_data arr)\<rparr>"
  using assms by (simp add: view_postfilter_on_def iarray_add_view_postfilter_def Let_def)

lemma view_postfilter_fields [simp]:
  "c_ndim (view_postfilter_on env src t arr) = c_ndim arr"
  "c_shape (view_postfilter_on env src t arr) = c_shape arr"
  by (simp_all add: view_postfilter_on_def split: sum.split)

text \<open>\<open>reads_through env src v\<close>: reading the view \<open>v\<close> runs the slice postfilter over the super-chunk of \<open>src\<close>.\<close>

definition reads_through :: "'d view_env \<Rightarrow> 'd container \<Rightarrow> 'd container \<Rightarrow> bool" where
  "reads_through env src v \<longleftrightarrow> (\<exists>s. c_data (catarr v) = ve_dctx env
     \<lparr> vp_postfilter = Slice_view_postfilter,
       vp_nthreads = if container_viewed src = None then ve_nthreads env s else 1 \<rparr>
     (c_data (catarr src)) s)"

lemma view_new_spec:
  assumes "caterva_empty_spec (ve_empty env)" "ndim d \<le> 8" "ndim d \<le> length (shape d)"
  shows "\<exists>v. iarray_view_new env a src d offs = Inr v \<and> dtshape v = d \<and>
    ndim d = c_ndim (catarr v) \<and>
    (\<forall>i < ndim d. aux_offset (auxshape v) ! i = offs ! i \<and> aux_index (auxshape v) ! i = i \<and>
       c_shape (catarr v) ! i = c_shape (catarr src) ! i) \<and>
    container_viewed v = Some (case container_viewed src of Some b \<Rightarrow> b | None \<Rightarrow> a) \<and>
    \<not> transposed v \<and> (dtype d = dtype (dtshape src) \<longrightarrow> reads_through env src v)"
proof -
  let ?d = "d\<lparr>shape := set_prefix (ndim d) (\<lambda>i. c_shape (catarr src) ! i) (shape d)\<rparr>"
  let ?st = "\<lparr> urlpath = None, contiguous = contiguous (storage src),
      chunkshape = set_prefix (ndim d) (\<lambda>i. chunkshape (storage src) ! i) fresh_slots,
      blockshape = set_prefix (ndim d) (\<lambda>i. blockshape (storage src) ! i) fresh_slots \<rparr>"
  obtain cs where cs: "iarray_create_caterva_storage ?d ?st = Inr cs" using storage_meta_ok by blast
  obtain arr where arr: "ve_empty env (iarray_create_caterva_params ?d) cs = Inr arr" "c_ndim arr = ndim d"
      "c_shape arr = cp_shape (iarray_create_caterva_params ?d)"
    using assms(1) by (force simp: caterva_empty_spec_def create_params_simps)
  have sh: "\<forall>i < ndim d. c_shape arr ! i = c_shape (catarr src) ! i"
    using arr(3) assms create_params_simps(2) [of ?d] by (simp add: set_prefix_nth)
  obtain v where v: "iarray_view_new env a src d offs = Inr v" "dtshape v = d"
      "catarr v = view_postfilter_on env src (dtype d) arr" "\<not> transposed v"
      "\<forall>i < ndim d. aux_offset (auxshape v) ! i = offs ! i \<and> aux_index (auxshape v) ! i = i"
      "container_viewed v = Some (case container_viewed src of Some b \<Rightarrow> b | None \<Rightarrow> a)"
    using cs arr(1) assms
    by (simp add: iarray_view_new_def Let_def CATERVA_MAX_DIM_def set_prefix_nth IARRAY_DIMENSION_MAX_def
        split: option.split)
  have "reads_through env src v" if "dtype d = dtype (dtshape src)"
    unfolding reads_through_def v(3) view_postfilter_same [OF that]
    by (rule exI [of _ "c_data arr"]) simp
  then show ?thesis using v sh arr(2) by (intro exI [of _ v]) simp
qed

lemma get_slice_view_spec:
  assumes "caterva_empty_spec (ve_empty env)" "unsqueezed src" "\<not> transposed src"
    and "dtype (dtshape src) \<noteq> IARRAY_DATA_TYPE_MAX"
    and "\<forall>i < ndim (dtshape src). norm_bound (start ! i) (shape (dtshape src) ! i)
       \<le> norm_bound (stop ! i) (shape (dtshape src) ! i)"
  shows "\<exists>v. iarray_get_slice_view env a src start stop = Inr v \<and> unsqueezed v \<and> \<not> transposed v \<and>
    dtype (dtshape v) = dtype (dtshape src) \<and> ndim (dtshape v) = ndim (dtshape src) \<and>
    container_viewed v = Some (case container_viewed src of Some b \<Rightarrow> b | None \<Rightarrow> a) \<and>
    (\<forall>i < ndim (dtshape src).
       aux_offset (auxshape v) ! i =
         aux_offset (auxshape src) ! i + norm_bound (start ! i) (shape (dtshape src) ! i) \<and>
       shape (dtshape v) ! i = norm_bound (stop ! i) (shape (dtshape src) ! i)
         - norm_bound (start ! i) (shape (dtshape src) ! i) \<and>
       c_shape (catarr v) ! i = c_shape (catarr src) ! i) \<and> reads_through env src v"
proof -
  let ?nd = "ndim (dtshape src)"
  note wf = unsqueezed_wf [OF assms(2)]
  have nd: "?nd \<le> 8" and ix: "\<forall>i < ?nd. aux_index (auxshape src) ! i = i"
    using assms(2) by (auto simp: unsqueezed_def)
  have st: "slice_start src start ! i = aux_offset (auxshape src) ! i + norm_bound (start ! i) (shape (dtshape src) ! i)"
      "slice_stop src stop ! i = aux_offset (auxshape src) ! i + norm_bound (stop ! i) (shape (dtshape src) ! i)"
    if "i < ?nd" for i
    using slice_start_at [OF wf that] slice_stop_at [OF wf that] ix that by simp_all
  let ?d = "(dtshape src)\<lparr>shape := set_prefix ?nd
      (\<lambda>i. slice_stop src stop ! i - slice_start src start ! i) fresh_slots\<rparr>"
  obtain d' where d': "iarray_set_dtype_size ?d = Inr d'"
    using set_dtype_size_succeeds_iff [of ?d] assms(4) by auto
  note sz = set_dtype_size_InrD [OF d']
  have sh: "shape d' ! i = norm_bound (stop ! i) (shape (dtshape src) ! i)
      - norm_bound (start ! i) (shape (dtshape src) ! i)" if "i < ?nd" for i
    using sz(2) nd that st by (simp add: set_prefix_nth)
  have ty: "dtype d' = dtype (dtshape src)" using sz(1) by simp
  have len: "ndim d' \<le> 8" "ndim d' \<le> length (shape d')" using sz nd by simp_all
  obtain v where v: "iarray_view_new env a src d' (slice_start src start) = Inr v" "dtshape v = d'"
      "ndim d' = c_ndim (catarr v)" "\<not> transposed v"
      "\<forall>i < ndim d'. aux_offset (auxshape v) ! i = slice_start src start ! i \<and>
         aux_index (auxshape v) ! i = i \<and> c_shape (catarr v) ! i = c_shape (catarr src) ! i"
      "container_viewed v = Some (case container_viewed src of Some b \<Rightarrow> b | None \<Rightarrow> a)"
      "reads_through env src v"
    using view_new_spec [OF assms(1) len, of a src "slice_start src start"] ty by blast
  have "\<not> (\<exists>i < ?nd. slice_start src start ! i > slice_stop src stop ! i)"
    using assms(5) st by auto
  then have "iarray_get_slice_view env a src start stop = Inr v"
    using assms(3) d' v(1) by (simp add: iarray_get_slice_view_def swap_dims_def Let_def)
  then show ?thesis using v sz nd st sh by (auto simp: unsqueezed_def)
qed

text \<open>The squeezing loop of views: what it has done after the first \<open>m\<close> dimensions.\<close>

definition kept :: "bool list \<Rightarrow> nat \<Rightarrow> nat list" where
  "kept ix m = filter (\<lambda>i. \<not> ix ! i) [0..<m]"

lemma kept_length: "length (kept ix m) \<le> m"
  by (metis diff_zero kept_def length_filter_le length_upt)

lemma kept_Suc: "kept ix (Suc m) = (if ix ! m then kept ix m else kept ix m @ [m])"
  by (simp add: kept_def)

lemma squeeze_view_loop:
  assumes "m \<le> length sh" "m \<le> length idx"
  shows "fold (squeeze_view_step ix) [0..<m] (0, sh, idx) =
    (m - length (kept ix m),
     map (\<lambda>i. sh ! i) (kept ix m) @ drop (length (kept ix m)) sh,
     kept ix m @ drop (length (kept ix m)) idx)"
  using assms
proof (induction m)
  case 0
  then show ?case by (simp add: kept_def)
next
  case (Suc m)
  let ?l = "length (kept ix m)"
  have l: "?l \<le> m" by (rule kept_length)
  have IH: "fold (squeeze_view_step ix) [0..<m] (0, sh, idx) =
      (m - ?l, map (\<lambda>i. sh ! i) (kept ix m) @ drop ?l sh, kept ix m @ drop ?l idx)"
    using Suc by simp
  have step: "fold (squeeze_view_step ix) [0..<Suc m] (0, sh, idx) = squeeze_view_step ix m
      (m - ?l, map (\<lambda>i. sh ! i) (kept ix m) @ drop ?l sh, kept ix m @ drop ?l idx)"
    using IH by simp
  show ?case
  proof (cases "ix ! m")
    case True
    then show ?thesis unfolding step using l by (simp add: squeeze_view_step_def kept_Suc Suc_diff_le)
  next
    case False
    have d1: "drop ?l sh = sh ! ?l # drop (Suc ?l) sh" "drop ?l idx = idx ! ?l # drop (Suc ?l) idx"
      using l Suc.prems by (simp_all add: Cons_nth_drop_Suc)
    have at: "(map (\<lambda>i. sh ! i) (kept ix m) @ drop ?l sh) ! m = sh ! m"
      using l Suc.prems by (simp add: nth_append)
    have "m - (m - ?l) = ?l" using l by simp
    then show ?thesis unfolding step using False l at d1
      by (simp add: squeeze_view_step_def kept_Suc list_update_append)
  qed
qed

section \<open>Properties\<close>

text \<open>
  A concrete array for the examples: ten 64-bit integers, stored as themselves.
\<close>

definition sample_empty :: "caterva_params \<Rightarrow> caterva_storage \<Rightarrow> int list caterva_array res" where
  "sample_empty p s = Inr \<lparr> c_ndim = cp_ndim p, c_shape = cp_shape p, c_chunkshape = cs_chunkshape s,
     c_blockshape = cs_blockshape s, c_extshape = cp_shape p, c_extchunkshape = cs_chunkshape s, c_itemsize = cp_itemsize p,
     c_nitems = 0, c_nchunks = 0, c_data = [] \<rparr>"

definition sample_env :: "int list view_env" where
  "sample_env = \<lparr> ve_empty = sample_empty, ve_nthreads = \<lambda>_. 4, ve_dctx = \<lambda>vp prd sc. prd,
     ve_dtype = \<lambda>_. IARRAY_DATA_TYPE_INT64 \<rparr>"

lemma sample_empty_spec: "caterva_empty_spec (ve_empty sample_env)"
  by (simp add: caterva_empty_spec_def sample_empty_def sample_env_def)

definition sample_array :: "int list container" where
  "sample_array = \<lparr>
     dtshape = \<lparr> dtype = IARRAY_DATA_TYPE_INT64, dtype_size = 8, ndim = 1, shape = [10, 0, 0, 0, 0, 0, 0, 0] \<rparr>,
     auxshape = \<lparr> aux_offset = fresh_slots, shape_wos = [10, 0, 0, 0, 0, 0, 0, 0],
       chunkshape_wos = [4, 0, 0, 0, 0, 0, 0, 0], blockshape_wos = [2, 0, 0, 0, 0, 0, 0, 0],
       aux_index = replicate 8 0 \<rparr>,
     catarr = \<lparr> c_ndim = 1, c_shape = [10, 1, 1, 1, 1, 1, 1, 1], c_chunkshape = [4, 1, 1, 1, 1, 1, 1, 1],
       c_blockshape = [2, 1, 1, 1, 1, 1, 1, 1], c_extshape = [12, 1, 1, 1, 1, 1, 1, 1],
       c_extchunkshape = [4, 1, 1, 1, 1, 1, 1, 1],
       c_itemsize = 8, c_nitems = 10, c_nchunks = 3, c_data = [0, 1, 2, 3, 4, 5, 6, 7, 8, 9] \<rparr>,
     storage = \<lparr> urlpath = None, contiguous = True, chunkshape = [4, 0, 0, 0, 0, 0, 0, 0],
       blockshape = [2, 0, 0, 0, 0, 0, 0, 0] \<rparr>,
     container_viewed = None, transposed = False \<rparr>"

text \<open>
  Claim C24. A slice view of an array or of a view, with bounds in order (negative ones count from the
  end), has the shape of the slice, refers to the container at the end of the chain of views,
  and its offset in that container is the offset of the source plus the start of the
  slice, in every dimension. Its super-chunk reads that of the source through the slice
  postfilter, with one thread when the source is itself a view. The source is one whose
  dimensions are those of its caterva array (not squeezed) and that is not transposed.
\<close>

theorem get_slice_view_region:
  assumes "caterva_empty_spec (ve_empty env)" "unsqueezed src" "\<not> transposed src"
    and "dtype (dtshape src) \<noteq> IARRAY_DATA_TYPE_MAX"
    and "\<forall>i < ndim (dtshape src). norm_bound (start ! i) (shape (dtshape src) ! i)
       \<le> norm_bound (stop ! i) (shape (dtshape src) ! i)"
  shows "\<exists>v. iarray_get_slice_view env a src start stop = Inr v \<and> unsqueezed v \<and>
    container_viewed v = Some (case container_viewed src of Some b \<Rightarrow> b | None \<Rightarrow> a) \<and>
    dtype (dtshape v) = dtype (dtshape src) \<and> ndim (dtshape v) = ndim (dtshape src) \<and>
    (\<forall>i < ndim (dtshape src).
       aux_offset (auxshape v) ! i =
         aux_offset (auxshape src) ! i + norm_bound (start ! i) (shape (dtshape src) ! i) \<and>
       shape (dtshape v) ! i = norm_bound (stop ! i) (shape (dtshape src) ! i)
         - norm_bound (start ! i) (shape (dtshape src) ! i)) \<and> reads_through env src v"
  using get_slice_view_spec [OF assms] by blast

lemma get_slice_view_region_witness:
  "\<exists>v. iarray_get_slice_view sample_env 7 sample_array [2] [- 1] = Inr v \<and>
    container_viewed v = Some 7 \<and> aux_offset (auxshape v) ! 0 = 2 \<and> shape (dtshape v) ! 0 = 7"
  using get_slice_view_region [OF sample_empty_spec, of sample_array "[2]" "[- 1]" 7]
  by (auto simp: sample_array_def unsqueezed_def norm_bound_def fresh_slots_def IARRAY_DIMENSION_MAX_def)

text \<open>
  Claim C28. For a source that is neither squeezed nor transposed and bounds that are not negative and in
  order, slicing a slice gives a view with the base container, the number of dimensions,
  the offset and the shape of the view that one slice with the added bounds gives. (The two
  views read different super-chunks: the first one that of the slice, with one thread, the
  second one that of the source.)
\<close>

theorem slice_of_slice:
  assumes "caterva_empty_spec (ve_empty env)" "unsqueezed src" "\<not> transposed src"
    and "dtype (dtshape src) \<noteq> IARRAY_DATA_TYPE_MAX"
    and "\<forall>i < ndim (dtshape src). 0 \<le> s1 ! i \<and> s1 ! i \<le> e1 ! i"
    and "\<forall>i < ndim (dtshape src). 0 \<le> s2 ! i \<and> s2 ! i \<le> e2 ! i"
    and "\<forall>i < ndim (dtshape src). s3 ! i = s1 ! i + s2 ! i \<and> e3 ! i = s1 ! i + e2 ! i"
  shows "\<exists>v1 v2 v3. iarray_get_slice_view env a src s1 e1 = Inr v1 \<and>
    iarray_get_slice_view env b v1 s2 e2 = Inr v2 \<and>
    iarray_get_slice_view env a src s3 e3 = Inr v3 \<and>
    container_viewed v2 = container_viewed v3 \<and> ndim (dtshape v2) = ndim (dtshape v3) \<and>
    (\<forall>i < ndim (dtshape src). aux_offset (auxshape v2) ! i = aux_offset (auxshape v3) ! i \<and>
       shape (dtshape v2) ! i = shape (dtshape v3) ! i) \<and>
    reads_through env v1 v2 \<and> reads_through env src v3"
proof -
  let ?nd = "ndim (dtshape src)"
  have n: "norm_bound x m = x" if "0 \<le> x" for x m using that by (simp add: norm_bound_def)
  have s1: "norm_bound (s1 ! i) m = s1 ! i" "norm_bound (e1 ! i) m = e1 ! i"
      "norm_bound (s2 ! i) m = s2 ! i" "norm_bound (e2 ! i) m = e2 ! i"
      "norm_bound (s3 ! i) m = s1 ! i + s2 ! i" "norm_bound (e3 ! i) m = s1 ! i + e2 ! i"
    if "i < ?nd" for i m
    using that assms(5-7) n [of "s1 ! i"] n [of "e1 ! i"] n [of "s2 ! i"] n [of "e2 ! i"]
      n [of "s1 ! i + s2 ! i"] n [of "s1 ! i + e2 ! i"] by auto
  obtain v1 where v1: "iarray_get_slice_view env a src s1 e1 = Inr v1" "unsqueezed v1" "\<not> transposed v1"
      "dtype (dtshape v1) = dtype (dtshape src)" "ndim (dtshape v1) = ?nd"
      "container_viewed v1 = Some (case container_viewed src of Some b \<Rightarrow> b | None \<Rightarrow> a)"
      "\<forall>i < ?nd. aux_offset (auxshape v1) ! i = aux_offset (auxshape src) ! i + s1 ! i"
    using get_slice_view_spec [OF assms(1-4), of s1 e1 a] assms(5) by (auto simp: s1)
  obtain v2 where v2: "iarray_get_slice_view env b v1 s2 e2 = Inr v2" "ndim (dtshape v2) = ?nd"
      "container_viewed v2 = container_viewed v1"
      "\<forall>i < ?nd. aux_offset (auxshape v2) ! i = aux_offset (auxshape v1) ! i + s2 ! i \<and>
         shape (dtshape v2) ! i = e2 ! i - s2 ! i" "reads_through env v1 v2"
    using get_slice_view_spec [OF assms(1) v1(2,3), of s2 e2 b] assms(4,6) v1(4-6) by (auto simp: s1)
  obtain v3 where v3: "iarray_get_slice_view env a src s3 e3 = Inr v3" "ndim (dtshape v3) = ?nd"
      "container_viewed v3 = container_viewed v1"
      "\<forall>i < ?nd. aux_offset (auxshape v3) ! i = aux_offset (auxshape src) ! i + (s1 ! i + s2 ! i) \<and>
         shape (dtshape v3) ! i = e2 ! i - s2 ! i" "reads_through env src v3"
    using get_slice_view_spec [OF assms(1-4), of s3 e3 a] assms(6) v1(6) by (auto simp: s1)
  show ?thesis using v1 v2 v3 by auto
qed

lemma slice_of_slice_witness:
  "\<exists>v1 v2 v3. iarray_get_slice_view sample_env 7 sample_array [2] [8] = Inr v1 \<and>
    iarray_get_slice_view sample_env 9 v1 [1] [4] = Inr v2 \<and>
    iarray_get_slice_view sample_env 7 sample_array [3] [6] = Inr v3 \<and>
    container_viewed v2 = container_viewed v3"
  using slice_of_slice [OF sample_empty_spec, of sample_array "[2]" "[8]" "[1]" "[4]" "[3]" "[6]" 7 9]
  by (auto simp: sample_array_def unsqueezed_def fresh_slots_def IARRAY_DIMENSION_MAX_def)

text \<open>
  A type view of an array whose cast the table does not have is created all the same: the error
  of \<open>iarray_add_view_postfilter\<close> is dropped, and the super-chunk of the view stays the empty one
  that \<open>caterva_empty\<close> made, without a postfilter.
\<close>

lemma unsupported_type_view_created:
  assumes "caterva_empty_spec (ve_empty env)" "container_viewed src = None" "ndim (dtshape src) \<le> 8"
    and "t \<noteq> dtype (dtshape src)" "t \<noteq> IARRAY_DATA_TYPE_MAX" "view_cast (dtype (dtshape src)) t = None"
  shows "\<exists>v p s arr. iarray_get_type_view env a src t = Inr v \<and> ve_empty env p s = Inr arr \<and> catarr v = arr"
proof -
  let ?d = "(dtshape src)\<lparr>dtype := t, shape := set_prefix (ndim (dtshape src)) (\<lambda>i. shape (dtshape src) ! i) fresh_slots\<rparr>"
  obtain d' where d': "iarray_set_dtype_size ?d = Inr d'"
    using set_dtype_size_succeeds_iff [of ?d] assms(5) by auto
  note sz = set_dtype_size_InrD [OF d']
  have same: "view_postfilter_on env src (dtype d') arr = arr" for arr
    using assms(2,4,6) sz(1) by (simp add: view_postfilter_on_def iarray_add_view_postfilter_def)
  have made: "\<exists>arr. ve_empty env p s = Inr arr" for p s
    using assms(1) by (auto simp: caterva_empty_spec_def)
  have "\<exists>v p s. iarray_view_new env a src d' (aux_offset (auxshape src)) = Inr v \<and> ve_empty env p s = Inr (catarr v)"
    using sz(3) assms(3) unfolding iarray_view_new_def Let_def same CATERVA_MAX_DIM_def
    by (auto simp: res_bind_def split: sum.split dest: spec) (metis made old.sum.distinct(1))+
  then show ?thesis using d' by (auto simp: iarray_get_type_view_def Let_def)
qed

text \<open>
  Slice views are not checked against the shape of their source: any slice whose bounds are
  in order is accepted, also one that ends behind the array, and the view claims items that
  the array does not have. (Writing is different, see the claim on
  \<open>iarray_set_slice_buffer\<close>.)
\<close>

lemma get_slice_view_unchecked:
  assumes "caterva_empty_spec (ve_empty env)" "unsqueezed src" "\<not> transposed src"
    and "dtype (dtshape src) \<noteq> IARRAY_DATA_TYPE_MAX"
    and "container_viewed src = None" "\<forall>i < ndim (dtshape src). aux_offset (auxshape src) ! i = 0"
    and "\<forall>i < ndim (dtshape src). 0 \<le> start ! i \<and> start ! i \<le> stop ! i"
    and "k < ndim (dtshape src)" "shape (dtshape src) ! k < stop ! k"
  shows "\<exists>v. iarray_get_slice_view env a src start stop = Inr v \<and>
    aux_offset (auxshape v) ! k + shape (dtshape v) ! k > shape (dtshape src) ! k"
proof -
  have ord: "\<forall>i < ndim (dtshape src). norm_bound (start ! i) (shape (dtshape src) ! i)
       \<le> norm_bound (stop ! i) (shape (dtshape src) ! i)"
    using assms(7) by (auto simp: norm_bound_def)
  then show ?thesis
    using get_slice_view_spec [OF assms(1-4) ord, of a] assms(6-9) by (auto simp: norm_bound_def)
qed

lemma get_slice_view_unchecked_witness:
  "\<exists>v. iarray_get_slice_view sample_env 7 sample_array [5] [20] = Inr v \<and>
    aux_offset (auxshape v) ! 0 + shape (dtshape v) ! 0 > 10"
  using get_slice_view_unchecked [OF sample_empty_spec, of sample_array "[5]" "[20]" 0 7]
  by (auto simp: sample_array_def unsqueezed_def fresh_slots_def IARRAY_DIMENSION_MAX_def)

text \<open>
  Claim C32. Reading a slice of a (possibly squeezed) view asks caterva for exactly the right region:
  in the dimension that dimension \<open>i\<close> of the view stands for, the interval of the slice
  shifted by the offset; in a dropped dimension, the single position at the offset.
\<close>

theorem get_slice_buffer_region:
  assumes "wf_container c" "\<not> transposed c"
    and "\<forall>i < ndim (dtshape c). norm_bound (start ! i) (shape (dtshape c) ! i)
       \<le> norm_bound (stop ! i) (shape (dtshape c) ! i)"
    and "fold (\<lambda>i s. s * slice_buffer_shape c bshape ! i) [0..<c_ndim (catarr c)] 1
       * dtype_size (dtshape c) \<le> buflen"
  shows "\<exists>s e b. iarray_get_slice_buffer_raw getter omatcopy c start stop bshape buflen =
      getter (catarr c) s e b \<and>
    (\<forall>i < ndim (dtshape c). let j = aux_index (auxshape c) ! i; off = aux_offset (auxshape c) ! j in
       s ! j = off + norm_bound (start ! i) (shape (dtshape c) ! i) \<and>
       e ! j = off + norm_bound (stop ! i) (shape (dtshape c) ! i) \<and> b ! j = bshape ! i) \<and>
    (\<forall>j < c_ndim (catarr c). (\<forall>i < ndim (dtshape c). aux_index (auxshape c) ! i \<noteq> j) \<longrightarrow>
       s ! j = aux_offset (auxshape c) ! j \<and> e ! j = aux_offset (auxshape c) ! j + 1 \<and> b ! j = 1)"
proof -
  have le: "slice_start c start ! j \<le> slice_stop c stop ! j" if "j < ndim (dtshape c)" for j
  proof (cases "\<exists>i < ndim (dtshape c). aux_index (auxshape c) ! i = j")
    case True
    then show ?thesis
      using slice_start_at [OF assms(1)] slice_stop_at [OF assms(1)] assms(3) by auto
  next
    case False
    then show ?thesis
      using slice_other [OF assms(1), of j] that assms(1) by (auto simp: wf_container_def)
  qed
  have nle: "\<not> (\<exists>i < ndim (dtshape c). slice_start c start ! i > slice_stop c stop ! i)"
    using le not_less by blast
  have bind: "res_bind r Inr = r" for r :: "'x res" by (cases r) simp_all
  have "iarray_get_slice_buffer_raw getter omatcopy c start stop bshape buflen =
      getter (catarr c) (slice_start c start) (slice_stop c stop) (slice_buffer_shape c bshape)"
    using assms(2,4) by (simp add: iarray_get_slice_buffer_raw_def swap_dims_def Let_def bind nle)
  then show ?thesis
    using slice_start_at [OF assms(1)] slice_stop_at [OF assms(1)] slice_buffer_shape_at [OF assms(1)]
      slice_other [OF assms(1)]
    by (intro exI [of _ "slice_start c start"] exI [of _ "slice_stop c stop"]
        exI [of _ "slice_buffer_shape c bshape"]) (simp add: Let_def)
qed

text \<open>A view of shape 4 on the row 3 of a 5 by 10 array, its first dimension squeezed away.\<close>

definition sample_row :: "int list container" where
  "sample_row = sample_array\<lparr>
     dtshape := (dtshape sample_array)\<lparr>shape := [4, 10, 0, 0, 0, 0, 0, 0]\<rparr>,
     auxshape := (auxshape sample_array)\<lparr>aux_offset := [3, 2, 0, 0, 0, 0, 0, 0],
       aux_index := [1, 1, 0, 0, 0, 0, 0, 0]\<rparr>,
     catarr := (catarr sample_array)\<lparr>c_ndim := 2, c_shape := [5, 10, 1, 1, 1, 1, 1, 1]\<rparr>,
     container_viewed := Some 7\<rparr>"

lemma get_slice_buffer_region_witness:
  "\<exists>s e b. iarray_get_slice_buffer_raw (\<lambda>arr s e b. Inr s) (\<lambda>r c x. x) sample_row [1] [3] [2] 16 =
      Inr s \<and> s ! 1 = 3 \<and> e ! 1 = (5::int) \<and> s ! 0 = 3 \<and> e ! 0 = 4 \<and> b ! 1 = (2::int)"
proof -
  have wf: "wf_container sample_row"
    by (simp add: sample_row_def sample_array_def wf_container_def lessThan_Suc)
  have "fold (\<lambda>i s. s * slice_buffer_shape sample_row [2] ! i) [0..<2] 1 = 2"
    by (simp add: sample_row_def sample_array_def slice_buffer_shape_def set_prefix_eq Let_def
        fresh_slots_def IARRAY_DIMENSION_MAX_def numeral_2_eq_2)
  then show ?thesis
    using get_slice_buffer_region [OF wf, of "[1]" "[3]" "[2]" 16 "\<lambda>arr s e b. Inr s" "\<lambda>r c x. x"]
    by (simp add: sample_row_def sample_array_def norm_bound_def Let_def less_Suc_eq numeral_2_eq_2) blast
qed

text \<open>
  Claim C10. \<open>iarray_set_slice_buffer\<close> is memory safe: it succeeds only on a container that is not a view,
  and then caterva was called with a region inside the array, of the shape handed over with it,
  whose items fit into the buffer; the container changes in nothing but its caterva array.
\<close>

theorem set_slice_buffer_safe:
  assumes "iarray_set_slice_buffer setter c start stop buffer buflen = Inr c'"
    and "c_ndim (catarr c) \<le> 8"
  shows "container_viewed c = None \<and>
    (\<exists>sh s e arr. setter (catarr c) sh s e buffer = Inr arr \<and> c' = c\<lparr>catarr := arr\<rparr> \<and>
      (\<forall>j < c_ndim (catarr c). 0 \<le> s ! j \<and> s ! j \<le> e ! j \<and> e ! j \<le> c_shape (catarr c) ! j \<and>
         sh ! j = e ! j - s ! j) \<and>
      prod_list (take (c_ndim (catarr c)) sh) * dtype_size (dtshape c) \<le> buflen)"
proof -
  let ?n = "c_ndim (catarr c)"
  let ?s = "slice_start c start"
  let ?e = "slice_stop c stop"
  let ?sh = "set_prefix ?n (\<lambda>i. ?e ! i - ?s ! i) fresh_slots"
  have chk: "set_slice_checks s e z js = Inr u \<Longrightarrow> \<forall>j \<in> set js. 0 \<le> s ! j \<and> s ! j \<le> e ! j \<and> e ! j \<le> z ! j"
    for s e z u js
    by (induction js) (auto split: if_splits)
  have v: "container_viewed c = None"
    using assms(1) by (auto simp: iarray_set_slice_buffer_def split: if_splits)
  have ok: "set_slice_checks ?s ?e (c_shape (catarr c)) [0..<?n] = Inr ()"
    using assms(1) v by (auto simp: iarray_set_slice_buffer_def Let_def res_bind_eq_Inr_iff)
  have sz: "fold (\<lambda>i s. s * ?sh ! i) [0..<?n] 1 * dtype_size (dtshape c) \<le> buflen"
    using assms(1) v ok by (auto simp: iarray_set_slice_buffer_def Let_def not_less split: if_splits)
  then obtain arr where arr: "setter (catarr c) ?sh ?s ?e buffer = Inr arr" "c' = c\<lparr>catarr := arr\<rparr>"
    using assms(1) v ok
    by (auto simp: iarray_set_slice_buffer_def Let_def res_bind_eq_Inr_iff split: if_splits)
  have "fold (\<lambda>i s. s * ?sh ! i) [0..<?n] 1 = prod_list (take ?n ?sh)"
    using fold_mult_nth [of ?n ?sh 1] assms(2) by simp
  then show ?thesis
    using v arr chk [OF ok] sz assms(2)
    by (intro conjI exI [of _ ?sh] exI [of _ ?s] exI [of _ ?e] exI [of _ arr]) (auto simp: set_prefix_nth)
qed

lemma set_slice_buffer_safe_witness:
  "\<exists>c'. iarray_set_slice_buffer (\<lambda>arr sh s e b. Inr arr) sample_array [2] [5] [7, 7, 7] 24 = Inr c' \<and>
    container_viewed sample_array = None"
proof -
  have r: "iarray_set_slice_buffer (\<lambda>arr sh s e b. Inr arr) sample_array [2] [5] [7, 7, 7] 24 = Inr sample_array"
    by (simp add: iarray_set_slice_buffer_def sample_array_def slice_start_def slice_stop_def
        set_prefix_eq Let_def fresh_slots_def IARRAY_DIMENSION_MAX_def)
  have "container_viewed sample_array = None"
    using set_slice_buffer_safe [OF r] by (simp add: sample_array_def)
  then show ?thesis using r by blast
qed

text \<open>
  Claim C36. Squeezing a view whose dimensions still are those of the base array drops exactly the flagged
  dimensions: the others keep their order and their extents, and the index map sends them to
  the dimensions of the base they come from. The offsets stay.
\<close>

theorem squeeze_view_correct:
  fixes c :: "'d container" and ix :: "bool list"
  assumes "container_viewed c = Some b" "unsqueezed c"
    and "ndim (dtshape c) \<le> length (shape (dtshape c))" "ndim (dtshape c) \<le> length (aux_index (auxshape c))"
  defines "ds \<equiv> filter (\<lambda>i. \<not> ix ! i) [0..<ndim (dtshape c)]"
  shows "\<exists>c'. iarray_squeeze_index csq c ix = Inr c' \<and> wf_container c' \<and>
    ndim (dtshape c') = length ds \<and>
    (\<forall>k < length ds. shape (dtshape c') ! k = shape (dtshape c) ! (ds ! k) \<and>
       aux_index (auxshape c') ! k = ds ! k) \<and>
    aux_offset (auxshape c') = aux_offset (auxshape c) \<and> catarr c' = catarr c"
proof -
  let ?nd = "ndim (dtshape c)"
  let ?ds = "kept ix ?nd"
  have ds: "ds = ?ds" by (simp add: ds_def kept_def)
  have len: "length ?ds \<le> ?nd" by (rule kept_length)
  let ?sh = "map (\<lambda>i. shape (dtshape c) ! i) ?ds @ drop (length ?ds) (shape (dtshape c))"
  let ?idx = "?ds @ drop (length ?ds) (aux_index (auxshape c))"
  let ?c = "c\<lparr>dtshape := (dtshape c)\<lparr>shape := ?sh, ndim := length ?ds\<rparr>,
      auxshape := (auxshape c)\<lparr>aux_index := ?idx\<rparr>\<rparr>"
  have sq: "iarray_squeeze_index csq c ix = Inr ?c"
    using assms(1) squeeze_view_loop [OF assms(3,4), of ix] len
    by (simp add: iarray_squeeze_index_def Let_def)
  have mem: "?ds ! k < ?nd" if "k < length ?ds" for k
    using nth_mem [OF that] by (simp add: kept_def)
  have "inj_on (\<lambda>k. ?idx ! k) {..<length ?ds}"
    using distinct_filter [of "[0..<?nd]" "\<lambda>i. \<not> ix ! i"]
    by (auto simp: inj_on_def nth_append kept_def nth_eq_iff_index_eq)
  moreover have "?nd \<le> c_ndim (catarr c)" "c_ndim (catarr c) \<le> 8"
    using assms(2) by (simp_all add: unsqueezed_def)
  moreover have "\<forall>i < length ?ds. ?idx ! i < c_ndim (catarr c)"
    using mem calculation(2) by (auto simp: nth_append intro: order.strict_trans2)
  ultimately have "wf_container ?c" using len by (simp add: wf_container_def)
  then show ?thesis using sq ds by (intro exI [of _ ?c]) (simp add: nth_append)
qed

text \<open>A view of shape 1 by 4 by 1 on a three-dimensional array.\<close>

definition sample_view3 :: "int list container" where
  "sample_view3 = sample_array\<lparr>
     dtshape := (dtshape sample_array)\<lparr>ndim := 3, shape := [1, 4, 1, 0, 0, 0, 0, 0]\<rparr>,
     auxshape := (auxshape sample_array)\<lparr>aux_offset := [3, 2, 5, 0, 0, 0, 0, 0],
       aux_index := [0, 1, 2, 0, 0, 0, 0, 0]\<rparr>,
     catarr := (catarr sample_array)\<lparr>c_ndim := 3, c_shape := [5, 10, 6, 1, 1, 1, 1, 1]\<rparr>,
     container_viewed := Some 7\<rparr>"

lemma squeeze_view_correct_witness:
  "\<exists>c'. iarray_squeeze_index (\<lambda>a ix. Inr a) sample_view3 [True, False, True] = Inr c' \<and>
    ndim (dtshape c') = 1 \<and> shape (dtshape c') ! 0 = 4 \<and> aux_index (auxshape c') ! 0 = 1"
proof -
  have f: "filter (\<lambda>i. \<not> [True, False, True] ! i) [0..<3] = [1]" by (simp add: numeral_3_eq_3)
  have u: "unsqueezed sample_view3"
    by (simp add: unsqueezed_def sample_view3_def sample_array_def less_Suc_eq numeral_3_eq_3)
  show ?thesis
    using squeeze_view_correct [where c = sample_view3 and b = 7 and ix = "[True, False, True]" and
        csq = "\<lambda>a ix. Inr a"] u f
    by (auto simp: sample_view3_def sample_array_def)
qed

text \<open>
  Squeezing is not repeatable: the index map of a view that has been squeezed before is
  overwritten instead of composed. Here dimension 0 of a 1 by 4 by 1 view is dropped first and the
  then first of the remaining two after it; what is left is the base's dimension 2, but the
  index map says 1.
\<close>

lemma squeeze_twice_wrong:
  "\<exists>c1 c2. iarray_squeeze_index csq sample_view3 [True, False, False] = Inr c1 \<and>
    aux_index (auxshape c1) ! 0 = 1 \<and> aux_index (auxshape c1) ! 1 = 2 \<and>
    iarray_squeeze_index csq c1 [True, False] = Inr c2 \<and>
    ndim (dtshape c2) = 1 \<and> shape (dtshape c2) ! 0 = shape (dtshape c1) ! 1 \<and>
    aux_index (auxshape c2) ! 0 = 1"
  by (simp add: iarray_squeeze_index_def sample_view3_def sample_array_def squeeze_view_step_def
      numeral_3_eq_3 numeral_2_eq_2)

text \<open>
  A slice view of a squeezed view takes the wrong dimensions: the bounds are computed in the
  dimensions of the base, but shape and offset of the new view are read from the first \<open>ndim\<close>
  of them. Slicing \<open>[1, 3)\<close> from the one-dimensional view of row 3, which has 2 items
  beginning at column 3, gives a view of one item at offset 3 of the rows.
\<close>

lemma slice_of_squeezed_wrong:
  "\<exists>v. iarray_get_slice_view sample_env 9 sample_row [1] [3] = Inr v \<and>
    shape (dtshape v) ! 0 = 1 \<and> aux_offset (auxshape v) ! 0 = 3 \<and>
    aux_index (auxshape v) ! 0 = 0 \<and> aux_index (auxshape sample_row) ! 0 = 1"
proof -
  obtain cs where cs: "iarray_create_caterva_storage d st = Inr (cs d st)" for d st
    using storage_meta_ok by metis
  show ?thesis
    by (simp add: iarray_get_slice_view_def sample_row_def sample_array_def slice_start_def
        slice_stop_def set_prefix_eq Let_def fresh_slots_def IARRAY_DIMENSION_MAX_def numeral_2_eq_2
        swap_dims_def iarray_set_dtype_size.simps iarray_view_new_def CATERVA_MAX_DIM_def cs
        sample_env_def sample_empty_def view_postfilter_on_def iarray_add_view_postfilter_def)
qed

text \<open>
  Claim C37. Opening an array gives back the container it was stored from: when the caterva array read
  back has the dimensions, shape and partitions it was created with and its "iarray" metalayer
  is the one \<open>iarray_create_caterva_storage\<close> wrote, the loaded container has the type, item size, shape,
  chunk shape and block shape of the original.
\<close>

theorem load_roundtrip:
  assumes "iarray_container_new d st arr = Inr c"
    and "iarray_create_caterva_storage (dtshape c) st = Inr cs"
    and "(''iarray'', smeta) \<in> set (cs_metalayers cs)" "meta_get (c_data arr) = Some smeta"
    and "caterva_open path = Some (Inr arr)" "c_ndim arr = ndim d"
    and "\<forall>i < ndim d. c_shape arr ! i = shape d ! i \<and> c_chunkshape arr ! i = chunkshape st ! i \<and>
       c_blockshape arr ! i = blockshape st ! i"
  shows "\<exists>c'. iarray_container_load_gen caterva_open ccopy meta_get sc_cont path False = Inr c' \<and>
    dtype (dtshape c') = dtype (dtshape c) \<and> dtype_size (dtshape c') = dtype_size (dtshape c) \<and>
    ndim (dtshape c') = ndim (dtshape c) \<and>
    (\<forall>i < ndim d. shape (dtshape c') ! i = shape (dtshape c) ! i \<and>
       chunkshape (storage c') ! i = chunkshape (storage c) ! i \<and>
       blockshape (storage c') ! i = blockshape (storage c) ! i) \<and>
    container_viewed c' = None \<and> wf_container c'"
proof -
  obtain d' where d': "iarray_set_dtype_size d = Inr d'" "dtshape c = d'" "storage c = st" "ndim d \<le> 8"
    using assms(1) by (auto simp: iarray_container_new_def res_bind_eq_Inr_iff CATERVA_MAX_DIM_def not_less
        split: if_splits)
  note sz = set_dtype_size_InrD [OF d'(1)]
  have nomax: "dtype d' \<noteq> IARRAY_DATA_TYPE_MAX"
    using d'(1) set_dtype_size_succeeds_iff [of d] sz(1) by auto
  have "iarray_serialize_meta (dtype d') = Some smeta"
    using assms(2,3) d'(2) by (auto simp: iarray_create_caterva_storage_def Let_def split: option.splits)
  then have m: "iarray_deserialize_meta smeta = Inr (dtype_code (dtype d'))"
    using deserialize_serialize nomax by simp
  let ?e = "\<lparr> dtype = dtype d', dtype_size = 0, ndim = c_ndim arr,
      shape = set_prefix (c_ndim arr) (\<lambda>i. c_shape arr ! i) fresh_slots \<rparr>"
  obtain e where e: "iarray_set_dtype_size ?e = Inr e"
    using set_dtype_size_succeeds_iff [of ?e] nomax by auto
  note es = set_dtype_size_InrD [OF e]
  have size: "dtype_size e = dtype_size d'"
    using itemsize_of_set_dtype_size [OF e] itemsize_of_set_dtype_size [OF d'(1)] sz(1) by simp
  show ?thesis
    using assms(4-7) m e es size sz d'
    by (simp add: iarray_container_load_gen_def container_of_catarr_def Let_def set_prefix_nth
        wf_container_def inj_on_def IARRAY_DIMENSION_MAX_def)
qed

lemma load_roundtrip_witness:
  "\<exists>c'. iarray_container_load_gen (\<lambda>p. Some (Inr (catarr sample_array))) (\<lambda>a s. Inr a)
      (\<lambda>d. Some [0x93, 0, 10, 0]) (\<lambda>d. True) ''a.iarr'' False = Inr c' \<and>
    dtype (dtshape c') = IARRAY_DATA_TYPE_INT64 \<and> shape (dtshape c') ! 0 = 10"
proof -
  let ?d = "dtshape sample_array"
  let ?st = "storage sample_array"
  let ?arr = "catarr sample_array"
  have n: "\<exists>c. iarray_container_new ?d ?st ?arr = Inr c \<and> dtshape c = ?d"
    by (simp add: iarray_container_new_def sample_array_def CATERVA_MAX_DIM_def iarray_set_dtype_size.simps)
  then obtain c where c: "iarray_container_new ?d ?st ?arr = Inr c" "dtshape c = ?d" by blast
  have "\<exists>cs. iarray_create_caterva_storage ?d ?st = Inr cs \<and>
      (''iarray'', [0x93, 0, 10, 0]) \<in> set (cs_metalayers cs)"
    by (simp add: iarray_create_caterva_storage_def iarray_serialize_meta_def sample_array_def not_less)
  then obtain cs where cs: "iarray_create_caterva_storage (dtshape c) ?st = Inr cs"
      "(''iarray'', [0x93, 0, 10, 0]) \<in> set (cs_metalayers cs)" using c(2) by auto
  show ?thesis
    using load_roundtrip [OF c(1) cs, of "\<lambda>d. Some [0x93, 0, 10, 0]" "\<lambda>p. Some (Inr ?arr)" "''a.iarr''"
        "\<lambda>a s. Inr a" "\<lambda>d. True"] c(2)
    by (auto simp: sample_array_def)
qed

end
