(* ===== verification/Tiling.thy ===== *)
theory Tiling
  imports Index
begin

text \<open>
  Blocks of an array: an array of shape \<open>ns\<close> cut into blocks of shape \<open>bs\<close>, the last ones cropped.
  The locale \<open>block_walk\<close> is the contract between a block iterator and its clients: block
  number \<open>k\<close> starts and ends where row-major numbering says. From it follows once and for all
  that the blocks cover the array without overlap; the iterators interpret it.
\<close>

definition blocks_of :: "int list \<Rightarrow> int list \<Rightarrow> int list" where
  "blocks_of ns bs = map2 ceil_blocks ns bs"

definition good_blocks :: "int list \<Rightarrow> int list \<Rightarrow> bool" where
  "good_blocks ns bs \<longleftrightarrow> length ns = length bs \<and> length ns \<le> CATERVA_MAX_DIM \<and> all_pos ns \<and> all_pos bs"

definition block_start :: "int list \<Rightarrow> int list \<Rightarrow> int \<Rightarrow> int list" where
  "block_start ns bs k = map2 (*) (unflat (blocks_of ns bs) k) bs"

definition block_extent :: "int list \<Rightarrow> int list \<Rightarrow> int \<Rightarrow> int list" where
  "block_extent ns bs k = map2 min bs (map2 (-) ns (block_start ns bs k))"

definition in_region :: "int list \<times> int list \<Rightarrow> int list \<Rightarrow> bool" where
  "in_region r ix \<longleftrightarrow> length ix = length (fst r) \<and> length (snd r) = length (fst r) \<and>
     (\<forall>j < length ix. fst r ! j \<le> ix ! j \<and> ix ! j < fst r ! j + snd r ! j)"

lemma length_blocks_of [simp]: "length ns = length bs \<Longrightarrow> length (blocks_of ns bs) = length bs"
  by (simp add: blocks_of_def)

lemma length_block_start [simp]: "length ns = length bs \<Longrightarrow> length (block_start ns bs k) = length bs"
  by (simp add: block_start_def)

lemma length_block_extent [simp]: "length ns = length bs \<Longrightarrow> length (block_extent ns bs k) = length bs"
  by (simp add: block_extent_def)

lemma blocks_of_nth: "length ns = length bs \<Longrightarrow> j < length bs \<Longrightarrow> blocks_of ns bs ! j = ceil_blocks (ns ! j) (bs ! j)"
  by (simp add: blocks_of_def)

lemma good_blocks_of: "good_blocks ns bs \<Longrightarrow> good_shape (blocks_of ns bs)"
  by (auto simp: good_blocks_def good_shape_def all_pos_nth blocks_of_nth ceil_blocks_pos)

lemma block_start_nth:
  "length ns = length bs \<Longrightarrow> j < length bs \<Longrightarrow>
   block_start ns bs k ! j = unflat (blocks_of ns bs) k ! j * bs ! j"
  by (simp add: block_start_def)

lemma block_extent_nth:
  "length ns = length bs \<Longrightarrow> j < length bs \<Longrightarrow>
   block_extent ns bs k ! j = min (bs ! j) (ns ! j - block_start ns bs k ! j)"
  by (simp add: block_extent_def)

lemma block_digit:
  assumes "good_blocks ns bs" "0 \<le> k" "k < prod_list (blocks_of ns bs)" "j < length bs"
  shows "0 \<le> unflat (blocks_of ns bs) k ! j" "unflat (blocks_of ns bs) k ! j < ceil_blocks (ns ! j) (bs ! j)"
proof -
  have "in_box (blocks_of ns bs) (unflat (blocks_of ns bs) k)"
    using ref.decode_in_box good_blocks_of assms by blast
  then show "0 \<le> unflat (blocks_of ns bs) k ! j" "unflat (blocks_of ns bs) k ! j < ceil_blocks (ns ! j) (bs ! j)"
    using assms by (auto simp: in_box_nth good_blocks_def blocks_of_nth)
qed

lemma block_in_array:
  assumes "good_blocks ns bs" "0 \<le> k" "k < prod_list (blocks_of ns bs)" "j < length bs"
  shows "0 \<le> block_start ns bs k ! j" "block_start ns bs k ! j < ns ! j"
    "0 < block_extent ns bs k ! j" "block_start ns bs k ! j + block_extent ns bs k ! j \<le> ns ! j"
proof -
  note d = block_digit [OF assms]
  have l: "length ns = length bs" and p: "0 < ns ! j" "0 < bs ! j"
    using assms by (auto simp: good_blocks_def all_pos_nth)
  show s: "0 \<le> block_start ns bs k ! j" "block_start ns bs k ! j < ns ! j"
    using d p block_start_less [OF d] by (simp_all add: block_start_nth l assms(4))
  show "0 < block_extent ns bs k ! j" "block_start ns bs k ! j + block_extent ns bs k ! j \<le> ns ! j"
    using s p by (simp_all add: block_extent_nth l assms(4))
qed

lemma div_block:
  assumes "0 < b" "q * b \<le> x" "x < q * b + b"
  shows "x div b = (q :: int)"
proof -
  have "x - q * b \<ge> 0" "x - q * b < b" using assms by simp_all
  then have "(q * b + (x - q * b)) div b = q" using assms(1) by (subst div_mult_self3) simp_all
  then show ?thesis by simp
qed

lemma in_block:
  fixes x b n r q :: int
  assumes "0 \<le> r" "r < b" "x = q * b + r" "x < n"
  shows "x < q * b + min b (n - q * b)"
  using assms by linarith

lemma block_of_item:
  assumes "good_blocks ns bs" "in_box ns ix"
  shows "\<exists>!k. 0 \<le> k \<and> k < prod_list (blocks_of ns bs) \<and>
    in_region (block_start ns bs k, block_extent ns bs k) ix"
proof -
  let ?q = "map2 (div) ix bs"
  let ?P = "prod_list (blocks_of ns bs)"
  have l: "length ns = length bs" "length ix = length bs"
    using assms by (auto simp: good_blocks_def in_box_length)
  have pos: "0 < bs ! j" "0 \<le> ix ! j" "ix ! j < ns ! j" if "j < length bs" for j
    using that assms l by (auto simp: good_blocks_def all_pos_nth in_box_nth)
  have qbox: "in_box (blocks_of ns bs) ?q"
    using pos l block_index_less_ceil
    by (auto simp: in_box_nth blocks_of_nth pos_imp_zdiv_nonneg_iff)
  have reg: "in_region (block_start ns bs k, block_extent ns bs k) ix \<longleftrightarrow>
      unflat (blocks_of ns bs) k = ?q" if k: "0 \<le> k" "k < ?P" for k
  proof
    assume r: "in_region (block_start ns bs k, block_extent ns bs k) ix"
    have "unflat (blocks_of ns bs) k ! j = ix ! j div bs ! j" if "j < length bs" for j
    proof -
      have "block_start ns bs k ! j \<le> ix ! j" "ix ! j < block_start ns bs k ! j + block_extent ns bs k ! j"
        using r that l by (auto simp: in_region_def)
      then show ?thesis
        using div_block [OF pos(1) [OF that], of "unflat (blocks_of ns bs) k ! j" "ix ! j"] that l
        by (simp add: block_start_nth block_extent_nth)
    qed
    then show "unflat (blocks_of ns bs) k = ?q" using l by (intro nth_equalityI) auto
  next
    assume u: "unflat (blocks_of ns bs) k = ?q"
    show "in_region (block_start ns bs k, block_extent ns bs k) ix"
      unfolding in_region_def
    proof (intro conjI allI impI)
      fix j assume "j < length ix"
      then have j: "j < length bs" using l by simp
      have dm: "ix ! j = ix ! j div bs ! j * bs ! j + ix ! j mod bs ! j"
        by (rule div_mult_mod_eq [symmetric])
      have md: "0 \<le> ix ! j mod bs ! j" "ix ! j mod bs ! j < bs ! j" using pos [OF j] by simp_all
      have s: "block_start ns bs k ! j = ix ! j div bs ! j * bs ! j"
        using u j l by (simp add: block_start_nth)
      show "fst (block_start ns bs k, block_extent ns bs k) ! j \<le> ix ! j"
        using s dm md by simp
      show "ix ! j < fst (block_start ns bs k, block_extent ns bs k) ! j +
          snd (block_start ns bs k, block_extent ns bs k) ! j"
        using in_block [OF md dm pos(3) [OF j]] s u j l by (simp add: block_extent_nth min_def)
    qed (use l in simp_all)
  qed
  then show ?thesis
    using ref.visits_once [OF good_blocks_of [OF assms(1)] qbox] by metis
qed

section \<open>The items of a region, and of all blocks in order\<close>

definition below :: "int \<Rightarrow> int list" where
  "below n = map int [0..<nat n]"

lemma in_below [simp]: "k \<in> set (below n) \<longleftrightarrow> 0 \<le> k \<and> k < n"
  by (auto simp: below_def image_iff intro!: bexI [of _ "nat k"])

lemma distinct_below [simp]: "distinct (below n)"
  by (simp add: below_def distinct_map)

lemma length_below [simp]: "length (below n) = nat n"
  by (simp add: below_def)

lemma below_nth: "i < nat n \<Longrightarrow> below n ! i = int i"
  by (simp add: below_def)

definition region_items :: "int list \<times> int list \<Rightarrow> int list list" where
  "region_items r = map (\<lambda>j. map2 (+) (fst r) (unflat (snd r) j)) (below (prod_list (snd r)))"

lemma region_items:
  assumes "length s = length e" "all_pos e"
  shows "distinct (region_items (s, e))" "set (region_items (s, e)) = {ix. in_region (s, e) ix}"
proof -
  have u: "unflat e a = unflat e b" if "map2 (+) s (unflat e a) = map2 (+) s (unflat e b)" for a b
  proof (rule nth_equalityI)
    fix j assume "j < length (unflat e a)"
    then have j: "j < length e" by simp
    then have "map2 (+) s (unflat e a) ! j = s ! j + unflat e a ! j"
      "map2 (+) s (unflat e b) ! j = s ! j + unflat e b ! j" using assms by simp_all
    then show "unflat e a ! j = unflat e b ! j" using that by simp
  qed simp
  have "a = b" if "map2 (+) s (unflat e a) = map2 (+) s (unflat e b)" "0 \<le> a" "a < prod_list e"
    "0 \<le> b" "b < prod_list e" for a b
  proof -
    have "unflat e a = unflat e b" by (rule u [OF that(1)])
    then have "flat e (unflat e a) = flat e (unflat e b)" by simp
    then show ?thesis by (simp add: flat_unflat [OF assms(2)] that)
  qed
  then have "inj_on (\<lambda>j. map2 (+) s (unflat e j)) (set (below (prod_list e)))"
    by (intro inj_onI) simp
  then show "distinct (region_items (s, e))"
    by (simp add: region_items_def distinct_map)
  have hit: "\<exists>k. 0 \<le> k \<and> k < prod_list e \<and> ix = map2 (+) s (unflat e k)" if r: "in_region (s, e) ix" for ix
  proof -
    let ?d = "map2 (-) ix s"
    have l: "length ix = length e" using r assms by (simp add: in_region_def)
    have b: "in_box e ?d"
      using r l assms by (auto simp: in_region_def in_box_nth)
    have "ix = map2 (+) s ?d" using l assms by (intro nth_equalityI) auto
    moreover have "unflat e (flat e ?d) = ?d" using unflat_flat [OF b] by simp
    ultimately show ?thesis using flat_bounds [OF b] by (intro exI [of _ "flat e ?d"]) simp
  qed
  have inr: "in_region (s, e) (map2 (+) s (unflat e k))" if "0 \<le> k" "k < prod_list e" for k
    using unflat_in_box [OF assms(2) that] assms by (auto simp: in_region_def in_box_nth)
  show "set (region_items (s, e)) = {ix. in_region (s, e) ix}"
  proof (rule set_eqI)
    fix x
    have "x \<in> set (region_items (s, e)) \<longleftrightarrow>
        (\<exists>k. (0 \<le> k \<and> k < prod_list e) \<and> x = map2 (+) s (unflat e k))"
      unfolding region_items_def set_map image_iff Bex_def in_below fst_conv snd_conv ..
    then show "x \<in> set (region_items (s, e)) \<longleftrightarrow> x \<in> {ix. in_region (s, e) ix}"
      using hit [of x] inr by blast
  qed
qed

lemma card_box: 
  assumes "good_shape ns" shows "finite {ix. in_box ns ix}" "int (card {ix. in_box ns ix}) = prod_list ns"
proof -
  note b = ref.bij_decode [OF assms]
  show "finite {ix. in_box ns ix}" using bij_betw_finite [OF b] by simp
  have "0 \<le> prod_list ns" using assms by (auto simp: good_shape_def intro: less_imp_le all_pos_prod)
  then show "int (card {ix. in_box ns ix}) = prod_list ns" using bij_betw_same_card [OF b] by simp
qed

section \<open>The contract of a block iterator\<close>

text \<open>
  \<open>dims\<close> and \<open>tile\<close> are the shape of the array and of its blocks, \<open>walk c k\<close> is the region (start and
  shape) the iterator visits as its block number \<open>k\<close>.
\<close>

definition block_count :: "int list \<Rightarrow> int list \<Rightarrow> int" where
  "block_count ns bs = prod_list (blocks_of ns bs)"

definition walk_items :: "(int \<Rightarrow> int list \<times> int list) \<Rightarrow> int \<Rightarrow> int list list" where
  "walk_items w n = concat (map (\<lambda>k. region_items (w k)) (below n))"

locale block_walk =
  fixes ok :: "'c \<Rightarrow> bool"
    and dims tile :: "'c \<Rightarrow> int list"
    and walk :: "'c \<Rightarrow> int \<Rightarrow> int list \<times> int list"
  assumes good: "ok c \<Longrightarrow> good_blocks (dims c) (tile c)"
    and walk_block: "ok c \<Longrightarrow> 0 \<le> k \<Longrightarrow> k < block_count (dims c) (tile c) \<Longrightarrow>
      walk c k = (block_start (dims c) (tile c) k, block_extent (dims c) (tile c) k)"
begin

lemma covers_once:
  assumes "ok c" "in_box (dims c) ix"
  shows "\<exists>!k. 0 \<le> k \<and> k < block_count (dims c) (tile c) \<and> in_region (walk c k) ix"
  using block_of_item [OF good [OF assms(1)] assms(2)] walk_block [OF assms(1)]
  unfolding block_count_def by metis

lemma inside:
  assumes "ok c" "0 \<le> k" "k < block_count (dims c) (tile c)" "j < length (tile c)"
  shows "0 \<le> fst (walk c k) ! j \<and> 0 < snd (walk c k) ! j \<and>
    fst (walk c k) ! j + snd (walk c k) ! j \<le> dims c ! j"
  using block_in_array [OF good [OF assms(1)]] walk_block [OF assms(1)] assms
  by (simp add: block_count_def)

lemma region:
  assumes "ok c" "0 \<le> k" "k < block_count (dims c) (tile c)"
  shows "distinct (region_items (walk c k))"
    "set (region_items (walk c k)) = {ix. in_region (walk c k) ix}"
    "ix \<in> set (region_items (walk c k)) \<Longrightarrow> in_box (dims c) ix"
proof -
  have g: "good_blocks (dims c) (tile c)" by (rule good [OF assms(1)])
  have l: "length (dims c) = length (tile c)" using g by (simp add: good_blocks_def)
  have w: "walk c k = (block_start (dims c) (tile c) k, block_extent (dims c) (tile c) k)"
    using walk_block assms by (simp add: block_count_def)
  have "all_pos (block_extent (dims c) (tile c) k)"
    using inside [OF assms] l by (simp add: all_pos_nth w)
  then show d: "distinct (region_items (walk c k))"
    "set (region_items (walk c k)) = {ix. in_region (walk c k) ix}"
    using l w by (simp_all add: region_items)
  show "in_box (dims c) ix" if "ix \<in> set (region_items (walk c k))"
  proof -
    have r: "in_region (walk c k) ix" using that d by simp
    then have x: "length ix = length (dims c)" using l w by (simp add: in_region_def)
    show ?thesis
      unfolding in_box_nth
    proof (intro conjI allI impI)
      fix j assume j: "j < length (dims c)"
      show "0 \<le> ix ! j" "ix ! j < dims c ! j"
        using inside [OF assms, of j] j l r x by (auto simp: in_region_def)
    qed (rule x)
  qed
qed

lemma items_once:
  assumes "ok c"
  shows "distinct (walk_items (walk c) (block_count (dims c) (tile c)))" "set (walk_items (walk c) (block_count (dims c) (tile c))) = {ix. in_box (dims c) ix}"
    "int (length (walk_items (walk c) (block_count (dims c) (tile c)))) = prod_list (dims c)"
proof -
  have one: "k = k'" if "0 \<le> k" "k < block_count (dims c) (tile c)" "0 \<le> k'" "k' < block_count (dims c) (tile c)"
    "ix \<in> set (region_items (walk c k))" "ix \<in> set (region_items (walk c k'))" for k k' ix
    using covers_once [OF assms region(3) [OF assms that(1,2,5)]] region(2) [OF assms] that by blast
  have "inj_on (\<lambda>k. region_items (walk c k)) {k. 0 \<le> k \<and> k < block_count (dims c) (tile c)}"
  proof (rule inj_onI)
    fix a b assume a: "a \<in> {k. 0 \<le> k \<and> k < block_count (dims c) (tile c)}" and b: "b \<in> {k. 0 \<le> k \<and> k < block_count (dims c) (tile c)}"
      and e: "region_items (walk c a) = region_items (walk c b)"
    have "fst (walk c a) \<in> set (region_items (walk c a))"
    proof -
      have "0 < snd (walk c a) ! j" if "j < length (tile c)" for j
        using inside [OF assms, of a] a that by simp
      then show ?thesis
        using region(2) [OF assms, of a] a walk_block [OF assms, of a] good [OF assms]
        by (auto simp: in_region_def block_count_def good_blocks_def)
    qed
    then show "a = b" using one [of a b "fst (walk c a)"] a b e by auto
  qed
  then have i: "distinct (map (\<lambda>k. region_items (walk c k)) (below (block_count (dims c) (tile c))))"
    by (auto simp: distinct_map inj_on_def)
  have "set xs \<inter> set ys = {}" if "xs \<in> set (map (\<lambda>k. region_items (walk c k)) (below (block_count (dims c) (tile c))))"
    "ys \<in> set (map (\<lambda>k. region_items (walk c k)) (below (block_count (dims c) (tile c))))" "xs \<noteq> ys" for xs ys
    using that one unfolding set_map image_iff Bex_def in_below by blast
  then show d: "distinct (walk_items (walk c) (block_count (dims c) (tile c)))"
    unfolding walk_items_def using region(1) [OF assms] by (intro distinct_concat [OF i]) auto
  show s: "set (walk_items (walk c) (block_count (dims c) (tile c))) = {ix. in_box (dims c) ix}"
  proof (rule set_eqI)
    fix x
    have "x \<in> set (walk_items (walk c) (block_count (dims c) (tile c))) \<longleftrightarrow> (\<exists>k. (0 \<le> k \<and> k < block_count (dims c) (tile c)) \<and> x \<in> set (region_items (walk c k)))"
      by (simp add: walk_items_def Bex_def)
    then show "x \<in> set (walk_items (walk c) (block_count (dims c) (tile c))) \<longleftrightarrow> x \<in> {ix. in_box (dims c) ix}"
      using region(2,3) [OF assms] covers_once [OF assms, of x] by blast
  qed
  show "int (length (walk_items (walk c) (block_count (dims c) (tile c)))) = prod_list (dims c)"
    using distinct_card [OF d] card_box [of "dims c"] good [OF assms] s
    by (simp add: good_shape_def good_blocks_def)
qed

end

end
