(* ===== verification/Iterators.thy ===== *)
theory Iterators
  imports Container Tiling
begin

text \<open>
  The block iterators of \<^verbatim>\<open>src/iarray_iterator.c\<close>: over the block pairs of a matrix product, and over
  the blocks of an array for reading and for writing. Each is a record with the counters of the C structure and a step function; the call that moves the data
  is an argument. The values the user sees through \<open>itr->val\<close> are the fields of the record
  after the step.
\<close>

section \<open>Matrix product\<close>

record matmul_iter =
  mm_B0 :: int
  mm_B1 :: int
  mm_B2 :: int
  mm_M :: int
  mm_N :: int
  mm_K :: int
  mm_cont :: int
  mm_nchunk1 :: int
  mm_nchunk2 :: int
  mm_cat_ndim2 :: nat
  mm_ndim2 :: nat

text \<open>\<open>_iarray_iter_matmul_init\<close>, \<open>_iarray_iter_matmul_next\<close>, \<open>_iarray_iter_matmul_finished\<close>.\<close>

definition iter_matmul_init :: "matmul_iter \<Rightarrow> matmul_iter" where
  "iter_matmul_init itr = itr\<lparr>mm_cont := 0, mm_nchunk1 := 0, mm_nchunk2 := 0\<rparr>"

definition iter_matmul_next :: "matmul_iter \<Rightarrow> matmul_iter" where
  "iter_matmul_next itr =
     (let B0 = mm_B0 itr; B1 = mm_B1 itr; B2 = mm_B2 itr; M = mm_M itr; N = mm_N itr; K = mm_K itr;
          cont = mm_cont itr + 1
      in if mm_cat_ndim2 itr = 1
         then let m = cmod (cdiv cont (cdiv K B1)) (cdiv M B0); k = cmod cont (cdiv K B1)
              in itr\<lparr>mm_cont := cont, mm_nchunk1 := m * cdiv K B1 + k, mm_nchunk2 := k\<rparr>
         else let m = cmod (cdiv cont (cdiv K B1 * cdiv N B2)) (cdiv M B0);
                  k = cmod cont (cdiv K B1);
                  n = cmod (cdiv cont (cdiv K B1)) (cdiv N B2)
              in itr\<lparr>mm_cont := cont, mm_nchunk1 := m * cdiv K B1 + k,
                   mm_nchunk2 := k * cdiv N B2 + n\<rparr>)"

definition iter_matmul_finished :: "matmul_iter \<Rightarrow> bool" where
  "iter_matmul_finished itr =
     (if mm_ndim2 itr = 1
      then mm_cont itr \<ge> cdiv (mm_M itr) (mm_B0 itr) * cdiv (mm_K itr) (mm_B1 itr)
      else mm_cont itr \<ge> cdiv (mm_M itr) (mm_B0 itr) * cdiv (mm_N itr) (mm_B2 itr)
             * cdiv (mm_K itr) (mm_B1 itr))"

text \<open>
  \<open>_iarray_iter_matmul_new\<close>; the second container has \<open>cat2\<close> dimensions in its caterva array and \<open>nd2\<close> in its
  \<open>dtshape\<close>, which \<open>next\<close> and \<open>finished\<close> look at, respectively. The fields the C code leaves uninitialised (the counters, and \<open>N\<close>
  for a vector) are arguments.
\<close>

definition round_up :: "int \<Rightarrow> int \<Rightarrow> int" where
  "round_up n b = (if cmod n b = 0 then n else (cdiv n b + 1) * b)"

definition iter_matmul_new ::
    "int list \<Rightarrow> int list \<Rightarrow> nat \<Rightarrow> nat \<Rightarrow> nat \<Rightarrow> int list \<Rightarrow> int list \<Rightarrow> int \<times> int \<times> int \<times> int \<Rightarrow>
     matmul_iter res" where
  "iter_matmul_new shape1 shape2 nd1 nd2 cat2 ishape_a ishape_b garbage =
     (if list_ex (\<lambda>i. shape1 ! i < ishape_a ! i) [0..<nd1] then Inl IARRAY_ERR_INVALID_ITERSHAPE
      else if list_ex (\<lambda>i. shape2 ! i < ishape_b ! i) [0..<nd2] then Inl IARRAY_ERR_INVALID_ITERSHAPE
      else let (g1, g2, g3, g4) = garbage in
        Inr \<lparr> mm_B0 = ishape_a ! 0, mm_B1 = ishape_a ! 1, mm_B2 = ishape_b ! 1,
          mm_M = round_up (shape1 ! 0) (ishape_a ! 0),
          mm_N = (if nd2 = 2 then round_up (shape2 ! 1) (ishape_b ! 1) else g1),
          mm_K = round_up (shape1 ! 1) (ishape_a ! 1),
          mm_cont = g2, mm_nchunk1 = g3, mm_nchunk2 = g4, mm_cat_ndim2 = cat2, mm_ndim2 = nd2 \<rparr>)"

text \<open>The loop \<open>for (init; !finished; next)\<close> with the chunk numbers of the two operands it meets.\<close>

fun matmul_pairs :: "nat \<Rightarrow> matmul_iter \<Rightarrow> (int \<times> int) list option" where
  "matmul_pairs 0 itr = None"
| "matmul_pairs (Suc fuel) itr =
     (if iter_matmul_finished itr then Some []
      else map_option (\<lambda>ps. (mm_nchunk1 itr, mm_nchunk2 itr) # ps) (matmul_pairs fuel (iter_matmul_next itr)))"

section \<open>Blocks for reading\<close>

record read_block_iter =
  rb_total_blocks :: int
  rb_aux :: "int list"
  rb_block_shape :: "int list"
  rb_block_shape_size :: int
  rb_cur_block_shape :: "int list"
  rb_cur_block_size :: int
  rb_cur_block_index :: "int list"
  rb_cur_elem_index :: "int list"
  rb_nblock :: int
  rb_external_buffer :: bool
  rb_padding :: bool

definition iarray_iter_read_block_new ::
    "'d container \<Rightarrow> int list option \<Rightarrow> bool \<Rightarrow> read_block_iter res" where
  "iarray_iter_read_block_new c iter_blockshape external_buffer =
     (case iter_blockshape of
        None \<Rightarrow> Inl IARRAY_ERR_INVALID_ITERSHAPE
      | Some bsh \<Rightarrow>
        let nd = ndim (dtshape c); sh = shape (dtshape c);
            bs = set_prefix nd (\<lambda>i. bsh ! i) fresh_slots
        in Inr \<lparr> rb_total_blocks = fold (\<lambda>i t. if cmod (sh ! i) (bs ! i) = 0
                     then t * cdiv (sh ! i) (bs ! i) else t * (cdiv (sh ! i) (bs ! i) + 1)) [0..<nd] 1,
            rb_aux = set_prefix nd (\<lambda>i. if cmod (sh ! i) (bs ! i) = 0
                     then cdiv (sh ! i) (bs ! i) else cdiv (sh ! i) (bs ! i) + 1) fresh_slots,
            rb_block_shape = bs,
            rb_block_shape_size = fold (\<lambda>i t. t * bs ! i) [0..<nd] 1,
            rb_cur_block_shape = fresh_slots, rb_cur_block_size = 0,
            rb_cur_block_index = replicate 8 0, rb_cur_elem_index = replicate 8 0,
            rb_nblock = 0, rb_external_buffer = external_buffer, rb_padding = False \<rparr>)"

text \<open>
  \<open>reader start stop shape buflen\<close> is the slice reader; with \<open>padding\<close> the buffer has the full block
  shape instead of the cropped one. \<open>overhead\<close> is \<open>BLOSC2_MAX_OVERHEAD\<close>.
\<close>

definition iarray_iter_read_block_next ::
    "(int list \<Rightarrow> int list \<Rightarrow> int list \<Rightarrow> int \<Rightarrow> 'b res) \<Rightarrow> int \<Rightarrow> 'd container \<Rightarrow> int \<Rightarrow> read_block_iter \<Rightarrow>
     (read_block_iter \<times> 'b) res" where
  "iarray_iter_read_block_next reader overhead c bufsize itr =
     (let typesize = c_itemsize (catarr c); nd = ndim (dtshape c); sh = shape (dtshape c);
          bs = rb_block_shape itr
      in if rb_external_buffer itr \<and> bufsize < rb_block_shape_size itr * typesize + overhead
         then Inl IARRAY_ERR_TOO_SMALL_BUFFER
         else
           let idx = mixed_radix nd (rb_aux itr) (rb_nblock itr) (rb_cur_block_index itr);
               start = set_prefix nd (\<lambda>i. idx ! i * bs ! i) fresh_slots;
               elem = set_prefix nd (\<lambda>i. start ! i) (rb_cur_elem_index itr);
               stop = set_prefix nd (\<lambda>i. if start ! i + bs ! i \<le> sh ! i then start ! i + bs ! i
                                         else sh ! i) fresh_slots;
               cshape = set_prefix nd (\<lambda>i. stop ! i - start ! i) (rb_cur_block_shape itr);
               csize = fold (\<lambda>i t. t * cshape ! i) (rev [0..<nd]) 1;
               actual = fold (\<lambda>i t. t * bs ! i) (rev [0..<nd]) 1;
               itr' = itr\<lparr>rb_cur_block_index := idx, rb_cur_elem_index := elem,
                        rb_cur_block_shape := cshape, rb_cur_block_size := csize\<rparr>
           in res_bind (if \<not> rb_padding itr then reader start stop cshape (actual * typesize)
                        else reader start stop bs (rb_block_shape_size itr * typesize)) (\<lambda>buf.
                Inr (itr'\<lparr>rb_nblock := rb_nblock itr + 1\<rparr>, buf)))"

definition iarray_iter_read_block_has_next :: "read_block_iter \<Rightarrow> unit res" where
  "iarray_iter_read_block_has_next itr =
     (if rb_nblock itr < rb_total_blocks itr then Inr () else Inl IARRAY_ERR_END_ITER)"

section \<open>Blocks for writing\<close>

record write_block_iter =
  wb_total_blocks :: int
  wb_block_shape :: "int list"
  wb_block_shape_size :: int
  wb_cur_block_shape :: "int list"
  wb_cur_block_size :: int
  wb_cur_block_index :: "int list"
  wb_cur_elem_index :: "int list"
  wb_cont_eshape :: "int list"
  wb_cont_esize :: int
  wb_nblock :: int
  wb_compressed_chunk_buffer :: bool
  wb_external_buffer :: bool

text \<open>The index update that \<open>new\<close> and \<open>next\<close> share, last dimension first.\<close>

definition wb_decode :: "nat \<Rightarrow> int list \<Rightarrow> int list \<Rightarrow> int \<Rightarrow> int list \<Rightarrow> int list" where
  "wb_decode nd eshape bs nblock index =
     (let index = index[nd - 1 := cmod nblock (cdiv (eshape ! (nd - 1)) (bs ! (nd - 1)))];
          inc = cdiv (eshape ! (nd - 1)) (bs ! (nd - 1))
      in fst (fold (\<lambda>i (ix, inc).
                (ix[i := cdiv (cmod nblock (cdiv (inc * eshape ! i) (bs ! i))) inc],
                 inc * cdiv (eshape ! i) (bs ! i)))
              (rev [0..<nd - 1]) (index, inc)))"

definition wb_update :: "'d container \<Rightarrow> nat \<Rightarrow> write_block_iter \<Rightarrow> write_block_iter" where
  "wb_update c nd itr =
     (let bs = wb_block_shape itr; es = wb_cont_eshape itr; sh = c_shape (catarr c);
          idx = wb_decode nd es bs (wb_nblock itr) (wb_cur_block_index itr);
          elem = set_prefix nd (\<lambda>i. idx ! i * bs ! i) (wb_cur_elem_index itr);
          cshape = set_prefix nd (\<lambda>i. if (idx ! i + 1) * bs ! i > sh ! i
                      then sh ! i - es ! i + bs ! i else bs ! i) (wb_cur_block_shape itr);
          csize = fold (\<lambda>i t. t * cshape ! i) [0..<nd] 1
      in itr\<lparr>wb_cur_block_index := idx, wb_cur_elem_index := elem,
             wb_cur_block_shape := cshape, wb_cur_block_size := csize\<rparr>)"

definition iarray_iter_write_block_new ::
    "'d container \<Rightarrow> int list option \<Rightarrow> bool \<Rightarrow> write_block_iter res" where
  "iarray_iter_write_block_new c iter_blockshape external_buffer =
     (if container_viewed c \<noteq> None then Inl IARRAY_ERR_INVALID_STORAGE
      else case iter_blockshape of
        None \<Rightarrow> Inl IARRAY_ERR_INVALID_ITERSHAPE
      | Some bsh \<Rightarrow>
        let nd = ndim (dtshape c); ext = c_extshape (catarr c) in
        if list_ex (\<lambda>i. bsh ! i \<noteq> chunkshape (storage c) ! i) [0..<nd] then Inl IARRAY_ERR_INVALID_ITERSHAPE
        else
          let bs = set_prefix nd (\<lambda>i. bsh ! i) fresh_slots;
              es = set_prefix nd (\<lambda>i. if cmod (ext ! i) (bsh ! i) = 0
                     then cdiv (ext ! i) (bsh ! i) * bsh ! i
                     else (cdiv (ext ! i) (bsh ! i) + 1) * bsh ! i) fresh_slots;
              esize = fold (\<lambda>i t. t * es ! i) [0..<nd] 1;
              bsize = fold (\<lambda>i t. t * bs ! i) [0..<nd] 1
          in Inr (wb_update c nd
               \<lparr> wb_total_blocks = cdiv esize bsize, wb_block_shape = bs, wb_block_shape_size = bsize,
                 wb_cur_block_shape = bs, wb_cur_block_size = bsize,
                 wb_cur_block_index = replicate 8 0, wb_cur_elem_index = fresh_slots,
                 wb_cont_eshape = es, wb_cont_esize = esize, wb_nblock = 0,
                 wb_compressed_chunk_buffer = False, wb_external_buffer = external_buffer \<rparr>))"

text \<open>
  Writing back the current block: as a compressed chunk (\<open>update_chunk\<close>) or as a slice of the array
  (\<open>set_slice start stop shape\<close>). The array's content is the state \<open>'s\<close> of these calls.
\<close>

definition wb_flush ::
    "(int \<Rightarrow> 's \<Rightarrow> 's res) \<Rightarrow> (int list \<Rightarrow> int list \<Rightarrow> int list \<Rightarrow> 's \<Rightarrow> 's res) \<Rightarrow> 'd container \<Rightarrow>
     write_block_iter \<Rightarrow> 's \<Rightarrow> 's res" where
  "wb_flush update_chunk set_slice c itr s =
     (if wb_compressed_chunk_buffer itr then update_chunk (wb_nblock itr - 1) s
      else
        let nd = ndim (dtshape c);
            start = set_prefix nd (\<lambda>i. wb_cur_block_index itr ! i * c_chunkshape (catarr c) ! i) fresh_slots;
            stop = set_prefix nd (\<lambda>i. start ! i + wb_cur_block_shape itr ! i) fresh_slots
        in set_slice start stop (wb_cur_block_shape itr) s)"

definition iarray_iter_write_block_next ::
    "(int \<Rightarrow> 's \<Rightarrow> 's res) \<Rightarrow> (int list \<Rightarrow> int list \<Rightarrow> int list \<Rightarrow> 's \<Rightarrow> 's res) \<Rightarrow> int \<Rightarrow> 'd container \<Rightarrow> int \<Rightarrow>
     write_block_iter \<times> 's \<Rightarrow> (write_block_iter \<times> 's) res" where
  "iarray_iter_write_block_next update_chunk set_slice overhead c bufsize = (\<lambda>(itr, s).
     res_bind (if wb_nblock itr \<noteq> 0 then wb_flush update_chunk set_slice c itr s else Inr s) (\<lambda>s.
     if wb_external_buffer itr \<and> bufsize < wb_block_shape_size itr * c_itemsize (catarr c) + overhead
     then Inl IARRAY_ERR_TOO_SMALL_BUFFER
     else
       let itr = wb_update c (c_ndim (catarr c)) itr
       in Inr (itr\<lparr>wb_nblock := wb_nblock itr + 1\<rparr>, s)))"

definition iarray_iter_write_block_has_next ::
    "(int \<Rightarrow> 's \<Rightarrow> 's res) \<Rightarrow> (int list \<Rightarrow> int list \<Rightarrow> int list \<Rightarrow> 's \<Rightarrow> 's res) \<Rightarrow> 'd container \<Rightarrow>
     write_block_iter \<times> 's \<Rightarrow> ('s \<times> unit res) res" where
  "iarray_iter_write_block_has_next update_chunk set_slice c = (\<lambda>(itr, s).
     res_bind (if wb_nblock itr = cdiv (wb_cont_esize itr) (wb_block_shape_size itr)
               then wb_flush update_chunk set_slice c itr s else Inr s) (\<lambda>s.
     Inr (s, if wb_nblock itr < wb_total_blocks itr then Inr () else Inl IARRAY_ERR_END_ITER)))"

section \<open>Facts the block iterators share\<close>

lemma length_fresh_slots [simp]: "length fresh_slots = 8"
  by (simp add: fresh_slots_def IARRAY_DIMENSION_MAX_def)

lemma take_set_prefix: "n \<le> length xs \<Longrightarrow> take n (set_prefix n f xs) = map f [0..<n]"
  by (simp add: set_prefix_eq)

lemma block_counts:
  assumes "nd \<le> length sh" "nd \<le> length bs"
  shows "set_prefix nd (\<lambda>i. if cmod (sh ! i) (bs ! i) = 0 then cdiv (sh ! i) (bs ! i)
      else cdiv (sh ! i) (bs ! i) + 1) xs = set_prefix nd (\<lambda>i. blocks_of (take nd sh) (take nd bs) ! i) xs"
  unfolding set_prefix_def
  by (rule fold_cong) (use assms in \<open>simp_all add: blocks_of_nth ceil_blocks_def\<close>)

lemma fold_count:
  assumes "\<And>i. i < n \<Longrightarrow> f i = xs ! i" "length xs = n"
  shows "fold (\<lambda>i t. t * f i) [0..<n] 1 = (prod_list xs :: int)"
proof -
  have "map f [0..<n] = xs" using assms by (intro nth_equalityI) simp_all
  then show ?thesis by (simp add: fold_mult_map)
qed

lemma fold_count_rev:
  assumes "\<And>i. i < n \<Longrightarrow> f i = xs ! i" "length xs = n"
  shows "fold (\<lambda>i t. t * f i) (rev [0..<n]) 1 = (prod_list xs :: int)"
proof -
  have "map f [0..<n] = xs" using assms by (intro nth_equalityI) simp_all
  then show ?thesis by (simp add: fold_mult_map flip: rev_map)
qed

text \<open>Start and cropped shape of block \<open>k\<close>, the way the iterators compute them.\<close>

lemma crop:
  assumes g: "good_blocks (take nd sh) (take nd bs)" and n: "nd \<le> length sh" "nd \<le> length bs"
    and idx: "take nd idx = unflat (blocks_of (take nd sh) (take nd bs)) k"
  shows "map (\<lambda>i. idx ! i * bs ! i) [0..<nd] = block_start (take nd sh) (take nd bs) k"
    "map (\<lambda>i. (if idx ! i * bs ! i + bs ! i \<le> sh ! i then idx ! i * bs ! i + bs ! i else sh ! i)
       - idx ! i * bs ! i) [0..<nd] = block_extent (take nd sh) (take nd bs) k"
proof -
  have i: "idx ! i = unflat (blocks_of (take nd sh) (take nd bs)) k ! i" if "i < nd" for i
    using that by (simp flip: idx)
  have l: "length (take nd sh) = length (take nd bs)" using n by simp
  show "map (\<lambda>i. idx ! i * bs ! i) [0..<nd] = block_start (take nd sh) (take nd bs) k"
    by (rule nth_equalityI) (use n in \<open>simp_all add: block_start_nth [OF l] i\<close>)
  show "map (\<lambda>i. (if idx ! i * bs ! i + bs ! i \<le> sh ! i then idx ! i * bs ! i + bs ! i else sh ! i)
       - idx ! i * bs ! i) [0..<nd] = block_extent (take nd sh) (take nd bs) k"
    by (rule nth_equalityI)
      (use n in \<open>auto simp: block_extent_nth [OF l] block_start_nth [OF l] i min_def\<close>)
qed

section \<open>The block iterator for reading\<close>

definition rb_source :: "'d container \<times> int list \<Rightarrow> bool" where
  "rb_source = (\<lambda>(c, bsh). ndim (dtshape c) \<le> 8 \<and> ndim (dtshape c) \<le> length (shape (dtshape c)) \<and>
     ndim (dtshape c) \<le> length bsh \<and>
     good_blocks (take (ndim (dtshape c)) (shape (dtshape c))) (take (ndim (dtshape c)) bsh))"

definition rb_dims :: "'d container \<times> int list \<Rightarrow> int list" where
  "rb_dims = (\<lambda>(c, bsh). take (ndim (dtshape c)) (shape (dtshape c)))"

definition rb_tile :: "'d container \<times> int list \<Rightarrow> int list" where
  "rb_tile = (\<lambda>(c, bsh). take (ndim (dtshape c)) bsh)"

definition rb_ready :: "'d container \<times> int list \<Rightarrow> read_block_iter \<Rightarrow> bool" where
  "rb_ready cb it \<longleftrightarrow>
     take (ndim (dtshape (fst cb))) (rb_aux it) = blocks_of (rb_dims cb) (rb_tile cb) \<and>
     take (ndim (dtshape (fst cb))) (rb_block_shape it) = rb_tile cb \<and>
     length (rb_aux it) = 8 \<and> length (rb_block_shape it) = 8 \<and>
     rb_block_shape_size it = prod_list (rb_tile cb) \<and>
     rb_total_blocks it = prod_list (blocks_of (rb_dims cb) (rb_tile cb)) \<and>
     length (rb_cur_block_index it) = 8 \<and> length (rb_cur_elem_index it) = 8 \<and>
     length (rb_cur_block_shape it) = 8"

lemma read_block_new:
  assumes "rb_source (c, bsh)" "iarray_iter_read_block_new c (Some bsh) ext = Inr it"
  shows "rb_ready (c, bsh) it" "rb_nblock it = 0" "rb_external_buffer it = ext" "rb_padding it = False"
proof -
  let ?nd = "ndim (dtshape c)"
  have n: "?nd \<le> 8" "?nd \<le> length (shape (dtshape c))" "?nd \<le> length bsh"
    using assms(1) by (simp_all add: rb_source_def)
  have bs: "take ?nd (set_prefix ?nd (\<lambda>i. bsh ! i) fresh_slots) = take ?nd bsh"
    using n by (simp add: take_set_prefix map_nth_take)
  note c = block_counts [OF n(2), of "set_prefix ?nd (\<lambda>i. bsh ! i) fresh_slots" fresh_slots, simplified bs]
  have tot: "fold (\<lambda>i t. if cmod (shape (dtshape c) ! i) (set_prefix ?nd ((!) bsh) fresh_slots ! i) = 0
        then t * cdiv (shape (dtshape c) ! i) (set_prefix ?nd ((!) bsh) fresh_slots ! i)
        else t * (cdiv (shape (dtshape c) ! i) (set_prefix ?nd ((!) bsh) fresh_slots ! i) + 1)) [0..<?nd] 1
      = prod_list (blocks_of (take ?nd (shape (dtshape c))) (take ?nd bsh))" (is "fold ?f _ _ = _")
  proof -
    have "fold ?f [0..<?nd] 1
      = fold (\<lambda>i t. t * blocks_of (take ?nd (shape (dtshape c))) (take ?nd bsh) ! i) [0..<?nd] 1"
      by (rule fold_cong) (use n in \<open>auto simp: set_prefix_nth blocks_of_nth ceil_blocks_def\<close>)
    then show ?thesis using n by (simp add: fold_count)
  qed
  have sz: "fold (\<lambda>i t. t * set_prefix ?nd ((!) bsh) fresh_slots ! i) [0..<?nd] 1 = prod_list (take ?nd bsh)"
    using n by (intro fold_count) (simp_all add: set_prefix_nth)
  show "rb_ready (c, bsh) it" "rb_nblock it = 0" "rb_external_buffer it = ext" "rb_padding it = False"
    using assms(2) n c tot sz bs
    by (auto simp: iarray_iter_read_block_new_def Let_def rb_ready_def rb_dims_def rb_tile_def
        take_set_prefix map_nth_take length_blocks_of)
qed

text \<open>What one call asks the slice reader for, and the region it leaves in the iterator.\<close>

lemma fold_take_prod: "nd \<le> length xs \<Longrightarrow> fold (\<lambda>i t. t * xs ! i) (rev [0..<nd]) 1 = (prod_list (take nd xs) :: int)"
  by (rule fold_count_rev) simp_all

lemma read_block_next:
  assumes src: "rb_source cb" and rdy: "rb_ready cb it"
    and k: "0 \<le> rb_nblock it" "rb_nblock it < rb_total_blocks it"
    and buf: "rb_external_buffer it \<Longrightarrow> rb_block_shape_size it * c_itemsize (catarr (fst cb)) + overhead \<le> bufsize"
    and rd: "\<And>s e shp len. reader s e shp len =
      Inr (rd (take (ndim (dtshape (fst cb))) s) (take (ndim (dtshape (fst cb))) e))"
  obtains it' where "iarray_iter_read_block_next reader overhead (fst cb) bufsize it =
      Inr (it', rd (block_start (rb_dims cb) (rb_tile cb) (rb_nblock it))
        (map2 (+) (block_start (rb_dims cb) (rb_tile cb) (rb_nblock it))
          (block_extent (rb_dims cb) (rb_tile cb) (rb_nblock it))))"
    and "rb_ready cb it'" "rb_nblock it' = rb_nblock it + 1"
    and "rb_external_buffer it' = rb_external_buffer it"
    and "take (ndim (dtshape (fst cb))) (rb_cur_elem_index it') = block_start (rb_dims cb) (rb_tile cb) (rb_nblock it)"
    and "take (ndim (dtshape (fst cb))) (rb_cur_block_shape it') = block_extent (rb_dims cb) (rb_tile cb) (rb_nblock it)"
    and "rb_cur_block_size it' = prod_list (block_extent (rb_dims cb) (rb_tile cb) (rb_nblock it))"
proof -
  obtain c bsh where cb: "cb = (c, bsh)" by (cases cb)
  let ?nd = "ndim (dtshape c)" and ?sh = "shape (dtshape c)" and ?bs = "rb_block_shape it"
  let ?k = "rb_nblock it"
  let ?S = "block_start (rb_dims cb) (rb_tile cb) ?k" and ?E = "block_extent (rb_dims cb) (rb_tile cb) ?k"
  have n: "?nd \<le> 8" "?nd \<le> length ?sh" "?nd \<le> length bsh"
    and g: "good_blocks (take ?nd ?sh) (take ?nd bsh)" using src by (simp_all add: cb rb_source_def)
  have t: "take ?nd ?bs = take ?nd bsh" "length ?bs = 8" "take ?nd (rb_aux it) = blocks_of (take ?nd ?sh) (take ?nd bsh)"
    "length (rb_aux it) = 8" and l8: "length (rb_cur_block_index it) = 8" "length (rb_cur_elem_index it) = 8"
    "length (rb_cur_block_shape it) = 8"
    and tot: "rb_total_blocks it = prod_list (blocks_of (take ?nd ?sh) (take ?nd bsh))"
    using rdy by (simp_all add: rb_ready_def rb_tile_def rb_dims_def cb)
  define idx where "idx = mixed_radix ?nd (rb_aux it) ?k (rb_cur_block_index it)"
  have idx: "idx = unflat (blocks_of (take ?nd ?sh) (take ?nd bsh)) ?k @ drop ?nd (rb_cur_block_index it)"
    unfolding idx_def using n t l8 k good_blocks_of [OF g] tot
    by (subst mixed_radix_unflat) (simp_all add: good_shape_def)
  have ti: "take ?nd idx = unflat (blocks_of (take ?nd ?sh) (take ?nd bsh)) ?k" "length idx = 8"
    using n t l8 by (simp_all add: idx)
  have nb: "?nd \<le> length ?bs" using n t by simp
  note cr = crop [OF g [folded t(1)] n(2) nb ti(1) [folded t(1)], unfolded t(1)]
  define start where "start = set_prefix ?nd (\<lambda>i. idx ! i * ?bs ! i) fresh_slots"
  define stop where "stop = set_prefix ?nd (\<lambda>i. if start ! i + ?bs ! i \<le> ?sh ! i then start ! i + ?bs ! i
      else ?sh ! i) fresh_slots"
  define csh where "csh = set_prefix ?nd (\<lambda>i. stop ! i - start ! i) (rb_cur_block_shape it)"
  have S: "take ?nd start = ?S"
    unfolding start_def using n cr(1) by (simp add: take_set_prefix rb_dims_def rb_tile_def cb)
  have si: "start ! i = idx ! i * ?bs ! i" if "i < ?nd" for i
    using that n by (simp add: start_def set_prefix_nth)
  have E: "take ?nd csh = ?E"
  proof -
    have "take ?nd csh = map (\<lambda>i. (if idx ! i * ?bs ! i + ?bs ! i \<le> ?sh ! i then idx ! i * ?bs ! i + ?bs ! i
        else ?sh ! i) - idx ! i * ?bs ! i) [0..<?nd]"
      unfolding csh_def using n l8 si by (simp add: take_set_prefix stop_def set_prefix_nth)
    then show ?thesis using cr(2) by (simp add: rb_dims_def rb_tile_def cb)
  qed
  have P: "take ?nd stop = map2 (+) ?S ?E"
  proof (rule nth_equalityI)
    have l: "length stop = 8" "length csh = 8" "length start = 8"
      using l8 by (simp_all add: stop_def csh_def start_def)
    then show "length (take ?nd stop) = length (map2 (+) ?S ?E)"
      using arg_cong [OF S, of length] arg_cong [OF E, of length] n by simp
    fix i assume "i < length (take ?nd stop)"
    then have i: "i < ?nd" by simp
    have "csh ! i = stop ! i - start ! i" using i n l8 by (simp add: csh_def set_prefix_nth)
    moreover have "?S ! i = start ! i" "?E ! i = csh ! i" using i by (simp_all flip: S E)
    moreover have "i < length ?S" "i < length ?E" using i n l by (simp_all flip: S E)
    ultimately show "take ?nd stop ! i = map2 (+) ?S ?E ! i" using i by simp
  qed
  have lc: "length csh = 8" using l8 by (simp add: csh_def)
  have sz: "fold (\<lambda>i t. t * csh ! i) (rev [0..<?nd]) 1 = prod_list ?E"
    using n lc by (simp add: fold_take_prod E)
  define it1 where "it1 = it\<lparr>rb_cur_block_index := idx,
      rb_cur_elem_index := set_prefix ?nd (\<lambda>i. start ! i) (rb_cur_elem_index it),
      rb_cur_block_shape := csh, rb_cur_block_size := prod_list ?E, rb_nblock := ?k + 1\<rparr>"
  have el: "take ?nd (set_prefix ?nd (\<lambda>i. start ! i) (rb_cur_elem_index it)) = ?S"
    using n l8 S by (simp add: take_set_prefix map_nth_take start_def)
  show ?thesis
  proof (rule that [of it1])
    show "iarray_iter_read_block_next reader overhead (fst cb) bufsize it = Inr (it1, rd ?S (map2 (+) ?S ?E))"
      using buf
      by (simp add: iarray_iter_read_block_next_def Let_def cb rd [unfolded cb fst_conv] it1_def sz
          S P not_less cong: if_cong flip: idx_def start_def stop_def csh_def)
    show "rb_ready cb it1"
      using rdy lc ti l8 by (simp add: it1_def rb_ready_def)
  qed (use el E in \<open>simp_all add: it1_def cb\<close>)
qed

text \<open>The region of block \<open>k\<close>, as one call of \<open>next\<close> computes it.\<close>

definition rb_walk :: "'d container \<times> int list \<Rightarrow> int \<Rightarrow> int list \<times> int list" where
  "rb_walk cb k =
     (case iarray_iter_read_block_new (fst cb) (Some (snd cb)) False of
        Inl _ \<Rightarrow> ([], [])
      | Inr it \<Rightarrow>
        (case iarray_iter_read_block_next (\<lambda>_ _ _ _. Inr ()) 0 (fst cb) 0 (it\<lparr>rb_nblock := k\<rparr>) of
           Inl _ \<Rightarrow> ([], [])
         | Inr (it, _) \<Rightarrow> (take (ndim (dtshape (fst cb))) (rb_cur_elem_index it),
                          take (ndim (dtshape (fst cb))) (rb_cur_block_shape it))))"

lemma rb_ready_nblock: "rb_ready cb (it\<lparr>rb_nblock := k\<rparr>) = rb_ready cb it"
  by (simp add: rb_ready_def)

lemma rb_good: "rb_source cb \<Longrightarrow> good_blocks (rb_dims cb) (rb_tile cb)"
  by (auto simp: rb_source_def rb_dims_def rb_tile_def split: prod.splits)

lemma rb_walk_region:
  assumes "rb_source cb" "0 \<le> k" "k < prod_list (blocks_of (rb_dims cb) (rb_tile cb))"
  shows "rb_walk cb k = (block_start (rb_dims cb) (rb_tile cb) k, block_extent (rb_dims cb) (rb_tile cb) k)"
proof -
  obtain it where it: "iarray_iter_read_block_new (fst cb) (Some (snd cb)) False = Inr it"
    by (simp add: iarray_iter_read_block_new_def Let_def)
  note new = read_block_new [of "fst cb" "snd cb", unfolded prod.collapse, OF assms(1) it]
  have "0 \<le> rb_nblock (it\<lparr>rb_nblock := k\<rparr>)" "rb_nblock (it\<lparr>rb_nblock := k\<rparr>) < rb_total_blocks (it\<lparr>rb_nblock := k\<rparr>)"
    using assms new(1) by (simp_all add: rb_ready_def)
  moreover have "\<not> rb_external_buffer (it\<lparr>rb_nblock := k\<rparr>)" using new(3) by simp
  ultimately obtain it' where "iarray_iter_read_block_next (\<lambda>_ _ _ _. Inr ()) 0 (fst cb) 0 (it\<lparr>rb_nblock := k\<rparr>) = Inr (it', ())"
    "take (ndim (dtshape (fst cb))) (rb_cur_elem_index it') = block_start (rb_dims cb) (rb_tile cb) k"
    "take (ndim (dtshape (fst cb))) (rb_cur_block_shape it') = block_extent (rb_dims cb) (rb_tile cb) k"
    using read_block_next [OF assms(1), of "it\<lparr>rb_nblock := k\<rparr>" 0 0 "\<lambda>_ _ _ _. Inr ()" "\<lambda>_ _. ()"] new(1)
    by (auto simp: rb_ready_nblock)
  then show ?thesis by (simp add: rb_walk_def it)
qed

interpretation rb: block_walk rb_source rb_dims rb_tile rb_walk
  by unfold_locales (simp_all add: rb_good rb_walk_region block_count_def)

text \<open>The loop of a client: \<open>while (has_next(itr)) { next(itr); \<dots> }\<close>, with the blocks it sees.\<close>

fun read_blocks ::
    "(int list \<Rightarrow> int list \<Rightarrow> int list \<Rightarrow> int \<Rightarrow> 'b res) \<Rightarrow> int \<Rightarrow> 'd container \<Rightarrow> int \<Rightarrow> nat \<Rightarrow>
     read_block_iter \<Rightarrow> 'b list res option" where
  "read_blocks reader overhead c bufsize 0 itr = None"
| "read_blocks reader overhead c bufsize (Suc fuel) itr =
     (if succeeds (iarray_iter_read_block_has_next itr)
      then case iarray_iter_read_block_next reader overhead c bufsize itr of
             Inl e \<Rightarrow> Some (Inl e)
           | Inr (itr, b) \<Rightarrow>
             map_option (\<lambda>r. res_bind r (\<lambda>bs. Inr (b # bs))) (read_blocks reader overhead c bufsize fuel itr)
      else Some (Inr []))"

lemma read_blocks_from:
  assumes src: "rb_source cb" and rdy: "rb_ready cb it"
    and k: "rb_nblock it = int i" "i \<le> m" "m = nat (rb_total_blocks it)" "m - i < fuel"
    and buf: "rb_external_buffer it \<Longrightarrow> rb_block_shape_size it * c_itemsize (catarr (fst cb)) + overhead \<le> bufsize"
    and rd: "\<And>s e shp len. reader s e shp len =
      Inr (rd (take (ndim (dtshape (fst cb))) s) (take (ndim (dtshape (fst cb))) e))"
  shows "read_blocks reader overhead (fst cb) bufsize fuel it =
    Some (Inr (map (\<lambda>k. rd (block_start (rb_dims cb) (rb_tile cb) (int k))
      (map2 (+) (block_start (rb_dims cb) (rb_tile cb) (int k)) (block_extent (rb_dims cb) (rb_tile cb) (int k)))) [i..<m]))"
  using k rdy buf
proof (induction fuel arbitrary: it i)
  case (Suc fuel)
  show ?case
  proof (cases "i = m")
    case True
    then show ?thesis using Suc.prems by (simp add: iarray_iter_read_block_has_next_def)
  next
    case False
    then have lt: "0 \<le> rb_nblock it" "rb_nblock it < rb_total_blocks it" "[i..<m] = i # [Suc i..<m]"
      using Suc.prems by (simp_all add: upt_rec)
    obtain it' where it': "iarray_iter_read_block_next reader overhead (fst cb) bufsize it =
      Inr (it', rd (block_start (rb_dims cb) (rb_tile cb) (int i))
        (map2 (+) (block_start (rb_dims cb) (rb_tile cb) (int i)) (block_extent (rb_dims cb) (rb_tile cb) (int i))))"
      "rb_ready cb it'" "rb_nblock it' = int (Suc i)" "rb_external_buffer it' = rb_external_buffer it"
      using read_block_next [where rd = rd and reader = reader, OF src Suc.prems(5) lt(1,2) Suc.prems(6) rd]
        Suc.prems(1) by (auto simp: add.commute)
    have same: "rb_total_blocks it' = rb_total_blocks it" "rb_block_shape_size it' = rb_block_shape_size it"
      using it'(2) Suc.prems(5) by (simp_all add: rb_ready_def)
    show ?thesis
      using Suc.IH [OF it'(3)] Suc.prems False it' same lt
      by (simp add: iarray_iter_read_block_has_next_def)
  qed
qed simp

section \<open>The block iterator for writing\<close>

lemma cdiv_exact: "0 < b \<Longrightarrow> cdiv (x * b) b = x"
  by (simp add: cdiv_def signed_divide_int_def sgn_mult abs_mult sgn_mult_abs)

lemma cdiv_one: "cdiv x 1 = x"
  using cdiv_exact [of 1 x] by simp

lemma wb_decode_radix:
  assumes "0 < nd" "\<And>i. i < nd \<Longrightarrow> 0 < bs ! i \<and> es ! i = aux ! i * bs ! i"
  shows "wb_decode nd es bs k index = mixed_radix nd aux k index"
proof -
  obtain m where m: "nd = Suc m" using assms(1) by (cases nd) auto
  have l: "cdiv (es ! m) (bs ! m) = aux ! m" using assms m by (simp add: cdiv_exact)
  have "fold (\<lambda>i (ix, inc). (ix[i := cdiv (cmod k (cdiv (inc * es ! i) (bs ! i))) inc], inc * cdiv (es ! i) (bs ! i)))
        (rev [0..<m]) st =
      fold (\<lambda>i (ix, inc). (ix[i := cdiv (cmod k (aux ! i * inc)) inc], inc * aux ! i)) (rev [0..<m]) st" for st
  proof (rule fold_cong [OF refl refl])
    fix i assume "i \<in> set (rev [0..<m])"
    then have "0 < bs ! i" "es ! i = aux ! i * bs ! i" using assms(2) [of i] m by simp_all
    then have "cdiv (es ! i) (bs ! i) = aux ! i" "cdiv (inc * es ! i) (bs ! i) = aux ! i * inc" for inc
      using cdiv_exact [of "bs ! i" "aux ! i"] cdiv_exact [of "bs ! i" "aux ! i * inc"]
      by (simp_all add: ac_simps)
    then show "(\<lambda>(ix, inc). (ix[i := cdiv (cmod k (cdiv (inc * es ! i) (bs ! i))) inc],
          inc * cdiv (es ! i) (bs ! i))) =
        (\<lambda>(ix, inc). (ix[i := cdiv (cmod k (aux ! i * inc)) inc], inc * aux ! i))" by simp
  qed
  then show ?thesis
    by (simp add: wb_decode_def mixed_radix_def Let_def m l cdiv_one)
qed

definition wb_source :: "'d container \<Rightarrow> bool" where
  "wb_source c \<longleftrightarrow> (let nd = ndim (dtshape c); sh = c_shape (catarr c); cs = c_chunkshape (catarr c) in
     container_viewed c = None \<and> 0 < nd \<and> nd \<le> 8 \<and> c_ndim (catarr c) = nd \<and>
     nd \<le> length sh \<and> nd \<le> length cs \<and> nd \<le> length (c_extshape (catarr c)) \<and>
     nd \<le> length (chunkshape (storage c)) \<and> take nd (chunkshape (storage c)) = take nd cs \<and>
     good_blocks (take nd sh) (take nd cs) \<and>
     take nd (c_extshape (catarr c)) = map2 (*) (blocks_of (take nd sh) (take nd cs)) (take nd cs))"

definition wb_dims :: "'d container \<Rightarrow> int list" where
  "wb_dims c = take (ndim (dtshape c)) (c_shape (catarr c))"

definition wb_tile :: "'d container \<Rightarrow> int list" where
  "wb_tile c = take (ndim (dtshape c)) (c_chunkshape (catarr c))"

definition wb_ready :: "'d container \<Rightarrow> write_block_iter \<Rightarrow> bool" where
  "wb_ready c it \<longleftrightarrow>
     take (ndim (dtshape c)) (wb_block_shape it) = wb_tile c \<and> length (wb_block_shape it) = 8 \<and>
     take (ndim (dtshape c)) (wb_cont_eshape it) = map2 (*) (blocks_of (wb_dims c) (wb_tile c)) (wb_tile c) \<and>
     length (wb_cont_eshape it) = 8 \<and>
     wb_block_shape_size it = prod_list (wb_tile c) \<and>
     wb_cont_esize it = block_count (wb_dims c) (wb_tile c) * prod_list (wb_tile c) \<and>
     wb_total_blocks it = block_count (wb_dims c) (wb_tile c) \<and>
     length (wb_cur_block_index it) = 8 \<and> length (wb_cur_elem_index it) = 8 \<and>
     length (wb_cur_block_shape it) = 8"

lemma crop_last:
  fixes i b n e :: int
  assumes "0 \<le> i" "i < ceil_blocks n b" "0 < n" "0 < b" "e = ceil_blocks n b * b"
  shows "(if (i + 1) * b > n then n - e + b else b) = min b (n - i * b)"
proof (cases "(i + 1) * b > n")
  case True
  have "n + b > ceil_blocks n b * b" using ceil_blocks_mult_ge(2) [of n b] assms by simp
  then have "(ceil_blocks n b - 1) * b < (i + 1) * b" using True by (simp add: algebra_simps)
  then have "ceil_blocks n b - 1 < i + 1" using assms by (simp add: mult_less_cancel_right)
  then have "ceil_blocks n b = i + 1" using assms by simp
  then have "e = i * b + b" using assms by (simp add: algebra_simps)
  moreover have "n < i * b + b" using True by (simp add: algebra_simps)
  ultimately show ?thesis using True by (simp add: min_def)
next
  case False
  then show ?thesis by (simp add: algebra_simps)
qed

lemma wb_update_region:
  assumes src: "wb_source c" and rdy: "wb_ready c it"
    and k: "0 \<le> wb_nblock it" "wb_nblock it < wb_total_blocks it"
  shows "wb_ready c (wb_update c (ndim (dtshape c)) it)"
    "wb_nblock (wb_update c (ndim (dtshape c)) it) = wb_nblock it"
    "wb_external_buffer (wb_update c (ndim (dtshape c)) it) = wb_external_buffer it"
    "wb_compressed_chunk_buffer (wb_update c (ndim (dtshape c)) it) = wb_compressed_chunk_buffer it"
    "take (ndim (dtshape c)) (wb_cur_block_index (wb_update c (ndim (dtshape c)) it)) =
       unflat (blocks_of (wb_dims c) (wb_tile c)) (wb_nblock it)"
    "take (ndim (dtshape c)) (wb_cur_elem_index (wb_update c (ndim (dtshape c)) it)) =
       block_start (wb_dims c) (wb_tile c) (wb_nblock it)"
    "take (ndim (dtshape c)) (wb_cur_block_shape (wb_update c (ndim (dtshape c)) it)) =
       block_extent (wb_dims c) (wb_tile c) (wb_nblock it)"
proof -
  let ?nd = "ndim (dtshape c)" and ?sh = "c_shape (catarr c)" and ?cs = "c_chunkshape (catarr c)"
  let ?bs = "wb_block_shape it" and ?es = "wb_cont_eshape it" and ?k = "wb_nblock it"
  let ?aux = "blocks_of (wb_dims c) (wb_tile c)"
  have n: "0 < ?nd" "?nd \<le> 8" "?nd \<le> length ?sh" "?nd \<le> length ?cs"
    and g: "good_blocks (take ?nd ?sh) (take ?nd ?cs)" using src by (simp_all add: wb_source_def Let_def)
  have t: "take ?nd ?bs = take ?nd ?cs" "length ?bs = 8" "take ?nd ?es = map2 (*) ?aux (take ?nd ?cs)" "length ?es = 8"
    and l8: "length (wb_cur_block_index it) = 8" "length (wb_cur_elem_index it) = 8" "length (wb_cur_block_shape it) = 8"
    and tot: "?k < prod_list ?aux"
    using rdy k by (simp_all add: wb_ready_def wb_tile_def wb_dims_def block_count_def)
  have la: "length ?aux = ?nd" using n by (simp add: wb_dims_def wb_tile_def)
  have bi: "?bs ! i = ?cs ! i" if "i < ?nd" for i using arg_cong [OF t(1), of "\<lambda>xs. xs ! i"] that by simp
  have ei: "?es ! i = ?aux ! i * ?cs ! i" if "i < ?nd" for i
    using arg_cong [OF t(3), of "\<lambda>xs. xs ! i"] that la n by simp
  have ai: "?aux ! i = ceil_blocks (?sh ! i) (?cs ! i)" if "i < ?nd" for i
    using that n by (simp add: wb_dims_def wb_tile_def blocks_of_nth)
  have pos: "0 < ?cs ! i" "0 < ?sh ! i" if "i < ?nd" for i
    using g that n by (auto simp: good_blocks_def all_pos_nth)
  define idx where "idx = mixed_radix ?nd ?aux ?k (wb_cur_block_index it)"
  have dec: "wb_decode ?nd ?es ?bs ?k (wb_cur_block_index it) = idx"
    unfolding idx_def by (rule wb_decode_radix) (use n bi ei pos in auto)
  have idx: "idx = unflat ?aux ?k @ drop ?nd (wb_cur_block_index it)"
    unfolding idx_def using n la l8 k tot good_blocks_of [OF g]
    by (subst mixed_radix_unflat) (simp_all add: good_shape_def wb_dims_def wb_tile_def)
  have ti: "take ?nd idx = unflat ?aux ?k" "length idx = 8" using n la l8 by (simp_all add: idx)
  have ii: "idx ! i = unflat ?aux ?k ! i" if "i < ?nd" for i using that la by (simp add: idx nth_append)
  have dig: "0 \<le> unflat ?aux ?k ! i" "unflat ?aux ?k ! i < ceil_blocks (?sh ! i) (?cs ! i)" if "i < ?nd" for i
    using block_digit [OF g k(1), of i] tot that n by (simp_all add: wb_dims_def wb_tile_def)
  have l: "length (wb_dims c) = length (wb_tile c)" "length (wb_tile c) = ?nd"
    using n by (simp_all add: wb_dims_def wb_tile_def)
  have st: "map (\<lambda>i. idx ! i * ?bs ! i) [0..<?nd] = block_start (wb_dims c) (wb_tile c) ?k"
    by (rule nth_equalityI) (use l bi ii in \<open>auto simp: block_start_nth wb_tile_def\<close>)
  have ex: "map (\<lambda>i. if (idx ! i + 1) * ?bs ! i > ?sh ! i then ?sh ! i - ?es ! i + ?bs ! i else ?bs ! i) [0..<?nd] =
      block_extent (wb_dims c) (wb_tile c) ?k"
  proof (rule nth_equalityI)
    fix i assume "i < length (map (\<lambda>i. if (idx ! i + 1) * ?bs ! i > ?sh ! i
      then ?sh ! i - ?es ! i + ?bs ! i else ?bs ! i) [0..<?nd])"
    then have i: "i < ?nd" by simp
    have "block_extent (wb_dims c) (wb_tile c) ?k ! i = min (?cs ! i) (?sh ! i - unflat ?aux ?k ! i * ?cs ! i)"
      using i l by (simp add: block_extent_nth block_start_nth, simp add: wb_dims_def wb_tile_def)
    then show "map (\<lambda>i. if (idx ! i + 1) * ?bs ! i > ?sh ! i then ?sh ! i - ?es ! i + ?bs ! i else ?bs ! i) [0..<?nd] ! i =
      block_extent (wb_dims c) (wb_tile c) ?k ! i"
      using crop_last [OF dig [OF i] pos(2,1) [OF i] refl] i
      by (simp add: bi ii ei ai cong: if_cong split del: if_split)
  qed (use l in simp)
  note up = wb_update_def Let_def dec
  show "wb_nblock (wb_update c ?nd it) = ?k" "wb_external_buffer (wb_update c ?nd it) = wb_external_buffer it"
    "wb_compressed_chunk_buffer (wb_update c ?nd it) = wb_compressed_chunk_buffer it"
    by (simp_all add: up)
  show "wb_ready c (wb_update c ?nd it)" using rdy ti by (simp add: up wb_ready_def)
  show "take ?nd (wb_cur_block_index (wb_update c ?nd it)) = unflat ?aux ?k" using ti by (simp add: up)
  show "take ?nd (wb_cur_elem_index (wb_update c ?nd it)) = block_start (wb_dims c) (wb_tile c) ?k"
    using st n l8 by (simp add: up take_set_prefix)
  show "take ?nd (wb_cur_block_shape (wb_update c ?nd it)) = block_extent (wb_dims c) (wb_tile c) ?k"
    using ex n l8 by (simp add: up take_set_prefix)
qed

lemma block_count_pos: "good_blocks ns bs \<Longrightarrow> 0 < block_count ns bs"
  using good_blocks_of [of ns bs] by (simp add: block_count_def good_shape_def all_pos_prod)

lemma wb_good: "wb_source c \<Longrightarrow> good_blocks (wb_dims c) (wb_tile c)"
  by (simp add: wb_source_def wb_dims_def wb_tile_def Let_def)

lemma prod_list_map2_mult:
  "length xs = length ys \<Longrightarrow> prod_list (map2 (*) xs ys) = prod_list xs * (prod_list ys :: int)"
  by (induction xs ys rule: list_induct2) (simp_all add: ac_simps)

lemma write_block_new:
  assumes src: "wb_source c" and new: "iarray_iter_write_block_new c (Some bsh) ext = Inr it"
  shows "wb_ready c it" "wb_nblock it = 0" "wb_external_buffer it = ext" "wb_compressed_chunk_buffer it = False"
proof -
  let ?nd = "ndim (dtshape c)" and ?sh = "c_shape (catarr c)" and ?cs = "c_chunkshape (catarr c)"
  let ?ext = "c_extshape (catarr c)" and ?aux = "blocks_of (wb_dims c) (wb_tile c)"
  define bs where "bs = set_prefix ?nd (\<lambda>i. bsh ! i) fresh_slots"
  define es where "es = set_prefix ?nd (\<lambda>i. if cmod (?ext ! i) (bsh ! i) = 0
                     then cdiv (?ext ! i) (bsh ! i) * bsh ! i
                     else (cdiv (?ext ! i) (bsh ! i) + 1) * bsh ! i) fresh_slots"
  define esize where "esize = fold (\<lambda>i t. t * es ! i) [0..<?nd] 1"
  define bsize where "bsize = fold (\<lambda>i t. t * bs ! i) [0..<?nd] 1"
  have n: "0 < ?nd" "?nd \<le> 8" "?nd \<le> length ?sh" "?nd \<le> length ?cs" "?nd \<le> length ?ext"
    "?nd \<le> length (chunkshape (storage c))"
    and g: "good_blocks (take ?nd ?sh) (take ?nd ?cs)"
    and st: "take ?nd (chunkshape (storage c)) = take ?nd ?cs"
    and ex: "take ?nd ?ext = map2 (*) ?aux (wb_tile c)"
    and v: "container_viewed c = None"
    using src by (simp_all add: wb_source_def Let_def wb_dims_def wb_tile_def)
  have b: "bsh ! i = ?cs ! i" if "i < ?nd" for i
  proof -
    have "bsh ! i = chunkshape (storage c) ! i"
      using new v that by (auto simp: iarray_iter_write_block_new_def Let_def list_ex_iff split: if_splits)
    also have "\<dots> = ?cs ! i" using arg_cong [OF st, of "\<lambda>xs. xs ! i"] that by simp
    finally show ?thesis .
  qed
  have l: "length (wb_dims c) = length (wb_tile c)" "length (wb_tile c) = ?nd" "length ?aux = ?nd"
    using n by (simp_all add: wb_dims_def wb_tile_def)
  have pos: "0 < ?cs ! i" "0 < ?aux ! i" if "i < ?nd" for i
    using g good_blocks_of [OF g] that n
    by (auto simp: good_blocks_def good_shape_def all_pos_nth wb_dims_def wb_tile_def)
  have e: "?ext ! i = ?aux ! i * ?cs ! i" if "i < ?nd" for i
    using arg_cong [OF ex, of "\<lambda>xs. xs ! i"] that l n by (simp add: wb_tile_def)
  have tb: "take ?nd bs = wb_tile c"
    unfolding bs_def using n b by (intro nth_equalityI) (auto simp: set_prefix_nth wb_tile_def)
  have te: "take ?nd es = map2 (*) ?aux (wb_tile c)"
  proof (rule nth_equalityI)
    fix i assume "i < length (take ?nd es)"
    then have i: "i < ?nd" by simp
    have "es ! i = ?aux ! i * ?cs ! i"
      using pos [OF i] i n by (simp add: es_def set_prefix_nth b e c_arith)
    then show "take ?nd es ! i = map2 (*) ?aux (wb_tile c) ! i" using i l n by (simp add: wb_tile_def)
  qed (use n l in \<open>simp add: es_def\<close>)
  have sz: "bsize = prod_list (wb_tile c)"
    unfolding bsize_def using n by (subst fold_mult_nth) (simp_all add: bs_def tb [unfolded bs_def])
  have ez: "esize = block_count (wb_dims c) (wb_tile c) * prod_list (wb_tile c)"
    unfolding esize_def using n l
    by (subst fold_mult_nth) (simp_all add: te prod_list_map2_mult block_count_def, simp add: es_def)
  have "0 < prod_list (wb_tile c)" using g by (simp add: good_blocks_def wb_tile_def all_pos_prod)
  then have tot: "cdiv esize bsize = block_count (wb_dims c) (wb_tile c)" by (simp add: ez sz cdiv_exact)
  define it0 where "it0 = \<lparr> wb_total_blocks = cdiv esize bsize, wb_block_shape = bs, wb_block_shape_size = bsize,
                 wb_cur_block_shape = bs, wb_cur_block_size = bsize,
                 wb_cur_block_index = replicate 8 0, wb_cur_elem_index = fresh_slots,
                 wb_cont_eshape = es, wb_cont_esize = esize, wb_nblock = 0,
                 wb_compressed_chunk_buffer = False, wb_external_buffer = ext \<rparr>"
  have it: "it = wb_update c ?nd it0"
    using new v by (auto simp: iarray_iter_write_block_new_def Let_def it0_def bs_def es_def esize_def
        bsize_def split: if_splits)
  have rdy: "wb_ready c it0"
    unfolding wb_ready_def using tb te sz ez tot n by (simp add: it0_def bs_def es_def)
  have "0 \<le> wb_nblock it0" "wb_nblock it0 < wb_total_blocks it0"
    using block_count_pos [OF wb_good [OF src]] by (simp_all add: it0_def tot)
  note u = wb_update_region [OF src rdy this]
  show "wb_ready c it" "wb_nblock it = 0" "wb_external_buffer it = ext" "wb_compressed_chunk_buffer it = False"
    using u(1-4) by (simp_all add: it, simp_all add: it0_def)
qed

text \<open>The region of block \<open>k\<close>, as the index update of \<open>next\<close> computes it.\<close>

definition wb_walk :: "'d container \<Rightarrow> int \<Rightarrow> int list \<times> int list" where
  "wb_walk c k =
     (case iarray_iter_write_block_new c (Some (chunkshape (storage c))) False of
        Inl _ \<Rightarrow> ([], [])
      | Inr it \<Rightarrow> let it = wb_update c (ndim (dtshape c)) (it\<lparr>wb_nblock := k\<rparr>) in
          (take (ndim (dtshape c)) (wb_cur_elem_index it), take (ndim (dtshape c)) (wb_cur_block_shape it)))"

lemma wb_walk_region:
  assumes "wb_source c" "0 \<le> k" "k < block_count (wb_dims c) (wb_tile c)"
  shows "wb_walk c k = (block_start (wb_dims c) (wb_tile c) k, block_extent (wb_dims c) (wb_tile c) k)"
proof -
  obtain it where it: "iarray_iter_write_block_new c (Some (chunkshape (storage c))) False = Inr it"
    using assms(1) by (simp add: iarray_iter_write_block_new_def Let_def wb_source_def list_ex_iff)
  have "wb_ready c (it\<lparr>wb_nblock := k\<rparr>)"
    using write_block_new(1) [OF assms(1) it] by (simp add: wb_ready_def)
  then show ?thesis
    using wb_update_region(6,7) [OF assms(1), of "it\<lparr>wb_nblock := k\<rparr>"] assms(2,3)
    by (simp add: wb_walk_def it wb_ready_def)
qed

interpretation wb: block_walk wb_source wb_dims wb_tile wb_walk
  by unfold_locales (simp_all add: wb_good wb_walk_region)

text \<open>
  The loop of a client: after each \<open>next\<close> it fills the current block (\<open>fill\<close>, which may look at the
  iterator but writes only the buffer, a part of the state \<open>'s\<close>).
\<close>

fun write_blocks ::
    "(int \<Rightarrow> 's \<Rightarrow> 's res) \<Rightarrow> (int list \<Rightarrow> int list \<Rightarrow> int list \<Rightarrow> 's \<Rightarrow> 's res) \<Rightarrow> int \<Rightarrow> 'd container \<Rightarrow> int \<Rightarrow>
     (write_block_iter \<Rightarrow> 's \<Rightarrow> 's) \<Rightarrow> nat \<Rightarrow> write_block_iter \<times> 's \<Rightarrow> 's res option" where
  "write_blocks update_chunk set_slice overhead c bufsize fill 0 st = None"
| "write_blocks update_chunk set_slice overhead c bufsize fill (Suc fuel) st =
     (case iarray_iter_write_block_has_next update_chunk set_slice c st of
        Inl e \<Rightarrow> Some (Inl e)
      | Inr (s, Inl _) \<Rightarrow> Some (Inr s)
      | Inr (s, Inr _) \<Rightarrow>
        (case iarray_iter_write_block_next update_chunk set_slice overhead c bufsize (fst st, s) of
           Inl e \<Rightarrow> Some (Inl e)
         | Inr (itr, s) \<Rightarrow> write_blocks update_chunk set_slice overhead c bufsize fill fuel (itr, fill itr s)))"

definition wb_holds :: "'d container \<Rightarrow> int \<Rightarrow> write_block_iter \<Rightarrow> bool" where
  "wb_holds c k it \<longleftrightarrow>
     take (ndim (dtshape c)) (wb_cur_block_index it) = unflat (blocks_of (wb_dims c) (wb_tile c)) k \<and>
     take (ndim (dtshape c)) (wb_cur_elem_index it) = block_start (wb_dims c) (wb_tile c) k \<and>
     take (ndim (dtshape c)) (wb_cur_block_shape it) = block_extent (wb_dims c) (wb_tile c) k"

lemma wb_flush_region:
  assumes src: "wb_source c" and h: "wb_holds c k it" and l8: "length (wb_cur_block_shape it) = 8"
    and u: "\<not> wb_compressed_chunk_buffer it"
    and ss: "\<And>a b shp s. set_slice a b shp s = Inr (put (take (ndim (dtshape c)) a) (take (ndim (dtshape c)) b) s)"
  shows "wb_flush update_chunk set_slice c it s =
    Inr (put (block_start (wb_dims c) (wb_tile c) k)
      (map2 (+) (block_start (wb_dims c) (wb_tile c) k) (block_extent (wb_dims c) (wb_tile c) k)) s)"
proof -
  let ?nd = "ndim (dtshape c)" and ?S = "block_start (wb_dims c) (wb_tile c) k"
  let ?E = "block_extent (wb_dims c) (wb_tile c) k"
  have n: "?nd \<le> 8" "?nd \<le> length (c_shape (catarr c))" "?nd \<le> length (c_chunkshape (catarr c))"
    using src by (simp_all add: wb_source_def Let_def)
  have l: "length (wb_dims c) = length (wb_tile c)" "length (wb_tile c) = ?nd"
    using n by (simp_all add: wb_dims_def wb_tile_def)
  define start where "start = set_prefix ?nd (\<lambda>i. wb_cur_block_index it ! i * c_chunkshape (catarr c) ! i) fresh_slots"
  define stop where "stop = set_prefix ?nd (\<lambda>i. start ! i + wb_cur_block_shape it ! i) fresh_slots"
  have bi: "wb_cur_block_index it ! i = unflat (blocks_of (wb_dims c) (wb_tile c)) k ! i"
    "wb_cur_block_shape it ! i = ?E ! i" if "i < ?nd" for i
    using arg_cong [of _ _ "\<lambda>xs. xs ! i"] h that unfolding wb_holds_def by (metis nth_take)+
  have S: "take ?nd start = ?S"
    by (rule nth_equalityI)
      (use n l bi in \<open>auto simp: start_def set_prefix_nth block_start_nth wb_tile_def\<close>)
  have st: "start ! i = ?S ! i" if "i < ?nd" for i using that by (simp flip: S)
  have "take ?nd stop = map2 (+) ?S ?E"
    by (rule nth_equalityI) (use n l bi st in \<open>auto simp: stop_def set_prefix_nth\<close>)
  then show ?thesis
    using u S by (simp add: wb_flush_def Let_def ss flip: start_def stop_def)
qed

lemma write_blocks_from:
  assumes src: "wb_source c"
    and ss: "\<And>a b shp s. set_slice a b shp s = Inr (put (take (ndim (dtshape c)) a) (take (ndim (dtshape c)) b) s)"
    and fl: "\<And>it s. fill it s = f (take (ndim (dtshape c)) (wb_cur_elem_index it)) (take (ndim (dtshape c)) (wb_cur_block_shape it)) s"
    and m: "m = nat (block_count (wb_dims c) (wb_tile c))"
    and step: "step = (\<lambda>k s. put (block_start (wb_dims c) (wb_tile c) k)
      (map2 (+) (block_start (wb_dims c) (wb_tile c) k) (block_extent (wb_dims c) (wb_tile c) k))
      (f (block_start (wb_dims c) (wb_tile c) k) (block_extent (wb_dims c) (wb_tile c) k) s))"
  shows "wb_ready c it \<Longrightarrow> \<not> wb_compressed_chunk_buffer it \<Longrightarrow>
    (wb_external_buffer it \<Longrightarrow> wb_block_shape_size it * c_itemsize (catarr c) + overhead \<le> bufsize) \<Longrightarrow>
    wb_nblock it = int (Suc i) \<Longrightarrow> i < m \<Longrightarrow> m - i \<le> fuel \<Longrightarrow> wb_holds c (int i) it \<Longrightarrow>
    write_blocks update_chunk set_slice overhead c bufsize fill fuel
      (it, f (block_start (wb_dims c) (wb_tile c) (int i)) (block_extent (wb_dims c) (wb_tile c) (int i)) s) =
    Some (Inr (fold step (map int [i..<m]) s))"
proof (induction fuel arbitrary: it i s)
  case (Suc fuel)
  let ?B = "block_count (wb_dims c) (wb_tile c)"
  let ?s = "f (block_start (wb_dims c) (wb_tile c) (int i)) (block_extent (wb_dims c) (wb_tile c) (int i)) s"
  have g: "good_blocks (wb_dims c) (wb_tile c)" by (rule wb_good [OF src])
  have pos: "0 < ?B" "0 < prod_list (wb_tile c)"
    using block_count_pos [OF g] g by (simp_all add: good_blocks_def all_pos_prod)
  have r: "wb_total_blocks it = ?B" "cdiv (wb_cont_esize it) (wb_block_shape_size it) = ?B"
    "length (wb_cur_block_shape it) = 8"
    using Suc.prems(1) pos by (simp_all add: wb_ready_def cdiv_exact)
  have fl': "wb_flush update_chunk set_slice c it s' = Inr (put (block_start (wb_dims c) (wb_tile c) (int i))
      (map2 (+) (block_start (wb_dims c) (wb_tile c) (int i)) (block_extent (wb_dims c) (wb_tile c) (int i))) s')" for s'
    by (rule wb_flush_region [where put = put and set_slice = set_slice, OF src Suc.prems(7) r(3) Suc.prems(2) ss])
  have up: "[i..<m] = i # [Suc i..<m]" using Suc.prems by (simp add: upt_rec)
  show ?case
  proof (cases "Suc i = m")
    case True
    then have "wb_nblock it = ?B" using m pos Suc.prems by simp
    then show ?thesis
      using up True r by (simp add: iarray_iter_write_block_has_next_def fl' step)
  next
    case False
    then have lt: "0 \<le> wb_nblock it" "wb_nblock it < wb_total_blocks it" "wb_nblock it \<noteq> ?B" "wb_nblock it \<noteq> 0"
      using Suc.prems m r by simp_all
    let ?it = "(wb_update c (ndim (dtshape c)) it)\<lparr>wb_nblock := wb_nblock it + 1\<rparr>"
    note u = wb_update_region [OF src Suc.prems(1) lt(1,2)]
    have cn: "c_ndim (catarr c) = ndim (dtshape c)" using src by (simp add: wb_source_def Let_def)
    have rd: "wb_ready c ?it" using u(1) by (simp add: wb_ready_def)
    have sz: "wb_block_shape_size ?it = wb_block_shape_size it"
      using rd Suc.prems(1) by (simp add: wb_ready_def)
    have h: "wb_holds c (int (Suc i)) ?it" using u(5-7) Suc.prems(4) by (simp add: wb_holds_def)
    have buf: "\<not> (wb_external_buffer it \<and> bufsize < wb_block_shape_size it * c_itemsize (catarr c) + overhead)"
      using Suc.prems(3) by auto
    have nx: "iarray_iter_write_block_next update_chunk set_slice overhead c bufsize (it, ?s) =
        Inr (?it, put (block_start (wb_dims c) (wb_tile c) (int i))
          (map2 (+) (block_start (wb_dims c) (wb_tile c) (int i)) (block_extent (wb_dims c) (wb_tile c) (int i))) ?s)"
      using lt buf u(2) by (simp add: iarray_iter_write_block_next_def fl' cn Let_def)
    have "iarray_iter_write_block_has_next update_chunk set_slice c (it, ?s) = Inr (?s, Inr ())"
      using lt r by (simp add: iarray_iter_write_block_has_next_def)
    moreover have "write_blocks update_chunk set_slice overhead c bufsize fill fuel
        (?it, f (block_start (wb_dims c) (wb_tile c) (int (Suc i))) (block_extent (wb_dims c) (wb_tile c) (int (Suc i)))
          (step (int i) s)) = Some (Inr (fold step (map int [Suc i..<m]) (step (int i) s)))"
      by (rule Suc.IH) (use rd u(3,4) Suc.prems sz h False in simp_all)
    moreover have "fill ?it (step (int i) s) = f (block_start (wb_dims c) (wb_tile c) (int (Suc i)))
        (block_extent (wb_dims c) (wb_tile c) (int (Suc i))) (step (int i) s)"
      using h by (simp add: fl wb_holds_def)
    ultimately show ?thesis using nx up by (simp add: step)
  qed
qed simp


section \<open>Properties of the block iterator for reading\<close>

text \<open>
  Claim C19. The loop \<open>while (has_next) next\<close> over a block iterator of an array delivers, in
  row-major order of the blocks, what the slice reader returns for each block of the grid: its
  start is the block index times the block shape, its end is cropped to the array, and after
  the last block the loop ends. Enough fuel is one step more than the number of blocks.
\<close>
theorem read_block_loop:
  assumes "rb_source (c, bsh)"
    and "iarray_iter_read_block_new c (Some bsh) ext = Inr itr"
    and "\<not> ext \<or> prod_list (take (ndim (dtshape c)) bsh) * c_itemsize (catarr c) + overhead \<le> bufsize"
    and "\<And>s e shp len. reader s e shp len = Inr (rd (take (ndim (dtshape c)) s) (take (ndim (dtshape c)) e))"
    and "nat (block_count (rb_dims (c, bsh)) (rb_tile (c, bsh))) < fuel"
  shows "read_blocks reader overhead c bufsize fuel itr =
    Some (Inr (map (\<lambda>k. rd (block_start (rb_dims (c, bsh)) (rb_tile (c, bsh)) k)
        (map2 (+) (block_start (rb_dims (c, bsh)) (rb_tile (c, bsh)) k) (block_extent (rb_dims (c, bsh)) (rb_tile (c, bsh)) k)))
      (below (block_count (rb_dims (c, bsh)) (rb_tile (c, bsh))))))"
proof -
  note new = read_block_new [OF assms(1,2)]
  have t: "rb_total_blocks itr = block_count (rb_dims (c, bsh)) (rb_tile (c, bsh))" "rb_block_shape_size itr = prod_list (take (ndim (dtshape c)) bsh)"
    using new(1) by (simp_all add: rb_ready_def block_count_def rb_tile_def)
  show ?thesis
    using read_blocks_from [OF assms(1) new(1), of 0 "nat (block_count (rb_dims (c, bsh)) (rb_tile (c, bsh)))" fuel overhead bufsize reader rd]
      assms(3-5) new(2,3) t rb_walk_region [OF assms(1)]
    by (auto simp: below_def block_count_def)
qed

definition sample_grid :: "unit container" where
  "sample_grid = \<lparr> dtshape = \<lparr> dtype = IARRAY_DATA_TYPE_DOUBLE, dtype_size = 8, ndim = 2,
       shape = [5, 7, 0, 0, 0, 0, 0, 0] \<rparr>,
     auxshape = \<lparr> aux_offset = replicate 8 0, shape_wos = [5, 7, 0, 0, 0, 0, 0, 0],
       chunkshape_wos = [2, 3, 0, 0, 0, 0, 0, 0], blockshape_wos = [2, 3, 0, 0, 0, 0, 0, 0],
       aux_index = [0, 1, 2, 3, 4, 5, 6, 7] \<rparr>,
     catarr = \<lparr> c_ndim = 2, c_shape = [5, 7, 1, 1, 1, 1, 1, 1], c_chunkshape = [2, 3, 1, 1, 1, 1, 1, 1],
       c_blockshape = [2, 3, 1, 1, 1, 1, 1, 1], c_extshape = [6, 9, 1, 1, 1, 1, 1, 1],
       c_extchunkshape = [2, 3, 1, 1, 1, 1, 1, 1],
       c_itemsize = 8, c_nitems = 35, c_nchunks = 9, c_data = () \<rparr>,
     storage = \<lparr> urlpath = None, contiguous = False, chunkshape = [2, 3, 0, 0, 0, 0, 0, 0],
       blockshape = [2, 3, 0, 0, 0, 0, 0, 0] \<rparr>,
     container_viewed = None, transposed = False \<rparr>"

lemma sample_grid_rb: "rb_source (sample_grid, [2, 4])"
  by (simp add: rb_source_def sample_grid_def good_blocks_def CATERVA_MAX_DIM_def)

lemma sample_grid_wb: "wb_source sample_grid"
  by (simp add: wb_source_def sample_grid_def good_blocks_def CATERVA_MAX_DIM_def Let_def
      blocks_of_def ceil_blocks_def c_arith)

lemma read_block_loop_witness:
  "\<exists>itr. iarray_iter_read_block_new sample_grid (Some [2, 4]) False = Inr itr \<and>
    read_blocks (\<lambda>s e _ _. Inr (take 2 s, take 2 e)) 32 sample_grid 0 7 itr =
      Some (Inr [([0, 0], [2, 4]), ([0, 4], [2, 7]), ([2, 0], [4, 4]), ([2, 4], [4, 7]), ([4, 0], [5, 4]), ([4, 4], [5, 7])])"
proof -
  obtain itr where n: "iarray_iter_read_block_new sample_grid (Some [2, 4]) False = Inr itr"
    by (simp add: iarray_iter_read_block_new_def Let_def)
  have b: "block_count (rb_dims (sample_grid, [2, 4])) (rb_tile (sample_grid, [2, 4])) = 6" by code_simp
  have nd: "ndim (dtshape sample_grid) = 2" by (simp add: sample_grid_def)
  have "map (\<lambda>k. (block_start (rb_dims (sample_grid, [2, 4])) (rb_tile (sample_grid, [2, 4])) k,
      map2 (+) (block_start (rb_dims (sample_grid, [2, 4])) (rb_tile (sample_grid, [2, 4])) k)
        (block_extent (rb_dims (sample_grid, [2, 4])) (rb_tile (sample_grid, [2, 4])) k))) (below 6) =
    [([0, 0], [2, 4]), ([0, 4], [2, 7]), ([2, 0], [4, 4]), ([2, 4], [4, 7]), ([4, 0], [5, 4]), ([4, 4], [5, 7])]"
    by code_simp
  then show ?thesis
    using n b nd read_block_loop [OF sample_grid_rb n, of 32 0 "\<lambda>s e _ _. Inr (take 2 s, take 2 e)" Pair 7] by simp
qed

text \<open>
  Claim C25. The regions that a block iterator for reading visits, one for each of the
  \<open>total_blocks\<close> it counts, contain every item of the array and no item twice, whatever block
  shape the caller chose.
\<close>

theorem read_block_regions_partition:
  assumes "rb_source (c, bsh)" and "iarray_iter_read_block_new c (Some bsh) ext = Inr itr"
  shows "distinct (walk_items (rb_walk (c, bsh)) (rb_total_blocks itr)) \<and>
    set (walk_items (rb_walk (c, bsh)) (rb_total_blocks itr)) =
      {ix. in_box (take (ndim (dtshape c)) (shape (dtshape c))) ix}"
proof -
  have "rb_total_blocks itr = block_count (rb_dims (c, bsh)) (rb_tile (c, bsh))"
    using read_block_new(1) [OF assms] by (simp add: rb_ready_def block_count_def)
  then show ?thesis using rb.items_once(1,2) [OF assms(1)] by (simp add: rb_dims_def)
qed

lemma read_block_regions_partition_witness:
  "\<exists>itr. iarray_iter_read_block_new sample_grid (Some [2, 4]) True = Inr itr \<and>
    set (walk_items (rb_walk (sample_grid, [2, 4])) (rb_total_blocks itr)) =
      {ix. in_box [5, 7] ix}"
proof -
  obtain itr where n: "iarray_iter_read_block_new sample_grid (Some [2, 4]) True = Inr itr"
    by (simp add: iarray_iter_read_block_new_def Let_def)
  have "take (ndim (dtshape sample_grid)) (shape (dtshape sample_grid)) = [5, 7]"
    by (simp add: sample_grid_def)
  then show ?thesis using n read_block_regions_partition [OF sample_grid_rb n] by simp
qed

section \<open>Properties of the block iterator for writing\<close>

text \<open>
  Claim C20. The loop \<open>while (has_next) { next; fill }\<close> over a write iterator writes back every block of
  the array exactly once, in row-major order, after the client has filled it, at its own start and
  with its cropped shape; the last block is written by the call of \<open>has_next\<close> that ends
  the loop. So the final state is the fold of \<open>fill\<close> and write over all blocks.
\<close>

theorem write_block_loop:
  assumes "wb_source c" and "iarray_iter_write_block_new c (Some bsh) ext = Inr itr"
    and "\<not> ext \<or> prod_list (take (ndim (dtshape c)) (c_chunkshape (catarr c))) * c_itemsize (catarr c) + overhead \<le> bufsize"
    and "\<And>a b shp s. set_slice a b shp s = Inr (put (take (ndim (dtshape c)) a) (take (ndim (dtshape c)) b) s)"
    and "\<And>it s. fill it s = f (take (ndim (dtshape c)) (wb_cur_elem_index it)) (take (ndim (dtshape c)) (wb_cur_block_shape it)) s"
    and "nat (wb_total_blocks itr) < fuel"
  shows "write_blocks update_chunk set_slice overhead c bufsize fill fuel (itr, s) =
    Some (Inr (fold (\<lambda>k s. let a = block_start (wb_dims c) (wb_tile c) k; e = block_extent (wb_dims c) (wb_tile c) k
      in put a (map2 (+) a e) (f a e s)) (below (block_count (wb_dims c) (wb_tile c))) s))"
proof -
  note new = write_block_new [OF assms(1,2)]
  let ?B = "block_count (wb_dims c) (wb_tile c)"
  have pos: "0 < ?B" "0 < prod_list (wb_tile c)"
    using block_count_pos wb_good [OF assms(1)] by (simp_all add: good_blocks_def all_pos_prod)
  have r: "wb_total_blocks itr = ?B" "cdiv (wb_cont_esize itr) (wb_block_shape_size itr) = ?B"
    "wb_block_shape_size itr = prod_list (wb_tile c)"
    using new(1) pos by (simp_all add: wb_ready_def cdiv_exact)
  let ?it = "(wb_update c (ndim (dtshape c)) itr)\<lparr>wb_nblock := 1\<rparr>"
  have lt: "0 \<le> wb_nblock itr" "wb_nblock itr < wb_total_blocks itr" using new(2) r pos by simp_all
  note u = wb_update_region [OF assms(1) new(1) lt]
  have cn: "c_ndim (catarr c) = ndim (dtshape c)" using assms(1) by (simp add: wb_source_def Let_def)
  have rd: "wb_ready c ?it" using u(1) by (simp add: wb_ready_def)
  have h: "wb_holds c (int 0) ?it" using u(5-7) new(2) by (simp add: wb_holds_def)
  have buf: "\<not> (wb_external_buffer itr \<and> bufsize < wb_block_shape_size itr * c_itemsize (catarr c) + overhead)"
    using assms(3) new(3) r by (auto simp: wb_tile_def)
  obtain n where n: "fuel = Suc n" "nat ?B \<le> n" using assms(6) r by (cases fuel) simp_all
  let ?s = "f (block_start (wb_dims c) (wb_tile c) (int 0)) (block_extent (wb_dims c) (wb_tile c) (int 0)) s"
  have w: "write_blocks update_chunk set_slice overhead c bufsize fill n (?it, ?s) =
      Some (Inr (fold (\<lambda>k s. put (block_start (wb_dims c) (wb_tile c) k)
        (map2 (+) (block_start (wb_dims c) (wb_tile c) k) (block_extent (wb_dims c) (wb_tile c) k))
        (f (block_start (wb_dims c) (wb_tile c) k) (block_extent (wb_dims c) (wb_tile c) k) s))
        (map int [0..<nat ?B]) s))"
    by (rule write_blocks_from [where set_slice = set_slice and put = put and fill = fill and f = f,
        OF assms(1,4,5) refl refl])
      (use rd u(3,4) new buf h n pos in \<open>auto simp: wb_ready_def r\<close>)
  have "iarray_iter_write_block_has_next update_chunk set_slice c (itr, s) = Inr (s, Inr ())"
    using lt r pos new(2) by (simp add: iarray_iter_write_block_has_next_def)
  moreover have "iarray_iter_write_block_next update_chunk set_slice overhead c bufsize (itr, s) = Inr (?it, s)"
    using buf new(2) u(2) cn by (simp add: iarray_iter_write_block_next_def Let_def)
  moreover have "fill ?it s = ?s" using h by (simp add: assms(5) wb_holds_def)
  ultimately show ?thesis using w by (simp add: n below_def Let_def)
qed

lemma write_block_loop_witness:
  "\<exists>itr. iarray_iter_write_block_new sample_grid (Some [2, 3]) False = Inr itr \<and>
    write_blocks (\<lambda>_ s. Inr s) (\<lambda>a b shp s. Inr (s @ [(take 2 a, take 2 b)])) 32 sample_grid 0 (\<lambda>_ s. s) 10 (itr, []) =
      Some (Inr [([0, 0], [2, 3]), ([0, 3], [2, 6]), ([0, 6], [2, 7]), ([2, 0], [4, 3]), ([2, 3], [4, 6]), ([2, 6], [4, 7]),
        ([4, 0], [5, 3]), ([4, 3], [5, 6]), ([4, 6], [5, 7])])"
proof -
  obtain itr where n: "iarray_iter_write_block_new sample_grid (Some [2, 3]) False = Inr itr"
    by (simp add: iarray_iter_write_block_new_def Let_def sample_grid_def upt_conv_Cons)
  have b: "block_count (wb_dims sample_grid) (wb_tile sample_grid) = 9" by code_simp
  have t: "wb_total_blocks itr = 9" using write_block_new(1) [OF sample_grid_wb n] b by (simp add: wb_ready_def)
  have nd: "ndim (dtshape sample_grid) = 2" by (simp add: sample_grid_def)
  have "fold (\<lambda>k s. let a = block_start (wb_dims sample_grid) (wb_tile sample_grid) k;
        e = block_extent (wb_dims sample_grid) (wb_tile sample_grid) k
      in s @ [(a, map2 (+) a e)]) (below 9) [] =
      [([0, 0], [2, 3]), ([0, 3], [2, 6]), ([0, 6], [2, 7]), ([2, 0], [4, 3]), ([2, 3], [4, 6]), ([2, 6], [4, 7]),
        ([4, 0], [5, 3]), ([4, 3], [5, 6]), ([4, 6], [5, 7])]"
    by code_simp
  then show ?thesis
    using n b t nd write_block_loop [OF sample_grid_wb n, of 32 0 "\<lambda>a b shp s. Inr (s @ [(take 2 a, take 2 b)])"
        "\<lambda>a b s. s @ [(a, b)]" "\<lambda>_ s. s" "\<lambda>_ _ s. s" 10 "\<lambda>_ s. Inr s" "[]"] by simp
qed

end
