(* ===== verification/ItemIterators.thy ===== *)
theory ItemIterators
  imports Iterators
begin

text \<open>
  The iterators over single items of \<^verbatim>\<open>src/iarray_iterator.c\<close>. Both walk the chunks of the array in
  row-major order and the items of a chunk inside it; the reading one loads a chunk when it
  enters it, the writing one writes a chunk back when it leaves it.
\<close>

section \<open>Items for reading\<close>

record read_iter =
  re_nelem :: int
  re_nelem_block :: int
  re_nblock :: int
  re_cur_block_index :: "int list"
  re_cur_block_size :: int
  re_cur_block_shape :: "int list"
  re_block_shape :: "int list"
  re_cont_size :: int
  re_elem_index :: "int list"
  re_elem_flat_index :: int
  re_pointer :: int

definition iarray_iter_read_new :: "'d container \<Rightarrow> read_iter" where
  "iarray_iter_read_new c =
     (let nd = ndim (dtshape c) in
      \<lparr> re_nelem = 0, re_nelem_block = 0, re_nblock = 0, re_cur_block_index = replicate 8 0,
        re_cur_block_size = 0, re_cur_block_shape = fresh_slots,
        re_block_shape = set_prefix nd (\<lambda>i. if transposed c then chunkshape (storage c) ! (nd - 1 - i)
                                            else chunkshape (storage c) ! i) fresh_slots,
        re_cont_size = fold (\<lambda>i t. t * shape (dtshape c) ! i) [0..<nd] 1,
        re_elem_index = fresh_slots, re_elem_flat_index = 0, re_pointer = 0 \<rparr>)"

text \<open>The part of \<open>iarray_iter_read_next\<close> that moves to the next block and reads it.\<close>

definition iter_read_load ::
    "(int list \<Rightarrow> int list \<Rightarrow> int \<Rightarrow> 'b res) \<Rightarrow> 'd container \<Rightarrow> read_iter \<times> 'b \<Rightarrow> (read_iter \<times> 'b) res" where
  "iter_read_load reader c = (\<lambda>(itr, _).
     let nd = ndim (dtshape c); sh = shape (dtshape c); bs = re_block_shape itr;
         aux = set_prefix nd (\<lambda>i. if cmod (sh ! i) (bs ! i) = 0 then cdiv (sh ! i) (bs ! i)
                                  else cdiv (sh ! i) (bs ! i) + 1) fresh_slots;
         idx = mixed_radix nd aux (re_nblock itr) (re_cur_block_index itr);
         start = set_prefix nd (\<lambda>i. idx ! i * bs ! i) fresh_slots;
         stop = set_prefix nd (\<lambda>i. if start ! i + bs ! i \<le> sh ! i then start ! i + bs ! i
                                   else sh ! i) fresh_slots;
         cshape = set_prefix nd (\<lambda>i. stop ! i - start ! i) (re_cur_block_shape itr);
         buflen = fold (\<lambda>i t. t * bs ! i) (rev [0..<nd]) 1
     in res_bind (reader start stop (buflen * c_itemsize (catarr c))) (\<lambda>buf.
          Inr (itr\<lparr>re_cur_block_index := idx, re_cur_block_shape := cshape,
                 re_cur_block_size := fold (\<lambda>i t. t * cshape ! i) (rev [0..<nd]) 1,
                 re_nelem_block := 0, re_nblock := re_nblock itr + 1\<rparr>, buf)))"

definition iter_read_locate :: "'d container \<Rightarrow> read_iter \<Rightarrow> read_iter" where
  "iter_read_locate c itr =
     (let nd = ndim (dtshape c);
          ind = mixed_radix nd (re_cur_block_shape itr) (re_nelem_block itr) fresh_slots;
          elem = set_prefix nd (\<lambda>i. ind ! i + re_cur_block_index itr ! i * re_block_shape itr ! i)
                   (re_elem_index itr);
          flat_index = fst (fold (\<lambda>i (f, inc_s). (f + elem ! i * inc_s, inc_s * shape (dtshape c) ! i))
                     (rev [0..<nd]) (0, 1))
      in itr\<lparr>re_elem_index := elem, re_elem_flat_index := flat_index,
             re_pointer := re_nelem_block itr * c_itemsize (catarr c), re_nelem := re_nelem itr + 1\<rparr>)"

definition iarray_iter_read_next ::
    "(int list \<Rightarrow> int list \<Rightarrow> int \<Rightarrow> 'b res) \<Rightarrow> 'd container \<Rightarrow> read_iter \<times> 'b \<Rightarrow> (read_iter \<times> 'b) res" where
  "iarray_iter_read_next reader c = (\<lambda>(itr, chunk).
     res_bind (if re_nelem_block itr = re_cur_block_size itr - 1 \<or> re_nelem itr = 0
               then iter_read_load reader c (itr, chunk)
               else Inr (itr\<lparr>re_nelem_block := re_nelem_block itr + 1\<rparr>, chunk)) (\<lambda>(itr, chunk).
     Inr (iter_read_locate c itr, chunk)))"

definition iarray_iter_read_has_next :: "read_iter \<Rightarrow> unit res" where
  "iarray_iter_read_has_next itr =
     (if re_nelem itr < re_cont_size itr then Inr () else Inl IARRAY_ERR_END_ITER)"

section \<open>Items for writing\<close>

record write_iter =
  we_nelem :: int
  we_nelem_block :: int
  we_nblock :: int
  we_cur_block_index :: "int list"
  we_cur_block_size :: int
  we_cur_block_shape :: "int list"
  we_elem_index :: "int list"
  we_elem_flat_index :: int
  we_pointer :: int

definition iarray_iter_write_new :: "'d caterva_array \<Rightarrow> write_iter" where
  "iarray_iter_write_new cat =
     (let bsh = map2 (\<lambda>cs sh. if cs > sh then sh else cs) (c_chunkshape cat) (c_shape cat)
      in \<lparr> we_nelem = 0, we_nelem_block = 0, we_nblock = 0, we_cur_block_index = replicate 8 0,
           we_cur_block_size = fold (\<lambda>b t. t * b) bsh 1, we_cur_block_shape = bsh,
           we_elem_index = replicate 8 0, we_elem_flat_index = 0, we_pointer = 0 \<rparr>)"

text \<open>The write of the current block, which \<open>next\<close> and \<open>has_next\<close> share.\<close>

definition iter_write_flush ::
    "(int list \<Rightarrow> int list \<Rightarrow> int list \<Rightarrow> int \<Rightarrow> 's \<Rightarrow> 's res) \<Rightarrow> 'd caterva_array \<Rightarrow> nat \<Rightarrow> write_iter \<Rightarrow> 's \<Rightarrow> 's res" where
  "iter_write_flush set_slice cat nd itr s =
     (let start = set_prefix nd (\<lambda>i. we_cur_block_index itr ! i * c_chunkshape cat ! i) fresh_slots;
          stop = set_prefix nd (\<lambda>i. start ! i + we_cur_block_shape itr ! i) fresh_slots
      in set_slice start stop (we_cur_block_shape itr) (we_cur_block_size itr * c_itemsize cat) s)"

definition iter_write_advance :: "'d caterva_array \<Rightarrow> write_iter \<Rightarrow> write_iter" where
  "iter_write_advance cat itr =
     (let nd = c_ndim cat; nblock = we_nblock itr + 1;
          aux = map2 cdiv (c_extshape cat) (c_chunkshape cat);
          idx = mixed_radix nd aux nblock (we_cur_block_index itr);
          bsh = set_prefix nd (\<lambda>i. if (idx ! i + 1) * c_chunkshape cat ! i > c_shape cat ! i
                  then c_shape cat ! i - idx ! i * c_chunkshape cat ! i else c_chunkshape cat ! i)
                  (we_cur_block_shape itr)
      in itr\<lparr>we_nblock := nblock, we_cur_block_index := idx, we_cur_block_shape := bsh,
             we_cur_block_size := fold (\<lambda>i t. t * bsh ! i) (rev [0..<nd]) 1, we_nelem_block := 0\<rparr>)"

definition iter_write_locate :: "'d caterva_array \<Rightarrow> write_iter \<Rightarrow> write_iter" where
  "iter_write_locate cat itr =
     (let nd = c_ndim cat; bsh = we_cur_block_shape itr;
          ind = mixed_radix nd bsh (we_nelem_block itr) fresh_slots;
          elem = set_prefix nd (\<lambda>i. ind ! i + we_cur_block_index itr ! i * c_chunkshape cat ! i)
                   (we_elem_index itr);
          pointer = fst (fold (\<lambda>i (p, inc_p). (p + ind ! i * inc_p, inc_p * bsh ! i)) (rev [0..<nd]) (0, 1));
          flat_index = fst (fold (\<lambda>i (f, inc_s). (f + elem ! i * inc_s, inc_s * c_shape cat ! i))
                     (rev [0..<nd]) (0, 1))
      in itr\<lparr>we_elem_index := elem, we_elem_flat_index := flat_index,
             we_pointer := pointer * c_itemsize cat, we_nelem := we_nelem itr + 1\<rparr>)"

definition iarray_iter_write_next ::
    "(int list \<Rightarrow> int list \<Rightarrow> int list \<Rightarrow> int \<Rightarrow> 's \<Rightarrow> 's res) \<Rightarrow> 'd caterva_array \<Rightarrow> nat \<Rightarrow>
     write_iter \<times> 's \<Rightarrow> (write_iter \<times> 's) res" where
  "iarray_iter_write_next set_slice cat nd = (\<lambda>(itr, s).
     res_bind
       (if we_nelem_block itr = we_cur_block_size itr - 1
        then res_bind (iter_write_flush set_slice cat nd itr s) (\<lambda>s. Inr (iter_write_advance cat itr, s))
        else if we_nelem itr \<noteq> 0 then Inr (itr\<lparr>we_nelem_block := we_nelem_block itr + 1\<rparr>, s)
        else Inr (itr, s)) (\<lambda>(itr, s).
     Inr (iter_write_locate cat itr, s)))"

definition iarray_iter_write_has_next ::
    "(int list \<Rightarrow> int list \<Rightarrow> int list \<Rightarrow> int \<Rightarrow> 's \<Rightarrow> 's res) \<Rightarrow> 'd caterva_array \<Rightarrow> nat \<Rightarrow>
     write_iter \<times> 's \<Rightarrow> ('s \<times> unit res) res" where
  "iarray_iter_write_has_next set_slice cat nd = (\<lambda>(itr, s).
     res_bind (if we_nelem itr = c_nitems cat then iter_write_flush set_slice cat nd itr s else Inr s) (\<lambda>s.
     Inr (s, if we_nelem itr < c_nitems cat then Inr () else Inl IARRAY_ERR_END_ITER)))"

section \<open>Positions inside a chunk\<close>

lemma flat_snoc:
  "length ix = length ns \<Longrightarrow> flat (ns @ [n]) (ix @ [i]) = flat ns ix * n + i"
  by (induction ix ns rule: list_induct2) (simp_all add: algebra_simps)

lemma fold_flat_down:
  "n \<le> length ix \<Longrightarrow> n \<le> length sh \<Longrightarrow>
   fold (\<lambda>i (f, s). (f + ix ! i * s, s * sh ! i)) (rev [0..<n]) (f, s) =
     (f + s * flat (take n sh) (take n ix), s * prod_list (take n sh))"
proof (induction n arbitrary: f s)
  case (Suc n)
  then show ?case
    by (simp add: take_Suc_conv_app_nth flat_snoc algebra_simps)
qed simp

section \<open>Reading item by item\<close>

definition ri_dims :: "'d container \<Rightarrow> int list" where
  "ri_dims c = take (ndim (dtshape c)) (shape (dtshape c))"

definition ri_tile :: "'d container \<Rightarrow> int list" where
  "ri_tile c = (let cs = take (ndim (dtshape c)) (chunkshape (storage c)) in if transposed c then rev cs else cs)"

definition ri_source :: "'d container \<Rightarrow> bool" where
  "ri_source c \<longleftrightarrow> ndim (dtshape c) \<le> 8 \<and> ndim (dtshape c) \<le> length (shape (dtshape c)) \<and>
     ndim (dtshape c) \<le> length (chunkshape (storage c)) \<and> 0 < c_itemsize (catarr c) \<and>
     good_blocks (ri_dims c) (ri_tile c)"

definition ri_ready :: "'d container \<Rightarrow> read_iter \<Rightarrow> bool" where
  "ri_ready c it \<longleftrightarrow> take (ndim (dtshape c)) (re_block_shape it) = ri_tile c \<and>
     length (re_block_shape it) = 8 \<and> length (re_cur_block_index it) = 8 \<and>
     length (re_cur_block_shape it) = 8 \<and> length (re_elem_index it) = 8 \<and>
     re_cont_size it = prod_list (ri_dims c)"

text \<open>The iterator holds block \<open>k\<close>.\<close>

definition ri_holds :: "'d container \<Rightarrow> int \<Rightarrow> read_iter \<Rightarrow> bool" where
  "ri_holds c k it \<longleftrightarrow> ri_ready c it \<and> re_nblock it = k + 1 \<and>
     take (ndim (dtshape c)) (re_cur_block_index it) = unflat (blocks_of (ri_dims c) (ri_tile c)) k \<and>
     take (ndim (dtshape c)) (re_cur_block_shape it) = block_extent (ri_dims c) (ri_tile c) k \<and>
     re_cur_block_size it = prod_list (block_extent (ri_dims c) (ri_tile c) k)"

lemma ri_lengths:
  assumes "ri_source c"
  shows "length (ri_dims c) = ndim (dtshape c)" "length (ri_tile c) = ndim (dtshape c)"
    "length (blocks_of (ri_dims c) (ri_tile c)) = ndim (dtshape c)"
    "length (block_start (ri_dims c) (ri_tile c) k) = ndim (dtshape c)"
    "length (block_extent (ri_dims c) (ri_tile c) k) = ndim (dtshape c)"
  using assms by (simp_all add: ri_source_def ri_dims_def ri_tile_def Let_def)

lemma read_new_ready:
  assumes "ri_source c"
  shows "ri_ready c (iarray_iter_read_new c)" "re_nelem (iarray_iter_read_new c) = 0"
    "re_nblock (iarray_iter_read_new c) = 0"
proof -
  let ?nd = "ndim (dtshape c)"
  have n: "?nd \<le> 8" "?nd \<le> length (shape (dtshape c))" "?nd \<le> length (chunkshape (storage c))"
    using assms by (simp_all add: ri_source_def)
  have t: "map (\<lambda>i. if transposed c then chunkshape (storage c) ! (?nd - 1 - i) else chunkshape (storage c) ! i) [0..<?nd]
      = ri_tile c"
    by (rule nth_equalityI) (use n in \<open>auto simp: ri_tile_def Let_def rev_nth\<close>)
  show "ri_ready c (iarray_iter_read_new c)"
    using n t by (simp add: ri_ready_def iarray_iter_read_new_def Let_def take_set_prefix fold_mult_nth ri_dims_def)
  show "re_nelem (iarray_iter_read_new c) = 0" "re_nblock (iarray_iter_read_new c) = 0"
    by (simp_all add: iarray_iter_read_new_def Let_def)
qed

lemma read_load:
  assumes src: "ri_source c" and rdy: "ri_ready c it"
    and k: "0 \<le> re_nblock it" "re_nblock it < block_count (ri_dims c) (ri_tile c)"
    and rd: "\<And>s e len. reader s e len = Inr (rd (take (ndim (dtshape c)) s) (take (ndim (dtshape c)) e))"
  obtains it' where "iter_read_load reader c (it, buf) =
      Inr (it', rd (block_start (ri_dims c) (ri_tile c) (re_nblock it))
        (map2 (+) (block_start (ri_dims c) (ri_tile c) (re_nblock it)) (block_extent (ri_dims c) (ri_tile c) (re_nblock it))))"
    and "ri_holds c (re_nblock it) it'" "re_nelem_block it' = 0" "re_nelem it' = re_nelem it"
proof -
  let ?nd = "ndim (dtshape c)" and ?sh = "shape (dtshape c)" and ?bs = "re_block_shape it"
  let ?k = "re_nblock it"
  let ?S = "block_start (ri_dims c) (ri_tile c) ?k" and ?E = "block_extent (ri_dims c) (ri_tile c) ?k"
  have n: "?nd \<le> 8" "?nd \<le> length ?sh" and g: "good_blocks (ri_dims c) (ri_tile c)"
    using src by (simp_all add: ri_source_def)
  have t: "take ?nd ?bs = ri_tile c" "length ?bs = 8" and l8: "length (re_cur_block_index it) = 8"
    "length (re_cur_block_shape it) = 8" using rdy by (simp_all add: ri_ready_def)
  note l = ri_lengths [OF src]
  have nb: "?nd \<le> length ?bs" using n t by simp
  define aux where "aux = set_prefix ?nd (\<lambda>i. if cmod (?sh ! i) (?bs ! i) = 0 then cdiv (?sh ! i) (?bs ! i)
                                  else cdiv (?sh ! i) (?bs ! i) + 1) fresh_slots"
  have ax: "take ?nd aux = blocks_of (ri_dims c) (ri_tile c)" "length aux = 8"
    unfolding aux_def using block_counts [OF n(2) nb, of fresh_slots] n l
    by (simp_all add: take_set_prefix t ri_dims_def [symmetric] map_nth_take)
  define idx where "idx = mixed_radix ?nd aux ?k (re_cur_block_index it)"
  have idx: "idx = unflat (blocks_of (ri_dims c) (ri_tile c)) ?k @ drop ?nd (re_cur_block_index it)"
    unfolding idx_def using n ax l8 k good_blocks_of [OF g]
    by (subst mixed_radix_unflat) (simp_all add: good_shape_def block_count_def)
  have ti: "take ?nd idx = unflat (blocks_of (ri_dims c) (ri_tile c)) ?k" "length idx = 8"
    using n l l8 by (simp_all add: idx)
  have d: "take ?nd ?sh = ri_dims c" by (simp add: ri_dims_def)
  note cr = crop [of ?nd ?sh ?bs idx ?k, unfolded t(1) d, OF g n(2) nb ti(1)]
  define start where "start = set_prefix ?nd (\<lambda>i. idx ! i * ?bs ! i) fresh_slots"
  define stop where "stop = set_prefix ?nd (\<lambda>i. if start ! i + ?bs ! i \<le> ?sh ! i then start ! i + ?bs ! i
      else ?sh ! i) fresh_slots"
  define csh where "csh = set_prefix ?nd (\<lambda>i. stop ! i - start ! i) (re_cur_block_shape it)"
  have S: "take ?nd start = ?S" unfolding start_def using n cr(1) by (simp add: take_set_prefix)
  have si: "start ! i = idx ! i * ?bs ! i" if "i < ?nd" for i
    using that n by (simp add: start_def set_prefix_nth)
  have E: "take ?nd csh = ?E"
  proof -
    have "take ?nd csh = map (\<lambda>i. (if idx ! i * ?bs ! i + ?bs ! i \<le> ?sh ! i then idx ! i * ?bs ! i + ?bs ! i
        else ?sh ! i) - idx ! i * ?bs ! i) [0..<?nd]"
      unfolding csh_def using n l8 si by (simp add: take_set_prefix stop_def set_prefix_nth)
    then show ?thesis using cr(2) by simp
  qed
  have lc: "length csh = 8" "length stop = 8" using l8 by (simp_all add: csh_def stop_def)
  have P: "take ?nd stop = map2 (+) ?S ?E"
  proof (rule nth_equalityI)
    fix i assume "i < length (take ?nd stop)"
    then have i: "i < ?nd" by simp
    have "csh ! i = stop ! i - start ! i" using i n l8 by (simp add: csh_def set_prefix_nth)
    moreover have "?S ! i = start ! i" "?E ! i = csh ! i" using i by (simp_all flip: S E)
    ultimately show "take ?nd stop ! i = map2 (+) ?S ?E ! i" using i l by simp
  qed (use lc n l in simp)
  have sz: "fold (\<lambda>i t. t * csh ! i) (rev [0..<?nd]) 1 = prod_list ?E"
    using n lc by (simp add: fold_take_prod E)
  define it1 where "it1 = it\<lparr>re_cur_block_index := idx, re_cur_block_shape := csh,
      re_cur_block_size := prod_list ?E, re_nelem_block := 0, re_nblock := ?k + 1\<rparr>"
  show ?thesis
  proof (rule that [of it1])
    show "iter_read_load reader c (it, buf) = Inr (it1, rd ?S (map2 (+) ?S ?E))"
      by (simp add: iter_read_load_def Let_def rd it1_def sz S P cong: if_cong
          flip: aux_def idx_def start_def stop_def csh_def)
    show "ri_holds c ?k it1"
      using rdy lc ti E l8 by (simp add: it1_def ri_holds_def ri_ready_def)
  qed (simp_all add: it1_def)
qed

lemma region_items_nth:
  "j < nat (prod_list e) \<Longrightarrow> region_items (s, e) ! j = map2 (+) s (unflat e (int j))"
  by (simp add: region_items_def below_nth)

lemma length_region_items: "length (region_items (s, e)) = nat (prod_list e)"
  by (simp add: region_items_def)

lemma block_extent_pos:
  assumes "good_blocks ns bs" "0 \<le> k" "k < block_count ns bs"
  shows "all_pos (block_extent ns bs k)"
  using assms block_in_array(3) [of ns bs k] by (auto simp: all_pos_nth block_count_def good_blocks_def)

lemma read_locate:
  assumes src: "ri_source c" and h: "ri_holds c k it" and k: "0 \<le> k" "k < block_count (ri_dims c) (ri_tile c)"
    and j: "re_nelem_block it = int j" "j < nat (prod_list (block_extent (ri_dims c) (ri_tile c) k))"
  shows "ri_holds c k (iter_read_locate c it)"
    "take (ndim (dtshape c)) (re_elem_index (iter_read_locate c it)) =
       region_items (block_start (ri_dims c) (ri_tile c) k, block_extent (ri_dims c) (ri_tile c) k) ! j"
    "re_elem_flat_index (iter_read_locate c it) = flat (ri_dims c)
       (region_items (block_start (ri_dims c) (ri_tile c) k, block_extent (ri_dims c) (ri_tile c) k) ! j)"
    "re_pointer (iter_read_locate c it) = int j * c_itemsize (catarr c)"
    "re_nelem (iter_read_locate c it) = re_nelem it + 1"
    "re_nelem_block (iter_read_locate c it) = int j"
proof -
  let ?nd = "ndim (dtshape c)" and ?sh = "shape (dtshape c)"
  let ?S = "block_start (ri_dims c) (ri_tile c) k" and ?E = "block_extent (ri_dims c) (ri_tile c) k"
  let ?item = "region_items (?S, ?E) ! j"
  have n: "?nd \<le> 8" "?nd \<le> length ?sh" and g: "good_blocks (ri_dims c) (ri_tile c)"
    using src by (simp_all add: ri_source_def)
  note l = ri_lengths [OF src]
  have r: "take ?nd (re_cur_block_shape it) = ?E" "length (re_cur_block_shape it) = 8" "length (re_elem_index it) = 8"
    "take ?nd (re_cur_block_index it) = unflat (blocks_of (ri_dims c) (ri_tile c)) k" "length (re_cur_block_index it) = 8"
    "take ?nd (re_block_shape it) = ri_tile c" "length (re_block_shape it) = 8"
    using h by (simp_all add: ri_holds_def ri_ready_def)
  have pj: "int j < prod_list ?E" using j by simp
  define ind where "ind = mixed_radix ?nd (re_cur_block_shape it) (re_nelem_block it) fresh_slots"
  have ind: "ind = unflat ?E (int j) @ drop ?nd fresh_slots"
    unfolding ind_def using n r block_extent_pos [OF g k] pj j(1)
    by (subst mixed_radix_unflat) simp_all
  define elem where "elem = set_prefix ?nd (\<lambda>i. ind ! i + re_cur_block_index it ! i * re_block_shape it ! i) (re_elem_index it)"
  have item: "?item = map2 (+) ?S (unflat ?E (int j))" by (rule region_items_nth [OF j(2)])
  have el: "take ?nd elem = ?item"
  proof (rule nth_equalityI)
    fix i assume "i < length (take ?nd elem)"
    then have i: "i < ?nd" by simp
    have b: "re_cur_block_index it ! i = unflat (blocks_of (ri_dims c) (ri_tile c)) k ! i"
      "re_block_shape it ! i = ri_tile c ! i" using i r(4,6) by (metis nth_take)+
    have "elem ! i = unflat ?E (int j) ! i + ?S ! i"
      using i n r l b by (simp add: elem_def set_prefix_nth ind nth_append block_start_nth)
    then show "take ?nd elem ! i = ?item ! i" using i l by (simp add: item)
  qed (use n r l in \<open>simp add: elem_def item\<close>)
  have le: "length elem = 8" using r by (simp add: elem_def)
  have fl: "fst (fold (\<lambda>i (f, inc_s). (f + elem ! i * inc_s, inc_s * ?sh ! i)) (rev [0..<?nd]) (0, 1)) =
      flat (ri_dims c) ?item"
    using n le by (simp add: fold_flat_down el ri_dims_def)
  have q: "iter_read_locate c it = it\<lparr>re_elem_index := elem, re_elem_flat_index := flat (ri_dims c) ?item,
             re_pointer := re_nelem_block it * c_itemsize (catarr c), re_nelem := re_nelem it + 1\<rparr>"
    unfolding iter_read_locate_def Let_def ind_def [symmetric] elem_def [symmetric] fl ..
  show "ri_holds c k (iter_read_locate c it)" using h le by (simp add: q ri_holds_def ri_ready_def)
  show "take ?nd (re_elem_index (iter_read_locate c it)) = ?item"
    "re_elem_flat_index (iter_read_locate c it) = flat (ri_dims c) ?item"
    "re_pointer (iter_read_locate c it) = int j * c_itemsize (catarr c)"
    "re_nelem (iter_read_locate c it) = re_nelem it + 1"
    "re_nelem_block (iter_read_locate c it) = int j"
    using el j by (simp_all add: q)
qed

text \<open>
  The loop \<open>while (has_next) next\<close> of a client that looks at index, flat index and value of each item.
\<close>

fun read_items ::
    "(int list \<Rightarrow> int list \<Rightarrow> int \<Rightarrow> 'v list res) \<Rightarrow> 'd container \<Rightarrow> nat \<Rightarrow> read_iter \<times> 'v list \<Rightarrow>
     (int list \<times> int \<times> 'v) list res option" where
  "read_items reader c 0 st = None"
| "read_items reader c (Suc fuel) st =
     (if succeeds (iarray_iter_read_has_next (fst st))
      then case iarray_iter_read_next reader c st of
             Inl e \<Rightarrow> Some (Inl e)
           | Inr (itr, buf) \<Rightarrow>
             map_option (\<lambda>r. res_bind r (\<lambda>xs. Inr ((take (ndim (dtshape c)) (re_elem_index itr), re_elem_flat_index itr,
                 buf ! nat (cdiv (re_pointer itr) (c_itemsize (catarr c)))) # xs)))
               (read_items reader c fuel (itr, buf))
      else Some (Inr []))"

definition ri_block :: "'d container \<Rightarrow> int \<Rightarrow> int list list" where
  "ri_block c k = region_items (block_start (ri_dims c) (ri_tile c) k, block_extent (ri_dims c) (ri_tile c) k)"

definition ri_view :: "'d container \<Rightarrow> (int list \<Rightarrow> 'v) \<Rightarrow> int list \<Rightarrow> int list \<times> int \<times> 'v" where
  "ri_view c content ix = (ix, flat (ri_dims c) ix, content ix)"

text \<open>One call of \<open>next\<close>: into the next block, or one item on in the current one.\<close>

lemma read_next_enter:
  assumes src: "ri_source c" and rdy: "ri_ready c it" and k: "re_nblock it = k" "0 \<le> k" "k < block_count (ri_dims c) (ri_tile c)"
    and enter: "re_nelem_block it = re_cur_block_size it - 1 \<or> re_nelem it = 0"
    and rd: "\<And>s e len. reader s e len = Inr (map content (region_items (take (ndim (dtshape c)) s,
      map2 (-) (take (ndim (dtshape c)) e) (take (ndim (dtshape c)) s))))"
  obtains it' where "iarray_iter_read_next reader c (it, buf) = Inr (it', map content (ri_block c k))"
    and "ri_holds c k it'" "re_nelem_block it' = 0" "re_nelem it' = re_nelem it + 1"
    and "(take (ndim (dtshape c)) (re_elem_index it'), re_elem_flat_index it',
      map content (ri_block c k) ! nat (cdiv (re_pointer it') (c_itemsize (catarr c)))) = ri_view c content (hd (ri_block c k))"
    and "ri_block c k \<noteq> []"
proof -
  let ?S = "block_start (ri_dims c) (ri_tile c) k" and ?E = "block_extent (ri_dims c) (ri_tile c) k"
  have g: "good_blocks (ri_dims c) (ri_tile c)" using src by (simp add: ri_source_def)
  note l = ri_lengths [OF src]
  have sub: "map2 (-) (map2 (+) ?S ?E) ?S = ?E" by (rule nth_equalityI) (use l in simp_all)
  have pE: "0 < prod_list ?E" using block_extent_pos [OF g k(2,3)] by (rule all_pos_prod)
  then have j0: "0 < nat (prod_list ?E)" and ne: "ri_block c k \<noteq> []"
    by (simp_all add: ri_block_def length_region_items flip: length_greater_0_conv)
  obtain it1 where it1: "iter_read_load reader c (it, buf) = Inr (it1, map content (ri_block c k))"
    "ri_holds c k it1" "re_nelem_block it1 = 0" "re_nelem it1 = re_nelem it"
    using read_load [where reader = reader and c = c and it = it and buf = buf and
        rd = "\<lambda>s e. map content (region_items (s, map2 (-) e s))", OF src rdy] k rd sub
    by (auto simp: ri_block_def)
  have z: "re_nelem_block it1 = int 0" using it1(3) by simp
  note loc = read_locate [OF src it1(2) k(2,3) z j0]
  show ?thesis
  proof (rule that [of "iter_read_locate c it1"])
    show "iarray_iter_read_next reader c (it, buf) = Inr (iter_read_locate c it1, map content (ri_block c k))"
      using enter it1 by (simp add: iarray_iter_read_next_def)
    show "(take (ndim (dtshape c)) (re_elem_index (iter_read_locate c it1)), re_elem_flat_index (iter_read_locate c it1),
      map content (ri_block c k) ! nat (cdiv (re_pointer (iter_read_locate c it1)) (c_itemsize (catarr c)))) =
      ri_view c content (hd (ri_block c k))"
      using loc ne by (simp add: ri_view_def hd_conv_nth cdiv_nonneg) (simp add: ri_block_def cdiv_def)
  qed (use loc it1 ne in simp_all)
qed

lemma read_next_stay:
  assumes src: "ri_source c" and h: "ri_holds c k it" and k: "0 \<le> k" "k < block_count (ri_dims c) (ri_tile c)"
    and j: "re_nelem_block it = int j" "Suc j < length (ri_block c k)" and "re_nelem it \<noteq> 0"
  obtains it' where "iarray_iter_read_next reader c (it, buf) = Inr (it', buf)"
    and "ri_holds c k it'" "re_nelem_block it' = int (Suc j)" "re_nelem it' = re_nelem it + 1"
    and "take (ndim (dtshape c)) (re_elem_index it') = ri_block c k ! Suc j"
    and "re_elem_flat_index it' = flat (ri_dims c) (ri_block c k ! Suc j)"
    and "re_pointer it' = int (Suc j) * c_itemsize (catarr c)"
proof -
  have sz: "re_cur_block_size it = prod_list (block_extent (ri_dims c) (ri_tile c) k)"
    using h by (simp add: ri_holds_def)
  let ?it = "it\<lparr>re_nelem_block := re_nelem_block it + 1\<rparr>"
  have h': "ri_holds c k ?it" using h by (simp add: ri_holds_def ri_ready_def)
  have j': "re_nelem_block ?it = int (Suc j)" "Suc j < nat (prod_list (block_extent (ri_dims c) (ri_tile c) k))"
    using j by (simp_all add: ri_block_def length_region_items)
  note loc = read_locate [OF src h' k j']
  have "re_nelem_block it \<noteq> re_cur_block_size it - 1" using j j' sz by simp
  then have "iarray_iter_read_next reader c (it, buf) = Inr (iter_read_locate c ?it, buf)"
    using assms(7) by (simp add: iarray_iter_read_next_def)
  then show ?thesis using loc by (intro that [of "iter_read_locate c ?it"]) (simp_all add: ri_block_def)
qed

definition ri_rest :: "'d container \<Rightarrow> int \<Rightarrow> nat \<Rightarrow> int list list" where
  "ri_rest c k j = drop (Suc j) (ri_block c k) @
     concat (map (ri_block c) (map int [nat k + 1..<nat (block_count (ri_dims c) (ri_tile c))]))"

lemma ri_rest_enter:
  assumes "0 \<le> k" "k + 1 < block_count (ri_dims c) (ri_tile c)" "Suc j = length (ri_block c k)"
    "ri_block c (k + 1) \<noteq> []"
  shows "ri_rest c k j = hd (ri_block c (k + 1)) # ri_rest c (k + 1) 0"
proof -
  have "[nat k + 1..<nat (block_count (ri_dims c) (ri_tile c))] =
      nat (k + 1) # [nat (k + 1) + 1..<nat (block_count (ri_dims c) (ri_tile c))]"
    using assms(1,2) by (subst upt_rec) (simp add: nat_add_distrib)
  then show ?thesis
    using assms by (simp add: ri_rest_def) (cases "ri_block c (k + 1)"; simp)
qed

lemma ri_rest_stay:
  assumes "Suc j < length (ri_block c k)"
  shows "ri_rest c k j = ri_block c k ! Suc j # ri_rest c k (Suc j)"
  using assms by (simp add: ri_rest_def Cons_nth_drop_Suc [symmetric])

lemma read_items_from:
  assumes src: "ri_source c"
    and rd: "\<And>s e len. reader s e len = Inr (map content (region_items (take (ndim (dtshape c)) s,
      map2 (-) (take (ndim (dtshape c)) e) (take (ndim (dtshape c)) s))))"
  shows "ri_holds c k it \<Longrightarrow> 0 \<le> k \<Longrightarrow> k < block_count (ri_dims c) (ri_tile c) \<Longrightarrow>
    re_nelem_block it = int j \<Longrightarrow> j < length (ri_block c k) \<Longrightarrow> 0 < re_nelem it \<Longrightarrow>
    re_nelem it + int (length (ri_rest c k j)) = prod_list (ri_dims c) \<Longrightarrow>
    length (ri_rest c k j) < fuel \<Longrightarrow>
    read_items reader c fuel (it, map content (ri_block c k)) =
      Some (Inr (map (ri_view c content) (ri_rest c k j)))"
proof (induction fuel arbitrary: k it j)
  case (Suc fuel)
  have sz: "re_cont_size it = prod_list (ri_dims c)" "re_cur_block_size it = int (length (ri_block c k))"
    using Suc.prems(1,5) by (simp_all add: ri_holds_def ri_ready_def ri_block_def length_region_items)
  show ?case
  proof (cases "ri_rest c k j = []")
    case True
    then show ?thesis using Suc.prems sz by (simp add: iarray_iter_read_has_next_def)
  next
    case False
    then have has: "succeeds (iarray_iter_read_has_next it)"
      using Suc.prems(7) sz by (simp add: iarray_iter_read_has_next_def flip: length_greater_0_conv)
    show ?thesis
    proof (cases "Suc j < length (ri_block c k)")
      case True
      obtain it' where it': "iarray_iter_read_next reader c (it, map content (ri_block c k)) = Inr (it', map content (ri_block c k))"
        "ri_holds c k it'" "re_nelem_block it' = int (Suc j)" "re_nelem it' = re_nelem it + 1"
        "take (ndim (dtshape c)) (re_elem_index it') = ri_block c k ! Suc j"
        "re_elem_flat_index it' = flat (ri_dims c) (ri_block c k ! Suc j)"
        "re_pointer it' = int (Suc j) * c_itemsize (catarr c)"
        by (rule read_next_stay [OF src Suc.prems(1-4) True]) (use Suc.prems(6) in auto)
      have rest: "ri_rest c k j = ri_block c k ! Suc j # ri_rest c k (Suc j)" by (rule ri_rest_stay [OF True])
      have "read_items reader c fuel (it', map content (ri_block c k)) =
          Some (Inr (map (ri_view c content) (ri_rest c k (Suc j))))"
        by (rule Suc.IH) (use it' Suc.prems True rest in simp_all)
      moreover have "nat (cdiv (re_pointer it') (c_itemsize (catarr c))) = Suc j"
        using src cdiv_exact [of "c_itemsize (catarr c)" "int (Suc j)"] by (simp add: it'(7) ri_source_def del: of_nat_Suc)
      ultimately show ?thesis
        using has it' rest True by (simp add: ri_view_def)
    next
      case False
      then have last: "Suc j = length (ri_block c k)" using Suc.prems(5) by simp
      have "\<not> nat (block_count (ri_dims c) (ri_tile c)) \<le> nat k + 1"
        using \<open>ri_rest c k j \<noteq> []\<close> last by (auto simp: ri_rest_def)
      then have k1: "0 \<le> k + 1" "k + 1 < block_count (ri_dims c) (ri_tile c)" using Suc.prems(2) by simp_all
      have rdy: "ri_ready c it" "re_nblock it = k + 1" using Suc.prems(1) by (simp_all add: ri_holds_def)
      obtain it' where it': "iarray_iter_read_next reader c (it, map content (ri_block c k)) = Inr (it', map content (ri_block c (k + 1)))"
        "ri_holds c (k + 1) it'" "re_nelem_block it' = 0" "re_nelem it' = re_nelem it + 1"
        "(take (ndim (dtshape c)) (re_elem_index it'), re_elem_flat_index it',
          map content (ri_block c (k + 1)) ! nat (cdiv (re_pointer it') (c_itemsize (catarr c)))) = ri_view c content (hd (ri_block c (k + 1)))"
        "ri_block c (k + 1) \<noteq> []"
        by (rule read_next_enter [where content = content, OF src rdy k1 _ rd])
          (use Suc.prems(4) last sz in auto)
      have rest: "ri_rest c k j = hd (ri_block c (k + 1)) # ri_rest c (k + 1) 0"
        by (rule ri_rest_enter [OF Suc.prems(2) k1(2) last it'(6)])
      have "read_items reader c fuel (it', map content (ri_block c (k + 1))) =
          Some (Inr (map (ri_view c content) (ri_rest c (k + 1) 0)))"
        by (rule Suc.IH) (use it' Suc.prems k1 rest in simp_all)
      then show ?thesis using has it' rest by simp
    qed
  qed
qed simp

text \<open>The region of block \<open>k\<close>, as the loading step computes it.\<close>

definition ri_walk :: "'d container \<Rightarrow> int \<Rightarrow> int list \<times> int list" where
  "ri_walk c k =
     (case iter_read_load (\<lambda>_ _ _. Inr ()) c ((iarray_iter_read_new c)\<lparr>re_nblock := k\<rparr>, ()) of
        Inl _ \<Rightarrow> ([], [])
      | Inr (it, _) \<Rightarrow> (map2 (*) (take (ndim (dtshape c)) (re_cur_block_index it)) (take (ndim (dtshape c)) (re_block_shape it)),
                       take (ndim (dtshape c)) (re_cur_block_shape it)))"

lemma ri_walk_region:
  assumes "ri_source c" "0 \<le> k" "k < block_count (ri_dims c) (ri_tile c)"
  shows "ri_walk c k = (block_start (ri_dims c) (ri_tile c) k, block_extent (ri_dims c) (ri_tile c) k)"
proof -
  let ?it = "(iarray_iter_read_new c)\<lparr>re_nblock := k\<rparr>"
  have "ri_ready c ?it" using read_new_ready(1) [OF assms(1)] by (simp add: ri_ready_def)
  then obtain it' where "iter_read_load (\<lambda>_ _ _. Inr ()) c (?it, ()) = Inr (it', ())" "ri_holds c k it'"
    using read_load [where reader = "\<lambda>_ _ _. Inr ()" and rd = "\<lambda>_ _. ()" and c = c and it = ?it and buf = "()"] assms
    by auto
  then show ?thesis by (simp add: ri_walk_def ri_holds_def ri_ready_def block_start_def)
qed

interpretation ri: block_walk ri_source ri_dims ri_tile ri_walk
  by unfold_locales (simp_all add: ri_walk_region, simp add: ri_source_def)

section \<open>Properties of the item iterator for reading\<close>

text \<open>
  Claim C21. The loop \<open>while (has_next) next\<close> over the items of an array (or of a view, also a transposed one)
  ends and visits every item exactly once; at each step \<open>elem_index\<close> is the index of the item,
  \<open>elem_flat_index\<close> its row-major position in the array, and \<open>elem_pointer\<close> points at its value in the
  loaded chunk, provided the slice reader returns the items of a region in row-major order.
\<close>

theorem read_items_all:
  assumes "ri_source c"
    and "\<And>s e len. reader s e len = Inr (map content (region_items (take (ndim (dtshape c)) s,
      map2 (-) (take (ndim (dtshape c)) e) (take (ndim (dtshape c)) s))))"
    and "nat (prod_list (take (ndim (dtshape c)) (shape (dtshape c)))) < fuel"
  shows "\<exists>xs. read_items reader c fuel (iarray_iter_read_new c, buf) =
      Some (Inr (map (\<lambda>ix. (ix, flat (take (ndim (dtshape c)) (shape (dtshape c))) ix, content ix)) xs)) \<and>
    distinct xs \<and> set xs = {ix. in_box (take (ndim (dtshape c)) (shape (dtshape c))) ix}"
proof -
  let ?B = "block_count (ri_dims c) (ri_tile c)"
  let ?xs = "walk_items (ri_walk c) ?B"
  note once = ri.items_once [OF assms(1)]
  have g: "good_blocks (ri_dims c) (ri_tile c)" using assms(1) by (simp add: ri_source_def)
  have B: "0 < ?B" by (rule block_count_pos [OF g])
  have "?xs = concat (map (ri_block c) (below ?B))"
    unfolding walk_items_def
    by (rule arg_cong [where f = concat], rule map_cong [OF refl])
      (use assms(1) in \<open>auto simp: ri_walk_region ri_block_def\<close>)
  also have "below ?B = 0 # map int [1..<nat ?B]" using B by (simp add: below_def upt_conv_Cons)
  finally have xs: "?xs = ri_block c 0 @ concat (map (ri_block c) (map int [nat 0 + 1..<nat ?B]))" by simp
  note new = read_new_ready [OF assms(1)]
  obtain it' where it': "iarray_iter_read_next reader c (iarray_iter_read_new c, buf) = Inr (it', map content (ri_block c 0))"
    "ri_holds c 0 it'" "re_nelem_block it' = 0" "re_nelem it' = re_nelem (iarray_iter_read_new c) + 1"
    "(take (ndim (dtshape c)) (re_elem_index it'), re_elem_flat_index it',
      map content (ri_block c 0) ! nat (cdiv (re_pointer it') (c_itemsize (catarr c)))) = ri_view c content (hd (ri_block c 0))"
    "ri_block c 0 \<noteq> []"
    by (rule read_next_enter [where content = content, OF assms(1) new(1,3) order_refl B _ assms(2)])
      (use new(2) in auto)
  have xs': "?xs = hd (ri_block c 0) # ri_rest c 0 0"
    using it'(6) by (simp add: xs ri_rest_def) (cases "ri_block c 0"; simp)
  obtain n where n: "fuel = Suc n" "length (ri_rest c 0 0) < n"
    using assms(3) once(3) xs' by (cases fuel) (simp_all add: ri_dims_def)
  have "read_items reader c n (it', map content (ri_block c 0)) = Some (Inr (map (ri_view c content) (ri_rest c 0 0)))"
    by (rule read_items_from [OF assms(1,2)]) (use it' new B n once(3) xs' in simp_all)
  moreover have "succeeds (iarray_iter_read_has_next (iarray_iter_read_new c))"
    using new(1,2) once(3) xs' by (simp add: iarray_iter_read_has_next_def ri_ready_def)
  ultimately have "read_items reader c fuel (iarray_iter_read_new c, buf) = Some (Inr (map (ri_view c content) ?xs))"
    using it' xs' n by simp
  moreover have "ri_view c content = (\<lambda>ix. (ix, flat (ri_dims c) ix, content ix))"
    by (simp add: fun_eq_iff ri_view_def)
  ultimately show ?thesis
    using once(1,2) by (intro exI [of _ ?xs]) (simp add: ri_dims_def)
qed

lemma sample_grid_ri: "ri_source sample_grid"
  by (simp add: ri_source_def sample_grid_def good_blocks_def CATERVA_MAX_DIM_def ri_dims_def ri_tile_def Let_def)

lemma read_items_all_witness:
  "\<exists>xs. read_items (\<lambda>s e _. Inr (map (\<lambda>ix. ix ! 0 * 10 + ix ! 1) (region_items (take 2 s,
      map2 (-) (take 2 e) (take 2 s))))) sample_grid 36 (iarray_iter_read_new sample_grid, []) =
      Some (Inr (map (\<lambda>ix. (ix, flat [5, 7] ix, ix ! 0 * 10 + ix ! 1)) xs)) \<and> distinct xs \<and>
    set xs = {ix. in_box [5, 7] ix}"
proof -
  have nd: "ndim (dtshape sample_grid) = 2" "take 2 (shape (dtshape sample_grid)) = [5, 7]"
    by (simp_all add: sample_grid_def)
  show ?thesis
    using read_items_all [OF sample_grid_ri, of "\<lambda>s e _. Inr (map (\<lambda>ix. ix ! 0 * 10 + ix ! 1) (region_items (take 2 s,
      map2 (-) (take 2 e) (take 2 s))))" "\<lambda>ix. ix ! 0 * 10 + ix ! 1" 36 "[]"] by (simp add: nd)
qed

section \<open>Writing item by item\<close>

definition wi_dims :: "'d caterva_array \<Rightarrow> int list" where
  "wi_dims cat = take (c_ndim cat) (c_shape cat)"

definition wi_tile :: "'d caterva_array \<Rightarrow> int list" where
  "wi_tile cat = take (c_ndim cat) (c_chunkshape cat)"

definition wi_source :: "'d caterva_array \<Rightarrow> bool" where
  "wi_source cat \<longleftrightarrow> (let nd = c_ndim cat in nd \<le> 8 \<and> length (c_shape cat) = 8 \<and> length (c_chunkshape cat) = 8 \<and>
     length (c_extshape cat) = 8 \<and> drop nd (c_shape cat) = replicate (8 - nd) 1 \<and>
     drop nd (c_chunkshape cat) = replicate (8 - nd) 1 \<and> good_blocks (wi_dims cat) (wi_tile cat) \<and>
     take nd (c_extshape cat) = map2 (*) (blocks_of (wi_dims cat) (wi_tile cat)) (wi_tile cat) \<and>
     c_nitems cat = prod_list (wi_dims cat) \<and> 0 < c_itemsize cat)"

text \<open>The iterator stands in block \<open>k\<close>.\<close>

definition wi_holds :: "'d caterva_array \<Rightarrow> int \<Rightarrow> write_iter \<Rightarrow> bool" where
  "wi_holds cat k it \<longleftrightarrow> we_nblock it = k \<and> length (we_cur_block_index it) = 8 \<and>
     length (we_cur_block_shape it) = 8 \<and> length (we_elem_index it) = 8 \<and>
     take (c_ndim cat) (we_cur_block_index it) = unflat (blocks_of (wi_dims cat) (wi_tile cat)) k \<and>
     take (c_ndim cat) (we_cur_block_shape it) = block_extent (wi_dims cat) (wi_tile cat) k \<and>
     we_cur_block_size it = prod_list (block_extent (wi_dims cat) (wi_tile cat) k)"

lemma wi_lengths:
  assumes "wi_source cat"
  shows "length (wi_dims cat) = c_ndim cat" "length (wi_tile cat) = c_ndim cat"
    "length (blocks_of (wi_dims cat) (wi_tile cat)) = c_ndim cat"
    "length (block_start (wi_dims cat) (wi_tile cat) k) = c_ndim cat"
    "length (block_extent (wi_dims cat) (wi_tile cat) k) = c_ndim cat"
  using assms by (simp_all add: wi_source_def wi_dims_def wi_tile_def Let_def)

lemma unflat_0: "unflat ns 0 = replicate (length ns) 0"
  by (induction ns) simp_all

lemma wi_nth:
  assumes "wi_source cat" "i < c_ndim cat"
  shows "c_shape cat ! i = wi_dims cat ! i" "c_chunkshape cat ! i = wi_tile cat ! i"
    "c_extshape cat ! i = blocks_of (wi_dims cat) (wi_tile cat) ! i * wi_tile cat ! i"
    "0 < wi_tile cat ! i" "0 < wi_dims cat ! i"
proof -
  note l = wi_lengths [OF assms(1)]
  have s: "take (c_ndim cat) (c_extshape cat) = map2 (*) (blocks_of (wi_dims cat) (wi_tile cat)) (wi_tile cat)"
    "good_blocks (wi_dims cat) (wi_tile cat)"
    using assms(1) by (simp_all add: wi_source_def Let_def)
  have "c_extshape cat ! i = map2 (*) (blocks_of (wi_dims cat) (wi_tile cat)) (wi_tile cat) ! i"
    using nth_take [OF assms(2), of "c_extshape cat"] by (simp add: s)
  then show "c_extshape cat ! i = blocks_of (wi_dims cat) (wi_tile cat) ! i * wi_tile cat ! i"
    using l assms by simp
  show "c_shape cat ! i = wi_dims cat ! i" "c_chunkshape cat ! i = wi_tile cat ! i"
    using assms(2) by (simp_all add: wi_dims_def wi_tile_def)
  show "0 < wi_tile cat ! i" "0 < wi_dims cat ! i"
    using s(2) l assms(2) by (simp_all add: good_blocks_def all_pos_nth)
qed

lemma write_new_holds:
  assumes "wi_source cat"
  shows "wi_holds cat 0 (iarray_iter_write_new cat)" "we_nelem (iarray_iter_write_new cat) = 0"
    "we_nelem_block (iarray_iter_write_new cat) = 0"
proof -
  let ?nd = "c_ndim cat" and ?E = "block_extent (wi_dims cat) (wi_tile cat) 0"
  let ?f = "\<lambda>cs sh. if cs > sh then sh else (cs :: int)"
  let ?b = "map2 ?f (c_chunkshape cat) (c_shape cat)"
  note l = wi_lengths [OF assms]
  have n: "?nd \<le> 8" "length (c_shape cat) = 8" "length (c_chunkshape cat) = 8"
    "drop ?nd (c_shape cat) = replicate (8 - ?nd) 1" "drop ?nd (c_chunkshape cat) = replicate (8 - ?nd) 1"
    using assms by (simp_all add: wi_source_def Let_def)
  have t: "take ?nd ?b = ?E"
  proof (rule nth_equalityI)
    fix i assume "i < length (take ?nd ?b)"
    then have i: "i < ?nd" by simp
    show "take ?nd ?b ! i = ?E ! i"
      using i n l wi_nth [OF assms i] by (simp add: block_extent_nth block_start_nth unflat_0)
  qed (use n l in simp)
  have d: "drop ?nd ?b = replicate (8 - ?nd) 1" by (simp add: drop_map drop_zip n zip_replicate)
  have "prod_list ?b = prod_list (take ?nd ?b) * prod_list (drop ?nd ?b)"
    by (simp flip: prod_list.append)
  also have "\<dots> = prod_list ?E" by (simp only: t d) simp
  finally have p: "fold (\<lambda>b t. t * b) ?b 1 = prod_list ?E"
    using fold_mult_map [of "\<lambda>x. x" ?b 1] by simp
  show "wi_holds cat 0 (iarray_iter_write_new cat)"
    using n t l p by (simp add: wi_holds_def iarray_iter_write_new_def Let_def unflat_0)
  show "we_nelem (iarray_iter_write_new cat) = 0" "we_nelem_block (iarray_iter_write_new cat) = 0"
    by (simp_all add: iarray_iter_write_new_def Let_def)
qed

lemma write_advance_holds:
  assumes src: "wi_source cat" and nb: "we_nblock it = k" and h8: "length (we_cur_block_index it) = 8"
      "length (we_cur_block_shape it) = 8" "length (we_elem_index it) = 8"
    and k: "0 \<le> k" "k + 1 < block_count (wi_dims cat) (wi_tile cat)"
  shows "wi_holds cat (k + 1) (iter_write_advance cat it)" "we_nelem_block (iter_write_advance cat it) = 0"
    "we_nelem (iter_write_advance cat it) = we_nelem it"
proof -
  let ?nd = "c_ndim cat" and ?E = "block_extent (wi_dims cat) (wi_tile cat) (k + 1)"
  let ?B = "blocks_of (wi_dims cat) (wi_tile cat)"
  note l = wi_lengths [OF src] and wn = wi_nth [OF src]
  have n: "?nd \<le> 8" "length (c_extshape cat) = 8" "length (c_chunkshape cat) = 8"
    and g: "good_blocks (wi_dims cat) (wi_tile cat)"
    using src by (simp_all add: wi_source_def Let_def)
  define aux where "aux = map2 cdiv (c_extshape cat) (c_chunkshape cat)"
  have ax: "take ?nd aux = ?B"
    by (rule nth_equalityI) (use n l wn in \<open>auto simp: aux_def cdiv_exact\<close>)
  define idx where "idx = mixed_radix ?nd aux (k + 1) (we_cur_block_index it)"
  have idx: "idx = unflat ?B (k + 1) @ drop ?nd (we_cur_block_index it)"
    unfolding idx_def using n ax h8 k good_blocks_of [OF g]
    by (subst mixed_radix_unflat) (simp_all add: good_shape_def block_count_def aux_def)
  define bsh where "bsh = set_prefix ?nd (\<lambda>i. if (idx ! i + 1) * c_chunkshape cat ! i > c_shape cat ! i
                  then c_shape cat ! i - idx ! i * c_chunkshape cat ! i else c_chunkshape cat ! i)
                  (we_cur_block_shape it)"
  have E: "take ?nd bsh = ?E"
  proof (rule nth_equalityI)
    fix i assume "i < length (take ?nd bsh)"
    then have i: "i < ?nd" by simp
    have "bsh ! i = (if (unflat ?B (k + 1) ! i + 1) * wi_tile cat ! i > wi_dims cat ! i
        then wi_dims cat ! i - unflat ?B (k + 1) ! i * wi_tile cat ! i else wi_tile cat ! i)"
      using i n h8 l wn [OF i] by (simp add: bsh_def set_prefix_nth idx nth_append)
    also have "\<dots> = ?E ! i" using i l by (simp add: block_extent_nth block_start_nth min_def algebra_simps)
    finally show "take ?nd bsh ! i = ?E ! i" using i by simp
  qed (use n h8 l in \<open>simp add: bsh_def\<close>)
  have sz: "fold (\<lambda>i t. t * bsh ! i) (rev [0..<?nd]) 1 = prod_list ?E"
    using n h8 by (subst fold_take_prod) (simp_all add: E, simp add: bsh_def)
  have q: "iter_write_advance cat it = it\<lparr>we_nblock := k + 1, we_cur_block_index := idx, we_cur_block_shape := bsh,
             we_cur_block_size := prod_list ?E, we_nelem_block := 0\<rparr>"
    unfolding iter_write_advance_def Let_def nb aux_def [symmetric] idx_def [symmetric] bsh_def [symmetric] sz ..
  show "wi_holds cat (k + 1) (iter_write_advance cat it)" "we_nelem_block (iter_write_advance cat it) = 0"
    "we_nelem (iter_write_advance cat it) = we_nelem it"
    using idx h8 l E n by (simp_all add: q wi_holds_def, simp add: bsh_def)
qed

definition wi_block :: "'d caterva_array \<Rightarrow> int \<Rightarrow> int list list" where
  "wi_block cat k = region_items (block_start (wi_dims cat) (wi_tile cat) k, block_extent (wi_dims cat) (wi_tile cat) k)"

lemma write_locate:
  assumes src: "wi_source cat" and h: "wi_holds cat k it" and k: "0 \<le> k" "k < block_count (wi_dims cat) (wi_tile cat)"
    and j: "we_nelem_block it = int j" "j < length (wi_block cat k)"
  shows "wi_holds cat k (iter_write_locate cat it)"
    "take (c_ndim cat) (we_elem_index (iter_write_locate cat it)) = wi_block cat k ! j"
    "we_elem_flat_index (iter_write_locate cat it) = flat (wi_dims cat) (wi_block cat k ! j)"
    "we_pointer (iter_write_locate cat it) = int j * c_itemsize cat"
    "we_nelem (iter_write_locate cat it) = we_nelem it + 1"
    "we_nelem_block (iter_write_locate cat it) = int j"
proof -
  let ?nd = "c_ndim cat" and ?S = "block_start (wi_dims cat) (wi_tile cat) k"
  let ?E = "block_extent (wi_dims cat) (wi_tile cat) k" and ?bsh = "we_cur_block_shape it"
  let ?item = "wi_block cat k ! j"
  note l = wi_lengths [OF src] and wn = wi_nth [OF src]
  have n: "?nd \<le> 8" "length (c_shape cat) = 8" and g: "good_blocks (wi_dims cat) (wi_tile cat)"
    using src by (simp_all add: wi_source_def Let_def)
  have r: "take ?nd ?bsh = ?E" "length ?bsh = 8" "length (we_elem_index it) = 8"
    "take ?nd (we_cur_block_index it) = unflat (blocks_of (wi_dims cat) (wi_tile cat)) k" "length (we_cur_block_index it) = 8"
    using h by (simp_all add: wi_holds_def)
  have pE: "all_pos ?E" by (rule block_extent_pos [OF g k])
  have jE: "j < nat (prod_list ?E)" "int j < prod_list ?E"
    using j(2) by (simp_all add: wi_block_def length_region_items)
  define ind where "ind = mixed_radix ?nd ?bsh (we_nelem_block it) fresh_slots"
  have ind: "ind = unflat ?E (int j) @ drop ?nd fresh_slots"
    unfolding ind_def using n r pE jE j(1) by (subst mixed_radix_unflat) simp_all
  have ti: "take ?nd ind = unflat ?E (int j)" "?nd \<le> length ind" using l n by (simp_all add: ind)
  define elem where "elem = set_prefix ?nd (\<lambda>i. ind ! i + we_cur_block_index it ! i * c_chunkshape cat ! i) (we_elem_index it)"
  have item: "?item = map2 (+) ?S (unflat ?E (int j))"
    using region_items_nth [OF jE(1)] by (simp add: wi_block_def)
  have el: "take ?nd elem = ?item"
  proof (rule nth_equalityI)
    fix i assume "i < length (take ?nd elem)"
    then have i: "i < ?nd" by simp
    have "we_cur_block_index it ! i = unflat (blocks_of (wi_dims cat) (wi_tile cat)) k ! i"
      using i r(4) by (metis nth_take)
    then have "elem ! i = unflat ?E (int j) ! i + ?S ! i"
      using i n r l wn(2) [OF i] by (simp add: elem_def set_prefix_nth ind nth_append block_start_nth)
    then show "take ?nd elem ! i = ?item ! i" using i l by (simp add: item)
  qed (use n r l in \<open>simp add: elem_def item\<close>)
  have le: "length elem = 8" using r by (simp add: elem_def)
  have fl: "fst (fold (\<lambda>i (f, inc_s). (f + elem ! i * inc_s, inc_s * c_shape cat ! i)) (rev [0..<?nd]) (0, 1)) =
      flat (wi_dims cat) ?item"
    using n le by (simp add: fold_flat_down el wi_dims_def)
  have pt: "fst (fold (\<lambda>i (p, inc_p). (p + ind ! i * inc_p, inc_p * ?bsh ! i)) (rev [0..<?nd]) (0, 1)) = int j"
    using n r ti pE jE by (simp add: fold_flat_down flat_unflat)
  have q: "iter_write_locate cat it = it\<lparr>we_elem_index := elem, we_elem_flat_index := flat (wi_dims cat) ?item,
             we_pointer := int j * c_itemsize cat, we_nelem := we_nelem it + 1\<rparr>"
    unfolding iter_write_locate_def Let_def ind_def [symmetric] elem_def [symmetric] fl pt ..
  show "wi_holds cat k (iter_write_locate cat it)" using h le by (simp add: q wi_holds_def)
  show "take ?nd (we_elem_index (iter_write_locate cat it)) = ?item"
    "we_elem_flat_index (iter_write_locate cat it) = flat (wi_dims cat) ?item"
    "we_pointer (iter_write_locate cat it) = int j * c_itemsize cat"
    "we_nelem (iter_write_locate cat it) = we_nelem it + 1"
    "we_nelem_block (iter_write_locate cat it) = int j"
    using el j by (simp_all add: q)
qed

lemma write_flush_region:
  assumes src: "wi_source cat" and h: "wi_holds cat k it"
    and ss: "\<And>a b shp len s. set_slice a b shp len s = Inr (put (take (c_ndim cat) a) (take (c_ndim cat) b) s)"
  shows "iter_write_flush set_slice cat (c_ndim cat) it s =
    Inr (put (block_start (wi_dims cat) (wi_tile cat) k)
      (map2 (+) (block_start (wi_dims cat) (wi_tile cat) k) (block_extent (wi_dims cat) (wi_tile cat) k)) s)"
proof -
  let ?nd = "c_ndim cat" and ?S = "block_start (wi_dims cat) (wi_tile cat) k"
  let ?E = "block_extent (wi_dims cat) (wi_tile cat) k"
  note l = wi_lengths [OF src] and wn = wi_nth [OF src]
  have n: "?nd \<le> 8" using src by (simp add: wi_source_def Let_def)
  define start where "start = set_prefix ?nd (\<lambda>i. we_cur_block_index it ! i * c_chunkshape cat ! i) fresh_slots"
  define stop where "stop = set_prefix ?nd (\<lambda>i. start ! i + we_cur_block_shape it ! i) fresh_slots"
  have bi: "we_cur_block_index it ! i = unflat (blocks_of (wi_dims cat) (wi_tile cat)) k ! i"
    "we_cur_block_shape it ! i = ?E ! i" if "i < ?nd" for i
    using h that unfolding wi_holds_def by (metis nth_take)+
  have S: "take ?nd start = ?S"
    by (rule nth_equalityI) (use n l bi wn in \<open>auto simp: start_def set_prefix_nth block_start_nth\<close>)
  have st: "start ! i = ?S ! i" if "i < ?nd" for i using that by (simp flip: S)
  have "take ?nd stop = map2 (+) ?S ?E"
    by (rule nth_equalityI) (use n l bi st in \<open>auto simp: stop_def set_prefix_nth\<close>)
  then show ?thesis
    using S by (simp add: iter_write_flush_def Let_def ss flip: start_def stop_def)
qed

text \<open>
  The loop of a client: \<open>while (has_next) { next; write }\<close>, where \<open>write index flat slot\<close> stores a value in
  slot \<open>elem_pointer / itemsize\<close> of the chunk buffer, which is a part of the state.
\<close>

fun write_items ::
    "(int list \<Rightarrow> int list \<Rightarrow> int list \<Rightarrow> int \<Rightarrow> 's \<Rightarrow> 's res) \<Rightarrow> 'd caterva_array \<Rightarrow> nat \<Rightarrow>
     (int list \<Rightarrow> int \<Rightarrow> int \<Rightarrow> 's \<Rightarrow> 's) \<Rightarrow> nat \<Rightarrow> write_iter \<times> 's \<Rightarrow> 's res option" where
  "write_items set_slice cat nd write 0 st = None"
| "write_items set_slice cat nd write (Suc fuel) st =
     (case iarray_iter_write_has_next set_slice cat nd st of
        Inl e \<Rightarrow> Some (Inl e)
      | Inr (s, Inl _) \<Rightarrow> Some (Inr s)
      | Inr (s, Inr _) \<Rightarrow>
        (case iarray_iter_write_next set_slice cat nd (fst st, s) of
           Inl e \<Rightarrow> Some (Inl e)
         | Inr (itr, s) \<Rightarrow> write_items set_slice cat nd write fuel
             (itr, write (take (c_ndim cat) (we_elem_index itr)) (we_elem_flat_index itr)
                     (cdiv (we_pointer itr) (c_itemsize cat)) s)))"

definition wi_write :: "'d caterva_array \<Rightarrow> (int list \<Rightarrow> int \<Rightarrow> int \<Rightarrow> 's \<Rightarrow> 's) \<Rightarrow> int \<Rightarrow> nat \<Rightarrow> 's \<Rightarrow> 's" where
  "wi_write cat write k j = write (wi_block cat k ! j) (flat (wi_dims cat) (wi_block cat k ! j)) (int j)"

definition wi_put :: "'d caterva_array \<Rightarrow> (int list \<Rightarrow> int list \<Rightarrow> 's \<Rightarrow> 's) \<Rightarrow> int \<Rightarrow> 's \<Rightarrow> 's" where
  "wi_put cat put k = put (block_start (wi_dims cat) (wi_tile cat) k)
     (map2 (+) (block_start (wi_dims cat) (wi_tile cat) k) (block_extent (wi_dims cat) (wi_tile cat) k))"

text \<open>Everything that happens to block \<open>k\<close>: its items are written in order, then the block is stored.\<close>

definition wi_step :: "'d caterva_array \<Rightarrow> (int list \<Rightarrow> int \<Rightarrow> int \<Rightarrow> 's \<Rightarrow> 's) \<Rightarrow> (int list \<Rightarrow> int list \<Rightarrow> 's \<Rightarrow> 's) \<Rightarrow>
    int \<Rightarrow> 's \<Rightarrow> 's" where
  "wi_step cat write put k s = wi_put cat put k (fold (wi_write cat write k) [0..<length (wi_block cat k)] s)"

text \<open>Number of items still to come after item \<open>j\<close> of block \<open>k\<close>.\<close>

definition wi_left :: "'d caterva_array \<Rightarrow> int \<Rightarrow> nat \<Rightarrow> nat" where
  "wi_left cat k j = length (wi_block cat k) - Suc j +
     sum_list (map (\<lambda>k. length (wi_block cat (int k))) [nat k + 1..<nat (block_count (wi_dims cat) (wi_tile cat))])"

lemma wi_block_nonempty:
  assumes "wi_source cat" "0 \<le> k" "k < block_count (wi_dims cat) (wi_tile cat)"
  shows "0 < length (wi_block cat k)"
proof -
  have "good_blocks (wi_dims cat) (wi_tile cat)" using assms(1) by (simp add: wi_source_def Let_def)
  then show ?thesis
    using all_pos_prod [OF block_extent_pos [OF _ assms(2,3)]] by (simp add: wi_block_def length_region_items)
qed

lemma wi_left_enter:
  assumes "wi_source cat" "0 \<le> k" "k + 1 < block_count (wi_dims cat) (wi_tile cat)" "Suc j = length (wi_block cat k)"
  shows "wi_left cat k j = Suc (wi_left cat (k + 1) 0)"
proof -
  have "[nat k + 1..<nat (block_count (wi_dims cat) (wi_tile cat))] =
      nat (k + 1) # [nat (k + 1) + 1..<nat (block_count (wi_dims cat) (wi_tile cat))]"
    using assms(2,3) by (subst upt_rec) (simp add: nat_add_distrib)
  then show ?thesis
    using assms wi_block_nonempty [OF assms(1), of "k + 1"] by (simp add: wi_left_def)
qed

lemma wi_left_0:
  assumes "wi_source cat" "0 \<le> k" "k < block_count (wi_dims cat) (wi_tile cat)" "j < length (wi_block cat k)"
  shows "wi_left cat k j = 0 \<longleftrightarrow> Suc j = length (wi_block cat k) \<and> k + 1 = block_count (wi_dims cat) (wi_tile cat)"
proof (cases "k + 1 = block_count (wi_dims cat) (wi_tile cat)")
  case True
  then have "nat (block_count (wi_dims cat) (wi_tile cat)) = nat k + 1" using assms(2) by simp
  then show ?thesis using assms True by (auto simp: wi_left_def)
next
  case False
  then have "nat k + 1 \<in> set [nat k + 1..<nat (block_count (wi_dims cat) (wi_tile cat))]" "0 \<le> k + 1"
    "k + 1 < block_count (wi_dims cat) (wi_tile cat)" using assms by simp_all
  moreover have "0 < length (wi_block cat (k + 1))" by (rule wi_block_nonempty [OF assms(1)]) fact+
  moreover have "int (nat k + 1) = k + 1" using assms(2) by simp
  ultimately have "\<exists>n \<in> set [nat k + 1..<nat (block_count (wi_dims cat) (wi_tile cat))]. wi_block cat (int n) \<noteq> []"
    by (intro bexI [of _ "nat k + 1"]) (simp_all add: add.commute)
  then show ?thesis using False unfolding wi_left_def by (auto simp: sum_list_eq_0_iff)
qed

definition wi_rest :: "'d caterva_array \<Rightarrow> (int list \<Rightarrow> int \<Rightarrow> int \<Rightarrow> 's \<Rightarrow> 's) \<Rightarrow> (int list \<Rightarrow> int list \<Rightarrow> 's \<Rightarrow> 's) \<Rightarrow>
    int \<Rightarrow> nat \<Rightarrow> 's \<Rightarrow> 's" where
  "wi_rest cat write put k j s =
     fold (wi_step cat write put) (map int [nat k + 1..<nat (block_count (wi_dims cat) (wi_tile cat))])
       (wi_put cat put k (fold (wi_write cat write k) [Suc j..<length (wi_block cat k)] s))"

lemma wi_rest_stay:
  "Suc j < length (wi_block cat k) \<Longrightarrow>
   wi_rest cat write put k j s = wi_rest cat write put k (Suc j) (wi_write cat write k (Suc j) s)"
  by (simp add: wi_rest_def upt_conv_Cons)

lemma wi_rest_enter:
  assumes "wi_source cat" "0 \<le> k" "k + 1 < block_count (wi_dims cat) (wi_tile cat)" "Suc j = length (wi_block cat k)"
  shows "wi_rest cat write put k j s = wi_rest cat write put (k + 1) 0 (wi_write cat write (k + 1) 0 (wi_put cat put k s))"
proof -
  have "[nat k + 1..<nat (block_count (wi_dims cat) (wi_tile cat))] =
      nat (k + 1) # [nat (k + 1) + 1..<nat (block_count (wi_dims cat) (wi_tile cat))]"
    using assms(2,3) by (subst upt_rec) (simp add: nat_add_distrib)
  moreover have "int (nat (k + 1)) = k + 1" using assms(2) by simp
  moreover have "[0..<length (wi_block cat (k + 1))] = 0 # [Suc 0..<length (wi_block cat (k + 1))]"
    using wi_block_nonempty [OF assms(1), of "k + 1"] assms(2,3) by (simp add: upt_conv_Cons)
  ultimately show ?thesis using assms(2,4) by (simp add: wi_rest_def wi_step_def)
qed

lemma write_items_from:
  assumes src: "wi_source cat"
    and ss: "\<And>a b shp len s. set_slice a b shp len s = Inr (put (take (c_ndim cat) a) (take (c_ndim cat) b) s)"
  shows "wi_holds cat k it \<Longrightarrow> 0 \<le> k \<Longrightarrow> k < block_count (wi_dims cat) (wi_tile cat) \<Longrightarrow>
    we_nelem_block it = int j \<Longrightarrow> j < length (wi_block cat k) \<Longrightarrow> 0 < we_nelem it \<Longrightarrow>
    we_nelem it + int (wi_left cat k j) = c_nitems cat \<Longrightarrow> wi_left cat k j < fuel \<Longrightarrow>
    write_items set_slice cat (c_ndim cat) write fuel (it, s) = Some (Inr (wi_rest cat write put k j s))"
proof (induction fuel arbitrary: k it j s)
  case (Suc fuel)
  have fl: "iter_write_flush set_slice cat (c_ndim cat) it s' = Inr (wi_put cat put k s')" for s'
    using write_flush_region [where set_slice = set_slice and put = put, OF src Suc.prems(1) ss] by (simp add: wi_put_def)
  have sz: "we_cur_block_size it = int (length (wi_block cat k))"
    using Suc.prems(1,5) by (simp add: wi_holds_def wi_block_def length_region_items)
  have ptr: "cdiv (int i * c_itemsize cat) (c_itemsize cat) = int i" for i
    using src by (simp add: cdiv_exact wi_source_def Let_def)
  show ?case
  proof (cases "wi_left cat k j = 0")
    case True
    then have "Suc j = length (wi_block cat k)" "nat (block_count (wi_dims cat) (wi_tile cat)) = nat k + 1"
      using wi_left_0 [OF src Suc.prems(2,3,5)] Suc.prems(2) by (simp, linarith)
    moreover have "we_nelem it = c_nitems cat" using True Suc.prems(7) by simp
    ultimately show ?thesis
      by (simp add: iarray_iter_write_has_next_def fl wi_rest_def)
  next
    case False
    then have hn: "iarray_iter_write_has_next set_slice cat (c_ndim cat) (it, s) = Inr (s, Inr ())"
      using Suc.prems(7) by (simp add: iarray_iter_write_has_next_def)
    show ?thesis
    proof (cases "Suc j < length (wi_block cat k)")
      case True
      let ?it = "it\<lparr>we_nelem_block := we_nelem_block it + 1\<rparr>"
      have h: "wi_holds cat k ?it" "we_nelem_block ?it = int (Suc j)"
        using Suc.prems(1,4) by (simp_all add: wi_holds_def)
      note loc = write_locate [OF src h(1) Suc.prems(2,3) h(2) True]
      have left: "wi_left cat k j = Suc (wi_left cat k (Suc j))" using True by (simp add: wi_left_def)
      have "iarray_iter_write_next set_slice cat (c_ndim cat) (it, s) = Inr (iter_write_locate cat ?it, s)"
        using True Suc.prems(4,6) sz by (simp add: iarray_iter_write_next_def)
      moreover have "write_items set_slice cat (c_ndim cat) write fuel (iter_write_locate cat ?it, wi_write cat write k (Suc j) s) =
          Some (Inr (wi_rest cat write put k (Suc j) (wi_write cat write k (Suc j) s)))"
        by (rule Suc.IH) (use loc Suc.prems True left in simp_all)
      ultimately show ?thesis
        using hn loc True ptr [of "Suc j"]
        by (simp add: wi_rest_stay wi_write_def del: of_nat_Suc)
    next
      case nl: False
      then have last: "Suc j = length (wi_block cat k)" using Suc.prems(5) by simp
      have k1: "0 \<le> k + 1" "k + 1 < block_count (wi_dims cat) (wi_tile cat)"
        using False last wi_left_0 [OF src Suc.prems(2,3,5)] Suc.prems(2,3) by auto
      have w: "we_nblock it = k" "length (we_cur_block_index it) = 8" "length (we_cur_block_shape it) = 8"
        "length (we_elem_index it) = 8" using Suc.prems(1) by (simp_all add: wi_holds_def)
      note adv = write_advance_holds [OF src w Suc.prems(2) k1(2)]
      have z: "we_nelem_block (iter_write_advance cat it) = int 0" using adv(2) by simp
      have ne: "0 < length (wi_block cat (k + 1))" by (rule wi_block_nonempty [OF src k1])
      note loc = write_locate [OF src adv(1) k1 z ne]
      have left: "wi_left cat k j = Suc (wi_left cat (k + 1) 0)" by (rule wi_left_enter [OF src Suc.prems(2) k1(2) last])
      have "iarray_iter_write_next set_slice cat (c_ndim cat) (it, s) =
          Inr (iter_write_locate cat (iter_write_advance cat it), wi_put cat put k s)"
        using last Suc.prems(4) sz by (simp add: iarray_iter_write_next_def fl)
      moreover have "write_items set_slice cat (c_ndim cat) write fuel (iter_write_locate cat (iter_write_advance cat it),
            wi_write cat write (k + 1) 0 (wi_put cat put k s)) =
          Some (Inr (wi_rest cat write put (k + 1) 0 (wi_write cat write (k + 1) 0 (wi_put cat put k s))))"
        by (rule Suc.IH) (use loc Suc.prems k1 ne left adv(3) in simp_all)
      ultimately show ?thesis
        using hn loc ptr [of 0] wi_rest_enter [OF src Suc.prems(2) k1(2) last, of "write" put s]
        by (simp add: wi_write_def)
    qed
  qed
qed simp

text \<open>The region of block \<open>k\<close>, as the step to the next block computes it.\<close>

definition wi_walk :: "'d caterva_array \<Rightarrow> int \<Rightarrow> int list \<times> int list" where
  "wi_walk cat k =
     (let it = if k = 0 then iarray_iter_write_new cat
               else iter_write_advance cat ((iarray_iter_write_new cat)\<lparr>we_nblock := k - 1\<rparr>)
      in (map2 (*) (take (c_ndim cat) (we_cur_block_index it)) (take (c_ndim cat) (c_chunkshape cat)),
          take (c_ndim cat) (we_cur_block_shape it)))"

lemma wi_walk_region:
  assumes "wi_source cat" "0 \<le> k" "k < block_count (wi_dims cat) (wi_tile cat)"
  shows "wi_walk cat k = (block_start (wi_dims cat) (wi_tile cat) k, block_extent (wi_dims cat) (wi_tile cat) k)"
proof (cases "k = 0")
  case True
  then show ?thesis
    using write_new_holds(1) [OF assms(1)]
    by (simp add: wi_walk_def wi_holds_def block_start_def wi_tile_def)
next
  case False
  let ?it = "(iarray_iter_write_new cat)\<lparr>we_nblock := k - 1\<rparr>"
  have "wi_holds cat (k - 1 + 1) (iter_write_advance cat ?it)"
    by (rule write_advance_holds(1) [OF assms(1)])
      (use write_new_holds(1) [OF assms(1)] assms False in \<open>simp_all add: wi_holds_def\<close>)
  then show ?thesis using False by (simp add: wi_walk_def wi_holds_def block_start_def wi_tile_def)
qed

interpretation wi: block_walk wi_source wi_dims wi_tile wi_walk
  by unfold_locales (simp_all add: wi_walk_region, simp add: wi_source_def Let_def)

lemma wi_items:
  assumes "wi_source cat"
  shows "Suc (wi_left cat 0 0) = length (walk_items (wi_walk cat) (block_count (wi_dims cat) (wi_tile cat)))"
proof -
  let ?B = "block_count (wi_dims cat) (wi_tile cat)"
  have B: "0 < ?B" using assms by (simp add: wi_source_def Let_def block_count_pos)
  have "walk_items (wi_walk cat) ?B = concat (map (wi_block cat) (below ?B))"
    unfolding walk_items_def
    by (rule arg_cong [where f = concat], rule map_cong [OF refl])
      (use assms in \<open>auto simp: wi_walk_region wi_block_def\<close>)
  moreover have "below ?B = 0 # map int [1..<nat ?B]" using B by (simp add: below_def upt_conv_Cons)
  ultimately show ?thesis
    using wi_block_nonempty [OF assms, of 0] B
    by (simp add: wi_left_def length_concat comp_def)
qed

section \<open>Properties of the item iterator for writing\<close>

text \<open>
  Claim C22. The loop \<open>while (has_next) { next; write }\<close> over the items of an array whose first chunk has
  more than one item ends, and its effect is that of: for each chunk in row-major order, write all its
  items in order, item \<open>j\<close> into slot \<open>j\<close> of the chunk buffer, then store the buffer as the
  region of the chunk, cropped to the array. The last chunk is stored by the final \<open>has_next\<close>.
\<close>

theorem write_items_all:
  assumes "wi_source cat" and "1 < length (wi_block cat 0)"
    and "\<And>a b shp len s. set_slice a b shp len s = Inr (put (take (c_ndim cat) a) (take (c_ndim cat) b) s)"
    and "nat (c_nitems cat) < fuel"
  shows "write_items set_slice cat (c_ndim cat) write fuel (iarray_iter_write_new cat, s) =
    Some (Inr (fold (wi_step cat write put) (below (block_count (wi_dims cat) (wi_tile cat))) s))"
proof -
  let ?B = "block_count (wi_dims cat) (wi_tile cat)" and ?it = "iarray_iter_write_new cat"
  have B: "0 < ?B" using assms(1) by (simp add: wi_source_def Let_def block_count_pos)
  note new = write_new_holds [OF assms(1)]
  have z: "we_nelem_block ?it = int 0" using new(3) by simp
  have ne: "0 < length (wi_block cat 0)" using assms(2) by linarith
  note loc = write_locate [OF assms(1) new(1) order_refl B z ne]
  have items: "int (Suc (wi_left cat 0 0)) = c_nitems cat"
    using wi.items_once(3) [OF assms(1)] wi_items [OF assms(1)] assms(1)
    by (simp add: wi_source_def Let_def)
  obtain n where n: "fuel = Suc n" "wi_left cat 0 0 < n"
    using assms(4) items by (cases fuel) simp_all
  have sz: "we_cur_block_size ?it = int (length (wi_block cat 0))"
    using new(1) ne by (simp add: wi_holds_def wi_block_def length_region_items)
  have "iarray_iter_write_has_next set_slice cat (c_ndim cat) (?it, s) = Inr (s, Inr ())"
    using new(2) items by (simp add: iarray_iter_write_has_next_def)
  moreover have "iarray_iter_write_next set_slice cat (c_ndim cat) (?it, s) = Inr (iter_write_locate cat ?it, s)"
    using new(2,3) sz assms(2) by (simp add: iarray_iter_write_next_def)
  moreover have "write_items set_slice cat (c_ndim cat) write n (iter_write_locate cat ?it, wi_write cat write 0 0 s) =
      Some (Inr (wi_rest cat write put 0 0 (wi_write cat write 0 0 s)))"
    by (rule write_items_from [where set_slice = set_slice and put = put, OF assms(1,3)]) (use loc new B ne n items in simp_all)
  moreover have "wi_rest cat write put 0 0 (wi_write cat write 0 0 s) = fold (wi_step cat write put) (below ?B) s"
  proof -
    have "below ?B = 0 # map int [1..<nat ?B]" using B by (simp add: below_def upt_conv_Cons)
    moreover have "[0..<length (wi_block cat 0)] = 0 # [Suc 0..<length (wi_block cat 0)]"
      using ne by (simp add: upt_conv_Cons)
    ultimately show ?thesis by (simp add: wi_rest_def wi_step_def)
  qed
  ultimately show ?thesis using loc n by (simp add: wi_write_def cdiv_def)
qed

definition sample_wcat :: "unit caterva_array" where
  "sample_wcat = \<lparr> c_ndim = 1, c_shape = [5, 1, 1, 1, 1, 1, 1, 1], c_chunkshape = [2, 1, 1, 1, 1, 1, 1, 1],
     c_blockshape = [2, 1, 1, 1, 1, 1, 1, 1], c_extshape = [6, 1, 1, 1, 1, 1, 1, 1],
     c_extchunkshape = [2, 1, 1, 1, 1, 1, 1, 1], c_itemsize = 8, c_nitems = 5, c_nchunks = 3, c_data = () \<rparr>"

lemma write_items_all_witness:
  "write_items (\<lambda>a b _ _ s. Inr (s @ [Inr (take 1 a, take 1 b)])) sample_wcat 1 (\<lambda>ix f p s. s @ [Inl (ix, p)]) 6
    (iarray_iter_write_new sample_wcat, []) = Some (Inr
      [Inl ([0], 0), Inl ([1], 1), Inr ([0], [2]), Inl ([2], 0), Inl ([3], 1), Inr ([2], [4]), Inl ([4], 0), Inr ([4], [5])])"
proof -
  have src: "wi_source sample_wcat"
    by (simp add: wi_source_def sample_wcat_def Let_def wi_dims_def wi_tile_def good_blocks_def CATERVA_MAX_DIM_def
        blocks_of_def ceil_blocks_def c_arith eval_nat_numeral)
  have l: "1 < length (wi_block sample_wcat 0)" by code_simp
  have nd: "c_ndim sample_wcat = 1" "c_nitems sample_wcat = 5" by (simp_all add: sample_wcat_def)
  have r: "fold (wi_step sample_wcat (\<lambda>ix f p s. s @ [Inl (ix, p)]) (\<lambda>a b s. s @ [Inr (a, b)]))
      (below (block_count (wi_dims sample_wcat) (wi_tile sample_wcat))) [] =
    [Inl ([0], 0), Inl ([1], 1), Inr ([0], [2]), Inl ([2], 0), Inl ([3], 1), Inr ([2], [4]), Inl ([4], 0), Inr ([4], [5])]"
    by code_simp
  show ?thesis
    using write_items_all [OF src l, of "\<lambda>a b _ _ s. Inr (s @ [Inr (take 1 a, take 1 b)])" "\<lambda>a b s. s @ [Inr (a, b)]" 6
        "\<lambda>ix f p s. s @ [Inl (ix, p)]" "[]"] nd r by simp
qed

text \<open>With chunks of a single item the first \<open>next\<close> leaves chunk 0 before it was filled; it is visited last.\<close>

lemma write_items_unit_chunks:
  "write_items (\<lambda>a b _ _ s. Inr (s @ [Inr (take 1 a, take 1 b)]))
      (sample_wcat\<lparr>c_shape := [2, 1, 1, 1, 1, 1, 1, 1], c_chunkshape := replicate 8 1,
        c_extshape := [2, 1, 1, 1, 1, 1, 1, 1], c_nitems := 2\<rparr>) 1 (\<lambda>ix f p s. s @ [Inl ix]) 3
    (iarray_iter_write_new (sample_wcat\<lparr>c_shape := [2, 1, 1, 1, 1, 1, 1, 1], c_chunkshape := replicate 8 1,
        c_extshape := [2, 1, 1, 1, 1, 1, 1, 1], c_nitems := 2\<rparr>), []) = Some (Inr
      [Inr ([0], [1]), Inl [1], Inr ([1], [2]), Inl [0], Inr ([0], [1])])"
  by code_simp

section \<open>The matrix product iterator\<close>

lemma round_up_ceil: "0 < b \<Longrightarrow> 0 \<le> n \<Longrightarrow> round_up n b = ceil_blocks n b * b"
  by (auto simp: round_up_def ceil_blocks_def c_arith)

definition matmul_grid :: "int list \<Rightarrow> int list \<Rightarrow> nat \<Rightarrow> int list \<Rightarrow> int list \<Rightarrow> int list" where
  "matmul_grid shape1 shape2 nd2 ishape_a ishape_b =
     ceil_blocks (shape1 ! 0) (ishape_a ! 0) #
     (if nd2 = 1 then [] else [ceil_blocks (shape2 ! 1) (ishape_b ! 1)]) @
     [ceil_blocks (shape1 ! 1) (ishape_a ! 1)]"

text \<open>Chunk numbers of the operands for the grid index \<open>[m, n, k]\<close> (or \<open>[m, k]\<close> for a vector).\<close>

definition matmul_pair :: "int list \<Rightarrow> int list \<Rightarrow> int \<times> int" where
  "matmul_pair grid ix = (hd ix * last grid + last ix, if length grid = 2 then last ix else last ix * grid ! 1 + ix ! 1)"

definition matmul_at :: "int list \<Rightarrow> int \<Rightarrow> matmul_iter \<Rightarrow> bool" where
  "matmul_at grid t it \<longleftrightarrow> mm_cont it = t \<and> (mm_nchunk1 it, mm_nchunk2 it) = matmul_pair grid (unflat grid t) \<and>
     length grid = (if mm_ndim2 it = 1 then 2 else 3) \<and> mm_cat_ndim2 it = mm_ndim2 it \<and> all_pos grid \<and>
     cdiv (mm_M it) (mm_B0 it) = grid ! 0 \<and> cdiv (mm_K it) (mm_B1 it) = last grid \<and>
     (length grid = 3 \<longrightarrow> cdiv (mm_N it) (mm_B2 it) = grid ! 1)"

lemma matmul_next_at:
  assumes "matmul_at grid t it" "0 \<le> t"
  shows "t + 1 < prod_list grid \<Longrightarrow> matmul_at grid (t + 1) (iter_matmul_next it)"
    and "iter_matmul_finished it \<longleftrightarrow> prod_list grid \<le> t"
proof -
  show "iter_matmul_finished it \<longleftrightarrow> prod_list grid \<le> t"
  proof (cases "mm_ndim2 it = 1")
    case True
    then obtain a b where "grid = [a, b]"
      using assms by (auto simp: matmul_at_def numeral_2_eq_2 length_Suc_conv)
    then show ?thesis using assms True by (simp add: matmul_at_def iter_matmul_finished_def)
  next
    case False
    then obtain a b d where "grid = [a, b, d]"
      using assms by (auto simp: matmul_at_def numeral_3_eq_3 length_Suc_conv)
    then show ?thesis using assms False by (simp add: matmul_at_def iter_matmul_finished_def ac_simps)
  qed
  assume t: "t + 1 < prod_list grid"
  show "matmul_at grid (t + 1) (iter_matmul_next it)"
  proof (cases "mm_ndim2 it = 1")
    case True
    then obtain a b where g: "grid = [a, b]"
      using assms by (auto simp: matmul_at_def numeral_2_eq_2 length_Suc_conv)
    then have p: "0 < a" "0 < b" "t + 1 < a * b" using assms t by (simp_all add: matmul_at_def)
    have "(t + 1) div b mod a = (t + 1) div b"
      using p assms(2) by (simp add: div_less_of_mult pos_imp_zdiv_nonneg_iff mod_pos_pos_trivial)
    then show ?thesis
      using assms True g p
      by (simp add: matmul_at_def iter_matmul_next_def Let_def matmul_pair_def c_arith pos_imp_zdiv_nonneg_iff)
  next
    case False
    then obtain a b d where g: "grid = [a, b, d]"
      using assms by (auto simp: matmul_at_def numeral_3_eq_3 length_Suc_conv)
    then have p: "0 < a" "0 < b" "0 < d" "t + 1 < a * (b * d)" using assms t by (simp_all add: matmul_at_def)
    have m: "(t + 1) div (d * b) mod a = (t + 1) div (b * d)"
      using p assms(2) div_less_of_mult [of "b * d" "t + 1" a]
      by (simp add: pos_imp_zdiv_nonneg_iff mod_pos_pos_trivial mult.commute)
    have n: "(t + 1) div d mod b = (t + 1) mod (b * d) div d"
    proof -
      have "(t + 1) mod (d * b) = (t + 1) div d mod b * d + (t + 1) mod d"
        using p zmod_zmult2_eq [of b "t + 1" d] by simp
      then have "(t + 1) mod (d * b) div d = (t + 1) div d mod b" using p by simp
      then show ?thesis by (simp add: mult.commute)
    qed
    have k: "(t + 1) mod (b * d) mod d = (t + 1) mod d" by (simp add: mod_mod_cancel)
    show ?thesis
      using assms False g p m n k
      by (simp add: matmul_at_def iter_matmul_next_def Let_def matmul_pair_def c_arith pos_imp_zdiv_nonneg_iff)
  qed
qed

lemma matmul_pairs_from:
  "matmul_at grid (int i) it \<Longrightarrow> i \<le> m \<Longrightarrow> m = nat (prod_list grid) \<Longrightarrow> m - i < fuel \<Longrightarrow> i < m \<Longrightarrow>
   matmul_pairs fuel it = Some (map (\<lambda>t. matmul_pair grid (unflat grid (int t))) [i..<m])"
proof (induction fuel arbitrary: i it)
  case (Suc fuel)
  note nx = matmul_next_at [OF Suc.prems(1)]
  have up: "[i..<m] = i # [Suc i..<m]" using Suc.prems by (simp add: upt_rec)
  have nf: "\<not> iter_matmul_finished it" using nx(2) Suc.prems by simp
  have cur: "(mm_nchunk1 it, mm_nchunk2 it) = matmul_pair grid (unflat grid (int i))"
    using Suc.prems(1) by (simp add: matmul_at_def)
  show ?case
  proof (cases "Suc i < m")
    case True
    then have "matmul_at grid (int (Suc i)) (iter_matmul_next it)"
      using nx(1) Suc.prems by (simp add: add.commute)
    then show ?thesis using Suc.IH [of "Suc i" "iter_matmul_next it"] Suc.prems True nf cur up by simp
  next
    case False
    then have "Suc i = m" "1 \<le> fuel" using Suc.prems by simp_all
    moreover have "iter_matmul_finished (iter_matmul_next it)"
    proof -
      have c: "mm_cont (iter_matmul_next it) = int m" "mm_ndim2 (iter_matmul_next it) = mm_ndim2 it"
        "mm_M (iter_matmul_next it) = mm_M it" "mm_K (iter_matmul_next it) = mm_K it"
        "mm_N (iter_matmul_next it) = mm_N it" "mm_B0 (iter_matmul_next it) = mm_B0 it"
        "mm_B1 (iter_matmul_next it) = mm_B1 it" "mm_B2 (iter_matmul_next it) = mm_B2 it"
        using Suc.prems(1) \<open>Suc i = m\<close> by (auto simp: iter_matmul_next_def Let_def matmul_at_def)
      define it' where "it' = it\<lparr>mm_cont := int m, mm_nchunk1 := fst (matmul_pair grid (unflat grid (int m))),
          mm_nchunk2 := snd (matmul_pair grid (unflat grid (int m)))\<rparr>"
      have "matmul_at grid (int m) it'" using Suc.prems(1) by (auto simp: matmul_at_def it'_def)
      then have "iter_matmul_finished it'" using matmul_next_at(2) [of grid "int m" it'] Suc.prems(3,5) by simp
      then show ?thesis by (simp add: iter_matmul_finished_def c it'_def split: if_splits)
    qed
    ultimately show ?thesis using nf cur up by (cases fuel) auto
  qed
qed simp

text \<open>
  Claim C38. The loop \<open>for (init; !finished; next)\<close> of the matrix product iterator ends and delivers the
  chunk numbers of the two operands for every index \<open>(m, n, k)\<close> of the grid of blocks (\<open>(m, k)\<close> when the
  second operand is a vector), each once, with \<open>k\<close> running fastest and \<open>m\<close> slowest.
\<close>

theorem matmul_iterates_grid:
  assumes "iter_matmul_new shape1 shape2 nd1 nd2 nd2 ishape_a ishape_b garbage = Inr itr"
    and "nd2 = 1 \<or> nd2 = 2"
    and "0 < shape1 ! 0" "0 < shape1 ! 1" "0 < ishape_a ! 0" "0 < ishape_a ! 1"
    and "nd2 = 1 \<or> 0 < shape2 ! 1 \<and> 0 < ishape_b ! 1"
    and "nat (prod_list (matmul_grid shape1 shape2 nd2 ishape_a ishape_b)) < fuel"
  shows "matmul_pairs fuel (iter_matmul_init itr) =
    Some (map (\<lambda>t. matmul_pair (matmul_grid shape1 shape2 nd2 ishape_a ishape_b)
        (unflat (matmul_grid shape1 shape2 nd2 ishape_a ishape_b) t))
      (below (prod_list (matmul_grid shape1 shape2 nd2 ishape_a ishape_b))))"
proof -
  let ?g = "matmul_grid shape1 shape2 nd2 ishape_a ishape_b"
  have pos: "all_pos ?g" using assms(2-7) by (auto simp: matmul_grid_def ceil_blocks_pos)
  have "matmul_at ?g (int 0) (iter_matmul_init itr)"
    using assms(1-7) pos
    by (auto simp: matmul_at_def iter_matmul_init_def iter_matmul_new_def matmul_grid_def matmul_pair_def
        round_up_ceil cdiv_exact split: if_splits prod.splits)
  moreover have "0 < prod_list ?g" by (rule all_pos_prod [OF pos])
  ultimately show ?thesis
    using matmul_pairs_from [of ?g 0 "iter_matmul_init itr" "nat (prod_list ?g)" fuel] assms(8)
    by (simp add: below_def)
qed

lemma matmul_iterates_grid_witness:
  "\<exists>itr. iter_matmul_new [5, 7] [7, 4] 2 2 2 [3, 4] [4, 4] (9, 9, 9, 9) = Inr itr \<and>
    matmul_pairs 5 (iter_matmul_init itr) = Some [(0, 0), (1, 1), (2, 0), (3, 1)]"
proof -
  obtain itr where n: "iter_matmul_new [5, 7] [7, 4] 2 2 2 [3, 4] [4, 4] (9, 9, 9, 9) = Inr itr"
    by (simp add: iter_matmul_new_def upt_conv_Cons)
  have "map (\<lambda>t. matmul_pair (matmul_grid [5, 7] [7, 4] 2 [3, 4] [4, 4])
        (unflat (matmul_grid [5, 7] [7, 4] 2 [3, 4] [4, 4]) t))
      (below (prod_list (matmul_grid [5, 7] [7, 4] 2 [3, 4] [4, 4]))) = [(0, 0), (1, 1), (2, 0), (3, 1)]"
    "nat (prod_list (matmul_grid [5, 7] [7, 4] 2 [3, 4] [4, 4])) = 4"
    by code_simp+
  then show ?thesis using n matmul_iterates_grid [OF n, of 5] by simp
qed

end
