(* ===== verification/Btune.thy ===== *)
theory Btune
  imports Floats BtuneConfig "HOL-Library.Sublist"
begin

text \<open>
  The tuner of the compression parameters, \<^verbatim>\<open>src/btune/iabtune.c\<close> and \<^verbatim>\<open>iabtune.h\<close>: a state machine that
  the compressor calls before (\<open>iabtune_next_cparams\<close>) and after (\<open>iabtune_update\<close>) each chunk. The
  contexts of c-blosc2 are records of the fields the tuner touches; constants of that library are
  arguments, collected in \<open>blosc_const\<close>. Printing (the variable \<open>BTUNE_LOG\<close>) is left out. The four
  switches that disable parts of the machine are constants, so that the disabled parts are translated too.
\<close>

section \<open>Constants, enumerations and structures\<close>

definition BTUNE_DISABLE_SHUFFLESIZE :: bool where [simp]: "BTUNE_DISABLE_SHUFFLESIZE = True"
definition BTUNE_DISABLE_BLOCKSIZE :: bool where [simp]: "BTUNE_DISABLE_BLOCKSIZE = True"
definition BTUNE_DISABLE_MEMCPY :: bool where [simp]: "BTUNE_DISABLE_MEMCPY = True"
definition BTUNE_DISABLE_THREADS :: bool where [simp]: "BTUNE_DISABLE_THREADS = True"

abbreviation (input) BTUNE_KB :: int where "BTUNE_KB \<equiv> 1024"
abbreviation (input) REPEATS_PER_CPARAMS :: nat where "REPEATS_PER_CPARAMS \<equiv> 1"
abbreviation (input) MAX_CLEVEL :: int where "MAX_CLEVEL \<equiv> 9"
abbreviation (input) MIN_BLOCK :: int where "MIN_BLOCK \<equiv> 16 * BTUNE_KB"
abbreviation (input) MAX_BLOCK :: int where "MAX_BLOCK \<equiv> 2 * BTUNE_KB * BTUNE_KB"
abbreviation (input) MIN_BITSHUFFLE :: int where "MIN_BITSHUFFLE \<equiv> 1"
abbreviation (input) MIN_SHUFFLE :: int where "MIN_SHUFFLE \<equiv> 2"
abbreviation (input) MAX_SHUFFLE :: int where "MAX_SHUFFLE \<equiv> 16"
abbreviation (input) MIN_THREADS :: int where "MIN_THREADS \<equiv> 1"
abbreviation (input) SOFT_STEP_SIZE :: nat where "SOFT_STEP_SIZE \<equiv> 1"
abbreviation (input) HARD_STEP_SIZE :: nat where "HARD_STEP_SIZE \<equiv> 2"
abbreviation (input) MAX_STATE_THREADS :: nat where "MAX_STATE_THREADS \<equiv> 50"

datatype compcode = BLOSC_BLOSCLZ | BLOSC_LZ4 | BLOSC_LZ4HC | BLOSC_ZLIB | BLOSC_ZSTD | OTHER_CODEC int

datatype btune_state = CODEC_FILTER | SHUFFLE_SIZE | THREADS | CLEVEL | BLOCKSIZE | MEMCPY | WAITING | STOP
datatype readapt_type = WAIT | SOFT | HARD

record cparams_btune =
  cp_compcode :: compcode
  cp_filter :: int
  cp_splitmode :: int
  cp_clevel :: int
  cp_blocksize :: int
  cp_shufflesize :: int
  cp_nthreads_comp :: int
  cp_nthreads_decomp :: int
  increasing_clevel :: bool
  increasing_block :: bool
  increasing_shuffle :: bool
  increasing_nthreads :: bool
  cp_score :: fp
  cp_cratio :: fp
  cp_ctime :: fp
  cp_dtime :: fp

record blosc_dctx =
  dx_nthreads :: int
  dx_new_nthreads :: int

record btune_struct =
  bt_config :: btune_config
  bt_codecs :: "compcode list"
  bt_best :: cparams_btune
  bt_aux :: cparams_btune
  current_scores :: "fp list"
  current_cratios :: "fp list"
  rep_index :: nat
  filter_split_limit :: nat
  aux_index :: nat
  steps_count :: nat
  bt_state :: btune_state
  step_size :: nat
  nwaitings :: nat
  nsofts :: nat
  nhards :: nat
  is_repeating :: bool
  readapt_from :: readapt_type
  max_threads :: int
  bt_dctx :: "blosc_dctx option"
  bt_nthreads_decomp :: int
  threads_for_comp :: bool

record blosc_cctx =
  cx_compcode :: compcode
  cx_filter :: int
  cx_splitmode :: int
  cx_clevel :: int
  cx_blocksize :: int
  cx_typesize :: int
  cx_nthreads :: int
  cx_new_nthreads :: int
  cx_sourcesize :: int
  cx_destsize :: int
  cx_dobitshuffle :: bool

text \<open>The library constants the code uses; \<open>list_compressors\<close> is the string of \<open>blosc2_list_compressors\<close>.\<close>

record blosc_const =
  BLOSC_SHUFFLE :: int
  BLOSC_ALWAYS_SPLIT :: int
  BLOSC_MIN_BUFFERSIZE :: int
  BLOSC2_MAX_OVERHEAD :: int
  list_compressors :: string

definition cparams_btune_default :: "blosc_const \<Rightarrow> cparams_btune" where
  "cparams_btune_default bc = \<lparr> cp_compcode = BLOSC_LZ4, cp_filter = BLOSC_SHUFFLE bc,
     cp_splitmode = BLOSC_ALWAYS_SPLIT bc, cp_clevel = 9, cp_blocksize = 0, cp_shufflesize = 0,
     cp_nthreads_comp = 0, cp_nthreads_decomp = 0, increasing_clevel = False, increasing_block = True,
     increasing_shuffle = True, increasing_nthreads = False,
     cp_score = dbl 100, cp_cratio = dbl (11 / 10), cp_ctime = dbl 100, cp_dtime = dbl 100 \<rparr>"

section \<open>Codecs and parameters of the context\<close>

definition btune_get_codecs :: "blosc_const \<Rightarrow> btune_config \<Rightarrow> compcode list" where
  "btune_get_codecs bc cfg =
     (if comp_mode cfg = BTUNE_COMP_HCR
      then (if sublist ''zstd'' (list_compressors bc) then [BLOSC_ZSTD] else []) @
           (if sublist ''zlib'' (list_compressors bc) then [BLOSC_ZLIB] else [])
      else [BLOSC_LZ4] @
           (if comp_mode cfg = BTUNE_COMP_BALANCED then [BLOSC_BLOSCLZ] else []) @
           (if perf_mode cfg = BTUNE_PERF_DECOMP then [BLOSC_LZ4HC] else []))"

definition add_codec :: "compcode list \<Rightarrow> compcode \<Rightarrow> compcode list" where
  "add_codec codecs compcode = (if compcode \<in> set codecs then codecs else codecs @ [compcode])"

definition extract_btune_cparams :: "btune_struct \<Rightarrow> blosc_cctx \<Rightarrow> cparams_btune \<Rightarrow> cparams_btune" where
  "extract_btune_cparams bt ctx cp = cp\<lparr>
     cp_compcode := cx_compcode ctx, cp_filter := cx_filter ctx, cp_clevel := cx_clevel ctx,
     cp_splitmode := cx_splitmode ctx, cp_blocksize := cx_blocksize ctx, cp_shufflesize := cx_typesize ctx,
     cp_nthreads_comp := cx_nthreads ctx,
     cp_nthreads_decomp := (case bt_dctx bt of None \<Rightarrow> bt_nthreads_decomp bt | Some d \<Rightarrow> dx_nthreads d)\<rparr>"

section \<open>Ends of the ranges\<close>

definition has_ended_clevel :: "btune_struct \<Rightarrow> bool" where
  "has_ended_clevel bt =
     (increasing_clevel (bt_best bt) \<and> cp_clevel (bt_best bt) \<ge> MAX_CLEVEL - int (step_size bt) \<or>
      \<not> increasing_clevel (bt_best bt) \<and> cp_clevel (bt_best bt) \<le> 1 + int (step_size bt))"

definition has_ended_shuffle :: "blosc_const \<Rightarrow> cparams_btune \<Rightarrow> bool" where
  "has_ended_shuffle bc best =
     (let min_shuffle = if cp_filter best = BLOSC_SHUFFLE bc then MIN_SHUFFLE else MIN_BITSHUFFLE
      in increasing_shuffle best \<and> cp_shufflesize best = MAX_SHUFFLE \<or>
         \<not> increasing_shuffle best \<and> cp_shufflesize best = min_shuffle)"

definition has_ended_threads :: "btune_struct \<Rightarrow> bool" where
  "has_ended_threads bt =
     (let best = bt_best bt;
          nthreads = if threads_for_comp bt then cp_nthreads_comp best else cp_nthreads_decomp best
      in increasing_nthreads best \<and> nthreads = max_threads bt \<or>
         \<not> increasing_nthreads best \<and> nthreads = MIN_THREADS)"

definition has_ended_blocksize :: "blosc_cctx \<Rightarrow> btune_struct \<Rightarrow> bool" where
  "has_ended_blocksize ctx bt =
     (let best = bt_best bt; k = step_size bt
      in increasing_block best \<and> (cp_blocksize best > MAX_BLOCK div 2 ^ k \<or>
           cp_blocksize best > cx_sourcesize ctx div 2 ^ k) \<or>
         \<not> increasing_block best \<and> cp_blocksize best < MIN_BLOCK * 2 ^ k)"

definition flip_clevel :: "btune_struct \<Rightarrow> btune_struct" where
  "flip_clevel bt = bt\<lparr>bt_best := (bt_best bt)\<lparr>increasing_clevel := \<not> increasing_clevel (bt_best bt)\<rparr>\<rparr>"

definition flip_shuffle :: "btune_struct \<Rightarrow> btune_struct" where
  "flip_shuffle bt = bt\<lparr>bt_best := (bt_best bt)\<lparr>increasing_shuffle := \<not> increasing_shuffle (bt_best bt)\<rparr>\<rparr>"

definition flip_nthreads :: "btune_struct \<Rightarrow> btune_struct" where
  "flip_nthreads bt = bt\<lparr>bt_best := (bt_best bt)\<lparr>increasing_nthreads := \<not> increasing_nthreads (bt_best bt)\<rparr>\<rparr>"

definition flip_block :: "btune_struct \<Rightarrow> btune_struct" where
  "flip_block bt = bt\<lparr>bt_best := (bt_best bt)\<lparr>increasing_block := \<not> increasing_block (bt_best bt)\<rparr>\<rparr>"

section \<open>Initialisation\<close>

definition init_soft :: "btune_struct \<Rightarrow> btune_struct" where
  "init_soft bt =
     (let bt = if has_ended_clevel bt then flip_clevel bt else bt
      in bt\<lparr>bt_state := CLEVEL, step_size := SOFT_STEP_SIZE, readapt_from := SOFT\<rparr>)"

definition init_hard :: "blosc_const \<Rightarrow> btune_struct \<Rightarrow> btune_struct" where
  "init_hard bc bt =
     (let bt = bt\<lparr>bt_state := CODEC_FILTER, step_size := HARD_STEP_SIZE, readapt_from := HARD,
                 threads_for_comp := perf_mode (bt_config bt) \<noteq> BTUNE_PERF_DECOMP\<rparr>
      in if has_ended_shuffle bc (bt_best bt) then flip_shuffle bt else bt)"

definition minimum_hards :: "btune_struct \<Rightarrow> nat" where
  "minimum_hards bt = (if cparams_hint (bt_config bt) then 0 else 1)"

text \<open>The \<open>switch\<close> of \<open>init_without_hards\<close> falls through from each case to the next.\<close>

definition init_without_hards :: "blosc_const \<Rightarrow> btune_struct \<Rightarrow> btune_struct" where
  "init_without_hards bc bt =
     (let b = behaviour (bt_config bt); mh = minimum_hards bt;
          stop_case = (if mh = 0 \<and> nsofts_before_hard b > 0 then init_soft bt
                       else bt\<lparr>bt_state := STOP, readapt_from := WAIT\<rparr>);
          soft_case = (if nsofts_before_hard b > 0 then init_soft bt else stop_case);
          all_case = (if nhards_before_stop b > mh then init_hard bc bt else soft_case)
      in (case repeat_mode b of BTUNE_REPEAT_ALL \<Rightarrow> all_case | BTUNE_REPEAT_SOFT \<Rightarrow> soft_case
          | BTUNE_STOP \<Rightarrow> stop_case)\<lparr>is_repeating := True\<rparr>)"

definition init_struct :: "blosc_const \<Rightarrow> btune_config \<Rightarrow> compcode list \<Rightarrow> blosc_cctx \<Rightarrow> blosc_dctx option \<Rightarrow> btune_struct" where
  "init_struct bc cfg codecs cctx dctx =
     (let dthreads = (case dctx of Some d \<Rightarrow> dx_nthreads d | None \<Rightarrow> cx_nthreads cctx);
          cp = (cparams_btune_default bc)\<lparr>cp_compcode := hd codecs,
             cp_clevel := (if comp_mode cfg = BTUNE_COMP_HCR then 8 else 9),
             cp_shufflesize := cx_typesize cctx, cp_nthreads_comp := cx_nthreads cctx,
             cp_nthreads_decomp := dthreads\<rparr>
      in \<lparr> bt_config = cfg, bt_codecs = codecs, bt_best = cp, bt_aux = cp,
           current_scores = replicate REPEATS_PER_CPARAMS (Fin 0),
           current_cratios = replicate REPEATS_PER_CPARAMS (Fin 0),
           rep_index = 0, filter_split_limit = 3 * 2 * REPEATS_PER_CPARAMS, aux_index = 0,
           steps_count = 0, bt_state = CODEC_FILTER, step_size = 0, nwaitings = 0, nsofts = 0, nhards = 0,
           is_repeating = False, readapt_from = WAIT,
           max_threads = (if cx_nthreads cctx > dthreads then cx_nthreads cctx else dthreads),
           bt_dctx = dctx, bt_nthreads_decomp = dthreads,
           threads_for_comp = perf_mode cfg \<noteq> BTUNE_PERF_DECOMP \<rparr>)"

definition init_readapt :: "blosc_const \<Rightarrow> blosc_cctx \<Rightarrow> btune_struct \<Rightarrow> btune_struct" where
  "init_readapt bc cctx bt =
     (let b = behaviour (bt_config bt) in
      if cparams_hint (bt_config bt)
      then
        let bt = bt\<lparr>bt_best := extract_btune_cparams bt cctx (bt_best bt),
                   bt_aux := extract_btune_cparams bt cctx (bt_aux bt),
                   bt_codecs := add_codec (bt_codecs bt) (cx_compcode cctx)\<rparr>
        in if nhards_before_stop b > 0
           then if nsofts_before_hard b > 0 then init_soft bt
                else if nwaits_before_readapt b > 0 then bt\<lparr>bt_state := WAITING, readapt_from := WAIT\<rparr>
                else init_hard bc bt
           else init_without_hards bc bt
      else (init_hard bc bt)\<lparr>bt_config := (bt_config bt)\<lparr>behaviour :=
             b\<lparr>nhards_before_stop := (nhards_before_stop b + 1) mod 2 ^ 32\<rparr>\<rparr>\<rparr>)"

text \<open>
  \<open>iabtune_init\<close>. Without a result: a null configuration, which is dereferenced after the defaults were
  copied, and an empty codec list, whose first entry is read.
\<close>

definition iabtune_init :: "blosc_const \<Rightarrow> btune_config option \<Rightarrow> blosc_cctx \<Rightarrow> blosc_dctx option \<Rightarrow> btune_struct option" where
  "iabtune_init bc config cctx dctx =
     (let cfg = (case config of None \<Rightarrow> BTUNE_CONFIG_DEFAULTS | Some c \<Rightarrow> c);
          codecs = btune_get_codecs bc cfg
      in if config = None \<or> codecs = [] then None
         else
           let bt = init_readapt bc cctx (init_struct bc cfg codecs cctx dctx)
           in Some (bt\<lparr>step_size := (if nhards_before_stop (behaviour (bt_config bt)) = 1
                                    then SOFT_STEP_SIZE else HARD_STEP_SIZE)\<rparr>))"

section \<open>Next parameters\<close>

definition is_HCR :: "blosc_cctx \<Rightarrow> bool" where
  "is_HCR ctx = (case cx_compcode ctx of
       BLOSC_BLOSCLZ \<Rightarrow> False | BLOSC_LZ4 \<Rightarrow> cx_dobitshuffle ctx | BLOSC_LZ4HC \<Rightarrow> True
     | BLOSC_ZLIB \<Rightarrow> True | BLOSC_ZSTD \<Rightarrow> True | OTHER_CODEC _ \<Rightarrow> False)"

definition iabtune_next_blocksize :: "blosc_const \<Rightarrow> blosc_cctx \<Rightarrow> blosc_cctx" where
  "iabtune_next_blocksize bc ctx =
     (if BTUNE_DISABLE_BLOCKSIZE then ctx
      else
        let clevel = cx_clevel ctx; typesize = cx_typesize ctx; nbytes = cx_sourcesize ctx;
            user_blocksize = cx_blocksize ctx
        in if nbytes < typesize then ctx\<lparr>cx_blocksize := 1\<rparr>
           else
             let blocksize =
                   (if user_blocksize \<noteq> 0
                    then if user_blocksize < BLOSC_MIN_BUFFERSIZE bc then BLOSC_MIN_BUFFERSIZE bc else user_blocksize
                    else if nbytes \<ge> 32 * 1024
                    then
                      let bs = 32 * 1024; bs = (if is_HCR ctx then bs * 2 else bs)
                      in if clevel = 0 then cdiv bs 4
                         else if clevel = 1 then cdiv bs 2
                         else if clevel = 2 then bs
                         else if clevel = 3 then bs * 2
                         else if clevel = 4 \<or> clevel = 5 then bs * 4
                         else if clevel = 6 \<or> clevel = 7 \<or> clevel = 8 then bs * 8
                         else if clevel = 9 then (if is_HCR ctx then bs * 8 * 2 else bs * 8)
                         else bs
                    else nbytes);
                 blocksize = (if clevel > 0
                    then let bs = (if blocksize > 2 ^ 16 then 2 ^ 16 else blocksize) * typesize
                         in if bs < 2 ^ 16 then 2 ^ 16 else bs
                    else blocksize);
                 blocksize = (if blocksize > nbytes then nbytes else blocksize);
                 blocksize = (if blocksize > typesize then cdiv blocksize typesize * typesize else blocksize)
             in ctx\<lparr>cx_blocksize := blocksize\<rparr>)"

text \<open>
  \<open>set_btune_cparams\<close>, called on the auxiliary parameters: it writes them into the context, the level before
  it is clamped.
\<close>

definition clamp_clevel :: "btune_comp_mode \<Rightarrow> cparams_btune \<Rightarrow> cparams_btune" where
  "clamp_clevel mode cp =
     (let cp = (if mode = BTUNE_COMP_BALANCED \<and> (cp_compcode cp = BLOSC_ZSTD \<or> cp_compcode cp = BLOSC_ZLIB) \<and>
                   cp_clevel cp \<ge> 3 then cp\<lparr>cp_clevel := 3\<rparr> else cp)
      in if mode = BTUNE_COMP_HCR \<and> cp_clevel cp \<ge> 6 then cp\<lparr>cp_clevel := 6\<rparr> else cp)"

definition set_blocksize :: "blosc_const \<Rightarrow> cparams_btune \<times> blosc_cctx \<Rightarrow> cparams_btune \<times> blosc_cctx" where
  "set_blocksize bc = (\<lambda>(cp, ctx).
     if cp_blocksize cp \<noteq> 0 then (cp, ctx\<lparr>cx_blocksize := cp_blocksize cp\<rparr>)
     else let ctx = iabtune_next_blocksize bc ctx in (cp\<lparr>cp_blocksize := cx_blocksize ctx\<rparr>, ctx))"

definition set_nthreads_decomp :: "btune_struct \<Rightarrow> btune_struct" where
  "set_nthreads_decomp bt =
     (case bt_dctx bt of
        Some d \<Rightarrow> bt\<lparr>bt_dctx := Some (d\<lparr>dx_new_nthreads := wrap_signed 16 (cp_nthreads_decomp (bt_aux bt))\<rparr>)\<rparr>
      | None \<Rightarrow> bt\<lparr>bt_nthreads_decomp := cp_nthreads_decomp (bt_aux bt)\<rparr>)"

definition set_btune_cparams :: "blosc_const \<Rightarrow> btune_struct \<times> blosc_cctx \<Rightarrow> btune_struct \<times> blosc_cctx" where
  "set_btune_cparams bc = (\<lambda>(bt, ctx).
     let cp = bt_aux bt;
         (cp, ctx) = set_blocksize bc (clamp_clevel (comp_mode (bt_config bt)) cp,
             ctx\<lparr>cx_compcode := cp_compcode cp, cx_filter := cp_filter cp, cx_splitmode := cp_splitmode cp,
                 cx_clevel := cp_clevel cp\<rparr>)
     in (set_nthreads_decomp (bt\<lparr>bt_aux := cp\<rparr>),
         ctx\<lparr>cx_typesize := cp_shufflesize cp, cx_new_nthreads := wrap_signed 16 (cp_nthreads_comp cp)\<rparr>))"

text \<open>
  The parameters for the next chunk, by state. Without a result: in \<open>CODEC_FILTER\<close> the codec list is read
  behind its end.
\<close>

definition next_codec_filter :: "btune_struct \<Rightarrow> cparams_btune \<Rightarrow> blosc_const \<Rightarrow> cparams_btune option" where
  "next_codec_filter bt cp bc =
     (let codec_index = aux_index bt div filter_split_limit bt in
      if codec_index \<ge> length (bt_codecs bt) then None
      else
        let compcode = bt_codecs bt ! codec_index; filter_split = filter_split_limit bt;
            filter = int ((aux_index bt mod (filter_split div 2)) div REPEATS_PER_CPARAMS);
            splitmode = int (((aux_index bt mod filter_split) div 3 + 1) div REPEATS_PER_CPARAMS);
            splitmode = (if compcode = BLOSC_BLOSCLZ then BLOSC_ALWAYS_SPLIT bc else splitmode);
            perf = perf_mode (bt_config bt);
            cp = (if (perf = BTUNE_PERF_COMP \<or> perf = BTUNE_PERF_BALANCED) \<and>
                     (compcode = BLOSC_ZSTD \<or> cp_compcode cp = BLOSC_ZLIB) \<and> nhards bt = 0
                  then cp\<lparr>cp_clevel := 3\<rparr> else cp)
        in Some (cp\<lparr>cp_compcode := compcode, cp_filter := filter, cp_splitmode := splitmode\<rparr>))"

definition next_shuffle :: "cparams_btune \<Rightarrow> cparams_btune" where
  "next_shuffle cp =
     (if increasing_shuffle cp
      then if cp_shufflesize cp < MAX_SHUFFLE then cp\<lparr>cp_shufflesize := cp_shufflesize cp * 2\<rparr> else cp
      else let min_shuffle = if cp_filter cp = 1 then MIN_SHUFFLE else MIN_BITSHUFFLE
           in if cp_shufflesize cp > min_shuffle then cp\<lparr>cp_shufflesize := cp_shufflesize cp div 2\<rparr> else cp)"

definition step_threads :: "bool \<Rightarrow> int \<Rightarrow> int \<Rightarrow> int" where
  "step_threads increasing maximum n =
     (if increasing then if n < maximum then n + 1 else n
      else if n > MIN_THREADS then n - 1 else n)"

definition next_threads :: "btune_struct \<Rightarrow> cparams_btune \<Rightarrow> cparams_btune" where
  "next_threads bt cp =
     (if threads_for_comp bt
      then cp\<lparr>cp_nthreads_comp := step_threads (increasing_nthreads cp) (max_threads bt) (cp_nthreads_comp cp)\<rparr>
      else cp\<lparr>cp_nthreads_decomp := step_threads (increasing_nthreads cp) (max_threads bt) (cp_nthreads_decomp cp)\<rparr>)"

definition next_clevel :: "btune_struct \<Rightarrow> cparams_btune \<Rightarrow> cparams_btune" where
  "next_clevel bt cp =
     (let cp = (if readapt_from bt = HARD then cp\<lparr>cp_blocksize := 0\<rparr> else cp); s = int (step_size bt)
      in if increasing_clevel cp
         then if cp_clevel cp \<le> MAX_CLEVEL - s
              then let cp = cp\<lparr>cp_clevel := cp_clevel cp + s\<rparr>
                   in if cp_clevel cp = 9 \<and> cp_compcode cp = BLOSC_ZSTD then cp\<lparr>cp_clevel := 8\<rparr> else cp
              else cp
         else if cp_clevel cp > s then cp\<lparr>cp_clevel := cp_clevel cp - s\<rparr> else cp)"

definition next_block :: "blosc_cctx \<Rightarrow> btune_struct \<Rightarrow> cparams_btune \<Rightarrow> cparams_btune" where
  "next_block ctx bt cp =
     (if BTUNE_DISABLE_BLOCKSIZE then cp
      else
        let step_factor = step_size bt - 1 in
        if increasing_block cp
        then let new_block = cp_blocksize cp * 2 ^ step_size bt
             in if cp_blocksize cp \<le> MAX_BLOCK div 2 ^ step_factor \<and> new_block \<le> cx_sourcesize ctx
                then cp\<lparr>cp_blocksize := new_block\<rparr> else cp
        else if cp_blocksize cp \<ge> MIN_BLOCK * 2 ^ step_factor
             then cp\<lparr>cp_blocksize := cp_blocksize cp div 2 ^ step_size bt\<rparr> else cp)"

definition next_aux :: "blosc_const \<Rightarrow> btune_struct \<times> blosc_cctx \<Rightarrow> btune_struct option" where
  "next_aux bc = (\<lambda>(bt, ctx).
     let cp = bt_best bt; bt = bt\<lparr>bt_aux := cp\<rparr>; tick = bt\<lparr>aux_index := aux_index bt + 1\<rparr>
     in case bt_state bt of
          CODEC_FILTER \<Rightarrow> map_option (\<lambda>cp. tick\<lparr>bt_aux := cp\<rparr>) (next_codec_filter bt cp bc)
        | SHUFFLE_SIZE \<Rightarrow> Some (tick\<lparr>bt_aux := next_shuffle cp\<rparr>)
        | THREADS \<Rightarrow> Some (tick\<lparr>bt_aux := next_threads bt cp\<rparr>)
        | CLEVEL \<Rightarrow> Some (tick\<lparr>bt_aux := next_clevel bt cp\<rparr>)
        | BLOCKSIZE \<Rightarrow> Some (tick\<lparr>bt_aux := next_block ctx bt cp\<rparr>)
        | MEMCPY \<Rightarrow> Some (tick\<lparr>bt_aux := cp\<lparr>cp_clevel := 0\<rparr>\<rparr>)
        | WAITING \<Rightarrow> Some (bt\<lparr>nwaitings := nwaitings bt + 1\<rparr>)
        | STOP \<Rightarrow> Some bt)"

definition iabtune_next_cparams :: "blosc_const \<Rightarrow> btune_struct \<times> blosc_cctx \<Rightarrow> (btune_struct \<times> blosc_cctx) option" where
  "iabtune_next_cparams bc st = map_option (\<lambda>bt. set_btune_cparams bc (bt, snd st)) (next_aux bc st)"

section \<open>Scores\<close>

definition score_function :: "btune_struct \<Rightarrow> fp \<Rightarrow> int \<Rightarrow> fp \<Rightarrow> fp" where
  "score_function bt ctime cbytes dtime =
     (let reduced = fp_div (dbl (of_int cbytes)) (dbl (of_int BTUNE_KB));
          transmission = fp_div reduced (dbl (of_int (bandwidth (bt_config bt))))
      in case perf_mode (bt_config bt) of
           BTUNE_PERF_COMP \<Rightarrow> fp_add ctime transmission
         | BTUNE_PERF_DECOMP \<Rightarrow> fp_add transmission dtime
         | BTUNE_PERF_BALANCED \<Rightarrow> fp_add (fp_add ctime transmission) dtime)"

definition mean :: "fp list \<Rightarrow> fp" where
  "mean xs = fp_div (fold (\<lambda>x s. fp_add s x) xs (Fin 0)) (dbl (of_nat (length xs)))"

definition has_improved :: "btune_struct \<Rightarrow> fp \<Rightarrow> fp \<Rightarrow> bool" where
  "has_improved bt score_coef cratio_coef =
     (let above = (\<lambda>c s. fp_less (dbl c) cratio_coef \<and> fp_less (dbl s) score_coef) in
      case comp_mode (bt_config bt) of
        BTUNE_COMP_HSP \<Rightarrow> above 1 1 \<or> above (5 / 10) 2 \<or> above (67 / 100) (13 / 10) \<or> above 2 (7 / 10)
      | BTUNE_COMP_BALANCED \<Rightarrow> above 1 1 \<or> above (11 / 10) (8 / 10) \<or> above (13 / 10) (5 / 10)
      | BTUNE_COMP_HCR \<Rightarrow> fp_less (dbl 1) cratio_coef)"

definition cparams_equals :: "cparams_btune \<Rightarrow> cparams_btune \<Rightarrow> bool" where
  "cparams_equals a b =
     (cp_compcode a = cp_compcode b \<and> cp_filter a = cp_filter b \<and> cp_splitmode a = cp_splitmode b \<and>
      cp_clevel a = cp_clevel b \<and> cp_blocksize a = cp_blocksize b \<and> cp_shufflesize a = cp_shufflesize b \<and>
      cp_nthreads_comp a = cp_nthreads_comp b \<and> cp_nthreads_decomp a = cp_nthreads_decomp b)"

section \<open>State transitions\<close>

text \<open>What follows a readapt or a wait.\<close>

definition waiting_hard :: "blosc_const \<Rightarrow> btune_struct \<Rightarrow> btune_struct" where
  "waiting_hard bc bt =
     (let b = behaviour (bt_config bt); mh = minimum_hards bt; bt = bt\<lparr>nhards := nhards bt + 1\<rparr> in
      if nhards_before_stop b = mh \<or> nhards bt mod nhards_before_stop b = 0
      then
        let bt = bt\<lparr>is_repeating := True\<rparr>
        in if nsofts_before_hard b > 0 \<and> repeat_mode b \<noteq> BTUNE_STOP then init_soft bt
           else if repeat_mode b \<noteq> BTUNE_REPEAT_ALL then bt\<lparr>bt_state := STOP\<rparr>
           else if nwaits_before_readapt b > 0 then bt\<lparr>bt_state := WAITING, readapt_from := WAIT\<rparr>
           else if nhards_before_stop b > mh then init_hard bc bt
           else bt\<lparr>bt_state := STOP\<rparr>
      else if nsofts_before_hard b > 0 then init_soft bt
      else if nwaits_before_readapt b > 0 then bt\<lparr>bt_state := WAITING, readapt_from := WAIT\<rparr>
      else init_hard bc bt)"

definition waiting_soft :: "blosc_const \<Rightarrow> btune_struct \<Rightarrow> btune_struct" where
  "waiting_soft bc bt =
     (let b = behaviour (bt_config bt); mh = minimum_hards bt;
          bt = bt\<lparr>nsofts := nsofts bt + 1, readapt_from := WAIT\<rparr> in
      if nwaits_before_readapt b = 0
      then
        if (nsofts_before_hard b = 0 \<or> nsofts bt mod nsofts_before_hard b = 0) \<and>
           \<not> (is_repeating bt \<and> repeat_mode b \<noteq> BTUNE_REPEAT_ALL) \<and> nhards_before_stop b > mh
        then init_hard bc bt
        else if mh = 0 \<and> nhards_before_stop b = 0 \<and> nsofts bt mod nsofts_before_hard b = 0 \<and>
           repeat_mode b = BTUNE_STOP
        then bt\<lparr>is_repeating := True, bt_state := STOP\<rparr>
        else init_soft bt
      else bt)"

definition waiting_wait :: "blosc_const \<Rightarrow> btune_struct \<Rightarrow> btune_struct" where
  "waiting_wait bc bt =
     (let b = behaviour (bt_config bt); mh = minimum_hards bt in
      if nwaits_before_readapt b = 0 \<or> nwaitings bt \<noteq> 0 \<and> nwaitings bt mod nwaits_before_readapt b = 0
      then
        if (nsofts_before_hard b = 0 \<or> nsofts bt \<noteq> 0 \<and> nsofts bt mod nsofts_before_hard b = 0) \<and>
           \<not> (is_repeating bt \<and> repeat_mode b \<noteq> BTUNE_REPEAT_ALL) \<and> nhards_before_stop b > mh
        then init_hard bc bt
        else if nsofts_before_hard b > 0 \<and> \<not> (is_repeating bt \<and> repeat_mode b = BTUNE_STOP)
        then init_soft bt
        else bt
      else bt)"

definition process_waiting_state :: "blosc_const \<Rightarrow> btune_struct \<Rightarrow> btune_struct" where
  "process_waiting_state bc bt =
     (let bt' = (case readapt_from bt of HARD \<Rightarrow> waiting_hard bc bt | SOFT \<Rightarrow> waiting_soft bc bt
                 | WAIT \<Rightarrow> waiting_wait bc bt)
      in if readapt_from bt' = HARD \<and>
            int (nhards bt') = wrap_signed 32 (int (nhards_before_stop (behaviour (bt_config bt))) - 1)
         then bt'\<lparr>step_size := SOFT_STEP_SIZE\<rparr> else bt')"

text \<open>The end of a state: \<open>update_aux\<close>, one definition for each case of its \<open>switch\<close>.\<close>

definition threads_or_clevel :: "btune_struct \<Rightarrow> btune_struct" where
  "threads_or_clevel bt = bt\<lparr>bt_state := (if \<not> BTUNE_DISABLE_THREADS then THREADS else CLEVEL)\<rparr>"

definition enter_clevel :: "btune_struct \<Rightarrow> btune_struct" where
  "enter_clevel bt =
     (let bt = bt\<lparr>bt_state := CLEVEL\<rparr> in if has_ended_clevel bt then flip_clevel bt else bt)"

definition is_power_2 :: "int \<Rightarrow> bool" where
  "is_power_2 n = (and n (n - 1) = 0)"

definition end_codec_filter :: "blosc_const \<Rightarrow> btune_struct \<Rightarrow> btune_struct" where
  "end_codec_filter bc bt =
     (if aux_index bt div filter_split_limit bt = length (bt_codecs bt)
      then
        let bt = bt\<lparr>aux_index := 0\<rparr>;
            bt = (if BTUNE_DISABLE_SHUFFLESIZE then threads_or_clevel bt
                  else bt\<lparr>bt_state := (if cp_filter (bt_best bt) \<noteq> 0 \<and> is_power_2 (cp_shufflesize (bt_best bt))
                                      then SHUFFLE_SIZE else THREADS)\<rparr>);
            bt = (if bt_state bt = THREADS \<and> max_threads bt = 1 then enter_clevel bt else bt)
        in if \<not> BTUNE_DISABLE_SHUFFLESIZE \<and> bt_state bt = SHUFFLE_SIZE
           then if has_ended_shuffle bc (bt_best bt) then flip_shuffle bt else bt
           else if bt_state bt = THREADS
           then if has_ended_shuffle bc (bt_best bt) then flip_nthreads bt else bt
           else bt
      else bt)"

definition end_shuffle :: "blosc_const \<Rightarrow> bool \<Rightarrow> bool \<Rightarrow> btune_struct \<Rightarrow> btune_struct" where
  "end_shuffle bc improved first_time bt =
     (let bt = (if \<not> improved \<and> first_time then flip_shuffle bt else bt) in
      if has_ended_shuffle bc (bt_best bt) \<or> \<not> improved \<and> \<not> first_time
      then
        let bt = threads_or_clevel (bt\<lparr>aux_index := 0\<rparr>)
        in if bt_state bt = THREADS \<and> max_threads bt = 1 then enter_clevel bt
           else if has_ended_threads bt then flip_nthreads bt else bt
      else bt)"

definition end_threads :: "bool \<Rightarrow> btune_struct \<Rightarrow> btune_struct" where
  "end_threads improved bt =
     (let first_time = (aux_index bt mod MAX_STATE_THREADS = REPEATS_PER_CPARAMS);
          bt = (if \<not> improved \<and> first_time then flip_nthreads bt else bt) in
      if has_ended_threads bt \<or> \<not> improved \<and> \<not> first_time
      then
        let bt = (if perf_mode (bt_config bt) = BTUNE_PERF_BALANCED
              then if aux_index bt < MAX_STATE_THREADS
                   then let bt = bt\<lparr>threads_for_comp := \<not> threads_for_comp bt, aux_index := MAX_STATE_THREADS\<rparr>
                        in if has_ended_threads bt then flip_nthreads bt else bt
                   else bt
              else bt\<lparr>aux_index := MAX_STATE_THREADS + 1\<rparr>)
        in if aux_index bt > MAX_STATE_THREADS then enter_clevel (bt\<lparr>aux_index := 0\<rparr>) else bt
      else bt)"

definition end_clevel :: "blosc_cctx \<Rightarrow> bool \<Rightarrow> bool \<Rightarrow> btune_struct \<Rightarrow> btune_struct" where
  "end_clevel ctx improved first_time bt =
     (let bt = (if \<not> improved \<and> first_time then flip_clevel bt else bt) in
      if has_ended_clevel bt \<or> \<not> improved \<and> \<not> first_time
      then
        let bt = bt\<lparr>aux_index := 0, bt_state := (if \<not> BTUNE_DISABLE_BLOCKSIZE then BLOCKSIZE
               else if \<not> BTUNE_DISABLE_MEMCPY then MEMCPY else WAITING)\<rparr>
        in if has_ended_blocksize ctx bt then flip_block bt else bt
      else bt)"

definition end_block :: "blosc_cctx \<Rightarrow> bool \<Rightarrow> bool \<Rightarrow> btune_struct \<Rightarrow> btune_struct" where
  "end_block ctx improved first_time bt =
     (let bt = (if \<not> improved \<and> first_time then flip_block bt else bt) in
      if has_ended_blocksize ctx bt \<or> \<not> improved \<and> \<not> first_time
      then bt\<lparr>aux_index := 0, bt_state := (if comp_mode (bt_config bt) = BTUNE_COMP_HSP \<and> \<not> BTUNE_DISABLE_MEMCPY
               then MEMCPY else WAITING)\<rparr>
      else bt)"

definition update_aux :: "blosc_const \<Rightarrow> blosc_cctx \<Rightarrow> bool \<Rightarrow> btune_struct \<Rightarrow> btune_struct" where
  "update_aux bc ctx improved bt =
     (let first_time = (aux_index bt = REPEATS_PER_CPARAMS);
          bt = (case bt_state bt of
                  CODEC_FILTER \<Rightarrow> end_codec_filter bc bt
                | SHUFFLE_SIZE \<Rightarrow> end_shuffle bc improved first_time bt
                | THREADS \<Rightarrow> end_threads improved bt
                | CLEVEL \<Rightarrow> end_clevel ctx improved first_time bt
                | BLOCKSIZE \<Rightarrow> end_block ctx improved first_time bt
                | MEMCPY \<Rightarrow> bt\<lparr>aux_index := 0, bt_state := WAITING\<rparr>
                | WAITING \<Rightarrow> bt
                | STOP \<Rightarrow> bt)
      in if bt_state bt = WAITING then process_waiting_state bc bt else bt)"

text \<open>The results of the compression of one chunk are taken in.\<close>

definition judge :: "blosc_const \<Rightarrow> blosc_cctx \<Rightarrow> fp \<Rightarrow> fp \<Rightarrow> btune_struct \<Rightarrow> bool" where
  "judge bc ctx ctime dtime bt =
     (let score = mean (current_scores bt); cratio = mean (current_cratios bt);
          cratio_coef = fp_div cratio (cp_cratio (bt_best bt)); score_coef = fp_div (cp_score (bt_best bt)) score;
          improved = (if bt_state bt = THREADS
                      then if threads_for_comp bt then fp_less ctime (cp_ctime (bt_best bt))
                           else fp_less dtime (cp_dtime (bt_best bt))
                      else has_improved bt score_coef cratio_coef)
      in if cx_destsize ctx \<le> BLOSC2_MAX_OVERHEAD bc + cx_typesize ctx then False else improved)"

definition iabtune_update :: "blosc_const \<Rightarrow> blosc_cctx \<Rightarrow> fp \<Rightarrow> btune_struct \<Rightarrow> btune_struct" where
  "iabtune_update bc ctx ctime bt =
     (if bt_state bt \<noteq> STOP
      then
        let cbytes = cx_destsize ctx; dtime = Fin 0; score = score_function bt ctime cbytes dtime;
            cratio = fp_div (dbl (of_int (cx_sourcesize ctx))) (dbl (of_int cbytes));
            bt = bt\<lparr>steps_count := steps_count bt + 1,
                   bt_aux := (bt_aux bt)\<lparr>cp_score := score, cp_cratio := cratio, cp_ctime := ctime, cp_dtime := dtime\<rparr>,
                   current_scores := (current_scores bt)[rep_index bt := score],
                   current_cratios := (current_cratios bt)[rep_index bt := cratio],
                   rep_index := rep_index bt + 1\<rparr>
        in if rep_index bt = REPEATS_PER_CPARAMS
           then
             let improved = judge bc ctx ctime dtime bt;
                 bt = (if improved then bt\<lparr>bt_best := bt_aux bt\<rparr> else bt)
             in update_aux bc ctx improved (bt\<lparr>rep_index := 0\<rparr>)
           else bt
      else bt)"

section \<open>Names for the log\<close>

definition stcode_to_stname :: "btune_struct \<Rightarrow> string" where
  "stcode_to_stname bt = (case bt_state bt of
       CODEC_FILTER \<Rightarrow> ''CODEC_FILTER''
     | THREADS \<Rightarrow> if threads_for_comp bt then ''THREADS_COMP'' else ''THREADS_DECOMP''
     | SHUFFLE_SIZE \<Rightarrow> ''SHUFFLE_SIZE'' | CLEVEL \<Rightarrow> ''CLEVEL'' | BLOCKSIZE \<Rightarrow> ''BLOCKSIZE''
     | MEMCPY \<Rightarrow> ''MEMCPY'' | WAITING \<Rightarrow> ''WAITING'' | STOP \<Rightarrow> ''STOP'')"

definition readapt_to_str :: "readapt_type \<Rightarrow> string" where
  "readapt_to_str r = (case r of HARD \<Rightarrow> ''HARD'' | SOFT \<Rightarrow> ''SOFT'' | WAIT \<Rightarrow> ''WAIT'')"

definition perf_mode_to_str :: "btune_performance_mode \<Rightarrow> string" where
  "perf_mode_to_str m =
     (case m of BTUNE_PERF_DECOMP \<Rightarrow> ''DECOMP'' | BTUNE_PERF_BALANCED \<Rightarrow> ''BALANCED'' | BTUNE_PERF_COMP \<Rightarrow> ''COMP'')"

definition comp_mode_to_str :: "btune_comp_mode \<Rightarrow> string" where
  "comp_mode_to_str m =
     (case m of BTUNE_COMP_HSP \<Rightarrow> ''HSP'' | BTUNE_COMP_BALANCED \<Rightarrow> ''BALANCED'' | BTUNE_COMP_HCR \<Rightarrow> ''HCR'')"

text \<open>The decimal conversion of \<^verbatim>\<open>sprintf\<close>, for the numbers that occur here.\<close>

fun decimal :: "nat \<Rightarrow> string" where
  "decimal n = (if n < 10 then [char_of (48 + n)] else decimal (n div 10) @ [char_of (48 + n mod 10)])"

definition bandwidth_to_str :: "nat \<Rightarrow> string" where
  "bandwidth_to_str b =
     (if b < 1024 then decimal b @ '' KB/s''
      else if b < 1024 ^ 2 then decimal (b div 1024) @ '' MB/s''
      else if b < 1024 ^ 3 then decimal (b div 1024 div 1024) @ '' GB/s''
      else decimal (b div 1024 div 1024 div 1024) @ '' TB/s'')"

definition repeat_mode_to_str :: "btune_repeat_mode \<Rightarrow> string" where
  "repeat_mode_to_str m =
     (case m of BTUNE_REPEAT_ALL \<Rightarrow> ''REPEAT_ALL'' | BTUNE_REPEAT_SOFT \<Rightarrow> ''REPEAT_SOFT'' | BTUNE_STOP \<Rightarrow> ''STOP'')"

section \<open>One cycle of the tuner\<close>

text \<open>
  The compressor asks for parameters, compresses a chunk (which leaves some context \<open>ctx\<close>, about which
  nothing is assumed) and reports the time.
\<close>

definition btune_cycle :: "blosc_const \<Rightarrow> blosc_cctx \<Rightarrow> fp \<Rightarrow> btune_struct \<times> blosc_cctx \<Rightarrow> (btune_struct \<times> blosc_cctx) option" where
  "btune_cycle bc ctx ctime st =
     map_option (\<lambda>(bt, _). (iabtune_update bc ctx ctime bt, ctx)) (iabtune_next_cparams bc st)"

text \<open>The states that can occur, whatever the compressor measures.\<close>

inductive btune_reach :: "blosc_const \<Rightarrow> btune_config \<Rightarrow> blosc_cctx \<Rightarrow> blosc_dctx option \<Rightarrow> btune_struct \<times> blosc_cctx \<Rightarrow> bool"
  for bc :: blosc_const and cfg :: btune_config and cctx :: blosc_cctx and dctx :: "blosc_dctx option" where
  start: "iabtune_init bc (Some cfg) cctx dctx = Some bt \<Longrightarrow> btune_reach bc cfg cctx dctx (bt, cctx)"
| cycle: "btune_reach bc cfg cctx dctx st \<Longrightarrow> btune_cycle bc ctx ctime st = Some st' \<Longrightarrow> btune_reach bc cfg cctx dctx st'"

text \<open>Two tuner states with the same control part (all but the parameters and their scores).\<close>

definition same_ctl :: "btune_struct \<Rightarrow> btune_struct \<Rightarrow> bool" where
  "same_ctl a b \<longleftrightarrow> bt_config b = bt_config a \<and> bt_codecs b = bt_codecs a \<and> filter_split_limit b = filter_split_limit a \<and>
     aux_index b = aux_index a \<and> bt_state b = bt_state a \<and> step_size b = step_size a \<and> nwaitings b = nwaitings a \<and>
     nsofts b = nsofts a \<and> nhards b = nhards a \<and> is_repeating b = is_repeating a \<and> readapt_from b = readapt_from a"

lemma clamp_fields [simp]:
  "cp_compcode (clamp_clevel m cp) = cp_compcode cp" "cp_blocksize (clamp_clevel m cp) = cp_blocksize cp"
  "increasing_clevel (clamp_clevel m cp) = increasing_clevel cp"
  "cp_shufflesize (clamp_clevel m cp) = cp_shufflesize cp"
  "cp_nthreads_comp (clamp_clevel m cp) = cp_nthreads_comp cp"
  "cp_nthreads_decomp (clamp_clevel m cp) = cp_nthreads_decomp cp"
  by (simp_all add: clamp_clevel_def Let_def)

lemma next_blocksize_id [simp]: "iabtune_next_blocksize bc ctx = ctx"
  by (simp add: iabtune_next_blocksize_def)

lemma set_blocksize_fields:
  assumes "set_blocksize bc (cp, ctx) = (cp', ctx')"
  shows "cp_compcode cp' = cp_compcode cp" "increasing_clevel cp' = increasing_clevel cp" "cp_clevel cp' = cp_clevel cp"
    "cx_clevel ctx' = cx_clevel ctx" "cx_compcode ctx' = cx_compcode ctx"
  using assms by (auto simp: set_blocksize_def split: if_splits)

lemma set_nthreads_fields [simp]:
  "same_ctl bt (set_nthreads_decomp bt)" "bt_best (set_nthreads_decomp bt) = bt_best bt"
  "bt_aux (set_nthreads_decomp bt) = bt_aux bt" "rep_index (set_nthreads_decomp bt) = rep_index bt"
  by (simp_all add: set_nthreads_decomp_def same_ctl_def split: option.split)

lemma same_ctl_aux [simp]: "same_ctl bt (bt'\<lparr>bt_aux := cp\<rparr>) = same_ctl bt bt'" "same_ctl (bt\<lparr>bt_aux := cp\<rparr>) bt' = same_ctl bt bt'"
  by (simp_all add: same_ctl_def)

lemma set_btune_ctl:
  assumes "set_btune_cparams bc (bt, ctx) = (bt', ctx')"
  shows "same_ctl bt bt'" "bt_best bt' = bt_best bt" "rep_index bt' = rep_index bt"
    "cp_compcode (bt_aux bt') = cp_compcode (bt_aux bt)"
    "increasing_clevel (bt_aux bt') = increasing_clevel (bt_aux bt)"
    "cp_clevel (bt_aux bt') = cp_clevel (clamp_clevel (comp_mode (bt_config bt)) (bt_aux bt))"
    "cx_clevel ctx' = cp_clevel (bt_aux bt)" "cx_compcode ctx' = cp_compcode (bt_aux bt)"
proof -
  obtain cp1 ctx1 where b: "set_blocksize bc (clamp_clevel (comp_mode (bt_config bt)) (bt_aux bt),
      ctx\<lparr>cx_compcode := cp_compcode (bt_aux bt), cx_filter := cp_filter (bt_aux bt),
        cx_splitmode := cp_splitmode (bt_aux bt), cx_clevel := cp_clevel (bt_aux bt)\<rparr>) = (cp1, ctx1)"
    by (rule prod.exhaust)
  have r: "bt' = set_nthreads_decomp (bt\<lparr>bt_aux := cp1\<rparr>)"
    "ctx' = ctx1\<lparr>cx_typesize := cp_shufflesize cp1, cx_new_nthreads := wrap_signed 16 (cp_nthreads_comp cp1)\<rparr>"
    using assms by (simp_all add: set_btune_cparams_def b)
  note f = set_blocksize_fields [OF b]
  have "same_ctl (bt\<lparr>bt_aux := cp1\<rparr>) bt'" unfolding r by (rule set_nthreads_fields)
  then show "same_ctl bt bt'" by simp
  show "bt_best bt' = bt_best bt" "rep_index bt' = rep_index bt"
    "cp_compcode (bt_aux bt') = cp_compcode (bt_aux bt)"
    "increasing_clevel (bt_aux bt') = increasing_clevel (bt_aux bt)"
    "cp_clevel (bt_aux bt') = cp_clevel (clamp_clevel (comp_mode (bt_config bt)) (bt_aux bt))"
    "cx_clevel ctx' = cp_clevel (bt_aux bt)" "cx_compcode ctx' = cp_compcode (bt_aux bt)"
    using f by (simp_all add: r)
qed

text \<open>The parameters that the control flow depends on.\<close>

definition core :: "cparams_btune \<Rightarrow> compcode \<times> int \<times> bool" where
  "core cp = (cp_compcode cp, cp_clevel cp, increasing_clevel cp)"

lemma update_step:
  assumes "rep_index bt = 0" "bt_state bt \<noteq> STOP"
  obtains improved bt1 where "iabtune_update bc ctx t bt = update_aux bc ctx improved bt1"
    "same_ctl bt bt1" "rep_index bt1 = 0"
    "core (bt_best bt1) = (if improved then core (bt_aux bt) else core (bt_best bt))"
proof -
  let ?score = "score_function bt t (cx_destsize ctx) (Fin 0)"
  let ?cratio = "fp_div (dbl (of_int (cx_sourcesize ctx))) (dbl (of_int (cx_destsize ctx)))"
  define bt0 where "bt0 = bt\<lparr>steps_count := steps_count bt + 1,
                   bt_aux := (bt_aux bt)\<lparr>cp_score := ?score, cp_cratio := ?cratio, cp_ctime := t, cp_dtime := Fin 0\<rparr>,
                   current_scores := (current_scores bt)[rep_index bt := ?score],
                   current_cratios := (current_cratios bt)[rep_index bt := ?cratio],
                   rep_index := rep_index bt + 1\<rparr>"
  define imp where "imp = judge bc ctx t (Fin 0) bt0"
  let ?bt1 = "(if imp then bt0\<lparr>bt_best := bt_aux bt0\<rparr> else bt0)\<lparr>rep_index := 0\<rparr>"
  have r: "rep_index bt0 = 1" using assms by (simp add: bt0_def)
  have "iabtune_update bc ctx t bt = update_aux bc ctx imp ?bt1"
    unfolding iabtune_update_def Let_def bt0_def [symmetric] using assms(2) r
    by (simp add: imp_def)
  moreover have "same_ctl bt bt0" "bt_best bt0 = bt_best bt" "core (bt_aux bt0) = core (bt_aux bt)"
    by (simp_all add: bt0_def same_ctl_def core_def)
  then have "same_ctl bt ?bt1" "core (bt_best ?bt1) = (if imp then core (bt_aux bt) else core (bt_best bt))"
    by (simp_all add: same_ctl_def)
  ultimately show ?thesis by (intro that [of imp ?bt1]) simp_all
qed

definition tick :: "btune_struct \<Rightarrow> btune_struct" where
  "tick bt = (case bt_state bt of WAITING \<Rightarrow> bt\<lparr>nwaitings := nwaitings bt + 1\<rparr> | STOP \<Rightarrow> bt
     | _ \<Rightarrow> bt\<lparr>aux_index := aux_index bt + 1\<rparr>)"

text \<open>The level and codec that the next parameters have, before the level is clamped.\<close>

definition proposes :: "blosc_const \<Rightarrow> btune_struct \<Rightarrow> cparams_btune \<Rightarrow> bool" where
  "proposes bc bt cp \<longleftrightarrow> (case bt_state bt of
       CODEC_FILTER \<Rightarrow> next_codec_filter bt (bt_best bt) bc = Some cp
     | CLEVEL \<Rightarrow> cp = next_clevel bt (bt_best bt)
     | _ \<Rightarrow> cp = bt_best bt)"

lemma next_of_best [simp]:
  "next_codec_filter (bt\<lparr>bt_aux := x\<rparr>) cp bc = next_codec_filter bt cp bc"
  "next_clevel (bt\<lparr>bt_aux := x\<rparr>) cp = next_clevel bt cp"
  by (simp_all add: next_codec_filter_def next_clevel_def Let_def cong: if_cong)

lemma cycle_step:
  assumes "btune_cycle bc ctx t (bt, ctx0) = Some (bt', ctx')" "rep_index bt = 0"
    and "bt_state bt \<in> {CODEC_FILTER, CLEVEL, WAITING}"
  obtains improved bt1 cp where "bt' = update_aux bc ctx improved bt1" "same_ctl (tick bt) bt1" "rep_index bt1 = 0"
    "proposes bc bt cp"
    "core (bt_best bt1) = (if improved then core (clamp_clevel (comp_mode (bt_config bt)) cp) else core (bt_best bt))"
proof -
  obtain bt2 ctx2 where n: "iabtune_next_cparams bc (bt, ctx0) = Some (bt2, ctx2)"
    and u: "bt' = iabtune_update bc ctx t bt2"
    using assms(1) by (auto simp: btune_cycle_def)
  obtain bt3 where a: "next_aux bc (bt, ctx0) = Some bt3" "set_btune_cparams bc (bt3, ctx0) = (bt2, ctx2)"
    using n by (auto simp: iabtune_next_cparams_def)
  note f = set_btune_ctl [OF a(2)]
  have b: "same_ctl (tick bt) bt3" "bt_best bt3 = bt_best bt" "rep_index bt3 = 0" "proposes bc bt (bt_aux bt3)"
    using a(1) assms(2,3) by (auto simp: next_aux_def Let_def tick_def same_ctl_def proposes_def)
  have st: "bt_state bt2 = bt_state bt" "bt_config bt3 = bt_config bt"
    using b(1) f(1) assms(3) by (auto simp: same_ctl_def tick_def)
  then have "rep_index bt2 = 0" "bt_state bt2 \<noteq> STOP" using assms(3) f b by auto
  then obtain improved bt1 where r: "bt' = update_aux bc ctx improved bt1" "same_ctl bt2 bt1" "rep_index bt1 = 0"
    "core (bt_best bt1) = (if improved then core (bt_aux bt2) else core (bt_best bt2))"
    unfolding u by (rule update_step)
  have "core (bt_aux bt2) = core (clamp_clevel (comp_mode (bt_config bt)) (bt_aux bt3))"
    using f st by (simp add: core_def)
  moreover have "same_ctl (tick bt) bt1" using b(1) f(1) r(2) by (simp add: same_ctl_def)
  ultimately show ?thesis using that r b f by simp
qed

section \<open>What the transitions leave alone\<close>

definition frame :: "btune_struct \<Rightarrow> btune_config \<times> compcode list \<times> nat \<times> nat \<times> nat \<times> compcode \<times> int" where
  "frame bt = (bt_config bt, bt_codecs bt, filter_split_limit bt, rep_index bt, aux_index bt,
     cp_compcode (bt_best bt), cp_clevel (bt_best bt))"

definition counters :: "btune_struct \<Rightarrow> nat \<times> nat \<times> nat \<times> bool" where
  "counters bt = (nsofts bt, nhards bt, nwaitings bt, is_repeating bt)"

lemma flips [simp]:
  "frame (flip_clevel bt) = frame bt" "frame (flip_shuffle bt) = frame bt" "frame (flip_block bt) = frame bt"
  "counters (flip_clevel bt) = counters bt" "counters (flip_shuffle bt) = counters bt" "counters (flip_block bt) = counters bt"
  "bt_state (flip_clevel bt) = bt_state bt" "bt_state (flip_shuffle bt) = bt_state bt" "bt_state (flip_block bt) = bt_state bt"
  "readapt_from (flip_clevel bt) = readapt_from bt" "readapt_from (flip_shuffle bt) = readapt_from bt"
  "readapt_from (flip_block bt) = readapt_from bt"
  "step_size (flip_clevel bt) = step_size bt" "step_size (flip_shuffle bt) = step_size bt" "step_size (flip_block bt) = step_size bt"
  by (simp_all add: flip_clevel_def flip_shuffle_def flip_block_def frame_def counters_def)

lemma frame_updates [simp]:
  "frame (bt\<lparr>bt_state := st\<rparr>) = frame bt" "frame (bt\<lparr>step_size := n\<rparr>) = frame bt" "frame (bt\<lparr>readapt_from := r\<rparr>) = frame bt"
  "frame (bt\<lparr>threads_for_comp := b\<rparr>) = frame bt" "frame (bt\<lparr>is_repeating := b\<rparr>) = frame bt"
  "frame (bt\<lparr>nsofts := n\<rparr>) = frame bt" "frame (bt\<lparr>nhards := n\<rparr>) = frame bt"
  "counters (bt\<lparr>bt_state := st\<rparr>) = counters bt" "counters (bt\<lparr>step_size := n\<rparr>) = counters bt"
  "counters (bt\<lparr>readapt_from := r\<rparr>) = counters bt" "counters (bt\<lparr>threads_for_comp := b\<rparr>) = counters bt"
  by (simp_all add: frame_def counters_def)

lemma init_soft_fields [simp]:
  "frame (init_soft bt) = frame bt" "counters (init_soft bt) = counters bt" "bt_state (init_soft bt) = CLEVEL"
  "readapt_from (init_soft bt) = SOFT" "step_size (init_soft bt) = 1"
  by (simp_all add: init_soft_def Let_def)

lemma init_hard_fields [simp]:
  "frame (init_hard bc bt) = frame bt" "counters (init_hard bc bt) = counters bt" "bt_state (init_hard bc bt) = CODEC_FILTER"
  "readapt_from (init_hard bc bt) = HARD" "step_size (init_hard bc bt) = 2"
  by (simp_all add: init_hard_def Let_def)

text \<open>Where \<open>process_waiting_state\<close> can go.\<close>

definition settled :: "btune_struct \<Rightarrow> bool" where
  "settled bt \<longleftrightarrow> (step_size bt = 1 \<or> step_size bt = 2) \<and>
     (case bt_state bt of
        CODEC_FILTER \<Rightarrow> readapt_from bt = HARD
      | CLEVEL \<Rightarrow> readapt_from bt = SOFT \<and> 0 < nsofts_before_hard (behaviour (bt_config bt))
      | WAITING \<Rightarrow> readapt_from bt = WAIT
      | STOP \<Rightarrow> True
      | _ \<Rightarrow> False)"

lemma frame_config: "frame a = frame b \<Longrightarrow> bt_config a = bt_config b"
  by (simp add: frame_def)

lemma init_config [simp]: "bt_config (init_soft bt) = bt_config bt" "bt_config (init_hard bc bt) = bt_config bt"
  by (rule frame_config, simp)+

lemma waiting_settled:
  assumes "bt_state bt = WAITING" "step_size bt = 1 \<or> step_size bt = 2"
    and "readapt_from bt = SOFT \<Longrightarrow> 0 < nsofts_before_hard (behaviour (bt_config bt))"
  shows "frame (process_waiting_state bc bt) = frame bt" "settled (process_waiting_state bc bt)"
proof -
  have h: "frame (waiting_hard bc bt) = frame bt \<and> settled (waiting_hard bc bt)"
    using assms by (auto simp: waiting_hard_def Let_def settled_def)
  have s: "frame (waiting_soft bc bt) = frame bt \<and> (readapt_from bt = SOFT \<longrightarrow> settled (waiting_soft bc bt))"
    using assms by (auto simp: waiting_soft_def Let_def settled_def)
  have w: "frame (waiting_wait bc bt) = frame bt \<and> (readapt_from bt = WAIT \<longrightarrow> settled (waiting_wait bc bt))"
    using assms by (auto simp: waiting_wait_def Let_def settled_def)
  have st: "settled b \<Longrightarrow> settled (b\<lparr>step_size := 1\<rparr>)" for b
    by (cases "bt_state b") (simp_all add: settled_def)
  show "frame (process_waiting_state bc bt) = frame bt" "settled (process_waiting_state bc bt)"
    using h s w st by (cases "readapt_from bt"; simp add: process_waiting_state_def Let_def)+
qed

section \<open>The invariant\<close>

definition bt_inv :: "btune_struct \<Rightarrow> bool" where
  "bt_inv bt \<longleftrightarrow> rep_index bt = 0 \<and> filter_split_limit bt = 6 \<and> bt_codecs bt \<noteq> [] \<and>
     (step_size bt = 1 \<or> step_size bt = 2) \<and> cp_compcode (bt_best bt) \<in> set (bt_codecs bt) \<and>
     0 \<le> cp_clevel (bt_best bt) \<and> cp_clevel (bt_best bt) \<le> 9 \<and>
     (case bt_state bt of
        CODEC_FILTER \<Rightarrow> readapt_from bt = HARD \<and> aux_index bt < 6 * length (bt_codecs bt)
      | CLEVEL \<Rightarrow> readapt_from bt = HARD \<or>
          readapt_from bt = SOFT \<and> 0 < nsofts_before_hard (behaviour (bt_config bt))
      | WAITING \<Rightarrow> readapt_from bt = WAIT \<and> aux_index bt = 0
      | STOP \<Rightarrow> True
      | _ \<Rightarrow> False)"

lemma bt_inv_waiting:
  assumes "bt_state bt = WAITING" "step_size bt = 1 \<or> step_size bt = 2" "aux_index bt = 0"
    and "readapt_from bt = SOFT \<Longrightarrow> 0 < nsofts_before_hard (behaviour (bt_config bt))"
    and "rep_index bt = 0" "filter_split_limit bt = 6" "bt_codecs bt \<noteq> []" "cp_compcode (bt_best bt) \<in> set (bt_codecs bt)"
    and "0 \<le> cp_clevel (bt_best bt)" "cp_clevel (bt_best bt) \<le> 9"
  shows "bt_inv (process_waiting_state bc bt)"
proof -
  let ?b = "process_waiting_state bc bt"
  have w: "frame ?b = frame bt" "settled ?b" by (rule waiting_settled [OF assms(1,2,4)], assumption)+
  have "bt_config ?b = bt_config bt" "bt_codecs ?b = bt_codecs bt" "filter_split_limit ?b = 6" "rep_index ?b = 0"
    "aux_index ?b = 0" "cp_compcode (bt_best ?b) = cp_compcode (bt_best bt)" "cp_clevel (bt_best ?b) = cp_clevel (bt_best bt)"
    using w(1) assms by (simp_all add: frame_def)
  then show ?thesis
    using w(2) assms(7-10) by (cases "bt_state ?b") (simp_all add: settled_def bt_inv_def)
qed

lemma end_codec_filter_enabled:
  "end_codec_filter bc bt =
     (if aux_index bt div filter_split_limit bt = length (bt_codecs bt)
      then bt\<lparr>aux_index := 0, bt_state := CLEVEL\<rparr> else bt)"
  by (simp add: end_codec_filter_def threads_or_clevel_def Let_def)

lemma next_clevel_range:
  assumes "0 \<le> cp_clevel cp" "cp_clevel cp \<le> 9"
  shows "0 \<le> cp_clevel (next_clevel bt cp)" "cp_clevel (next_clevel bt cp) \<le> 9"
    "cp_compcode (next_clevel bt cp) = cp_compcode cp"
  using assms by (auto simp: next_clevel_def Let_def)

lemma next_codec_filter_range:
  assumes "next_codec_filter bt cp bc = Some cp'" "0 \<le> cp_clevel cp" "cp_clevel cp \<le> 9"
  shows "0 \<le> cp_clevel cp'" "cp_clevel cp' \<le> 9" "cp_compcode cp' \<in> set (bt_codecs bt)"
proof -
  have i: "aux_index bt div filter_split_limit bt < length (bt_codecs bt)"
    "cp_compcode cp' = bt_codecs bt ! (aux_index bt div filter_split_limit bt)"
    using assms(1) by (auto simp: next_codec_filter_def Let_def split: if_splits)
  then show "cp_compcode cp' \<in> set (bt_codecs bt)" by simp
  show "0 \<le> cp_clevel cp'" "cp_clevel cp' \<le> 9"
    using assms by (auto simp: next_codec_filter_def Let_def split: if_splits)
qed

lemma clamp_range:
  "0 \<le> cp_clevel cp \<Longrightarrow> cp_clevel cp \<le> 9 \<Longrightarrow> 0 \<le> cp_clevel (clamp_clevel m cp) \<and> cp_clevel (clamp_clevel m cp) \<le> 9"
  by (auto simp: clamp_clevel_def Let_def)

lemma proposes_range:
  assumes "bt_inv bt" "proposes bc bt cp"
  shows "0 \<le> cp_clevel cp" "cp_clevel cp \<le> 9" "cp_compcode cp \<in> set (bt_codecs bt)"
  using assms next_codec_filter_range [of bt "bt_best bt" bc cp] next_clevel_range [of "bt_best bt" bt]
  by (auto simp: proposes_def bt_inv_def split: btune_state.splits)

lemma update_aux_inv:
  assumes inv: "bt_inv bt" and st: "bt_state bt \<in> {CODEC_FILTER, CLEVEL, WAITING}"
    and b1: "same_ctl (tick bt) bt1" "rep_index bt1 = 0" "cp_compcode (bt_best bt1) \<in> set (bt_codecs bt)"
      "0 \<le> cp_clevel (bt_best bt1)" "cp_clevel (bt_best bt1) \<le> 9"
  shows "bt_inv (update_aux bc ctx improved bt1)"
proof -
  have c: "bt_codecs bt1 = bt_codecs bt" "filter_split_limit bt1 = 6" "bt_codecs bt \<noteq> []" "bt_state bt1 = bt_state bt"
    "step_size bt1 = 1 \<or> step_size bt1 = 2" "readapt_from bt1 = readapt_from bt" "bt_config bt1 = bt_config bt"
    using inv b1(1) st by (auto simp: bt_inv_def same_ctl_def tick_def)
  from st consider "bt_state bt = CODEC_FILTER" | "bt_state bt = CLEVEL" | "bt_state bt = WAITING" by blast
  then show ?thesis
  proof cases
    case 1
    then have a: "aux_index bt1 = Suc (aux_index bt)" "aux_index bt < 6 * length (bt_codecs bt)" "readapt_from bt = HARD"
      using inv b1(1) by (simp_all add: bt_inv_def same_ctl_def tick_def)
    show ?thesis
    proof (cases "aux_index bt1 div 6 = length (bt_codecs bt)")
      case True
      then show ?thesis
        using 1 c b1 a by (simp add: update_aux_def end_codec_filter_enabled bt_inv_def)
    next
      case False
      then have "aux_index bt1 < 6 * length (bt_codecs bt)" using a by linarith
      then show ?thesis
        using 1 c b1 a False by (simp add: update_aux_def end_codec_filter_enabled bt_inv_def)
    qed
  next
    case 2
    define bt2 where "bt2 = end_clevel ctx improved (aux_index bt1 = 1) bt1"
    have r: "readapt_from bt = HARD \<or> readapt_from bt = SOFT \<and> 0 < nsofts_before_hard (behaviour (bt_config bt))"
      using inv 2 by (simp add: bt_inv_def)
    have f: "bt_config bt2 = bt_config bt" "bt_codecs bt2 = bt_codecs bt" "filter_split_limit bt2 = 6" "rep_index bt2 = 0"
      "cp_compcode (bt_best bt2) = cp_compcode (bt_best bt1)" "cp_clevel (bt_best bt2) = cp_clevel (bt_best bt1)"
      "readapt_from bt2 = readapt_from bt" "step_size bt2 = step_size bt1"
      "bt_state bt2 = CLEVEL \<or> bt_state bt2 = WAITING \<and> aux_index bt2 = 0"
      using c b1 2 by (auto simp: bt2_def end_clevel_def Let_def flip_clevel_def flip_block_def)
    show ?thesis
    proof (cases "bt_state bt2 = WAITING")
      case True
      then have "bt_inv (process_waiting_state bc bt2)"
        using f c b1 r by (intro bt_inv_waiting) auto
      then show ?thesis using 2 c True by (simp add: update_aux_def bt2_def)
    next
      case False
      then have "bt_inv bt2" using f c b1 r by (auto simp: bt_inv_def)
      then show ?thesis using 2 c False by (simp add: update_aux_def bt2_def)
    qed
  next
    case 3
    then have "readapt_from bt1 = WAIT" "aux_index bt1 = 0"
      using inv c b1(1) by (simp_all add: bt_inv_def same_ctl_def tick_def)
    then have "bt_inv (process_waiting_state bc bt1)"
      using 3 c b1 by (intro bt_inv_waiting) simp_all
    then show ?thesis using 3 c by (simp add: update_aux_def)
  qed
qed

lemma cycle_stop:
  assumes "btune_cycle bc ctx t (bt, ctx0) = Some (bt', ctx')" "bt_state bt = STOP"
  shows "same_ctl bt bt'" "bt_best bt' = bt_best bt" "rep_index bt' = rep_index bt"
proof -
  have n: "next_aux bc (bt, ctx0) = Some (bt\<lparr>bt_aux := bt_best bt\<rparr>)" using assms(2) by (simp add: next_aux_def Let_def)
  obtain bt2 ctx2 where s: "set_btune_cparams bc (bt\<lparr>bt_aux := bt_best bt\<rparr>, ctx0) = (bt2, ctx2)" by (rule prod.exhaust)
  note f = set_btune_ctl(1-3) [OF s]
  have "bt_state bt2 = STOP" using f(1) assms(2) by (simp add: same_ctl_def)
  then have "bt' = bt2" using assms(1) n s by (simp add: btune_cycle_def iabtune_next_cparams_def iabtune_update_def)
  then show "same_ctl bt bt'" "bt_best bt' = bt_best bt" "rep_index bt' = rep_index bt"
    using f by simp_all
qed

lemma update_aux_config: "bt_config (update_aux bc ctx improved bt) = bt_config bt" if "bt_state bt \<in> {CODEC_FILTER, CLEVEL, WAITING}"
proof -
  have p: "bt_config (process_waiting_state bc b) = bt_config b" for b
    by (cases "readapt_from b")
      (simp_all add: process_waiting_state_def waiting_hard_def waiting_soft_def waiting_wait_def Let_def)
  have "bt_config (end_clevel ctx improved ft bt) = bt_config bt" for ft
    by (simp add: end_clevel_def Let_def flip_clevel_def flip_block_def)
  then show ?thesis
    using that by (auto simp: update_aux_def end_codec_filter_enabled p Let_def)
qed

lemma cycle_inv:
  assumes "bt_inv bt" "btune_cycle bc ctx t (bt, ctx0) = Some (bt', ctx')"
  shows "bt_inv bt'" "bt_config bt' = bt_config bt"
proof -
  have st: "bt_state bt = STOP \<or> bt_state bt \<in> {CODEC_FILTER, CLEVEL, WAITING}"
    using assms(1) by (cases "bt_state bt") (simp_all add: bt_inv_def)
  have "bt_inv bt' \<and> bt_config bt' = bt_config bt"
  proof (cases "bt_state bt = STOP")
    case True
    then show ?thesis using cycle_stop [OF assms(2) True] assms(1) by (auto simp: bt_inv_def same_ctl_def)
  next
    case False
    then have s: "bt_state bt \<in> {CODEC_FILTER, CLEVEL, WAITING}" using st by blast
    have r: "rep_index bt = 0" using assms(1) by (simp add: bt_inv_def)
    obtain improved bt1 cp where c: "bt' = update_aux bc ctx improved bt1" "same_ctl (tick bt) bt1" "rep_index bt1 = 0"
      "proposes bc bt cp"
      "core (bt_best bt1) = (if improved then core (clamp_clevel (comp_mode (bt_config bt)) cp) else core (bt_best bt))"
      by (rule cycle_step [OF assms(2) r s])
    note p = proposes_range [OF assms(1) c(4)]
    have "cp_compcode (bt_best bt1) \<in> set (bt_codecs bt)" "0 \<le> cp_clevel (bt_best bt1)" "cp_clevel (bt_best bt1) \<le> 9"
      using c(5) p clamp_range [of cp "comp_mode (bt_config bt)"] assms(1)
      by (cases improved; simp add: core_def bt_inv_def)+
    then have "bt_inv bt'" unfolding c(1) by (intro update_aux_inv [OF assms(1) s c(2,3)])
    moreover have "bt_state bt1 \<in> {CODEC_FILTER, CLEVEL, WAITING}" "bt_config bt1 = bt_config bt"
      using c(2) s by (auto simp: same_ctl_def tick_def)
    ultimately show ?thesis using update_aux_config [of bt1 bc ctx improved] c(1) by simp
  qed
  then show "bt_inv bt'" "bt_config bt' = bt_config bt" by simp_all
qed

lemma init_inv:
  assumes "iabtune_init bc (Some cfg) cctx dctx = Some bt"
    and "cparams_hint cfg \<Longrightarrow> 0 \<le> cx_clevel cctx \<and> cx_clevel cctx \<le> 9"
  shows "bt_inv bt"
proof -
  define codecs where "codecs = btune_get_codecs bc cfg"
  define b0 where "b0 = init_struct bc cfg codecs cctx dctx"
  define b1 where "b1 = b0\<lparr>bt_best := extract_btune_cparams b0 cctx (bt_best b0),
                   bt_aux := extract_btune_cparams b0 cctx (bt_aux b0),
                   bt_codecs := add_codec (bt_codecs b0) (cx_compcode cctx)\<rparr>"
  have ne: "codecs \<noteq> []" and bt: "bt = (init_readapt bc cctx b0)\<lparr>step_size :=
      (if nhards_before_stop (behaviour (bt_config (init_readapt bc cctx b0))) = 1 then 1 else 2)\<rparr>"
    using assms(1) by (auto simp: iabtune_init_def codecs_def b0_def Let_def split: if_splits)
  have f0: "frame b0 = (cfg, codecs, 6, 0, 0, hd codecs, if comp_mode cfg = BTUNE_COMP_HCR then 8 else 9)"
    by (simp add: frame_def b0_def init_struct_def Let_def)
  have f1: "frame b1 = (cfg, add_codec codecs (cx_compcode cctx), 6, 0, 0, cx_compcode cctx, cx_clevel cctx)"
    using f0 by (simp add: frame_def b1_def extract_btune_cparams_def)
  have ac: "cx_compcode cctx \<in> set (add_codec codecs (cx_compcode cctx))" "add_codec codecs (cx_compcode cctx) \<noteq> []"
    using ne by (auto simp: add_codec_def)
  have cfg: "bt_config b0 = cfg" using f0 by (simp add: frame_def)
  have final: "bt_inv bt" if "bt = r\<lparr>step_size := n\<rparr>" "n = 1 \<or> n = 2" "settled (r\<lparr>step_size := n\<rparr>)"
    "frame r = (cfg', cs, 6, 0, 0, cc, cl)" "cs \<noteq> []" "cc \<in> set cs" "0 \<le> cl" "cl \<le> 9" for r n cfg' cs cc cl
    using that by (cases "bt_state r") (auto simp: bt_inv_def settled_def frame_def)
  show ?thesis
  proof (cases "cparams_hint cfg")
    case True
    have r: "frame (init_readapt bc cctx b0) = frame b1 \<and> settled ((init_readapt bc cctx b0)\<lparr>step_size := n\<rparr>)"
      if "n = 1 \<or> n = 2" for n
      using that True cfg frame_config [of b1 b0] f0 f1
      by (auto simp: init_readapt_def Let_def settled_def init_without_hards_def b1_def [symmetric] frame_def [of b0]
          split: btune_repeat_mode.split)
    show ?thesis
      by (rule final [OF bt]) (use r f1 ac assms(2) True in auto)
  next
    case False
    have r: "bt_state (init_readapt bc cctx b0) = CODEC_FILTER" "readapt_from (init_readapt bc cctx b0) = HARD"
      using False cfg by (simp_all add: init_readapt_def Let_def)
    obtain cfg' where "frame (init_readapt bc cctx b0) = (cfg', codecs, 6, 0, 0, hd codecs, if comp_mode cfg = BTUNE_COMP_HCR then 8 else 9)"
    proof -
      have "frame (init_hard bc b0) = frame b0" by simp
      then show ?thesis using that False cfg f0 by (simp add: init_readapt_def Let_def frame_def)
    qed
    then show ?thesis using ne r by (intro final [OF bt]) (auto simp: settled_def)
  qed
qed

section \<open>The plan of readapts\<close>

text \<open>
  The specification of the schedule, after the comments of \<^verbatim>\<open>iabtune.h\<close>: soft readapts, then a hard one,
  as often as the behaviour asks for, and then the end. \<open>btune_plan\<close> abstracts a tuner state to the
  readapts still to come, the current one first.
\<close>

definition rounds :: "nat \<Rightarrow> nat \<Rightarrow> readapt_type list" where
  "rounds n h = concat (replicate h (replicate n SOFT @ [HARD]))"

definition btune_plan :: "btune_struct \<Rightarrow> readapt_type list" where
  "btune_plan bt =
     (let b = behaviour (bt_config bt); n = nsofts_before_hard b; H = nhards_before_stop b - nhards bt;
          softs = replicate (n - nsofts bt mod n) SOFT; hards = (if H = 0 then [] else HARD # rounds n (H - 1))
      in if bt_state bt = STOP then []
         else case readapt_from bt of
                HARD \<Rightarrow> HARD # rounds n (H - 1)
              | SOFT \<Rightarrow> softs @ hards
              | WAIT \<Rightarrow> if n = 0 \<or> nsofts bt mod n = 0 then hards else softs @ hards)"

text \<open>What the counters satisfy when the repeat mode is \<open>BTUNE_STOP\<close>.\<close>

definition plan_inv :: "btune_struct \<Rightarrow> bool" where
  "plan_inv bt \<longleftrightarrow> (let b = behaviour (bt_config bt); n = nsofts_before_hard b; w = nwaits_before_readapt b;
       N = nhards_before_stop b; hint = cparams_hint (bt_config bt)
     in repeat_mode b = BTUNE_STOP \<and> (bt_state bt \<noteq> STOP \<longrightarrow>
       (if nhards bt < N
        then \<not> is_repeating bt \<and> (readapt_from bt = HARD \<or> hint \<or> 0 < nhards bt) \<and>
             (readapt_from bt = WAIT \<longrightarrow> 0 < w \<and> (n = 0 \<or> 0 < nsofts bt))
        else N = 0 \<and> hint \<and> readapt_from bt = SOFT \<and> w = 0) \<and>
       (readapt_from bt = SOFT \<longrightarrow> 0 < n) \<and> (readapt_from bt = HARD \<longrightarrow> n = 0 \<or> nsofts bt mod n = 0)))"

lemma counters_init [simp]:
  "nsofts (init_soft bt) = nsofts bt" "nhards (init_soft bt) = nhards bt" "is_repeating (init_soft bt) = is_repeating bt"
  "nwaitings (init_soft bt) = nwaitings bt"
  "nsofts (init_hard bc bt) = nsofts bt" "nhards (init_hard bc bt) = nhards bt"
  "is_repeating (init_hard bc bt) = is_repeating bt" "nwaitings (init_hard bc bt) = nwaitings bt"
  using init_soft_fields(2) [of bt] init_hard_fields(2) [of bc bt] by (simp_all add: counters_def)

lemma plan_step_size [simp]: "btune_plan (bt\<lparr>step_size := k\<rparr>) = btune_plan bt" "plan_inv (bt\<lparr>step_size := k\<rparr>) = plan_inv bt"
  by (simp_all add: btune_plan_def plan_inv_def Let_def cong: if_cong readapt_type.case_cong)

lemma rounds_Suc: "rounds n (Suc h) = replicate n SOFT @ HARD # rounds n h"
  by (simp add: rounds_def)

lemma waiting_hard_plan:
  assumes "plan_inv bt" "bt_state bt = WAITING" "readapt_from bt = HARD"
  shows "plan_inv (waiting_hard bc bt) \<and> btune_plan bt = HARD # btune_plan (waiting_hard bc bt)"
proof -
  let ?b = "behaviour (bt_config bt)"
  let ?n = "nsofts_before_hard ?b" and ?N = "nhards_before_stop ?b"
  have lt: "nhards bt < ?N" and rep: "repeat_mode ?b = BTUNE_STOP" "\<not> is_repeating bt"
    using assms by (auto simp: plan_inv_def Let_def split: if_splits)
  have m: "Suc (nhards bt) mod ?N = 0 \<longleftrightarrow> Suc (nhards bt) = ?N" using lt by (auto simp: mod_Suc)
  have mh: "?N = minimum_hards bt \<Longrightarrow> Suc (nhards bt) = ?N" using lt by (auto simp: minimum_hards_def split: if_splits)
  show ?thesis
  proof (cases "Suc (nhards bt) = ?N")
    case True
    then show ?thesis
      using assms rep m lt
      by (simp add: waiting_hard_def Let_def btune_plan_def plan_inv_def rounds_def minimum_hards_def)
  next
    case False
    then obtain h where h: "?N - nhards bt - 1 = Suc h" "?N - Suc (nhards bt) = Suc h" "?N - Suc (Suc (nhards bt)) = h"
      using lt by (cases "?N - nhards bt - 1") auto
    have nm: "?N \<noteq> minimum_hards bt" "Suc (nhards bt) mod ?N \<noteq> 0" using False mh m by auto
    have r: "HARD # rounds ?n (?N - nhards bt - 1) = HARD # replicate ?n SOFT @ HARD # rounds ?n h"
      by (simp add: h rounds_Suc)
    consider "0 < ?n" | "?n = 0" "0 < nwaits_before_readapt ?b" | "?n = 0" "nwaits_before_readapt ?b = 0" by blast
    then show ?thesis
    proof cases
      case 1
      then have "waiting_hard bc bt = init_soft (bt\<lparr>nhards := nhards bt + 1\<rparr>)"
        using nm by (simp add: waiting_hard_def Let_def)
      moreover have "nsofts bt mod ?n = 0" using assms 1 lt by (simp add: plan_inv_def Let_def)
      ultimately show ?thesis
        using assms 1 lt False rep h r by (simp add: plan_inv_def btune_plan_def Let_def)
    next
      case 2
      then have "waiting_hard bc bt = bt\<lparr>nhards := nhards bt + 1, bt_state := WAITING, readapt_from := WAIT\<rparr>"
        using nm by (simp add: waiting_hard_def Let_def)
      then show ?thesis
        using assms 2 lt False rep h r by (simp add: plan_inv_def btune_plan_def Let_def)
    next
      case 3
      then have "waiting_hard bc bt = init_hard bc (bt\<lparr>nhards := nhards bt + 1\<rparr>)"
        using nm by (simp add: waiting_hard_def Let_def)
      then show ?thesis
        using assms 3 lt False rep h r by (simp add: plan_inv_def btune_plan_def Let_def)
    qed
  qed
qed

lemma waiting_soft_plan:
  assumes "plan_inv bt" "bt_state bt = WAITING" "readapt_from bt = SOFT"
  shows "plan_inv (waiting_soft bc bt) \<and> btune_plan bt = SOFT # btune_plan (waiting_soft bc bt)"
proof -
  let ?b = "behaviour (bt_config bt)"
  let ?n = "nsofts_before_hard ?b" and ?N = "nhards_before_stop ?b" and ?w = "nwaits_before_readapt ?b"
  have n: "0 < ?n" and rep: "repeat_mode ?b = BTUNE_STOP" using assms by (simp_all add: plan_inv_def Let_def)
  have md: "nsofts bt mod ?n < ?n" using n by simp
  have sm: "Suc (nsofts bt) mod ?n = (if Suc (nsofts bt mod ?n) = ?n then 0 else Suc (nsofts bt mod ?n))"
    by (rule mod_Suc)
  obtain d where d: "?n - nsofts bt mod ?n = Suc d" using md by (cases "?n - nsofts bt mod ?n") auto
  have dz: "Suc (nsofts bt) mod ?n = 0 \<longleftrightarrow> d = 0" "Suc (nsofts bt) mod ?n \<noteq> 0 \<Longrightarrow> ?n - Suc (nsofts bt) mod ?n = d"
    using sm d md by auto
  show ?thesis
  proof (cases "nhards bt < ?N")
    case True
    have mh: "minimum_hards bt < ?N" and nr: "\<not> is_repeating bt"
      using assms True by (auto simp: plan_inv_def Let_def minimum_hards_def)
    consider "0 < ?w" | "?w = 0" "Suc (nsofts bt) mod ?n = 0" | "?w = 0" "Suc (nsofts bt) mod ?n \<noteq> 0" by blast
    then show ?thesis
    proof cases
      case 1
      then have "waiting_soft bc bt = bt\<lparr>nsofts := nsofts bt + 1, readapt_from := WAIT\<rparr>"
        by (simp add: waiting_soft_def Let_def)
      then show ?thesis
        using assms 1 True n rep nr d dz by (auto simp: plan_inv_def btune_plan_def Let_def)
    next
      case 2
      then have "waiting_soft bc bt = init_hard bc (bt\<lparr>nsofts := nsofts bt + 1, readapt_from := WAIT\<rparr>)"
        using mh nr by (simp add: waiting_soft_def Let_def minimum_hards_def)
      then show ?thesis
        using assms 2 True n rep nr d dz by (simp add: plan_inv_def btune_plan_def Let_def)
    next
      case 3
      then have "waiting_soft bc bt = init_soft (bt\<lparr>nsofts := nsofts bt + 1, readapt_from := WAIT\<rparr>)"
        using n mh by (simp add: waiting_soft_def Let_def minimum_hards_def)
      then show ?thesis
        using assms 3 True n rep nr d dz by (simp add: plan_inv_def btune_plan_def Let_def)
    qed
  next
    case False
    then have z: "?N = 0" "cparams_hint (bt_config bt)" "?w = 0" using assms by (simp_all add: plan_inv_def Let_def)
    show ?thesis
    proof (cases "Suc (nsofts bt) mod ?n = 0")
      case True
      then have "waiting_soft bc bt = bt\<lparr>nsofts := nsofts bt + 1, readapt_from := WAIT, is_repeating := True, bt_state := STOP\<rparr>"
        using z rep n by (simp add: waiting_soft_def Let_def minimum_hards_def)
      then show ?thesis using assms True z rep n d dz by (simp add: plan_inv_def btune_plan_def Let_def)
    next
      case nz: False
      then have "waiting_soft bc bt = init_soft (bt\<lparr>nsofts := nsofts bt + 1, readapt_from := WAIT\<rparr>)"
        using z rep n by (simp add: waiting_soft_def Let_def minimum_hards_def)
      then show ?thesis using assms nz z rep n d dz by (simp add: plan_inv_def btune_plan_def Let_def)
    qed
  qed
qed

lemma waiting_wait_plan:
  assumes "plan_inv bt" "bt_state bt = WAITING" "readapt_from bt = WAIT"
  shows "plan_inv (waiting_wait bc bt) \<and> btune_plan (waiting_wait bc bt) = btune_plan bt"
proof -
  let ?b = "behaviour (bt_config bt)"
  let ?n = "nsofts_before_hard ?b" and ?N = "nhards_before_stop ?b" and ?w = "nwaits_before_readapt ?b"
  have lt: "nhards bt < ?N" and rep: "repeat_mode ?b = BTUNE_STOP" "\<not> is_repeating bt" "0 < ?w" "?n = 0 \<or> 0 < nsofts bt"
    and mh: "minimum_hards bt < ?N"
    using assms by (auto simp: plan_inv_def Let_def minimum_hards_def split: if_splits)
  consider "waiting_wait bc bt = bt" | "?n = 0 \<or> nsofts bt mod ?n = 0" "waiting_wait bc bt = init_hard bc bt"
    | "0 < ?n" "nsofts bt mod ?n \<noteq> 0" "waiting_wait bc bt = init_soft bt"
  proof (cases "nwaitings bt \<noteq> 0 \<and> nwaitings bt mod ?w = 0")
    case True
    show thesis
    proof (cases "?n = 0 \<or> nsofts bt mod ?n = 0")
      case d: True
      then have "waiting_wait bc bt = init_hard bc bt" using True rep mh by (auto simp: waiting_wait_def Let_def)
      then show thesis using d by (rule that(2) [rotated])
    next
      case False
      then have "waiting_wait bc bt = init_soft bt" using True rep mh by (auto simp: waiting_wait_def Let_def)
      then show thesis using False by (intro that(3)) auto
    qed
  next
    case False
    then show thesis using rep by (intro that(1)) (auto simp: waiting_wait_def Let_def)
  qed
  then show ?thesis
    using assms lt rep by cases (auto simp: plan_inv_def btune_plan_def Let_def)
qed

lemma process_plan:
  assumes "plan_inv bt" "bt_state bt = WAITING"
  shows "plan_inv (process_waiting_state bc bt)"
    "btune_plan bt = (if readapt_from bt = WAIT then [] else [readapt_from bt]) @ btune_plan (process_waiting_state bc bt)"
  using waiting_hard_plan [OF assms] waiting_soft_plan [OF assms] waiting_wait_plan [OF assms]
  by (cases "readapt_from bt"; simp add: process_waiting_state_def Let_def)+

lemma plan_cong:
  assumes "bt_config a = bt_config b" "nsofts a = nsofts b" "nhards a = nhards b" "readapt_from a = readapt_from b"
    "is_repeating a = is_repeating b" "bt_state a = STOP \<longleftrightarrow> bt_state b = STOP"
  shows "btune_plan a = btune_plan b" "plan_inv a = plan_inv b"
  using assms by (simp_all add: btune_plan_def plan_inv_def Let_def)

text \<open>A case rule for one cycle: the state goes on, or it ends and the next one is chosen.\<close>

lemma cycle_cases:
  assumes inv: "bt_inv bt" and cy: "btune_cycle bc ctx t (bt, ctx0) = Some (bt', ctx')" and ns: "bt_state bt \<noteq> STOP"
  obtains (codec) "bt_state bt = CODEC_FILTER" "same_ctl (bt\<lparr>aux_index := aux_index bt + 1\<rparr>) bt'"
    | (filters_done) "bt_state bt = CODEC_FILTER" "same_ctl (bt\<lparr>aux_index := 0, bt_state := CLEVEL\<rparr>) bt'"
    | (level) "bt_state bt = CLEVEL" "same_ctl (bt\<lparr>aux_index := aux_index bt + 1\<rparr>) bt'"
        "0 < aux_index bt \<Longrightarrow> core (bt_best bt') = core (clamp_clevel (comp_mode (bt_config bt)) (next_clevel bt (bt_best bt)))
           \<and> \<not> has_ended_clevel bt'"
    | (level_done) bt2 where "bt_state bt = CLEVEL" "same_ctl (bt\<lparr>aux_index := 0, bt_state := WAITING\<rparr>) bt2"
        "bt' = process_waiting_state bc bt2"
    | (wait) bt2 where "bt_state bt = WAITING" "same_ctl (bt\<lparr>nwaitings := nwaitings bt + 1\<rparr>) bt2"
        "bt' = process_waiting_state bc bt2"
proof -
  have s: "bt_state bt \<in> {CODEC_FILTER, CLEVEL, WAITING}" and r: "rep_index bt = 0"
    using inv ns by (cases "bt_state bt"; simp add: bt_inv_def)+
  obtain improved bt1 cp where c: "bt' = update_aux bc ctx improved bt1" "same_ctl (tick bt) bt1" "rep_index bt1 = 0"
    "proposes bc bt cp"
    "core (bt_best bt1) = (if improved then core (clamp_clevel (comp_mode (bt_config bt)) cp) else core (bt_best bt))"
    by (rule cycle_step [OF cy r s])
  from s consider "bt_state bt = CODEC_FILTER" | "bt_state bt = CLEVEL" | "bt_state bt = WAITING" by blast
  then show thesis
  proof cases
    case 1
    then have t: "same_ctl (bt\<lparr>aux_index := aux_index bt + 1\<rparr>) bt1" "bt_state bt1 = CODEC_FILTER"
      using c(2) by (simp_all add: tick_def same_ctl_def)
    show thesis
    proof (cases "aux_index bt1 div filter_split_limit bt1 = length (bt_codecs bt1)")
      case True
      then have "bt' = bt1\<lparr>aux_index := 0, bt_state := CLEVEL\<rparr>"
        using c(1) t by (simp add: update_aux_def end_codec_filter_enabled)
      then show thesis using 1 t(1) by (intro filters_done) (simp_all add: same_ctl_def)
    next
      case False
      then have "bt' = bt1" using c(1) t by (simp add: update_aux_def end_codec_filter_enabled)
      then show thesis using 1 t(1) by (intro codec) simp_all
    qed
  next
    case 2
    then have t: "same_ctl (bt\<lparr>aux_index := aux_index bt + 1\<rparr>) bt1" "bt_state bt1 = CLEVEL" "aux_index bt1 = aux_index bt + 1"
      using c(2) by (simp_all add: tick_def same_ctl_def)
    define first where "first = (aux_index bt1 = 1)"
    define bf where "bf = (if \<not> improved \<and> first then flip_clevel bt1 else bt1)"
    have bf: "same_ctl bt1 bf" by (simp add: bf_def same_ctl_def flip_clevel_def)
    have e: "bt' = (let bt = end_clevel ctx improved first bt1 in if bt_state bt = WAITING then process_waiting_state bc bt else bt)"
      using c(1) t(2) by (simp add: update_aux_def first_def)
    show thesis
    proof (cases "has_ended_clevel bf \<or> \<not> improved \<and> \<not> first")
      case True
      define bt2 where "bt2 = end_clevel ctx improved first bt1"
      have "same_ctl (bf\<lparr>aux_index := 0, bt_state := WAITING\<rparr>) bt2"
        unfolding bt2_def end_clevel_def bf_def [symmetric] Let_def using True by (simp add: same_ctl_def flip_block_def)
      then have b2: "same_ctl (bt\<lparr>aux_index := 0, bt_state := WAITING\<rparr>) bt2"
        using bf t by (simp add: same_ctl_def)
      moreover have "bt' = process_waiting_state bc bt2"
        using e b2 by (simp add: bt2_def [symmetric] Let_def same_ctl_def)
      ultimately show thesis using 2 by (intro level_done)
    next
      case False
      then have "end_clevel ctx improved first bt1 = bf"
        unfolding end_clevel_def bf_def [symmetric] Let_def by (intro if_not_P) simp
      then have "bt' = bf" using e bf t(2) by (simp add: same_ctl_def)
      moreover have "improved \<and> bf = bt1" if "0 < aux_index bt"
        using that False t by (simp add: bf_def first_def)
      ultimately show thesis
        using 2 t(1) bf c(4,5) False
        by (intro level) (auto simp: same_ctl_def proposes_def)
    qed
  next
    case 3
    then have t: "same_ctl (bt\<lparr>nwaitings := nwaitings bt + 1\<rparr>) bt1" "bt_state bt1 = WAITING"
      using c(2) by (simp_all add: tick_def same_ctl_def)
    then have "bt' = process_waiting_state bc bt1" using c(1) by (simp add: update_aux_def)
    then show thesis using 3 t(1) by (intro wait)
  qed
qed

lemma cycle_plan:
  assumes "bt_inv bt" "plan_inv bt" "btune_cycle bc ctx t (bt, ctx0) = Some (bt', ctx')"
  shows "plan_inv bt' \<and> (btune_plan bt' = btune_plan bt \<or> btune_plan bt = readapt_from bt # btune_plan bt')"
proof (cases "bt_state bt = STOP")
  case True
  then show ?thesis using cycle_stop(1) [OF assms(3) True] assms(2) plan_cong [of bt' bt] by (simp add: same_ctl_def)
next
  case False
  from assms(1,3) False show ?thesis
  proof (cases rule: cycle_cases)
    case codec
    then show ?thesis using plan_cong [of bt' bt] assms(2) by (simp add: same_ctl_def)
  next
    case filters_done
    then show ?thesis using plan_cong [of bt' bt] assms(2) by (simp add: same_ctl_def)
  next
    case level
    then show ?thesis using plan_cong [of bt' bt] assms(2) by (simp add: same_ctl_def)
  next
    case (level_done bt2)
    then have "plan_inv bt2" "btune_plan bt2 = btune_plan bt" "bt_state bt2 = WAITING" "readapt_from bt2 = readapt_from bt"
      using plan_cong [of bt2 bt] assms(2) by (simp_all add: same_ctl_def)
    moreover have "readapt_from bt \<noteq> WAIT" using assms(1) level_done(1) by (auto simp: bt_inv_def)
    ultimately show ?thesis using process_plan [of bt2 bc] level_done(3) by simp
  next
    case (wait bt2)
    then have "plan_inv bt2" "btune_plan bt2 = btune_plan bt" "bt_state bt2 = WAITING" "readapt_from bt2 = readapt_from bt"
      using plan_cong [of bt2 bt] assms(2) by (simp_all add: same_ctl_def)
    moreover have "readapt_from bt = WAIT" using assms(1) wait(1) by (auto simp: bt_inv_def)
    ultimately show ?thesis using process_plan [of bt2 bc] wait(3) by simp
  qed
qed

text \<open>The documented plan of a configuration.\<close>

definition documented_plan :: "btune_config \<Rightarrow> readapt_type list" where
  "documented_plan cfg =
     (let b = behaviour cfg; n = nsofts_before_hard b; h = nhards_before_stop b in
      if cparams_hint cfg then (if h = 0 then replicate n SOFT else rounds n h) else HARD # rounds n h)"

text \<open>
  The configurations the plan holds for: the repeat mode is to stop, the number of hard readapts can be
  incremented, and not (a hint, no hard readapts, but soft ones with waits between them).
\<close>

definition plannable :: "btune_config \<Rightarrow> bool" where
  "plannable cfg \<longleftrightarrow> (let b = behaviour cfg in repeat_mode b = BTUNE_STOP \<and> nhards_before_stop b + 1 < 2 ^ 32 \<and>
     (cparams_hint cfg \<and> nhards_before_stop b = 0 \<and> 0 < nsofts_before_hard b \<longrightarrow> nwaits_before_readapt b = 0))"

lemma rounds_0: "0 < h \<Longrightarrow> rounds n h = replicate n SOFT @ HARD # rounds n (h - 1)"
  using rounds_Suc [of n "h - 1"] by simp

lemma init_plan:
  assumes "iabtune_init bc (Some cfg) cctx dctx = Some bt" "plannable cfg"
  shows "plan_inv bt" "btune_plan bt = documented_plan cfg"
proof -
  define b0 where "b0 = init_struct bc cfg (btune_get_codecs bc cfg) cctx dctx"
  define r where "r = init_readapt bc cctx b0"
  have bt: "bt = r\<lparr>step_size := (if nhards_before_stop (behaviour (bt_config r)) = 1 then 1 else 2)\<rparr>"
    using assms(1) by (auto simp: iabtune_init_def r_def b0_def Let_def split: if_splits)
  have f0: "bt_config b0 = cfg" "nsofts b0 = 0" "nhards b0 = 0" "is_repeating b0 = False"
    by (simp_all add: b0_def init_struct_def Let_def)
  have "plan_inv r \<and> btune_plan r = documented_plan cfg"
  proof (cases "cparams_hint cfg")
    case False
    have "r = (init_hard bc b0)\<lparr>bt_config := cfg\<lparr>behaviour :=
        (behaviour cfg)\<lparr>nhards_before_stop := nhards_before_stop (behaviour cfg) + 1\<rparr>\<rparr>\<rparr>"
      using False f0 assms(2) by (simp add: r_def init_readapt_def Let_def plannable_def)
    then show ?thesis
      using False f0 assms(2) by (simp add: plan_inv_def btune_plan_def documented_plan_def plannable_def Let_def)
  next
    case True
    define b1 where "b1 = b0\<lparr>bt_best := extract_btune_cparams b0 cctx (bt_best b0),
                   bt_aux := extract_btune_cparams b0 cctx (bt_aux b0),
                   bt_codecs := add_codec (bt_codecs b0) (cx_compcode cctx)\<rparr>"
    have f1: "bt_config b1 = cfg" "nsofts b1 = 0" "nhards b1 = 0" "is_repeating b1 = False"
      using f0 by (simp_all add: b1_def)
    let ?b = "behaviour cfg"
    have r: "r = (if nhards_before_stop ?b > 0
           then if nsofts_before_hard ?b > 0 then init_soft b1
                else if nwaits_before_readapt ?b > 0 then b1\<lparr>bt_state := WAITING, readapt_from := WAIT\<rparr>
                else init_hard bc b1
           else (if nsofts_before_hard ?b > 0 then init_soft b1 else b1\<lparr>bt_state := STOP, readapt_from := WAIT\<rparr>)
             \<lparr>is_repeating := True\<rparr>)"
      using True f0 f1 assms(2)
      by (simp add: r_def init_readapt_def Let_def b1_def [symmetric] init_without_hards_def minimum_hards_def
          plannable_def cong: if_cong)
    consider "nhards_before_stop ?b > 0" "nsofts_before_hard ?b > 0"
      | "nhards_before_stop ?b > 0" "nsofts_before_hard ?b = 0" "nwaits_before_readapt ?b > 0"
      | "nhards_before_stop ?b > 0" "nsofts_before_hard ?b = 0" "nwaits_before_readapt ?b = 0"
      | "nhards_before_stop ?b = 0" "nsofts_before_hard ?b > 0"
      | "nhards_before_stop ?b = 0" "nsofts_before_hard ?b = 0" by linarith
    then show ?thesis
      using True f1 assms(2) unfolding r
      by cases (simp_all add: plan_inv_def btune_plan_def documented_plan_def plannable_def Let_def rounds_0)
  qed
  then show "plan_inv bt" "btune_plan bt = documented_plan cfg" by (simp_all add: bt)
qed

lemma plan_empty: "plan_inv bt \<Longrightarrow> btune_plan bt = [] \<longleftrightarrow> bt_state bt = STOP"
proof -
  assume p: "plan_inv bt"
  have "0 < n \<Longrightarrow> n \<le> x mod n \<longleftrightarrow> False" for n x :: nat by (simp add: not_le)
  with p show "btune_plan bt = [] \<longleftrightarrow> bt_state bt = STOP"
    by (cases "readapt_from bt") (auto simp: btune_plan_def plan_inv_def Let_def split: if_splits)
qed

lemma reach_inv:
  assumes "btune_reach bc cfg cctx dctx st" "cparams_hint cfg \<Longrightarrow> 0 \<le> cx_clevel cctx \<and> cx_clevel cctx \<le> 9"
  shows "bt_inv (fst st)"
  using assms
proof (induction rule: btune_reach.induct)
  case (start bt)
  then show ?case using init_inv by simp
next
  case (cycle st ctx t st')
  then show ?case using cycle_inv(1) [of "fst st" bc ctx t "snd st" "fst st'" "snd st'"] by simp
qed

lemma reach_plan:
  assumes "btune_reach bc cfg cctx dctx st" "cparams_hint cfg \<Longrightarrow> 0 \<le> cx_clevel cctx \<and> cx_clevel cctx \<le> 9" "plannable cfg"
  shows "plan_inv (fst st) \<and> (\<exists>done. documented_plan cfg = done @ btune_plan (fst st))"
  using assms
proof (induction rule: btune_reach.induct)
  case (start bt)
  then show ?case using init_plan by simp
next
  case (cycle st ctx t st')
  then obtain ds where ih: "plan_inv (fst st)" "documented_plan cfg = ds @ btune_plan (fst st)" by auto
  have "bt_inv (fst st)" using reach_inv cycle by blast
  then have "plan_inv (fst st')" "btune_plan (fst st') = btune_plan (fst st) \<or>
      btune_plan (fst st) = readapt_from (fst st) # btune_plan (fst st')"
    using cycle_plan [of "fst st" bc ctx t "snd st" "fst st'" "snd st'"] ih(1) cycle(2) by simp_all
  then show ?case using ih(2) by (metis append.assoc append_Cons append_Nil)
qed

section \<open>Progress towards the end\<close>

text \<open>Configurations whose compression level is never clamped after it was chosen.\<close>

definition unclamped :: "btune_struct \<Rightarrow> bool" where
  "unclamped bt \<longleftrightarrow> (case comp_mode (bt_config bt) of BTUNE_COMP_HSP \<Rightarrow> True
     | BTUNE_COMP_BALANCED \<Rightarrow> BLOSC_ZSTD \<notin> set (bt_codecs bt) \<and> BLOSC_ZLIB \<notin> set (bt_codecs bt)
     | BTUNE_COMP_HCR \<Rightarrow> False)"

definition level_room :: "btune_struct \<Rightarrow> nat" where
  "level_room bt = nat (if increasing_clevel (bt_best bt) then 9 - cp_clevel (bt_best bt) else cp_clevel (bt_best bt))"

definition tuner_variant :: "(btune_struct \<times> btune_struct) set" where
  "tuner_variant = measures [\<lambda>bt. length (btune_plan bt),
     \<lambda>bt. if bt_state bt = WAITING then 1 else 0,
     \<lambda>bt. case bt_state bt of CODEC_FILTER \<Rightarrow> 1 + (6 * length (bt_codecs bt) - aux_index bt)
        | WAITING \<Rightarrow> nwaits_before_readapt (behaviour (bt_config bt)) - nwaitings bt mod nwaits_before_readapt (behaviour (bt_config bt))
        | _ \<Rightarrow> 0,
     \<lambda>bt. if aux_index bt = 0 then 1 else 0, level_room]"

lemma next_clevel_room:
  assumes "0 \<le> cp_clevel (bt_best bt)" "cp_clevel (bt_best bt) \<le> 9" "step_size bt' = step_size bt"
    and "0 < step_size bt"
    and "core (bt_best bt') = core (next_clevel bt (bt_best bt))" "\<not> has_ended_clevel bt'"
  shows "level_room bt' < level_room bt"
  using assms
  by (auto simp: level_room_def next_clevel_def has_ended_clevel_def core_def Let_def split: if_splits)

lemma unclamped_id:
  assumes "unclamped bt" "cp_compcode cp \<in> set (bt_codecs bt)"
  shows "clamp_clevel (comp_mode (bt_config bt)) cp = cp"
  using assms by (cases "comp_mode (bt_config bt)") (auto simp: unclamped_def clamp_clevel_def Let_def)

lemma unclamped_cong: "bt_config a = bt_config b \<Longrightarrow> bt_codecs a = bt_codecs b \<Longrightarrow> unclamped a = unclamped b"
  by (simp add: unclamped_def cong: btune_comp_mode.case_cong)

text \<open>The list of codecs is fixed once the tuner is initialised.\<close>

lemma cycle_codecs:
  assumes "bt_inv bt" "btune_cycle bc ctx t (bt, ctx0) = Some (bt', ctx')"
  shows "bt_codecs bt' = bt_codecs bt"
proof (cases "bt_state bt = STOP")
  case True
  then show ?thesis using cycle_stop(1) [OF assms(2) True] by (simp add: same_ctl_def)
next
  case False
  have w: "bt_codecs (process_waiting_state bc b) = bt_codecs b"
    if "bt_state b = WAITING" "step_size b = 1 \<or> step_size b = 2"
      "readapt_from b = SOFT \<Longrightarrow> 0 < nsofts_before_hard (behaviour (bt_config b))" for b
    using waiting_settled(1) [OF that, of bc] by (simp add: frame_def)
  have i: "step_size bt = 1 \<or> step_size bt = 2" using assms(1) by (simp add: bt_inv_def)
  from assms False show ?thesis
  proof (cases rule: cycle_cases)
    case (level_done bt2)
    then show ?thesis using w [of bt2] i assms(1) by (auto simp: same_ctl_def bt_inv_def)
  next
    case (wait bt2)
    then show ?thesis using w [of bt2] i assms(1) by (auto simp: same_ctl_def bt_inv_def)
  qed (simp_all add: same_ctl_def)
qed

lemma waiting_stays:
  assumes "plan_inv bt" "bt_state bt = WAITING" "readapt_from bt = WAIT" "bt_state (process_waiting_state bc bt) = WAITING"
  shows "nwaitings (process_waiting_state bc bt) = nwaitings bt \<and>
    (nwaitings bt = 0 \<or> nwaitings bt mod nwaits_before_readapt (behaviour (bt_config bt)) \<noteq> 0)"
proof -
  let ?b = "behaviour (bt_config bt)"
  let ?n = "nsofts_before_hard ?b" and ?N = "nhards_before_stop ?b" and ?w = "nwaits_before_readapt ?b"
  have rep: "\<not> is_repeating bt" "0 < ?w" "?n = 0 \<or> 0 < nsofts bt" and mh: "minimum_hards bt < ?N"
    using assms by (auto simp: plan_inv_def Let_def minimum_hards_def split: if_splits)
  have ws: "bt_state (waiting_wait bc bt) = WAITING"
    using assms(3,4) by (simp add: process_waiting_state_def Let_def split: if_splits)
  have "nwaitings bt = 0 \<or> nwaitings bt mod ?w \<noteq> 0"
  proof (rule ccontr)
    assume "\<not> (nwaitings bt = 0 \<or> nwaitings bt mod ?w \<noteq> 0)"
    then have "waiting_wait bc bt = init_hard bc bt \<or> waiting_wait bc bt = init_soft bt"
      using rep mh by (auto simp: waiting_wait_def Let_def)
    then show False using ws by auto
  qed
  then show ?thesis
    using rep assms(3) by (auto simp: process_waiting_state_def waiting_wait_def Let_def)
qed

text \<open>Every cycle outside \<open>STOP\<close> gets nearer to the end of the plan.\<close>

lemma cycle_variant:
  assumes "bt_inv bt" "plan_inv bt" "unclamped bt" "bt_state bt \<noteq> STOP"
    and cy: "btune_cycle bc ctx t (bt, ctx0) = Some (bt', ctx')"
  shows "(bt', bt) \<in> tuner_variant"
proof -
  have plan: "btune_plan bt' = btune_plan bt \<or> btune_plan bt = readapt_from bt # btune_plan bt'"
    and inv': "plan_inv bt'"
    using cycle_plan [OF assms(1,2) cy] by simp_all
  have cfg: "bt_config bt' = bt_config bt" by (rule cycle_inv(2) [OF assms(1) cy])
  show ?thesis
  proof (cases "btune_plan bt' = btune_plan bt")
    case False
    then show ?thesis using plan by (simp add: tuner_variant_def)
  next
    case same: True
    from assms(1) cy assms(4) show ?thesis
    proof (cases rule: cycle_cases)
      case codec
      have "6 * length (bt_codecs bt) - Suc (aux_index bt) < 6 * length (bt_codecs bt) - aux_index bt"
        using assms(1) codec(1) by (intro diff_less_mono2) (auto simp: bt_inv_def)
      then show ?thesis using same codec by (simp add: tuner_variant_def same_ctl_def)
    next
      case filters_done
      then show ?thesis using same assms(1) by (simp add: tuner_variant_def same_ctl_def)
    next
      case level
      show ?thesis
      proof (cases "aux_index bt = 0")
        case True
        then show ?thesis using same level by (simp add: tuner_variant_def same_ctl_def)
      next
        case False
        then have "core (bt_best bt') = core (clamp_clevel (comp_mode (bt_config bt)) (next_clevel bt (bt_best bt)))"
          "\<not> has_ended_clevel bt'" using level(3) by simp_all
        moreover have "cp_compcode (next_clevel bt (bt_best bt)) = cp_compcode (bt_best bt)"
          by (simp add: next_clevel_def Let_def)
        then have "clamp_clevel (comp_mode (bt_config bt)) (next_clevel bt (bt_best bt)) = next_clevel bt (bt_best bt)"
          using assms(1,3) by (intro unclamped_id) (simp_all add: bt_inv_def)
        ultimately have "level_room bt' < level_room bt"
          using assms(1) level(2) by (intro next_clevel_room) (auto simp: bt_inv_def same_ctl_def)
        then show ?thesis using same level(1,2) False by (simp add: tuner_variant_def same_ctl_def)
      qed
    next
      case (level_done bt2)
      then have b2: "plan_inv bt2" "btune_plan bt2 = btune_plan bt" "bt_state bt2 = WAITING" "readapt_from bt2 = readapt_from bt"
        using plan_cong [of bt2 bt] assms(2) by (simp_all add: same_ctl_def)
      moreover have "readapt_from bt \<noteq> WAIT" using assms(1) level_done(1) by (auto simp: bt_inv_def)
      ultimately have "btune_plan bt = readapt_from bt # btune_plan bt'" using process_plan [of bt2 bc] level_done(3) by simp
      then show ?thesis using same by (metis not_Cons_self2)
    next
      case (wait bt2)
      let ?w = "nwaits_before_readapt (behaviour (bt_config bt))"
      have b2: "plan_inv bt2" "bt_state bt2 = WAITING" "readapt_from bt2 = WAIT"
        using plan_cong [of bt2 bt] assms(1,2) wait by (simp_all add: same_ctl_def bt_inv_def)
      have w0: "0 < ?w" using b2 wait(2) by (auto simp: plan_inv_def same_ctl_def Let_def split: if_splits)
      show ?thesis
      proof (cases "bt_state bt' = WAITING")
        case False
        then show ?thesis using same wait(1) by (simp add: tuner_variant_def)
      next
        case True
        then have "nwaitings bt' = Suc (nwaitings bt) \<and> Suc (nwaitings bt) mod ?w \<noteq> 0"
          using waiting_stays [OF b2] wait(2,3) by (simp add: same_ctl_def)
        then have "nwaitings bt' = Suc (nwaitings bt)" "Suc (nwaitings bt) mod ?w = Suc (nwaitings bt mod ?w)"
          by (simp_all add: mod_Suc split: if_splits)
        moreover have "Suc (nwaitings bt) mod ?w < ?w" using w0 by simp
        ultimately have "?w - nwaitings bt' mod ?w < ?w - nwaitings bt mod ?w" by simp
        then show ?thesis using same wait(1) True cfg by (simp add: tuner_variant_def)
      qed
    qed
  qed
qed

lemma next_exists:
  assumes "bt_inv bt"
  obtains bt' ctx' where "iabtune_next_cparams bc (bt, ctx) = Some (bt', ctx')"
proof -
  have "aux_index bt div 6 < length (bt_codecs bt)" if "bt_state bt = CODEC_FILTER"
    using assms that by (auto simp: bt_inv_def)
  then have "next_aux bc (bt, ctx) \<noteq> None"
    using assms by (cases "bt_state bt") (auto simp: next_aux_def next_codec_filter_def bt_inv_def Let_def)
  then obtain b where b: "next_aux bc (bt, ctx) = Some b" by blast
  obtain bt' ctx' where "set_btune_cparams bc (b, ctx) = (bt', ctx')" by (rule prod.exhaust)
  then show thesis using that b by (simp add: iabtune_next_cparams_def)
qed

text \<open>Many cycles: the contexts and times of the compressor are given for every one.\<close>

primrec btune_run :: "blosc_const \<Rightarrow> (nat \<Rightarrow> blosc_cctx) \<Rightarrow> (nat \<Rightarrow> fp) \<Rightarrow> nat \<Rightarrow> btune_struct \<times> blosc_cctx \<Rightarrow>
    (btune_struct \<times> blosc_cctx) option" where
  "btune_run bc ctx t 0 st = Some st"
| "btune_run bc ctx t (Suc n) st = Option.bind (btune_run bc ctx t n st) (btune_cycle bc (ctx n) (t n))"

lemma run_inv:
  assumes "bt_inv bt" "plan_inv bt" "unclamped bt"
  shows "\<exists>bt' c'. btune_run bc ctx t n (bt, c) = Some (bt', c') \<and> bt_inv bt' \<and> plan_inv bt' \<and> unclamped bt'"
proof (induction n)
  case 0
  then show ?case using assms by simp
next
  case (Suc n)
  then obtain bt1 c1 where r: "btune_run bc ctx t n (bt, c) = Some (bt1, c1)" and i: "bt_inv bt1" "plan_inv bt1" "unclamped bt1"
    by blast
  obtain bt2 c2 where "iabtune_next_cparams bc (bt1, c1) = Some (bt2, c2)" using next_exists [OF i(1)] .
  then obtain bt3 where cy: "btune_cycle bc (ctx n) (t n) (bt1, c1) = Some (bt3, ctx n)" by (simp add: btune_cycle_def)
  have "unclamped bt3"
    using i(3) unclamped_cong [of bt3 bt1] cycle_inv(2) [OF i(1) cy] cycle_codecs [OF i(1) cy] by simp
  then show ?case using r cy cycle_inv(1) [OF i(1) cy] cycle_plan [OF i(1,2) cy] by simp
qed

lemma run_stops:
  assumes "bt_inv bt" "plan_inv bt" "unclamped bt"
  shows "\<exists>n. \<forall>k. map_option (bt_state \<circ> fst) (btune_run bc ctx t (n + k) (bt, c)) = Some STOP"
proof -
  define f where "f n = fst (the (btune_run bc ctx t n (bt, c)))" for n
  have i: "\<exists>c'. btune_run bc ctx t n (bt, c) = Some (f n, c') \<and> bt_inv (f n) \<and> plan_inv (f n) \<and> unclamped (f n)" for n
    using run_inv [OF assms, of bc ctx t n c] by (auto simp: f_def)
  have step: "bt_state (f n) = STOP \<and> bt_state (f (Suc n)) = STOP \<or> (f (Suc n), f n) \<in> tuner_variant" for n
  proof -
    obtain c1 c2 where r: "btune_run bc ctx t n (bt, c) = Some (f n, c1)" "btune_run bc ctx t (Suc n) (bt, c) = Some (f (Suc n), c2)"
      and p: "bt_inv (f n)" "plan_inv (f n)" "unclamped (f n)" using i [of n] i [of "Suc n"] by blast
    then have cy: "btune_cycle bc (ctx n) (t n) (f n, c1) = Some (f (Suc n), c2)" by simp
    show ?thesis
    proof (cases "bt_state (f n) = STOP")
      case True
      then show ?thesis using cycle_stop(1) [OF cy] by (simp add: same_ctl_def)
    next
      case False
      then show ?thesis using cycle_variant [OF p False cy] by simp
    qed
  qed
  have "wf tuner_variant" unfolding tuner_variant_def by simp
  then obtain n where "bt_state (f n) = STOP"
    using step wf_no_infinite_down_chainE [of tuner_variant f] by blast
  then have "bt_state (f (n + k)) = STOP" for k
  proof (induction k)
    case (Suc k)
    have "bt_state (f (Suc (n + k))) = STOP"
    proof -
      obtain c1 c2 where "btune_run bc ctx t (n + k) (bt, c) = Some (f (n + k), c1)"
        "btune_run bc ctx t (Suc (n + k)) (bt, c) = Some (f (Suc (n + k)), c2)" using i [of "n + k"] i [of "Suc (n + k)"] by blast
      then have "btune_cycle bc (ctx (n + k)) (t (n + k)) (f (n + k), c1) = Some (f (Suc (n + k)), c2)" by simp
      then show ?thesis using cycle_stop(1) Suc by (force simp: same_ctl_def)
    qed
    then show ?case by simp
  qed simp
  moreover have "map_option (bt_state \<circ> fst) (btune_run bc ctx t m (bt, c)) = Some (bt_state (f m))" for m
    using i [of m] by auto
  ultimately have "\<forall>k. map_option (bt_state \<circ> fst) (btune_run bc ctx t (n + k) (bt, c)) = Some STOP" by metis
  then show ?thesis by blast
qed

section \<open>Waiting for ever\<close>

text \<open>
  The configurations for which the tuner never stops: a hint, no hard readapts, but soft ones with waits.
\<close>

definition waits_forever :: "btune_config \<Rightarrow> bool" where
  "waits_forever cfg \<longleftrightarrow> (let b = behaviour cfg in cparams_hint cfg \<and> nhards_before_stop b = 0 \<and>
     0 < nsofts_before_hard b \<and> 0 < nwaits_before_readapt b)"

lemma plannable_iff:
  assumes "repeat_mode (behaviour cfg) = BTUNE_STOP" "nhards_before_stop (behaviour cfg) + 1 < 2 ^ 32"
  shows "plannable cfg \<longleftrightarrow> \<not> waits_forever cfg"
  using assms by (auto simp: plannable_def waits_forever_def Let_def)

definition forever_inv :: "btune_struct \<Rightarrow> bool" where
  "forever_inv bt \<longleftrightarrow> waits_forever (bt_config bt) \<and> repeat_mode (behaviour (bt_config bt)) = BTUNE_STOP \<and>
     is_repeating bt \<and> bt_state bt \<noteq> STOP \<and> readapt_from bt \<in> {SOFT, WAIT}"

lemma forever_process:
  assumes "forever_inv bt"
  shows "forever_inv (process_waiting_state bc bt)"
proof -
  have "waiting_soft bc bt = bt\<lparr>nsofts := nsofts bt + 1, readapt_from := WAIT\<rparr>"
    using assms by (simp add: forever_inv_def waits_forever_def waiting_soft_def Let_def)
  moreover have "waiting_wait bc bt = bt"
    using assms by (simp add: forever_inv_def waits_forever_def waiting_wait_def Let_def)
  ultimately show ?thesis
    using assms by (auto simp: forever_inv_def process_waiting_state_def Let_def)
qed

lemma forever_cycle:
  assumes "bt_inv bt" "forever_inv bt" "btune_cycle bc ctx t (bt, c) = Some (bt', c')"
  shows "forever_inv bt'"
proof -
  have "bt_state bt \<noteq> STOP" using assms(2) by (simp add: forever_inv_def)
  with assms(1,3) show ?thesis
  proof (cases rule: cycle_cases)
    case (level_done bt2)
    then have "forever_inv bt2" using assms(2) by (simp add: forever_inv_def same_ctl_def)
    then show ?thesis using forever_process level_done(3) by simp
  next
    case (wait bt2)
    then have "forever_inv bt2" using assms(2) by (simp add: forever_inv_def same_ctl_def)
    then show ?thesis using forever_process wait(3) by simp
  qed (use assms(2) in \<open>simp_all add: forever_inv_def same_ctl_def\<close>)
qed

lemma forever_init:
  assumes "iabtune_init bc (Some cfg) cctx dctx = Some bt" "waits_forever cfg" "repeat_mode (behaviour cfg) = BTUNE_STOP"
  shows "forever_inv bt"
proof -
  define b0 where "b0 = init_struct bc cfg (btune_get_codecs bc cfg) cctx dctx"
  have f0: "bt_config b0 = cfg" by (simp add: b0_def init_struct_def Let_def)
  have cf: "bt_config (init_soft b) = bt_config b" "is_repeating (init_soft b) = is_repeating b"
    "bt_state (init_soft b) = CLEVEL" "readapt_from (init_soft b) = SOFT" for b
    by (simp_all add: init_soft_def flip_clevel_def Let_def)
  have "bt = (init_readapt bc cctx b0)\<lparr>step_size := step_size bt\<rparr>"
    using assms(1) by (auto simp: iabtune_init_def b0_def Let_def split: if_splits)
  moreover have "forever_inv (init_readapt bc cctx b0)"
    using assms(2,3) f0
    by (simp add: forever_inv_def waits_forever_def init_readapt_def init_without_hards_def cf Let_def minimum_hards_def)
  moreover have "forever_inv (b\<lparr>step_size := k\<rparr>) = forever_inv b" for b k by (simp add: forever_inv_def)
  ultimately show ?thesis by metis
qed

lemma tuner_waits:
  assumes "iabtune_init bc (Some cfg) cctx dctx = Some bt" "waits_forever cfg" "repeat_mode (behaviour cfg) = BTUNE_STOP"
    and "cparams_hint cfg \<Longrightarrow> 0 \<le> cx_clevel cctx \<and> cx_clevel cctx \<le> 9"
  shows "\<exists>b c. btune_run bc ctx t n (bt, cctx) = Some (b, c) \<and> bt_inv b \<and> forever_inv b"
proof (induction n)
  case 0
  then show ?case using init_inv [OF assms(1,4)] forever_init [OF assms(1-3)] by simp
next
  case (Suc n)
  then obtain b c where r: "btune_run bc ctx t n (bt, cctx) = Some (b, c)" and i: "bt_inv b" "forever_inv b" by blast
  obtain b2 c2 where "iabtune_next_cparams bc (b, c) = Some (b2, c2)" using next_exists [OF i(1)] .
  then obtain b3 where cy: "btune_cycle bc (ctx n) (t n) (b, c) = Some (b3, ctx n)" by (simp add: btune_cycle_def)
  then show ?case using r cycle_inv(1) [OF i(1) cy] forever_cycle [OF i cy] by simp
qed

section \<open>Parameters in range\<close>

lemma init_codecs:
  assumes "iabtune_init bc (Some cfg) cctx dctx = Some bt"
  shows "bt_codecs bt = (if cparams_hint cfg then add_codec (btune_get_codecs bc cfg) (cx_compcode cctx)
      else btune_get_codecs bc cfg)" "comp_mode (bt_config bt) = comp_mode cfg"
proof -
  define b0 where "b0 = init_struct bc cfg (btune_get_codecs bc cfg) cctx dctx"
  have f0: "bt_config b0 = cfg" "bt_codecs b0 = btune_get_codecs bc cfg"
    by (simp_all add: b0_def init_struct_def Let_def)
  have [simp]: "bt_codecs (init_soft b) = bt_codecs b" "bt_codecs (init_hard bc b) = bt_codecs b"
    "bt_codecs (init_without_hards bc b) = bt_codecs b"
    "bt_config (init_soft b) = bt_config b" "bt_config (init_hard bc b) = bt_config b"
    "bt_config (init_without_hards bc b) = bt_config b" for b
    by (simp_all add: init_soft_def init_hard_def init_without_hards_def flip_clevel_def flip_shuffle_def Let_def
        split: btune_repeat_mode.split)
  have "bt = (init_readapt bc cctx b0)\<lparr>step_size := step_size bt\<rparr>"
    using assms by (auto simp: iabtune_init_def b0_def Let_def split: if_splits)
  then have "bt_codecs bt = bt_codecs (init_readapt bc cctx b0)" "bt_config bt = bt_config (init_readapt bc cctx b0)"
    by (metis btune_struct.select_convs(1,2) btune_struct.surjective btune_struct.update_convs(12))+
  then show "bt_codecs bt = (if cparams_hint cfg then add_codec (btune_get_codecs bc cfg) (cx_compcode cctx)
      else btune_get_codecs bc cfg)" "comp_mode (bt_config bt) = comp_mode cfg"
    using f0 by (simp_all add: init_readapt_def Let_def)
qed

lemma reach_codecs:
  assumes "btune_reach bc cfg cctx dctx st" "cparams_hint cfg \<Longrightarrow> 0 \<le> cx_clevel cctx \<and> cx_clevel cctx \<le> 9"
  shows "set (bt_codecs (fst st)) = set (btune_get_codecs bc cfg) \<union> (if cparams_hint cfg then {cx_compcode cctx} else {})"
  using assms
proof (induction rule: btune_reach.induct)
  case (start bt)
  then show ?case using init_codecs(1) by (simp add: add_codec_def insert_absorb)
next
  case (cycle st ctx t st')
  have "bt_inv (fst st)" using reach_inv cycle by blast
  then show ?case using cycle cycle_codecs [of "fst st" bc ctx t "snd st" "fst st'" "snd st'"] by simp
qed

lemma next_range:
  assumes "bt_inv bt" "iabtune_next_cparams bc (bt, ctx) = Some (bt', ctx')"
  shows "0 \<le> cx_clevel ctx'" "cx_clevel ctx' \<le> 9" "cx_compcode ctx' \<in> set (bt_codecs bt)"
proof -
  obtain b where b: "next_aux bc (bt, ctx) = Some b" "set_btune_cparams bc (b, ctx) = (bt', ctx')"
    using assms(2) by (auto simp: iabtune_next_cparams_def)
  have "0 \<le> cp_clevel (bt_aux b) \<and> cp_clevel (bt_aux b) \<le> 9 \<and> cp_compcode (bt_aux b) \<in> set (bt_codecs bt)"
  proof (cases "bt_state bt")
    case CODEC_FILTER
    then have "aux_index bt div 6 < length (bt_codecs bt)" using assms(1) by (auto simp: bt_inv_def)
    then show ?thesis using b(1) CODEC_FILTER assms(1)
      by (auto simp: next_aux_def next_codec_filter_def bt_inv_def Let_def)
  qed (use b(1) assms(1) in \<open>auto simp: next_aux_def next_clevel_def bt_inv_def Let_def\<close>)
  then show "0 \<le> cx_clevel ctx'" "cx_clevel ctx' \<le> 9" "cx_compcode ctx' \<in> set (bt_codecs bt)"
    using set_btune_ctl(7,8) [OF b(2)] by simp_all
qed

section \<open>Properties\<close>

text \<open>
  Claim C7. Whatever the compressor reports, in every state the tuner reaches it does propose parameters: the
  codec index stays inside the list of codecs, the codec is one that the configuration allows (or the one
  of the hint), and the level handed to the compressor is between 0 and 9.
\<close>

theorem btune_parameters_in_range:
  assumes "btune_reach bc cfg cctx dctx (bt, ctx)" "cparams_hint cfg \<Longrightarrow> 0 \<le> cx_clevel cctx \<and> cx_clevel cctx \<le> 9"
  shows "\<exists>bt' ctx'. iabtune_next_cparams bc (bt, ctx) = Some (bt', ctx') \<and> 0 \<le> cx_clevel ctx' \<and> cx_clevel ctx' \<le> 9 \<and>
    cx_compcode ctx' \<in> set (btune_get_codecs bc cfg) \<union> (if cparams_hint cfg then {cx_compcode cctx} else {})"
proof -
  have i: "bt_inv bt" using reach_inv [OF assms] by simp
  obtain bt' ctx' where n: "iabtune_next_cparams bc (bt, ctx) = Some (bt', ctx')" using next_exists [OF i] .
  then show ?thesis using next_range [OF i n] reach_codecs [OF assms] by simp
qed

text \<open>Contexts to evaluate the tuner on: blosc with one thread, and a configuration with two soft readapts.\<close>

definition ex_const :: blosc_const where
  "ex_const = \<lparr> BLOSC_SHUFFLE = 1, BLOSC_ALWAYS_SPLIT = 1, BLOSC_MIN_BUFFERSIZE = 128, BLOSC2_MAX_OVERHEAD = 32,
     list_compressors = ''blosclz,lz4'' \<rparr>"

definition ex_cctx :: blosc_cctx where
  "ex_cctx = \<lparr> cx_compcode = BLOSC_LZ4, cx_filter = 1, cx_splitmode = 1, cx_clevel = 5, cx_blocksize = 0,
     cx_typesize = 8, cx_nthreads = 1, cx_new_nthreads = 1, cx_sourcesize = 1000, cx_destsize = 500,
     cx_dobitshuffle = False \<rparr>"

definition ex_config :: btune_config where
  "ex_config = BTUNE_CONFIG_DEFAULTS\<lparr>behaviour := \<lparr> nwaits_before_readapt = 1, nsofts_before_hard = 2,
     nhards_before_stop = 1, repeat_mode = BTUNE_STOP \<rparr>\<rparr>"

lemma ex_init: "\<exists>bt. iabtune_init ex_const (Some ex_config) ex_cctx None = Some bt"
  by (simp add: iabtune_init_def btune_get_codecs_def ex_config_def BTUNE_CONFIG_DEFAULTS_def Let_def)

lemma ex_config_ok: "plannable ex_config" "cparams_hint ex_config = False" "comp_mode ex_config = BTUNE_COMP_BALANCED"
  by (simp_all add: plannable_def ex_config_def BTUNE_CONFIG_DEFAULTS_def)

theorem btune_parameters_in_range_witness:
  "\<exists>bt bt' ctx'. iabtune_init ex_const (Some ex_config) ex_cctx None = Some bt \<and>
     iabtune_next_cparams ex_const (bt, ex_cctx) = Some (bt', ctx') \<and> 0 \<le> cx_clevel ctx' \<and> cx_clevel ctx' \<le> 9"
proof -
  obtain bt where "iabtune_init ex_const (Some ex_config) ex_cctx None = Some bt" using ex_init by blast
  then show ?thesis
    using btune_parameters_in_range [of ex_const ex_config ex_cctx None bt ex_cctx]
      btune_reach.start [of ex_const ex_config ex_cctx None bt] ex_config_ok(2) by blast
qed

text \<open>
  Claim C9. The tuner refines the schedule documented for the repeat mode \<open>BTUNE_STOP\<close>: the readapts it still has to
  do are always a tail of the documented ones (a first hard readapt unless the user gave a hint, then as often as
  asked a run of soft readapts and a hard one), it is in \<open>STOP\<close> exactly if none is left, and each cycle either
  leaves them alone or completes the current one.
\<close>

theorem btune_follows_plan:
  assumes "btune_reach bc cfg cctx dctx st" "cparams_hint cfg \<Longrightarrow> 0 \<le> cx_clevel cctx \<and> cx_clevel cctx \<le> 9"
    and "plannable cfg" "btune_cycle bc ctx t st = Some st'"
  shows "(\<exists>ds. documented_plan cfg = ds @ btune_plan (fst st)) \<and>
    (btune_plan (fst st) = [] \<longleftrightarrow> bt_state (fst st) = STOP) \<and>
    (btune_plan (fst st') = btune_plan (fst st) \<or> btune_plan (fst st) = readapt_from (fst st) # btune_plan (fst st'))"
proof -
  have p: "plan_inv (fst st)" "\<exists>ds. documented_plan cfg = ds @ btune_plan (fst st)"
    using reach_plan [OF assms(1-3)] by simp_all
  show ?thesis
    using p plan_empty [OF p(1)] reach_inv [OF assms(1,2)] assms(4)
      cycle_plan [of "fst st" bc ctx t "snd st" "fst st'" "snd st'"] by simp
qed

theorem btune_follows_plan_witness:
  "\<exists>bt st'. iabtune_init ex_const (Some ex_config) ex_cctx None = Some bt \<and>
     btune_cycle ex_const ex_cctx (Fin 1) (bt, ex_cctx) = Some st' \<and>
     documented_plan ex_config = [HARD, SOFT, SOFT, HARD] \<and>
     (btune_plan (fst st') = btune_plan bt \<or> btune_plan bt = readapt_from bt # btune_plan (fst st'))"
proof -
  obtain bt where bt: "iabtune_init ex_const (Some ex_config) ex_cctx None = Some bt" using ex_init by blast
  have i: "bt_inv bt" using init_inv [OF bt] ex_config_ok(2) by simp
  obtain b c where "iabtune_next_cparams ex_const (bt, ex_cctx) = Some (b, c)" using next_exists [OF i] .
  then obtain st' where cy: "btune_cycle ex_const ex_cctx (Fin 1) (bt, ex_cctx) = Some st'"
    by (simp add: btune_cycle_def)
  have "documented_plan ex_config = [HARD, SOFT, SOFT, HARD]" by code_simp
  moreover have "btune_plan (fst st') = btune_plan bt \<or> btune_plan bt = readapt_from bt # btune_plan (fst st')"
    using btune_follows_plan [OF btune_reach.start [OF bt] _ ex_config_ok(1) cy] ex_config_ok(2) by simp
  ultimately show ?thesis using bt cy by blast
qed

lemma tuner_stops:
  assumes "iabtune_init bc (Some cfg) cctx dctx = Some bt" "plannable cfg"
    and "cparams_hint cfg \<Longrightarrow> 0 \<le> cx_clevel cctx \<and> cx_clevel cctx \<le> 9"
    and "comp_mode cfg = BTUNE_COMP_HSP \<or>
      comp_mode cfg = BTUNE_COMP_BALANCED \<and> \<not> (cparams_hint cfg \<and> cx_compcode cctx \<in> {BLOSC_ZSTD, BLOSC_ZLIB})"
  shows "\<exists>n. \<forall>k. map_option (bt_state \<circ> fst) (btune_run bc ctx t (n + k) (bt, cctx)) = Some STOP"
proof -
  have "unclamped bt"
    using assms(4) init_codecs [OF assms(1)] by (auto simp: unclamped_def btune_get_codecs_def add_codec_def)
  then show ?thesis using init_inv [OF assms(1,3)] init_plan(1) [OF assms(1,2)] by (intro run_stops)
qed

text \<open>
  Claim C12. With the repeat mode \<open>BTUNE_STOP\<close>, whatever contexts and times the compressor reports: the tuner
  comes to rest, that is, after some number of cycles it is in \<open>STOP\<close> and stays there, except for the
  configurations with a hint, no hard readapts and soft readapts with waits between them, for which it never
  stops (although the comment in the code announces a stop after the last soft readapt). Left out are the modes
  that clamp a compression level after it was chosen, namely \<open>BTUNE_COMP_HCR\<close>, and \<open>BTUNE_COMP_BALANCED\<close> with a
  hint whose codec is ZSTD or ZLIB; the number of hard readapts must not be the largest 32-bit number.
\<close>

theorem btune_stops:
  assumes "iabtune_init bc (Some cfg) cctx dctx = Some bt"
    and "repeat_mode (behaviour cfg) = BTUNE_STOP" "nhards_before_stop (behaviour cfg) + 1 < 2 ^ 32"
    and "cparams_hint cfg \<Longrightarrow> 0 \<le> cx_clevel cctx \<and> cx_clevel cctx \<le> 9"
    and "comp_mode cfg = BTUNE_COMP_HSP \<or>
      comp_mode cfg = BTUNE_COMP_BALANCED \<and> \<not> (cparams_hint cfg \<and> cx_compcode cctx \<in> {BLOSC_ZSTD, BLOSC_ZLIB})"
  shows "if waits_forever cfg
    then \<forall>n. \<exists>b c. btune_run bc ctx t n (bt, cctx) = Some (b, c) \<and> bt_state b \<noteq> STOP
    else \<exists>n. \<forall>k. map_option (bt_state \<circ> fst) (btune_run bc ctx t (n + k) (bt, cctx)) = Some STOP"
proof (cases "waits_forever cfg")
  case True
  then show ?thesis using tuner_waits [OF assms(1) True assms(2,4)] by (fastforce simp: forever_inv_def)
next
  case False
  then have "plannable cfg" using plannable_iff [OF assms(2,3)] by simp
  then show ?thesis using tuner_stops [OF assms(1) _ assms(4,5)] False by simp
qed

definition ex_waiting :: btune_config where
  "ex_waiting = ex_config\<lparr>cparams_hint := True, behaviour := \<lparr> nwaits_before_readapt = 1, nsofts_before_hard = 2,
     nhards_before_stop = 0, repeat_mode = BTUNE_STOP \<rparr>\<rparr>"

theorem btune_stops_witness:
  "(\<exists>bt n. iabtune_init ex_const (Some ex_config) ex_cctx None = Some bt \<and>
     map_option (bt_state \<circ> fst) (btune_run ex_const (\<lambda>_. ex_cctx) (\<lambda>_. Fin 1) n (bt, ex_cctx)) = Some STOP) \<and>
   (\<exists>bt. iabtune_init ex_const (Some ex_waiting) ex_cctx None = Some bt \<and>
     (\<forall>n. \<exists>b c. btune_run ex_const (\<lambda>_. ex_cctx) (\<lambda>_. Fin 1) n (bt, ex_cctx) = Some (b, c) \<and> bt_state b \<noteq> STOP))"
proof -
  obtain bt where bt: "iabtune_init ex_const (Some ex_config) ex_cctx None = Some bt" using ex_init by blast
  have c: "\<not> waits_forever ex_config" "repeat_mode (behaviour ex_config) = BTUNE_STOP"
    "nhards_before_stop (behaviour ex_config) + 1 < 2 ^ 32"
    by (simp_all add: waits_forever_def ex_config_def BTUNE_CONFIG_DEFAULTS_def)
  have e: "\<exists>n. \<forall>k. map_option (bt_state \<circ> fst) (btune_run ex_const (\<lambda>_. ex_cctx) (\<lambda>_. Fin 1) (n + k) (bt, ex_cctx)) = Some STOP"
    using btune_stops [OF bt c(2,3), of "\<lambda>_. ex_cctx" "\<lambda>_. Fin 1"] c(1) by (simp add: ex_config_ok)
  have w: "waits_forever ex_waiting" "repeat_mode (behaviour ex_waiting) = BTUNE_STOP" "cparams_hint ex_waiting"
    "nhards_before_stop (behaviour ex_waiting) + 1 < 2 ^ 32" "comp_mode ex_waiting = BTUNE_COMP_BALANCED"
    by (simp_all add: waits_forever_def ex_waiting_def ex_config_def BTUNE_CONFIG_DEFAULTS_def)
  obtain bt2 where b2: "iabtune_init ex_const (Some ex_waiting) ex_cctx None = Some bt2"
    by (simp add: iabtune_init_def btune_get_codecs_def ex_waiting_def ex_config_def BTUNE_CONFIG_DEFAULTS_def Let_def)
  have "\<forall>n. \<exists>b c. btune_run ex_const (\<lambda>_. ex_cctx) (\<lambda>_. Fin 1) n (bt2, ex_cctx) = Some (b, c) \<and> bt_state b \<noteq> STOP"
    using btune_stops [OF b2 w(2,4), of "\<lambda>_. ex_cctx" "\<lambda>_. Fin 1"] w by (simp add: ex_cctx_def)
  with e show ?thesis using bt b2 by blast
qed

end
