(* ===== verification/Chunks.thy ===== *)
theory Chunks
  imports Tiling Container
begin

text \<open>
  Two levels of blocks: an array is cut into chunks and each chunk into blocks, both numbered in row-major order.
  Insertion and removal of one dimension, by which the reductions map their result to their input; the pieces of
  a line through all chunks and blocks; and what it means that a container stores an array.
\<close>

section \<open>Insertion and removal of a dimension\<close>

definition ins :: "nat \<Rightarrow> 'a \<Rightarrow> 'a list \<Rightarrow> 'a list" where
  "ins k x xs = take k xs @ x # drop k xs"

definition del :: "nat \<Rightarrow> 'a list \<Rightarrow> 'a list" where
  "del k xs = take k xs @ drop (Suc k) xs"

lemma length_ins [simp]: "length (ins k x xs) = Suc (length xs)"
  by (simp add: ins_def)

lemma length_del [simp]: "k < length xs \<Longrightarrow> length (del k xs) = length xs - 1"
  by (simp add: del_def)

lemma ins_nth: "k \<le> length xs \<Longrightarrow> i \<le> length xs \<Longrightarrow>
  ins k x xs ! i = (if i < k then xs ! i else if i = k then x else xs ! (i - 1))"
proof (cases "i \<le> k")
  case False
  then obtain j where "i = Suc (k + j)" using less_imp_Suc_add [of k i] by auto
  moreover assume "k \<le> length xs" "i \<le> length xs"
  ultimately show ?thesis by (simp add: ins_def nth_append)
qed (auto simp: ins_def nth_append)

lemma del_nth: "k < length xs \<Longrightarrow> i < length xs - 1 \<Longrightarrow> del k xs ! i = (if i < k then xs ! i else xs ! Suc i)"
  by (auto simp: del_def nth_append)

lemma del_ins [simp]: "k \<le> length xs \<Longrightarrow> del k (ins k x xs) = xs"
  by (simp add: del_def ins_def)

lemma ins_del [simp]: "k < length xs \<Longrightarrow> ins k (xs ! k) (del k xs) = xs"
  by (simp add: del_def ins_def id_take_nth_drop [symmetric])

lemma map2_ins: "length xs = length ys \<Longrightarrow> map2 f (ins k x xs) (ins k y ys) = ins k (f x y) (map2 f xs ys)"
  by (simp add: ins_def take_zip drop_zip take_map drop_map)

lemma map2_del: "length xs = length ys \<Longrightarrow> map2 f (del k xs) (del k ys) = del k (map2 f xs ys)"
  by (simp add: del_def take_zip drop_zip take_map drop_map)

lemma blocks_of_del: "length ns = length bs \<Longrightarrow> blocks_of (del k ns) (del k bs) = del k (blocks_of ns bs)"
  by (simp add: blocks_of_def map2_del)

lemma in_box_ins:
  assumes "k < length ns"
  shows "in_box ns (ins k x ix) \<longleftrightarrow> in_box (del k ns) ix \<and> 0 \<le> x \<and> x < ns ! k"
proof -
  have "in_box ns (ins k x ix) \<longleftrightarrow> in_box (ins k (ns ! k) (del k ns)) (ins k x ix)" using assms by simp
  also have "\<dots> \<longleftrightarrow> in_box (del k ns) ix \<and> 0 \<le> x \<and> x < ns ! k"
  proof (cases "length ix = length (del k ns)")
    case True
    then have "in_box (del k ns) ix \<longleftrightarrow> in_box (take k (del k ns)) (take k ix) \<and> in_box (drop k (del k ns)) (drop k ix)"
      unfolding in_box_def by (subst append_take_drop_id [of k, symmetric], subst append_take_drop_id [of k ix, symmetric],
        subst list_all2_append) simp_all
    moreover have "in_box (ins k (ns ! k) (del k ns)) (ins k x ix) \<longleftrightarrow>
        in_box (take k (del k ns)) (take k ix) \<and> 0 \<le> x \<and> x < ns ! k \<and> in_box (drop k (del k ns)) (drop k ix)"
      unfolding in_box_def ins_def using True by (subst list_all2_append) (simp_all add: in_box_def)
    ultimately show ?thesis by blast
  next
    case False
    then show ?thesis by (auto dest!: in_box_length)
  qed
  finally show ?thesis .
qed

lemma all_pos_del: "all_pos ns \<Longrightarrow> all_pos (del k ns)"
  by (auto simp: all_pos_def list_all_iff del_def dest: in_set_takeD in_set_dropD)

section \<open>The number of an index with one dimension inserted\<close>

lemma sum_skip:
  fixes f :: "nat \<Rightarrow> int"
  assumes "k \<le> m"
  shows "(\<Sum>i<Suc m. f i) = f k + (\<Sum>j<m. f (if j < k then j else Suc j))"
  using assms
proof (induction m)
  case (Suc m)
  show ?case
  proof (cases "k = Suc m")
    case True
    have "(\<Sum>j<Suc m. f (if j < Suc m then j else Suc j)) = (\<Sum>j<Suc m. f j)" by (rule sum.cong) simp_all
    then show ?thesis using True by simp
  next
    case False
    then have "k \<le> m" using Suc by simp
    then show ?thesis using Suc.IH by simp
  qed
qed simp

lemma fold_sum: "fold (\<lambda>j n. n + f j) [0..<m] a = a + (\<Sum>j<m. f j)" for f :: "nat \<Rightarrow> int"
  by (induction m) simp_all

lemma flat_ins:
  assumes "length ns = Suc m" "k \<le> m" "length ys = m"
  shows "fold (\<lambda>j n. n + ys ! j * strides_of ns ! (if j < k then j else Suc j)) [0..<m] (x * strides_of ns ! k) =
    flat ns (ins k x ys)"
proof -
  have "flat ns (ins k x ys) = (\<Sum>i<Suc m. ins k x ys ! i * strides_of ns ! i)"
    using assms flat_sum [of "ins k x ys" ns] by (simp add: sum_list_sum_nth atLeast0LessThan del: upt_Suc sum.lessThan_Suc)
  also have "\<dots> = x * strides_of ns ! k + (\<Sum>j<m. ys ! j * strides_of ns ! (if j < k then j else Suc j))"
    unfolding sum_skip [OF assms(2)] using assms by (intro arg_cong2 [where f = "(+)"] sum.cong) (auto simp: ins_nth)
  finally show ?thesis by (simp add: fold_sum)
qed

lemma flat_shift:
  assumes "length ns = Suc m" "k \<le> m" "length ys = m"
  shows "flat ns (ins k (x + d) ys) = flat ns (ins k x ys) + d * strides_of ns ! k"
  using flat_ins [OF assms, of x] flat_ins [OF assms, of "x + d"] by (simp add: fold_sum distrib_right)

section \<open>The pieces of a line\<close>

lemma below_Suc: "0 \<le> n \<Longrightarrow> below (n + 1) = below n @ [n]"
  by (simp add: below_def nat_add_distrib)

lemma below_append: "0 \<le> a \<Longrightarrow> 0 \<le> c \<Longrightarrow> below a @ map ((+) a) (below c) = below (a + c)"
  by (rule nth_equalityI) (auto simp: nth_append below_nth nat_add_distrib)

lemma below_nonpos [simp]: "n \<le> 0 \<Longrightarrow> below n = []"
  by (simp add: below_def)

lemma line_pieces:
  assumes "0 < b" "0 \<le> m" "0 \<le> n"
  shows "concat (map (\<lambda>k. map ((+) (k * b)) (below (min b (n - k * b)))) (below m)) = below (min n (m * b))"
  using assms(2)
proof (induction m rule: int_ge_induct)
  case base
  then show ?case using assms(3) by simp
next
  case (step m)
  show ?case
  proof (cases "n \<le> m * b")
    case True
    then show ?thesis using step assms(1) by (simp add: below_Suc distrib_right)
  next
    case False
    have "below (m * b) @ map ((+) (m * b)) (below (min b (n - m * b))) = below (m * b + min b (n - m * b))"
      using False step assms(1) by (intro below_append) simp_all
    moreover have "m * b + min b (n - m * b) = min n ((m + 1) * b)" by (simp add: distrib_right min_def)
    ultimately show ?thesis using step False by (simp add: below_Suc)
  qed
qed

text \<open>Through all blocks of all chunks.\<close>

definition piece :: "int \<Rightarrow> int \<Rightarrow> int \<Rightarrow> int \<Rightarrow> int \<Rightarrow> int list" where
  "piece n c b k l = map (\<lambda>i. k * c + (l * b + i)) (below (min b (min c (n - k * c) - l * b)))"

lemma line_covered:
  assumes "0 < b" "0 < c" "0 \<le> n"
  shows "concat (map (\<lambda>k. concat (map (piece n c b k) (below (ceil_blocks c b)))) (below (ceil_blocks n c))) = below n"
proof -
  have "concat (map (piece n c b k) (below (ceil_blocks c b))) = map ((+) (k * c)) (below (min c (n - k * c)))"
    if k: "0 \<le> k" "k < ceil_blocks n c" for k
  proof -
    have n': "0 \<le> min c (n - k * c)" using block_start_less [of k n c] k assms by simp
    have "concat (map (piece n c b k) (below (ceil_blocks c b))) =
        map ((+) (k * c)) (concat (map (\<lambda>l. map ((+) (l * b)) (below (min b (min c (n - k * c) - l * b)))) (below (ceil_blocks c b))))"
      by (simp add: piece_def [abs_def] map_concat comp_def)
    also have "\<dots> = map ((+) (k * c)) (below (min (min c (n - k * c)) (ceil_blocks c b * b)))"
      using assms n' by (simp add: line_pieces ceil_blocks_nonneg)
    also have "min (min c (n - k * c)) (ceil_blocks c b * b) = min c (n - k * c)"
      using ceil_blocks_mult_ge(1) [of c b] assms by simp
    finally show ?thesis .
  qed
  then have "concat (map (\<lambda>k. concat (map (piece n c b k) (below (ceil_blocks c b)))) (below (ceil_blocks n c))) =
      concat (map (\<lambda>k. map ((+) (k * c)) (below (min c (n - k * c)))) (below (ceil_blocks n c)))"
    by (intro arg_cong [of _ _ concat] map_cong) auto
  also have "\<dots> = below (min n (ceil_blocks n c * c))" using assms by (intro line_pieces) (simp_all add: ceil_blocks_nonneg)
  also have "min n (ceil_blocks n c * c) = n" using ceil_blocks_mult_ge(1) [of n c] assms by simp
  finally show ?thesis .
qed

lemma piece_in_range:
  assumes "x \<in> set (piece n c b k l)" "0 \<le> k" "0 \<le> l" "0 < b" "0 < c"
  obtains i where "x = k * c + l * b + i" "0 \<le> i" "i < b" "l * b + i < c" "x < n"
  using assms by (auto simp: piece_def)

section \<open>The item at a place in a block in a chunk\<close>

text \<open>
  The index of the item \<open>e\<close> of the block \<open>w\<close> within its chunk, and within the array if the chunk is \<open>q\<close>. Some places
  lie outside of their chunk or of the array: they hold padding.
\<close>

definition local_item :: "int list \<Rightarrow> int list \<Rightarrow> int \<Rightarrow> int \<Rightarrow> int list" where
  "local_item cs bs w e = map2 (+) (block_start cs bs w) (unflat bs e)"

definition item_at :: "int list \<Rightarrow> int list \<Rightarrow> int list \<Rightarrow> int \<Rightarrow> int \<Rightarrow> int \<Rightarrow> int list" where
  "item_at ns cs bs q w e = map2 (+) (block_start ns cs q) (local_item cs bs w e)"

definition live :: "int list \<Rightarrow> int list \<Rightarrow> int list \<Rightarrow> int \<Rightarrow> int \<Rightarrow> int \<Rightarrow> bool" where
  "live ns cs bs q w e \<longleftrightarrow> in_box (block_extent ns cs q) (local_item cs bs w e)"

lemma length_item_at [simp]: "length cs = length bs \<Longrightarrow> length (local_item cs bs w e) = length bs"
  "length ns = length bs \<Longrightarrow> length cs = length bs \<Longrightarrow> length (item_at ns cs bs q w e) = length bs"
  by (simp_all add: local_item_def item_at_def)

lemma block_start_ins:
  assumes "length ns = length bs" "k < length bs" "in_box (blocks_of ns bs) (ins k x ys)"
  shows "block_start ns bs (flat (blocks_of ns bs) (ins k x ys)) = ins k (x * bs ! k) (map2 (*) ys (del k bs))"
proof -
  have "length ys = length (del k bs)" using assms in_box_length [OF assms(3)] by simp
  then have "map2 (*) (ins k x ys) (ins k (bs ! k) (del k bs)) = ins k (x * bs ! k) (map2 (*) ys (del k bs))"
    by (rule map2_ins)
  then show ?thesis using assms(2) unflat_flat [OF assms(3)] by (simp add: block_start_def)
qed

lemma in_blocks_ins:
  assumes "good_blocks (del k ns) (del k bs)" "length ns = length bs" "k < length bs" "0 \<le> x" "x < ceil_blocks (ns ! k) (bs ! k)"
    "0 \<le> q" "q < prod_list (blocks_of (del k ns) (del k bs))"
  shows "in_box (blocks_of ns bs) (ins k x (unflat (blocks_of (del k ns) (del k bs)) q))"
proof -
  have "in_box (blocks_of (del k ns) (del k bs)) (unflat (blocks_of (del k ns) (del k bs)) q)"
    using good_blocks_of [OF assms(1)] assms(6,7) by (intro unflat_in_box) (auto simp: good_shape_def)
  then show ?thesis using assms by (simp add: in_box_ins blocks_of_del blocks_of_nth)
qed

lemma local_item_ins:
  assumes "good_blocks (del k cs) (del k bs)" "length cs = length bs" "k < length bs" "0 \<le> x" "x < ceil_blocks (cs ! k) (bs ! k)"
    "0 \<le> w" "w < prod_list (blocks_of (del k cs) (del k bs))" "0 \<le> i" "i < bs ! k" "0 \<le> e" "e < prod_list (del k bs)"
  shows "local_item cs bs (flat (blocks_of cs bs) (ins k x (unflat (blocks_of (del k cs) (del k bs)) w)))
      (flat bs (ins k i (unflat (del k bs) e))) = ins k (x * bs ! k + i) (local_item (del k cs) (del k bs) w e)"
proof -
  have "all_pos (del k bs)" using assms(1) by (simp add: good_blocks_def)
  then have "in_box bs (ins k i (unflat (del k bs) e))"
    using assms unflat_in_box [of "del k bs" e] by (simp add: in_box_ins)
  then show ?thesis
    unfolding local_item_def block_start_ins [OF assms(2,3) in_blocks_ins [OF assms(1-7)]]
    using assms(2,3) by (simp add: unflat_flat map2_ins block_start_def)
qed

lemma item_at_ins:
  assumes "good_blocks (del k ns) (del k cs)" "good_blocks (del k cs) (del k bs)" "length ns = length bs" "length cs = length bs"
    "k < length bs" "0 \<le> y" "y < ceil_blocks (ns ! k) (cs ! k)" "0 \<le> q" "q < prod_list (blocks_of (del k ns) (del k cs))"
    "0 \<le> x" "x < ceil_blocks (cs ! k) (bs ! k)" "0 \<le> w" "w < prod_list (blocks_of (del k cs) (del k bs))"
    "0 \<le> i" "i < bs ! k" "0 \<le> e" "e < prod_list (del k bs)"
  shows "item_at ns cs bs (flat (blocks_of ns cs) (ins k y (unflat (blocks_of (del k ns) (del k cs)) q)))
      (flat (blocks_of cs bs) (ins k x (unflat (blocks_of (del k cs) (del k bs)) w))) (flat bs (ins k i (unflat (del k bs) e))) =
    ins k (y * cs ! k + (x * bs ! k + i)) (item_at (del k ns) (del k cs) (del k bs) q w e)"
proof -
  have "k < length cs" "length ns = length cs" using assms by simp_all
  from block_start_ins [OF this(2,1) in_blocks_ins [OF assms(1) this(2,1) assms(6-9)]] show ?thesis
    unfolding item_at_def local_item_ins [OF assms(2,4,5,10-17)] using assms(3-5)
    by (simp add: map2_ins) (simp add: block_start_def)
qed

lemma live_ins:
  assumes "good_blocks (del k ns) (del k cs)" "good_blocks (del k cs) (del k bs)" "length ns = length bs" "length cs = length bs"
    "k < length bs" "0 \<le> y" "y < ceil_blocks (ns ! k) (cs ! k)" "0 \<le> q" "q < prod_list (blocks_of (del k ns) (del k cs))"
    "0 \<le> x" "x < ceil_blocks (cs ! k) (bs ! k)" "0 \<le> w" "w < prod_list (blocks_of (del k cs) (del k bs))"
    "0 \<le> i" "i < bs ! k" "0 \<le> e" "e < prod_list (del k bs)"
  shows "live ns cs bs (flat (blocks_of ns cs) (ins k y (unflat (blocks_of (del k ns) (del k cs)) q)))
      (flat (blocks_of cs bs) (ins k x (unflat (blocks_of (del k cs) (del k bs)) w))) (flat bs (ins k i (unflat (del k bs) e))) \<longleftrightarrow>
    live (del k ns) (del k cs) (del k bs) q w e \<and> 0 \<le> x * bs ! k + i \<and> x * bs ! k + i < min (cs ! k) (ns ! k - y * cs ! k)"
proof -
  have l: "k < length cs" "length ns = length cs" using assms by simp_all
  let ?st = "map2 (*) (unflat (blocks_of (del k ns) (del k cs)) q) (del k cs)"
  have "block_extent ns cs (flat (blocks_of ns cs) (ins k y (unflat (blocks_of (del k ns) (del k cs)) q))) =
      map2 min (ins k (cs ! k) (del k cs)) (map2 (-) (ins k (ns ! k) (del k ns)) (ins k (y * cs ! k) ?st))"
    using l by (simp add: block_extent_def block_start_ins [OF l(2,1) in_blocks_ins [OF assms(1) l(2,1) assms(6-9)]])
  also have "\<dots> = ins k (min (cs ! k) (ns ! k - y * cs ! k)) (block_extent (del k ns) (del k cs) q)"
    using l by (subst map2_ins, simp, subst map2_ins, simp, simp add: block_extent_def block_start_def)
  finally show ?thesis
    unfolding live_def local_item_ins [OF assms(2,4,5,10-17)] using assms(3-5)
    by (subst in_box_ins) (simp_all add: ins_nth)
qed

end
