(* ===== verification/Constructors.thy ===== *)
theory Constructors
  imports Chunks Views
begin

text \<open>
  The constructors of \<^verbatim>\<open>src/iarray_constructor.c\<close>: arrays that are empty, filled or made from a buffer, and the
  splitting of an array into its chunks and back. The functions of caterva that make an array are arguments, as are
  those of c-blosc2 that read (\<open>get_chunk\<close>) and replace (\<open>update_chunk\<close>) a compressed chunk; a compressed chunk
  is an element of a type \<open>'k\<close> about which nothing is known.
\<close>

section \<open>Empty and filled arrays\<close>

text \<open>
  \<open>iarray_empty\<close>, \<open>iarray_uninit\<close>, \<open>iarray_zeros\<close> and \<open>iarray_fill\<close> differ only in the function of caterva they call.
\<close>

definition construct_with ::
    "(caterva_params \<Rightarrow> caterva_storage \<Rightarrow> 'd caterva_array res) \<Rightarrow> iarray_dtshape \<Rightarrow> iarray_storage \<Rightarrow> 'd container res" where
  "construct_with create d st =
     (if ndim d > CATERVA_MAX_DIM then Inl IARRAY_ERR_INVALID_NDIM
      else res_bind (iarray_set_dtype_size d) (\<lambda>d.
           res_bind (iarray_create_caterva_storage d st) (\<lambda>cs.
           res_bind (create (iarray_create_caterva_params d) cs) (\<lambda>arr. iarray_container_new d st arr))))"

definition iarray_empty ::
    "(caterva_params \<Rightarrow> caterva_storage \<Rightarrow> 'd caterva_array res) \<Rightarrow> iarray_dtshape \<Rightarrow> iarray_storage \<Rightarrow> 'd container res" where
  "iarray_empty caterva_empty d st = construct_with caterva_empty d st"

definition iarray_uninit ::
    "(caterva_params \<Rightarrow> caterva_storage \<Rightarrow> 'd caterva_array res) \<Rightarrow> iarray_dtshape \<Rightarrow> iarray_storage \<Rightarrow> 'd container res" where
  "iarray_uninit caterva_uninit d st = construct_with caterva_uninit d st"

definition iarray_zeros ::
    "(caterva_params \<Rightarrow> caterva_storage \<Rightarrow> 'd caterva_array res) \<Rightarrow> iarray_dtshape \<Rightarrow> iarray_storage \<Rightarrow> 'd container res" where
  "iarray_zeros caterva_zeros d st = construct_with caterva_zeros d st"

definition iarray_fill ::
    "(caterva_params \<Rightarrow> caterva_storage \<Rightarrow> ina_val \<Rightarrow> 'd caterva_array res) \<Rightarrow> iarray_dtshape \<Rightarrow> ina_val \<Rightarrow>
     iarray_storage \<Rightarrow> 'd container res" where
  "iarray_fill caterva_full d v st = construct_with (\<lambda>p s. caterva_full p s v) d st"

definition iarray_ones ::
    "(caterva_params \<Rightarrow> caterva_storage \<Rightarrow> ina_val \<Rightarrow> 'd caterva_array res) \<Rightarrow> iarray_dtshape \<Rightarrow> iarray_storage \<Rightarrow>
     'd container res" where
  "iarray_ones caterva_full d st = (case dtype d of
       IARRAY_DATA_TYPE_DOUBLE \<Rightarrow> iarray_fill caterva_full d (VFp (Fin 1)) st
     | IARRAY_DATA_TYPE_FLOAT \<Rightarrow> iarray_fill caterva_full d (VFp (Fin 1)) st
     | IARRAY_DATA_TYPE_MAX \<Rightarrow> Inl IARRAY_ERR_INVALID_DTYPE
     | _ \<Rightarrow> iarray_fill caterva_full d (VInt 1) st)"

section \<open>Buffers\<close>

definition iarray_from_buffer ::
    "('v list \<Rightarrow> int \<Rightarrow> caterva_params \<Rightarrow> caterva_storage \<Rightarrow> 'd caterva_array res) \<Rightarrow> iarray_dtshape \<Rightarrow> 'v list \<Rightarrow> int \<Rightarrow>
     iarray_storage \<Rightarrow> 'd container res" where
  "iarray_from_buffer caterva_from_buffer d buffer buflen st =
     (if ndim d > CATERVA_MAX_DIM then Inl IARRAY_ERR_INVALID_NDIM
      else res_bind (iarray_set_dtype_size d) (\<lambda>d.
        let nitems = fold (\<lambda>i n. n * shape d ! i) [0..<ndim d] 1 in
        if nitems * dtype_size d > buflen then Inl IARRAY_ERR_TOO_SMALL_BUFFER
        else res_bind (iarray_create_caterva_storage d st) (\<lambda>cs.
             res_bind (caterva_from_buffer buffer buflen (iarray_create_caterva_params d) cs) (\<lambda>arr.
               iarray_container_new d st arr))))"

text \<open>\<open>None\<close>: the buffer is not written.\<close>

definition iarray_to_buffer ::
    "('d caterva_array \<Rightarrow> int \<Rightarrow> 'v list res) \<Rightarrow> ('d caterva_array \<Rightarrow> int list \<Rightarrow> int list \<Rightarrow> int list \<Rightarrow> 'v list res) \<Rightarrow>
     (int \<Rightarrow> int \<Rightarrow> 'v list \<Rightarrow> 'v list) \<Rightarrow> 'd container \<Rightarrow> int \<Rightarrow> 'v list option res" where
  "iarray_to_buffer caterva_to_buffer caterva_get_slice_buffer omatcopy c buflen =
     (let size = fold (\<lambda>i n. n * shape (dtshape c) ! i) [0..<ndim (dtshape c)] 1 in
      if size = 0 then Inr None
      else if size * dtype_size (dtshape c) > buflen then Inl IARRAY_ERR_TOO_SMALL_BUFFER
      else if container_viewed c \<noteq> None
      then
        let start = set_prefix (ndim (dtshape c)) (\<lambda>i. 0) fresh_slots;
            stop = set_prefix (ndim (dtshape c)) (\<lambda>i. shape (dtshape c) ! i) fresh_slots
        in iarray_get_slice_buffer caterva_get_slice_buffer omatcopy c start stop buflen
      else map_sum id Some (caterva_to_buffer (catarr c) buflen))"

section \<open>Chunks\<close>

definition map_data :: "('d \<Rightarrow> 'd) \<Rightarrow> 'd container \<Rightarrow> 'd container" where
  "map_data f c = c\<lparr>catarr := (catarr c)\<lparr>c_data := f (c_data (catarr c))\<rparr>\<rparr>"

definition read_chunk :: "('d \<Rightarrow> int \<Rightarrow> 'k option) \<Rightarrow> 'd container \<Rightarrow> int \<Rightarrow> 'k res" where
  "read_chunk get_chunk c i = (case get_chunk (c_data (catarr c)) i of None \<Rightarrow> Inl IARRAY_ERR_BLOSC_FAILED | Some k \<Rightarrow> Inr k)"

definition split_dtshape :: "'d container \<Rightarrow> iarray_dtshape" where
  "split_dtshape src = \<lparr> dtype = dtype (dtshape src), dtype_size = dtype_size (dtshape src), ndim = ndim (dtshape src),
     shape = set_prefix (ndim (dtshape src)) (\<lambda>i. c_chunkshape (catarr src) ! i) (replicate IARRAY_DIMENSION_MAX 0) \<rparr>"

definition split_storage :: "'d container \<Rightarrow> iarray_storage" where
  "split_storage src = \<lparr> urlpath = None, contiguous = True,
     chunkshape = set_prefix (ndim (dtshape src)) (\<lambda>i. c_chunkshape (catarr src) ! i) (replicate IARRAY_DIMENSION_MAX 0),
     blockshape = set_prefix (ndim (dtshape src)) (\<lambda>i. c_blockshape (catarr src) ! i) (replicate IARRAY_DIMENSION_MAX 0) \<rparr>"

text \<open>
  Every chunk becomes an array. The code does not look at the result of \<open>iarray_empty\<close> and, had it failed, would write through
  a pointer that is not set: here that is the error of \<open>iarray_empty\<close>. The theorems are about calls where it succeeds.
\<close>

definition iarray_split ::
    "('d \<Rightarrow> int \<Rightarrow> 'k option) \<Rightarrow> ('d \<Rightarrow> int \<Rightarrow> 'k \<Rightarrow> 'd) \<Rightarrow>
     (caterva_params \<Rightarrow> caterva_storage \<Rightarrow> 'd caterva_array res) \<Rightarrow> 'd container \<Rightarrow> 'd container list res" where
  "iarray_split get_chunk update_chunk caterva_empty src =
     res_map (\<lambda>i. res_bind (read_chunk get_chunk src i) (\<lambda>k.
                 res_bind (iarray_empty caterva_empty (split_dtshape src) (split_storage src)) (\<lambda>dest.
                   Inr (map_data (\<lambda>d. update_chunk d 0 k) dest))))
       (below (c_nchunks (catarr src)))"

fun concatenate_checks :: "iarray_dtshape \<Rightarrow> iarray_storage \<Rightarrow> 'd container \<Rightarrow> nat list \<Rightarrow> unit res" where
  "concatenate_checks d st src0 [] = Inr ()"
| "concatenate_checks d st src0 (i # js) =
     (if chunkshape st ! i \<noteq> chunkshape (storage src0) ! i then Inl IARRAY_ERR_INVALID_CHUNKSHAPE
      else if blockshape st ! i \<noteq> blockshape (storage src0) ! i then Inl IARRAY_ERR_INVALID_BLOCKSHAPE
      else if ndim d \<noteq> ndim (dtshape src0) then Inl IARRAY_ERR_INVALID_NDIM
      else if dtype d \<noteq> dtype (dtshape src0) then Inl IARRAY_ERR_INVALID_DTYPE
      else if dtype_size d \<noteq> dtype_size (dtshape src0) then Inl IARRAY_ERR_INVALID_DTYPE
      else concatenate_checks d st src0 js)"

text \<open>
  \<open>iarray_concatenate\<close>: only the first source is checked. A read behind the array of sources, which C leaves
  undefined, is the error \<open>INA_ERR_NULL\<close> here.
\<close>

definition iarray_concatenate ::
    "('d \<Rightarrow> int \<Rightarrow> 'k option) \<Rightarrow> ('d \<Rightarrow> int \<Rightarrow> 'k \<Rightarrow> 'd) \<Rightarrow>
     (caterva_params \<Rightarrow> caterva_storage \<Rightarrow> 'd caterva_array res) \<Rightarrow> 'd container list \<Rightarrow> iarray_dtshape \<Rightarrow> iarray_storage \<Rightarrow>
     'd container res" where
  "iarray_concatenate get_chunk update_chunk caterva_empty src d st =
     (if src = [] then Inl INA_ERR_NULL
      else res_bind (concatenate_checks d st (src ! 0) [0..<ndim d]) (\<lambda>_.
        let src_len = fold (\<lambda>i n. n * ceil_blocks (shape d ! i) (chunkshape st ! i)) [0..<ndim d] 1 in
        res_bind (iarray_empty caterva_empty d st) (\<lambda>dest.
          res_fold (\<lambda>i dest.
              if int (length src) \<le> i then Inl INA_ERR_NULL
              else res_bind (read_chunk get_chunk (src ! nat i) 0) (\<lambda>k.
                Inr (map_data (\<lambda>dt. update_chunk dt i k) dest)))
            (below src_len) dest)))"

definition iarray_from_chunk_index ::
    "('d \<Rightarrow> int \<Rightarrow> 'k option) \<Rightarrow> ('d \<Rightarrow> int \<Rightarrow> 'k \<Rightarrow> 'd) \<Rightarrow>
     (caterva_params \<Rightarrow> caterva_storage \<Rightarrow> 'd caterva_array res) \<Rightarrow> 'd container \<Rightarrow> int list \<Rightarrow> int list \<Rightarrow> 'd container res" where
  "iarray_from_chunk_index get_chunk update_chunk caterva_empty src sh chunk_indexes =
     (let nd = ndim (dtshape src);
          d = \<lparr> dtype = dtype (dtshape src), dtype_size = dtype_size (dtshape src), ndim = nd,
                shape = set_prefix nd (\<lambda>i. sh ! i) (replicate IARRAY_DIMENSION_MAX 0) \<rparr>;
          st = \<lparr> urlpath = None, contiguous = True,
                 chunkshape = set_prefix nd (\<lambda>i. chunkshape (storage src) ! i) (replicate IARRAY_DIMENSION_MAX 0),
                 blockshape = set_prefix nd (\<lambda>i. blockshape (storage src) ! i) (replicate IARRAY_DIMENSION_MAX 0) \<rparr>
      in res_bind (iarray_empty caterva_empty d st) (\<lambda>dest.
           if int (length chunk_indexes) \<noteq> c_nchunks (catarr dest) then Inl IARRAY_ERR_INVALID_CHUNKSHAPE
           else res_fold (\<lambda>i dest. res_bind (read_chunk get_chunk src (chunk_indexes ! nat i)) (\<lambda>k.
                  Inr (map_data (\<lambda>dt. update_chunk dt i k) dest)))
                (below (c_nchunks (catarr dest))) dest))"

definition iarray_is_empty :: "'d container \<Rightarrow> bool" where
  "iarray_is_empty c = False"

section \<open>Containers in good order\<close>

definition ns_of :: "'d container \<Rightarrow> int list" where "ns_of c = take (ndim (dtshape c)) (shape (dtshape c))"
definition cs_of :: "'d container \<Rightarrow> int list" where "cs_of c = take (ndim (dtshape c)) (chunkshape (storage c))"
definition bs_of :: "'d container \<Rightarrow> int list" where "bs_of c = take (ndim (dtshape c)) (blockshape (storage c))"

text \<open>A request that caterva accepts: no dimension is empty, blocks fit into chunks and chunks into the array.\<close>

definition nested :: "int list \<Rightarrow> int list \<Rightarrow> int list \<Rightarrow> bool" where
  "nested ns cs bs \<longleftrightarrow> length ns = length bs \<and> length cs = length bs \<and> length bs \<le> 8 \<and>
     (\<forall>j < length bs. 0 < bs ! j \<and> bs ! j \<le> cs ! j \<and> cs ! j \<le> ns ! j \<and> cs ! j < 2 ^ 31)"

definition good_request :: "iarray_dtshape \<Rightarrow> iarray_storage \<Rightarrow> bool" where
  "good_request d st \<longleftrightarrow> dtype d \<noteq> IARRAY_DATA_TYPE_MAX \<and> ndim d \<le> length (shape d) \<and>
     ndim d \<le> length (chunkshape st) \<and> ndim d \<le> length (blockshape st) \<and>
     nested (take (ndim d) (shape d)) (take (ndim d) (chunkshape st)) (take (ndim d) (blockshape st))"

text \<open>What an array of caterva says about itself, for the first \<open>n\<close> dimensions.\<close>

definition caterva_holds :: "'d caterva_array \<Rightarrow> nat \<Rightarrow> int list \<Rightarrow> int list \<Rightarrow> int list \<Rightarrow> bool" where
  "caterva_holds cat n ns cs bs \<longleftrightarrow> c_ndim cat = n \<and> length (c_shape cat) = 8 \<and> length (c_chunkshape cat) = 8 \<and>
     length (c_blockshape cat) = 8 \<and> length (c_extshape cat) = 8 \<and> length (c_extchunkshape cat) = 8 \<and>
     take n (c_shape cat) = ns \<and> take n (c_chunkshape cat) = cs \<and> take n (c_blockshape cat) = bs \<and>
     take n (c_extshape cat) = map2 (*) (blocks_of ns cs) cs \<and>
     take n (c_extchunkshape cat) = map2 (*) (blocks_of cs bs) bs \<and> c_nchunks cat = block_count ns cs"

text \<open>The documented behaviour of the functions of caterva that create an array.\<close>

definition caterva_create_spec :: "(caterva_params \<Rightarrow> caterva_storage \<Rightarrow> 'd caterva_array res) \<Rightarrow> bool" where
  "caterva_create_spec create \<longleftrightarrow> (\<forall>p s. let n = cp_ndim p; ns = take n (cp_shape p);
       cs = take n (cs_chunkshape s); bs = take n (cs_blockshape s)
     in length ns = n \<longrightarrow> nested ns cs bs \<longrightarrow> (\<exists>arr. create p s = Inr arr \<and> c_itemsize arr = cp_itemsize p \<and> caterva_holds arr n ns cs bs))"

definition plain_container :: "'d container \<Rightarrow> bool" where
  "plain_container c \<longleftrightarrow> good_request (dtshape c) (storage c) \<and> dtype_size (dtshape c) = itemsize_of (dtype (dtshape c)) \<and>
     c_itemsize (catarr c) = dtype_size (dtshape c) \<and>
     caterva_holds (catarr c) (ndim (dtshape c)) (ns_of c) (cs_of c) (bs_of c)"

lemma set_dtype_size_eq:
  "dtype d \<noteq> IARRAY_DATA_TYPE_MAX \<Longrightarrow> iarray_set_dtype_size d = Inr (d\<lparr>dtype_size := itemsize_of (dtype d)\<rparr>)"
  by (cases "dtype d") (simp_all add: itemsize_of_def iarray_set_dtype_size.simps)

lemma to_i32_id: "0 \<le> x \<Longrightarrow> x < 2 ^ 31 \<Longrightarrow> to_i32 x = x"
  by (simp add: to_i32_def)

lemma nested_pos: "nested ns cs bs \<Longrightarrow> all_pos ns \<and> all_pos cs \<and> all_pos bs"
  by (fastforce simp: nested_def all_pos_nth)

lemma nested_good: "nested ns cs bs \<Longrightarrow> good_blocks ns cs \<and> good_blocks cs bs"
  using nested_pos [of ns cs bs] by (simp add: good_blocks_def nested_def CATERVA_MAX_DIM_def)

lemma caterva_storage_shapes:
  assumes "good_request d st" "iarray_create_caterva_storage d st = Inr cs"
  shows "take (ndim d) (cs_chunkshape cs) = take (ndim d) (chunkshape st)"
    "take (ndim d) (cs_blockshape cs) = take (ndim d) (blockshape st)"
proof -
  let ?n = "ndim d"
  have n: "?n \<le> 8" "?n \<le> length (chunkshape st)" "?n \<le> length (blockshape st)"
    using assms(1) by (auto simp: good_request_def nested_def)
  have cs: "cs_chunkshape cs = set_prefix ?n (\<lambda>i. to_i32 (chunkshape st ! i)) (replicate 8 0)"
    "cs_blockshape cs = set_prefix ?n (\<lambda>i. to_i32 (blockshape st ! i)) (replicate 8 0)"
    using assms(2) by (auto simp: iarray_create_caterva_storage_def caterva_storage_fields_def set_prefix_def IARRAY_DIMENSION_MAX_def Let_def split: option.splits)
  have b: "chunkshape st ! i < 2 ^ 31 \<and> 0 \<le> chunkshape st ! i \<and> blockshape st ! i < 2 ^ 31 \<and> 0 \<le> blockshape st ! i"
    if "i < ?n" for i
    using that assms(1) n by (fastforce simp: good_request_def nested_def)
  show "take ?n (cs_chunkshape cs) = take ?n (chunkshape st)" "take ?n (cs_blockshape cs) = take ?n (blockshape st)"
    by (rule nth_equalityI; use n b cs in \<open>simp add: set_prefix_eq nth_append to_i32_id\<close>)+
qed

lemma construct_plain:
  assumes "caterva_create_spec create" "good_request d st"
  obtains c where "construct_with create d st = Inr c" "plain_container c" "storage c = st"
    "dtshape c = d\<lparr>dtype_size := itemsize_of (dtype d)\<rparr>" "container_viewed c = None"
proof -
  let ?d = "d\<lparr>dtype_size := itemsize_of (dtype d)\<rparr>" and ?n = "ndim d"
  have n: "?n \<le> 8" "?n \<le> length (shape d)" "?n \<le> length (chunkshape st)" "?n \<le> length (blockshape st)"
    "dtype d \<noteq> IARRAY_DATA_TYPE_MAX"
    using assms(2) by (auto simp: good_request_def nested_def)
  obtain cs where cs: "iarray_create_caterva_storage ?d st = Inr cs"
    by (auto simp: iarray_create_caterva_storage_def iarray_serialize_meta_def not_less)
  have tc: "take ?n (cs_chunkshape cs) = take ?n (chunkshape st)" "take ?n (cs_blockshape cs) = take ?n (blockshape st)"
    using caterva_storage_shapes [OF _ cs] assms(2) by (simp_all add: good_request_def)
  let ?p = "iarray_create_caterva_params ?d"
  have tp: "cp_ndim ?p = ?n" "take ?n (cp_shape ?p) = take ?n (shape d)"
  proof -
    show "cp_ndim ?p = ?n" by (simp add: iarray_create_caterva_params_def)
    have "cp_shape ?p = set_prefix ?n (\<lambda>i. shape d ! i) (replicate 8 0)"
      by (simp add: iarray_create_caterva_params_def set_prefix_def IARRAY_DIMENSION_MAX_def)
    then show "take ?n (cp_shape ?p) = take ?n (shape d)"
      using n by (intro nth_equalityI) (simp_all add: set_prefix_eq nth_append)
  qed
  obtain arr where arr: "create ?p cs = Inr arr" "c_itemsize arr = cp_itemsize ?p"
    "caterva_holds arr ?n (take ?n (shape d)) (take ?n (chunkshape st)) (take ?n (blockshape st))"
    using assms tp tc n unfolding caterva_create_spec_def good_request_def Let_def
    by (metis length_take min.absorb2)
  let ?c = "the (case iarray_container_new ?d st arr of Inr c \<Rightarrow> Some c | _ \<Rightarrow> None)"
  have c: "iarray_container_new ?d st arr = Inr ?c" "dtshape ?c = ?d" "storage ?c = st" "catarr ?c = arr"
    "container_viewed ?c = None"
    using n set_dtype_size_eq [of ?d] by (simp_all add: iarray_container_new_def CATERVA_MAX_DIM_def)
  have "construct_with create d st = Inr ?c"
    using n cs(1) arr(1) c(1) set_dtype_size_eq [of d]
    by (simp add: construct_with_def CATERVA_MAX_DIM_def)
  moreover have isz: "cp_itemsize ?p = itemsize_of (dtype d)"
    using n(5) by (cases "dtype d") (simp_all add: iarray_create_caterva_params_def itemsize_of_def iarray_set_dtype_size.simps)
  moreover have "plain_container ?c"
    using assms(2) arr(2,3) c isz by (simp add: plain_container_def ns_of_def cs_of_def bs_of_def good_request_def)
  ultimately show thesis using that c by blast
qed

section \<open>Splitting and concatenating\<close>

text \<open>
  The documented behaviour of the chunks of a super-chunk: replacing a chunk changes that one and no other, and an
  array that caterva has made has every chunk it counts.
\<close>

definition schunk_spec ::
    "('d \<Rightarrow> int \<Rightarrow> 'k option) \<Rightarrow> ('d \<Rightarrow> int \<Rightarrow> 'k \<Rightarrow> 'd) \<Rightarrow> (caterva_params \<Rightarrow> caterva_storage \<Rightarrow> 'd caterva_array res) \<Rightarrow> bool" where
  "schunk_spec get_chunk update_chunk create \<longleftrightarrow>
     (\<forall>d i k. get_chunk d i \<noteq> None \<longrightarrow>
        (\<forall>j. get_chunk (update_chunk d i k) j = (if j = i then Some k else get_chunk d j))) \<and>
     (\<forall>p s arr i. create p s = Inr arr \<longrightarrow> 0 \<le> i \<longrightarrow> i < c_nchunks arr \<longrightarrow> get_chunk (c_data arr) i \<noteq> None)"

lemma map_data_fields [simp]:
  "c_data (catarr (map_data f c)) = f (c_data (catarr c))" "dtshape (map_data f c) = dtshape c"
  "storage (map_data f c) = storage c" "c_nchunks (catarr (map_data f c)) = c_nchunks (catarr c)"
  by (simp_all add: map_data_def)

lemma update_all:
  assumes "schunk_spec get_chunk update_chunk create" "distinct js" "\<forall>i \<in> set js. get_chunk (c_data (catarr c)) i \<noteq> None"
  shows "\<exists>c'. fold (\<lambda>i c. map_data (\<lambda>d. update_chunk d i (f i)) c) js c = c' \<and> dtshape c' = dtshape c \<and>
    storage c' = storage c \<and>
    (\<forall>j. get_chunk (c_data (catarr c')) j = (if j \<in> set js then Some (f j) else get_chunk (c_data (catarr c)) j))"
  using assms(2,3)
proof (induction js arbitrary: c)
  case (Cons i js)
  let ?c = "map_data (\<lambda>d. update_chunk d i (f i)) c"
  have u: "get_chunk (update_chunk (c_data (catarr c)) i (f i)) j =
      (if j = i then Some (f i) else get_chunk (c_data (catarr c)) j)" for j
    using assms(1) Cons.prems(2) by (simp add: schunk_spec_def)
  have "\<forall>j \<in> set js. get_chunk (c_data (catarr ?c)) j \<noteq> None" using Cons.prems u by auto
  from Cons.IH [OF _ this] Cons.prems(1) show ?case by (auto simp: u)
qed simp

lemma construct_chunks:
  assumes "schunk_spec get_chunk update_chunk create" "construct_with create d st = Inr c" "0 \<le> i" "i < c_nchunks (catarr c)"
  shows "get_chunk (c_data (catarr c)) i \<noteq> None"
proof -
  obtain p s where "create p s = Inr (catarr c)"
    using assms(2) by (auto simp: construct_with_def res_bind_eq_Inr_iff iarray_container_new_def split: if_splits)
  then show ?thesis using assms(1,3,4) by (simp add: schunk_spec_def)
qed

lemma blocks_of_self: "all_pos cs \<Longrightarrow> prod_list (blocks_of cs cs) = 1"
  by (induction cs) (simp_all add: blocks_of_def ceil_blocks_def c_arith all_pos_def)

lemma iarray_split_parts:
  assumes "caterva_create_spec create" "schunk_spec get_chunk update_chunk create" "plain_container src"
    and "\<forall>i. 0 \<le> i \<and> i < c_nchunks (catarr src) \<longrightarrow> get_chunk (c_data (catarr src)) i \<noteq> None"
  obtains part where "iarray_split get_chunk update_chunk create src = Inr (map part (below (c_nchunks (catarr src))))"
    "\<And>i. 0 \<le> i \<Longrightarrow> i < c_nchunks (catarr src) \<Longrightarrow> dtshape (part i) = split_dtshape src \<and> storage (part i) = split_storage src \<and>
       get_chunk (c_data (catarr (part i))) 0 = get_chunk (c_data (catarr src)) i"
proof -
  let ?n = "ndim (dtshape src)"
  have n: "?n \<le> 8" "dtype (dtshape src) \<noteq> IARRAY_DATA_TYPE_MAX" "nested (ns_of src) (cs_of src) (bs_of src)"
    and h: "caterva_holds (catarr src) ?n (ns_of src) (cs_of src) (bs_of src)"
    and sz: "dtype_size (dtshape src) = itemsize_of (dtype (dtshape src))"
    using assms(3) by (auto simp: plain_container_def good_request_def nested_def ns_of_def cs_of_def bs_of_def)
  have s: "take ?n (set_prefix ?n (\<lambda>i. xs ! i) (replicate 8 0)) = take ?n xs" if "length xs = 8" for xs :: "int list"
    using that n(1) by (intro nth_equalityI) (simp_all add: set_prefix_eq nth_append)
  have nest: "nested (cs_of src) (cs_of src) (bs_of src)" using n(3) by (simp add: nested_def)
  have req: "good_request (split_dtshape src) (split_storage src)"
    using n h nest by (simp add: good_request_def split_dtshape_def split_storage_def caterva_holds_def s IARRAY_DIMENSION_MAX_def)
  obtain dest where d: "construct_with create (split_dtshape src) (split_storage src) = Inr dest" "plain_container dest"
    "storage dest = split_storage src" "dtshape dest = split_dtshape src"
    using construct_plain [OF assms(1) req] sz by (auto simp: split_dtshape_def)
  have "c_nchunks (catarr dest) = block_count (cs_of src) (cs_of src)"
    using d h n(1) by (simp add: plain_container_def caterva_holds_def ns_of_def cs_of_def split_dtshape_def split_storage_def s
        IARRAY_DIMENSION_MAX_def)
  then have one: "c_nchunks (catarr dest) = 1"
    using nested_pos [OF n(3)] by (simp add: block_count_def blocks_of_self)
  have zero: "get_chunk (c_data (catarr dest)) 0 \<noteq> None"
    using construct_chunks [OF assms(2) d(1), of 0] one by simp
  let ?part = "\<lambda>i. map_data (\<lambda>d. update_chunk d 0 (the (get_chunk (c_data (catarr src)) i))) dest"
  have "iarray_split get_chunk update_chunk create src = Inr (map ?part (below (c_nchunks (catarr src))))"
    unfolding iarray_split_def using assms(4) d(1)
    by (intro res_map_Inr) (auto simp: read_chunk_def iarray_empty_def)
  moreover have "get_chunk (c_data (catarr (?part i))) 0 = get_chunk (c_data (catarr src)) i"
    if "0 \<le> i" "i < c_nchunks (catarr src)" for i
    using assms(2,4) zero that by (simp add: schunk_spec_def)
  ultimately show thesis using that [of ?part] d by simp
qed

text \<open>
  Claim C5. Splitting an array into its chunks and concatenating them gives the array back: both calls succeed, and
  the result has the type, the shape, the storage and every compressed chunk of the source.
\<close>

theorem concatenate_split:
  assumes "caterva_create_spec create" "schunk_spec get_chunk update_chunk create" "plain_container src"
    and "\<forall>i. 0 \<le> i \<and> i < c_nchunks (catarr src) \<longrightarrow> get_chunk (c_data (catarr src)) i \<noteq> None"
  shows "\<exists>parts dest. iarray_split get_chunk update_chunk create src = Inr parts \<and>
    iarray_concatenate get_chunk update_chunk create parts (dtshape src) (storage src) = Inr dest \<and>
    dtshape dest = dtshape src \<and> storage dest = storage src \<and>
    (\<forall>i. 0 \<le> i \<and> i < c_nchunks (catarr src) \<longrightarrow>
       get_chunk (c_data (catarr dest)) i = get_chunk (c_data (catarr src)) i)"
proof -
  let ?n = "ndim (dtshape src)" and ?N = "c_nchunks (catarr src)"
  obtain part where p: "iarray_split get_chunk update_chunk create src = Inr (map part (below ?N))"
    "\<And>i. 0 \<le> i \<Longrightarrow> i < ?N \<Longrightarrow> dtshape (part i) = split_dtshape src \<and> storage (part i) = split_storage src \<and>
       get_chunk (c_data (catarr (part i))) 0 = get_chunk (c_data (catarr src)) i"
    by (rule iarray_split_parts [OF assms]) blast
  have g: "good_request (dtshape src) (storage src)" "nested (ns_of src) (cs_of src) (bs_of src)"
    and h: "caterva_holds (catarr src) ?n (ns_of src) (cs_of src) (bs_of src)"
    and sz: "dtype_size (dtshape src) = itemsize_of (dtype (dtshape src))"
    using assms(3) by (simp_all add: plain_container_def good_request_def ns_of_def cs_of_def bs_of_def)
  have N: "?N = prod_list (blocks_of (ns_of src) (cs_of src))" using h by (simp add: caterva_holds_def block_count_def)
  have pos: "0 < ?N" unfolding N using nested_good [OF g(2)] good_blocks_of by (intro all_pos_prod) (auto simp: good_shape_def)
  have len: "?n \<le> length (shape (dtshape src))" "?n \<le> length (chunkshape (storage src))" "?n \<le> 8"
    using g(1) by (auto simp: good_request_def nested_def)
  have cnt: "fold (\<lambda>i n. n * ceil_blocks (shape (dtshape src) ! i) (chunkshape (storage src) ! i)) [0..<?n] 1 = ?N"
  proof -
    have "blocks_of (ns_of src) (cs_of src) =
        map (\<lambda>i. ceil_blocks (shape (dtshape src) ! i) (chunkshape (storage src) ! i)) [0..<?n]"
      using len by (intro nth_equalityI) (simp_all add: blocks_of_def ns_of_def cs_of_def)
    then show ?thesis by (simp add: N fold_mult_map)
  qed
  have first: "map part (below ?N) ! 0 = part 0" using pos by (simp add: below_nth)
  have eq: "split_dtshape src = (dtshape src)\<lparr>shape := shape (split_dtshape src)\<rparr>" by (simp add: split_dtshape_def)
  have same: "chunkshape (storage src) ! i = chunkshape (split_storage src) ! i \<and>
      blockshape (storage src) ! i = blockshape (split_storage src) ! i" if "i < ?n" for i
  proof -
    have "take ?n (c_chunkshape (catarr src)) ! i = cs_of src ! i" "take ?n (c_blockshape (catarr src)) ! i = bs_of src ! i"
      using h by (simp_all add: caterva_holds_def)
    then show ?thesis using that len by (simp add: split_storage_def set_prefix_nth cs_of_def bs_of_def IARRAY_DIMENSION_MAX_def)
  qed
  have checks: "concatenate_checks (dtshape src) (storage src) (part 0) js = Inr ()" if "set js \<subseteq> {..<?n}" for js
    using that p(2) [of 0] pos same by (induction js) (auto simp: split_dtshape_def)
  have id: "(dtshape src)\<lparr>dtype_size := itemsize_of (dtype (dtshape src))\<rparr> = dtshape src"
    using sz by (cases "dtshape src") simp
  obtain dest where d: "construct_with create (dtshape src) (storage src) = Inr dest" "plain_container dest"
    "storage dest = storage src" "dtshape dest = dtshape src"
    by (rule construct_plain [OF assms(1) g(1), unfolded id]) blast
  have dn: "c_nchunks (catarr dest) = ?N"
    using d h by (simp add: plain_container_def caterva_holds_def ns_of_def cs_of_def)
  have dr: "\<forall>i \<in> set (below ?N). get_chunk (c_data (catarr dest)) i \<noteq> None"
    using construct_chunks [OF assms(2) d(1)] dn by simp
  let ?f = "\<lambda>i. the (get_chunk (c_data (catarr src)) i)"
  have "res_fold (\<lambda>i dest. if int (length (map part (below ?N))) \<le> i then Inl INA_ERR_NULL
      else res_bind (read_chunk get_chunk (map part (below ?N) ! nat i) 0) (\<lambda>k. Inr (map_data (\<lambda>dt. update_chunk dt i k) dest)))
      (below ?N) dest = Inr (fold (\<lambda>i c. map_data (\<lambda>d. update_chunk d i (?f i)) c) (below ?N) dest)"
  proof (rule res_fold_Inr)
    fix i :: int and c :: "'a container"
    assume "i \<in> set (below ?N)"
    then have i: "0 \<le> i" "i < ?N" by simp_all
    then have nth: "map part (below ?N) ! nat i = part i" by (simp add: below_nth)
    have "get_chunk (c_data (catarr (part i))) 0 = Some (?f i)" using p(2) [OF i] assms(4) i by auto
    then show "(if int (length (map part (below ?N))) \<le> i then Inl INA_ERR_NULL
      else res_bind (read_chunk get_chunk (map part (below ?N) ! nat i) 0) (\<lambda>k. Inr (map_data (\<lambda>dt. update_chunk dt i k) c))) =
      Inr (map_data (\<lambda>d. update_chunk d i (?f i)) c)"
      unfolding nth using i by (simp add: read_chunk_def)
  qed
  moreover have "map part (below ?N) \<noteq> []" using pos by (simp add: below_def)
  moreover have "concatenate_checks (dtshape src) (storage src) (map part (below ?N) ! 0) [0..<?n] = Inr ()"
    unfolding first by (rule checks) auto
  ultimately have "iarray_concatenate get_chunk update_chunk create (map part (below ?N)) (dtshape src) (storage src) =
      Inr (fold (\<lambda>i c. map_data (\<lambda>d. update_chunk d i (?f i)) c) (below ?N) dest)"
    using d(1) unfolding iarray_concatenate_def by (simp only: iarray_empty_def cnt Let_def if_False res_bind_simps)
  then show ?thesis using p(1) update_all [OF assms(2) distinct_below dr, of ?f] d assms(4) by auto
qed

text \<open>For the examples: arrays whose chunks are numbers, all zero in the beginning.\<close>

definition padded :: "int list \<Rightarrow> int list" where "padded xs = xs @ replicate (8 - length xs) 1"

definition number_create :: "caterva_params \<Rightarrow> caterva_storage \<Rightarrow> int list caterva_array res" where
  "number_create p s = (let n = cp_ndim p; ns = take n (cp_shape p); cs = take n (cs_chunkshape s); bs = take n (cs_blockshape s)
     in Inr \<lparr> c_ndim = n, c_shape = padded ns, c_chunkshape = padded cs, c_blockshape = padded bs,
          c_extshape = padded (map2 (*) (blocks_of ns cs) cs), c_extchunkshape = padded (map2 (*) (blocks_of cs bs) bs),
          c_itemsize = cp_itemsize p, c_nitems = prod_list ns, c_nchunks = block_count ns cs,
          c_data = replicate (nat (block_count ns cs)) 0 \<rparr>)"

definition number_get :: "int list \<Rightarrow> int \<Rightarrow> int option" where
  "number_get d i = (if 0 \<le> i \<and> i < int (length d) then Some (d ! nat i) else None)"

definition number_update :: "int list \<Rightarrow> int \<Rightarrow> int \<Rightarrow> int list" where
  "number_update d i k = d[nat i := k]"

lemma number_specs: "caterva_create_spec number_create" "schunk_spec number_get number_update number_create"
proof -
  show "caterva_create_spec number_create"
    by (auto simp: caterva_create_spec_def number_create_def Let_def caterva_holds_def nested_def padded_def)
  show "schunk_spec number_get number_update number_create"
    by (auto simp: schunk_spec_def number_create_def number_get_def number_update_def Let_def nth_list_update)
qed

definition number_array :: "int list container" where
  "number_array = sample_array\<lparr>catarr := (catarr sample_array)\<lparr>c_data := [5, 6, 7]\<rparr>\<rparr>"

theorem concatenate_split_witness:
  "\<exists>parts dest. iarray_split number_get number_update number_create number_array = Inr parts \<and>
    iarray_concatenate number_get number_update number_create parts (dtshape number_array) (storage number_array) = Inr dest \<and>
    number_get (c_data (catarr dest)) 2 = Some 7"
proof -
  have "plain_container number_array"
    by (simp add: plain_container_def number_array_def sample_array_def good_request_def nested_def itemsize_of_def ns_of_def
        cs_of_def bs_of_def caterva_holds_def blocks_of_def block_count_def ceil_blocks_def cmod_def cdiv_def
        iarray_set_dtype_size.simps)
  moreover have n: "c_nchunks (catarr number_array) = 3" "c_data (catarr number_array) = [5, 6, 7]"
    by (simp_all add: number_array_def sample_array_def)
  ultimately obtain parts dest where r: "iarray_split number_get number_update number_create number_array = Inr parts"
    "iarray_concatenate number_get number_update number_create parts (dtshape number_array) (storage number_array) = Inr dest"
    "\<forall>i. 0 \<le> i \<and> i < 3 \<longrightarrow> number_get (c_data (catarr dest)) i = number_get [5, 6, 7] i"
    using concatenate_split [OF number_specs, of number_array] by (auto simp: number_get_def)
  have "number_get (c_data (catarr dest)) 2 = Some 7" using r(3) [rule_format, of 2] by (simp add: number_get_def)
  then show ?thesis using r(1,2) by blast
qed

end
