(* ===== verification/Compressor.thy ===== *)
theory Compressor
  imports Constructors
begin

text \<open>
  What every routine that writes an array chunk by chunk shares: the functions of c-blosc2, the sizes that caterva
  derives from the shapes, what it means that a super-chunk stores an array, and the loop in which c-blosc2 compresses
  one chunk after the other from the blocks that a prefilter provides.
\<close>

section \<open>The compressor\<close>

text \<open>
  The functions of c-blosc2 in use: a lazy chunk of a super-chunk, a run of items of a chunk (first item, number of
  items), the compression of a chunk whose blocks a prefilter provides (\<open>None\<close> if the result is not positive), and
  the replacement of a chunk.
\<close>

record ('d, 'k) blosc_api =
  get_lazychunk :: "'d \<Rightarrow> int \<Rightarrow> 'k option"
  getitem_ctx :: "'k \<Rightarrow> int \<Rightarrow> int \<Rightarrow> ina_val list option"
  compress_ctx :: "blosc2_cparams \<Rightarrow> int \<Rightarrow> (int \<Rightarrow> ina_val list res) \<Rightarrow> 'k option"
  update_chunk :: "'d \<Rightarrow> int \<Rightarrow> 'k \<Rightarrow> 'd"

text \<open>Sizes that caterva derives from the shapes: the number of items of a block, of a chunk, and of both with padding.\<close>

definition blocknitems :: "'d caterva_array \<Rightarrow> int" where
  "blocknitems cat = prod_list (take (c_ndim cat) (c_blockshape cat))"

definition chunknitems :: "'d caterva_array \<Rightarrow> int" where
  "chunknitems cat = prod_list (take (c_ndim cat) (c_chunkshape cat))"

definition extchunknitems :: "'d caterva_array \<Rightarrow> int" where
  "extchunknitems cat = prod_list (take (c_ndim cat) (c_extchunkshape cat))"

definition extnitems :: "'d caterva_array \<Rightarrow> int" where
  "extnitems cat = prod_list (take (c_ndim cat) (c_extshape cat))"

text \<open>The loop that counts the parts of each dimension, \<open>ext[i] / part[i]\<close>.\<close>

definition grid :: "nat \<Rightarrow> int list \<Rightarrow> int list \<Rightarrow> int list" where
  "grid n ext part = set_prefix n (\<lambda>i. cdiv (ext ! i) (part ! i)) (replicate IARRAY_DIMENSION_MAX 0)"

definition decode :: "nat \<Rightarrow> int list \<Rightarrow> int \<Rightarrow> int list" where
  "decode n sh u = iarray_index_unidim_to_multidim_shape n sh u (replicate IARRAY_DIMENSION_MAX 0)"

section \<open>The arrays of a container in good order\<close>

lemma plain_nested: "plain_container c \<Longrightarrow> nested (ns_of c) (cs_of c) (bs_of c)"
  by (simp add: plain_container_def good_request_def ns_of_def cs_of_def bs_of_def)

lemma plain_slots:
  assumes "plain_container c"
  shows "c_ndim (catarr c) = ndim (dtshape c)" "ndim (dtshape c) \<le> 8" "length (ns_of c) = ndim (dtshape c)"
    "length (cs_of c) = ndim (dtshape c)" "length (bs_of c) = ndim (dtshape c)"
    "ndim (dtshape c) \<le> length (blockshape (storage c))" "ndim (dtshape c) \<le> length (shape (dtshape c))"
    "take (ndim (dtshape c)) (blockshape (storage c)) = bs_of c" "take (ndim (dtshape c)) (shape (dtshape c)) = ns_of c"
proof -
  have r: "good_request (dtshape c) (storage c)" and h: "caterva_holds (catarr c) (ndim (dtshape c)) (ns_of c) (cs_of c) (bs_of c)"
    using assms by (simp_all add: plain_container_def)
  show "c_ndim (catarr c) = ndim (dtshape c)" using h by (simp add: caterva_holds_def)
  show "ndim (dtshape c) \<le> 8" "ndim (dtshape c) \<le> length (blockshape (storage c))" "ndim (dtshape c) \<le> length (shape (dtshape c))"
    using r by (auto simp: good_request_def nested_def)
  show "length (ns_of c) = ndim (dtshape c)" "length (cs_of c) = ndim (dtshape c)" "length (bs_of c) = ndim (dtshape c)"
    using r by (simp_all add: good_request_def ns_of_def cs_of_def bs_of_def)
  show "take (ndim (dtshape c)) (blockshape (storage c)) = bs_of c" "take (ndim (dtshape c)) (shape (dtshape c)) = ns_of c"
    by (simp_all add: bs_of_def ns_of_def)
qed

lemma take_eq_nth: "take n xs = ys \<Longrightarrow> i < n \<Longrightarrow> xs ! i = ys ! i"
  by auto

lemma plain_fields:
  assumes "plain_container c" "i < ndim (dtshape c)"
  shows "c_shape (catarr c) ! i = ns_of c ! i" "c_chunkshape (catarr c) ! i = cs_of c ! i"
    "c_blockshape (catarr c) ! i = bs_of c ! i" "shape (dtshape c) ! i = ns_of c ! i"
    "c_extshape (catarr c) ! i = ceil_blocks (ns_of c ! i) (cs_of c ! i) * cs_of c ! i"
    "c_extchunkshape (catarr c) ! i = ceil_blocks (cs_of c ! i) (bs_of c ! i) * bs_of c ! i"
    "0 < ns_of c ! i" "0 < cs_of c ! i" "0 < bs_of c ! i"
proof -
  note l = plain_slots [OF assms(1)] and n = nested_pos [OF plain_nested [OF assms(1)]]
  have h: "caterva_holds (catarr c) (ndim (dtshape c)) (ns_of c) (cs_of c) (bs_of c)"
    using assms(1) by (simp add: plain_container_def)
  show "0 < ns_of c ! i" "0 < cs_of c ! i" "0 < bs_of c ! i" using n l assms(2) by (auto simp: all_pos_nth)
  show "c_shape (catarr c) ! i = ns_of c ! i" "c_chunkshape (catarr c) ! i = cs_of c ! i"
    "c_blockshape (catarr c) ! i = bs_of c ! i" "shape (dtshape c) ! i = ns_of c ! i"
    using h l(9) assms(2) take_eq_nth by (auto simp: caterva_holds_def)
  have e: "take (ndim (dtshape c)) (c_extshape (catarr c)) = map2 (*) (blocks_of (ns_of c) (cs_of c)) (cs_of c)"
    "take (ndim (dtshape c)) (c_extchunkshape (catarr c)) = map2 (*) (blocks_of (cs_of c) (bs_of c)) (bs_of c)"
    using h by (simp_all add: caterva_holds_def)
  show "c_extshape (catarr c) ! i = ceil_blocks (ns_of c ! i) (cs_of c ! i) * cs_of c ! i"
    "c_extchunkshape (catarr c) ! i = ceil_blocks (cs_of c ! i) (bs_of c ! i) * bs_of c ! i"
    using take_eq_nth [OF e(1) assms(2)] take_eq_nth [OF e(2) assms(2)] l assms(2) by (simp_all add: blocks_of_nth)
qed

lemma length_grid [simp]: "length (grid n ext part) = 8"
  by (simp add: grid_def IARRAY_DIMENSION_MAX_def)

lemma grid_plain:
  assumes "plain_container c" "n = ndim (dtshape c)"
  shows "take n (grid n (c_extshape (catarr c)) (c_chunkshape (catarr c))) = blocks_of (ns_of c) (cs_of c)"
    "take n (grid n (c_extchunkshape (catarr c)) (c_blockshape (catarr c))) = blocks_of (cs_of c) (bs_of c)"
proof -
  note l = plain_slots [OF assms(1)] and f = plain_fields [OF assms(1)]
  have g: "grid n ext part ! i = cdiv (ext ! i) (part ! i)" if "i < n" for i ext part
    using that l(2) assms(2) by (simp add: grid_def set_prefix_nth IARRAY_DIMENSION_MAX_def)
  have d: "cdiv (a * b) b = a" if "0 \<le> a" "0 < b" for a b using that by (simp add: c_arith)
  have p: "0 \<le> ceil_blocks (ns_of c ! i) (cs_of c ! i)" "0 \<le> ceil_blocks (cs_of c ! i) (bs_of c ! i)" if "i < n" for i
    using that f(7-9) [of i] assms(2) by (simp_all add: ceil_blocks_nonneg)
  have q: "cdiv (c_extshape (catarr c) ! i) (c_chunkshape (catarr c) ! i) = ceil_blocks (ns_of c ! i) (cs_of c ! i)"
    "cdiv (c_extchunkshape (catarr c) ! i) (c_blockshape (catarr c) ! i) = ceil_blocks (cs_of c ! i) (bs_of c ! i)" if "i < n" for i
    using that assms(2) f [of i] p [OF that] by (simp_all add: d)
  have n: "n \<le> 8" "length (ns_of c) = n" "length (cs_of c) = n" "length (bs_of c) = n" using l assms(2) by simp_all
  show "take n (grid n (c_extshape (catarr c)) (c_chunkshape (catarr c))) = blocks_of (ns_of c) (cs_of c)"
    using n q by (intro nth_equalityI) (simp_all add: g blocks_of_nth)
  show "take n (grid n (c_extchunkshape (catarr c)) (c_blockshape (catarr c))) = blocks_of (cs_of c) (bs_of c)"
    using n q by (intro nth_equalityI) (simp_all add: g blocks_of_nth)
qed

lemma decode_unflat:
  assumes "take n sh = ns" "all_pos ns" "n \<le> length sh" "n \<le> 8" "0 \<le> u"
  shows "decode n sh u = unflat ns u @ replicate (8 - n) 0"
  using assms unidim_to_multidim_shape_unflat [of n sh "replicate 8 0" u]
  by (simp add: decode_def IARRAY_DIMENSION_MAX_def CATERVA_MAX_DIM_def)

lemma strides_slots:
  assumes "take n sh = ns" "n \<le> length sh" "n \<le> length junk"
  shows "take n (compute_strides n sh junk) = strides_of ns"
proof -
  have "length ns = n" using assms(1,2) by auto
  then show ?thesis using assms by (simp add: compute_strides_eq)
qed

section \<open>The array in a super-chunk\<close>

text \<open>\<open>stores\<close>: the super-chunk holds the array \<open>A\<close>, a function from indexes to items; the padding may hold anything.\<close>

definition stores_chunk :: "('d, 'k) blosc_api \<Rightarrow> 'd container \<Rightarrow> (int list \<Rightarrow> ina_val) \<Rightarrow> int \<Rightarrow> bool" where
  "stores_chunk api c A q \<longleftrightarrow> (\<exists>k. get_lazychunk api (c_data (catarr c)) q = Some k \<and>
     (\<forall>w. 0 \<le> w \<longrightarrow> w < block_count (cs_of c) (bs_of c) \<longrightarrow> (\<exists>block.
        getitem_ctx api k (w * prod_list (bs_of c)) (prod_list (bs_of c)) = Some block \<and>
        (\<forall>e. 0 \<le> e \<longrightarrow> e < prod_list (bs_of c) \<longrightarrow> live (ns_of c) (cs_of c) (bs_of c) q w e \<longrightarrow>
           block ! nat e = A (item_at (ns_of c) (cs_of c) (bs_of c) q w e)))))"

definition stores :: "('d, 'k) blosc_api \<Rightarrow> 'd container \<Rightarrow> (int list \<Rightarrow> ina_val) \<Rightarrow> bool" where
  "stores api c A \<longleftrightarrow> (\<forall>q. 0 \<le> q \<longrightarrow> q < block_count (ns_of c) (cs_of c) \<longrightarrow> stores_chunk api c A q)"

text \<open>
  The documented behaviour of the compressor when no lossy codec or filter is configured: it asks the prefilter for
  every block and the items of a block can be read back; if a block is refused there is no chunk.
\<close>

definition blosc_exact :: "('d, 'k) blosc_api \<Rightarrow> blosc2_cparams \<Rightarrow> bool" where
  "blosc_exact api cp \<longleftrightarrow> (\<forall>nbytes pf. let n = blocksize cp div typesize cp in
     0 < typesize cp \<longrightarrow> 0 < blocksize cp \<longrightarrow>
     (\<forall>w. 0 \<le> w \<longrightarrow> w < nbytes div blocksize cp \<longrightarrow> (\<exists>block. pf w = Inr block \<and> int (length block) = n)) \<longrightarrow>
     (\<exists>chunk. compress_ctx api cp nbytes pf = Some chunk \<and>
        (\<forall>w block. 0 \<le> w \<longrightarrow> w < nbytes div blocksize cp \<longrightarrow> pf w = Inr block \<longrightarrow>
           getitem_ctx api chunk (w * n) n = Some block)))"

lemma blosc_exactD:
  assumes "blosc_exact api cp" "blocksize cp div typesize cp = n" "0 < typesize cp" "0 < blocksize cp" "nbytes div blocksize cp = N"
    and "\<And>w. 0 \<le> w \<Longrightarrow> w < N \<Longrightarrow> \<exists>block. pf w = Inr block \<and> int (length block) = n"
  shows "\<exists>chunk. compress_ctx api cp nbytes pf = Some chunk \<and>
    (\<forall>w block. 0 \<le> w \<longrightarrow> w < N \<longrightarrow> pf w = Inr block \<longrightarrow> getitem_ctx api chunk (w * n) n = Some block)"
proof -
  have "\<forall>w. 0 \<le> w \<longrightarrow> w < nbytes div blocksize cp \<longrightarrow> (\<exists>block. pf w = Inr block \<and> int (length block) = blocksize cp div typesize cp)"
    using assms(2,5,6) by blast
  then have "\<exists>chunk. compress_ctx api cp nbytes pf = Some chunk \<and>
        (\<forall>w block. 0 \<le> w \<longrightarrow> w < nbytes div blocksize cp \<longrightarrow> pf w = Inr block \<longrightarrow>
           getitem_ctx api chunk (w * (blocksize cp div typesize cp)) (blocksize cp div typesize cp) = Some block)"
    using assms(1,3,4) unfolding blosc_exact_def Let_def by blast
  then show ?thesis using assms(2,5) by simp
qed

lemma cparams_sizes [simp]:
  "typesize (iarray_create_blosc_cparams zfp_code defaults cfg ts bs) = ts"
  "blocksize (iarray_create_blosc_cparams zfp_code defaults cfg ts bs) = bs"
  by (simp_all add: iarray_create_blosc_cparams_def Let_def)

lemma prod_list_map2: "length xs = length ys \<Longrightarrow> prod_list (map2 (*) xs ys) = prod_list xs * (prod_list ys :: int)"
  by (induction xs ys rule: list_induct2) simp_all

lemma plain_counts:
  assumes "plain_container c"
  shows "blocknitems (catarr c) = prod_list (bs_of c)" "0 < prod_list (bs_of c)" "0 < itemsize_of (dtype (dtshape c))"
    "cdiv (extnitems (catarr c)) (chunknitems (catarr c)) = block_count (ns_of c) (cs_of c)"
    "extchunknitems (catarr c) * s div (blocknitems (catarr c) * s) = (if s = 0 then 0 else block_count (cs_of c) (bs_of c))"
    "c_itemsize (catarr c) = itemsize_of (dtype (dtshape c))" "c_nchunks (catarr c) = block_count (ns_of c) (cs_of c)"
    "0 \<le> block_count (ns_of c) (cs_of c)"
proof -
  note l = plain_slots [OF assms] and pos = nested_pos [OF plain_nested [OF assms]] and gd = nested_good [OF plain_nested [OF assms]]
  have h: "caterva_holds (catarr c) (ndim (dtshape c)) (ns_of c) (cs_of c) (bs_of c)"
    and g: "good_request (dtshape c) (storage c)"
    using assms by (simp_all add: plain_container_def)
  show bn: "blocknitems (catarr c) = prod_list (bs_of c)" using h by (simp add: blocknitems_def caterva_holds_def)
  show b: "0 < prod_list (bs_of c)" using pos by (simp add: all_pos_prod)
  show "0 < itemsize_of (dtype (dtshape c))"
    using g by (cases "dtype (dtshape c)") (simp_all add: good_request_def itemsize_of_def iarray_set_dtype_size.simps)
  have cn: "0 < prod_list (cs_of c)" using pos by (simp add: all_pos_prod)
  have k: "0 < block_count (ns_of c) (cs_of c)"
    using gd good_blocks_of unfolding block_count_def by (intro all_pos_prod) (auto simp: good_shape_def)
  then show "0 \<le> block_count (ns_of c) (cs_of c)" by simp
  have "chunknitems (catarr c) = prod_list (cs_of c)" "extnitems (catarr c) = block_count (ns_of c) (cs_of c) * prod_list (cs_of c)"
    "extchunknitems (catarr c) = block_count (cs_of c) (bs_of c) * prod_list (bs_of c)"
    using h l by (simp_all add: chunknitems_def extnitems_def extchunknitems_def caterva_holds_def block_count_def prod_list_map2)
  then show "cdiv (extnitems (catarr c)) (chunknitems (catarr c)) = block_count (ns_of c) (cs_of c)"
    "extchunknitems (catarr c) * s div (blocknitems (catarr c) * s) = (if s = 0 then 0 else block_count (cs_of c) (bs_of c))"
    using cn k b by (simp_all add: c_arith bn mult.assoc)
  show "c_itemsize (catarr c) = itemsize_of (dtype (dtshape c))" "c_nchunks (catarr c) = block_count (ns_of c) (cs_of c)"
    using assms h by (simp_all add: plain_container_def caterva_holds_def)
qed

lemma plain_map_data: "plain_container (map_data f c) = plain_container c" "ns_of (map_data f c) = ns_of c"
  "cs_of (map_data f c) = cs_of c" "bs_of (map_data f c) = bs_of c" "map_data g (map_data f c) = map_data (g \<circ> f) c"
  by (simp_all add: plain_container_def map_data_def ns_of_def cs_of_def bs_of_def caterva_holds_def)

lemma unflat_zero: "unflat ns 0 = replicate (length ns) 0"
  by (induction ns) simp_all

lemma map_data_sizes [simp]: "blocknitems (catarr (map_data f c)) = blocknitems (catarr c)"
  "extchunknitems (catarr (map_data f c)) = extchunknitems (catarr c)" "c_itemsize (catarr (map_data f c)) = c_itemsize (catarr c)"
  "c_shape (catarr (map_data f c)) = c_shape (catarr c)" "c_chunkshape (catarr (map_data f c)) = c_chunkshape (catarr c)"
  "c_blockshape (catarr (map_data f c)) = c_blockshape (catarr c)" "c_extshape (catarr (map_data f c)) = c_extshape (catarr c)"
  "c_extchunkshape (catarr (map_data f c)) = c_extchunkshape (catarr c)" "c_ndim (catarr (map_data f c)) = c_ndim (catarr c)"
  by (simp_all add: map_data_def blocknitems_def extchunknitems_def)

lemma itemsize_pos: "d \<noteq> IARRAY_DATA_TYPE_MAX \<Longrightarrow> 0 < itemsize_of d"
  by (cases d) (simp_all add: itemsize_of_def iarray_set_dtype_size.simps)

lemma block_start_nonneg:
  assumes "good_blocks ns bs" "0 \<le> k" "k < block_count ns bs" "i < length bs"
  shows "0 \<le> block_start ns bs k ! i"
proof -
  have l: "length ns = length bs" "0 < bs ! i" using assms(1,4) by (auto simp: good_blocks_def all_pos_nth)
  have "in_box (blocks_of ns bs) (unflat (blocks_of ns bs) k)"
    using good_blocks_of [OF assms(1)] assms(2,3) by (intro unflat_in_box) (auto simp: good_shape_def block_count_def)
  then have "0 \<le> unflat (blocks_of ns bs) k ! i" using assms(4) l by (simp add: in_box_nth)
  then show ?thesis using l assms(4) by (simp add: block_start_nth)
qed

lemma live_in_box:
  assumes "nested ns cs bs" "0 \<le> q" "q < block_count ns cs" "live ns cs bs q w e"
  shows "in_box ns (item_at ns cs bs q w e)"
proof -
  have l: "length ns = length bs" "length cs = length bs" using assms(1) by (simp_all add: nested_def)
  have "0 \<le> block_start ns cs q ! i" if "i < length bs" for i
    using block_start_nonneg [of ns cs q i] nested_good [OF assms(1)] assms(2,3) that l by simp
  moreover have "0 \<le> local_item cs bs w e ! i \<and> local_item cs bs w e ! i < ns ! i - block_start ns cs q ! i" if "i < length bs" for i
    using assms(4) that l by (auto simp: live_def in_box_nth block_extent_nth)
  ultimately show ?thesis using l by (fastforce simp: in_box_nth item_at_def)
qed

text \<open>The shape of a block without padding.\<close>

definition cropped :: "int list \<Rightarrow> int list \<Rightarrow> int list \<Rightarrow> int \<Rightarrow> int \<Rightarrow> int list" where
  "cropped ns cs bs q w = map2 min bs (map2 (-) (block_extent ns cs q) (block_start cs bs w))"

lemma live_cropped:
  assumes "nested ns cs bs" "0 \<le> w" "w < block_count cs bs" "0 \<le> e" "e < prod_list bs"
  shows "live ns cs bs q w e \<longleftrightarrow> in_box (cropped ns cs bs q w) (unflat bs e)"
proof -
  have l: "length ns = length bs" "length cs = length bs" using assms(1) by (simp_all add: nested_def)
  have u: "in_box bs (unflat bs e)" using nested_pos [OF assms(1)] assms(4,5) by (intro unflat_in_box) simp_all
  have s: "0 \<le> block_start cs bs w ! i" if "i < length bs" for i
    using block_start_nonneg [of cs bs w i] nested_good [OF assms(1)] assms(2,3) that by simp
  show ?thesis
    using l u s by (fastforce simp: live_def local_item_def cropped_def in_box_nth)
qed

text \<open>Only the items inside the array matter.\<close>

lemma stores_cong:
  assumes "plain_container c" "stores api c A" "\<And>ix. in_box (ns_of c) ix \<Longrightarrow> A ix = A' ix"
  shows "stores api c A'"
  using assms(2) live_in_box [OF plain_nested [OF assms(1)]] assms(3) unfolding stores_def stores_chunk_def by metis

text \<open>A loop of assignments whose value depends only on the place.\<close>

lemma fold_writes:
  "(\<And>x. x \<in> set xs \<Longrightarrow> v x = h (p x)) \<Longrightarrow> i < length out \<Longrightarrow>
   fold (\<lambda>x out. out[p x := v x]) xs out ! i = (if i \<in> p ` set xs then h i else out ! i)"
  by (induction xs arbitrary: out) auto

lemma length_fold_writes [simp]: "length (fold (\<lambda>x out. out[p x := v x]) xs out) = length out"
  by (induction xs arbitrary: out) auto

section \<open>Writing all chunks\<close>

text \<open>
  The loop over the chunks: \<open>pf\<close> is the prefilter, by the container, a state \<open>s\<close> of the loop and the number of the
  chunk. If every block that the prefilter provides holds the items of \<open>A\<close> at its places, then in the end the
  super-chunk stores \<open>A\<close>. Every routine that writes an array of results is an instance.
\<close>

definition compress_loading ::
    "('d, 'k) blosc_api \<Rightarrow> blosc2_cparams \<Rightarrow> ('d container \<Rightarrow> 's \<Rightarrow> int \<Rightarrow> 't res) \<Rightarrow>
     ('d container \<Rightarrow> 't \<Rightarrow> int \<Rightarrow> int \<Rightarrow> ina_val list res) \<Rightarrow> ('t \<Rightarrow> int \<Rightarrow> 's) \<Rightarrow>
     int \<Rightarrow> 'd container \<times> 's \<Rightarrow> ('d container \<times> 's) res" where
  "compress_loading api cp load pf advance nchunks =
     res_fold (\<lambda>nchunk (c, s). res_bind (load c s nchunk) (\<lambda>t.
       case compress_ctx api cp (extchunknitems (catarr c) * c_itemsize (catarr c)) (pf c t nchunk) of
         None \<Rightarrow> Inl IARRAY_ERR_BLOSC_FAILED
       | Some chunk \<Rightarrow> Inr (map_data (\<lambda>d. update_chunk api d nchunk chunk) c, advance t nchunk)))
     (below nchunks)"

text \<open>Most routines load nothing before they compress a chunk.\<close>

definition compress_chunks ::
    "('d, 'k) blosc_api \<Rightarrow> blosc2_cparams \<Rightarrow> ('d container \<Rightarrow> 's \<Rightarrow> int \<Rightarrow> int \<Rightarrow> ina_val list res) \<Rightarrow> ('s \<Rightarrow> int \<Rightarrow> 's) \<Rightarrow>
     int \<Rightarrow> 'd container \<times> 's \<Rightarrow> ('d container \<times> 's) res" where
  "compress_chunks api cp pf advance = compress_loading api cp (\<lambda>c s nchunk. Inr s) pf advance"

definition right_block :: "'d container \<Rightarrow> (int list \<Rightarrow> ina_val) \<Rightarrow> int \<Rightarrow> int \<Rightarrow> ina_val list \<Rightarrow> bool" where
  "right_block c A q w block \<longleftrightarrow> int (length block) = prod_list (bs_of c) \<and>
     (\<forall>e. 0 \<le> e \<longrightarrow> e < prod_list (bs_of c) \<longrightarrow> live (ns_of c) (cs_of c) (bs_of c) q w e \<longrightarrow>
        block ! nat e = A (item_at (ns_of c) (cs_of c) (bs_of c) q w e))"

text \<open>A chunk whose blocks have a property, which may depend on the number of the block.\<close>

definition chunk_blocks :: "('d, 'k) blosc_api \<Rightarrow> 'd container \<Rightarrow> int \<Rightarrow> (int \<Rightarrow> ina_val list \<Rightarrow> bool) \<Rightarrow> bool" where
  "chunk_blocks api c q R \<longleftrightarrow> (\<exists>k. get_lazychunk api (c_data (catarr c)) q = Some k \<and>
     (\<forall>w. 0 \<le> w \<longrightarrow> w < block_count (cs_of c) (bs_of c) \<longrightarrow> (\<exists>block.
        getitem_ctx api k (w * prod_list (bs_of c)) (prod_list (bs_of c)) = Some block \<and> R w block)))"

lemma chunk_blocks_stores: "stores_chunk api c A q \<longleftrightarrow> chunk_blocks api c q (\<lambda>w block. \<forall>e. 0 \<le> e \<longrightarrow> e < prod_list (bs_of c) \<longrightarrow>
    live (ns_of c) (cs_of c) (bs_of c) q w e \<longrightarrow> block ! nat e = A (item_at (ns_of c) (cs_of c) (bs_of c) q w e))"
  by (simp add: stores_chunk_def chunk_blocks_def)

lemma compress_chunk:
  assumes "plain_container c" "blosc_exact api cp" "typesize cp = c_itemsize (catarr c)"
    "blocksize cp = blocknitems (catarr c) * c_itemsize (catarr c)"
    and pf: "\<And>w. 0 \<le> w \<Longrightarrow> w < block_count (cs_of c) (bs_of c) \<Longrightarrow>
      \<exists>block. F w = Inr block \<and> int (length block) = prod_list (bs_of c) \<and> R w block"
  shows "\<exists>chunk. compress_ctx api cp (extchunknitems (catarr c) * c_itemsize (catarr c)) F = Some chunk \<and>
    (\<forall>w. 0 \<le> w \<longrightarrow> w < block_count (cs_of c) (bs_of c) \<longrightarrow> (\<exists>block.
        getitem_ctx api chunk (w * prod_list (bs_of c)) (prod_list (bs_of c)) = Some block \<and> R w block))"
proof -
  note pc = plain_counts [OF assms(1)]
  have n: "blocksize cp div typesize cp = prod_list (bs_of c)" "0 < typesize cp" "0 < blocksize cp"
    "extchunknitems (catarr c) * c_itemsize (catarr c) div blocksize cp = block_count (cs_of c) (bs_of c)"
    using pc(1-3,6) pc(5) [of "c_itemsize (catarr c)"] assms(3,4) by simp_all
  have "\<exists>block. F w = Inr block \<and> int (length block) = prod_list (bs_of c)" if "0 \<le> w" "w < block_count (cs_of c) (bs_of c)" for w
    using pf [OF that] by (auto simp: right_block_def)
  then obtain chunk where "compress_ctx api cp (extchunknitems (catarr c) * c_itemsize (catarr c)) F = Some chunk"
    "\<forall>w block. 0 \<le> w \<longrightarrow> w < block_count (cs_of c) (bs_of c) \<longrightarrow> F w = Inr block \<longrightarrow>
       getitem_ctx api chunk (w * prod_list (bs_of c)) (prod_list (bs_of c)) = Some block"
    using blosc_exactD [OF assms(2) n] by blast
  then show ?thesis using pf by blast
qed

lemma compress_loading_blocks:
  assumes "construct_with create d st = Inr c" "plain_container c"
    and "schunk_spec (get_lazychunk api) (update_chunk api) create"
    and "blosc_exact api cp" "typesize cp = c_itemsize (catarr c)"
      "blocksize cp = blocknitems (catarr c) * c_itemsize (catarr c)"
    and "N = block_count (ns_of c) (cs_of c)" "I 0 s"
    and load: "\<And>x s q. 0 \<le> q \<Longrightarrow> q < N \<Longrightarrow> I q s \<Longrightarrow> \<exists>t. load (map_data (\<lambda>_. x) c) s q = Inr t \<and> L q t"
    and pf: "\<And>x t q w. 0 \<le> q \<Longrightarrow> q < N \<Longrightarrow> L q t \<Longrightarrow> 0 \<le> w \<Longrightarrow> w < block_count (cs_of c) (bs_of c) \<Longrightarrow>
      \<exists>block. pf (map_data (\<lambda>_. x) c) t q w = Inr block \<and> int (length block) = prod_list (bs_of c) \<and> R q w block"
    and step: "\<And>t q. 0 \<le> q \<Longrightarrow> q < N \<Longrightarrow> L q t \<Longrightarrow> I (q + 1) (advance t q)"
  shows "\<exists>x s'. compress_loading api cp load pf advance N (c, s) = Inr (map_data (\<lambda>_. x) c, s') \<and> I N s' \<and>
    (\<forall>q. 0 \<le> q \<longrightarrow> q < N \<longrightarrow> chunk_blocks api (map_data (\<lambda>_. x) c) q (R q))"
proof -
  define P where "P = (\<lambda>j (c', s). (\<exists>d. c' = map_data (\<lambda>_. d) c \<and> (\<forall>q. 0 \<le> q \<and> q < N \<longrightarrow> get_lazychunk api d q \<noteq> None)) \<and>
    I (int j) s \<and> (\<forall>q. 0 \<le> q \<and> q < int j \<longrightarrow> chunk_blocks api c' q (R q)))"
  let ?body = "\<lambda>nchunk (c, s). res_bind (load c s nchunk) (\<lambda>t.
       case compress_ctx api cp (extchunknitems (catarr c) * c_itemsize (catarr c)) (pf c t nchunk) of
         None \<Rightarrow> Inl IARRAY_ERR_BLOSC_FAILED
       | Some chunk \<Rightarrow> Inr (map_data (\<lambda>d. update_chunk api d nchunk chunk) c, advance t nchunk))"
  have "\<exists>s'. res_fold ?body (below N) (c, s) = Inr s' \<and> P (length (below N)) s'"
  proof (rule res_fold_inv)
    have "get_lazychunk api (c_data (catarr c)) q \<noteq> None" if "0 \<le> q" "q < N" for q
      using construct_chunks [OF assms(3,1)] that plain_counts(7) [OF assms(2)] assms(7) by simp
    moreover have "c = map_data (\<lambda>_. c_data (catarr c)) c" by (simp add: map_data_def)
    ultimately show "P 0 (c, s)" using assms(8) unfolding P_def by auto
  next
    fix j t assume "j < length (below N)" and "P j t"
    then have j: "below N ! j = int j" "0 \<le> int j" "int j < N" by (simp_all add: below_nth)
    obtain c' s d where t: "t = (c', s)" "c' = map_data (\<lambda>_. d) c" "\<forall>q. 0 \<le> q \<and> q < N \<longrightarrow> get_lazychunk api d q \<noteq> None"
      "I (int j) s" "\<forall>q. 0 \<le> q \<and> q < int j \<longrightarrow> chunk_blocks api c' q (R q)"
      using \<open>P j t\<close> unfolding P_def by (cases t) auto
    have same: "plain_container c'" "cs_of c' = cs_of c" "bs_of c' = bs_of c"
      "c_itemsize (catarr c') = c_itemsize (catarr c)" "blocknitems (catarr c') = blocknitems (catarr c)"
      using assms(2) t(2) by (simp_all add: plain_map_data)
    obtain u where u: "load c' s (int j) = Inr u" "L (int j) u" using load [OF j(2,3) t(4), of d] t(2) by auto
    have pf': "\<exists>block. pf c' u (int j) w = Inr block \<and> int (length block) = prod_list (bs_of c') \<and> R (int j) w block"
      if "0 \<le> w" "w < block_count (cs_of c') (bs_of c')" for w
      using pf [OF j(2,3) u(2), of w d] that t(2) same by simp
    obtain chunk where chunk: "compress_ctx api cp (extchunknitems (catarr c') * c_itemsize (catarr c')) (pf c' u (int j)) = Some chunk"
      "\<forall>w. 0 \<le> w \<longrightarrow> w < block_count (cs_of c') (bs_of c') \<longrightarrow> (\<exists>block.
        getitem_ctx api chunk (w * prod_list (bs_of c')) (prod_list (bs_of c')) = Some block \<and> R (int j) w block)"
      using compress_chunk [where F = "pf c' u (int j)" and R = "R (int j)", OF same(1) assms(4) _ _ pf'] assms(5,6) same(4,5) by auto
    have upd: "get_lazychunk api (update_chunk api d (int j) chunk) q = (if q = int j then Some chunk else get_lazychunk api d q)" for q
      using assms(3) t(3) j unfolding schunk_spec_def by simp
    let ?c = "map_data (\<lambda>d. update_chunk api d (int j) chunk) c'"
    have "chunk_blocks api ?c q (R q)" if "0 \<le> q" "q < int (Suc j)" for q
      using that chunk(2) t(2,5) upd by (cases "q = int j") (auto simp: chunk_blocks_def plain_map_data)
    moreover have "?c = map_data (\<lambda>_. update_chunk api d (int j) chunk) c"
      by (simp add: t(2) plain_map_data comp_def)
    ultimately have "P (Suc j) (?c, advance u (int j))"
      unfolding P_def using upd t(3) step [OF j(2,3) u(2)] by (auto simp: add.commute)
    then show "\<exists>s'. ?body (below N ! j) t = Inr s' \<and> P (Suc j) s'"
      unfolding j(1) t(1) using chunk(1) u(1) by simp
  qed
  then obtain c' s' where r: "compress_loading api cp load pf advance N (c, s) = Inr (c', s')" "P (length (below N)) (c', s')"
    unfolding compress_loading_def by auto
  moreover have "int (length (below N)) = N" using plain_counts(8) [OF assms(2)] assms(7) by simp
  ultimately show ?thesis unfolding P_def by auto
qed

lemma compress_chunks_stores:
  assumes "construct_with create d st = Inr c" "plain_container c"
    and "schunk_spec (get_lazychunk api) (update_chunk api) create"
    and "blosc_exact api cp" "typesize cp = c_itemsize (catarr c)"
      "blocksize cp = blocknitems (catarr c) * c_itemsize (catarr c)"
    and "N = block_count (ns_of c) (cs_of c)" "I 0 s"
    and pf: "\<And>x s q w. 0 \<le> q \<Longrightarrow> q < N \<Longrightarrow> I q s \<Longrightarrow> 0 \<le> w \<Longrightarrow> w < block_count (cs_of c) (bs_of c) \<Longrightarrow>
      \<exists>block. pf (map_data (\<lambda>_. x) c) s q w = Inr block \<and> right_block c A q w block"
    and step: "\<And>s q. 0 \<le> q \<Longrightarrow> q < N \<Longrightarrow> I q s \<Longrightarrow> I (q + 1) (advance s q)"
  shows "\<exists>x s'. compress_chunks api cp pf advance N (c, s) = Inr (map_data (\<lambda>_. x) c, s') \<and>
    stores api (map_data (\<lambda>_. x) c) A"
proof -
  let ?R = "\<lambda>q w block. \<forall>e. 0 \<le> e \<longrightarrow> e < prod_list (bs_of c) \<longrightarrow> live (ns_of c) (cs_of c) (bs_of c) q w e \<longrightarrow>
    block ! nat e = A (item_at (ns_of c) (cs_of c) (bs_of c) q w e)"
  have "\<exists>x s'. compress_loading api cp (\<lambda>c s nchunk. Inr s) pf advance N (c, s) = Inr (map_data (\<lambda>_. x) c, s') \<and> I N s' \<and>
    (\<forall>q. 0 \<le> q \<longrightarrow> q < N \<longrightarrow> chunk_blocks api (map_data (\<lambda>_. x) c) q (?R q))"
    using pf step by (intro compress_loading_blocks [where I = I and L = I, OF assms(1-8)]) (auto simp: right_block_def)
  then show ?thesis
    using assms(7) by (auto simp: compress_chunks_def stores_def chunk_blocks_stores plain_map_data)
qed

section \<open>An exact compressor, for the examples\<close>

text \<open>A chunk is the list of its items, a super-chunk the list of its chunks.\<close>

definition plain_compress :: "blosc2_cparams \<Rightarrow> int \<Rightarrow> (int \<Rightarrow> ina_val list res) \<Rightarrow> ina_val list option" where
  "plain_compress cp nbytes pf =
     (case res_map pf (below (nbytes div blocksize cp)) of Inl _ \<Rightarrow> None | Inr blocks \<Rightarrow> Some (concat blocks))"

definition plain_api :: "(ina_val list list, ina_val list) blosc_api" where
  "plain_api = \<lparr> get_lazychunk = (\<lambda>d i. if 0 \<le> i \<and> i < int (length d) then Some (d ! nat i) else None),
     getitem_ctx = (\<lambda>k start n. Some (take (nat n) (drop (nat start) k))),
     compress_ctx = plain_compress, update_chunk = (\<lambda>d i k. d[nat i := k]) \<rparr>"

definition plain_create :: "caterva_params \<Rightarrow> caterva_storage \<Rightarrow> ina_val list list caterva_array res" where
  "plain_create p s = (case number_create p s of Inl e \<Rightarrow> Inl e
     | Inr arr \<Rightarrow> Inr \<lparr> c_ndim = c_ndim arr, c_shape = c_shape arr, c_chunkshape = c_chunkshape arr,
         c_blockshape = c_blockshape arr, c_extshape = c_extshape arr, c_extchunkshape = c_extchunkshape arr,
         c_itemsize = c_itemsize arr, c_nitems = c_nitems arr, c_nchunks = c_nchunks arr,
         c_data = replicate (nat (c_nchunks arr)) [] \<rparr>)"

lemma concat_block:
  "\<forall>b \<in> set bs. length b = n \<Longrightarrow> i < length bs \<Longrightarrow> take n (drop (i * n) (concat bs)) = bs ! i"
  by (induction bs arbitrary: i) (auto simp: nth_Cons' less_Suc_eq_0_disj)

lemma plain_exact: "blosc_exact plain_api cp"
  unfolding blosc_exact_def Let_def
proof (intro allI impI)
  fix nbytes :: int and pf :: "int \<Rightarrow> ina_val list res"
  let ?n = "blocksize cp div typesize cp" and ?N = "nbytes div blocksize cp"
  assume pos: "0 < typesize cp" "0 < blocksize cp"
    and pf: "\<forall>w. 0 \<le> w \<longrightarrow> w < ?N \<longrightarrow> (\<exists>block. pf w = Inr block \<and> int (length block) = ?n)"
  define f where "f w = (case pf w of Inr b \<Rightarrow> b | Inl _ \<Rightarrow> [])" for w
  have f: "pf w = Inr (f w) \<and> length (f w) = nat ?n" if "0 \<le> w" "w < ?N" for w
    using pf that by (auto simp: f_def)
  have r: "res_map pf (below ?N) = Inr (map f (below ?N))" using f by (intro res_map_Inr) simp
  have "getitem_ctx plain_api (concat (map f (below ?N))) (w * ?n) ?n = Some block"
    if w: "0 \<le> w" "w < ?N" "pf w = Inr block" for w block
  proof -
    have "take (nat ?n) (drop (nat w * nat ?n) (concat (map f (below ?N)))) = map f (below ?N) ! nat w"
      using f w by (intro concat_block) auto
    moreover have "nat (w * ?n) = nat w * nat ?n" using w by (simp add: nat_mult_distrib)
    ultimately show ?thesis using w f [OF w(1,2)] by (simp add: plain_api_def below_nth)
  qed
  then show "\<exists>chunk. compress_ctx plain_api cp nbytes pf = Some chunk \<and>
      (\<forall>w block. 0 \<le> w \<longrightarrow> w < ?N \<longrightarrow> pf w = Inr block \<longrightarrow> getitem_ctx plain_api chunk (w * ?n) ?n = Some block)"
    using r by (intro exI [of _ "concat (map f (below ?N))"]) (simp add: plain_api_def plain_compress_def)
qed

lemma plain_create_specs: "caterva_create_spec plain_create"
  "schunk_spec (get_lazychunk plain_api) (update_chunk plain_api) plain_create"
proof -
  have "\<exists>arr. number_create p s = Inr arr \<and> c_itemsize arr = cp_itemsize p \<and>
      caterva_holds arr (cp_ndim p) (take (cp_ndim p) (cp_shape p)) (take (cp_ndim p) (cs_chunkshape s)) (take (cp_ndim p) (cs_blockshape s))"
    if "length (take (cp_ndim p) (cp_shape p)) = cp_ndim p"
      "nested (take (cp_ndim p) (cp_shape p)) (take (cp_ndim p) (cs_chunkshape s)) (take (cp_ndim p) (cs_blockshape s))" for p s
    using number_specs(1) that unfolding caterva_create_spec_def Let_def by blast
  then show "caterva_create_spec plain_create"
    unfolding caterva_create_spec_def Let_def by (fastforce simp: plain_create_def caterva_holds_def)
  show "schunk_spec (get_lazychunk plain_api) (update_chunk plain_api) plain_create"
    by (auto simp: schunk_spec_def plain_create_def number_create_def plain_api_def Let_def nth_list_update)
qed

text \<open>A matrix of two rows and three columns, in chunks of one row and two columns and blocks of one item.\<close>

definition small_matrix :: "ina_val list list container" where
  "small_matrix = \<lparr>
     dtshape = \<lparr> dtype = IARRAY_DATA_TYPE_INT32, dtype_size = 4, ndim = 2, shape = [2, 3, 0, 0, 0, 0, 0, 0] \<rparr>,
     auxshape = \<lparr> aux_offset = fresh_slots, shape_wos = [2, 3, 0, 0, 0, 0, 0, 0],
       chunkshape_wos = [1, 2, 0, 0, 0, 0, 0, 0], blockshape_wos = [1, 1, 0, 0, 0, 0, 0, 0],
       aux_index = [0, 1, 0, 0, 0, 0, 0, 0] \<rparr>,
     catarr = \<lparr> c_ndim = 2, c_shape = [2, 3, 1, 1, 1, 1, 1, 1], c_chunkshape = [1, 2, 1, 1, 1, 1, 1, 1],
       c_blockshape = [1, 1, 1, 1, 1, 1, 1, 1], c_extshape = [2, 4, 1, 1, 1, 1, 1, 1],
       c_extchunkshape = [1, 2, 1, 1, 1, 1, 1, 1], c_itemsize = 4, c_nitems = 6, c_nchunks = 4,
       c_data = [[VInt 1, VInt 2], [VInt 3, VInt 0], [VInt 4, VInt 5], [VInt 6, VInt 0]] \<rparr>,
     storage = \<lparr> urlpath = None, contiguous = True, chunkshape = [1, 2, 0, 0, 0, 0, 0, 0],
       blockshape = [1, 1, 0, 0, 0, 0, 0, 0] \<rparr>,
     container_viewed = None, transposed = False \<rparr>"

definition small_entry :: "int list \<Rightarrow> ina_val" where
  "small_entry ix = VInt (3 * ix ! 0 + ix ! 1 + 1)"

lemma small_matrix_parts: "ns_of small_matrix = [2, 3]" "cs_of small_matrix = [1, 2]" "bs_of small_matrix = [1, 1]"
  "ndim (dtshape small_matrix) = 2" "dtype (dtshape small_matrix) = IARRAY_DATA_TYPE_INT32"
  by (simp_all add: ns_of_def cs_of_def bs_of_def small_matrix_def)

lemma small_matrix_plain: "plain_container small_matrix"
  unfolding plain_container_def small_matrix_parts
  by (simp add: small_matrix_def good_request_def nested_def itemsize_of_def caterva_holds_def blocks_of_def block_count_def
      ceil_blocks_def cmod_def cdiv_def iarray_set_dtype_size.simps nth_Cons' less_2_cases_iff signed_modulo_int_def)

lemma small_matrix_stores: "stores plain_api small_matrix small_entry"
proof -
  have n: "block_count (ns_of small_matrix) (cs_of small_matrix) = 4" "block_count (cs_of small_matrix) (bs_of small_matrix) = 2"
    "prod_list (bs_of small_matrix) = 1"
    by (simp_all add: small_matrix_parts block_count_def blocks_of_def ceil_blocks_def c_arith)
  have all: "list_all (\<lambda>q. list_all (\<lambda>w. live [2, 3] [1, 2] [1, 1] q w 0 \<longrightarrow>
      c_data (catarr small_matrix) ! nat q ! nat w = small_entry (item_at [2, 3] [1, 2] [1, 1] q w 0)) (below 2)) (below 4)"
    by code_simp
  have "stores_chunk plain_api small_matrix small_entry q" if q: "0 \<le> q" "q < 4" for q
    unfolding stores_chunk_def n
  proof (intro exI conjI allI impI)
    have l: "length (c_data (catarr small_matrix)) = 4" by (simp add: small_matrix_def)
    then show "get_lazychunk plain_api (c_data (catarr small_matrix)) q = Some (c_data (catarr small_matrix) ! nat q)"
      using q by (simp add: plain_api_def)
    fix w :: int assume w: "0 \<le> w" "w < 2"
    show "getitem_ctx plain_api (c_data (catarr small_matrix) ! nat q) (w * 1) 1 =
        Some (take 1 (drop (nat w) (c_data (catarr small_matrix) ! nat q)))"
      by (simp add: plain_api_def)
    fix e :: int assume e: "0 \<le> e" "e < 1"
      and lv: "live (ns_of small_matrix) (cs_of small_matrix) (bs_of small_matrix) q w e"
    have "e = 0" using e by simp
    have "nat q \<in> {0, 1, 2, 3}" using q by auto
    then have "length (c_data (catarr small_matrix) ! nat q) = 2" by (auto simp: small_matrix_def)
    then have "take 1 (drop (nat w) (c_data (catarr small_matrix) ! nat q)) ! nat e = c_data (catarr small_matrix) ! nat q ! nat w"
      using w e by simp
    also have "\<dots> = small_entry (item_at (ns_of small_matrix) (cs_of small_matrix) (bs_of small_matrix) q w e)"
      using all q w lv \<open>e = 0\<close> by (simp add: list_all_iff small_matrix_parts)
    finally show "take 1 (drop (nat w) (c_data (catarr small_matrix) ! nat q)) ! nat e =
        small_entry (item_at (ns_of small_matrix) (cs_of small_matrix) (bs_of small_matrix) q w e)" .
  qed
  then show ?thesis by (simp add: stores_def n)
qed

end
