(* ===== verification/ConstructBlock.thy ===== *)
theory ConstructBlock
  imports Compressor
begin

text \<open>
  The machinery of the constructors that compute every item (\<^verbatim>\<open>src/constructors\<close>): a prefilter that finds out which
  part of the array a block is, a generator that calls a function for each item of it, and the constructors
  \<open>arange\<close>, \<open>linspace\<close>, \<open>logspace\<close>, \<open>eye\<close> and \<open>tri\<close> on top. Shown is that each item of the result is the value of
  the function at its index, whatever the chunks and blocks, and what goes wrong where no value is computed.
\<close>

section \<open>What a generator is told\<close>

record 'd iarray_constructor_array_info =
  ai_container :: "'d container"
  ai_ndim :: nat
  ai_itemsize :: int
  ai_strides :: "int list"
  ai_chunk_strides :: "int list"
  ai_block_strides :: "int list"

record iarray_constructor_chunk_info =
  ci_chunk_strides_block :: "int list"
  ci_index :: "int list"
  ci_index_flat :: int
  ci_start :: "int list"
  ci_stop :: "int list"
  ci_shape :: "int list"

record iarray_constructor_block_info =
  bi_index_in_chunk :: "int list"
  bi_index_in_chunk_flat :: int
  bi_block_strides :: "int list"
  bi_start :: "int list"
  bi_stop :: "int list"
  bi_shape :: "int list"
  bi_size :: int

record iarray_constructor_item_info =
  ii_index_in_block :: "int list"
  ii_index_in_block_flat :: int
  ii_index_in_block2_flat :: int
  ii_index :: "int list"
  ii_index_flat :: int

text \<open>
  The functions of a constructor. The information that it passes from the array to the chunk and to the block has
  the types \<open>'i\<close>, \<open>'c\<close> and \<open>'b\<close>; \<open>None\<close> is the pointer that no function has set. An item function gives the item or
  an error, a generator its return code and the block after it. The functions for the beginning and the end of an
  array are never called by the code, those for the end of a chunk or a block only free memory: they are left out.
\<close>

type_synonym ('d, 'i, 'c, 'b) iarray_constructor_item_fn =
  "'d iarray_constructor_array_info \<Rightarrow> iarray_constructor_chunk_info \<Rightarrow> iarray_constructor_block_info \<Rightarrow>
   iarray_constructor_item_info \<Rightarrow> 'i \<Rightarrow> 'c option \<Rightarrow> 'b option \<Rightarrow> ina_val res"

type_synonym ('d, 'i, 'c, 'b) iarray_constructor_generator_fn =
  "ina_val list \<Rightarrow> 'd iarray_constructor_array_info \<Rightarrow> iarray_constructor_chunk_info \<Rightarrow> iarray_constructor_block_info \<Rightarrow>
   'i \<Rightarrow> 'c option \<Rightarrow> 'b option \<Rightarrow> ('d, 'i, 'c, 'b) iarray_constructor_item_fn \<Rightarrow> unit res \<times> ina_val list"

record ('d, 'i, 'c, 'b) iarray_constructor_element_params =
  constructor_info :: 'i
  chunk_init_fn :: "('d iarray_constructor_array_info \<Rightarrow> iarray_constructor_chunk_info \<Rightarrow> 'i \<Rightarrow> 'c) option"
  block_init_fn :: "('d iarray_constructor_array_info \<Rightarrow> iarray_constructor_chunk_info \<Rightarrow> iarray_constructor_block_info \<Rightarrow>
    'i \<Rightarrow> 'c option \<Rightarrow> 'b) option"
  item_fn :: "('d, 'i, 'c, 'b) iarray_constructor_item_fn"

record ('d, 'i, 'c, 'b) iarray_constructor_block_params = "('d, 'i, 'c, 'b) iarray_constructor_element_params" +
  generator_fn :: "('d, 'i, 'c, 'b) iarray_constructor_generator_fn"

section \<open>Blocks\<close>

text \<open>
  \<open>iarray_constructor_prefilter\<close>: a block behind the end of its chunk is left as it is, and so is the return code of
  the generator. \<open>nblock\<close> is the number of the block in the chunk, \<open>out\<close> the output buffer before the call.
\<close>

definition iarray_constructor_prefilter ::
    "('d, 'i, 'c, 'b) iarray_constructor_block_params \<Rightarrow> 'd iarray_constructor_array_info \<Rightarrow> iarray_constructor_chunk_info \<Rightarrow>
     'c option \<Rightarrow> ina_val list \<Rightarrow> int \<Rightarrow> ina_val list res" where
  "iarray_constructor_prefilter params ai ci custom_chunk_info out nblock =
     (let cat = catarr (ai_container ai); n = ai_ndim ai;
          index_in_chunk = iarray_index_unidim_to_multidim n (ci_chunk_strides_block ci) nblock fresh_slots;
          start = set_prefix n (\<lambda>i. ci_start ci ! i + index_in_chunk ! i * c_blockshape cat ! i) fresh_slots;
          stop = set_prefix n (\<lambda>i. if start ! i + c_blockshape cat ! i > ci_stop ci ! i then ci_stop ci ! i
              else start ! i + c_blockshape cat ! i) fresh_slots;
          sh = set_prefix n (\<lambda>i. stop ! i - start ! i) fresh_slots;
          bi = \<lparr> bi_index_in_chunk = index_in_chunk, bi_index_in_chunk_flat = nblock,
                 bi_block_strides = compute_strides n sh fresh_slots, bi_start = start, bi_stop = stop, bi_shape = sh,
                 bi_size = fold (\<lambda>i s. s * sh ! i) [0..<n] 1 \<rparr>
      in if list_ex (\<lambda>i. start ! i > ci_stop ci ! i) [0..<n] then Inr out
         else
           let custom_block_info = map_option (\<lambda>f. f ai ci bi (constructor_info params) custom_chunk_info) (block_init_fn params)
           in Inr (snd (generator_fn params out ai ci bi (constructor_info params) custom_chunk_info custom_block_info (item_fn params))))"

text \<open>
  The information on a chunk. \<open>shape0\<close> is what the field \<open>shape\<close> held before: the code subtracts the field from
  itself instead of the start of the chunk.
\<close>

definition constructor_chunk_info ::
    "'d caterva_array \<Rightarrow> nat \<Rightarrow> int list \<Rightarrow> int list \<Rightarrow> int list \<Rightarrow> int \<Rightarrow> iarray_constructor_chunk_info" where
  "constructor_chunk_info cat n chunk_strides_block chunk_in_shape_strides shape0 nchunk =
     (let index = iarray_index_unidim_to_multidim n chunk_in_shape_strides nchunk fresh_slots;
          start = set_prefix n (\<lambda>i. index ! i * c_chunkshape cat ! i) fresh_slots;
          stop = set_prefix n (\<lambda>i. if start ! i + c_chunkshape cat ! i > c_shape cat ! i then c_shape cat ! i
              else start ! i + c_chunkshape cat ! i) fresh_slots
      in \<lparr> ci_chunk_strides_block = chunk_strides_block, ci_index = index, ci_index_flat = nchunk, ci_start = start,
           ci_stop = stop, ci_shape = set_prefix n (\<lambda>i. stop ! i - shape0 ! i) shape0 \<rparr>)"

text \<open>\<open>iarray_constructor_block\<close>. \<open>fresh\<close> is what the output buffer of a block holds before the prefilter is called.\<close>

definition iarray_constructor_block ::
    "('d, 'k) blosc_api \<Rightarrow> (int \<Rightarrow> int \<Rightarrow> nat \<Rightarrow> ina_val) \<Rightarrow> (iarray_compression_codec \<Rightarrow> int) \<Rightarrow> blosc2_cparams \<Rightarrow> iarray_config \<Rightarrow>
     (caterva_params \<Rightarrow> caterva_storage \<Rightarrow> 'd caterva_array res) \<Rightarrow> iarray_dtshape \<Rightarrow>
     ('d, 'i, 'c, 'b) iarray_constructor_block_params \<Rightarrow> iarray_storage \<Rightarrow> 'd container res" where
  "iarray_constructor_block api fresh zfp_code cparams_defaults cfg caterva_empty d params st =
     res_bind (iarray_empty caterva_empty d st) (\<lambda>c.
       let cat = catarr c; n = c_ndim cat;
           array_info = (\<lambda>c. \<lparr> ai_container = c, ai_ndim = n, ai_itemsize = c_itemsize (catarr c),
             ai_strides = compute_strides n (shape (dtshape c)) fresh_slots,
             ai_chunk_strides = compute_strides n (chunkshape (storage c)) fresh_slots,
             ai_block_strides = compute_strides n (blockshape (storage c)) fresh_slots \<rparr>);
           strides_block = compute_strides n (grid n (c_extchunkshape cat) (c_blockshape cat)) fresh_slots;
           strides_chunk = compute_strides (ndim (dtshape c)) (grid n (c_extshape cat) (c_chunkshape cat)) fresh_slots;
           chunk_info = constructor_chunk_info cat n strides_block strides_chunk;
           cparams = iarray_create_blosc_cparams zfp_code cparams_defaults cfg (c_itemsize cat) (blocknitems cat * c_itemsize cat)
       in res_bind (compress_chunks api cparams
            (\<lambda>c shape0 nchunk nblock.
               let ci = chunk_info shape0 nchunk;
                   custom_chunk_info = map_option (\<lambda>f. f (array_info c) ci (constructor_info params)) (chunk_init_fn params)
               in iarray_constructor_prefilter params (array_info c) ci custom_chunk_info
                    (map (fresh nchunk nblock) [0..<nat (blocknitems (catarr c))]) nblock)
            (\<lambda>shape0 nchunk. ci_shape (chunk_info shape0 nchunk))
            (c_nchunks cat) (c, fresh_slots)) (\<lambda>(c, _). Inr c))"

section \<open>Items\<close>

definition item_info ::
    "'d iarray_constructor_array_info \<Rightarrow> iarray_constructor_block_info \<Rightarrow> int \<Rightarrow> iarray_constructor_item_info" where
  "item_info ai bi nitem =
     (let n = ai_ndim ai;
          index_in_block = iarray_index_unidim_to_multidim n (bi_block_strides bi) nitem fresh_slots;
          index = set_prefix n (\<lambda>i. index_in_block ! i + bi_start bi ! i) fresh_slots
      in \<lparr> ii_index_in_block = index_in_block, ii_index_in_block_flat = nitem,
           ii_index_in_block2_flat = iarray_index_multidim_to_unidim n (ai_block_strides ai) index_in_block,
           ii_index = index, ii_index_flat = iarray_index_multidim_to_unidim n (ai_strides ai) index \<rparr>)"

text \<open>The first item that cannot be computed ends the loop.\<close>

definition iarray_constructor_element_fn :: "('d, 'i, 'c, 'b) iarray_constructor_generator_fn" where
  "iarray_constructor_element_fn out ai ci bi info custom_chunk_info custom_block_info f =
     fold (\<lambda>nitem (rc, out). case rc of Inl e \<Rightarrow> (Inl e, out)
       | Inr _ \<Rightarrow>
           let ii = item_info ai bi nitem
           in case f ai ci bi ii info custom_chunk_info custom_block_info of
                Inl e \<Rightarrow> (Inl e, out)
              | Inr v \<Rightarrow> (Inr (), out[nat (ii_index_in_block2_flat ii) := v]))
       (below (bi_size bi)) (Inr (), out)"

definition element_block_params ::
    "('d, 'i, 'c, 'b) iarray_constructor_element_params \<Rightarrow> ('d, 'i, 'c, 'b) iarray_constructor_block_params" where
  "element_block_params params = \<lparr> constructor_info = constructor_info params, chunk_init_fn = chunk_init_fn params,
     block_init_fn = block_init_fn params, item_fn = item_fn params, generator_fn = iarray_constructor_element_fn \<rparr>"

lemma element_block_params_simps [simp]:
  "constructor_info (element_block_params params) = constructor_info params"
  "item_fn (element_block_params params) = item_fn params"
  "generator_fn (element_block_params params) = iarray_constructor_element_fn"
  by (simp_all add: element_block_params_def)

definition iarray_constructor_element ::
    "('d, 'k) blosc_api \<Rightarrow> (int \<Rightarrow> int \<Rightarrow> nat \<Rightarrow> ina_val) \<Rightarrow> (iarray_compression_codec \<Rightarrow> int) \<Rightarrow> blosc2_cparams \<Rightarrow> iarray_config \<Rightarrow>
     (caterva_params \<Rightarrow> caterva_storage \<Rightarrow> 'd caterva_array res) \<Rightarrow> iarray_dtshape \<Rightarrow>
     ('d, 'i, 'c, 'b) iarray_constructor_element_params \<Rightarrow> iarray_storage \<Rightarrow> 'd container res" where
  "iarray_constructor_element api fresh zfp_code cparams_defaults cfg caterva_empty d params st =
     iarray_constructor_block api fresh zfp_code cparams_defaults cfg caterva_empty d
       (element_block_params params) st"

section \<open>The constructors\<close>

text \<open>
  The \<open>switch\<close> that all five share: the value is converted to the type of the array, booleans are not there.
  \<open>oor\<close> is what C, which leaves it open, makes of a value that does not fit the type.
\<close>

definition converted :: "(iarray_data_type \<Rightarrow> fp \<Rightarrow> ina_val) \<Rightarrow> iarray_data_type \<Rightarrow> fp \<Rightarrow> ina_val" where
  "converted oor d x = (case cast_item d (VFp x) of None \<Rightarrow> oor d x | Some v \<Rightarrow> v)"

definition store_double :: "(iarray_data_type \<Rightarrow> fp \<Rightarrow> ina_val) \<Rightarrow> iarray_data_type \<Rightarrow> fp \<Rightarrow> ina_val res" where
  "store_double oor d x =
     (if d = IARRAY_DATA_TYPE_BOOL \<or> d = IARRAY_DATA_TYPE_MAX then Inl IARRAY_ERR_INVALID_DTYPE
      else Inr (converted oor d x))"

abbreviation fp_mul :: "fp \<Rightarrow> fp \<Rightarrow> fp" where "fp_mul \<equiv> fp_times to_double"

record iarray_constructor_range_info =
  range_start :: fp
  range_step :: fp

definition iarray_constructor_arange_fn ::
    "(iarray_data_type \<Rightarrow> fp \<Rightarrow> ina_val) \<Rightarrow> ('d, iarray_constructor_range_info, unit, unit) iarray_constructor_item_fn" where
  "iarray_constructor_arange_fn oor ai ci bi ii info custom_chunk_info custom_block_info =
     store_double oor (dtype (dtshape (ai_container ai)))
       (fp_add (range_start info) (fp_mul (dbl (of_int (ii_index_flat ii))) (range_step info)))"

definition iarray_constructor_linspace_fn ::
    "(iarray_data_type \<Rightarrow> fp \<Rightarrow> ina_val) \<Rightarrow> ('d, iarray_constructor_range_info, unit, unit) iarray_constructor_item_fn" where
  "iarray_constructor_linspace_fn oor ai ci bi ii info custom_chunk_info custom_block_info =
     store_double oor (dtype (dtshape (ai_container ai)))
       (fp_add (fp_mul (dbl (of_int (ii_index_flat ii))) (range_step info)) (range_start info))"

text \<open>\<open>pow\<close> is the function of the mathematical library.\<close>

definition iarray_constructor_logspace_fn ::
    "(fp \<Rightarrow> fp \<Rightarrow> fp) \<Rightarrow> (iarray_data_type \<Rightarrow> fp \<Rightarrow> ina_val) \<Rightarrow>
     ('d, iarray_constructor_range_info \<times> fp, unit, unit) iarray_constructor_item_fn" where
  "iarray_constructor_logspace_fn pow oor ai ci bi ii info custom_chunk_info custom_block_info =
     store_double oor (dtype (dtshape (ai_container ai)))
       (pow (snd info) (fp_add (fp_mul (dbl (of_int (ii_index_flat ii))) (range_step (fst info))) (range_start (fst info))))"

definition iarray_constructor_eye_fn ::
    "(iarray_data_type \<Rightarrow> fp \<Rightarrow> ina_val) \<Rightarrow> ('d, unit, unit, unit) iarray_constructor_item_fn" where
  "iarray_constructor_eye_fn oor ai ci bi ii info custom_chunk_info custom_block_info =
     store_double oor (dtype (dtshape (ai_container ai))) (if ii_index ii ! 0 = ii_index ii ! 1 then Fin 1 else Fin 0)"

definition iarray_constructor_tri_fn ::
    "(iarray_data_type \<Rightarrow> fp \<Rightarrow> ina_val) \<Rightarrow> ('d, int, unit, unit) iarray_constructor_item_fn" where
  "iarray_constructor_tri_fn oor ai ci bi ii k custom_chunk_info custom_block_info =
     store_double oor (dtype (dtshape (ai_container ai))) (if ii_index ii ! 1 \<le> ii_index ii ! 0 + k then Fin 1 else Fin 0)"

definition element_params :: "'i \<Rightarrow> ('d, 'i, unit, unit) iarray_constructor_item_fn \<Rightarrow> ('d, 'i, unit, unit) iarray_constructor_element_params" where
  "element_params info f = \<lparr> constructor_info = info, chunk_init_fn = None, block_init_fn = None, item_fn = f \<rparr>"

definition iarray_arange ::
    "('d, 'k) blosc_api \<Rightarrow> (int \<Rightarrow> int \<Rightarrow> nat \<Rightarrow> ina_val) \<Rightarrow> (iarray_compression_codec \<Rightarrow> int) \<Rightarrow> blosc2_cparams \<Rightarrow> iarray_config \<Rightarrow>
     (caterva_params \<Rightarrow> caterva_storage \<Rightarrow> 'd caterva_array res) \<Rightarrow> (iarray_data_type \<Rightarrow> fp \<Rightarrow> ina_val) \<Rightarrow> iarray_dtshape \<Rightarrow> fp \<Rightarrow> fp \<Rightarrow>
     iarray_storage \<Rightarrow> 'd container res" where
  "iarray_arange api fresh zfp_code cparams_defaults cfg caterva_empty oor d start step st =
     iarray_constructor_element api fresh zfp_code cparams_defaults cfg caterva_empty d
       (element_params \<lparr> range_start = start, range_step = step \<rparr> (iarray_constructor_arange_fn oor)) st"

definition linspace_info :: "iarray_dtshape \<Rightarrow> fp \<Rightarrow> fp \<Rightarrow> iarray_constructor_range_info" where
  "linspace_info d start stop =
     (let nelem = fold (\<lambda>i n. n * shape d ! i) [0..<ndim d] 1
      in \<lparr> range_start = start,
           range_step = fp_div (fp_add stop (fp_neg start)) (fp_add (dbl (of_int nelem)) (Fin (- 1))) \<rparr>)"

definition iarray_linspace ::
    "('d, 'k) blosc_api \<Rightarrow> (int \<Rightarrow> int \<Rightarrow> nat \<Rightarrow> ina_val) \<Rightarrow> (iarray_compression_codec \<Rightarrow> int) \<Rightarrow> blosc2_cparams \<Rightarrow> iarray_config \<Rightarrow>
     (caterva_params \<Rightarrow> caterva_storage \<Rightarrow> 'd caterva_array res) \<Rightarrow> (iarray_data_type \<Rightarrow> fp \<Rightarrow> ina_val) \<Rightarrow> iarray_dtshape \<Rightarrow> fp \<Rightarrow> fp \<Rightarrow>
     iarray_storage \<Rightarrow> 'd container res" where
  "iarray_linspace api fresh zfp_code cparams_defaults cfg caterva_empty oor d start stop st =
     iarray_constructor_element api fresh zfp_code cparams_defaults cfg caterva_empty d
       (element_params (linspace_info d start stop) (iarray_constructor_linspace_fn oor)) st"

definition iarray_logspace ::
    "(fp \<Rightarrow> fp \<Rightarrow> fp) \<Rightarrow> ('d, 'k) blosc_api \<Rightarrow> (int \<Rightarrow> int \<Rightarrow> nat \<Rightarrow> ina_val) \<Rightarrow> (iarray_compression_codec \<Rightarrow> int) \<Rightarrow> blosc2_cparams \<Rightarrow>
     iarray_config \<Rightarrow> (caterva_params \<Rightarrow> caterva_storage \<Rightarrow> 'd caterva_array res) \<Rightarrow> (iarray_data_type \<Rightarrow> fp \<Rightarrow> ina_val) \<Rightarrow>
     iarray_dtshape \<Rightarrow> fp \<Rightarrow> fp \<Rightarrow> fp \<Rightarrow> iarray_storage \<Rightarrow> 'd container res" where
  "iarray_logspace pow api fresh zfp_code cparams_defaults cfg caterva_empty oor d base start stop st =
     iarray_constructor_element api fresh zfp_code cparams_defaults cfg caterva_empty d
       (element_params (linspace_info d start stop, base) (iarray_constructor_logspace_fn pow oor)) st"

definition iarray_eye ::
    "('d, 'k) blosc_api \<Rightarrow> (int \<Rightarrow> int \<Rightarrow> nat \<Rightarrow> ina_val) \<Rightarrow> (iarray_compression_codec \<Rightarrow> int) \<Rightarrow> blosc2_cparams \<Rightarrow> iarray_config \<Rightarrow>
     (caterva_params \<Rightarrow> caterva_storage \<Rightarrow> 'd caterva_array res) \<Rightarrow> (iarray_data_type \<Rightarrow> fp \<Rightarrow> ina_val) \<Rightarrow> iarray_dtshape \<Rightarrow>
     iarray_storage \<Rightarrow> 'd container res" where
  "iarray_eye api fresh zfp_code cparams_defaults cfg caterva_empty oor d st =
     (if ndim d \<noteq> 2 then Inl INA_ERR_INVALID_ARGUMENT
      else iarray_constructor_element api fresh zfp_code cparams_defaults cfg caterva_empty d
             (element_params () (iarray_constructor_eye_fn oor)) st)"

definition iarray_tri ::
    "('d, 'k) blosc_api \<Rightarrow> (int \<Rightarrow> int \<Rightarrow> nat \<Rightarrow> ina_val) \<Rightarrow> (iarray_compression_codec \<Rightarrow> int) \<Rightarrow> blosc2_cparams \<Rightarrow> iarray_config \<Rightarrow>
     (caterva_params \<Rightarrow> caterva_storage \<Rightarrow> 'd caterva_array res) \<Rightarrow> (iarray_data_type \<Rightarrow> fp \<Rightarrow> ina_val) \<Rightarrow> iarray_dtshape \<Rightarrow> int \<Rightarrow>
     iarray_storage \<Rightarrow> 'd container res" where
  "iarray_tri api fresh zfp_code cparams_defaults cfg caterva_empty oor d k st =
     (if ndim d \<noteq> 2 then Inl INA_ERR_INVALID_ARGUMENT
      else iarray_constructor_element api fresh zfp_code cparams_defaults cfg caterva_empty d
             (element_params k (iarray_constructor_tri_fn oor)) st)"

section \<open>The part of the array in a block\<close>

lemma chunk_info_plain:
  assumes "plain_container c" "n = ndim (dtshape c)" "0 \<le> q" "q < block_count (ns_of c) (cs_of c)" "i < n"
    and "ci = constructor_chunk_info (catarr c) n sb (compute_strides n (grid n (c_extshape (catarr c)) (c_chunkshape (catarr c))) fresh_slots) sh0 q"
  shows "ci_start ci ! i = block_start (ns_of c) (cs_of c) q ! i"
    "ci_stop ci ! i = block_start (ns_of c) (cs_of c) q ! i + block_extent (ns_of c) (cs_of c) q ! i"
proof -
  note l = plain_slots [OF assms(1)] and f = plain_fields [OF assms(1)]
  let ?g = "grid n (c_extshape (catarr c)) (c_chunkshape (catarr c))" and ?B = "blocks_of (ns_of c) (cs_of c)"
  have g: "take n ?g = ?B" using grid_plain(1) [OF assms(1,2)] .
  have pos: "all_pos ?B" using nested_good [OF plain_nested [OF assms(1)]] good_blocks_of by (auto simp: good_shape_def)
  have "iarray_index_unidim_to_multidim n (compute_strides n ?g fresh_slots) q fresh_slots = unflat ?B q @ drop n fresh_slots"
    using unidim_to_multidim_unflat [of n ?g fresh_slots q "compute_strides n ?g fresh_slots"] g pos l(2) assms(2,3)
    by (simp add: compute_strides_nth)
  then have "iarray_index_unidim_to_multidim n (compute_strides n ?g fresh_slots) q fresh_slots ! i = unflat ?B q ! i"
    using l assms(2,5) by (simp add: nth_append)
  then show "ci_start ci ! i = block_start (ns_of c) (cs_of c) q ! i"
    "ci_stop ci ! i = block_start (ns_of c) (cs_of c) q ! i + block_extent (ns_of c) (cs_of c) q ! i"
    unfolding assms(6) using assms(2,5) l f(1,2) [of i]
    by (simp_all add: constructor_chunk_info_def Let_def set_prefix_nth block_start_nth block_extent_nth)
qed

lemma element_fn_values:
  assumes "\<And>k. 0 \<le> k \<Longrightarrow> k < bi_size bi \<Longrightarrow> f ai ci bi (item_info ai bi k) info cc cb = Inr (v k)"
  shows "iarray_constructor_element_fn out ai ci bi info cc cb f =
    (Inr (), fold (\<lambda>k out. out[nat (ii_index_in_block2_flat (item_info ai bi k)) := v k]) (below (bi_size bi)) out)"
proof -
  have "fold (\<lambda>nitem (rc, out). case rc of Inl e \<Rightarrow> (Inl e, out)
       | Inr _ \<Rightarrow>
           let ii = item_info ai bi nitem
           in case f ai ci bi ii info cc cb of
                Inl e \<Rightarrow> (Inl e, out)
              | Inr v \<Rightarrow> (Inr (), out[nat (ii_index_in_block2_flat ii) := v])) ks (Inr (), out) =
    (Inr (), fold (\<lambda>k out. out[nat (ii_index_in_block2_flat (item_info ai bi k)) := v k]) ks out)"
    if "\<forall>k \<in> set ks. 0 \<le> k \<and> k < bi_size bi" for ks
    using that by (induction ks arbitrary: out) (simp_all add: assms Let_def)
  then show ?thesis by (simp add: iarray_constructor_element_fn_def)
qed

text \<open>If no item can be computed, the block keeps what it held; the caller does not learn of it.\<close>

lemma element_fn_fails:
  assumes "\<And>k. f ai ci bi (item_info ai bi k) info cc cb = Inl e"
  shows "snd (iarray_constructor_element_fn out ai ci bi info cc cb f) = out"
proof -
  have "snd (fold (\<lambda>nitem (rc, out). case rc of Inl e \<Rightarrow> (Inl e, out)
       | Inr _ \<Rightarrow>
           let ii = item_info ai bi nitem
           in case f ai ci bi ii info cc cb of
                Inl e \<Rightarrow> (Inl e, out)
              | Inr v \<Rightarrow> (Inr (), out[nat (ii_index_in_block2_flat ii) := v])) ks (rc, out)) = out" for ks rc
    by (induction ks arbitrary: rc) (auto simp: assms Let_def split: sum.split)
  then show ?thesis by (simp add: iarray_constructor_element_fn_def)
qed

lemma item_info_plain:
  assumes "plain_container c" "n = ndim (dtshape c)" "ai_ndim ai = n" "ai_strides ai = compute_strides n (shape (dtshape c)) fresh_slots"
    and "ai_block_strides ai = compute_strides n (blockshape (storage c)) fresh_slots"
    and "bi_block_strides bi = compute_strides n sh fresh_slots" "n \<le> length sh" "all_pos (take n sh)" "0 \<le> k" "n \<le> length (bi_start bi)"
  shows "ii_index_in_block2_flat (item_info ai bi k) = flat (bs_of c) (unflat (take n sh) k)"
    "take n (ii_index (item_info ai bi k)) = map2 (+) (take n (bi_start bi)) (unflat (take n sh) k)"
    "ii_index_flat (item_info ai bi k) = flat (ns_of c) (take n (ii_index (item_info ai bi k)))"
proof -
  note l = plain_slots [OF assms(1)]
  let ?ix = "iarray_index_unidim_to_multidim n (bi_block_strides bi) k fresh_slots"
  have ix: "?ix = unflat (take n sh) k @ drop n fresh_slots"
    using assms(2,6-9) l(2) by (intro unidim_to_multidim_unflat) (simp_all add: compute_strides_nth)
  have len: "length (unflat (take n sh) k) = n" using assms(7) by simp
  show "ii_index_in_block2_flat (item_info ai bi k) = flat (bs_of c) (unflat (take n sh) k)"
    using multidim_to_unidim_flat [of n "blockshape (storage c)" fresh_slots ?ix] l assms(2,3,5) ix len
    by (simp add: item_info_def Let_def)
  show "take n (ii_index (item_info ai bi k)) = map2 (+) (take n (bi_start bi)) (unflat (take n sh) k)"
    using l(2) assms(2,3,10) ix len
    by (intro nth_equalityI) (simp_all add: item_info_def Let_def set_prefix_nth nth_append add.commute)
  show "ii_index_flat (item_info ai bi k) = flat (ns_of c) (take n (ii_index (item_info ai bi k)))"
    using multidim_to_unidim_flat [of n "shape (dtshape c)" fresh_slots "ii_index (item_info ai bi k)"] l assms(2-4)
    by (simp add: item_info_def Let_def)
qed

section \<open>A block of values\<close>

text \<open>What the prefilter is told about the array and the chunk \<open>q\<close>.\<close>

definition told :: "'d container \<Rightarrow> 'd iarray_constructor_array_info \<Rightarrow> iarray_constructor_chunk_info \<Rightarrow> int \<Rightarrow> bool" where
  "told c ai ci q \<longleftrightarrow> (let n = ndim (dtshape c) in
     ai_ndim ai = n \<and> ai_strides ai = compute_strides n (shape (dtshape c)) fresh_slots \<and>
     ai_block_strides ai = compute_strides n (blockshape (storage c)) fresh_slots \<and> ai_container ai = c \<and>
     ci_chunk_strides_block ci = compute_strides n (grid n (c_extchunkshape (catarr c)) (c_blockshape (catarr c))) fresh_slots \<and>
     (\<forall>i < n. ci_start ci ! i = block_start (ns_of c) (cs_of c) q ! i \<and>
        ci_stop ci ! i = block_start (ns_of c) (cs_of c) q ! i + block_extent (ns_of c) (cs_of c) q ! i))"

lemma prefilter_values:
  assumes c: "plain_container c" "n = ndim (dtshape c)" "0 \<le> q" "q < block_count (ns_of c) (cs_of c)" "0 \<le> w" "w < block_count (cs_of c) (bs_of c)"
    and t: "told c ai ci q"
    and f: "generator_fn params = iarray_constructor_element_fn" "length out = nat (prod_list (bs_of c))"
      "\<And>bi ii cb. item_fn params ai ci bi ii (constructor_info params) cc cb = Inr (G (take n (ii_index ii)) (ii_index_flat ii))"
  shows "\<exists>block. iarray_constructor_prefilter params ai ci cc out w = Inr block \<and>
    right_block c (\<lambda>ix. G ix (flat (ns_of c) ix)) q w block"
proof -
  have ai: "ai_ndim ai = n" "ai_strides ai = compute_strides n (shape (dtshape c)) fresh_slots"
      "ai_block_strides ai = compute_strides n (blockshape (storage c)) fresh_slots" "ai_container ai = c"
    and ci: "ci_chunk_strides_block ci = compute_strides n (grid n (c_extchunkshape (catarr c)) (c_blockshape (catarr c))) fresh_slots"
      "\<And>i. i < n \<Longrightarrow> ci_start ci ! i = block_start (ns_of c) (cs_of c) q ! i"
      "\<And>i. i < n \<Longrightarrow> ci_stop ci ! i = block_start (ns_of c) (cs_of c) q ! i + block_extent (ns_of c) (cs_of c) q ! i"
    using t c(2) by (simp_all add: told_def Let_def)
  note l = plain_slots [OF c(1)] and fd = plain_fields [OF c(1)] and nst = plain_nested [OF c(1)]
  let ?ns = "ns_of c" and ?cs = "cs_of c" and ?bs = "bs_of c"
  have len: "length ?ns = n" "length ?cs = n" "length ?bs = n" "n \<le> 8" using l c(2) by simp_all
  have pos: "all_pos (blocks_of ?cs ?bs)" using nested_good [OF nst] good_blocks_of by (auto simp: good_shape_def)
  define ix where "ix = iarray_index_unidim_to_multidim n (ci_chunk_strides_block ci) w fresh_slots"
  define start where "start = set_prefix n (\<lambda>i. ci_start ci ! i + ix ! i * c_blockshape (catarr c) ! i) fresh_slots"
  define stop where "stop = set_prefix n (\<lambda>i. if start ! i + c_blockshape (catarr c) ! i > ci_stop ci ! i then ci_stop ci ! i
              else start ! i + c_blockshape (catarr c) ! i) fresh_slots"
  define sh where "sh = set_prefix n (\<lambda>i. stop ! i - start ! i) fresh_slots"
  define bi where "bi = \<lparr> bi_index_in_chunk = ix, bi_index_in_chunk_flat = w,
                 bi_block_strides = compute_strides n sh fresh_slots, bi_start = start, bi_stop = stop, bi_shape = sh,
                 bi_size = fold (\<lambda>i s. s * sh ! i) [0..<n] 1 \<rparr>"
  have "ix = unflat (blocks_of ?cs ?bs) w @ drop n fresh_slots"
    using unidim_to_multidim_unflat [of n "grid n (c_extchunkshape (catarr c)) (c_blockshape (catarr c))" fresh_slots w] grid_plain(2) [OF c(1,2)]
      pos c(5) len ci(1) by (simp add: ix_def compute_strides_nth)
  then have start: "start ! i = block_start ?ns ?cs q ! i + block_start ?cs ?bs w ! i" if "i < n" for i
    using that len ci(2) fd(3) [of i] c(2) by (simp add: start_def set_prefix_nth nth_append block_start_nth)
  have sh: "take n sh = cropped ?ns ?cs ?bs q w"
    using len start ci(3) fd(3) c(2)
    by (intro nth_equalityI) (simp_all add: sh_def stop_def set_prefix_nth cropped_def)
  have size: "bi_size bi = prod_list (cropped ?ns ?cs ?bs q w)"
  proof -
    have "bi_size bi = prod_list (map ((!) sh) [0..<n])" by (simp add: bi_def fold_mult_map)
    also have "map ((!) sh) [0..<n] = take n sh" using len by (intro map_nth_take) (simp add: sh_def)
    finally show ?thesis using sh by simp
  qed
  have run: "iarray_constructor_prefilter params ai ci cc out w =
      (if list_ex (\<lambda>i. start ! i > ci_stop ci ! i) [0..<n] then Inr out
       else Inr (snd (iarray_constructor_element_fn out ai ci bi (constructor_info params) cc
         (map_option (\<lambda>f. f ai ci bi (constructor_info params) cc) (block_init_fn params)) (item_fn params))))"
    unfolding iarray_constructor_prefilter_def Let_def ai(1,4) ix_def [symmetric] start_def [symmetric] stop_def [symmetric]
      sh_def [symmetric] bi_def [symmetric] f(1) ..
  note lc = live_cropped [OF nst c(5,6)]
  show ?thesis
  proof (cases "list_ex (\<lambda>i. start ! i > ci_stop ci ! i) [0..<n]")
    case True
    then obtain i where i: "i < n" "block_extent ?ns ?cs q ! i < block_start ?cs ?bs w ! i"
      using start ci(3) by (fastforce simp: list_ex_iff)
    have "\<not> in_box (cropped ?ns ?cs ?bs q w) xs" for xs
      using i len by (auto simp: in_box_nth cropped_def intro!: exI [of _ i])
    then show ?thesis using True run f(2) lc len plain_counts(2) [OF c(1)] by (auto simp: right_block_def)
  next
    case False
    then have ge: "0 \<le> cropped ?ns ?cs ?bs q w ! i" if "i < n" for i
      using that start ci(3) len nested_pos [OF nst]
      by (auto simp: list_ex_iff cropped_def not_less all_pos_nth less_imp_le)
    have box: "in_box ?bs xs" if "in_box (cropped ?ns ?cs ?bs q w) xs" for xs
      using that len by (auto simp: in_box_nth cropped_def)
    define h where "h e = G (item_at ?ns ?cs ?bs q w (int e)) (flat ?ns (item_at ?ns ?cs ?bs q w (int e)))" for e :: nat
    have visit: "ii_index_in_block2_flat (item_info ai bi k) = flat ?bs (unflat (cropped ?ns ?cs ?bs q w) k) \<and>
        in_box (cropped ?ns ?cs ?bs q w) (unflat (cropped ?ns ?cs ?bs q w) k) \<and>
        G (take n (ii_index (item_info ai bi k))) (ii_index_flat (item_info ai bi k)) =
        h (nat (flat ?bs (unflat (cropped ?ns ?cs ?bs q w) k)))"
      if k: "0 \<le> k" "k < prod_list (cropped ?ns ?cs ?bs q w)" for k
    proof -
      have ap: "all_pos (cropped ?ns ?cs ?bs q w)"
      proof (rule ccontr)
        assume "\<not> all_pos (cropped ?ns ?cs ?bs q w)"
        then obtain i where i: "i < n" "cropped ?ns ?cs ?bs q w ! i = 0"
          using ge len by (force simp: all_pos_nth cropped_def)
        have "length (cropped ?ns ?cs ?bs q w) = n" using len by (simp add: cropped_def)
        then have "0 \<in> set (cropped ?ns ?cs ?bs q w)" using nth_mem [of i "cropped ?ns ?cs ?bs q w"] i by simp
        then have "prod_list (cropped ?ns ?cs ?bs q w) = 0" by (simp add: prod_list_zero_iff)
        then show False using k by simp
      qed
      note ii = item_info_plain [OF c(1,2) ai(1-3), of bi sh k]
      let ?u = "unflat (cropped ?ns ?cs ?bs q w) k"
      have u: "in_box (cropped ?ns ?cs ?bs q w) ?u" using unflat_in_box [OF ap k] .
      have un: "unflat ?bs (flat ?bs ?u) = ?u" using unflat_flat [OF box [OF u]] .
      have st: "take n (bi_start bi) = map2 (+) (block_start ?ns ?cs q) (block_start ?cs ?bs w)"
        using len start by (intro nth_equalityI) (simp_all add: bi_def start_def)
      have "map2 (+) (take n (bi_start bi)) ?u = item_at ?ns ?cs ?bs q w (flat ?bs ?u)"
        unfolding st item_at_def local_item_def un using len
        by (intro nth_equalityI) (simp_all add: cropped_def)
      moreover have "0 \<le> flat ?bs ?u" using flat_bounds [OF box [OF u]] by simp
      ultimately show ?thesis
        using ii u ap sh k(1) len by (simp add: bi_def h_def sh_def start_def)
    qed
    have r: "iarray_constructor_element_fn out ai ci bi (constructor_info params) cc
        (map_option (\<lambda>f. f ai ci bi (constructor_info params) cc) (block_init_fn params)) (item_fn params) =
      (Inr (), fold (\<lambda>k out. out[nat (ii_index_in_block2_flat (item_info ai bi k)) :=
        G (take n (ii_index (item_info ai bi k))) (ii_index_flat (item_info ai bi k))]) (below (bi_size bi)) out)"
      by (rule element_fn_values) (rule f(3))
    define block where "block = fold (\<lambda>k out. out[nat (ii_index_in_block2_flat (item_info ai bi k)) :=
        G (take n (ii_index (item_info ai bi k))) (ii_index_flat (item_info ai bi k))]) (below (bi_size bi)) out"
    have "block ! nat e = G (item_at ?ns ?cs ?bs q w e) (flat ?ns (item_at ?ns ?cs ?bs q w e))"
      if e: "0 \<le> e" "e < prod_list ?bs" "live ?ns ?cs ?bs q w e" for e
    proof -
      have ib: "in_box (cropped ?ns ?cs ?bs q w) (unflat ?bs e)" using lc e by simp
      let ?k = "flat (cropped ?ns ?cs ?bs q w) (unflat ?bs e)"
      have k: "0 \<le> ?k" "?k < prod_list (cropped ?ns ?cs ?bs q w)" using flat_bounds [OF ib] by simp_all
      have "flat ?bs (unflat (cropped ?ns ?cs ?bs q w) ?k) = e"
        using unflat_flat [OF ib] flat_unflat [of ?bs e] nested_pos [OF nst] e by simp
      then have "nat e \<in> (\<lambda>k. nat (ii_index_in_block2_flat (item_info ai bi k))) ` set (below (bi_size bi))"
        using visit [OF k] k size by (intro image_eqI [of _ _ ?k]) simp_all
      moreover have "block ! nat e = (if nat e \<in> (\<lambda>k. nat (ii_index_in_block2_flat (item_info ai bi k))) ` set (below (bi_size bi))
          then h (nat e) else out ! nat e)"
        unfolding block_def using visit size f(2) e by (intro fold_writes) auto
      ultimately show ?thesis using e by (simp add: h_def)
    qed
    moreover have "int (length block) = prod_list ?bs" using f(2) plain_counts(2) [OF c(1)] by (simp add: block_def)
    ultimately show ?thesis using False run r by (auto simp: right_block_def block_def)
  qed
qed

lemma prefilter_unwritten:
  assumes "generator_fn params = iarray_constructor_element_fn"
    and "\<And>bi ii cb. item_fn params ai ci bi ii (constructor_info params) cc cb = Inl e"
  shows "iarray_constructor_prefilter params ai ci cc out w = Inr out"
  unfolding iarray_constructor_prefilter_def Let_def assms(1) by (simp add: element_fn_fails assms(2))

section \<open>The whole array\<close>

lemma constructor_element_blocks:
  assumes "caterva_create_spec caterva_empty" "schunk_spec (get_lazychunk api) (update_chunk api) caterva_empty"
    and "\<And>ts bs. blosc_exact api (iarray_create_blosc_cparams zfp_code cparams_defaults cfg ts bs)"
    and "good_request d st"
    and pf: "\<And>c ai ci cc q w. plain_container c \<Longrightarrow> dtshape c = d\<lparr>dtype_size := itemsize_of (dtype d)\<rparr> \<Longrightarrow>
      0 \<le> q \<Longrightarrow> q < block_count (ns_of c) (cs_of c) \<Longrightarrow> 0 \<le> w \<Longrightarrow> w < block_count (cs_of c) (bs_of c) \<Longrightarrow> told c ai ci q \<Longrightarrow>
      \<exists>block. iarray_constructor_prefilter (element_block_params params) ai ci cc (map (fresh q w) [0..<nat (prod_list (bs_of c))]) w = Inr block \<and>
        right_block c A q w block"
  shows "\<exists>b. iarray_constructor_element api fresh zfp_code cparams_defaults cfg caterva_empty d params st = Inr b \<and>
    plain_container b \<and> dtshape b = d\<lparr>dtype_size := itemsize_of (dtype d)\<rparr> \<and> storage b = st \<and> stores api b A"
proof -
  define prm where "prm = element_block_params params"
  obtain c where c: "construct_with caterva_empty d st = Inr c" "plain_container c" "storage c = st"
    "dtshape c = d\<lparr>dtype_size := itemsize_of (dtype d)\<rparr>"
    using construct_plain [OF assms(1,4)] by blast
  define n where "n = ndim (dtshape c)"
  have n: "c_ndim (catarr c) = n" using plain_slots(1) [OF c(2)] by (simp add: n_def)
  define AI where "AI = (\<lambda>c. \<lparr> ai_container = c, ai_ndim = n, ai_itemsize = c_itemsize (catarr c),
             ai_strides = compute_strides n (shape (dtshape c)) fresh_slots,
             ai_chunk_strides = compute_strides n (chunkshape (storage c)) fresh_slots,
             ai_block_strides = compute_strides n (blockshape (storage c)) fresh_slots \<rparr> :: 'a iarray_constructor_array_info)"
  define CI where "CI = constructor_chunk_info (catarr c) n (compute_strides n (grid n (c_extchunkshape (catarr c)) (c_blockshape (catarr c))) fresh_slots)
      (compute_strides n (grid n (c_extshape (catarr c)) (c_chunkshape (catarr c))) fresh_slots)"
  define PF where "PF = (\<lambda>c sh0 nchunk nblock. iarray_constructor_prefilter prm (AI c) (CI sh0 nchunk)
      (map_option (\<lambda>f. f (AI c) (CI sh0 nchunk) (constructor_info prm)) (chunk_init_fn prm))
      (map (fresh nchunk nblock) [0..<nat (blocknitems (catarr c))]) nblock)"
  let ?cp = "iarray_create_blosc_cparams zfp_code cparams_defaults cfg (c_itemsize (catarr c)) (blocknitems (catarr c) * c_itemsize (catarr c))"
  have "\<exists>x s'. compress_chunks api ?cp PF (\<lambda>sh0 nchunk. ci_shape (CI sh0 nchunk)) (c_nchunks (catarr c)) (c, fresh_slots) =
      Inr (map_data (\<lambda>_. x) c, s') \<and> stores api (map_data (\<lambda>_. x) c) A"
  proof (rule compress_chunks_stores [where I = "\<lambda>_ _. True", OF c(1,2) assms(2,3) _ _ plain_counts(7) [OF c(2)]])
    fix x sh0 q w assume q: "0 \<le> q" "q < c_nchunks (catarr c)" "0 \<le> w" "w < block_count (cs_of c) (bs_of c)"
    let ?c = "map_data (\<lambda>_. x) c"
    have Q: "q < block_count (ns_of c) (cs_of c)" using q(2) plain_counts(7) [OF c(2)] by simp
    note ch = chunk_info_plain [OF c(2) n_def q(1) Q _ CI_def [THEN fun_cong, THEN fun_cong]]
    have "told ?c (AI ?c) (CI sh0 q) q"
      using ch by (simp add: told_def n_def [symmetric] AI_def plain_map_data) (simp add: CI_def constructor_chunk_info_def Let_def)
    then show "\<exists>block. PF ?c sh0 q w = Inr block \<and> right_block c A q w block"
      using pf [of ?c q w "AI ?c" "CI sh0 q" "map_option (\<lambda>f. f (AI ?c) (CI sh0 q) (constructor_info prm)) (chunk_init_fn prm)"]
        q(1,3,4) Q c plain_counts(1) [OF c(2)]
      by (simp add: PF_def prm_def right_block_def plain_map_data)
  qed simp_all
  then obtain x s' where r: "compress_chunks api ?cp PF (\<lambda>sh0 nchunk. ci_shape (CI sh0 nchunk)) (c_nchunks (catarr c)) (c, fresh_slots) =
      Inr (map_data (\<lambda>_. x) c, s')" "stores api (map_data (\<lambda>_. x) c) A" by blast
  have "iarray_constructor_element api fresh zfp_code cparams_defaults cfg caterva_empty d params st = Inr (map_data (\<lambda>_. x) c)"
    unfolding iarray_constructor_element_def iarray_constructor_block_def iarray_empty_def c(1) res_bind_simps Let_def
      n(1) n_def [symmetric] prm_def [symmetric] CI_def [symmetric] r(1) [unfolded PF_def AI_def] by simp
  then show ?thesis using r(2) c by (simp add: plain_map_data)
qed

text \<open>
  A constructor that computes each item from its index and its number in the array succeeds, and in the result every
  item is the value for its own index: chunks, blocks and the padding at their ends do not matter, and nothing is
  left of what the buffers held before.
\<close>

lemma constructor_element_values:
  assumes "caterva_create_spec caterva_empty" "schunk_spec (get_lazychunk api) (update_chunk api) caterva_empty"
    and "\<And>ts bs. blosc_exact api (iarray_create_blosc_cparams zfp_code cparams_defaults cfg ts bs)"
    and "good_request d st"
    and f: "\<And>ai ci bi ii cc cb. dtshape (ai_container ai) = d\<lparr>dtype_size := itemsize_of (dtype d)\<rparr> \<Longrightarrow>
      item_fn params ai ci bi ii (constructor_info params) cc cb = Inr (G (take (ndim d) (ii_index ii)) (ii_index_flat ii))"
  shows "\<exists>b. iarray_constructor_element api fresh zfp_code cparams_defaults cfg caterva_empty d params st = Inr b \<and>
    plain_container b \<and> dtshape b = d\<lparr>dtype_size := itemsize_of (dtype d)\<rparr> \<and> storage b = st \<and>
    stores api b (\<lambda>ix. G ix (flat (take (ndim d) (shape d)) ix))"
proof (rule constructor_element_blocks [OF assms(1-4)])
  fix c :: "'a container" and ai ci cc and q w :: int
  assume c: "plain_container c" "dtshape c = d\<lparr>dtype_size := itemsize_of (dtype d)\<rparr>" "0 \<le> q" "q < block_count (ns_of c) (cs_of c)"
    "0 \<le> w" "w < block_count (cs_of c) (bs_of c)" "told c ai ci q"
  have "ai_container ai = c" using c(7) by (simp add: told_def Let_def)
  moreover have "ns_of c = take (ndim d) (shape d)" "ndim (dtshape c) = ndim d" using c(2) by (simp_all add: ns_of_def)
  ultimately show "\<exists>block. iarray_constructor_prefilter (element_block_params params) ai ci cc (map (fresh q w) [0..<nat (prod_list (bs_of c))]) w = Inr block \<and>
    right_block c (\<lambda>ix. G ix (flat (take (ndim d) (shape d)) ix)) q w block"
    using prefilter_values [OF c(1) refl c(3-7), where G = G and cc = cc and out = "map (fresh q w) [0..<nat (prod_list (bs_of c))]"
        and params = "element_block_params params"] f c(2)
    by simp
qed

section \<open>Sequences\<close>

text \<open>
  Claim C6. \<open>iarray_arange\<close>, \<open>iarray_linspace\<close> and \<open>iarray_logspace\<close> of numbers: the item with the number \<open>k\<close> in
  row-major order is \<open>start + k * step\<close>, for \<open>linspace\<close> and in the exponent of \<open>logspace\<close> with the step
  \<open>(stop - start) / (n - 1)\<close>, all in double precision, converted to the type of the array.
\<close>

theorem sequences_correct:
  assumes "caterva_create_spec caterva_empty" "schunk_spec (get_lazychunk api) (update_chunk api) caterva_empty"
    and "\<And>ts bs. blosc_exact api (iarray_create_blosc_cparams zfp_code cparams_defaults cfg ts bs)"
    and "good_request d st" "dtype d \<noteq> IARRAY_DATA_TYPE_BOOL"
    and "K = (\<lambda>ix. dbl (of_int (flat (take (ndim d) (shape d)) ix)))"
    and "h = fp_div (fp_add stop (fp_neg start)) (fp_add (dbl (of_int (prod_list (take (ndim d) (shape d))))) (Fin (- 1)))"
  shows "(\<exists>b. iarray_arange api fresh zfp_code cparams_defaults cfg caterva_empty oor d start step st = Inr b \<and>
      plain_container b \<and> stores api b (\<lambda>ix. converted oor (dtype d) (fp_add start (fp_mul (K ix) step)))) \<and>
    (\<exists>b. iarray_linspace api fresh zfp_code cparams_defaults cfg caterva_empty oor d start stop st = Inr b \<and>
      plain_container b \<and> stores api b (\<lambda>ix. converted oor (dtype d) (fp_add (fp_mul (K ix) h) start))) \<and>
    (\<exists>b. iarray_logspace pow api fresh zfp_code cparams_defaults cfg caterva_empty oor d base start stop st = Inr b \<and>
      plain_container b \<and> stores api b (\<lambda>ix. converted oor (dtype d) (pow base (fp_add (fp_mul (K ix) h) start))))"
proof -
  have d: "dtype d \<noteq> IARRAY_DATA_TYPE_MAX" "ndim d \<le> length (shape d)" using assms(4) by (simp_all add: good_request_def)
  have n: "fold (\<lambda>i n. n * shape d ! i) [0..<ndim d] 1 = prod_list (take (ndim d) (shape d))"
    using d(2) by (simp add: fold_mult_map map_nth_take)
  note run = constructor_element_values [OF assms(1-4)]
  have "\<exists>b. iarray_arange api fresh zfp_code cparams_defaults cfg caterva_empty oor d start step st = Inr b \<and>
      plain_container b \<and> stores api b (\<lambda>ix. converted oor (dtype d) (fp_add start (fp_mul (K ix) step)))"
    using run [where params = "element_params \<lparr> range_start = start, range_step = step \<rparr> (iarray_constructor_arange_fn oor)"
        and fresh = fresh and G = "\<lambda>_ k. converted oor (dtype d) (fp_add start (fp_mul (dbl (of_int k)) step))"] d assms(5)
    by (auto simp: iarray_arange_def element_params_def iarray_constructor_arange_fn_def store_double_def assms(6))
  moreover have "\<exists>b. iarray_linspace api fresh zfp_code cparams_defaults cfg caterva_empty oor d start stop st = Inr b \<and>
      plain_container b \<and> stores api b (\<lambda>ix. converted oor (dtype d) (fp_add (fp_mul (K ix) h) start))"
    using run [where params = "element_params (linspace_info d start stop) (iarray_constructor_linspace_fn oor)"
        and fresh = fresh and G = "\<lambda>_ k. converted oor (dtype d) (fp_add (fp_mul (dbl (of_int k)) h) start)"] d assms(5)
    by (auto simp: iarray_linspace_def element_params_def iarray_constructor_linspace_fn_def linspace_info_def n assms(6,7) store_double_def)
  moreover have "\<exists>b. iarray_logspace pow api fresh zfp_code cparams_defaults cfg caterva_empty oor d base start stop st = Inr b \<and>
      plain_container b \<and> stores api b (\<lambda>ix. converted oor (dtype d) (pow base (fp_add (fp_mul (K ix) h) start)))"
    using run [where params = "element_params (linspace_info d start stop, base) (iarray_constructor_logspace_fn pow oor)"
        and fresh = fresh and G = "\<lambda>_ k. converted oor (dtype d) (pow base (fp_add (fp_mul (dbl (of_int k)) h) start))"] d assms(5)
    by (auto simp: iarray_logspace_def element_params_def iarray_constructor_logspace_fn_def linspace_info_def n assms(6,7) store_double_def)
  ultimately show ?thesis by blast
qed

text \<open>
  Claim C30. \<open>iarray_linspace\<close> for an array of one item divides by zero: whatever finite start and stop are given, the
  one item of the result is not a number, where the start would be expected.
\<close>

theorem linspace_one_item:
  assumes "caterva_create_spec caterva_empty" "schunk_spec (get_lazychunk api) (update_chunk api) caterva_empty"
    and "\<And>ts bs. blosc_exact api (iarray_create_blosc_cparams zfp_code cparams_defaults cfg ts bs)"
    and "good_request d st" "dtype d = IARRAY_DATA_TYPE_DOUBLE" "prod_list (take (ndim d) (shape d)) = 1"
  shows "\<exists>b. iarray_linspace api fresh zfp_code cparams_defaults cfg caterva_empty oor d (Fin a) (Fin z) st = Inr b \<and>
    plain_container b \<and> stores api b (\<lambda>_. VFp NaN)"
proof -
  have d: "dtype d \<noteq> IARRAY_DATA_TYPE_MAX" "ndim d \<le> length (shape d)" "nested (take (ndim d) (shape d)) (take (ndim d) (chunkshape st)) (take (ndim d) (blockshape st))"
    using assms(4) by (simp_all add: good_request_def)
  have n: "fold (\<lambda>i n. n * shape d ! i) [0..<ndim d] 1 = 1"
    using d(2) assms(6) by (simp add: fold_mult_map map_nth_take)
  have step: "range_step (linspace_info d (Fin a) (Fin z)) \<in> {NaN, Inf True, Inf False}"
  proof -
    have "fp_add (dbl (of_int 1)) (Fin (- 1)) = Fin 0" by code_simp
    then show ?thesis by (simp add: linspace_info_def n)
  qed
  have "dbl (of_int 0) = Fin 0" by code_simp
  then have NaN: "fp_add (fp_mul (dbl (of_int 0)) (range_step (linspace_info d (Fin a) (Fin z)))) (Fin a) = NaN"
    using step by auto
  obtain b where b: "iarray_linspace api fresh zfp_code cparams_defaults cfg caterva_empty oor d (Fin a) (Fin z) st = Inr b"
    "plain_container b" "dtshape b = d\<lparr>dtype_size := itemsize_of (dtype d)\<rparr>"
    "stores api b (\<lambda>ix. converted oor (dtype d) (fp_add (fp_mul (dbl (of_int (flat (take (ndim d) (shape d)) ix)))
      (range_step (linspace_info d (Fin a) (Fin z)))) (Fin a)))"
    using constructor_element_values [OF assms(1-4),
        where params = "element_params (linspace_info d (Fin a) (Fin z)) (iarray_constructor_linspace_fn oor)"
        and fresh = fresh and G = "\<lambda>_ k. converted oor (dtype d) (fp_add (fp_mul (dbl (of_int k)) (range_step (linspace_info d (Fin a) (Fin z)))) (Fin a))"]
      d assms(5)
    by (auto simp: iarray_linspace_def element_params_def iarray_constructor_linspace_fn_def store_double_def linspace_info_def)
  have "stores api b (\<lambda>_. VFp NaN)"
  proof (rule stores_cong [OF b(2,4)])
    fix ix assume ix: "in_box (ns_of b) ix"
    have "ns_of b = take (ndim d) (shape d)" using b(3) by (simp add: ns_of_def)
    then have "flat (take (ndim d) (shape d)) ix = 0" using flat_bounds [OF ix] assms(6) by simp
    then show "converted oor (dtype d) (fp_add (fp_mul (dbl (of_int (flat (take (ndim d) (shape d)) ix)))
      (range_step (linspace_info d (Fin a) (Fin z)))) (Fin a)) = VFp NaN"
      unfolding assms(5) by (simp only: NaN) (simp add: converted_def cast_item_def)
  qed
  then show ?thesis using b by blast
qed

section \<open>Matrices\<close>

definition number :: "iarray_data_type \<Rightarrow> int \<Rightarrow> ina_val" where
  "number d k = (if d = IARRAY_DATA_TYPE_DOUBLE \<or> d = IARRAY_DATA_TYPE_FLOAT then VFp (Fin (of_int k)) else VInt k)"

lemma converted_unit:
  assumes "d \<noteq> IARRAY_DATA_TYPE_MAX" "d \<noteq> IARRAY_DATA_TYPE_BOOL"
  shows "converted oor d (Fin 0) = number d 0" "converted oor d (Fin 1) = number d 1"
proof -
  have r: "to_float 1 = 1" "to_double 1 = 1" by code_simp+
  show "converted oor d (Fin 0) = number d 0" "converted oor d (Fin 1) = number d 1" using assms
    by (cases d; simp add: converted_def number_def cast_item_def fp_round_def to_float_def to_double_def r [unfolded to_float_def to_double_def]
        int_in_range_def trunc_rat_def is_signed_dtype_def is_unsigned_dtype_def)+
qed

text \<open>
  Claim C8. \<open>iarray_eye\<close> and \<open>iarray_tri\<close> demand two dimensions; for numbers they give the matrix with 1 on the
  diagonal, and the one with 1 wherever the column is at most the row plus \<open>k\<close>, and 0 elsewhere.
\<close>

theorem eye_tri_correct:
  assumes "caterva_create_spec caterva_empty" "schunk_spec (get_lazychunk api) (update_chunk api) caterva_empty"
    and "\<And>ts bs. blosc_exact api (iarray_create_blosc_cparams zfp_code cparams_defaults cfg ts bs)"
    and "good_request d st" "dtype d \<noteq> IARRAY_DATA_TYPE_BOOL" "ndim d = 2"
  shows "(\<exists>b. iarray_eye api fresh zfp_code cparams_defaults cfg caterva_empty oor d st = Inr b \<and> plain_container b \<and>
      stores api b (\<lambda>ix. if ix ! 0 = ix ! 1 then number (dtype d) 1 else number (dtype d) 0)) \<and>
    (\<exists>b. iarray_tri api fresh zfp_code cparams_defaults cfg caterva_empty oor d k st = Inr b \<and> plain_container b \<and>
      stores api b (\<lambda>ix. if ix ! 1 \<le> ix ! 0 + k then number (dtype d) 1 else number (dtype d) 0))"
proof -
  have d: "dtype d \<noteq> IARRAY_DATA_TYPE_MAX" using assms(4) by (simp add: good_request_def)
  have cv: "converted oor (dtype d) (if P then Fin 1 else Fin 0) = (if P then number (dtype d) 1 else number (dtype d) 0)" for P
    using converted_unit [OF d assms(5)] by simp
  note run = constructor_element_values [OF assms(1-4)]
  have "\<exists>b. iarray_eye api fresh zfp_code cparams_defaults cfg caterva_empty oor d st = Inr b \<and> plain_container b \<and>
      stores api b (\<lambda>ix. if ix ! 0 = ix ! 1 then number (dtype d) 1 else number (dtype d) 0)"
    using run [where params = "element_params () (iarray_constructor_eye_fn oor)"
        and fresh = fresh and G = "\<lambda>ix _. if ix ! 0 = ix ! 1 then number (dtype d) 1 else number (dtype d) 0"] d assms(5,6)
    by (auto simp: iarray_eye_def element_params_def iarray_constructor_eye_fn_def store_double_def cv)
  moreover have "\<exists>b. iarray_tri api fresh zfp_code cparams_defaults cfg caterva_empty oor d k st = Inr b \<and> plain_container b \<and>
      stores api b (\<lambda>ix. if ix ! 1 \<le> ix ! 0 + k then number (dtype d) 1 else number (dtype d) 0)"
    using run [where params = "element_params k (iarray_constructor_tri_fn oor)"
        and fresh = fresh and G = "\<lambda>ix _. if ix ! 1 \<le> ix ! 0 + k then number (dtype d) 1 else number (dtype d) 0"] d assms(5,6)
    by (auto simp: iarray_tri_def element_params_def iarray_constructor_tri_fn_def store_double_def cv)
  ultimately show ?thesis ..
qed

text \<open>
  Claim C29. For booleans \<open>iarray_eye\<close> cannot compute an item, but reports success: if the buffers of the compressor
  happen to hold the value \<open>v\<close>, the matrix holds \<open>v\<close> everywhere.
\<close>

theorem eye_bool_unwritten:
  assumes "caterva_create_spec caterva_empty" "schunk_spec (get_lazychunk api) (update_chunk api) caterva_empty"
    and "\<And>ts bs. blosc_exact api (iarray_create_blosc_cparams zfp_code cparams_defaults cfg ts bs)"
    and "good_request d st" "dtype d = IARRAY_DATA_TYPE_BOOL" "ndim d = 2"
  shows "\<exists>b. iarray_eye api (\<lambda>_ _ _. v) zfp_code cparams_defaults cfg caterva_empty oor d st = Inr b \<and> plain_container b \<and>
    stores api b (\<lambda>_. v)"
proof -
  have "\<exists>b. iarray_constructor_element api (\<lambda>_ _ _. v) zfp_code cparams_defaults cfg caterva_empty d
      (element_params () (iarray_constructor_eye_fn oor)) st = Inr b \<and>
    plain_container b \<and> dtshape b = d\<lparr>dtype_size := itemsize_of (dtype d)\<rparr> \<and> storage b = st \<and> stores api b (\<lambda>_. v)"
  proof (rule constructor_element_blocks [OF assms(1-4)])
    fix c :: "'a container" and ai ci and cc :: "unit option" and q w :: int
    assume c: "plain_container c" "dtshape c = d\<lparr>dtype_size := itemsize_of (dtype d)\<rparr>" "told c ai ci q"
    let ?prm = "element_block_params (element_params () (iarray_constructor_eye_fn oor))"
    let ?out = "map ((\<lambda>_ _ _. v) q w) [0..<nat (prod_list (bs_of c))]"
    have "iarray_constructor_prefilter ?prm ai ci cc ?out w = Inr ?out"
      using c(2,3) assms(5) by (intro prefilter_unwritten)
        (simp_all add: element_params_def iarray_constructor_eye_fn_def store_double_def told_def Let_def)
    then show "\<exists>block. iarray_constructor_prefilter ?prm ai ci cc ?out w = Inr block \<and> right_block c (\<lambda>_. v) q w block"
      using plain_counts(2) [OF c(1)] by (auto simp: right_block_def)
  qed
  then show ?thesis using assms(6) by (auto simp: iarray_eye_def)
qed

section \<open>Examples\<close>

text \<open>Two rows and three columns in chunks of one row and two columns, and one item.\<close>

definition table_dtshape :: "iarray_data_type \<Rightarrow> iarray_dtshape" where
  "table_dtshape d = \<lparr> dtype = d, dtype_size = 0, ndim = 2, shape = [2, 3, 0, 0, 0, 0, 0, 0] \<rparr>"

definition table_storage :: iarray_storage where
  "table_storage = \<lparr> urlpath = None, contiguous = True, chunkshape = [1, 2, 0, 0, 0, 0, 0, 0], blockshape = [1, 1, 0, 0, 0, 0, 0, 0] \<rparr>"

definition one_dtshape :: iarray_dtshape where
  "one_dtshape = \<lparr> dtype = IARRAY_DATA_TYPE_DOUBLE, dtype_size = 0, ndim = 1, shape = [1, 0, 0, 0, 0, 0, 0, 0] \<rparr>"

lemma example_requests:
  "d \<noteq> IARRAY_DATA_TYPE_MAX \<Longrightarrow> good_request (table_dtshape d) table_storage" "good_request one_dtshape table_storage"
  by (simp_all add: good_request_def nested_def table_dtshape_def table_storage_def one_dtshape_def less_2_cases_iff nth_Cons')

lemma table_dtshape_fields [simp]: "dtype (table_dtshape d) = d" "take 2 (shape (table_dtshape d)) = [2, 3]"
  "ndim (table_dtshape d) = 2"
  by (simp_all add: table_dtshape_def)

theorem sequences_correct_witness:
  "(\<exists>b. iarray_arange plain_api (\<lambda>_ _ _. VInt 9) (\<lambda>_. 33) blosc2_cparams_example IARRAY_CONFIG_DEFAULTS plain_create
      (\<lambda>_ _. VInt 0) (table_dtshape IARRAY_DATA_TYPE_INT32) (Fin 10) (Fin (1 / 2)) table_storage = Inr b \<and>
    stores plain_api b (\<lambda>ix. converted (\<lambda>_ _. VInt 0) IARRAY_DATA_TYPE_INT32
      (fp_add (Fin 10) (fp_mul (dbl (of_int (flat [2, 3] ix))) (Fin (1 / 2)))))) \<and>
   converted (\<lambda>_ _. VInt 0) IARRAY_DATA_TYPE_INT32 (fp_add (Fin 10) (fp_mul (dbl (of_int (flat [2, 3] [1, 2]))) (Fin (1 / 2)))) = VInt 12"
proof -
  have "converted (\<lambda>_ _. VInt 0) IARRAY_DATA_TYPE_INT32 (fp_add (Fin 10) (fp_mul (dbl (of_int (flat [2, 3] [1, 2]))) (Fin (1 / 2)))) = VInt 12"
    by code_simp
  moreover have "dtype (table_dtshape IARRAY_DATA_TYPE_INT32) \<noteq> IARRAY_DATA_TYPE_BOOL" by simp
  note sequences_correct [where fresh = "\<lambda>_ _ _. VInt 9" and zfp_code = "\<lambda>_. 33" and cparams_defaults = blosc2_cparams_example
        and cfg = IARRAY_CONFIG_DEFAULTS and oor = "\<lambda>_ _. VInt 0" and start = "Fin 10" and step = "Fin (1 / 2)",
      OF plain_create_specs plain_exact example_requests(1) this refl refl, THEN conjunct1]
  ultimately show ?thesis by (simp add: conj_assoc) blast
qed

theorem linspace_one_item_witness:
  "\<exists>b. iarray_linspace plain_api (\<lambda>_ _ _. VInt 9) (\<lambda>_. 33) blosc2_cparams_example IARRAY_CONFIG_DEFAULTS plain_create
      (\<lambda>_ _. VInt 0) one_dtshape (Fin 5) (Fin 6) table_storage = Inr b \<and> stores plain_api b (\<lambda>_. VFp NaN)"
  using linspace_one_item [OF plain_create_specs plain_exact example_requests(2),
      where fresh = "\<lambda>_ _ _. VInt 9" and zfp_code = "\<lambda>_. 33" and cparams_defaults = blosc2_cparams_example
        and cfg = IARRAY_CONFIG_DEFAULTS and oor = "\<lambda>_ _. VInt 0" and a = 5 and z = 6]
  by (auto simp: one_dtshape_def)

theorem eye_tri_correct_witness:
  "\<exists>b. iarray_tri plain_api (\<lambda>_ _ _. VInt 9) (\<lambda>_. 33) blosc2_cparams_example IARRAY_CONFIG_DEFAULTS plain_create
      (\<lambda>_ _. VInt 0) (table_dtshape IARRAY_DATA_TYPE_UINT8) (- 1) table_storage = Inr b \<and>
    stores plain_api b (\<lambda>ix. if ix ! 1 \<le> ix ! 0 - 1 then VInt 1 else VInt 0)"
  using eye_tri_correct [OF plain_create_specs plain_exact example_requests(1),
      of IARRAY_DATA_TYPE_UINT8 "\<lambda>_ _ _. VInt 9" "\<lambda>_. 33" blosc2_cparams_example IARRAY_CONFIG_DEFAULTS "\<lambda>_ _. VInt 0" "- 1"]
  by (auto simp: number_def cong: if_cong)

theorem eye_bool_unwritten_witness:
  "\<exists>b. iarray_eye plain_api (\<lambda>_ _ _. VInt 170) (\<lambda>_. 33) blosc2_cparams_example IARRAY_CONFIG_DEFAULTS plain_create
      (\<lambda>_ _. VInt 0) (table_dtshape IARRAY_DATA_TYPE_BOOL) table_storage = Inr b \<and> stores plain_api b (\<lambda>_. VInt 170)"
  using eye_bool_unwritten [OF plain_create_specs plain_exact example_requests(1),
      of IARRAY_DATA_TYPE_BOOL "VInt 170" "\<lambda>_. 33" blosc2_cparams_example IARRAY_CONFIG_DEFAULTS "\<lambda>_ _. VInt 0"]
  by auto

end
