(* ===== verification/Zproxy.thy ===== *)
theory Zproxy
  imports Compressor
begin

text \<open>
  Arrays whose data lies in a remote zarr array (\<^verbatim>\<open>src/iarray_zproxy.c\<close>): reading a block calls a user-defined
  function for the slice that the block covers and pads what it returns to the shape of the block. Shown is that a
  block holds the remote items at its places and zeros in its padding.
\<close>

record zproxy_postparams_udata =
  zp_urlpath :: string
  zp_shape :: "int list"
  zp_extshape :: "int list"
  zp_chunkshape :: "int list"
  zp_extchunkshape :: "int list"
  zp_blockshape :: "int list"
  zp_ndim :: nat

text \<open>\<open>iarray_add_zproxy_postfilter\<close>: what is stored with the array for the postfilter.\<close>

definition iarray_add_zproxy_postfilter :: "'d container \<Rightarrow> string \<Rightarrow> zproxy_postparams_udata" where
  "iarray_add_zproxy_postfilter src url =
     (let cat = catarr src; n = c_ndim cat
      in \<lparr> zp_urlpath = url, zp_shape = set_prefix n (\<lambda>i. c_shape cat ! i) fresh_slots,
           zp_extshape = set_prefix n (\<lambda>i. c_extshape cat ! i) fresh_slots,
           zp_chunkshape = set_prefix n (\<lambda>i. c_chunkshape cat ! i) fresh_slots,
           zp_extchunkshape = set_prefix n (\<lambda>i. c_extchunkshape cat ! i) fresh_slots,
           zp_blockshape = set_prefix n (\<lambda>i. c_blockshape cat ! i) fresh_slots, zp_ndim = n \<rparr>)"

text \<open>
  \<open>zproxy_postfilter\<close>. The functions outside of the library are arguments: \<open>zhandler\<close> is the user's reader (it gets
  the buffer and gives its contents afterwards), \<open>to_multidim\<close> is \<open>blosc2_unidim_to_multidim\<close>, \<open>copy_buffer\<close> is
  \<open>caterva_copy_buffer\<close>; \<open>zero\<close> is the item whose bytes are 0.
\<close>

definition zproxy_postfilter ::
    "(string \<Rightarrow> int list \<Rightarrow> int list \<Rightarrow> ina_val list \<Rightarrow> ina_val list) \<Rightarrow> (nat \<Rightarrow> int list \<Rightarrow> int \<Rightarrow> int list) \<Rightarrow>
     (nat \<Rightarrow> ina_val list \<Rightarrow> int list \<Rightarrow> int list \<Rightarrow> int list \<Rightarrow> ina_val list \<Rightarrow> int list \<Rightarrow> int list \<Rightarrow> ina_val list) \<Rightarrow> ina_val \<Rightarrow>
     zproxy_postparams_udata \<Rightarrow> ina_val list \<Rightarrow> int \<Rightarrow> int \<Rightarrow> ina_val list" where
  "zproxy_postfilter zhandler to_multidim copy_buffer zero u out nchunk nblock =
     (let n = zp_ndim u;
          chunks_in_array = set_prefix n (\<lambda>i. cdiv (zp_extshape u ! i) (zp_chunkshape u ! i)) fresh_slots;
          blocks_in_chunk = set_prefix n (\<lambda>i. cdiv (zp_extchunkshape u ! i) (zp_blockshape u ! i)) fresh_slots;
          nchunk_ndim = to_multidim n chunks_in_array nchunk;
          nblock_ndim = to_multidim n blocks_in_chunk nblock;
          start = set_prefix n (\<lambda>i. nchunk_ndim ! i * zp_chunkshape u ! i + nblock_ndim ! i * zp_blockshape u ! i) fresh_slots;
          stop = set_prefix n (\<lambda>i.
            let s = nchunk_ndim ! i * zp_chunkshape u ! i + (nblock_ndim ! i + 1) * zp_blockshape u ! i;
                s = (if nblock_ndim ! i = blocks_in_chunk ! i - 1 then s - (zp_extchunkshape u ! i - zp_chunkshape u ! i) else s)
            in if s > zp_shape u ! i then zp_shape u ! i else s) fresh_slots;
          slice_shape = set_prefix n (\<lambda>i. stop ! i - start ! i) fresh_slots;
          size = fold (\<lambda>i s. s * slice_shape ! i) [0..<n] 1
      in if list_ex (\<lambda>i. start ! i \<ge> zp_shape u ! i) [0..<n] then out
         else
           let aux = take (nat size) (zhandler (zp_urlpath u) start stop out);
               slice_start = replicate IARRAY_DIMENSION_MAX 0
           in copy_buffer n aux slice_shape slice_start slice_shape (replicate (length out) zero) (zp_blockshape u) slice_start)"

section \<open>The functions outside of the library\<close>

text \<open>
  The reader puts the items of the slice, in row-major order, at the beginning of the buffer. The decoder of c-blosc2
  is the row-major one. \<open>caterva_copy_buffer\<close> copies a region of a buffer of one shape to a place in one of another
  shape and leaves the rest.
\<close>

definition zhandler_spec :: "(string \<Rightarrow> int list \<Rightarrow> int list \<Rightarrow> ina_val list \<Rightarrow> ina_val list) \<Rightarrow> string \<Rightarrow> nat \<Rightarrow> (int list \<Rightarrow> ina_val) \<Rightarrow> bool" where
  "zhandler_spec zh url n Z \<longleftrightarrow> (\<forall>start stop out. let s = map2 (-) (take n stop) (take n start) in
     length s = n \<longrightarrow> all_pos s \<longrightarrow> prod_list s \<le> int (length out) \<longrightarrow>
     take (nat (prod_list s)) (zh url start stop out) = map Z (region_items (take n start, s)))"

definition to_multidim_spec :: "(nat \<Rightarrow> int list \<Rightarrow> int \<Rightarrow> int list) \<Rightarrow> bool" where
  "to_multidim_spec f \<longleftrightarrow> (\<forall>n ns k. n \<le> length ns \<longrightarrow> all_pos (take n ns) \<longrightarrow> 0 \<le> k \<longrightarrow> take n (f n ns k) = unflat (take n ns) k)"

definition copy_buffer_spec ::
    "(nat \<Rightarrow> ina_val list \<Rightarrow> int list \<Rightarrow> int list \<Rightarrow> int list \<Rightarrow> ina_val list \<Rightarrow> int list \<Rightarrow> int list \<Rightarrow> ina_val list) \<Rightarrow> bool" where
  "copy_buffer_spec cb \<longleftrightarrow> (\<forall>n src src_shape src_start src_stop dst dst_shape dst_start.
     let e = map2 (-) (take n src_stop) (take n src_start); res = cb n src src_shape src_start src_stop dst dst_shape dst_start;
         to = (\<lambda>ix. nat (flat (take n dst_shape) (map2 (+) (take n dst_start) ix)));
         from = (\<lambda>ix. nat (flat (take n src_shape) (map2 (+) (take n src_start) ix)))
     in length e = n \<longrightarrow> all_pos e \<longrightarrow> n \<le> length src_shape \<longrightarrow> n \<le> length dst_shape \<longrightarrow> n \<le> length dst_start \<longrightarrow>
        (\<forall>i < n. 0 \<le> src_start ! i \<and> src_stop ! i \<le> src_shape ! i \<and> 0 \<le> dst_start ! i \<and> dst_start ! i + e ! i \<le> dst_shape ! i) \<longrightarrow>
        int (length src) = prod_list (take n src_shape) \<longrightarrow> int (length dst) = prod_list (take n dst_shape) \<longrightarrow>
        length res = length dst \<and> (\<forall>ix. in_box e ix \<longrightarrow> res ! to ix = src ! from ix) \<and>
        (\<forall>j < length dst. (\<forall>ix. in_box e ix \<longrightarrow> j \<noteq> to ix) \<longrightarrow> res ! j = dst ! j))"

section \<open>A block\<close>

text \<open>
  Claim C15. Reading a block of a remote array: each place of the block that belongs to the array holds the remote item
  with that index; the other places are 0, unless the whole block lies outside of the array, when it is left alone.
\<close>

theorem zproxy_reads_remote:
  assumes "plain_container c" "0 \<le> q" "q < block_count (ns_of c) (cs_of c)" "0 \<le> w" "w < block_count (cs_of c) (bs_of c)"
    and "zhandler_spec zh url (ndim (dtshape c)) Z" "to_multidim_spec md" "copy_buffer_spec cb"
    and "int (length out) = prod_list (bs_of c)"
    and "block = zproxy_postfilter zh md cb zero (iarray_add_zproxy_postfilter c url) out q w"
  shows "right_block c Z q w block \<and>
    (if \<exists>e. 0 \<le> e \<and> e < prod_list (bs_of c) \<and> live (ns_of c) (cs_of c) (bs_of c) q w e
     then \<forall>e. 0 \<le> e \<longrightarrow> e < prod_list (bs_of c) \<longrightarrow> \<not> live (ns_of c) (cs_of c) (bs_of c) q w e \<longrightarrow> block ! nat e = zero
     else block = out)"
proof -
  note l = plain_slots [OF assms(1)] and fd = plain_fields [OF assms(1)] and nst = plain_nested [OF assms(1)]
  let ?ns = "ns_of c" and ?cs = "cs_of c" and ?bs = "bs_of c" and ?u = "iarray_add_zproxy_postfilter c url"
  define n where "n = ndim (dtshape c)"
  have len: "length ?ns = n" "length ?cs = n" "length ?bs = n" "n \<le> 8" using l n_def by simp_all
  note gd = nested_good [OF nst] and lc = live_cropped [OF nst assms(4,5)]
  have pos: "all_pos (blocks_of ?cs ?bs)" "all_pos (blocks_of ?ns ?cs)" "all_pos ?bs" "all_pos ?cs"
    using gd good_blocks_of nested_pos [OF nst] by (auto simp: good_shape_def)
  have u: "zp_ndim ?u = n" "zp_urlpath ?u = url" "length (zp_blockshape ?u) = 8"
    using l(1) n_def by (simp_all add: iarray_add_zproxy_postfilter_def Let_def)
  have uf: "zp_shape ?u ! i = ?ns ! i" "zp_chunkshape ?u ! i = ?cs ! i" "zp_blockshape ?u ! i = ?bs ! i"
    "zp_extshape ?u ! i = ceil_blocks (?ns ! i) (?cs ! i) * ?cs ! i" "zp_extchunkshape ?u ! i = ceil_blocks (?cs ! i) (?bs ! i) * ?bs ! i"
    if "i < n" for i
    using that l(1) fd [of i] len by (simp_all add: iarray_add_zproxy_postfilter_def Let_def set_prefix_nth n_def)
  have fp: "0 < ?ns ! i" "0 < ?cs ! i" "0 < ?bs ! i" if "i < n" for i using that fd(7-9) [of i] n_def by simp_all
  define cia where "cia = set_prefix n (\<lambda>i. cdiv (zp_extshape ?u ! i) (zp_chunkshape ?u ! i)) fresh_slots"
  define bic where "bic = set_prefix n (\<lambda>i. cdiv (zp_extchunkshape ?u ! i) (zp_blockshape ?u ! i)) fresh_slots"
  have g: "take n cia = blocks_of ?ns ?cs" "take n bic = blocks_of ?cs ?bs"
  proof -
    have d: "cdiv (a * b) b = a" if "0 \<le> a" "0 < b" for a b using that by (simp add: c_arith)
    have p: "0 \<le> ceil_blocks (?ns ! i) (?cs ! i)" "0 \<le> ceil_blocks (?cs ! i) (?bs ! i)" if "i < n" for i
      using fp [OF that] by (simp_all add: ceil_blocks_nonneg)
    show "take n cia = blocks_of ?ns ?cs" "take n bic = blocks_of ?cs ?bs"
      using len uf fp p by (intro nth_equalityI; simp add: cia_def bic_def set_prefix_nth blocks_of_nth d)+
  qed
  have dig: "md n cia q ! i = unflat (blocks_of ?ns ?cs) q ! i" "md n bic w ! i = unflat (blocks_of ?cs ?bs) w ! i" if "i < n" for i
    using that assms(2,4,7) g pos len take_eq_nth [of n "md n cia q"] take_eq_nth [of n "md n bic w"]
    by (simp_all add: to_multidim_spec_def cia_def bic_def)
  define start where "start = set_prefix n (\<lambda>i. md n cia q ! i * zp_chunkshape ?u ! i + md n bic w ! i * zp_blockshape ?u ! i) fresh_slots"
  define stop where "stop = set_prefix n (\<lambda>i.
            let s = md n cia q ! i * zp_chunkshape ?u ! i + (md n bic w ! i + 1) * zp_blockshape ?u ! i;
                s = (if md n bic w ! i = bic ! i - 1 then s - (zp_extchunkshape ?u ! i - zp_chunkshape ?u ! i) else s)
            in if s > zp_shape ?u ! i then zp_shape ?u ! i else s) fresh_slots"
  define sh where "sh = set_prefix n (\<lambda>i. stop ! i - start ! i) fresh_slots"
  have start: "start ! i = block_start ?ns ?cs q ! i + block_start ?cs ?bs w ! i" if "i < n" for i
    using that len dig uf by (simp add: start_def set_prefix_nth block_start_nth)
  have crop: "cropped ?ns ?cs ?bs q w ! i = min (?bs ! i) (min (?cs ! i) (?ns ! i - block_start ?ns ?cs q ! i) - block_start ?cs ?bs w ! i)"
    if "i < n" for i
    using that len by (simp add: cropped_def block_extent_nth)
  have sh: "sh ! i = cropped ?ns ?cs ?bs q w ! i" if i: "i < n" for i
  proof -
    let ?d = "unflat (blocks_of ?cs ?bs) w ! i" and ?m = "ceil_blocks (?cs ! i) (?bs ! i)"
    have d: "0 \<le> ?d" "?d < ?m"
      using unflat_in_box [OF pos(1) assms(4)] assms(5) i len by (auto simp: in_box_nth block_count_def blocks_of_nth)
    have bi: "bic ! i = ?m" using take_eq_nth [OF g(2) i] i len by (simp add: blocks_of_nth)
    have "min (?bs ! i) (?cs ! i - ?d * ?bs ! i) = (if ?d = ?m - 1 then ?cs ! i - ?d * ?bs ! i else ?bs ! i)"
    proof (cases "?d = ?m - 1")
      case True
      then have "?cs ! i \<le> (?d + 1) * ?bs ! i" using ceil_blocks_mult_ge(1) [of "?cs ! i" "?bs ! i"] fp(2,3) [OF i] by simp
      then show ?thesis using True by (simp add: left_diff_distrib)
    next
      case False
      then have "(?d + 1) * ?bs ! i \<le> (?m - 1) * ?bs ! i" using d fp(3) [OF i] by (intro mult_right_mono) simp_all
      moreover have "(?m - 1) * ?bs ! i < ?cs ! i" using block_start_less [of "?m - 1" "?cs ! i" "?bs ! i"] fp(2,3) [OF i] d by simp
      ultimately have "(?d + 1) * ?bs ! i < ?cs ! i" by linarith
      then show ?thesis using False by (simp add: distrib_right)
    qed
    moreover have "sh ! i = min ((if ?d = ?m - 1 then ?cs ! i - ?d * ?bs ! i else ?bs ! i)) (?ns ! i - block_start ?ns ?cs q ! i - ?d * ?bs ! i)"
    proof -
      let ?B = "block_start ?ns ?cs q ! i" and ?s = "block_start ?ns ?cs q ! i + (?d + 1) * ?bs ! i"
      have last: "?s - (?m * ?bs ! i - ?cs ! i) = ?B + ?cs ! i" if "?d = ?m - 1" using that by simp
      have "stop ! i = min (if ?d = ?m - 1 then ?s - (?m * ?bs ! i - ?cs ! i) else ?s) (?ns ! i)"
        using i len dig uf bi by (simp add: stop_def set_prefix_nth block_start_nth Let_def min_def)
      then have "stop ! i = min (if ?d = ?m - 1 then ?B + ?cs ! i else ?s) (?ns ! i)" using last by simp
      moreover have "start ! i = ?B + ?d * ?bs ! i" using start i len by (simp add: block_start_nth)
      moreover have "sh ! i = stop ! i - start ! i" using i len by (simp add: sh_def set_prefix_nth)
      ultimately show ?thesis by (simp add: min_diff_distrib_left distrib_right diff_diff_eq)
    qed
    ultimately have "sh ! i = min (min (?bs ! i) (?cs ! i - ?d * ?bs ! i)) (?ns ! i - block_start ?ns ?cs q ! i - ?d * ?bs ! i)" by simp
    moreover have "cropped ?ns ?cs ?bs q w ! i = min (?bs ! i) (min (?cs ! i) (?ns ! i - block_start ?ns ?cs q ! i) - ?d * ?bs ! i)"
      using crop i len by (simp add: block_start_nth [of ?cs ?bs])
    ultimately show ?thesis by (simp only: min_diff_distrib_left min.assoc)
  qed
  have out: "list_ex (\<lambda>i. start ! i \<ge> zp_shape ?u ! i) [0..<n] \<longleftrightarrow> \<not> all_pos (cropped ?ns ?cs ?bs q w)"
  proof -
    have "start ! i \<ge> zp_shape ?u ! i \<longleftrightarrow> cropped ?ns ?cs ?bs q w ! i \<le> 0" if i: "i < n" for i
    proof -
      let ?d = "unflat (blocks_of ?cs ?bs) w ! i"
      have "0 \<le> ?d" "?d < ceil_blocks (?cs ! i) (?bs ! i)"
        using unflat_in_box [OF pos(1) assms(4)] assms(5) i len by (auto simp: in_box_nth block_count_def blocks_of_nth)
      then have "block_start ?cs ?bs w ! i < ?cs ! i"
        using block_start_less [of ?d "?cs ! i" "?bs ! i"] fp(2,3) [OF i] i len by (simp add: block_start_nth)
      then show ?thesis unfolding start [OF i] uf(1) [OF i] crop [OF i] using fp(3) [OF i] by linarith
    qed
    then show ?thesis using len by (fastforce simp: list_ex_iff all_pos_nth cropped_def not_less)
  qed
  have lenc: "length (cropped ?ns ?cs ?bs q w) = n" using len by (simp add: cropped_def)
  have tsh: "take n sh = cropped ?ns ?cs ?bs q w" using sh lenc len by (intro nth_equalityI) (simp_all add: sh_def)
  have size: "fold (\<lambda>i s. s * sh ! i) [0..<n] 1 = prod_list (cropped ?ns ?cs ?bs q w)"
    using tsh len by (simp add: fold_mult_map map_nth_take sh_def)
  let ?aux = "take (nat (prod_list (cropped ?ns ?cs ?bs q w))) (zh url start stop out)"
  have run: "block = (if all_pos (cropped ?ns ?cs ?bs q w)
      then cb n ?aux sh (replicate 8 0) sh (replicate (length out) zero) (zp_blockshape ?u) (replicate 8 0) else out)"
    unfolding assms(10) zproxy_postfilter_def u(1,2) Let_def cia_def [symmetric] bic_def [symmetric]
    unfolding start_def [symmetric] stop_def [unfolded Let_def, symmetric] sh_def [symmetric] size out IARRAY_DIMENSION_MAX_def
    by simp
  show ?thesis
  proof (cases "all_pos (cropped ?ns ?cs ?bs q w)")
    case False
    moreover have "all_pos ns" if "in_box ns ix" for ns ix
      using that by (induction ns arbitrary: ix) (auto simp: in_box_def list_all2_Cons1)
    ultimately have "\<not> live ?ns ?cs ?bs q w e" if "0 \<le> e" "e < prod_list ?bs" for e
      using lc [OF that] by blast
    then show ?thesis using False run assms(9) by (auto simp: right_block_def)
  next
    case True
    let ?e = "cropped ?ns ?cs ?bs q w"
    have box: "in_box ?bs xs" if "in_box ?e xs" for xs using that len by (auto simp: in_box_nth cropped_def)
    have le: "?e ! i \<le> ?bs ! i" if "i < n" for i using that len by (simp add: cropped_def)
    have bsh: "take n (zp_blockshape ?u) = ?bs" using uf(3) u(3) len by (intro nth_equalityI) simp_all
    have tst: "take n start = map2 (+) (block_start ?ns ?cs q) (block_start ?cs ?bs w)"
      using start len by (intro nth_equalityI) (simp_all add: start_def)
    have diff: "map2 (-) (take n stop) (take n start) = ?e"
      using tsh len by (auto intro!: nth_equalityI simp: sh_def stop_def start_def set_prefix_nth lenc dest: take_eq_nth)
    have "prod_list ?e \<le> prod_list ?bs"
      using le lenc len True by (intro prod_list_mono_int [THEN conjunct2]) (auto simp: list_all2_conv_all_nth all_pos_nth less_imp_le)
    then have aux: "?aux = map Z (region_items (take n start, ?e))"
      using assms(6,9) True lenc diff unfolding zhandler_spec_def Let_def n_def by metis
    have la: "int (length ?aux) = prod_list ?e" using aux all_pos_prod [OF True] by (simp add: region_items_def)
    have e0: "map2 (-) ?e (replicate n 0) = ?e" using lenc by (intro nth_equalityI) simp_all
    have z: "map2 (+) (replicate n 0) ix = ix" if "in_box ?e ix" for ix :: "int list"
      using in_box_length [OF that] lenc by (intro nth_equalityI) simp_all
    have cbs: "length block = length out \<and> (\<forall>ix. in_box ?e ix \<longrightarrow> block ! nat (flat ?bs ix) = ?aux ! nat (flat ?e ix)) \<and>
        (\<forall>j < length out. (\<forall>ix. in_box ?e ix \<longrightarrow> j \<noteq> nat (flat ?bs ix)) \<longrightarrow> block ! j = zero)"
    proof -
      have "length sh = 8" by (simp add: sh_def)
      moreover have "\<forall>i < n. 0 \<le> replicate 8 (0 :: int) ! i \<and> sh ! i \<le> sh ! i \<and> 0 \<le> replicate 8 (0 :: int) ! i \<and>
          replicate 8 0 ! i + ?e ! i \<le> zp_blockshape ?u ! i"
        using le uf(3) len by simp
      ultimately have "length block = length (replicate (length out) zero) \<and>
          (\<forall>ix. in_box ?e ix \<longrightarrow> block ! nat (flat ?bs (map2 (+) (replicate n 0) ix)) = ?aux ! nat (flat ?e (map2 (+) (replicate n 0) ix))) \<and>
          (\<forall>j < length (replicate (length out) zero). (\<forall>ix. in_box ?e ix \<longrightarrow> j \<noteq> nat (flat ?bs (map2 (+) (replicate n 0) ix))) \<longrightarrow>
            block ! j = replicate (length out) zero ! j)"
        using assms(8) [unfolded copy_buffer_spec_def Let_def, THEN spec [of _ n], THEN spec [of _ ?aux], THEN spec [of _ sh],
            THEN spec [of _ "replicate 8 0"], THEN spec [of _ sh], THEN spec [of _ "replicate (length out) zero"],
            THEN spec [of _ "zp_blockshape ?u"], THEN spec [of _ "replicate 8 0"]]
          True run tsh bsh u(3) len lenc e0 la assms(9) by (simp add: min_def)
      then show ?thesis using z by auto
    qed
    have val: "?aux ! nat (flat ?e (unflat ?bs e)) = Z (item_at ?ns ?cs ?bs q w e)" if "in_box ?e (unflat ?bs e)" for e
    proof -
      have k: "0 \<le> flat ?e (unflat ?bs e)" "flat ?e (unflat ?bs e) < prod_list ?e" using flat_bounds [OF that] by simp_all
      then have "?aux ! nat (flat ?e (unflat ?bs e)) = Z (map2 (+) (take n start) (unflat ?e (flat ?e (unflat ?bs e))))"
        unfolding aux by (simp add: region_items_def below_nth)
      also have "map2 (+) (take n start) (unflat ?e (flat ?e (unflat ?bs e))) = item_at ?ns ?cs ?bs q w e"
        unfolding unflat_flat [OF that] tst item_at_def local_item_def using len by (intro nth_equalityI) simp_all
      finally show ?thesis .
    qed
    have same: "flat ?bs (unflat ?bs e) = e" if "0 \<le> e" "e < prod_list ?bs" for e using flat_unflat [OF pos(3) that] .
    have inside: "block ! nat e = Z (item_at ?ns ?cs ?bs q w e)" if "0 \<le> e" "e < prod_list ?bs" "live ?ns ?cs ?bs q w e" for e
      using cbs val lc [OF that(1,2)] that(3) same [OF that(1,2)] by fastforce
    have pad: "block ! nat e = zero" if e: "0 \<le> e" "e < prod_list ?bs" "\<not> live ?ns ?cs ?bs q w e" for e
    proof -
      have "nat e \<noteq> nat (flat ?bs ix)" if ix: "in_box ?e ix" for ix
      proof
        assume "nat e = nat (flat ?bs ix)"
        then have "e = flat ?bs ix" using flat_bounds [OF box [OF ix]] e(1) by (simp add: eq_nat_nat_iff)
        then have "unflat ?bs e = ix" using unflat_flat [OF box [OF ix]] by simp
        then show False using lc [OF e(1,2)] e(3) ix by simp
      qed
      then show ?thesis using cbs e(1,2) assms(9) by (metis nat_less_iff)
    qed
    have "in_box ?e (unflat ?e 0)" using unflat_in_box [OF True] all_pos_prod [OF True] by simp
    then have "live ?ns ?cs ?bs q w (flat ?bs (unflat ?e 0))" "0 \<le> flat ?bs (unflat ?e 0)" "flat ?bs (unflat ?e 0) < prod_list ?bs"
      using lc [of "flat ?bs (unflat ?e 0)"] unflat_flat [OF box] flat_bounds [OF box] by auto
    then show ?thesis using inside pad cbs assms(9) by (auto simp: right_block_def)
  qed
qed

section \<open>An example\<close>

definition read_slice :: "nat \<Rightarrow> (int list \<Rightarrow> ina_val) \<Rightarrow> string \<Rightarrow> int list \<Rightarrow> int list \<Rightarrow> ina_val list \<Rightarrow> ina_val list" where
  "read_slice n Z url start stop out = (let items = map Z (region_items (take n start, map2 (-) (take n stop) (take n start)))
     in items @ drop (length items) out)"

definition copy_box ::
    "nat \<Rightarrow> ina_val list \<Rightarrow> int list \<Rightarrow> int list \<Rightarrow> int list \<Rightarrow> ina_val list \<Rightarrow> int list \<Rightarrow> int list \<Rightarrow> ina_val list" where
  "copy_box n src src_shape src_start src_stop dst dst_shape dst_start =
     (let e = map2 (-) (take n src_stop) (take n src_start)
      in fold (\<lambda>k dst. dst[nat (flat (take n dst_shape) (map2 (+) (take n dst_start) (unflat e k))) :=
             src ! nat (flat (take n src_shape) (map2 (+) (take n src_start) (unflat e k)))]) (below (prod_list e)) dst)"

lemma example_functions: "zhandler_spec (read_slice n Z) url n Z" "to_multidim_spec (\<lambda>n ns k. unflat (take n ns) k)"
  by (auto simp: zhandler_spec_def read_slice_def to_multidim_spec_def Let_def region_items_def dest: all_pos_prod)

lemma copy_box_exact: "copy_buffer_spec copy_box"
  unfolding copy_buffer_spec_def Let_def
proof (intro allI impI)
  fix n and src dst :: "ina_val list" and src_shape src_start src_stop dst_shape dst_start :: "int list"
  define ds where "ds = take n dst_start"
  define ss where "ss = take n src_start"
  define e where "e = map2 (-) (take n src_stop) ss"
  define D where "D = take n dst_shape"
  define S where "S = take n src_shape"
  define to where "to k = nat (flat D (map2 (+) ds (unflat e k)))" for k
  define v where "v k = src ! nat (flat S (map2 (+) ss (unflat e k)))" for k
  assume "length (map2 (-) (take n src_stop) (take n src_start)) = n" "all_pos (map2 (-) (take n src_stop) (take n src_start))"
    and l: "n \<le> length src_shape" "n \<le> length dst_shape" "n \<le> length dst_start"
    and "\<forall>i < n. 0 \<le> src_start ! i \<and> src_stop ! i \<le> src_shape ! i \<and> 0 \<le> dst_start ! i \<and>
        dst_start ! i + map2 (-) (take n src_stop) (take n src_start) ! i \<le> dst_shape ! i"
    and "int (length src) = prod_list (take n src_shape)" "int (length dst) = prod_list (take n dst_shape)"
  then have e: "length e = n" "all_pos e" and b: "\<forall>i < n. 0 \<le> ds ! i \<and> ds ! i + e ! i \<le> D ! i" and ld: "int (length dst) = prod_list D"
    unfolding ss_def [symmetric] e_def [symmetric] by (simp_all add: ds_def D_def)
  have len: "length D = n" "length ds = n" using l by (simp_all add: D_def ds_def)
  have box: "in_box D (map2 (+) ds ix)" if "in_box e ix" for ix
    using that b len e by (fastforce simp: in_box_nth)
  have res: "copy_box n src src_shape src_start src_stop dst dst_shape dst_start = fold (\<lambda>k dst. dst[to k := v k]) (below (prod_list e)) dst"
    unfolding copy_box_def Let_def ss_def [symmetric] e_def [symmetric] to_def v_def ds_def [symmetric] D_def [symmetric] S_def [symmetric] ..
  define h where "h j = src ! nat (flat S (map2 (+) ss (map2 (-) (unflat D (int j)) ds)))" for j :: nat
  have at_box: "to k = nat (flat D (map2 (+) ds ix)) \<and> v k = h (to k) \<and> h (to k) = src ! nat (flat S (map2 (+) ss ix))"
    if k: "0 \<le> k" "k < prod_list e" "ix = unflat e k" for k ix
  proof -
    have ix: "in_box e ix" using unflat_in_box [OF e(2) k(1,2)] k(3) by simp
    have "map2 (-) (unflat D (int (nat (flat D (map2 (+) ds ix))))) ds = map2 (-) (map2 (+) ds ix) ds"
      using unflat_flat [OF box [OF ix]] flat_bounds [OF box [OF ix]] by simp
    also have "\<dots> = ix" using in_box_length [OF ix] e len by (intro nth_equalityI) simp_all
    finally show ?thesis by (simp add: to_def v_def h_def k(3))
  qed
  have all: "fold (\<lambda>k dst. dst[to k := v k]) (below (prod_list e)) dst ! j = (if j \<in> to ` set (below (prod_list e)) then h j else dst ! j)"
    if "j < length dst" for j
    using at_box that by (intro fold_writes) auto
  have "fold (\<lambda>k dst. dst[to k := v k]) (below (prod_list e)) dst ! nat (flat D (map2 (+) ds ix)) = src ! nat (flat S (map2 (+) ss ix))"
    if ix: "in_box e ix" for ix
  proof -
    have k: "0 \<le> flat e ix" "flat e ix < prod_list e" "ix = unflat e (flat e ix)"
      using flat_bounds [OF ix] unflat_flat [OF ix] by simp_all
    note a = at_box [OF k]
    have "nat (flat D (map2 (+) ds ix)) \<in> to ` set (below (prod_list e))"
      using a k by (intro image_eqI [of _ _ "flat e ix"]) simp_all
    moreover have "nat (flat D (map2 (+) ds ix)) < length dst" using flat_bounds [OF box [OF ix]] ld by linarith
    ultimately show ?thesis using all a by metis
  qed
  moreover have "fold (\<lambda>k dst. dst[to k := v k]) (below (prod_list e)) dst ! j = dst ! j"
    if "j < length dst" "\<forall>ix. in_box e ix \<longrightarrow> j \<noteq> nat (flat D (map2 (+) ds ix))" for j
  proof -
    have "j \<noteq> to k" if "0 \<le> k" "k < prod_list e" for k
      using \<open>\<forall>ix. in_box e ix \<longrightarrow> j \<noteq> nat (flat D (map2 (+) ds ix))\<close> unflat_in_box [OF e(2) that] by (simp add: to_def)
    then have "j \<notin> to ` set (below (prod_list e))" by fastforce
    then show ?thesis using all [OF that(1)] by simp
  qed
  ultimately show "length (copy_box n src src_shape src_start src_stop dst dst_shape dst_start) = length dst \<and>
    (\<forall>ix. in_box (map2 (-) (take n src_stop) (take n src_start)) ix \<longrightarrow>
       copy_box n src src_shape src_start src_stop dst dst_shape dst_start !
         nat (flat (take n dst_shape) (map2 (+) (take n dst_start) ix)) =
       src ! nat (flat (take n src_shape) (map2 (+) (take n src_start) ix))) \<and>
    (\<forall>j < length dst. (\<forall>ix. in_box (map2 (-) (take n src_stop) (take n src_start)) ix \<longrightarrow>
         j \<noteq> nat (flat (take n dst_shape) (map2 (+) (take n dst_start) ix))) \<longrightarrow>
       copy_box n src src_shape src_start src_stop dst dst_shape dst_start ! j = dst ! j)"
    unfolding res ss_def [symmetric] e_def [symmetric] ds_def [symmetric] D_def [symmetric] S_def [symmetric] by simp
qed

theorem zproxy_reads_remote_witness:
  "right_block small_matrix small_entry 1 0 (zproxy_postfilter (read_slice 2 small_entry) (\<lambda>n ns k. unflat (take n ns) k) copy_box (VInt 0)
      (iarray_add_zproxy_postfilter small_matrix ''data.zarr'') [VInt 9] 1 0)"
proof -
  have "block_count (ns_of small_matrix) (cs_of small_matrix) = 4" "block_count (cs_of small_matrix) (bs_of small_matrix) = 2"
    "prod_list (bs_of small_matrix) = 1"
    by (simp_all add: small_matrix_parts block_count_def blocks_of_def ceil_blocks_def c_arith)
  then show ?thesis
    using zproxy_reads_remote [OF small_matrix_plain _ _ _ _ example_functions(1,2) copy_box_exact _ refl,
        of 1 0 "[VInt 9]" small_entry "VInt 0" "''data.zarr''"] by (simp add: small_matrix_parts)
qed

end
