(* ===== verification/ReduceOps.thy ===== *)
theory ReduceOps
  imports Views
begin

text \<open>
  The reduction functions (\<^verbatim>\<open>src/reductions/operations/\<close>) and the tables that select them
  (\<open>_iarray_reduce\<close> in \<^verbatim>\<open>iarray_reduce.c\<close>, \<open>_iarray_reduce2\<close> in \<^verbatim>\<open>iarray_reduce_oneshot.c\<close>). A reduction
  initialises a result, takes in items and finishes; the vector variants take in \<open>nelem\<close> items at a
  stride, the one-shot variants one item. The locale \<open>vector_reduction\<close> is their contract: a vector may be
  split anywhere, and the one-shot variant is the vector variant on one item. Signed overflow, undefined in C,
  wraps around here as in the compiled code.
\<close>

section \<open>Arithmetic on items\<close>

definition is_fp :: "iarray_data_type \<Rightarrow> bool" where
  "is_fp d \<longleftrightarrow> d = IARRAY_DATA_TYPE_DOUBLE \<or> d = IARRAY_DATA_TYPE_FLOAT"

fun to_fp :: "iarray_data_type \<Rightarrow> ina_val \<Rightarrow> fp" where
  "to_fp d (VInt n) = Fin (fp_round d (of_int n))"
| "to_fp d (VFp (Fin r)) = Fin (fp_round d r)"
| "to_fp d (VFp x) = x"

fun to_int :: "ina_val \<Rightarrow> int" where
  "to_int (VInt n) = n"
| "to_int (VFp _) = 0"

text \<open>Sum and product in the type \<open>d\<close>, after the conversion of both operands to it.\<close>

definition c_add :: "iarray_data_type \<Rightarrow> ina_val \<Rightarrow> ina_val \<Rightarrow> ina_val" where
  "c_add d x y = (if is_fp d then VFp (fp_plus (fp_round d) (to_fp d x) (to_fp d y))
     else VInt (int_to_dtype d (to_int x + to_int y)))"

definition c_mul :: "iarray_data_type \<Rightarrow> ina_val \<Rightarrow> ina_val \<Rightarrow> ina_val" where
  "c_mul d x y = (if is_fp d then VFp (fp_times (fp_round d) (to_fp d x) (to_fp d y))
     else VInt (int_to_dtype d (to_int x * to_int y)))"

definition c_sub :: "iarray_data_type \<Rightarrow> ina_val \<Rightarrow> ina_val \<Rightarrow> ina_val" where
  "c_sub d x y = (if is_fp d then VFp (fp_plus (fp_round d) (to_fp d x) (fp_neg (to_fp d y)))
     else VInt (int_to_dtype d (to_int x - to_int y)))"

fun c_less :: "ina_val \<Rightarrow> ina_val \<Rightarrow> bool" where
  "c_less (VInt a) (VInt b) = (a < b)"
| "c_less (VFp a) (VFp b) = fp_less a b"
| "c_less _ _ = False"

fun c_isnan :: "ina_val \<Rightarrow> bool" where
  "c_isnan (VFp NaN) = True"
| "c_isnan _ = False"

fun c_isfinite :: "ina_val \<Rightarrow> bool" where
  "c_isfinite (VInt _) = True"
| "c_isfinite (VFp (Fin _)) = True"
| "c_isfinite _ = False"

text \<open>The conversion to \<open>bool\<close>.\<close>

fun c_true :: "ina_val \<Rightarrow> bool" where
  "c_true (VInt n) = (n \<noteq> 0)"
| "c_true (VFp (Fin r)) = (r \<noteq> 0)"
| "c_true (VFp _) = True"

definition c_zero :: "iarray_data_type \<Rightarrow> ina_val" where
  "c_zero d = (if is_fp d then VFp (Fin 0) else VInt 0)"

definition c_one :: "iarray_data_type \<Rightarrow> ina_val" where
  "c_one d = (if is_fp d then VFp (Fin 1) else VInt 1)"

definition c_bool :: "bool \<Rightarrow> ina_val" where
  "c_bool b = VInt (if b then 1 else 0)"

text \<open>A double stored in a variable of type \<open>d\<close>, and the value of a variable of type \<open>d\<close> in double precision.\<close>

definition of_dbl :: "iarray_data_type \<Rightarrow> fp \<Rightarrow> ina_val" where
  "of_dbl d x = VFp (to_fp d (VFp x))"

definition as_dbl :: "ina_val \<Rightarrow> fp" where
  "as_dbl x = to_fp IARRAY_DATA_TYPE_DOUBLE x"

section \<open>Taking in items\<close>

text \<open>The loops over the \<open>nelem\<close> items of a vector, and the one-shot variants.\<close>

definition SUM_R :: "iarray_data_type \<Rightarrow> ina_val \<Rightarrow> ina_val list \<Rightarrow> ina_val" where
  "SUM_R otype = foldl (\<lambda>data0 data1. c_add otype data0 data1)"

definition oneshotSUM_R :: "iarray_data_type \<Rightarrow> ina_val \<Rightarrow> ina_val \<Rightarrow> ina_val" where
  "oneshotSUM_R otype data0 data1 = c_add otype data0 data1"

definition nanSUM_R :: "iarray_data_type \<Rightarrow> ina_val \<Rightarrow> ina_val list \<Rightarrow> ina_val" where
  "nanSUM_R otype = foldl (\<lambda>data0 data1. if \<not> c_isnan data1 then c_add otype data0 data1 else data0)"

definition oneshotnanSUM_R :: "iarray_data_type \<Rightarrow> ina_val \<Rightarrow> ina_val \<Rightarrow> ina_val" where
  "oneshotnanSUM_R otype data0 data1 = (if \<not> c_isnan data1 then c_add otype data0 data1 else data0)"

definition PROD_R :: "iarray_data_type \<Rightarrow> ina_val \<Rightarrow> ina_val list \<Rightarrow> ina_val" where
  "PROD_R otype = foldl (\<lambda>data0 data1. c_mul otype data0 data1)"

definition oneshotPROD_R :: "iarray_data_type \<Rightarrow> ina_val \<Rightarrow> ina_val \<Rightarrow> ina_val" where
  "oneshotPROD_R otype data0 data1 = c_mul otype data0 data1"

definition nanPROD_R :: "iarray_data_type \<Rightarrow> ina_val \<Rightarrow> ina_val list \<Rightarrow> ina_val" where
  "nanPROD_R otype = foldl (\<lambda>data0 data1. if \<not> c_isnan data1 then c_mul otype data0 data1 else data0)"

definition oneshotnanPROD_R :: "iarray_data_type \<Rightarrow> ina_val \<Rightarrow> ina_val \<Rightarrow> ina_val" where
  "oneshotnanPROD_R otype data0 data1 = (if \<not> c_isnan data1 then c_mul otype data0 data1 else data0)"

definition MAX_R :: "ina_val \<Rightarrow> ina_val list \<Rightarrow> ina_val" where
  "MAX_R = foldl (\<lambda>data0 data1. if c_less data0 data1 then data1 else data0)"

definition oneshotMAX_R :: "ina_val \<Rightarrow> ina_val \<Rightarrow> ina_val" where
  "oneshotMAX_R data0 data1 = (if c_less data0 data1 then data1 else data0)"

text \<open>The loops for floating-point items leave at the first not-a-number.\<close>

fun DFMAX_R :: "ina_val \<Rightarrow> ina_val list \<Rightarrow> ina_val" where
  "DFMAX_R data0 [] = data0"
| "DFMAX_R data0 (x # xs) = (if c_isnan x then VFp NaN else DFMAX_R (if c_less data0 x then x else data0) xs)"

definition oneshotDFMAX_R :: "ina_val \<Rightarrow> ina_val \<Rightarrow> ina_val" where
  "oneshotDFMAX_R data0 data1 = (if c_isnan data1 then VFp NaN else if c_less data0 data1 then data1 else data0)"

definition nanMAX_R :: "ina_val \<Rightarrow> ina_val list \<Rightarrow> ina_val" where
  "nanMAX_R = foldl (\<lambda>data0 data1. if \<not> c_isnan data1 \<and> (c_less data0 data1 \<or> c_isnan data0) then data1 else data0)"

definition oneshotnanMAX_R :: "ina_val \<Rightarrow> ina_val \<Rightarrow> ina_val" where
  "oneshotnanMAX_R data0 data1 =
     (if \<not> c_isnan data1 \<and> (c_less data0 data1 \<or> c_isnan data0) then data1 else data0)"

definition MIN_R :: "ina_val \<Rightarrow> ina_val list \<Rightarrow> ina_val" where
  "MIN_R = foldl (\<lambda>data0 data1. if c_less data1 data0 then data1 else data0)"

definition oneshotMIN_R :: "ina_val \<Rightarrow> ina_val \<Rightarrow> ina_val" where
  "oneshotMIN_R data0 data1 = (if c_less data1 data0 then data1 else data0)"

fun DFMIN_R :: "ina_val \<Rightarrow> ina_val list \<Rightarrow> ina_val" where
  "DFMIN_R data0 [] = data0"
| "DFMIN_R data0 (x # xs) = (if c_isnan x then VFp NaN else DFMIN_R (if c_less x data0 then x else data0) xs)"

definition oneshotDFMIN_R :: "ina_val \<Rightarrow> ina_val \<Rightarrow> ina_val" where
  "oneshotDFMIN_R data0 data1 = (if c_isnan data1 then VFp NaN else if c_less data1 data0 then data1 else data0)"

definition nanMIN_R :: "ina_val \<Rightarrow> ina_val list \<Rightarrow> ina_val" where
  "nanMIN_R = foldl (\<lambda>data0 data1. if \<not> c_isnan data1 \<and> (c_isnan data0 \<or> c_less data1 data0) then data1 else data0)"

definition oneshotnanMIN_R :: "ina_val \<Rightarrow> ina_val \<Rightarrow> ina_val" where
  "oneshotnanMIN_R data0 data1 =
     (if \<not> c_isnan data1 \<and> (c_isnan data0 \<or> c_less data1 data0) then data1 else data0)"

definition MEAN_R :: "iarray_data_type \<Rightarrow> ina_val \<Rightarrow> ina_val list \<Rightarrow> ina_val" where
  "MEAN_R otype = foldl (\<lambda>data0 data1. c_add otype data0 data1)"

definition oneshotMEAN_R :: "iarray_data_type \<Rightarrow> ina_val \<Rightarrow> ina_val \<Rightarrow> ina_val" where
  "oneshotMEAN_R otype data0 data1 = c_add otype data0 data1"

fun ALL_R :: "ina_val \<Rightarrow> ina_val list \<Rightarrow> ina_val" where
  "ALL_R data0 [] = data0"
| "ALL_R data0 (x # xs) = (if \<not> c_true x then c_bool False else ALL_R data0 xs)"

definition oneshotALL_R :: "ina_val \<Rightarrow> ina_val \<Rightarrow> ina_val" where
  "oneshotALL_R data0 data1 = (if \<not> c_true data1 then c_bool False else data0)"

fun DFALL_R :: "ina_val \<Rightarrow> ina_val list \<Rightarrow> ina_val" where
  "DFALL_R data0 [] = data0"
| "DFALL_R data0 (x # xs) = (if c_isfinite x \<and> \<not> c_true x then c_bool False else DFALL_R data0 xs)"

definition oneshotDFALL_R :: "ina_val \<Rightarrow> ina_val \<Rightarrow> ina_val" where
  "oneshotDFALL_R data0 data1 = (if c_isfinite data1 \<and> \<not> c_true data1 then c_bool False else data0)"

fun ANY_R :: "ina_val \<Rightarrow> ina_val list \<Rightarrow> ina_val" where
  "ANY_R data0 [] = data0"
| "ANY_R data0 (x # xs) = (if c_true x then c_bool True else ANY_R data0 xs)"

definition oneshotANY_R :: "ina_val \<Rightarrow> ina_val \<Rightarrow> ina_val" where
  "oneshotANY_R data0 data1 = (if c_true data1 then c_bool True else data0)"

fun DFANY_R :: "ina_val \<Rightarrow> ina_val list \<Rightarrow> ina_val" where
  "DFANY_R data0 [] = data0"
| "DFANY_R data0 (x # xs) = (if \<not> c_isfinite x \<or> c_true x then c_bool True else DFANY_R data0 xs)"

definition oneshotDFANY_R :: "ina_val \<Rightarrow> ina_val \<Rightarrow> ina_val" where
  "oneshotDFANY_R data0 data1 = (if \<not> c_isfinite data1 \<or> c_true data1 then c_bool True else data0)"

section \<open>The contract of the vector variants\<close>

locale vector_reduction =
  fixes vector :: "ina_val \<Rightarrow> ina_val list \<Rightarrow> ina_val" and oneshot :: "ina_val \<Rightarrow> ina_val \<Rightarrow> ina_val"
  assumes vector_nil: "vector acc [] = acc"
    and vector_append: "vector acc (xs @ ys) = vector (vector acc xs) ys"
    and oneshot_single: "oneshot acc x = vector acc [x]"
begin

lemma oneshot_agrees: "foldl oneshot acc xs = vector acc xs"
proof (induction xs arbitrary: acc)
  case (Cons x xs)
  then show ?case using vector_append [of acc "[x]" xs] by (simp add: oneshot_single)
qed (simp add: vector_nil)

lemma vector_concat: "foldl vector acc xss = vector acc (concat xss)"
  by (induction xss arbitrary: acc) (simp_all add: vector_nil vector_append)

end

lemma vector_foldl: "vector_reduction (foldl f) f"
  by unfold_locales simp_all

interpretation sum_red: vector_reduction "SUM_R d" "oneshotSUM_R d" for d
  unfolding SUM_R_def by unfold_locales (simp_all add: oneshotSUM_R_def)
interpretation nansum_red: vector_reduction "nanSUM_R d" "oneshotnanSUM_R d" for d
  unfolding nanSUM_R_def by unfold_locales (simp_all add: oneshotnanSUM_R_def)
interpretation prod_red: vector_reduction "PROD_R d" "oneshotPROD_R d" for d
  unfolding PROD_R_def by unfold_locales (simp_all add: oneshotPROD_R_def)
interpretation nanprod_red: vector_reduction "nanPROD_R d" "oneshotnanPROD_R d" for d
  unfolding nanPROD_R_def by unfold_locales (simp_all add: oneshotnanPROD_R_def)
interpretation max_red: vector_reduction MAX_R oneshotMAX_R
  unfolding MAX_R_def by unfold_locales (simp_all add: oneshotMAX_R_def)
interpretation nanmax_red: vector_reduction nanMAX_R oneshotnanMAX_R
  unfolding nanMAX_R_def by unfold_locales (simp_all add: oneshotnanMAX_R_def)
interpretation min_red: vector_reduction MIN_R oneshotMIN_R
  unfolding MIN_R_def by unfold_locales (simp_all add: oneshotMIN_R_def)
interpretation nanmin_red: vector_reduction nanMIN_R oneshotnanMIN_R
  unfolding nanMIN_R_def by unfold_locales (simp_all add: oneshotnanMIN_R_def)
interpretation mean_red: vector_reduction "MEAN_R d" "oneshotMEAN_R d" for d
  unfolding MEAN_R_def by unfold_locales (simp_all add: oneshotMEAN_R_def)

text \<open>Once a result is not-a-number it stays so, which is why a loop may be left early.\<close>

lemma less_nan [simp]: "\<not> c_less (VFp NaN) x" "\<not> c_less x (VFp NaN)"
  by (cases x; simp; rename_tac y; case_tac y; simp)+

lemma dfmax_nan: "DFMAX_R (VFp NaN) xs = VFp NaN" by (induction xs) simp_all

lemma dfmin_nan: "DFMIN_R (VFp NaN) xs = VFp NaN" by (induction xs) simp_all

lemma all_false: "ALL_R (c_bool False) xs = c_bool False" "DFALL_R (c_bool False) xs = c_bool False"
  by (induction xs) simp_all

lemma any_true: "ANY_R (c_bool True) xs = c_bool True" "DFANY_R (c_bool True) xs = c_bool True"
  by (induction xs) simp_all

interpretation dfmax_red: vector_reduction DFMAX_R oneshotDFMAX_R
proof
  show "DFMAX_R acc (xs @ ys) = DFMAX_R (DFMAX_R acc xs) ys" for acc xs ys
    by (induction xs arbitrary: acc) (simp_all add: dfmax_nan)
qed (simp_all add: oneshotDFMAX_R_def)

interpretation dfmin_red: vector_reduction DFMIN_R oneshotDFMIN_R
proof
  show "DFMIN_R acc (xs @ ys) = DFMIN_R (DFMIN_R acc xs) ys" for acc xs ys
    by (induction xs arbitrary: acc) (simp_all add: dfmin_nan)
qed (simp_all add: oneshotDFMIN_R_def)

interpretation all_red: vector_reduction ALL_R oneshotALL_R
proof
  show "ALL_R acc (xs @ ys) = ALL_R (ALL_R acc xs) ys" for acc xs ys
    by (induction xs arbitrary: acc) (simp_all add: all_false)
qed (simp_all add: oneshotALL_R_def)

interpretation dfall_red: vector_reduction DFALL_R oneshotDFALL_R
proof
  show "DFALL_R acc (xs @ ys) = DFALL_R (DFALL_R acc xs) ys" for acc xs ys
    by (induction xs arbitrary: acc) (simp_all add: all_false)
qed (simp_all add: oneshotDFALL_R_def)

interpretation any_red: vector_reduction ANY_R oneshotANY_R
proof
  show "ANY_R acc (xs @ ys) = ANY_R (ANY_R acc xs) ys" for acc xs ys
    by (induction xs arbitrary: acc) (simp_all add: any_true)
qed (simp_all add: oneshotANY_R_def)

interpretation dfany_red: vector_reduction DFANY_R oneshotDFANY_R
proof
  show "DFANY_R acc (xs @ ys) = DFANY_R (DFANY_R acc xs) ys" for acc xs ys
    by (induction xs arbitrary: acc) (simp_all add: any_true)
qed (simp_all add: oneshotDFANY_R_def)

section \<open>Reduction functions\<close>

text \<open>
  What a reduction keeps for one item of the result: the result itself and, in the user data, counts of items and
  the items stored for the median (the code has arrays of these, indexed by the number of the item). The rest of
  the user data is the same for the whole block, but for the mean, which is set before the item is reduced.
\<close>

record reduce_cell =
  c_res :: ina_val
  not_nan_nelems :: int
  nan_nelems :: int
  medians :: "ina_val list"

record user_data_os =
  inv_nelem :: fp
  ud_correction :: fp
  ud_mean :: ina_val

text \<open>
  \<open>reduction\<close> gets a vector as a function from the number of an item to the item, and its length. \<open>finish\<close> has
  no result where the code reads outside of an array.
\<close>

record iarray_reduce_function =
  rf_init :: "reduce_cell \<Rightarrow> reduce_cell"
  rf_reduction :: "user_data_os \<Rightarrow> reduce_cell \<Rightarrow> (nat \<Rightarrow> ina_val) \<Rightarrow> nat \<Rightarrow> reduce_cell"
  rf_finish :: "user_data_os \<Rightarrow> reduce_cell \<Rightarrow> reduce_cell option"

definition set_res :: "ina_val \<Rightarrow> reduce_cell \<Rightarrow> reduce_cell" where
  "set_res x c = c\<lparr>c_res := x\<rparr>"

definition on_vector :: "(ina_val \<Rightarrow> ina_val list \<Rightarrow> ina_val) \<Rightarrow> user_data_os \<Rightarrow> reduce_cell \<Rightarrow> (nat \<Rightarrow> ina_val) \<Rightarrow> nat \<Rightarrow> reduce_cell" where
  "on_vector f u c data1 nelem = set_res (f (c_res c) (map data1 [0..<nelem])) c"

definition on_item :: "(ina_val \<Rightarrow> ina_val \<Rightarrow> ina_val) \<Rightarrow> user_data_os \<Rightarrow> reduce_cell \<Rightarrow> (nat \<Rightarrow> ina_val) \<Rightarrow> nat \<Rightarrow> reduce_cell" where
  "on_item f u c data1 nelem = set_res (f (c_res c) (data1 0)) c"

definition no_finish :: "user_data_os \<Rightarrow> reduce_cell \<Rightarrow> reduce_cell option" where
  "no_finish u c = Some c"

definition SUM_fn :: "iarray_data_type \<Rightarrow> bool \<Rightarrow> bool \<Rightarrow> iarray_reduce_function" where
  "SUM_fn otype nan oneshot = \<lparr> rf_init = set_res (c_zero otype),
     rf_reduction = (if oneshot then on_item (if nan then oneshotnanSUM_R otype else oneshotSUM_R otype)
                     else on_vector (if nan then nanSUM_R otype else SUM_R otype)),
     rf_finish = no_finish \<rparr>"

definition PROD_fn :: "iarray_data_type \<Rightarrow> bool \<Rightarrow> bool \<Rightarrow> iarray_reduce_function" where
  "PROD_fn otype nan oneshot = \<lparr> rf_init = set_res (c_one otype),
     rf_reduction = (if oneshot then on_item (if nan then oneshotnanPROD_R otype else oneshotPROD_R otype)
                     else on_vector (if nan then nanPROD_R otype else PROD_R otype)),
     rf_finish = no_finish \<rparr>"

definition lowest :: "iarray_data_type \<Rightarrow> ina_val" where
  "lowest d = (if is_fp d then VFp (Inf True)
     else if is_signed_dtype d then VInt (- (2 ^ (dtype_width d - 1))) else VInt 0)"

definition highest :: "iarray_data_type \<Rightarrow> ina_val" where
  "highest d = (if is_fp d then VFp (Inf False)
     else if is_signed_dtype d then VInt (2 ^ (dtype_width d - 1) - 1)
     else if d = IARRAY_DATA_TYPE_BOOL then VInt 1 else VInt (2 ^ dtype_width d - 1))"

definition MAX_fn :: "iarray_data_type \<Rightarrow> bool \<Rightarrow> bool \<Rightarrow> iarray_reduce_function" where
  "MAX_fn d nan oneshot = \<lparr> rf_init = set_res (if nan then VFp NaN else lowest d),
     rf_reduction = (if oneshot then on_item (if nan then oneshotnanMAX_R else if is_fp d then oneshotDFMAX_R else oneshotMAX_R)
                     else on_vector (if nan then nanMAX_R else if is_fp d then DFMAX_R else MAX_R)),
     rf_finish = no_finish \<rparr>"

definition MIN_fn :: "iarray_data_type \<Rightarrow> bool \<Rightarrow> bool \<Rightarrow> iarray_reduce_function" where
  "MIN_fn d nan oneshot = \<lparr> rf_init = set_res (if nan then VFp NaN else highest d),
     rf_reduction = (if oneshot then on_item (if nan then oneshotnanMIN_R else if is_fp d then oneshotDFMIN_R else oneshotMIN_R)
                     else on_vector (if nan then nanMIN_R else if is_fp d then DFMIN_R else MIN_R)),
     rf_finish = no_finish \<rparr>"

definition MEAN_I :: "iarray_data_type \<Rightarrow> reduce_cell \<Rightarrow> reduce_cell" where
  "MEAN_I otype c = c\<lparr>c_res := c_zero otype, not_nan_nelems := 0\<rparr>"

definition nanMEAN_R :: "iarray_data_type \<Rightarrow> user_data_os \<Rightarrow> reduce_cell \<Rightarrow> (nat \<Rightarrow> ina_val) \<Rightarrow> nat \<Rightarrow> reduce_cell" where
  "nanMEAN_R otype u c data1 nelem =
     (if \<not> c_isnan (data1 0)
      then c\<lparr>c_res := c_add otype (c_res c) (data1 0), not_nan_nelems := not_nan_nelems c + 1\<rparr> else c)"

definition MEAN_F :: "iarray_data_type \<Rightarrow> user_data_os \<Rightarrow> reduce_cell \<Rightarrow> reduce_cell option" where
  "MEAN_F otype u c = Some (c\<lparr>c_res := of_dbl otype (fp_times to_double (as_dbl (c_res c)) (inv_nelem u))\<rparr>)"

text \<open>Here the count is converted to the type of the result.\<close>

definition nanMEAN_F :: "iarray_data_type \<Rightarrow> user_data_os \<Rightarrow> reduce_cell \<Rightarrow> reduce_cell option" where
  "nanMEAN_F otype u c = Some (c\<lparr>c_res := VFp (fp_quot (fp_round otype) (to_fp otype (c_res c))
     (to_fp otype (VInt (not_nan_nelems c))))\<rparr>)"

definition MEAN_fn :: "iarray_data_type \<Rightarrow> bool \<Rightarrow> bool \<Rightarrow> iarray_reduce_function" where
  "MEAN_fn otype nan oneshot = \<lparr> rf_init = MEAN_I otype,
     rf_reduction = (if nan then nanMEAN_R otype
                     else if oneshot then on_item (oneshotMEAN_R otype) else on_vector (MEAN_R otype)),
     rf_finish = (if nan then nanMEAN_F otype else MEAN_F otype) \<rparr>"

definition ALL_fn :: "iarray_data_type \<Rightarrow> bool \<Rightarrow> iarray_reduce_function" where
  "ALL_fn d oneshot = \<lparr> rf_init = set_res (c_bool True),
     rf_reduction = (if oneshot then on_item (if is_fp d then oneshotDFALL_R else oneshotALL_R)
                     else on_vector (if is_fp d then DFALL_R else ALL_R)),
     rf_finish = no_finish \<rparr>"

definition ANY_fn :: "iarray_data_type \<Rightarrow> bool \<Rightarrow> iarray_reduce_function" where
  "ANY_fn d oneshot = \<lparr> rf_init = set_res (c_bool False),
     rf_reduction = (if oneshot then on_item (if is_fp d then oneshotDFANY_R else oneshotANY_R)
                     else on_vector (if is_fp d then DFANY_R else ANY_R)),
     rf_finish = no_finish \<rparr>"

text \<open>Variance and standard deviation, with the mean from a reduction made before. The type \<open>float\<close> has variants of its own, which compute in \<open>float\<close>.\<close>

definition VAR_I :: "iarray_data_type \<Rightarrow> reduce_cell \<Rightarrow> reduce_cell" where
  "VAR_I otype c = c\<lparr>c_res := c_zero otype, not_nan_nelems := 0\<rparr>"

definition VAR_R :: "iarray_data_type \<Rightarrow> user_data_os \<Rightarrow> reduce_cell \<Rightarrow> (nat \<Rightarrow> ina_val) \<Rightarrow> nat \<Rightarrow> reduce_cell" where
  "VAR_R otype u c data1 nelem =
     (let dif = c_sub otype (data1 0) (ud_mean u) in c\<lparr>c_res := c_add otype (c_res c) (c_mul otype dif dif)\<rparr>)"

definition nanVAR_R :: "iarray_data_type \<Rightarrow> user_data_os \<Rightarrow> reduce_cell \<Rightarrow> (nat \<Rightarrow> ina_val) \<Rightarrow> nat \<Rightarrow> reduce_cell" where
  "nanVAR_R otype u c data1 nelem =
     (if \<not> c_isnan (data1 0)
      then let dif = c_sub otype (data1 0) (ud_mean u)
           in c\<lparr>c_res := c_add otype (c_res c) (c_mul otype dif dif), not_nan_nelems := not_nan_nelems c + 1\<rparr>
      else c)"

definition VAR_F :: "iarray_data_type \<Rightarrow> user_data_os \<Rightarrow> reduce_cell \<Rightarrow> reduce_cell" where
  "VAR_F otype u c = c\<lparr>c_res := of_dbl otype (fp_times to_double (as_dbl (c_res c)) (inv_nelem u))\<rparr>"

definition nanVAR_F :: "iarray_data_type \<Rightarrow> user_data_os \<Rightarrow> reduce_cell \<Rightarrow> reduce_cell" where
  "nanVAR_F otype u c =
     (let n = fp_add (dbl (of_int (not_nan_nelems c))) (fp_neg (ud_correction u))
      in c\<lparr>c_res := (if fp_less n (Fin 0)
           then VFp (fp_quot (fp_round otype) (to_fp otype (c_res c)) (to_fp otype (VInt (not_nan_nelems c))))
           else of_dbl otype (fp_div (as_dbl (c_res c)) n))\<rparr>)"

definition VAR_fn :: "iarray_data_type \<Rightarrow> bool \<Rightarrow> iarray_reduce_function" where
  "VAR_fn otype nan = \<lparr> rf_init = VAR_I otype, rf_reduction = (if nan then nanVAR_R otype else VAR_R otype),
     rf_finish = (\<lambda>u c. Some (if nan then nanVAR_F otype u c else VAR_F otype u c)) \<rparr>"

definition STD_root :: "iarray_data_type \<Rightarrow> reduce_cell \<Rightarrow> reduce_cell" where
  "STD_root otype c =
     c\<lparr>c_res := VFp (fp_sqrt (if otype = IARRAY_DATA_TYPE_FLOAT then 24 else 53) (to_fp otype (c_res c)))\<rparr>"

definition STD_fn :: "iarray_data_type \<Rightarrow> bool \<Rightarrow> iarray_reduce_function" where
  "STD_fn otype nan = \<lparr> rf_init = VAR_I otype, rf_reduction = (if nan then nanVAR_R otype else VAR_R otype),
     rf_finish = (\<lambda>u c. Some (STD_root otype (if nan then nanVAR_F otype u c else VAR_F otype u c))) \<rparr>"

text \<open>The median: \<^verbatim>\<open>qsort\<close> is a sort by the comparison the code gives it.\<close>

fun median_insert :: "ina_val \<Rightarrow> ina_val list \<Rightarrow> ina_val list" where
  "median_insert x [] = [x]"
| "median_insert x (y # ys) = (if c_less y x then y # median_insert x ys else x # y # ys)"

definition median_sort :: "ina_val list \<Rightarrow> ina_val list" where
  "median_sort xs = foldr median_insert xs []"

definition MEDIAN_I :: "reduce_cell \<Rightarrow> reduce_cell" where
  "MEDIAN_I c = c\<lparr>medians := [], not_nan_nelems := 0, nan_nelems := 0\<rparr>"

definition MEDIAN_R :: "user_data_os \<Rightarrow> reduce_cell \<Rightarrow> (nat \<Rightarrow> ina_val) \<Rightarrow> nat \<Rightarrow> reduce_cell" where
  "MEDIAN_R u c data1 nelem =
     (let c = c\<lparr>medians := medians c @ [data1 0]\<rparr>
      in if c_isnan (data1 0) then c\<lparr>nan_nelems := nan_nelems c + 1\<rparr>
         else c\<lparr>not_nan_nelems := not_nan_nelems c + 1\<rparr>)"

definition nanMEDIAN_R :: "user_data_os \<Rightarrow> reduce_cell \<Rightarrow> (nat \<Rightarrow> ina_val) \<Rightarrow> nat \<Rightarrow> reduce_cell" where
  "nanMEDIAN_R u c data1 nelem =
     (if c_isnan (data1 0) then c\<lparr>nan_nelems := nan_nelems c + 1\<rparr>
      else c\<lparr>medians := medians c @ [data1 0], not_nan_nelems := not_nan_nelems c + 1\<rparr>)"

text \<open>The type in which C adds two items: the narrow integer types are promoted to \<open>int\<close>.\<close>

definition promoted :: "iarray_data_type \<Rightarrow> iarray_data_type" where
  "promoted d = (if d \<in> {IARRAY_DATA_TYPE_INT16, IARRAY_DATA_TYPE_INT8, IARRAY_DATA_TYPE_UINT16, IARRAY_DATA_TYPE_UINT8,
     IARRAY_DATA_TYPE_BOOL} then IARRAY_DATA_TYPE_INT32 else d)"

text \<open>With no items the code takes the item before the first one, which there is none of.\<close>

definition median_of :: "iarray_data_type \<Rightarrow> iarray_data_type \<Rightarrow> ina_val list \<Rightarrow> ina_val option" where
  "median_of itype otype xs =
     (let n = length xs; ys = median_sort xs
      in if even n
         then if n = 0 then None
              else Some (of_dbl otype (fp_times to_double
                (as_dbl (c_add (promoted itype) (ys ! (n div 2 - 1)) (ys ! (n div 2)))) (Fin (1 / 2))))
         else Some (of_dbl otype (as_dbl (ys ! (n div 2)))))"

text \<open>\<open>nelem\<close> is the count of items that are numbers; only with no others it is the number of items stored.\<close>

definition MEDIAN_F :: "iarray_data_type \<Rightarrow> iarray_data_type \<Rightarrow> user_data_os \<Rightarrow> reduce_cell \<Rightarrow> reduce_cell option" where
  "MEDIAN_F itype otype u c =
     (if nan_nelems c = 0
      then map_option (\<lambda>m. set_res m c) (median_of itype otype (take (nat (not_nan_nelems c)) (medians c)))
      else Some (set_res (VFp NaN) c))"

definition nanMEDIAN_F :: "iarray_data_type \<Rightarrow> iarray_data_type \<Rightarrow> user_data_os \<Rightarrow> reduce_cell \<Rightarrow> reduce_cell option" where
  "nanMEDIAN_F itype otype u c =
     (if not_nan_nelems c \<noteq> 0
      then map_option (\<lambda>m. set_res m c) (median_of itype otype (take (nat (not_nan_nelems c)) (medians c)))
      else Some (set_res (VFp NaN) c))"

definition MEDIAN_fn :: "iarray_data_type \<Rightarrow> iarray_data_type \<Rightarrow> bool \<Rightarrow> iarray_reduce_function" where
  "MEDIAN_fn itype otype nan = \<lparr> rf_init = MEDIAN_I, rf_reduction = (if nan then nanMEDIAN_R else MEDIAN_R),
     rf_finish = (if nan then nanMEDIAN_F itype otype else MEDIAN_F itype otype) \<rparr>"

section \<open>The tables\<close>

datatype iarray_reduce_func =
    IARRAY_REDUCE_MAX
  | IARRAY_REDUCE_NAN_MAX
  | IARRAY_REDUCE_MIN
  | IARRAY_REDUCE_NAN_MIN
  | IARRAY_REDUCE_SUM
  | IARRAY_REDUCE_NAN_SUM
  | IARRAY_REDUCE_PROD
  | IARRAY_REDUCE_NAN_PROD
  | IARRAY_REDUCE_MEAN
  | IARRAY_REDUCE_NAN_MEAN
  | IARRAY_REDUCE_VAR
  | IARRAY_REDUCE_NAN_VAR
  | IARRAY_REDUCE_STD
  | IARRAY_REDUCE_NAN_STD
  | IARRAY_REDUCE_MEDIAN
  | IARRAY_REDUCE_NAN_MEDIAN
  | IARRAY_REDUCE_ALL
  | IARRAY_REDUCE_ANY

text \<open>
  Each table has one entry for each element type, the function instantiated for this type; what differs is the type
  of the result. The tables for reductions that pass over not-a-number have entries for \<open>double\<close> and \<open>float\<close> only.
\<close>

definition known_dtype :: "iarray_data_type \<Rightarrow> bool" where
  "known_dtype d \<longleftrightarrow> d \<noteq> IARRAY_DATA_TYPE_MAX"

definition wide_dtype :: "iarray_data_type \<Rightarrow> iarray_data_type" where
  "wide_dtype d = (if is_fp d then d else if is_unsigned_dtype d then IARRAY_DATA_TYPE_UINT64 else IARRAY_DATA_TYPE_INT64)"

definition real_dtype :: "iarray_data_type \<Rightarrow> iarray_data_type" where
  "real_dtype d = (if d = IARRAY_DATA_TYPE_FLOAT then d else IARRAY_DATA_TYPE_DOUBLE)"

definition table_entry :: "bool \<Rightarrow> iarray_reduce_function \<Rightarrow> iarray_data_type \<Rightarrow> (iarray_reduce_function \<times> iarray_data_type) res" where
  "table_entry ok f out = (if ok then Inr (f, out) else Inl IARRAY_ERR_INVALID_DTYPE)"

definition sum_table :: "bool \<Rightarrow> iarray_data_type \<Rightarrow> (iarray_reduce_function \<times> iarray_data_type) res" where
  "sum_table oneshot d = table_entry (known_dtype d) (SUM_fn (wide_dtype d) False oneshot) (wide_dtype d)"

definition nan_sum_table :: "bool \<Rightarrow> iarray_data_type \<Rightarrow> (iarray_reduce_function \<times> iarray_data_type) res" where
  "nan_sum_table oneshot d = table_entry (is_fp d) (SUM_fn d True oneshot) d"

definition prod_table :: "bool \<Rightarrow> iarray_data_type \<Rightarrow> (iarray_reduce_function \<times> iarray_data_type) res" where
  "prod_table oneshot d = table_entry (known_dtype d) (PROD_fn (wide_dtype d) False oneshot) (wide_dtype d)"

definition nan_prod_table :: "bool \<Rightarrow> iarray_data_type \<Rightarrow> (iarray_reduce_function \<times> iarray_data_type) res" where
  "nan_prod_table oneshot d = table_entry (is_fp d) (PROD_fn d True oneshot) d"

definition max_table :: "bool \<Rightarrow> iarray_data_type \<Rightarrow> (iarray_reduce_function \<times> iarray_data_type) res" where
  "max_table oneshot d = table_entry (known_dtype d) (MAX_fn d False oneshot) d"

definition nan_max_table :: "bool \<Rightarrow> iarray_data_type \<Rightarrow> (iarray_reduce_function \<times> iarray_data_type) res" where
  "nan_max_table oneshot d = table_entry (is_fp d) (MAX_fn d True oneshot) d"

definition min_table :: "bool \<Rightarrow> iarray_data_type \<Rightarrow> (iarray_reduce_function \<times> iarray_data_type) res" where
  "min_table oneshot d = table_entry (known_dtype d) (MIN_fn d False oneshot) d"

definition nan_min_table :: "bool \<Rightarrow> iarray_data_type \<Rightarrow> (iarray_reduce_function \<times> iarray_data_type) res" where
  "nan_min_table oneshot d = table_entry (is_fp d) (MIN_fn d True oneshot) d"

definition mean_table :: "bool \<Rightarrow> iarray_data_type \<Rightarrow> (iarray_reduce_function \<times> iarray_data_type) res" where
  "mean_table oneshot d = table_entry (known_dtype d) (MEAN_fn (real_dtype d) False oneshot) (real_dtype d)"

definition all_table :: "bool \<Rightarrow> iarray_data_type \<Rightarrow> (iarray_reduce_function \<times> iarray_data_type) res" where
  "all_table oneshot d = table_entry (known_dtype d) (ALL_fn d oneshot) IARRAY_DATA_TYPE_BOOL"

definition any_table :: "bool \<Rightarrow> iarray_data_type \<Rightarrow> (iarray_reduce_function \<times> iarray_data_type) res" where
  "any_table oneshot d = table_entry (known_dtype d) (ANY_fn d oneshot) IARRAY_DATA_TYPE_BOOL"

definition reduce_table :: "iarray_reduce_func \<Rightarrow> iarray_data_type \<Rightarrow> (iarray_reduce_function \<times> iarray_data_type) res" where
  "reduce_table func d = (case func of
       IARRAY_REDUCE_SUM \<Rightarrow> sum_table False d
     | IARRAY_REDUCE_NAN_SUM \<Rightarrow> nan_sum_table False d
     | IARRAY_REDUCE_PROD \<Rightarrow> prod_table False d
     | IARRAY_REDUCE_NAN_PROD \<Rightarrow> nan_prod_table False d
     | IARRAY_REDUCE_MAX \<Rightarrow> max_table False d
     | IARRAY_REDUCE_NAN_MAX \<Rightarrow> nan_max_table False d
     | IARRAY_REDUCE_MIN \<Rightarrow> min_table False d
     | IARRAY_REDUCE_NAN_MIN \<Rightarrow> nan_min_table False d
     | IARRAY_REDUCE_MEAN \<Rightarrow> mean_table False d
     | IARRAY_REDUCE_ALL \<Rightarrow> all_table False d
     | IARRAY_REDUCE_ANY \<Rightarrow> any_table False d
     | _ \<Rightarrow> Inl IARRAY_ERR_INVALID_EVAL_METHOD)"

text \<open>The tables that only the one-shot algorithm has.\<close>

definition var_table :: "iarray_data_type \<Rightarrow> (iarray_reduce_function \<times> iarray_data_type) res" where
  "var_table d = table_entry (known_dtype d) (VAR_fn (real_dtype d) False) (real_dtype d)"

definition nan_var_table :: "iarray_data_type \<Rightarrow> (iarray_reduce_function \<times> iarray_data_type) res" where
  "nan_var_table d = table_entry (is_fp d) (VAR_fn d True) d"

definition std_table :: "iarray_data_type \<Rightarrow> (iarray_reduce_function \<times> iarray_data_type) res" where
  "std_table d = table_entry (known_dtype d) (STD_fn (real_dtype d) False) (real_dtype d)"

definition nan_std_table :: "iarray_data_type \<Rightarrow> (iarray_reduce_function \<times> iarray_data_type) res" where
  "nan_std_table d = table_entry (is_fp d) (STD_fn d True) d"

definition median_table :: "iarray_data_type \<Rightarrow> (iarray_reduce_function \<times> iarray_data_type) res" where
  "median_table d = table_entry (known_dtype d) (MEDIAN_fn d (real_dtype d) False) (real_dtype d)"

definition nan_median_table :: "iarray_data_type \<Rightarrow> (iarray_reduce_function \<times> iarray_data_type) res" where
  "nan_median_table d = table_entry (is_fp d) (MEDIAN_fn d d True) d"

definition nan_mean_table :: "iarray_data_type \<Rightarrow> (iarray_reduce_function \<times> iarray_data_type) res" where
  "nan_mean_table d = table_entry (is_fp d) (MEAN_fn d True False) d"

text \<open>The others are those of \<^verbatim>\<open>iarray_reduce.c\<close> again, with the one-shot variants of the functions.\<close>

definition oneshot_max_table :: "iarray_data_type \<Rightarrow> (iarray_reduce_function \<times> iarray_data_type) res" where
  "oneshot_max_table d = max_table True d"

definition oneshot_nan_max_table :: "iarray_data_type \<Rightarrow> (iarray_reduce_function \<times> iarray_data_type) res" where
  "oneshot_nan_max_table d = nan_max_table True d"

definition oneshot_min_table :: "iarray_data_type \<Rightarrow> (iarray_reduce_function \<times> iarray_data_type) res" where
  "oneshot_min_table d = min_table True d"

definition oneshot_nan_min_table :: "iarray_data_type \<Rightarrow> (iarray_reduce_function \<times> iarray_data_type) res" where
  "oneshot_nan_min_table d = nan_min_table True d"

definition oneshot_sum_table :: "iarray_data_type \<Rightarrow> (iarray_reduce_function \<times> iarray_data_type) res" where
  "oneshot_sum_table d = sum_table True d"

definition oneshot_nan_sum_table :: "iarray_data_type \<Rightarrow> (iarray_reduce_function \<times> iarray_data_type) res" where
  "oneshot_nan_sum_table d = nan_sum_table True d"

definition oneshot_prod_table :: "iarray_data_type \<Rightarrow> (iarray_reduce_function \<times> iarray_data_type) res" where
  "oneshot_prod_table d = prod_table True d"

definition oneshot_nan_prod_table :: "iarray_data_type \<Rightarrow> (iarray_reduce_function \<times> iarray_data_type) res" where
  "oneshot_nan_prod_table d = nan_prod_table True d"

definition oneshot_mean_table :: "iarray_data_type \<Rightarrow> (iarray_reduce_function \<times> iarray_data_type) res" where
  "oneshot_mean_table d = mean_table True d"

definition oneshot_all_table :: "iarray_data_type \<Rightarrow> (iarray_reduce_function \<times> iarray_data_type) res" where
  "oneshot_all_table d = all_table True d"

definition oneshot_any_table :: "iarray_data_type \<Rightarrow> (iarray_reduce_function \<times> iarray_data_type) res" where
  "oneshot_any_table d = any_table True d"

definition oneshot_table :: "iarray_reduce_func \<Rightarrow> iarray_data_type \<Rightarrow> (iarray_reduce_function \<times> iarray_data_type) res" where
  "oneshot_table func d = (case func of
       IARRAY_REDUCE_VAR \<Rightarrow> var_table d
     | IARRAY_REDUCE_NAN_VAR \<Rightarrow> nan_var_table d
     | IARRAY_REDUCE_NAN_STD \<Rightarrow> nan_std_table d
     | IARRAY_REDUCE_STD \<Rightarrow> std_table d
     | IARRAY_REDUCE_MEDIAN \<Rightarrow> median_table d
     | IARRAY_REDUCE_NAN_MEDIAN \<Rightarrow> nan_median_table d
     | IARRAY_REDUCE_NAN_MEAN \<Rightarrow> nan_mean_table d
     | IARRAY_REDUCE_MAX \<Rightarrow> oneshot_max_table d
     | IARRAY_REDUCE_NAN_MAX \<Rightarrow> oneshot_nan_max_table d
     | IARRAY_REDUCE_MIN \<Rightarrow> oneshot_min_table d
     | IARRAY_REDUCE_NAN_MIN \<Rightarrow> oneshot_nan_min_table d
     | IARRAY_REDUCE_SUM \<Rightarrow> oneshot_sum_table d
     | IARRAY_REDUCE_NAN_SUM \<Rightarrow> oneshot_nan_sum_table d
     | IARRAY_REDUCE_PROD \<Rightarrow> oneshot_prod_table d
     | IARRAY_REDUCE_NAN_PROD \<Rightarrow> oneshot_nan_prod_table d
     | IARRAY_REDUCE_MEAN \<Rightarrow> oneshot_mean_table d
     | IARRAY_REDUCE_ALL \<Rightarrow> oneshot_all_table d
     | IARRAY_REDUCE_ANY \<Rightarrow> oneshot_any_table d)"

lemmas reduce_tables = sum_table_def nan_sum_table_def prod_table_def nan_prod_table_def max_table_def
  nan_max_table_def min_table_def nan_min_table_def mean_table_def all_table_def any_table_def

lemmas oneshot_tables = oneshot_max_table_def oneshot_nan_max_table_def oneshot_min_table_def oneshot_nan_min_table_def oneshot_sum_table_def oneshot_nan_sum_table_def oneshot_prod_table_def oneshot_nan_prod_table_def oneshot_mean_table_def oneshot_all_table_def oneshot_any_table_def

lemmas reduce_fns = SUM_fn_def PROD_fn_def MAX_fn_def MIN_fn_def MEAN_fn_def ALL_fn_def ANY_fn_def

text \<open>A whole vector at once, as one step on the cell.\<close>

definition take_vector :: "iarray_reduce_function \<Rightarrow> user_data_os \<Rightarrow> reduce_cell \<Rightarrow> ina_val list \<Rightarrow> reduce_cell" where
  "take_vector f u c xs = rf_reduction f u c (\<lambda>i. xs ! i) (length xs)"

definition take_item :: "iarray_reduce_function \<Rightarrow> user_data_os \<Rightarrow> reduce_cell \<Rightarrow> ina_val \<Rightarrow> reduce_cell" where
  "take_item f u c x = rf_reduction f u c (\<lambda>_. x) 0"

definition vector_function :: "iarray_reduce_function \<Rightarrow> bool" where
  "vector_function f \<longleftrightarrow> (\<exists>r step. vector_reduction r step \<and> rf_reduction f = on_vector r)"

lemma vector_functionI:
  "vector_reduction r step \<Longrightarrow> vector_function \<lparr> rf_init = i, rf_reduction = on_vector r, rf_finish = e \<rparr>"
  by (auto simp: vector_function_def)

lemmas vector_functions = vector_functionI [OF sum_red.vector_reduction_axioms]
  vector_functionI [OF nansum_red.vector_reduction_axioms] vector_functionI [OF prod_red.vector_reduction_axioms]
  vector_functionI [OF nanprod_red.vector_reduction_axioms] vector_functionI [OF max_red.vector_reduction_axioms]
  vector_functionI [OF nanmax_red.vector_reduction_axioms] vector_functionI [OF dfmax_red.vector_reduction_axioms]
  vector_functionI [OF min_red.vector_reduction_axioms] vector_functionI [OF nanmin_red.vector_reduction_axioms]
  vector_functionI [OF dfmin_red.vector_reduction_axioms] vector_functionI [OF mean_red.vector_reduction_axioms]
  vector_functionI [OF all_red.vector_reduction_axioms] vector_functionI [OF dfall_red.vector_reduction_axioms]
  vector_functionI [OF any_red.vector_reduction_axioms] vector_functionI [OF dfany_red.vector_reduction_axioms]

lemma reduce_table_vector:
  assumes "reduce_table func d = Inr (f, out)"
  shows "vector_function f"
  using assms
  by (cases func)
    (auto simp: reduce_table_def reduce_tables reduce_fns table_entry_def vector_functions split: if_splits)

context vector_reduction
begin

lemma takes:
  assumes "rf_reduction f = on_vector vector"
  shows "rf_reduction f u c data1 n = take_vector f u c (map data1 [0..<n])"
    "take_vector f u c [] = c" "take_vector f u c (xs @ ys) = take_vector f u (take_vector f u c xs) ys"
proof -
  have t: "take_vector f u c xs = set_res (vector (c_res c) xs) c" for c xs
    by (simp add: take_vector_def assms on_vector_def map_nth)
  show "rf_reduction f u c data1 n = take_vector f u c (map data1 [0..<n])"
    by (simp add: t) (simp add: assms on_vector_def)
  show "take_vector f u c [] = c" by (simp add: t vector_nil set_res_def)
  show "take_vector f u c (xs @ ys) = take_vector f u (take_vector f u c xs) ys"
    by (simp add: t vector_append set_res_def)
qed

end

lemma vector_function_take:
  assumes "vector_function f"
  shows "rf_reduction f u c data1 n = take_vector f u c (map data1 [0..<n])"
    "take_vector f u c [] = c" "take_vector f u c (xs @ ys) = take_vector f u (take_vector f u c xs) ys"
proof -
  obtain r step where "vector_reduction r step" "rf_reduction f = on_vector r"
    using assms by (auto simp: vector_function_def)
  from vector_reduction.takes [OF this]
  show "rf_reduction f u c data1 n = take_vector f u c (map data1 [0..<n])"
    "take_vector f u c [] = c" "take_vector f u c (xs @ ys) = take_vector f u (take_vector f u c xs) ys" .
qed

section \<open>Properties\<close>

lemma take_items:
  assumes "vector_reduction r step" "rf_reduction f = on_vector r" "rf_reduction g = on_item step"
  shows "foldl (take_item g u) c xs = take_vector f u c xs"
proof -
  have v: "take_vector f u c xs = set_res (r (c_res c) xs) c" for c xs
    by (simp add: take_vector_def assms(2) on_vector_def map_nth)
  have i: "take_item g u c x = take_vector f u c [x]" for c x
    using vector_reduction.oneshot_single [OF assms(1)] by (simp add: take_item_def v assms(3) on_item_def)
  note t = vector_reduction.takes(2,3) [OF assms(1,2)]
  show ?thesis
  proof (induction xs arbitrary: c)
    case (Cons x xs)
    then show ?case using t(2) [of u c "[x]" xs] by (simp add: i)
  qed (simp add: t(1))
qed

lemmas all_reductions = sum_red.vector_reduction_axioms nansum_red.vector_reduction_axioms prod_red.vector_reduction_axioms
  nanprod_red.vector_reduction_axioms max_red.vector_reduction_axioms nanmax_red.vector_reduction_axioms
  dfmax_red.vector_reduction_axioms min_red.vector_reduction_axioms nanmin_red.vector_reduction_axioms
  dfmin_red.vector_reduction_axioms mean_red.vector_reduction_axioms all_red.vector_reduction_axioms
  dfall_red.vector_reduction_axioms any_red.vector_reduction_axioms dfany_red.vector_reduction_axioms

lemmas take_all_items = all_reductions [THEN take_items]

text \<open>
  Claim C16. The one-shot variant of a reduction computes what the other one does: for every reduction and element type
  that the table of \<open>_iarray_reduce\<close> has, the table of \<open>_iarray_reduce2\<close> has a function with the same type of result,
  the same initialisation and the same end, and giving it the items of a vector one at a time leaves the same cell as
  giving the whole vector to the other function.
\<close>

theorem oneshot_functions_agree:
  assumes "reduce_table func d = Inr (f, out)"
  shows "\<exists>g. oneshot_table func d = Inr (g, out) \<and> rf_init g = rf_init f \<and> rf_finish g = rf_finish f \<and>
    (\<forall>u c xs. foldl (take_item g u) c xs = take_vector f u c xs)"
  using assms
  by (cases func)
    (auto simp: reduce_table_def oneshot_table_def oneshot_tables reduce_tables reduce_fns table_entry_def take_all_items split: if_splits)

theorem oneshot_functions_agree_witness:
  "\<exists>g. oneshot_table IARRAY_REDUCE_MAX IARRAY_DATA_TYPE_FLOAT = Inr (g, IARRAY_DATA_TYPE_FLOAT) \<and>
    rf_init g = rf_init (MAX_fn IARRAY_DATA_TYPE_FLOAT False False)"
proof -
  have "reduce_table IARRAY_REDUCE_MAX IARRAY_DATA_TYPE_FLOAT = Inr (MAX_fn IARRAY_DATA_TYPE_FLOAT False False, IARRAY_DATA_TYPE_FLOAT)"
    by (simp add: reduce_table_def max_table_def table_entry_def known_dtype_def)
  from oneshot_functions_agree [OF this] show ?thesis by blast
qed

text \<open>The sort of the median on integers.\<close>

lemma median_insert_ints: "median_insert (VInt x) (map VInt xs) = map VInt (insort x xs)"
  by (induction xs) auto

lemma median_sort_ints: "median_sort (map VInt xs) = map VInt (sort xs)"
  by (induction xs) (simp_all add: median_sort_def median_insert_ints sort_key_def)

text \<open>
  Claim C17. The median of integers: after the items of a line have been taken in, the end of the reduction leaves the
  middle item of the sorted line, converted to the type of the result, if their number is odd, and half of the sum of
  the two middle ones if it is even, where the sum is computed in the promoted type of the items and so wraps around.
\<close>

theorem median_of_line:
  assumes "xs \<noteq> []" and "cell = foldl (take_item (MEDIAN_fn itype otype False) u) (MEDIAN_I c) (map VInt xs)"
  shows "map_option c_res (rf_finish (MEDIAN_fn itype otype False) u cell) = Some (of_dbl otype
    (if odd (length xs) then as_dbl (VInt (sort xs ! (length xs div 2)))
     else fp_times to_double (as_dbl (c_add (promoted itype) (VInt (sort xs ! (length xs div 2 - 1))) (VInt (sort xs ! (length xs div 2)))))
       (Fin (1 / 2))))"
proof -
  have "foldl (take_item (MEDIAN_fn itype otype False) u) c (map VInt xs) =
      c\<lparr>medians := medians c @ map VInt xs, not_nan_nelems := not_nan_nelems c + int (length xs)\<rparr>" for c
    by (induction xs arbitrary: c) (simp_all add: take_item_def MEDIAN_fn_def MEDIAN_R_def Let_def)
  then have cell: "medians cell = map VInt xs" "not_nan_nelems cell = int (length xs)" "nan_nelems cell = 0"
    by (simp_all add: assms(2) MEDIAN_I_def)
  have "median_of itype otype (map VInt xs) = Some (of_dbl otype
    (if odd (length xs) then as_dbl (VInt (sort xs ! (length xs div 2)))
     else fp_times to_double (as_dbl (c_add (promoted itype) (VInt (sort xs ! (length xs div 2 - 1))) (VInt (sort xs ! (length xs div 2)))))
       (Fin (1 / 2))))"
  proof -
    have n: "0 < length xs" using assms(1) by simp
    have i: "length xs div 2 < length xs" "length xs div 2 - 1 < length xs" using n by linarith+
    show ?thesis using n i by (simp add: median_of_def Let_def median_sort_ints)
  qed
  then show ?thesis using cell by (simp add: MEDIAN_fn_def MEDIAN_F_def set_res_def option.map_comp comp_def)
qed

theorem median_of_line_witness:
  "map_option c_res (rf_finish (MEDIAN_fn IARRAY_DATA_TYPE_INT32 IARRAY_DATA_TYPE_DOUBLE False)
      \<lparr> inv_nelem = Fin 1, ud_correction = Fin 0, ud_mean = VInt 0 \<rparr>
      (foldl (take_item (MEDIAN_fn IARRAY_DATA_TYPE_INT32 IARRAY_DATA_TYPE_DOUBLE False)
          \<lparr> inv_nelem = Fin 1, ud_correction = Fin 0, ud_mean = VInt 0 \<rparr>)
        (MEDIAN_I \<lparr> c_res = VInt 0, not_nan_nelems = 7, nan_nelems = 7, medians = [] \<rparr>) (map VInt [9, 1, 4, 2]))) = Some (VFp (Fin 3))"
  by (subst median_of_line [OF _ refl]; code_simp)

end
