(* ===== verification/Reduce.thy ===== *)
theory Reduce
  imports ReduceOps Compressor
begin

text \<open>
  Reduction of one dimension after the other (\<^verbatim>\<open>src/reductions/iarray_reduce.c\<close>). The result is written block by
  block: c-blosc2 calls a prefilter for every block of every chunk of the result, and the prefilter reads the blocks
  of the input through which the lines of its items run. Shown is that each item of the result is the reduction of
  its whole line, whatever the chunks and blocks.
\<close>

section \<open>The prefilter\<close>

record 'd iarray_reduce_params =
  rp_ufunc :: iarray_reduce_function
  rp_input :: "'d container"
  rp_result :: "'d container"
  rp_axis :: nat
  rp_out_chunkshape :: "int list"
  rp_nchunk :: int

definition check_padding :: "int list \<Rightarrow> int list \<Rightarrow> 'd caterva_array \<Rightarrow> int list \<Rightarrow> bool" where
  "check_padding block_offset_n elem_index_n result out_chunkshape =
     (let elem_index_n2 = set_prefix (c_ndim result) (\<lambda>i. elem_index_n ! i + block_offset_n ! i * c_blockshape result ! i) fresh_slots
      in list_ex (\<lambda>i. out_chunkshape ! i \<le> elem_index_n2 ! i) [0..<c_ndim result])"

text \<open>
  The number of the chunk, or block, of the input with the position \<open>ind\<close> along the reduced dimension and the
  position \<open>offset\<close> along the others.
\<close>

definition part_number :: "nat \<Rightarrow> nat \<Rightarrow> int list \<Rightarrow> int list \<Rightarrow> int \<Rightarrow> int" where
  "part_number n axis offset strides ind =
     fold (\<lambda>j k. if j < axis then k + offset ! j * strides ! j else k + offset ! j * strides ! (j + 1)) [0..<n]
       (ind * strides ! axis)"

definition vector_nelems :: "'d caterva_array \<Rightarrow> nat \<Rightarrow> int \<Rightarrow> int \<Rightarrow> int" where
  "vector_nelems cat axis chunk_ind block_ind =
     (let b = c_blockshape cat ! axis;
          aux = block_ind * b + chunk_ind * c_chunkshape cat ! axis;
          nelems = (if aux + b > c_shape cat ! axis then c_shape cat ! axis - aux else b);
          aux2 = block_ind * b;
          nelems2 = (if aux2 + b > c_chunkshape cat ! axis then c_chunkshape cat ! axis - aux2 else b)
      in if nelems2 < nelems then nelems2 else nelems)"

text \<open>The first item of the line in the block of the input.\<close>

definition slice_elem :: "nat \<Rightarrow> nat \<Rightarrow> int list \<Rightarrow> int list \<Rightarrow> int" where
  "slice_elem n axis strides elem_index_n =
     (let e = fold (\<lambda>i e. e[i := if i > axis then e ! (i - 1) else if i = axis then 0 else e ! i]) (rev [0..<n]) elem_index_n
      in fold (\<lambda>i u. u + e ! i * strides ! i) [0..<n] 0)"

text \<open>
  The type of the pointer into the block, by the types of the result and of the input, and the access of a function
  for items of type \<open>d\<close> through a pointer that was computed for items of type \<open>p\<close>. At an address that is not the
  one of an item the bytes of two items are read, which is the function \<open>torn\<close>.
\<close>

definition block_pointer :: "iarray_data_type \<Rightarrow> iarray_data_type \<Rightarrow> iarray_data_type res" where
  "block_pointer out d = (case out of
       IARRAY_DATA_TYPE_DOUBLE \<Rightarrow> if d = IARRAY_DATA_TYPE_MAX then Inl IARRAY_ERR_INVALID_DTYPE else Inr d
     | IARRAY_DATA_TYPE_INT64 \<Rightarrow>
         if d \<in> {IARRAY_DATA_TYPE_INT64, IARRAY_DATA_TYPE_INT32, IARRAY_DATA_TYPE_INT16, IARRAY_DATA_TYPE_INT8,
              IARRAY_DATA_TYPE_BOOL} then Inr d else Inl IARRAY_ERR_INVALID_DTYPE
     | IARRAY_DATA_TYPE_UINT64 \<Rightarrow>
         if d \<in> {IARRAY_DATA_TYPE_UINT64, IARRAY_DATA_TYPE_UINT32, IARRAY_DATA_TYPE_UINT16, IARRAY_DATA_TYPE_UINT8}
         then Inr d else Inl IARRAY_ERR_INVALID_DTYPE
     | IARRAY_DATA_TYPE_MAX \<Rightarrow> Inl IARRAY_ERR_INVALID_DTYPE
     | _ \<Rightarrow> Inr out)"

definition load :: "(ina_val list \<Rightarrow> int \<Rightarrow> ina_val) \<Rightarrow> ina_val list \<Rightarrow> iarray_data_type \<Rightarrow> iarray_data_type \<Rightarrow> int \<Rightarrow> int \<Rightarrow> ina_val" where
  "load torn block d p elem_index_u i =
     (let addr = itemsize_of p * elem_index_u + itemsize_of d * i
      in if addr mod itemsize_of d = 0 then block ! nat (addr div itemsize_of d) else torn block addr)"

text \<open>A loop over the items of the block, each of which has its own cell.\<close>

definition for_items :: "(int \<Rightarrow> reduce_cell \<Rightarrow> reduce_cell res) \<Rightarrow> reduce_cell list \<Rightarrow> reduce_cell list res" where
  "for_items f cells = res_map (\<lambda>(ind, c). f (int ind) c) (enumerate 0 cells)"

definition known_result :: "'d iarray_reduce_params \<Rightarrow> 'a \<Rightarrow> 'a res" where
  "known_result rp x = (if dtype (dtshape (rp_result rp)) = IARRAY_DATA_TYPE_MAX then Inl IARRAY_ERR_INVALID_DTYPE else Inr x)"

text \<open>
  \<open>padding ind\<close>: the item \<open>ind\<close> of the block lies outside of the array. The three passes over the items: the
  initialisation, one pass for each block of the input, the end, which sets padding to 0.
\<close>

definition init_pass :: "'d iarray_reduce_params \<Rightarrow> (int \<Rightarrow> bool) \<Rightarrow> reduce_cell list \<Rightarrow> reduce_cell list res" where
  "init_pass rp padding = for_items (\<lambda>ind c. known_result rp (if padding ind then c else rf_init (rp_ufunc rp) c))"

definition reduce_pass ::
    "(ina_val list \<Rightarrow> int \<Rightarrow> ina_val) \<Rightarrow> 'd iarray_reduce_params \<Rightarrow> user_data_os \<Rightarrow> int list \<Rightarrow> (int \<Rightarrow> int list) \<Rightarrow> (int \<Rightarrow> bool) \<Rightarrow>
     ina_val list \<Rightarrow> int \<Rightarrow> reduce_cell list \<Rightarrow> reduce_cell list res" where
  "reduce_pass torn rp u strides elem_index padding block nelems =
     for_items (\<lambda>ind c.
       if padding ind then known_result rp c
       else res_bind (block_pointer (dtype (dtshape (rp_result rp))) (dtype (dtshape (rp_input rp)))) (\<lambda>p.
         let elem_index_u = slice_elem (ndim (dtshape (rp_input rp))) (rp_axis rp) strides (elem_index ind)
         in Inr (rf_reduction (rp_ufunc rp) u c
              (\<lambda>i. load torn block (dtype (dtshape (rp_input rp))) p elem_index_u (int i * strides ! rp_axis rp)) (nat nelems))))"

definition finish_pass :: "'d iarray_reduce_params \<Rightarrow> user_data_os \<Rightarrow> (int \<Rightarrow> bool) \<Rightarrow> reduce_cell list \<Rightarrow> reduce_cell list res" where
  "finish_pass rp u padding = for_items (\<lambda>ind c.
     res_bind (known_result rp c) (\<lambda>c.
       if padding ind then Inr (set_res (c_zero (dtype (dtshape (rp_result rp)))) c)
       else case rf_finish (rp_ufunc rp) u c of None \<Rightarrow> Inl INA_ERR_INVALID | Some c \<Rightarrow> Inr c))"

text \<open>
  \<open>_reduce_prefilter\<close>. \<open>nblock\<close> is the number of the block in the chunk of the result (\<open>out_offset / out_size\<close>);
  \<open>cells\<close> are the items of the output and of the user data before the call, which hold anything. The value -1 that
  is returned when the input cannot be read is \<open>IARRAY_ERR_BLOSC_FAILED\<close> here; c-blosc2 asks only whether it is 0.
\<close>

definition reduce_prefilter ::
    "('d, 'k) blosc_api \<Rightarrow> (ina_val list \<Rightarrow> int \<Rightarrow> ina_val) \<Rightarrow> 'd iarray_reduce_params \<Rightarrow> reduce_cell list \<Rightarrow> int \<Rightarrow> ina_val list res" where
  "reduce_prefilter api torn rp cells nblock =
     (let cin = catarr (rp_input rp); cout = catarr (rp_result rp);
          n = ndim (dtshape (rp_input rp)); axis = rp_axis rp;
          u = \<lparr> inv_nelem = fp_div (Fin 1) (dbl (of_int (shape (dtshape (rp_input rp)) ! axis))),
                ud_correction = Fin 0, ud_mean = VInt 0 \<rparr>;
          chunk_offset_n = decode (c_ndim cout) (grid (c_ndim cout) (c_extshape cout) (c_chunkshape cout)) (rp_nchunk rp);
          shape_of_blocks = grid (c_ndim cout) (c_extchunkshape cout) (c_blockshape cout);
          block_offset_n = decode (c_ndim cout) shape_of_blocks nblock;
          strides = compute_strides n (blockshape (storage (rp_input rp))) (replicate IARRAY_DIMENSION_MAX 0);
          nblocks = cdiv (c_extchunkshape cin ! axis) (c_blockshape cin ! axis);
          block_strides = compute_strides n (grid n (c_extchunkshape cin) (c_blockshape cin)) fresh_slots;
          nchunks = cdiv (c_extshape cin ! axis) (c_chunkshape cin ! axis);
          chunk_strides = compute_strides n (grid n (c_extshape cin) (c_chunkshape cin)) fresh_slots;
          elem_index = (\<lambda>ind. decode (c_ndim cout) (blockshape (storage (rp_result rp))) ind);
          padding = (\<lambda>ind. check_padding block_offset_n (elem_index ind) cout (rp_out_chunkshape rp))
      in res_bind (init_pass rp padding cells) (\<lambda>cells.
         res_bind (res_fold (\<lambda>chunk_ind cells.
             let nchunk = part_number (c_ndim cout) axis chunk_offset_n chunk_strides chunk_ind
             in case get_lazychunk api (c_data cin) nchunk of None \<Rightarrow> Inl IARRAY_ERR_BLOSC_FAILED
                | Some chunk \<Rightarrow> res_fold (\<lambda>block_ind cells.
                    let nblock' = part_number (c_ndim cout) axis (map2 cmod block_offset_n shape_of_blocks) block_strides block_ind;
                        start = nblock' * blocknitems cin
                    in case getitem_ctx api chunk start (blocknitems cin) of None \<Rightarrow> Inl IARRAY_ERR_BLOSC_FAILED
                       | Some block \<Rightarrow> reduce_pass torn rp u strides elem_index padding block
                           (vector_nelems cin axis chunk_ind block_ind) cells)
                  (below nblocks) cells)
           (below nchunks) cells) (\<lambda>cells.
         res_bind (finish_pass rp u padding cells) (\<lambda>cells. Inr (map c_res cells)))))"

section \<open>All chunks of the result\<close>

text \<open>
  \<open>_iarray_reduce_udf\<close>. \<open>fresh\<close> is what the output buffer and the user data hold before a block is written. Both
  branches on the flag \<open>optimized\<close> install the same prefilter, so that there is no such argument.
\<close>

definition iarray_reduce_udf ::
    "('d, 'k) blosc_api \<Rightarrow> (ina_val list \<Rightarrow> int \<Rightarrow> ina_val) \<Rightarrow> (int \<Rightarrow> int \<Rightarrow> nat \<Rightarrow> reduce_cell) \<Rightarrow>
     (iarray_compression_codec \<Rightarrow> int) \<Rightarrow> blosc2_cparams \<Rightarrow> iarray_config \<Rightarrow>
     (caterva_params \<Rightarrow> caterva_storage \<Rightarrow> 'd caterva_array res) \<Rightarrow> 'd container \<Rightarrow> iarray_reduce_function \<Rightarrow> nat \<Rightarrow>
     iarray_storage \<Rightarrow> iarray_data_type \<Rightarrow> 'd container res" where
  "iarray_reduce_udf api torn fresh zfp_code cparams_defaults cfg caterva_empty a ufunc axis st res_dtype =
     (if ndim (dtshape a) < 1 then Inl IARRAY_ERR_INVALID_NDIM
      else let n = ndim (dtshape a) - 1;
               d = \<lparr> dtype = res_dtype, dtype_size = 0, ndim = n,
                     shape = set_prefix n (\<lambda>i. if i < axis then shape (dtshape a) ! i else shape (dtshape a) ! (i + 1)) fresh_slots \<rparr>
      in res_bind (iarray_empty caterva_empty d st) (\<lambda>c.
         let cat = catarr c;
             shape_of_chunks = grid (ndim (dtshape c)) (c_extshape cat) (c_chunkshape cat);
             cparams = iarray_create_blosc_cparams zfp_code cparams_defaults cfg (c_itemsize cat) (blocknitems cat * c_itemsize cat)
         in res_bind (compress_chunks api cparams
             (\<lambda>c chunk_index nchunk nblock.
               let cat = catarr c;
                   elem_index = set_prefix (ndim (dtshape c)) (\<lambda>i. chunk_index ! i * c_chunkshape cat ! i) (replicate IARRAY_DIMENSION_MAX 0);
                   chunk_shape = set_prefix (ndim (dtshape c)) (\<lambda>i.
                       if elem_index ! i + c_chunkshape cat ! i \<le> c_shape cat ! i then c_chunkshape cat ! i
                       else c_shape cat ! i - elem_index ! i) (replicate IARRAY_DIMENSION_MAX 0);
                   rp = \<lparr> rp_ufunc = ufunc, rp_input = a, rp_result = c, rp_axis = axis, rp_out_chunkshape = chunk_shape, rp_nchunk = nchunk \<rparr>
               in reduce_prefilter api torn rp (map (fresh nchunk nblock) [0..<nat (blocknitems cat)]) nblock)
             (\<lambda>chunk_index nchunk. iarray_index_unidim_to_multidim_shape (ndim (dtshape c)) shape_of_chunks (nchunk + 1) chunk_index)
             (cdiv (extnitems cat) (chunknitems cat)) (c, replicate IARRAY_DIMENSION_MAX 0)) (\<lambda>(c, chunk_index). Inr c)))"

text \<open>\<open>_iarray_reduce\<close>: the function and the type of the result are those of the table.\<close>

definition iarray_reduce1 ::
    "('d, 'k) blosc_api \<Rightarrow> (ina_val list \<Rightarrow> int \<Rightarrow> ina_val) \<Rightarrow> (int \<Rightarrow> int \<Rightarrow> nat \<Rightarrow> reduce_cell) \<Rightarrow>
     (iarray_compression_codec \<Rightarrow> int) \<Rightarrow> blosc2_cparams \<Rightarrow> iarray_config \<Rightarrow>
     (caterva_params \<Rightarrow> caterva_storage \<Rightarrow> 'd caterva_array res) \<Rightarrow> 'd container \<Rightarrow> iarray_reduce_func \<Rightarrow> nat \<Rightarrow>
     iarray_storage \<Rightarrow> 'd container res" where
  "iarray_reduce1 api torn fresh zfp_code cparams_defaults cfg caterva_empty a func axis st =
     res_bind (reduce_table func (dtype (dtshape a))) (\<lambda>(f, out).
       iarray_reduce_udf api torn fresh zfp_code cparams_defaults cfg caterva_empty a f axis st out)"

lemma part_number_flat:
  assumes "length ns = Suc n" "k \<le> n" "length ys = n" "take n off = ys" "take (Suc n) st = strides_of ns"
  shows "part_number n k off st x = flat ns (ins k x ys)"
proof -
  have s: "st ! i = strides_of ns ! i" if "i < Suc n" for i using take_eq_nth [OF assms(5) that] .
  have o: "off ! i = ys ! i" if "i < n" for i using take_eq_nth [OF assms(4) that] .
  have "part_number n k off st x =
      fold (\<lambda>j u. u + ys ! j * strides_of ns ! (if j < k then j else Suc j)) [0..<n] (x * strides_of ns ! k)"
    unfolding part_number_def using assms(2) by (intro fold_cong) (simp_all add: s o)
  then show ?thesis using flat_ins [OF assms(1-3)] by simp
qed

lemma shift_up:
  "n \<le> length e \<Longrightarrow> i < length e \<Longrightarrow>
   fold (\<lambda>i e. e[i := if i > k then e ! (i - 1) else if i = k then 0 else e ! i]) (rev [0..<n]) (e :: int list) ! i =
   (if i < n then if i > k then e ! (i - 1) else if i = k then 0 else e ! i else e ! i)"
proof (induction n arbitrary: e)
  case (Suc n)
  show ?case
  proof (cases "i = n")
    case True
    then show ?thesis using Suc by simp
  next
    case False
    then show ?thesis using Suc by (auto simp: nth_list_update)
  qed
qed simp

lemma length_shift: "length (fold (\<lambda>i e. e[i := g i e]) js e) = length e"
  by (induction js arbitrary: e) simp_all

lemma slice_elem_flat:
  assumes "length bs = Suc n" "k \<le> n" "length ye = n" "Suc n \<le> length e" "take n e = ye" "take (Suc n) st = strides_of bs"
  shows "slice_elem (Suc n) k st e = flat bs (ins k 0 ye)"
proof -
  let ?e = "fold (\<lambda>i e. e[i := if i > k then e ! (i - 1) else if i = k then 0 else e ! i]) (rev [0..<Suc n]) e"
  have "slice_elem (Suc n) k st e = sum_list (map (\<lambda>i. ?e ! i * st ! i) [0..<Suc n])"
    by (simp only: slice_elem_def Let_def fold_plus)
  also have "map (\<lambda>i. ?e ! i * st ! i) [0..<Suc n] = map (\<lambda>i. ins k 0 ye ! i * strides_of bs ! i) [0..<Suc n]"
  proof (rule map_cong [OF refl])
    fix i assume "i \<in> set [0..<Suc n]"
    then have i: "i < Suc n" by (simp del: upt_Suc)
    have y: "e ! j = ye ! j" if "j < n" for j using take_eq_nth [OF assms(5) that] .
    have "?e ! i = ins k 0 ye ! i"
      using i assms y by (subst shift_up) (auto simp: ins_nth)
    then show "?e ! i * st ! i = ins k 0 ye ! i * strides_of bs ! i" using take_eq_nth [OF assms(6) i] by simp
  qed
  finally show ?thesis using flat_sum [of "ins k 0 ye" bs] assms by simp
qed

section \<open>Loops over cells\<close>

lemma for_items_Inr:
  assumes "\<And>i. i < length cells \<Longrightarrow> f (int i) (cells ! i) = Inr (g i (cells ! i))"
  shows "for_items f cells = Inr (map (\<lambda>i. g i (cells ! i)) [0..<length cells])"
proof -
  have "res_map (\<lambda>(ind, c). f (int ind) c) (enumerate 0 cells) = Inr (map (\<lambda>(ind, c). g ind c) (enumerate 0 cells))"
    using assms by (intro res_map_Inr) (auto simp: in_set_enumerate_eq)
  also have "map (\<lambda>(ind, c). g ind c) (enumerate 0 cells) = map (\<lambda>i. g i (cells ! i)) [0..<length cells]"
    by (rule nth_equalityI) (simp_all add: nth_enumerate_eq)
  finally show ?thesis by (simp add: for_items_def)
qed

lemma res_fold_cells:
  assumes "\<And>x cs. x \<in> set xs \<Longrightarrow> length cs = L \<Longrightarrow> body x cs = Inr (map (\<lambda>i. g x i (cs ! i)) [0..<L])" "length cells = L"
  shows "res_fold body xs cells = Inr (map (\<lambda>i. fold (\<lambda>x. g x i) xs (cells ! i)) [0..<L])"
  using assms
proof (induction xs arbitrary: cells)
  case Nil
  then show ?case by (auto simp: map_nth)
next
  case (Cons x xs)
  have "res_fold body xs (map (\<lambda>i. g x i (cells ! i)) [0..<L]) =
      Inr (map (\<lambda>i. fold (\<lambda>x. g x i) xs (map (\<lambda>i. g x i (cells ! i)) [0..<L] ! i)) [0..<L])"
    by (rule Cons.IH) (use Cons.prems in simp_all)
  then show ?case using Cons.prems by (simp cong: map_cong)
qed

lemma fold_vectors:
  assumes "vector_function f"
  shows "fold (\<lambda>a c. fold (\<lambda>b c. take_vector f u c (P a b)) bs c) as c = take_vector f u c (concat (map (\<lambda>a. concat (map (P a) bs)) as))"
proof -
  note v = vector_function_take(2,3) [OF assms]
  have "fold (\<lambda>b c. take_vector f u c (Q b)) js c = take_vector f u c (concat (map Q js))" for Q js c
    by (induction js arbitrary: c) (simp_all add: v)
  then have inner: "fold (\<lambda>b c. take_vector f u c (P a b)) bs = (\<lambda>c. take_vector f u c (concat (map (P a) bs)))" for a
    by (rule ext)
  show ?thesis unfolding inner by (induction "as" arbitrary: c) (simp_all add: v)
qed

section \<open>What a reduction computes\<close>

text \<open>
  \<open>reduction_ready\<close>: the result has the shape, chunks and blocks of the input without the reduced dimension.
\<close>

definition reduction_ready :: "'d iarray_reduce_params \<Rightarrow> bool" where
  "reduction_ready rp \<longleftrightarrow> (let a = rp_input rp; b = rp_result rp; k = rp_axis rp in
     plain_container a \<and> plain_container b \<and> k < ndim (dtshape a) \<and> ndim (dtshape b) = ndim (dtshape a) - 1 \<and>
     ns_of b = del k (ns_of a) \<and> cs_of b = del k (cs_of a) \<and> bs_of b = del k (bs_of a) \<and>
     0 \<le> rp_nchunk rp \<and> rp_nchunk rp < block_count (ns_of b) (cs_of b) \<and>
     (\<forall>i < ndim (dtshape b). rp_out_chunkshape rp ! i = block_extent (ns_of b) (cs_of b) (rp_nchunk rp) ! i))"

text \<open>A line, reduced: initialisation of a cell (which may have any contents), all items in order, the end.\<close>

definition reduce_line :: "iarray_reduce_function \<Rightarrow> user_data_os \<Rightarrow> reduce_cell \<Rightarrow> ina_val list \<Rightarrow> ina_val" where
  "reduce_line f u c xs = c_res (the (rf_finish f u (take_vector f u (rf_init f c) xs)))"

definition reduce_user_data :: "int \<Rightarrow> user_data_os" where
  "reduce_user_data len = \<lparr> inv_nelem = fp_div (Fin 1) (dbl (of_int len)), ud_correction = Fin 0, ud_mean = VInt 0 \<rparr>"

definition reads_items :: "iarray_data_type \<Rightarrow> iarray_data_type \<Rightarrow> bool" where
  "reads_items out d \<longleftrightarrow> (\<exists>p. block_pointer out d = Inr p \<and> itemsize_of p = itemsize_of d) \<and> 0 < itemsize_of d"

lemma load_item:
  assumes "itemsize_of p = itemsize_of d" "0 < itemsize_of d"
  shows "load torn block d p u i = block ! nat (u + i)"
proof -
  have "itemsize_of p * u + itemsize_of d * i = (u + i) * itemsize_of d" using assms by (simp add: algebra_simps)
  then show ?thesis using assms by (simp add: load_def)
qed

text \<open>The items of a vector.\<close>

lemma vector_is_piece:
  assumes "plain_container a" "k < ndim (dtshape a)"
  shows "nat (vector_nelems (catarr a) k y x) = length (piece (ns_of a ! k) (cs_of a ! k) (bs_of a ! k) y x)"
    "i < nat (vector_nelems (catarr a) k y x) \<Longrightarrow> int i < bs_of a ! k \<and> x * bs_of a ! k + int i < min (cs_of a ! k) (ns_of a ! k - y * cs_of a ! k)"
    "i < nat (vector_nelems (catarr a) k y x) \<Longrightarrow>
     piece (ns_of a ! k) (cs_of a ! k) (bs_of a ! k) y x ! i = y * cs_of a ! k + (x * bs_of a ! k + int i)"
proof -
  have "vector_nelems (catarr a) k y x = min (bs_of a ! k) (min (cs_of a ! k) (ns_of a ! k - y * cs_of a ! k) - x * bs_of a ! k)"
    using plain_fields [OF assms] by (simp add: vector_nelems_def Let_def)
  then show "nat (vector_nelems (catarr a) k y x) = length (piece (ns_of a ! k) (cs_of a ! k) (bs_of a ! k) y x)"
    "i < nat (vector_nelems (catarr a) k y x) \<Longrightarrow> int i < bs_of a ! k \<and> x * bs_of a ! k + int i < min (cs_of a ! k) (ns_of a ! k - y * cs_of a ! k)"
    "i < nat (vector_nelems (catarr a) k y x) \<Longrightarrow>
     piece (ns_of a ! k) (cs_of a ! k) (bs_of a ! k) y x ! i = y * cs_of a ! k + (x * bs_of a ! k + int i)"
    by (auto simp: piece_def below_nth)
qed

section \<open>The passes of the prefilter\<close>

lemma block_pointer_known: "block_pointer out d = Inr p \<Longrightarrow> out \<noteq> IARRAY_DATA_TYPE_MAX"
  by (auto simp: block_pointer_def)

lemma reduce_pass_map:
  assumes "block_pointer (dtype (dtshape (rp_result rp))) (dtype (dtshape (rp_input rp))) = Inr p"
    "itemsize_of p = itemsize_of (dtype (dtshape (rp_input rp)))" "0 < itemsize_of (dtype (dtshape (rp_input rp)))"
    "vector_function (rp_ufunc rp)" "length cells = L"
  shows "reduce_pass torn rp u st ei pad block nelems cells = Inr (map (\<lambda>i. if pad (int i) then cells ! i
    else take_vector (rp_ufunc rp) u (cells ! i)
      (map (\<lambda>j. block ! nat (slice_elem (ndim (dtshape (rp_input rp))) (rp_axis rp) st (ei (int i)) + int j * st ! rp_axis rp))
        [0..<nat nelems])) [0..<L])"
  unfolding reduce_pass_def using assms(5) block_pointer_known [OF assms(1)] vector_function_take(1) [OF assms(4)]
  by (subst for_items_Inr [where g = "\<lambda>i c. if pad (int i) then c else take_vector (rp_ufunc rp) u c
      (map (\<lambda>j. block ! nat (slice_elem (ndim (dtshape (rp_input rp))) (rp_axis rp) st (ei (int i)) + int j * st ! rp_axis rp))
        [0..<nat nelems])"])
    (simp_all add: assms(1) known_result_def load_item [OF assms(2,3)])

lemma ready_dims:
  assumes "reduction_ready rp"
  obtains n where "ndim (dtshape (rp_input rp)) = Suc n" "ndim (dtshape (rp_result rp)) = n" "rp_axis rp \<le> n"
    "c_ndim (catarr (rp_result rp)) = n" "Suc n \<le> 8"
proof -
  have "rp_axis rp < ndim (dtshape (rp_input rp))" "ndim (dtshape (rp_result rp)) = ndim (dtshape (rp_input rp)) - 1"
    "plain_container (rp_input rp)" "plain_container (rp_result rp)"
    using assms by (simp_all add: reduction_ready_def Let_def)
  then show thesis using that [of "ndim (dtshape (rp_input rp)) - 1"] plain_slots(1,2) [of "rp_result rp"]
      plain_slots(2) [of "rp_input rp"] by simp
qed

lemma check_padding_live:
  assumes "reduction_ready rp" "0 \<le> w" "w < block_count (cs_of (rp_result rp)) (bs_of (rp_result rp))"
    "0 \<le> e" "e < prod_list (bs_of (rp_result rp))" "n = c_ndim (catarr (rp_result rp))"
  shows "check_padding
      (decode n (grid n (c_extchunkshape (catarr (rp_result rp))) (c_blockshape (catarr (rp_result rp)))) w)
      (decode n (blockshape (storage (rp_result rp))) e) (catarr (rp_result rp)) (rp_out_chunkshape rp) \<longleftrightarrow>
    \<not> live (ns_of (rp_result rp)) (cs_of (rp_result rp)) (bs_of (rp_result rp)) (rp_nchunk rp) w e"
proof -
  let ?b = "rp_result rp" let ?ns = "ns_of ?b" and ?cs = "cs_of ?b" and ?bs = "bs_of ?b"
  have b: "plain_container ?b" and oc: "\<forall>i < ndim (dtshape ?b). rp_out_chunkshape rp ! i = block_extent ?ns ?cs (rp_nchunk rp) ! i"
    using assms(1) by (simp_all add: reduction_ready_def Let_def)
  note l = plain_slots [OF b] and ps = nested_pos [OF plain_nested [OF b]] and gd = nested_good [OF plain_nested [OF b]]
  have n: "n = ndim (dtshape ?b)" using assms(6) l(1) by simp
  have pos: "all_pos (blocks_of ?cs ?bs)" using gd good_blocks_of by (auto simp: good_shape_def)
  have off: "decode n (grid n (c_extchunkshape (catarr ?b)) (c_blockshape (catarr ?b))) w = unflat (blocks_of ?cs ?bs) w @ replicate (8 - n) 0"
    using grid_plain(2) [OF b n] pos l(2) n assms(2) by (intro decode_unflat) simp_all
  have el: "decode n (blockshape (storage ?b)) e = unflat ?bs e @ replicate (8 - n) 0"
    using l n ps assms(4) by (intro decode_unflat) simp_all
  have loc: "unflat ?bs e ! i + unflat (blocks_of ?cs ?bs) w ! i * c_blockshape (catarr ?b) ! i = local_item ?cs ?bs w e ! i"
    if "i < n" for i
    using that n l(3-5) plain_fields(3) [OF b, of i] by (simp add: local_item_def block_start_nth)
  have ge: "0 \<le> local_item ?cs ?bs w e ! i" if "i < n" for i
  proof -
    have "0 \<le> unflat ?bs e ! i" using unflat_in_box [of ?bs e] ps assms(4,5) that n l by (auto simp: in_box_nth)
    moreover have "0 \<le> unflat (blocks_of ?cs ?bs) w ! i"
      using unflat_in_box [OF pos assms(2)] assms(3) that n l by (auto simp: in_box_nth block_count_def)
    ultimately show ?thesis using that n l ps by (auto simp: local_item_def block_start_nth all_pos_nth)
  qed
  have "check_padding (unflat (blocks_of ?cs ?bs) w @ replicate (8 - n) 0) (unflat ?bs e @ replicate (8 - n) 0) (catarr ?b)
      (rp_out_chunkshape rp) \<longleftrightarrow> (\<exists>i < n. block_extent ?ns ?cs (rp_nchunk rp) ! i \<le> local_item ?cs ?bs w e ! i)"
    unfolding check_padding_def Let_def list_ex_iff using n l oc loc
    by (auto simp: set_prefix_nth fresh_slots_def IARRAY_DIMENSION_MAX_def nth_append)
  also have "\<dots> \<longleftrightarrow> \<not> live ?ns ?cs ?bs (rp_nchunk rp) w e"
    using ge n l(3-5) by (auto simp: live_def in_box_nth not_le)
  finally show ?thesis by (simp add: off el)
qed

text \<open>The digits of the block, taken modulo the number of blocks, are the digits.\<close>

lemma mod_digits:
  assumes "in_box ns ys" "take n sh = ns" "length ys = n"
  shows "take n (map2 cmod (ys @ zs) sh) = ys"
proof (rule nth_equalityI)
  have "length ns = n" using in_box_length [OF assms(1)] assms(3) by simp
  then have "n \<le> length sh" using assms(2) by (metis length_take min.cobounded1)
  then show "length (take n (map2 cmod (ys @ zs) sh)) = length ys" using assms(3) by simp
  fix i assume "i < length (take n (map2 cmod (ys @ zs) sh))"
  then have i: "i < n" "i < length sh" by simp_all
  have "sh ! i = ns ! i" using take_eq_nth [OF assms(2) i(1)] .
  moreover have "0 \<le> ys ! i" "ys ! i < ns ! i" using assms i by (auto simp: in_box_nth)
  ultimately show "take n (map2 cmod (ys @ zs) sh) ! i = ys ! i"
    using i assms(3) by (simp add: nth_append c_arith)
qed

text \<open>
  For the chunk \<open>y\<close> and the block \<open>x\<close> along the reduced dimension: the parts of the input that are read, and the
  items of each line in them.
\<close>

lemma read_piece:
  assumes "reduction_ready rp" "stores api (rp_input rp) A"
    and "0 \<le> w" "w < block_count (cs_of (rp_result rp)) (bs_of (rp_result rp))"
    and "0 \<le> y" "y < ceil_blocks (ns_of (rp_input rp) ! rp_axis rp) (cs_of (rp_input rp) ! rp_axis rp)"
    and "0 \<le> x" "x < ceil_blocks (cs_of (rp_input rp) ! rp_axis rp) (bs_of (rp_input rp) ! rp_axis rp)"
    and "n = ndim (dtshape (rp_input rp))" "m = c_ndim (catarr (rp_result rp))"
  shows "\<exists>chunk block.
    get_lazychunk api (c_data (catarr (rp_input rp)))
      (part_number m (rp_axis rp) (decode m (grid m (c_extshape (catarr (rp_result rp))) (c_chunkshape (catarr (rp_result rp)))) (rp_nchunk rp))
        (compute_strides n (grid n (c_extshape (catarr (rp_input rp))) (c_chunkshape (catarr (rp_input rp)))) fresh_slots) y) = Some chunk \<and>
    getitem_ctx api chunk
      (part_number m (rp_axis rp) (map2 cmod
          (decode m (grid m (c_extchunkshape (catarr (rp_result rp))) (c_blockshape (catarr (rp_result rp)))) w)
          (grid m (c_extchunkshape (catarr (rp_result rp))) (c_blockshape (catarr (rp_result rp)))))
        (compute_strides n (grid n (c_extchunkshape (catarr (rp_input rp))) (c_blockshape (catarr (rp_input rp)))) fresh_slots) x *
       blocknitems (catarr (rp_input rp))) (blocknitems (catarr (rp_input rp))) = Some block \<and>
    (\<forall>e. 0 \<le> e \<longrightarrow> e < prod_list (bs_of (rp_result rp)) \<longrightarrow>
       live (ns_of (rp_result rp)) (cs_of (rp_result rp)) (bs_of (rp_result rp)) (rp_nchunk rp) w e \<longrightarrow>
       map (\<lambda>j. block ! nat (slice_elem n (rp_axis rp) (compute_strides n (blockshape (storage (rp_input rp))) (replicate IARRAY_DIMENSION_MAX 0))
             (decode m (blockshape (storage (rp_result rp))) e) +
           int j * compute_strides n (blockshape (storage (rp_input rp))) (replicate IARRAY_DIMENSION_MAX 0) ! rp_axis rp))
         [0..<nat (vector_nelems (catarr (rp_input rp)) (rp_axis rp) y x)] =
       map (\<lambda>z. A (ins (rp_axis rp) z (item_at (ns_of (rp_result rp)) (cs_of (rp_result rp)) (bs_of (rp_result rp)) (rp_nchunk rp) w e)))
         (piece (ns_of (rp_input rp) ! rp_axis rp) (cs_of (rp_input rp) ! rp_axis rp) (bs_of (rp_input rp) ! rp_axis rp) y x))"
proof -
  let ?a = "rp_input rp" and ?b = "rp_result rp" and ?k = "rp_axis rp" and ?Q = "rp_nchunk rp"
  let ?ns = "ns_of ?a" and ?cs = "cs_of ?a" and ?bs = "bs_of ?a"
  have a: "plain_container ?a" and b: "plain_container ?b" and r: "ns_of ?b = del ?k ?ns" "cs_of ?b = del ?k ?cs" "bs_of ?b = del ?k ?bs"
    and Q: "0 \<le> ?Q" "?Q < prod_list (blocks_of (del ?k ?ns) (del ?k ?cs))"
    using assms(1) by (auto simp: reduction_ready_def Let_def block_count_def)
  obtain N where d: "ndim (dtshape ?a) = Suc N" "ndim (dtshape ?b) = N" "?k \<le> N" "c_ndim (catarr ?b) = N" "Suc N \<le> 8"
    using ready_dims [OF assms(1)] by blast
  have nm: "n = Suc N" "m = N" using assms(9,10) d by simp_all
  note la = plain_slots [OF a] and lb = plain_slots [OF b]
  note ga = nested_good [OF plain_nested [OF a]] and gb = nested_good [OF plain_nested [OF b], unfolded r]
  have W: "0 \<le> w" "w < prod_list (blocks_of (del ?k ?cs) (del ?k ?bs))" using assms(3,4) r by (simp_all add: block_count_def)
  have len: "length ?ns = length ?bs" "length ?cs = length ?bs" "?k < length ?bs" "length ?ns = length ?cs" "?k < length ?cs"
    "length ?bs = Suc N"
    using la d by simp_all
  have pos: "all_pos (blocks_of (del ?k ?ns) (del ?k ?cs))" "all_pos (blocks_of (del ?k ?cs) (del ?k ?bs))"
    using gb good_blocks_of by (auto simp: good_shape_def)
  have cy: "in_box (blocks_of ?ns ?cs) (ins ?k y (unflat (blocks_of (del ?k ?ns) (del ?k ?cs)) ?Q))"
    using in_blocks_ins [OF _ len(4,5) assms(5,6) Q] gb by simp
  have cx: "in_box (blocks_of ?cs ?bs) (ins ?k x (unflat (blocks_of (del ?k ?cs) (del ?k ?bs)) w))"
    using in_blocks_ins [OF _ len(2,3) assms(7,8) W] gb by simp
  let ?q = "flat (blocks_of ?ns ?cs) (ins ?k y (unflat (blocks_of (del ?k ?ns) (del ?k ?cs)) ?Q))"
  let ?w = "flat (blocks_of ?cs ?bs) (ins ?k x (unflat (blocks_of (del ?k ?cs) (del ?k ?bs)) w))"
  let ?gq = "grid N (c_extshape (catarr ?b)) (c_chunkshape (catarr ?b))"
    and ?gw = "grid N (c_extchunkshape (catarr ?b)) (c_blockshape (catarr ?b))"
  have dq: "decode N ?gq ?Q = unflat (blocks_of (del ?k ?ns) (del ?k ?cs)) ?Q @ replicate (8 - N) 0"
    using grid_plain(1) [OF b d(2) [symmetric]] r pos(1) Q d(5) by (intro decode_unflat) simp_all
  have dw: "decode N ?gw w = unflat (blocks_of (del ?k ?cs) (del ?k ?bs)) w @ replicate (8 - N) 0"
    using grid_plain(2) [OF b d(2) [symmetric]] r pos(2) W d(5) by (intro decode_unflat) simp_all
  have de: "decode N (blockshape (storage ?b)) e = unflat (del ?k ?bs) e @ replicate (8 - N) 0" if "0 \<le> e" for e
    using lb d r gb that by (intro decode_unflat) (simp_all add: good_blocks_def)
  have slots: "length fresh_slots = 8" by (simp add: fresh_slots_def IARRAY_DIMENSION_MAX_def)
  have sq: "take (Suc N) (compute_strides n (grid n (c_extshape (catarr ?a)) (c_chunkshape (catarr ?a))) fresh_slots) =
      strides_of (blocks_of ?ns ?cs)"
    and sw: "take (Suc N) (compute_strides n (grid n (c_extchunkshape (catarr ?a)) (c_blockshape (catarr ?a))) fresh_slots) =
      strides_of (blocks_of ?cs ?bs)"
    unfolding nm(1) [symmetric] by (rule strides_slots [OF grid_plain(1) [OF a assms(9)]]
        strides_slots [OF grid_plain(2) [OF a assms(9)]]; use d slots nm in simp)+
  have pq: "part_number N ?k (decode N ?gq ?Q)
      (compute_strides n (grid n (c_extshape (catarr ?a)) (c_chunkshape (catarr ?a))) fresh_slots) y = ?q"
    unfolding dq using len d by (intro part_number_flat sq) simp_all
  have pw: "part_number N ?k (map2 cmod (decode N ?gw w) ?gw)
      (compute_strides n (grid n (c_extchunkshape (catarr ?a)) (c_blockshape (catarr ?a))) fresh_slots) x = ?w"
    unfolding dw using grid_plain(2) [OF b d(2) [symmetric]] len d r
    by (intro part_number_flat sw mod_digits [where ns = "blocks_of (del ?k ?cs) (del ?k ?bs)"])
      (simp_all add: unflat_in_box pos W)
  have bn: "blocknitems (catarr ?a) = prod_list ?bs"
    using a la(1) by (simp add: blocknitems_def plain_container_def caterva_holds_def)
  have q: "0 \<le> ?q" "?q < block_count ?ns ?cs" and w: "0 \<le> ?w" "?w < block_count ?cs ?bs"
    using flat_bounds [OF cy] flat_bounds [OF cx] by (simp_all add: block_count_def)
  obtain chunk block where read: "get_lazychunk api (c_data (catarr ?a)) ?q = Some chunk"
    "getitem_ctx api chunk (?w * prod_list ?bs) (prod_list ?bs) = Some block"
    "\<And>e. 0 \<le> e \<Longrightarrow> e < prod_list ?bs \<Longrightarrow> live ?ns ?cs ?bs ?q ?w e \<Longrightarrow> block ! nat e = A (item_at ?ns ?cs ?bs ?q ?w e)"
    using assms(2) q w unfolding stores_def stores_chunk_def by blast
  let ?st = "compute_strides n (blockshape (storage ?a)) (replicate IARRAY_DIMENSION_MAX 0)"
  have st: "take (Suc N) ?st = strides_of ?bs"
    using la d nm by (intro strides_slots [where sh = "blockshape (storage ?a)", unfolded nm(1)[symmetric]] | simp add: IARRAY_DIMENSION_MAX_def)+
  have line: "map (\<lambda>j. block ! nat (slice_elem n ?k ?st (decode N (blockshape (storage ?b)) e) + int j * ?st ! ?k))
        [0..<nat (vector_nelems (catarr ?a) ?k y x)] =
      map (\<lambda>z. A (ins ?k z (item_at (ns_of ?b) (cs_of ?b) (bs_of ?b) ?Q w e))) (piece (?ns ! ?k) (?cs ! ?k) (?bs ! ?k) y x)"
    if e: "0 \<le> e" "e < prod_list (del ?k ?bs)" and lv: "live (del ?k ?ns) (del ?k ?cs) (del ?k ?bs) ?Q w e" for e
  proof (rule nth_equalityI)
    have k: "?k < ndim (dtshape ?a)" using d by simp
    note v = vector_is_piece [OF a k, where y = y and x = x]
    show "length (map (\<lambda>j. block ! nat (slice_elem n ?k ?st (decode N (blockshape (storage ?b)) e) + int j * ?st ! ?k))
        [0..<nat (vector_nelems (catarr ?a) ?k y x)]) =
      length (map (\<lambda>z. A (ins ?k z (item_at (ns_of ?b) (cs_of ?b) (bs_of ?b) ?Q w e))) (piece (?ns ! ?k) (?cs ! ?k) (?bs ! ?k) y x))"
      using v(1) by simp
    fix j assume "j < length (map (\<lambda>j. block ! nat (slice_elem n ?k ?st (decode N (blockshape (storage ?b)) e) + int j * ?st ! ?k))
        [0..<nat (vector_nelems (catarr ?a) ?k y x)])"
    then have j: "j < nat (vector_nelems (catarr ?a) ?k y x)" by simp
    note vj = v(2,3) [OF j]
    have u: "in_box (del ?k ?bs) (unflat (del ?k ?bs) e)" using gb e by (intro unflat_in_box) (auto simp: good_blocks_def)
    have "slice_elem n ?k ?st (decode N (blockshape (storage ?b)) e) = flat ?bs (ins ?k 0 (unflat (del ?k ?bs) e))"
      unfolding nm(1) de [OF e(1)] using len d st nm by (intro slice_elem_flat) simp_all
    moreover have "?st ! ?k = strides_of ?bs ! ?k" using take_eq_nth [OF st] d by simp
    ultimately have el: "slice_elem n ?k ?st (decode N (blockshape (storage ?b)) e) + int j * ?st ! ?k =
        flat ?bs (ins ?k (int j) (unflat (del ?k ?bs) e))"
      using flat_shift [of ?bs N ?k "unflat (del ?k ?bs) e" 0 "int j"] len d by simp
    have ib: "in_box ?bs (ins ?k (int j) (unflat (del ?k ?bs) e))" using u vj len by (simp add: in_box_ins)
    note big = gb [THEN conjunct1] gb [THEN conjunct2] len(1-3) assms(5,6) Q assms(7,8) W
    have "0 \<le> x * ?bs ! ?k + int j" using assms(7) plain_fields(9) [OF a k] by simp
    then have "live ?ns ?cs ?bs ?q ?w (flat ?bs (ins ?k (int j) (unflat (del ?k ?bs) e)))"
      using live_ins [OF big _ _ e] vj(1) lv by simp
    then have "block ! nat (flat ?bs (ins ?k (int j) (unflat (del ?k ?bs) e))) =
        A (ins ?k (y * ?cs ! ?k + (x * ?bs ! ?k + int j)) (item_at (del ?k ?ns) (del ?k ?cs) (del ?k ?bs) ?Q w e))"
      using read(3) flat_bounds [OF ib] item_at_ins [OF big _ _ e] vj(1) by simp
    then show "map (\<lambda>j. block ! nat (slice_elem n ?k ?st (decode N (blockshape (storage ?b)) e) + int j * ?st ! ?k))
        [0..<nat (vector_nelems (catarr ?a) ?k y x)] ! j =
      map (\<lambda>z. A (ins ?k z (item_at (ns_of ?b) (cs_of ?b) (bs_of ?b) ?Q w e))) (piece (?ns ! ?k) (?cs ! ?k) (?bs ! ?k) y x) ! j"
      using j v(1) vj(2) el r by simp
  qed
  show ?thesis unfolding nm(2) pq pw bn using read(1,2) line r by auto
qed

section \<open>A block of the result\<close>

lemma fold_skip: "fold (\<lambda>x c. c) xs c = c"
  by (induction xs) simp_all

lemma reduce_prefilter_lines:
  assumes "reduction_ready rp" "stores api (rp_input rp) A" "vector_function (rp_ufunc rp)"
    and "reads_items (dtype (dtshape (rp_result rp))) (dtype (dtshape (rp_input rp)))" "\<And>u c. rf_finish (rp_ufunc rp) u c \<noteq> None"
    and "0 \<le> w" "w < block_count (cs_of (rp_result rp)) (bs_of (rp_result rp))" "length cells = nat (prod_list (bs_of (rp_result rp)))"
  shows "reduce_prefilter api torn rp cells w = Inr (map (\<lambda>i.
     if live (ns_of (rp_result rp)) (cs_of (rp_result rp)) (bs_of (rp_result rp)) (rp_nchunk rp) w (int i)
     then reduce_line (rp_ufunc rp) (reduce_user_data (shape (dtshape (rp_input rp)) ! rp_axis rp)) (cells ! i)
       (map (\<lambda>z. A (ins (rp_axis rp) z (item_at (ns_of (rp_result rp)) (cs_of (rp_result rp)) (bs_of (rp_result rp)) (rp_nchunk rp) w (int i))))
         (below (ns_of (rp_input rp) ! rp_axis rp)))
     else c_zero (dtype (dtshape (rp_result rp)))) [0..<nat (prod_list (bs_of (rp_result rp)))])"
proof -
  let ?a = "rp_input rp" and ?b = "rp_result rp" and ?k = "rp_axis rp" and ?f = "rp_ufunc rp" and ?L = "nat (prod_list (bs_of (rp_result rp)))"
  let ?u = "reduce_user_data (shape (dtshape (rp_input rp)) ! rp_axis rp)"
  let ?live = "\<lambda>i. live (ns_of ?b) (cs_of ?b) (bs_of ?b) (rp_nchunk rp) w i"
  let ?P = "\<lambda>i y x. map (\<lambda>z. A (ins ?k z (item_at (ns_of ?b) (cs_of ?b) (bs_of ?b) (rp_nchunk rp) w i)))
      (piece (ns_of ?a ! ?k) (cs_of ?a ! ?k) (bs_of ?a ! ?k) y x)"
  define n m where nm: "n = ndim (dtshape ?a)" "m = c_ndim (catarr ?b)"
  have a: "plain_container ?a" "?k < ndim (dtshape ?a)" using assms(1) by (simp_all add: reduction_ready_def Let_def)
  note fk = plain_fields [OF a]
  have cnt: "cdiv (c_extshape (catarr ?a) ! ?k) (c_chunkshape (catarr ?a) ! ?k) = ceil_blocks (ns_of ?a ! ?k) (cs_of ?a ! ?k)"
    "cdiv (c_extchunkshape (catarr ?a) ! ?k) (c_blockshape (catarr ?a) ! ?k) = ceil_blocks (cs_of ?a ! ?k) (bs_of ?a ! ?k)"
    using fk by (simp_all add: c_arith ceil_blocks_nonneg)
  obtain p where p: "block_pointer (dtype (dtshape ?b)) (dtype (dtshape ?a)) = Inr p"
    "itemsize_of p = itemsize_of (dtype (dtshape ?a))" "0 < itemsize_of (dtype (dtshape ?a))"
    using assms(4) by (auto simp: reads_items_def)
  note known = block_pointer_known [OF p(1)]
  define off where "off = decode m (grid m (c_extchunkshape (catarr ?b)) (c_blockshape (catarr ?b))) w"
  define el where "el ind = decode m (blockshape (storage ?b)) ind" for ind
  define pad where "pad ind = check_padding off (el ind) (catarr ?b) (rp_out_chunkshape rp)" for ind
  define st where "st = compute_strides n (blockshape (storage ?a)) (replicate IARRAY_DIMENSION_MAX 0)"
  have pad: "pad (int i) \<longleftrightarrow> \<not> ?live (int i)" if "i < ?L" for i
    using that check_padding_live [OF assms(1,6,7) _ _ nm(2), of "int i"] unfolding pad_def off_def el_def by (simp add: nat_less_iff)
  have init: "init_pass rp pad cells = Inr (map (\<lambda>i. if ?live (int i) then rf_init ?f (cells ! i) else cells ! i) [0..<?L])"
    unfolding init_pass_def assms(8) [symmetric] using known pad
    by (intro for_items_Inr) (simp add: known_result_def assms(8))
  define cells1 where "cells1 = map (\<lambda>i. if ?live (int i) then rf_init ?f (cells ! i) else cells ! i) [0..<?L]"
  define body where "body = (\<lambda>y cells. case get_lazychunk api (c_data (catarr ?a))
        (part_number m ?k (decode m (grid m (c_extshape (catarr ?b)) (c_chunkshape (catarr ?b))) (rp_nchunk rp))
          (compute_strides n (grid n (c_extshape (catarr ?a)) (c_chunkshape (catarr ?a))) fresh_slots) y) of
        None \<Rightarrow> Inl IARRAY_ERR_BLOSC_FAILED
      | Some chunk \<Rightarrow> res_fold (\<lambda>x cells. case getitem_ctx api chunk
            (part_number m ?k (map2 cmod off (grid m (c_extchunkshape (catarr ?b)) (c_blockshape (catarr ?b))))
              (compute_strides n (grid n (c_extchunkshape (catarr ?a)) (c_blockshape (catarr ?a))) fresh_slots) x *
             blocknitems (catarr ?a)) (blocknitems (catarr ?a)) of
            None \<Rightarrow> Inl IARRAY_ERR_BLOSC_FAILED
          | Some block \<Rightarrow> reduce_pass torn rp ?u st el pad block (vector_nelems (catarr ?a) ?k y x) cells)
        (below (ceil_blocks (cs_of ?a ! ?k) (bs_of ?a ! ?k))) cells)"
  have body: "body y cs = Inr (map (\<lambda>i. fold (\<lambda>x c. if ?live (int i) then take_vector ?f ?u c (?P (int i) y x) else c)
        (below (ceil_blocks (cs_of ?a ! ?k) (bs_of ?a ! ?k))) (cs ! i)) [0..<?L])"
    if y: "0 \<le> y" "y < ceil_blocks (ns_of ?a ! ?k) (cs_of ?a ! ?k)" and cs: "length cs = ?L" for y cs
  proof -
    have "0 < ceil_blocks (cs_of ?a ! ?k) (bs_of ?a ! ?k)" using fk by (simp add: ceil_blocks_pos)
    then obtain chunk where chunk: "get_lazychunk api (c_data (catarr ?a))
        (part_number m ?k (decode m (grid m (c_extshape (catarr ?b)) (c_chunkshape (catarr ?b))) (rp_nchunk rp))
          (compute_strides n (grid n (c_extshape (catarr ?a)) (c_chunkshape (catarr ?a))) fresh_slots) y) = Some chunk"
      using read_piece [OF assms(1,2,6,7) y order_refl _ nm] by blast
    have inner: "(case getitem_ctx api chunk
            (part_number m ?k (map2 cmod off (grid m (c_extchunkshape (catarr ?b)) (c_blockshape (catarr ?b))))
              (compute_strides n (grid n (c_extchunkshape (catarr ?a)) (c_blockshape (catarr ?a))) fresh_slots) x *
             blocknitems (catarr ?a)) (blocknitems (catarr ?a)) of
            None \<Rightarrow> Inl IARRAY_ERR_BLOSC_FAILED
          | Some block \<Rightarrow> reduce_pass torn rp ?u st el pad block (vector_nelems (catarr ?a) ?k y x) cs) =
        Inr (map (\<lambda>i. if ?live (int i) then take_vector ?f ?u (cs ! i) (?P (int i) y x) else cs ! i) [0..<?L])"
      if x: "0 \<le> x" "x < ceil_blocks (cs_of ?a ! ?k) (bs_of ?a ! ?k)" and cs: "length cs = ?L" for x cs
    proof -
      obtain block where block: "getitem_ctx api chunk
          (part_number m ?k (map2 cmod off (grid m (c_extchunkshape (catarr ?b)) (c_blockshape (catarr ?b))))
            (compute_strides n (grid n (c_extchunkshape (catarr ?a)) (c_blockshape (catarr ?a))) fresh_slots) x *
           blocknitems (catarr ?a)) (blocknitems (catarr ?a)) = Some block"
        "\<forall>e. 0 \<le> e \<longrightarrow> e < prod_list (bs_of ?b) \<longrightarrow> ?live e \<longrightarrow>
           map (\<lambda>j. block ! nat (slice_elem n ?k st (el e) + int j * st ! ?k)) [0..<nat (vector_nelems (catarr ?a) ?k y x)] = ?P e y x"
        using read_piece [OF assms(1,2,6,7) y x nm] chunk unfolding off_def st_def el_def by auto
      have "reduce_pass torn rp ?u st el pad block (vector_nelems (catarr ?a) ?k y x) cs =
          Inr (map (\<lambda>i. if ?live (int i) then take_vector ?f ?u (cs ! i) (?P (int i) y x) else cs ! i) [0..<?L])"
        unfolding reduce_pass_map [OF p assms(3) cs] nm(1) [symmetric] using pad block(2)
        by (simp add: nat_less_iff)
      then show ?thesis using block(1) by simp
    qed
    show ?thesis unfolding body_def chunk option.case
      by (rule res_fold_cells) (use inner cs in simp_all)
  qed
  have "length cells1 = ?L" by (simp add: cells1_def)
  then have loops: "res_fold body (below (ceil_blocks (ns_of ?a ! ?k) (cs_of ?a ! ?k))) cells1 =
      Inr (map (\<lambda>i. fold (\<lambda>y c. fold (\<lambda>x c. if ?live (int i) then take_vector ?f ?u c (?P (int i) y x) else c)
        (below (ceil_blocks (cs_of ?a ! ?k) (bs_of ?a ! ?k))) c) (below (ceil_blocks (ns_of ?a ! ?k) (cs_of ?a ! ?k))) (cells1 ! i)) [0..<?L])"
    by (intro res_fold_cells body) simp_all
  define cells2 where "cells2 = map (\<lambda>i. if ?live (int i) then take_vector ?f ?u (rf_init ?f (cells ! i))
      (map (\<lambda>z. A (ins ?k z (item_at (ns_of ?b) (cs_of ?b) (bs_of ?b) (rp_nchunk rp) w (int i)))) (below (ns_of ?a ! ?k)))
      else cells ! i) [0..<?L]"
  have "concat (map (\<lambda>y. concat (map (?P i y) (below (ceil_blocks (cs_of ?a ! ?k) (bs_of ?a ! ?k)))))
        (below (ceil_blocks (ns_of ?a ! ?k) (cs_of ?a ! ?k)))) =
      map (\<lambda>z. A (ins ?k z (item_at (ns_of ?b) (cs_of ?b) (bs_of ?b) (rp_nchunk rp) w i))) (below (ns_of ?a ! ?k))" for i
    unfolding line_covered [OF fk(9,8) less_imp_le [OF fk(7)], symmetric] by (simp add: map_concat comp_def)
  note whole = this
  have l2: "length cells2 = ?L" by (simp add: cells2_def)
  have "fold (\<lambda>y c. fold (\<lambda>x c. if ?live (int i) then take_vector ?f ?u c (?P (int i) y x) else c)
        (below (ceil_blocks (cs_of ?a ! ?k) (bs_of ?a ! ?k))) c) (below (ceil_blocks (ns_of ?a ! ?k) (cs_of ?a ! ?k))) (cells1 ! i) =
      cells2 ! i" if "i < ?L" for i
    by (cases "?live (int i)")
      (use that in \<open>simp_all add: cells1_def cells2_def fold_vectors [OF assms(3)] fold_skip whole\<close>)
  then have "res_fold body (below (ceil_blocks (ns_of ?a ! ?k) (cs_of ?a ! ?k))) cells1 = Inr cells2"
    unfolding loops l2 [symmetric] by (subst (2) map_nth [symmetric]) (intro arg_cong [of _ _ Inr] map_cong; simp)
  moreover have fin: "(rf_finish ?f u c = None) = False" for u c using assms(5) by simp
  moreover have "finish_pass rp ?u pad cells2 = Inr (map (\<lambda>i. if ?live (int i) then the (rf_finish ?f ?u (cells2 ! i))
      else set_res (c_zero (dtype (dtshape ?b))) (cells2 ! i)) [0..<?L])"
    unfolding finish_pass_def using known pad
    by (subst for_items_Inr [where g = "\<lambda>i c. if ?live (int i) then the (rf_finish ?f ?u c) else set_res (c_zero (dtype (dtshape ?b))) c"])
      (auto simp: known_result_def cells2_def fin split: option.splits)
  ultimately show ?thesis
    unfolding reduce_prefilter_def Let_def nm [symmetric] cnt off_def [symmetric] st_def [symmetric] el_def [symmetric]
      reduce_user_data_def [symmetric] pad_def [symmetric] body_def [symmetric]
    using init by (simp add: cells1_def [symmetric]) (simp add: cells2_def reduce_line_def set_res_def)
qed

section \<open>The whole result\<close>

text \<open>A reduction whose result does not depend on what its cell held before.\<close>

definition starts_fresh :: "iarray_reduce_function \<Rightarrow> bool" where
  "starts_fresh f \<longleftrightarrow> (\<forall>u c c' xs. reduce_line f u c xs = reduce_line f u c' xs)"

definition empty_cell :: reduce_cell where
  "empty_cell = \<lparr> c_res = VInt 0, not_nan_nelems = 0, nan_nelems = 0, medians = [] \<rparr>"

text \<open>The array with one dimension reduced.\<close>

definition reduced :: "iarray_reduce_function \<Rightarrow> int \<Rightarrow> nat \<Rightarrow> (int list \<Rightarrow> ina_val) \<Rightarrow> int list \<Rightarrow> ina_val" where
  "reduced f len k A ix = reduce_line f (reduce_user_data len) empty_cell (map (\<lambda>z. A (ins k z ix)) (below len))"

definition reduce_request :: "'d container \<Rightarrow> nat \<Rightarrow> iarray_storage \<Rightarrow> bool" where
  "reduce_request a k st \<longleftrightarrow> plain_container a \<and> k < ndim (dtshape a) \<and>
     ndim (dtshape a) - 1 \<le> length (chunkshape st) \<and> ndim (dtshape a) - 1 \<le> length (blockshape st) \<and>
     take (ndim (dtshape a) - 1) (chunkshape st) = del k (cs_of a) \<and>
     take (ndim (dtshape a) - 1) (blockshape st) = del k (bs_of a)"

lemma nested_del:
  assumes "nested ns cs bs" "k < length bs"
  shows "nested (del k ns) (del k cs) (del k bs)"
  using assms by (auto simp: nested_def del_nth)

lemma del_shape:
  assumes "k \<le> n" "Suc n \<le> length sh"
  shows "map (\<lambda>i. if i < k then sh ! i else sh ! (i + 1)) [0..<n] = del k (take (Suc n) sh)"
  using assms by (intro nth_equalityI) (simp_all add: del_nth)

lemma reduce_result:
  assumes "reduce_request a k st" "caterva_create_spec caterva_empty" "out \<noteq> IARRAY_DATA_TYPE_MAX"
  obtains c where "iarray_empty caterva_empty \<lparr> dtype = out, dtype_size = 0, ndim = ndim (dtshape a) - 1,
      shape = set_prefix (ndim (dtshape a) - 1) (\<lambda>i. if i < k then shape (dtshape a) ! i else shape (dtshape a) ! (i + 1)) fresh_slots \<rparr> st = Inr c"
    "plain_container c" "storage c = st" "dtype (dtshape c) = out" "ndim (dtshape c) = ndim (dtshape a) - 1"
    "ns_of c = del k (ns_of a)" "cs_of c = del k (cs_of a)" "bs_of c = del k (bs_of a)" "container_viewed c = None"
proof -
  have a: "plain_container a" "k < ndim (dtshape a)" using assms(1) by (simp_all add: reduce_request_def)
  obtain n where n: "ndim (dtshape a) = Suc n" "k \<le> n" "ndim (dtshape a) - 1 = n" using a(2) by (cases "ndim (dtshape a)") auto
  note l = plain_slots [OF a(1)]
  let ?sh = "set_prefix n (\<lambda>i. if i < k then shape (dtshape a) ! i else shape (dtshape a) ! (i + 1)) fresh_slots"
  let ?d = "\<lparr> dtype = out, dtype_size = 0, ndim = n, shape = ?sh \<rparr>"
  have sh: "take n ?sh = del k (ns_of a)"
    using l n del_shape [of k n "shape (dtshape a)"] by (simp add: set_prefix_eq fresh_slots_def IARRAY_DIMENSION_MAX_def)
  have req: "good_request ?d st"
    using assms(1,3) sh nested_del [OF plain_nested [OF a(1)], of k] l n
    by (simp add: good_request_def reduce_request_def fresh_slots_def IARRAY_DIMENSION_MAX_def)
  obtain c where c: "construct_with caterva_empty ?d st = Inr c" "plain_container c" "storage c = st"
    "dtshape c = ?d\<lparr>dtype_size := itemsize_of (dtype ?d)\<rparr>" "container_viewed c = None"
    using construct_plain [OF assms(2) req] by blast
  show thesis
    using c assms(1) n sh
    by (intro that [of c]) (simp_all add: iarray_empty_def ns_of_def cs_of_def bs_of_def reduce_request_def)
qed

text \<open>
  A block that the prefilter provides, for a result \<open>c\<close> that differs from the empty one in its data only.
\<close>

lemma reduce_udf_block:
  assumes "reduce_request a k st" "stores api a A" "vector_function f" "starts_fresh f" "\<And>u c. rf_finish f u c \<noteq> None"
    and "reads_items out (dtype (dtshape a))"
    and c: "plain_container c" "dtype (dtshape c) = out" "ndim (dtshape c) = ndim (dtshape a) - 1"
      "ns_of c = del k (ns_of a)" "cs_of c = del k (cs_of a)" "bs_of c = del k (bs_of a)"
    and "0 \<le> q" "q < block_count (ns_of c) (cs_of c)" "0 \<le> w" "w < block_count (cs_of c) (bs_of c)"
    and oc: "\<forall>i < ndim (dtshape c). oc ! i = block_extent (ns_of c) (cs_of c) q ! i"
  shows "\<exists>block. reduce_prefilter api torn \<lparr> rp_ufunc = f, rp_input = a, rp_result = c, rp_axis = k, rp_out_chunkshape = oc, rp_nchunk = q \<rparr>
      (map fresh [0..<nat (blocknitems (catarr c))]) w = Inr block \<and> right_block c (reduced f (ns_of a ! k) k A) q w block"
proof -
  let ?rp = "\<lparr> rp_ufunc = f, rp_input = a, rp_result = c, rp_axis = k, rp_out_chunkshape = oc, rp_nchunk = q \<rparr>"
  let ?P = "prod_list (bs_of c)"
  have a: "plain_container a" "k < ndim (dtshape a)" using assms(1) by (simp_all add: reduce_request_def)
  have ready: "reduction_ready ?rp" using a c assms(7,13,14) oc by (simp add: reduction_ready_def)
  note pc = plain_counts [OF c(1)]
  let ?line = "\<lambda>i. map (\<lambda>z. A (ins k z (item_at (ns_of c) (cs_of c) (bs_of c) q w (int i)))) (below (ns_of a ! k))"
  let ?block = "map (\<lambda>i. if live (ns_of c) (cs_of c) (bs_of c) q w (int i)
      then reduce_line f (reduce_user_data (ns_of a ! k)) (map fresh [0..<nat ?P] ! i) (?line i) else c_zero out) [0..<nat ?P]"
  have "reduce_prefilter api torn ?rp (map fresh [0..<nat (blocknitems (catarr c))]) w = Inr ?block"
    using reduce_prefilter_lines [OF ready, of api A w "map fresh [0..<nat ?P]" torn] assms(2,3,5,6,15,16) c pc(1)
      plain_fields(4) [OF a] by simp
  moreover have "?block ! nat e = reduced f (ns_of a ! k) k A (item_at (ns_of c) (cs_of c) (bs_of c) q w e)"
    if "0 \<le> e" "e < ?P" "live (ns_of c) (cs_of c) (bs_of c) q w e" for e
  proof -
    have "reduce_line f (reduce_user_data (ns_of a ! k)) (fresh (nat e)) (?line (nat e)) =
        reduce_line f (reduce_user_data (ns_of a ! k)) empty_cell (?line (nat e))"
      using assms(4) unfolding starts_fresh_def by blast
    then show ?thesis using that by (simp add: reduced_def)
  qed
  ultimately show ?thesis using pc(2) by (auto simp: right_block_def)
qed

lemma reduce_udf_correct:
  assumes "reduce_request a k st" "stores api a A" "vector_function f" "starts_fresh f" "\<And>u c. rf_finish f u c \<noteq> None"
    and "reads_items out (dtype (dtshape a))" "caterva_create_spec caterva_empty"
    and "schunk_spec (get_lazychunk api) (update_chunk api) caterva_empty"
    and "\<And>ts bs. blosc_exact api (iarray_create_blosc_cparams zfp_code cparams_defaults cfg ts bs)"
  shows "\<exists>b. iarray_reduce_udf api torn fresh zfp_code cparams_defaults cfg caterva_empty a f k st out = Inr b \<and>
    plain_container b \<and> storage b = st \<and> dtype (dtshape b) = out \<and> ns_of b = del k (ns_of a) \<and>
    cs_of b = del k (cs_of a) \<and> bs_of b = del k (bs_of a) \<and> container_viewed b = None \<and> stores api b (reduced f (ns_of a ! k) k A)"
proof -
  have a: "plain_container a" "k < ndim (dtshape a)" using assms(1) by (simp_all add: reduce_request_def)
  have "out \<noteq> IARRAY_DATA_TYPE_MAX" using assms(6) block_pointer_known by (auto simp: reads_items_def)
  from reduce_result [OF assms(1,7) this] obtain c where c0: "iarray_empty caterva_empty \<lparr> dtype = out, dtype_size = 0,
      ndim = ndim (dtshape a) - 1,
      shape = set_prefix (ndim (dtshape a) - 1) (\<lambda>i. if i < k then shape (dtshape a) ! i else shape (dtshape a) ! (i + 1)) fresh_slots \<rparr> st = Inr c"
    and c: "plain_container c" "storage c = st" "dtype (dtshape c) = out" "ndim (dtshape c) = ndim (dtshape a) - 1"
      "ns_of c = del k (ns_of a)" "cs_of c = del k (cs_of a)" "bs_of c = del k (bs_of a)" "container_viewed c = None" by blast
  let ?n = "ndim (dtshape c)" and ?B = "blocks_of (ns_of c) (cs_of c)" and ?R = "reduced f (ns_of a ! k) k A"
  note l = plain_slots [OF c(1)] and pc = plain_counts [OF c(1)] and gd = nested_good [OF plain_nested [OF c(1)]]
  have pos: "all_pos ?B" using gd good_blocks_of by (auto simp: good_shape_def)
  define I where "I = (\<lambda>q idx. idx = unflat ?B q @ replicate (8 - ?n) 0)"
  define oc where "oc idx c = (let cat = catarr c; elem_index = set_prefix (ndim (dtshape c)) (\<lambda>i. idx ! i * c_chunkshape cat ! i) (replicate IARRAY_DIMENSION_MAX 0)
      in set_prefix (ndim (dtshape c)) (\<lambda>i. if elem_index ! i + c_chunkshape cat ! i \<le> c_shape cat ! i then c_chunkshape cat ! i
        else c_shape cat ! i - elem_index ! i) (replicate IARRAY_DIMENSION_MAX 0))" for idx and c :: "'a container"
  have "\<exists>x s'. compress_chunks api
      (iarray_create_blosc_cparams zfp_code cparams_defaults cfg (c_itemsize (catarr c)) (blocknitems (catarr c) * c_itemsize (catarr c)))
      (\<lambda>c chunk_index nchunk nblock. reduce_prefilter api torn
         \<lparr> rp_ufunc = f, rp_input = a, rp_result = c, rp_axis = k, rp_out_chunkshape = oc chunk_index c, rp_nchunk = nchunk \<rparr>
         (map (fresh nchunk nblock) [0..<nat (blocknitems (catarr c))]) nblock)
      (\<lambda>chunk_index nchunk. iarray_index_unidim_to_multidim_shape ?n (grid ?n (c_extshape (catarr c)) (c_chunkshape (catarr c))) (nchunk + 1) chunk_index)
      (block_count (ns_of c) (cs_of c)) (c, replicate IARRAY_DIMENSION_MAX 0) = Inr (map_data (\<lambda>_. x) c, s') \<and>
      stores api (map_data (\<lambda>_. x) c) ?R"
  proof (rule compress_chunks_stores [where I = I, OF c0 [unfolded iarray_empty_def] c(1) assms(8,9) _ _ refl])
    show "I 0 (replicate IARRAY_DIMENSION_MAX 0)"
      using l(2-4) by (simp add: I_def unflat_zero replicate_add [symmetric] IARRAY_DIMENSION_MAX_def)
    fix x idx q w assume q: "0 \<le> q" "q < block_count (ns_of c) (cs_of c)" "I q idx" "0 \<le> w" "w < block_count (cs_of c) (bs_of c)"
    let ?c = "map_data (\<lambda>_. x) c"
    have "\<forall>i < ?n. oc idx c ! i = block_extent (ns_of c) (cs_of c) q ! i"
      using l(2-4) plain_fields(1,2) [OF c(1)] q(3)
      by (auto simp: oc_def Let_def I_def set_prefix_nth IARRAY_DIMENSION_MAX_def block_extent_nth block_start_nth nth_append)
    then have "\<forall>i < ndim (dtshape ?c). oc idx ?c ! i = block_extent (ns_of ?c) (cs_of ?c) q ! i"
      by (simp add: plain_map_data oc_def Let_def cong: if_cong)
    then show "\<exists>block. reduce_prefilter api torn \<lparr> rp_ufunc = f, rp_input = a, rp_result = ?c, rp_axis = k, rp_out_chunkshape = oc idx ?c, rp_nchunk = q \<rparr>
        (map (fresh q w) [0..<nat (blocknitems (catarr ?c))]) w = Inr block \<and> right_block c ?R q w block"
      using reduce_udf_block [OF assms(1-6), of ?c q w "oc idx ?c" torn "fresh q w"] c q
      by (simp add: plain_map_data right_block_def)
  next
    fix idx q assume q: "0 \<le> q" "q < block_count (ns_of c) (cs_of c)" "I q idx"
    then show "I (q + 1) (iarray_index_unidim_to_multidim_shape ?n (grid ?n (c_extshape (catarr c)) (c_chunkshape (catarr c))) (q + 1) idx)"
      using unidim_to_multidim_shape_unflat [of ?n "grid ?n (c_extshape (catarr c)) (c_chunkshape (catarr c))" idx "q + 1"]
        grid_plain(1) [OF c(1) refl] pos l(2-4) by (simp add: I_def CATERVA_MAX_DIM_def)
  qed (simp_all add: cparams_sizes)
  then obtain x s' where r: "compress_chunks api
      (iarray_create_blosc_cparams zfp_code cparams_defaults cfg (c_itemsize (catarr c)) (blocknitems (catarr c) * c_itemsize (catarr c)))
      (\<lambda>c chunk_index nchunk nblock. reduce_prefilter api torn
         \<lparr> rp_ufunc = f, rp_input = a, rp_result = c, rp_axis = k, rp_out_chunkshape = oc chunk_index c, rp_nchunk = nchunk \<rparr>
         (map (fresh nchunk nblock) [0..<nat (blocknitems (catarr c))]) nblock)
      (\<lambda>chunk_index nchunk. iarray_index_unidim_to_multidim_shape ?n (grid ?n (c_extshape (catarr c)) (c_chunkshape (catarr c))) (nchunk + 1) chunk_index)
      (block_count (ns_of c) (cs_of c)) (c, replicate IARRAY_DIMENSION_MAX 0) = Inr (map_data (\<lambda>_. x) c, s')"
    "stores api (map_data (\<lambda>_. x) c) ?R" by blast
  have "iarray_reduce_udf api torn fresh zfp_code cparams_defaults cfg caterva_empty a f k st out = Inr (map_data (\<lambda>_. x) c)"
    using a(2) c0 r(1) unfolding iarray_reduce_udf_def oc_def Let_def by (simp add: pc(4))
  moreover have "container_viewed (map_data (\<lambda>_. x) c) = None" using c(8) by (simp add: map_data_def)
  ultimately show ?thesis using r(2) c by (simp add: plain_map_data)
qed

text \<open>The functions of the table; those of \<open>all\<close> and \<open>any\<close> only for items of one byte.\<close>

lemma starts_fresh_vector: "starts_fresh \<lparr> rf_init = set_res x, rf_reduction = on_vector r, rf_finish = no_finish \<rparr>"
  by (simp add: starts_fresh_def reduce_line_def take_vector_def on_vector_def set_res_def no_finish_def)

lemma reduce_table_functions:
  assumes "reduce_table func d = Inr (f, out)"
  shows "vector_function f" "starts_fresh f" "rf_finish f u c \<noteq> None"
proof -
  show "vector_function f" using reduce_table_vector [OF assms] .
  have mean: "starts_fresh (MEAN_fn t False False)" for t
    by (simp add: starts_fresh_def reduce_line_def take_vector_def on_vector_def set_res_def MEAN_fn_def MEAN_I_def MEAN_F_def)
  show "starts_fresh f" using assms
    by (cases func) (auto simp: reduce_table_def reduce_tables SUM_fn_def PROD_fn_def MAX_fn_def MIN_fn_def ALL_fn_def
        ANY_fn_def table_entry_def starts_fresh_vector mean split: if_splits)
  show "rf_finish f u c \<noteq> None" using assms
    by (cases func) (auto simp: reduce_table_def reduce_tables reduce_fns table_entry_def no_finish_def MEAN_F_def split: if_splits)
qed

lemma reduce_table_reads:
  assumes "reduce_table func d = Inr (f, out)"
  shows "reads_items out d \<longleftrightarrow> (func \<in> {IARRAY_REDUCE_ALL, IARRAY_REDUCE_ANY} \<longrightarrow> itemsize_of d = 1)"
proof -
  have d: "d \<noteq> IARRAY_DATA_TYPE_MAX" using assms
    by (cases func) (auto simp: reduce_table_def reduce_tables table_entry_def known_dtype_def is_fp_def split: if_splits)
  show ?thesis using assms d itemsize_pos [OF d]
    by (cases func; cases d)
      (auto simp: reads_items_def reduce_table_def reduce_tables table_entry_def known_dtype_def is_fp_def wide_dtype_def
        real_dtype_def is_unsigned_dtype_def block_pointer_def itemsize_of_def iarray_set_dtype_size.simps split: if_splits)
qed

lemma reduce1_stores:
  assumes "reduce_table func (dtype (dtshape a)) = Inr (f, out)"
    and "func \<in> {IARRAY_REDUCE_ALL, IARRAY_REDUCE_ANY} \<longrightarrow> itemsize_of (dtype (dtshape a)) = 1"
    and "reduce_request a k st" "stores api a A" "caterva_create_spec caterva_empty"
    and "schunk_spec (get_lazychunk api) (update_chunk api) caterva_empty"
    and "\<And>ts bs. blosc_exact api (iarray_create_blosc_cparams zfp_code cparams_defaults cfg ts bs)"
  shows "\<exists>b. iarray_reduce1 api torn fresh zfp_code cparams_defaults cfg caterva_empty a func k st = Inr b \<and>
    plain_container b \<and> storage b = st \<and> dtype (dtshape b) = out \<and> ns_of b = del k (ns_of a) \<and>
    cs_of b = del k (cs_of a) \<and> bs_of b = del k (bs_of a) \<and> container_viewed b = None \<and> stores api b (reduced f (ns_of a ! k) k A)"
  using reduce_udf_correct [OF assms(3,4) reduce_table_functions [OF assms(1)] _ assms(5-7)] assms(1,2)
  by (simp add: iarray_reduce1_def reduce_table_reads)

text \<open>
  Claim C1. Reducing one dimension of an array: if the storage asks for the chunks and blocks of the input without
  the reduced dimension and the compressor is exact, then the call succeeds, the result has the type of the table
  and the shape without that dimension, and every item of it is the reduction of the whole line of the
  input through this item, in order, each item of the line taken once, however the input is cut into chunks and
  blocks. For \<open>all\<close> and \<open>any\<close> this needs items of one byte.
\<close>

theorem reduce_axis_correct:
  assumes "reduce_table func (dtype (dtshape a)) = Inr (f, out)"
    and "func \<in> {IARRAY_REDUCE_ALL, IARRAY_REDUCE_ANY} \<longrightarrow> itemsize_of (dtype (dtshape a)) = 1"
    and "reduce_request a k st" "stores api a A" "caterva_create_spec caterva_empty"
    and "schunk_spec (get_lazychunk api) (update_chunk api) caterva_empty"
    and "\<And>ts bs. blosc_exact api (iarray_create_blosc_cparams zfp_code cparams_defaults cfg ts bs)"
  shows "\<exists>b. iarray_reduce1 api torn fresh zfp_code cparams_defaults cfg caterva_empty a func k st = Inr b \<and>
    plain_container b \<and> storage b = st \<and> dtype (dtshape b) = out \<and> ns_of b = del k (ns_of a) \<and>
    cs_of b = del k (cs_of a) \<and> bs_of b = del k (bs_of a) \<and> stores api b (reduced f (ns_of a ! k) k A)"
  using reduce1_stores [OF assms] by blast

definition row_storage :: iarray_storage where
  "row_storage = \<lparr> urlpath = None, contiguous = True, chunkshape = [1, 0, 0, 0, 0, 0, 0, 0], blockshape = [1, 0, 0, 0, 0, 0, 0, 0] \<rparr>"

lemma small_matrix_ready: "reduce_request small_matrix 1 row_storage"
  by (simp add: reduce_request_def small_matrix_plain small_matrix_parts row_storage_def del_def)

text \<open>The sums of the rows.\<close>

theorem reduce_axis_correct_witness:
  "\<exists>b. iarray_reduce1 plain_api (\<lambda>_ _. VInt 0) (\<lambda>_ _ _. empty_cell) (\<lambda>_. 33) blosc2_cparams_example IARRAY_CONFIG_DEFAULTS
      plain_create small_matrix IARRAY_REDUCE_SUM 1 row_storage = Inr b \<and>
    stores plain_api b (reduced (SUM_fn IARRAY_DATA_TYPE_INT64 False False) 3 1 small_entry) \<and>
    reduced (SUM_fn IARRAY_DATA_TYPE_INT64 False False) 3 1 small_entry [1] = VInt 15"
proof -
  have t: "reduce_table IARRAY_REDUCE_SUM (dtype (dtshape small_matrix)) =
      Inr (SUM_fn IARRAY_DATA_TYPE_INT64 False False, IARRAY_DATA_TYPE_INT64)"
    by (simp add: small_matrix_parts reduce_table_def sum_table_def table_entry_def known_dtype_def wide_dtype_def is_fp_def
        is_unsigned_dtype_def)
  have v: "reduced (SUM_fn IARRAY_DATA_TYPE_INT64 False False) 3 1 small_entry [1] = VInt 15" by code_simp
  show ?thesis
    using reduce_axis_correct [OF t _ small_matrix_ready small_matrix_stores plain_create_specs plain_exact,
        of "\<lambda>_ _. VInt 0" "\<lambda>_ _ _. empty_cell" "\<lambda>_. 33" blosc2_cparams_example IARRAY_CONFIG_DEFAULTS] v
    by (auto simp: small_matrix_parts)
qed

end
