(* ===== verification/Fibres.thy ===== *)
theory Fibres
  imports Compressor
begin

text \<open>
  Nested loops over the indexes between two corners, and the fibres of a projection: the items of an array that agree
  with a given index in the dimensions that are kept. A routine that goes through the chunks of an array, in each chunk
  through the blocks and in each block through the items, and fixes the kept dimensions on each level, meets
  each item of the fibre once.
\<close>

section \<open>Nested loops\<close>

definition between :: "int \<Rightarrow> int \<Rightarrow> int list" where
  "between a b = map ((+) a) (below (b - a))"

text \<open>
  The loops of the dimensions \<open>d\<close>, \<open>d + 1\<close>, \<dots>, \<open>r\<close> of them, written as a recursion: each sets its entry of the index
  and the innermost executes the body.
\<close>

primrec index_iter :: "(int list \<Rightarrow> 's \<Rightarrow> 's res) \<Rightarrow> nat \<Rightarrow> nat \<Rightarrow> int list \<Rightarrow> int list \<Rightarrow> int list \<Rightarrow> 's \<Rightarrow> 's res" where
  "index_iter body 0 d start stop index s = body index s"
| "index_iter body (Suc r) d start stop index s =
     res_fold (\<lambda>x. index_iter body r (d + 1) start stop (index[d := x])) (between (start ! d) (stop ! d)) s"

lemma res_fold_concat: "res_fold f (concat xss) s = res_fold (res_fold f) xss s"
proof (induction xss arbitrary: s)
  case (Cons xs xss)
  have "res_fold f (concat xss) = res_fold (res_fold f) xss" using Cons.IH by (rule ext)
  then show ?case by (simp add: res_fold_append)
qed simp

lemma res_fold_map: "res_fold f (map g xs) s = res_fold (\<lambda>x. f (g x)) xs s"
proof (induction xs arbitrary: s)
  case (Cons x xs)
  have "res_fold f (map g xs) = res_fold (\<lambda>x. f (g x)) xs" using Cons.IH by (rule ext)
  then show ?case by simp
qed simp

lemma index_iter_list:
  fixes body :: "int list \<Rightarrow> 's \<Rightarrow> 's res"
  assumes "d + r \<le> length index"
  shows "index_iter body r d start stop index s =
    res_fold body (map (\<lambda>t. take d index @ t @ drop (d + r) index)
      (product_lists (map (\<lambda>i. between (start ! i) (stop ! i)) [d..<d + r]))) s"
  using assms
proof (induction r arbitrary: d index s)
  case 0
  have "res_bind r Inr = r" for r :: "'s res" by (cases r) simp_all
  moreover have "res_fold body [] = Inr" by (rule ext) simp
  ultimately show ?case by simp
next
  case (Suc r)
  have set: "take (Suc d) (index[d := x]) = take d index @ [x]" "drop (Suc d + r) (index[d := x]) = drop (d + Suc r) index" for x
    using Suc.prems by (simp_all add: take_Suc_conv_app_nth)
  have "index_iter body r (d + 1) start stop (index[d := x]) =
      res_fold body (map (\<lambda>t. take d index @ (x # t) @ drop (d + Suc r) index)
        (product_lists (map (\<lambda>i. between (start ! i) (stop ! i)) [Suc d..<d + Suc r])))" for x
    using Suc.IH [of "Suc d" "index[d := x]"] Suc.prems set [of x] by (intro ext) simp
  moreover have "[d..<d + Suc r] = d # [Suc d..<d + Suc r]" by (simp add: upt_conv_Cons)
  ultimately show ?case
    by (simp add: map_concat res_fold_concat res_fold_map comp_def)
qed

lemma index_iter_all:
  assumes "n \<le> length index"
  shows "index_iter body n 0 start stop index s =
    res_fold (\<lambda>t. body (t @ drop n index)) (product_lists (map (\<lambda>i. between (start ! i) (stop ! i)) [0..<n])) s"
  using index_iter_list [of 0 n index] assms by (simp add: res_fold_map)

lemma index_iter_Inr:
  assumes "n \<le> length index"
    and "\<And>t s. t \<in> set (product_lists (map (\<lambda>i. between (start ! i) (stop ! i)) [0..<n])) \<Longrightarrow> body (t @ drop n index) s = Inr (g t s)"
  shows "index_iter body n 0 start stop index s =
    Inr (fold g (product_lists (map (\<lambda>i. between (start ! i) (stop ! i)) [0..<n])) s)"
  unfolding index_iter_all [OF assms(1)] using assms(2) by (rule res_fold_Inr)

text \<open>Three loops, one in the other, as one loop.\<close>

lemma fold_concat: "fold f (concat xss) s = fold (fold f) xss s"
  by (induction xss arbitrary: s) simp_all

lemma fold_product:
  "fold (\<lambda>x. fold (\<lambda>y. f x y) ys) xs s = fold (\<lambda>(x, y). f x y) (List.product xs ys) s"
  by (induction xs arbitrary: s) (simp_all add: fold_map comp_def)

lemma fold_filter: "fold f (filter P xs) s = fold (\<lambda>x s. if P x then f x s else s) xs s"
  by (induction xs arbitrary: s) simp_all

section \<open>The kept dimensions\<close>

text \<open>\<open>red ! i\<close>: the dimension \<open>i\<close> is not kept. The dimensions that are kept keep their order.\<close>

definition keep_dims :: "bool list \<Rightarrow> nat \<Rightarrow> 'a list \<Rightarrow> 'a list" where
  "keep_dims red n xs = map ((!) xs) (kept red n)"

definition kept_pos :: "bool list \<Rightarrow> nat \<Rightarrow> nat" where
  "kept_pos red i = length (kept red i)"

lemma length_keep_dims [simp]: "length (keep_dims red n xs) = length (kept red n)"
  by (simp add: keep_dims_def)

lemma kept_split: "i < n \<Longrightarrow> \<not> red ! i \<Longrightarrow> kept red n = kept red i @ i # filter (\<lambda>i. \<not> red ! i) [Suc i..<n]"
proof -
  assume i: "i < n" "\<not> red ! i"
  then have "[0..<n] = [0..<i] @ i # [Suc i..<n]"
    using upt_add_eq_append [of 0 i "n - i"] by (simp add: upt_conv_Cons)
  then show ?thesis using i by (simp add: kept_def)
qed

lemma kept_pos: "i < n \<Longrightarrow> \<not> red ! i \<Longrightarrow> kept_pos red i < length (kept red n) \<and> kept red n ! kept_pos red i = i"
  by (simp add: kept_pos_def kept_split)

lemma keep_dims_pos: "i < n \<Longrightarrow> \<not> red ! i \<Longrightarrow> keep_dims red n xs ! kept_pos red i = xs ! i"
  using kept_pos [of i n red] by (simp add: keep_dims_def)

lemma kept_bound: "j < length (kept red n) \<Longrightarrow> kept red n ! j < n \<and> \<not> red ! (kept red n ! j)"
  using nth_mem [of j "kept red n"] by (simp add: kept_def)

lemma kept_pos_inverse: "j < length (kept red n) \<Longrightarrow> kept_pos red (kept red n ! j) = j"
proof -
  assume j: "j < length (kept red n)"
  note b = kept_bound [OF j]
  have "kept_pos red (kept red n ! j) < length (kept red n)" "kept red n ! kept_pos red (kept red n ! j) = kept red n ! j"
    using kept_pos [of "kept red n ! j" n red] b by simp_all
  moreover have "distinct (kept red n)" by (simp add: kept_def)
  ultimately show ?thesis using j by (simp add: nth_eq_iff_index_eq)
qed

lemma keep_dims_eq:
  "keep_dims red n z = ix \<longleftrightarrow> length ix = length (kept red n) \<and> (\<forall>i < n. \<not> red ! i \<longrightarrow> z ! i = ix ! kept_pos red i)"
proof
  assume "keep_dims red n z = ix"
  then show "length ix = length (kept red n) \<and> (\<forall>i < n. \<not> red ! i \<longrightarrow> z ! i = ix ! kept_pos red i)"
    using keep_dims_pos [of _ n red z] by force
next
  assume r: "length ix = length (kept red n) \<and> (\<forall>i < n. \<not> red ! i \<longrightarrow> z ! i = ix ! kept_pos red i)"
  show "keep_dims red n z = ix"
    using r kept_bound [of _ red n] kept_pos_inverse [of _ red n]
    by (intro nth_equalityI) (simp_all add: keep_dims_def)
qed

lemma map2_keep_dims: "n \<le> length xs \<Longrightarrow> n \<le> length ys \<Longrightarrow>
  map2 f (keep_dims red n xs) (keep_dims red n ys) = keep_dims red n (map2 f xs ys)"
proof (intro nth_equalityI)
  fix i assume n: "n \<le> length xs" "n \<le> length ys" and "i < length (map2 f (keep_dims red n xs) (keep_dims red n ys))"
  then have i: "i < length (kept red n)" by simp
  then have "kept red n ! i < length xs" "kept red n ! i < length ys" using n kept_bound [OF i] by simp_all
  then show "map2 f (keep_dims red n xs) (keep_dims red n ys) ! i = keep_dims red n (map2 f xs ys) ! i"
    using i by (simp add: keep_dims_def)
qed simp

lemma nested_keep_dims:
  assumes "nested ns cs bs" "n = length bs"
  shows "nested (keep_dims red n ns) (keep_dims red n cs) (keep_dims red n bs)"
  using assms kept_bound [of _ red n] kept_length [of red n] by (auto simp: nested_def keep_dims_def)

text \<open>The ranges of the loops: all of a dimension that is not kept, one entry of a dimension that is.\<close>

definition axis_ranges :: "bool list \<Rightarrow> int list \<Rightarrow> int list \<Rightarrow> int list list" where
  "axis_ranges red counts off = map (\<lambda>i. if red ! i then below (counts ! i) else [off ! kept_pos red i]) [0..<length counts]"

lemma in_axis_ranges:
  "t \<in> set (product_lists (axis_ranges red counts off)) \<longleftrightarrow> length t = length counts \<and>
    (\<forall>i < length counts. if red ! i then 0 \<le> t ! i \<and> t ! i < counts ! i else t ! i = off ! kept_pos red i)"
  by (auto simp: product_lists_set axis_ranges_def list_all2_conv_all_nth split: if_splits)

lemma distinct_axis_ranges: "distinct (product_lists (axis_ranges red counts off))"
  by (rule distinct_product_lists) (auto simp: axis_ranges_def)

section \<open>The places of a fibre\<close>

text \<open>
  The item \<open>t\<close> of the block \<open>b\<close> of the chunk \<open>c\<close>, all given by their indexes, and whether the place is one of the
  array.
\<close>

definition in_chunk :: "int list \<Rightarrow> int list \<Rightarrow> int list \<Rightarrow> int list" where
  "in_chunk bs b t = map2 (+) (map2 (*) b bs) t"

definition place :: "int list \<Rightarrow> int list \<Rightarrow> int list \<Rightarrow> int list \<Rightarrow> int list \<Rightarrow> int list" where
  "place cs bs c b t = map2 (+) (map2 (*) c cs) (in_chunk bs b t)"

definition inside :: "int list \<Rightarrow> int list \<Rightarrow> int list \<Rightarrow> int list \<Rightarrow> int list \<Rightarrow> int list \<Rightarrow> bool" where
  "inside ns cs bs c b t \<longleftrightarrow> in_box (map2 min cs (map2 (-) ns (map2 (*) c cs))) (in_chunk bs b t)"

text \<open>The order in which the fibre of \<open>ix\<close> is gone through.\<close>

definition chunk_digits :: "int list \<Rightarrow> int list \<Rightarrow> int list" where "chunk_digits cs ix = map2 (div) ix cs"
definition block_digits :: "int list \<Rightarrow> int list \<Rightarrow> int list \<Rightarrow> int list" where
  "block_digits cs bs ix = map2 (div) (map2 (mod) ix cs) bs"
definition item_digits :: "int list \<Rightarrow> int list \<Rightarrow> int list \<Rightarrow> int list" where
  "item_digits cs bs ix = map2 (mod) (map2 (mod) ix cs) bs"

definition fibre_places :: "bool list \<Rightarrow> int list \<Rightarrow> int list \<Rightarrow> int list \<Rightarrow> int list \<Rightarrow> (int list \<times> int list \<times> int list) list" where
  "fibre_places red ns cs bs ix = (let n = length ns; cs' = keep_dims red n cs; bs' = keep_dims red n bs in
     filter (\<lambda>(c, b, t). inside ns cs bs c b t)
       (List.product (product_lists (axis_ranges red (blocks_of ns cs) (chunk_digits cs' ix)))
         (List.product (product_lists (axis_ranges red (blocks_of cs bs) (block_digits cs' bs' ix)))
           (product_lists (axis_ranges red bs (item_digits cs' bs' ix))))))"

definition fibre_order :: "bool list \<Rightarrow> int list \<Rightarrow> int list \<Rightarrow> int list \<Rightarrow> int list \<Rightarrow> int list list" where
  "fibre_order red ns cs bs ix = map (\<lambda>(c, b, t). place cs bs c b t) (fibre_places red ns cs bs ix)"

lemma digits_of_place:
  fixes x y t c b :: int
  assumes "0 \<le> t" "t < b" "0 \<le> y * b + t" "y * b + t < c"
  shows "(x * c + (y * b + t)) div c = x" "(x * c + (y * b + t)) mod c = y * b + t" "(y * b + t) div b = y" "(y * b + t) mod b = t"
proof -
  have "(y * b + t + x * c) div c = x + (y * b + t) div c" "(t + y * b) div b = y + t div b"
    using assms by (intro div_mult_self1; simp)+
  then show "(x * c + (y * b + t)) div c = x" "(y * b + t) div b = y" using assms by (simp_all add: ac_simps)
  have "(y * b + t + x * c) mod c = (y * b + t) mod c" "(t + y * b) mod b = t mod b" by (rule mod_mult_self1)+
  then show "(x * c + (y * b + t)) mod c = y * b + t" "(y * b + t) mod b = t" using assms by (simp_all add: ac_simps)
qed

lemma place_digits:
  assumes "length c = length bs" "length b = length bs" "length t = length bs" "length cs = length bs" "length ns = length bs"
    and "inside ns cs bs c b t" "\<And>i. i < length bs \<Longrightarrow> 0 \<le> t ! i \<and> t ! i < bs ! i"
  shows "chunk_digits cs (place cs bs c b t) = c" "block_digits cs bs (place cs bs c b t) = b"
    "item_digits cs bs (place cs bs c b t) = t"
    "i < length bs \<Longrightarrow> place cs bs c b t ! i < ns ! i" "i < length bs \<Longrightarrow> 0 \<le> c ! i \<Longrightarrow> 0 \<le> cs ! i \<Longrightarrow> 0 \<le> place cs bs c b t ! i"
proof -
  have r: "0 \<le> b ! i * bs ! i + t ! i" "b ! i * bs ! i + t ! i < cs ! i" "b ! i * bs ! i + t ! i < ns ! i - c ! i * cs ! i"
    if "i < length bs" for i
    using assms that by (auto simp: inside_def in_chunk_def in_box_nth)
  note d = digits_of_place [OF assms(7) [THEN conjunct1] assms(7) [THEN conjunct2] r(1,2)]
  show "chunk_digits cs (place cs bs c b t) = c" "block_digits cs bs (place cs bs c b t) = b"
    "item_digits cs bs (place cs bs c b t) = t"
    using assms d
    by (intro nth_equalityI; simp add: chunk_digits_def block_digits_def item_digits_def place_def in_chunk_def)+
  show "i < length bs \<Longrightarrow> place cs bs c b t ! i < ns ! i" "i < length bs \<Longrightarrow> 0 \<le> c ! i \<Longrightarrow> 0 \<le> cs ! i \<Longrightarrow> 0 \<le> place cs bs c b t ! i"
    using assms r [of i] by (simp_all add: place_def in_chunk_def)
qed

lemma place_of_digits:
  assumes "length ix = length bs" "length cs = length bs"
  shows "place cs bs (chunk_digits cs ix) (block_digits cs bs ix) (item_digits cs bs ix) = ix"
  using assms by (intro nth_equalityI) (simp_all add: place_def in_chunk_def chunk_digits_def block_digits_def item_digits_def div_mult_mod_eq)

lemma digits_inside:
  assumes "nested ns cs bs" "in_box ns z"
  shows "inside ns cs bs (chunk_digits cs z) (block_digits cs bs z) (item_digits cs bs z)"
    "in_box (blocks_of ns cs) (chunk_digits cs z)" "in_box (blocks_of cs bs) (block_digits cs bs z)" "in_box bs (item_digits cs bs z)"
proof -
  have l: "length z = length bs" "length cs = length bs" "length ns = length bs"
    using assms in_box_length [OF assms(2)] by (simp_all add: nested_def)
  have p: "0 < bs ! i" "0 < cs ! i" "0 \<le> z ! i" "z ! i < ns ! i" if "i < length bs" for i
    using assms that l by (fastforce simp: nested_def in_box_nth)+
  have m: "z ! i mod cs ! i < ns ! i - z ! i div cs ! i * cs ! i" if "i < length bs" for i
    using p(4) [OF that] by (simp add: minus_div_mult_eq_mod [symmetric])
  show "inside ns cs bs (chunk_digits cs z) (block_digits cs bs z) (item_digits cs bs z)"
    unfolding inside_def in_box_nth using l p m
    by (simp add: in_chunk_def chunk_digits_def block_digits_def item_digits_def div_mult_mod_eq)
  show "in_box (blocks_of ns cs) (chunk_digits cs z)" "in_box (blocks_of cs bs) (block_digits cs bs z)" "in_box bs (item_digits cs bs z)"
    unfolding in_box_nth using l p
    by (auto simp: chunk_digits_def block_digits_def item_digits_def blocks_of_nth pos_imp_zdiv_nonneg_iff
        intro!: block_index_less_ceil)
qed

text \<open>Each item of the fibre is met once, and no other.\<close>

lemma fibre_order_once:
  assumes "nested ns cs bs" "in_box (keep_dims red (length bs) ns) ix"
  shows "distinct (fibre_order red ns cs bs ix)"
    "set (fibre_order red ns cs bs ix) = {z. in_box ns z \<and> keep_dims red (length bs) z = ix}"
proof -
  let ?n = "length bs" and ?cs' = "keep_dims red (length bs) cs" and ?bs' = "keep_dims red (length bs) bs"
  have l: "length ns = ?n" "length cs = ?n" "length ix = length (kept red ?n)"
    using assms in_box_length [OF assms(2)] by (simp_all add: nested_def)
  have p: "0 < bs ! i" "0 < cs ! i" if "i < ?n" for i using assms that by (fastforce simp: nested_def)+
  have kp: "kept_pos red i < length ix" "?cs' ! kept_pos red i = cs ! i" "?bs' ! kept_pos red i = bs ! i"
    "0 \<le> ix ! kept_pos red i" "ix ! kept_pos red i < ns ! i"
    if "i < ?n" "\<not> red ! i" for i
  proof -
    note k = kept_pos [OF that] and kd = keep_dims_pos [OF that]
    show "kept_pos red i < length ix" "?cs' ! kept_pos red i = cs ! i" "?bs' ! kept_pos red i = bs ! i"
      using k kd l by simp_all
    have "0 \<le> ix ! kept_pos red i \<and> ix ! kept_pos red i < keep_dims red ?n ns ! kept_pos red i"
      using assms(2) k by (simp add: in_box_nth)
    then show "0 \<le> ix ! kept_pos red i" "ix ! kept_pos red i < ns ! i" unfolding kd by simp_all
  qed
  have at: "chunk_digits ?cs' ix ! kept_pos red i = ix ! kept_pos red i div cs ! i"
    "block_digits ?cs' ?bs' ix ! kept_pos red i = ix ! kept_pos red i mod cs ! i div bs ! i"
    "item_digits ?cs' ?bs' ix ! kept_pos red i = ix ! kept_pos red i mod cs ! i mod bs ! i"
    if "i < ?n" "\<not> red ! i" for i
    using kp [OF that] l by (simp_all add: chunk_digits_def block_digits_def item_digits_def)
  let ?places = "fibre_places red ns cs bs ix"
  have mem: "(c, b, t) \<in> set ?places \<longleftrightarrow> inside ns cs bs c b t \<and> length c = ?n \<and> length b = ?n \<and> length t = ?n \<and>
      (\<forall>i < ?n. if red ! i then 0 \<le> c ! i \<and> c ! i < ceil_blocks (ns ! i) (cs ! i) \<and> 0 \<le> b ! i \<and>
           b ! i < ceil_blocks (cs ! i) (bs ! i) \<and> 0 \<le> t ! i \<and> t ! i < bs ! i
         else c ! i = ix ! kept_pos red i div cs ! i \<and> b ! i = ix ! kept_pos red i mod cs ! i div bs ! i \<and>
           t ! i = ix ! kept_pos red i mod cs ! i mod bs ! i)" for c b t
    using l at by (auto simp: fibre_places_def Let_def in_axis_ranges blocks_of_nth split: if_splits)
  have t: "0 \<le> t ! i \<and> t ! i < bs ! i" "0 \<le> c ! i" "0 \<le> cs ! i" if "(c, b, t) \<in> set ?places" "i < ?n" for c b t i
    using that mem [of c b t] p [OF that(2)] kp(4) [OF that(2)]
    by (auto simp: pos_imp_zdiv_nonneg_iff split: if_splits)
  have dig: "chunk_digits cs (place cs bs c b t) = c" "block_digits cs bs (place cs bs c b t) = b"
    "item_digits cs bs (place cs bs c b t) = t" "in_box ns (place cs bs c b t)" if m: "(c, b, t) \<in> set ?places" for c b t
  proof -
    note len = m [unfolded mem, THEN conjunct2, THEN conjunct1] m [unfolded mem, THEN conjunct2, THEN conjunct2, THEN conjunct1]
      m [unfolded mem, THEN conjunct2, THEN conjunct2, THEN conjunct2, THEN conjunct1]
    note d = place_digits [OF len l(2,1) m [unfolded mem, THEN conjunct1] t(1) [OF m]]
    show "chunk_digits cs (place cs bs c b t) = c" "block_digits cs bs (place cs bs c b t) = b"
      "item_digits cs bs (place cs bs c b t) = t" using d(1-3) by simp_all
    have "length (place cs bs c b t) = ?n" using len l by (simp add: place_def in_chunk_def)
    then show "in_box ns (place cs bs c b t)" using d(4,5) t(2,3) [OF m] l by (simp add: in_box_nth)
  qed
  have "inj_on (\<lambda>(c, b, t). place cs bs c b t) (set ?places)"
  proof (rule inj_onI)
    fix x y assume xy: "x \<in> set ?places" "y \<in> set ?places"
      "(case x of (c, b, t) \<Rightarrow> place cs bs c b t) = (case y of (c, b, t) \<Rightarrow> place cs bs c b t)"
    obtain c b t c' b' t' where "x = (c, b, t)" "y = (c', b', t')" by (metis surj_pair)
    then show "x = y" using xy dig(1-3) by (metis (no_types, lifting) case_prod_conv)
  qed
  moreover have "distinct ?places" by (simp add: fibre_places_def Let_def distinct_product distinct_axis_ranges)
  ultimately show "distinct (fibre_order red ns cs bs ix)" by (simp add: fibre_order_def distinct_map)
  show "set (fibre_order red ns cs bs ix) = {z. in_box ns z \<and> keep_dims red ?n z = ix}" (is "?S = ?F")
  proof (intro equalityI subsetI)
    fix z assume "z \<in> ?S"
    then obtain c b t where m: "(c, b, t) \<in> set ?places" "z = place cs bs c b t" by (auto simp: fibre_order_def)
    have "z ! i = ix ! kept_pos red i" if i: "i < ?n" "\<not> red ! i" for i
    proof -
      have "z ! i = ix ! kept_pos red i div cs ! i * cs ! i + (ix ! kept_pos red i mod cs ! i div bs ! i * bs ! i + ix ! kept_pos red i mod cs ! i mod bs ! i)"
        using m mem [of c b t] i l by (simp add: place_def in_chunk_def)
      then show ?thesis by (simp add: div_mult_mod_eq)
    qed
    then show "z \<in> ?F" using dig(4) [OF m(1)] m(2) l(3) by (simp add: keep_dims_eq)
  next
    fix z assume "z \<in> ?F"
    then have z: "in_box ns z" "\<forall>i < ?n. \<not> red ! i \<longrightarrow> z ! i = ix ! kept_pos red i" by (simp_all add: keep_dims_eq)
    have lz: "length z = ?n" using in_box_length [OF z(1)] l by simp
    note d = digits_inside [OF assms(1) z(1)]
    have "(chunk_digits cs z, block_digits cs bs z, item_digits cs bs z) \<in> set ?places"
      unfolding mem using d z(2) l lz
      by (auto simp: in_box_nth blocks_of_nth) (auto simp: chunk_digits_def block_digits_def item_digits_def)
    moreover have "z = place cs bs (chunk_digits cs z) (block_digits cs bs z) (item_digits cs bs z)"
      using place_of_digits [OF lz l(2)] by simp
    ultimately show "z \<in> ?S" by (force simp: fibre_order_def)
  qed
qed

section \<open>Reading a place\<close>

lemma stores_place:
  assumes "plain_container c" "stores api c A" "in_box (blocks_of (ns_of c) (cs_of c)) ci"
  shows "\<exists>chunk. get_lazychunk api (c_data (catarr c)) (flat (blocks_of (ns_of c) (cs_of c)) ci) = Some chunk \<and>
    (\<forall>bi. in_box (blocks_of (cs_of c) (bs_of c)) bi \<longrightarrow> (\<exists>block.
       getitem_ctx api chunk (flat (blocks_of (cs_of c) (bs_of c)) bi * blocknitems (catarr c)) (blocknitems (catarr c)) = Some block \<and>
       (\<forall>t. in_box (bs_of c) t \<longrightarrow> inside (ns_of c) (cs_of c) (bs_of c) ci bi t \<longrightarrow>
          block ! nat (flat (bs_of c) t) = A (place (cs_of c) (bs_of c) ci bi t))))"
proof -
  let ?q = "flat (blocks_of (ns_of c) (cs_of c)) ci"
  have q: "0 \<le> ?q" "?q < block_count (ns_of c) (cs_of c)" using flat_bounds [OF assms(3)] by (simp_all add: block_count_def)
  obtain chunk where chunk: "get_lazychunk api (c_data (catarr c)) ?q = Some chunk"
    "\<And>w. 0 \<le> w \<Longrightarrow> w < block_count (cs_of c) (bs_of c) \<Longrightarrow> \<exists>block.
        getitem_ctx api chunk (w * prod_list (bs_of c)) (prod_list (bs_of c)) = Some block \<and>
        (\<forall>e. 0 \<le> e \<longrightarrow> e < prod_list (bs_of c) \<longrightarrow> live (ns_of c) (cs_of c) (bs_of c) ?q w e \<longrightarrow>
           block ! nat e = A (item_at (ns_of c) (cs_of c) (bs_of c) ?q w e))"
    using assms(2) q unfolding stores_def stores_chunk_def by blast
  have st: "block_start (ns_of c) (cs_of c) ?q = map2 (*) ci (cs_of c)"
    unfolding block_start_def unflat_flat [OF assms(3)] by simp
  have "\<exists>block. getitem_ctx api chunk (flat (blocks_of (cs_of c) (bs_of c)) bi * blocknitems (catarr c)) (blocknitems (catarr c)) = Some block \<and>
       (\<forall>t. in_box (bs_of c) t \<longrightarrow> inside (ns_of c) (cs_of c) (bs_of c) ci bi t \<longrightarrow>
          block ! nat (flat (bs_of c) t) = A (place (cs_of c) (bs_of c) ci bi t))"
    if b: "in_box (blocks_of (cs_of c) (bs_of c)) bi" for bi
  proof -
    let ?w = "flat (blocks_of (cs_of c) (bs_of c)) bi"
    have "0 \<le> ?w" "?w < block_count (cs_of c) (bs_of c)" using flat_bounds [OF b] by (simp_all add: block_count_def)
    then obtain block where block: "getitem_ctx api chunk (?w * prod_list (bs_of c)) (prod_list (bs_of c)) = Some block"
      "\<And>e. 0 \<le> e \<Longrightarrow> e < prod_list (bs_of c) \<Longrightarrow> live (ns_of c) (cs_of c) (bs_of c) ?q ?w e \<Longrightarrow>
           block ! nat e = A (item_at (ns_of c) (cs_of c) (bs_of c) ?q ?w e)"
      using chunk(2) by blast
    have lt: "local_item (cs_of c) (bs_of c) ?w (flat (bs_of c) t) = in_chunk (bs_of c) bi t" if "in_box (bs_of c) t" for t
      unfolding local_item_def block_start_def unflat_flat [OF b] unflat_flat [OF that] by (simp add: in_chunk_def)
    have "block ! nat (flat (bs_of c) t) = A (place (cs_of c) (bs_of c) ci bi t)"
      if t: "in_box (bs_of c) t" "inside (ns_of c) (cs_of c) (bs_of c) ci bi t" for t
      using block(2) [of "flat (bs_of c) t"] flat_bounds [OF t(1)] lt [OF t(1)] t(2) st
      by (simp add: live_def inside_def block_extent_def item_at_def place_def)
    then show ?thesis using block(1) plain_counts(1) [OF assms(1)] by auto
  qed
  then show ?thesis using chunk(1) by blast
qed

end
