(* ===== verification/ReduceOneshot.thy ===== *)
theory ReduceOneshot
  imports Reduce Fibres
begin

text \<open>
  Reduction of several dimensions at once (\<^verbatim>\<open>src/reductions/iarray_reduce_oneshot.c\<close>). The prefilter of a block of the
  result goes through all chunks, blocks and items of the input that lie over the block, and gives each item to the
  cell of its item of the result. Shown is that each item of the result is the reduction of its whole fibre, each
  item of the fibre taken once, whatever the chunks and blocks.
\<close>

section \<open>The prefilter\<close>

text \<open>\<open>os_aux\<close> is the array of the means that the variance needs, \<open>os_aux_chunk\<close> its chunk with the number \<open>os_nchunk\<close>.\<close>

record ('d, 'k) iarray_reduce_os_params =
  os_ufunc :: iarray_reduce_function
  os_func :: iarray_reduce_func
  os_input :: "'d container"
  os_result :: "'d container"
  os_axis :: "nat list"
  os_correction :: fp
  os_out_chunkshape :: "int list"
  os_nchunk :: int
  os_aux_chunk :: "'k option"
  os_aux :: "'d container option"

definition iarray_reduce_init :: "('d, 'k) iarray_reduce_os_params \<Rightarrow> reduce_cell list \<Rightarrow> reduce_cell list" where
  "iarray_reduce_init rp = map (\<lambda>c. rf_init (os_ufunc rp) (c\<lparr>medians := []\<rparr>))"

definition iarray_reduce_finish :: "('d, 'k) iarray_reduce_os_params \<Rightarrow> user_data_os \<Rightarrow> reduce_cell list \<Rightarrow> reduce_cell list res" where
  "iarray_reduce_finish rp u = for_items (\<lambda>i c. case rf_finish (os_ufunc rp) u c of None \<Rightarrow> Inl INA_ERR_INVALID | Some c \<Rightarrow> Inr c)"

definition iarray_check_output_padding :: "int list \<Rightarrow> int list \<Rightarrow> ('d, 'k) iarray_reduce_os_params \<Rightarrow> bool" where
  "iarray_check_output_padding block_index item_index rp =
     (let cat = catarr (os_result rp);
          elem_index_n2 = set_prefix (c_ndim cat) (\<lambda>i. item_index ! i + block_index ! i * c_blockshape cat ! i) fresh_slots
      in list_ex (\<lambda>i. os_out_chunkshape rp ! i \<le> elem_index_n2 ! i) [0..<c_ndim cat])"

definition iarray_check_input_padding :: "int list \<Rightarrow> int list \<Rightarrow> int list \<Rightarrow> ('d, 'k) iarray_reduce_os_params \<Rightarrow> bool" where
  "iarray_check_input_padding block_index item_index input_chunkshape rp =
     (let cat = catarr (os_input rp);
          elem_index_n2 = set_prefix (c_ndim cat) (\<lambda>i. item_index ! i + block_index ! i * c_blockshape cat ! i) fresh_slots
      in list_ex (\<lambda>i. input_chunkshape ! i \<le> elem_index_n2 ! i) [0..<c_ndim cat])"

text \<open>The sum over the dimensions of index times stride.\<close>

definition strided :: "nat \<Rightarrow> int list \<Rightarrow> int list \<Rightarrow> int" where
  "strided n index strides = fold (\<lambda>i k. k + index ! i * strides ! i) [0..<n] 0"

definition iarray_reduce_item_iter ::
    "('d, 'k) iarray_reduce_os_params \<Rightarrow> user_data_os \<Rightarrow> ina_val list \<Rightarrow> int list \<Rightarrow> int list \<Rightarrow> int list \<Rightarrow> int list \<Rightarrow> int list \<Rightarrow>
     reduce_cell \<Rightarrow> reduce_cell res" where
  "iarray_reduce_item_iter rp u block input_chunkshape block_index item_start item_stop item_strides =
     (let n = ndim (dtshape (os_input rp))
      in index_iter (\<lambda>item_index c.
           if iarray_check_input_padding block_index item_index input_chunkshape rp then Inr c
           else let nitem = strided n item_index item_strides in Inr (take_item (os_ufunc rp) u c (block ! nat nitem)))
         n 0 item_start item_stop fresh_slots)"

text \<open>
  The mean of an item is set before its items are taken in. An item of the block of the result that is padding is passed
  over. Where a chunk or a block cannot be read the code returns -1, and \<open>IARRAY_RETURN_IF_FAILED\<close> in the loops around it
  replaces that by the last error that was recorded, which may be none: here it is an error, \<open>IARRAY_ERR_BLOSC_FAILED\<close>.
  The theorems are about arrays whose blocks can be read.
\<close>

definition mean_at :: "ina_val list option \<Rightarrow> int \<Rightarrow> ina_val" where
  "mean_at aux_block i = (case aux_block of None \<Rightarrow> VInt 0 | Some means \<Rightarrow> means ! nat i)"

definition iarray_reduce_block_iter ::
    "('d, 'k) blosc_api \<Rightarrow> ('d, 'k) iarray_reduce_os_params \<Rightarrow> user_data_os \<Rightarrow> 'k \<Rightarrow> ina_val list option \<Rightarrow> int list \<Rightarrow> int list \<Rightarrow>
     int list \<Rightarrow> int list \<Rightarrow> (int \<Rightarrow> bool) \<Rightarrow> (int \<Rightarrow> int list) \<Rightarrow> (int \<Rightarrow> int list) \<Rightarrow> int list \<Rightarrow> reduce_cell list \<Rightarrow> reduce_cell list res" where
  "iarray_reduce_block_iter api rp u chunk aux_block input_chunkshape blk_start blk_stop blk_strides is_padding
       item_start item_stop item_strides =
     (let n = ndim (dtshape (os_input rp)); cat = catarr (os_input rp)
      in index_iter (\<lambda>block_index cells.
           let nblock = strided n block_index blk_strides;
               start = nblock * blocknitems cat
           in case getitem_ctx api chunk start (blocknitems cat) of None \<Rightarrow> Inl IARRAY_ERR_BLOSC_FAILED
              | Some block \<Rightarrow> for_items (\<lambda>i c.
                  if is_padding i then Inr c
                  else iarray_reduce_item_iter rp (u\<lparr>ud_mean := mean_at aux_block i\<rparr>) block input_chunkshape block_index
                    (item_start i) (item_stop i) item_strides c) cells)
         n 0 blk_start blk_stop fresh_slots)"

definition iarray_reduce_chunk_iter ::
    "('d, 'k) blosc_api \<Rightarrow> ('d, 'k) iarray_reduce_os_params \<Rightarrow> user_data_os \<Rightarrow> ina_val list option \<Rightarrow> int list \<Rightarrow> int list \<Rightarrow>
     int list \<Rightarrow> int list \<Rightarrow> int list \<Rightarrow> int list \<Rightarrow> (int \<Rightarrow> bool) \<Rightarrow> (int \<Rightarrow> int list) \<Rightarrow> (int \<Rightarrow> int list) \<Rightarrow> int list \<Rightarrow>
     reduce_cell list \<Rightarrow> reduce_cell list res" where
  "iarray_reduce_chunk_iter api rp u aux_block chunk_start chunk_stop chunk_strides blk_start blk_stop blk_strides
       is_padding item_start item_stop item_strides =
     (let n = ndim (dtshape (os_input rp)); cat = catarr (os_input rp)
      in index_iter (\<lambda>chunk_index cells.
           let nchunk = strided n chunk_index chunk_strides;
               elem_index = set_prefix n (\<lambda>i. chunk_index ! i * c_chunkshape cat ! i) (replicate IARRAY_DIMENSION_MAX 0);
               input_chunkshape = set_prefix n (\<lambda>i.
                   if elem_index ! i + c_chunkshape cat ! i \<le> c_shape cat ! i then c_chunkshape cat ! i
                   else c_shape cat ! i - elem_index ! i) (replicate IARRAY_DIMENSION_MAX 0)
           in case get_lazychunk api (c_data cat) nchunk of None \<Rightarrow> Inl IARRAY_ERR_BLOSC_FAILED
              | Some chunk \<Rightarrow> iarray_reduce_block_iter api rp u chunk aux_block input_chunkshape blk_start blk_stop
                  blk_strides is_padding item_start item_stop item_strides cells)
         n 0 chunk_start chunk_stop (replicate IARRAY_DIMENSION_MAX 0))"

text \<open>
  The first and the last index of the loops: all of a reduced dimension, the place of the result in the others. The
  dimensions of the result are counted by \<open>j\<close>.
\<close>

definition axis_flags :: "nat list \<Rightarrow> bool list" where
  "axis_flags axis = fold (\<lambda>k r. r[k := True]) axis (replicate IARRAY_DIMENSION_MAX False)"

definition stop_index :: "nat \<Rightarrow> bool list \<Rightarrow> (nat \<Rightarrow> int) \<Rightarrow> int list \<Rightarrow> int list" where
  "stop_index n red counts off = fst (fold (\<lambda>i (stop, j).
     if red ! i then (stop[i := counts i], j) else (stop[i := off ! j + 1], j + 1)) [0..<n] (replicate IARRAY_DIMENSION_MAX 0, 0))"

definition start_index :: "nat \<Rightarrow> bool list \<Rightarrow> int list \<Rightarrow> int list" where
  "start_index n red stop = set_prefix n (\<lambda>i. if red ! i then 0 else stop ! i - 1) (replicate IARRAY_DIMENSION_MAX 0)"

definition needs_mean :: "iarray_reduce_func \<Rightarrow> bool" where
  "needs_mean func \<longleftrightarrow> func \<in> {IARRAY_REDUCE_VAR, IARRAY_REDUCE_NAN_VAR, IARRAY_REDUCE_STD, IARRAY_REDUCE_NAN_STD}"

text \<open>The factor of the mean. The divisor of a dimension is its length less the correction; a negative one counts as zero.\<close>

definition inverse_count :: "int list \<Rightarrow> nat list \<Rightarrow> fp \<Rightarrow> fp" where
  "inverse_count sh axis correction = fold (\<lambda>k inv.
     let n = fp_add (dbl (of_int (sh ! k))) (fp_neg correction)
     in if fp_less n (Fin 0) then fp_div inv (Fin 0) else fp_div inv n) axis (Fin 1)"

definition read_aux_block :: "('d, 'k) blosc_api \<Rightarrow> ('d, 'k) iarray_reduce_os_params \<Rightarrow> int \<Rightarrow> ina_val list option res" where
  "read_aux_block api rp nblock =
     (if needs_mean (os_func rp) then
        case (os_aux rp, os_aux_chunk rp) of
          (Some aux, Some chunk) \<Rightarrow> (case getitem_ctx api chunk (nblock * blocknitems (catarr aux)) (blocknitems (catarr aux)) of
             None \<Rightarrow> Inl IARRAY_ERR_BLOSC_FAILED | Some block \<Rightarrow> Inr (Some block))
        | _ \<Rightarrow> Inl IARRAY_ERR_BLOSC_FAILED
      else Inr None)"

text \<open>\<open>cells\<close> are the items of the output and of the user data before the call, which hold anything.\<close>

definition reduce_general_prefilter ::
    "('d, 'k) blosc_api \<Rightarrow> ('d, 'k) iarray_reduce_os_params \<Rightarrow> reduce_cell list \<Rightarrow> int \<Rightarrow> ina_val list res" where
  "reduce_general_prefilter api rp cells nblock =
     (let cin = catarr (os_input rp); cout = catarr (os_result rp); n = ndim (dtshape (os_input rp)); m = c_ndim cout;
          u = \<lparr> inv_nelem = inverse_count (shape (dtshape (os_input rp))) (os_axis rp) (os_correction rp),
                ud_correction = os_correction rp, ud_mean = VInt 0 \<rparr>;
          red = axis_flags (os_axis rp)
      in res_bind (read_aux_block api rp nblock) (\<lambda>aux_block.
         let out_chunk_offset_n = decode m (grid m (c_extshape cout) (c_chunkshape cout)) (os_nchunk rp);
             in_chunks_shape = grid n (c_extshape cin) (c_chunkshape cin);
             in_chunks_strides = compute_strides n in_chunks_shape fresh_slots;
             in_chunks_stop = stop_index n red (\<lambda>i. cdiv (c_extshape cin ! i) (c_chunkshape cin ! i)) out_chunk_offset_n;
             in_chunks_start = start_index n red in_chunks_stop;
             out_block_offset_n = decode m (grid m (c_extchunkshape cout) (c_blockshape cout)) nblock;
             in_blocks_shape = grid n (c_extchunkshape cin) (c_blockshape cin);
             in_blocks_strides = compute_strides n in_blocks_shape fresh_slots;
             in_blocks_stop = stop_index n red (\<lambda>i. cdiv (c_extchunkshape cin ! i) (c_blockshape cin ! i)) out_block_offset_n;
             in_blocks_start = start_index n red in_blocks_stop;
             out_items_shape = set_prefix m (\<lambda>i. c_blockshape cout ! i) (replicate IARRAY_DIMENSION_MAX 0);
             in_items_shape = set_prefix n (\<lambda>i. c_blockshape cin ! i) (replicate IARRAY_DIMENSION_MAX 0);
             in_items_strides = compute_strides n in_items_shape fresh_slots;
             out_item_offset_n = (\<lambda>i. decode m out_items_shape i);
             in_item_stop = (\<lambda>i. stop_index n red (\<lambda>k. c_blockshape cin ! k) (out_item_offset_n i));
             in_item_start = (\<lambda>i. start_index n red (in_item_stop i));
             is_padding = (\<lambda>i. iarray_check_output_padding out_block_offset_n (out_item_offset_n i) rp)
         in res_bind (iarray_reduce_chunk_iter api rp u aux_block in_chunks_start in_chunks_stop in_chunks_strides
               in_blocks_start in_blocks_stop in_blocks_strides is_padding in_item_start in_item_stop in_items_strides
               (iarray_reduce_init rp cells)) (\<lambda>cells.
            res_bind (iarray_reduce_finish rp u cells) (\<lambda>cells. Inr (map c_res cells)))))"

section \<open>The loops\<close>

lemma strided_flat:
  assumes "length ns = n" "length ix = n" "take n strides = strides_of ns"
  shows "strided n (ix @ js) strides = flat ns ix"
proof -
  have "strided n (ix @ js) strides = sum_list (map (\<lambda>i. (ix @ js) ! i * strides ! i) [0..<n])"
    by (simp add: strided_def fold_plus)
  also have "map (\<lambda>i. (ix @ js) ! i * strides ! i) [0..<n] = map (\<lambda>i. ix ! i * strides_of ns ! i) [0..<n]"
    using assms take_eq_nth [OF assms(3)] by (intro map_cong) (simp_all add: nth_append)
  finally show ?thesis using flat_sum [of ix ns] assms by simp
qed

lemma length_axis_flags [simp]: "length (axis_flags axis) = 8"
  unfolding axis_flags_def by (subst fold_length_inv) (simp_all add: IARRAY_DIMENSION_MAX_def)

lemma axis_flags_nth: "i < 8 \<Longrightarrow> axis_flags axis ! i \<longleftrightarrow> i \<in> set axis"
proof -
  have "i < length r \<Longrightarrow> fold (\<lambda>k r. r[k := True]) axis r ! i \<longleftrightarrow> i \<in> set axis \<or> r ! i" for r
  proof (induction axis arbitrary: r)
    case (Cons k axis)
    then show ?case by (cases "k = i") simp_all
  qed simp
  then show "i < 8 \<Longrightarrow> axis_flags axis ! i \<longleftrightarrow> i \<in> set axis" by (simp add: axis_flags_def IARRAY_DIMENSION_MAX_def)
qed

lemma stop_index_nth:
  assumes "n \<le> 8" "i < n"
  shows "stop_index n red counts off ! i = (if red ! i then counts i else off ! kept_pos red i + 1)"
proof -
  have "fold (\<lambda>i (stop, j). if red ! i then (stop[i := counts i], j) else (stop[i := off ! j + 1], j + 1)) [0..<m] (xs, 0) =
      (map (\<lambda>i. if red ! i then counts i else off ! kept_pos red i + 1) [0..<m] @ drop m xs, kept_pos red m)"
    if "m \<le> length xs" for m and xs :: "int list"
    using that
  proof (induction m)
    case 0
    then show ?case by (simp add: kept_pos_def kept_def)
  next
    case (Suc m)
    have "drop m xs = xs ! m # drop (Suc m) xs" using Suc.prems by (simp add: Cons_nth_drop_Suc)
    then show ?case using Suc by (simp add: kept_pos_def kept_Suc list_update_append)
  qed
  from this [of n "replicate IARRAY_DIMENSION_MAX 0"] show ?thesis
    using assms by (simp add: stop_index_def IARRAY_DIMENSION_MAX_def nth_append)
qed

lemma loop_ranges:
  assumes "n \<le> 8" "length cnts = n" "\<And>i. i < n \<Longrightarrow> counts i = cnts ! i"
    and "\<And>j. j < length (kept red n) \<Longrightarrow> off ! j = off' ! j"
  shows "map (\<lambda>i. between (start_index n red (stop_index n red counts off) ! i) (stop_index n red counts off ! i)) [0..<n] =
    axis_ranges red cnts off'"
proof -
  have "start_index n red stop ! i = (if red ! i then 0 else stop ! i - 1)" if "i < n" for i stop
    using that assms(1) by (simp add: start_index_def set_prefix_nth IARRAY_DIMENSION_MAX_def)
  moreover have "between 0 k = below k" "between k (k + 1) = [k]" for k
    by (simp_all add: between_def below_def)
  moreover have "kept_pos red i < length (kept red n)" if "i < n" "\<not> red ! i" for i using kept_pos [OF that] by simp
  ultimately show ?thesis
    using assms unfolding axis_ranges_def by (intro map_cong) (simp_all add: stop_index_nth)
qed

lemma axis_ranges_box:
  assumes "in_box (keep_dims red (length counts) counts) off" "t \<in> set (product_lists (axis_ranges red counts off))"
  shows "in_box counts t"
proof -
  have "0 \<le> off ! kept_pos red i \<and> off ! kept_pos red i < counts ! i" if "i < length counts" "\<not> red ! i" for i
  proof -
    have "kept_pos red i < length (keep_dims red (length counts) counts)" using kept_pos [OF that] by simp
    then have "0 \<le> off ! kept_pos red i \<and> off ! kept_pos red i < keep_dims red (length counts) counts ! kept_pos red i"
      using assms(1) by (auto simp: in_box_nth)
    then show ?thesis unfolding keep_dims_pos [OF that] .
  qed
  then show ?thesis using assms(2) by (auto simp: in_axis_ranges in_box_nth split: if_splits)
qed

lemma padding_inside:
  assumes "plain_container c" "n = ndim (dtshape c)" "in_box (blocks_of (cs_of c) (bs_of c)) b" "in_box (bs_of c) t"
    and "\<And>i. i < n \<Longrightarrow> oc ! i = min (cs_of c ! i) (ns_of c ! i - ci ! i * cs_of c ! i)" "length ci = n"
  shows "list_ex (\<lambda>i. oc ! i \<le> set_prefix (c_ndim (catarr c)) (\<lambda>i. (t @ ts) ! i + (b @ bs) ! i * c_blockshape (catarr c) ! i)
      fresh_slots ! i) [0..<c_ndim (catarr c)] \<longleftrightarrow> \<not> inside (ns_of c) (cs_of c) (bs_of c) ci b t"
proof -
  note l = plain_slots [OF assms(1)]
  have len: "length b = n" "length t = n" using assms(2-4) in_box_length l by fastforce+
  have ge: "0 \<le> b ! i * bs_of c ! i + t ! i" if "i < n" for i
    using that assms(2-4) len l plain_fields(9) [OF assms(1)] by (auto simp: in_box_nth)
  have "list_ex (\<lambda>i. oc ! i \<le> set_prefix (c_ndim (catarr c)) (\<lambda>i. (t @ ts) ! i + (b @ bs) ! i * c_blockshape (catarr c) ! i)
      fresh_slots ! i) [0..<c_ndim (catarr c)] \<longleftrightarrow>
    (\<exists>i < n. min (cs_of c ! i) (ns_of c ! i - ci ! i * cs_of c ! i) \<le> b ! i * bs_of c ! i + t ! i)"
    unfolding list_ex_iff using l assms(2,5) len plain_fields(3) [OF assms(1)]
    by (auto simp: set_prefix_nth fresh_slots_def IARRAY_DIMENSION_MAX_def nth_append add.commute)
  also have "\<dots> \<longleftrightarrow> \<not> inside (ns_of c) (cs_of c) (bs_of c) ci b t"
    using ge len l assms(2,6) by (auto simp: inside_def in_chunk_def in_box_nth not_less)
  finally show ?thesis .
qed

section \<open>A block of the result\<close>

text \<open>The result has the shape, chunks and blocks of the input without the reduced dimensions.\<close>

definition oneshot_ready :: "('d, 'k) iarray_reduce_os_params \<Rightarrow> bool" where
  "oneshot_ready rp \<longleftrightarrow> (let a = os_input rp; b = os_result rp; n = ndim (dtshape a); red = axis_flags (os_axis rp) in
     plain_container a \<and> plain_container b \<and> ndim (dtshape b) = length (kept red n) \<and>
     ns_of b = keep_dims red n (ns_of a) \<and> cs_of b = keep_dims red n (cs_of a) \<and> bs_of b = keep_dims red n (bs_of a) \<and>
     0 \<le> os_nchunk rp \<and> os_nchunk rp < block_count (ns_of b) (cs_of b) \<and>
     (\<forall>i < ndim (dtshape b). os_out_chunkshape rp ! i = block_extent (ns_of b) (cs_of b) (os_nchunk rp) ! i))"

definition take_items :: "iarray_reduce_function \<Rightarrow> user_data_os \<Rightarrow> ina_val list \<Rightarrow> reduce_cell \<Rightarrow> reduce_cell" where
  "take_items f u xs c = foldl (take_item f u) c xs"

text \<open>One item of the result through one block of the input.\<close>

definition visit :: "('d, 'k) iarray_reduce_os_params \<Rightarrow> (int list \<Rightarrow> ina_val) \<Rightarrow> user_data_os \<Rightarrow> int list \<Rightarrow> int list \<Rightarrow> int list \<Rightarrow> reduce_cell \<Rightarrow> reduce_cell" where
  "visit rp A u ci bi t c = (let a = os_input rp in
     if inside (ns_of a) (cs_of a) (bs_of a) ci bi t then take_item (os_ufunc rp) u c (A (place (cs_of a) (bs_of a) ci bi t)) else c)"

lemma item_iter:
  assumes "plain_container (os_input rp)" "n = ndim (dtshape (os_input rp))" "in_box (blocks_of (cs_of (os_input rp)) (bs_of (os_input rp))) bi"
    and "map (\<lambda>i. between (item_start ! i) (item_stop ! i)) [0..<n] = T" "\<And>t. t \<in> set (product_lists T) \<Longrightarrow> in_box (bs_of (os_input rp)) t"
    and "take n strides = strides_of (bs_of (os_input rp))"
    and "\<And>i. i < n \<Longrightarrow> input_chunkshape ! i = min (cs_of (os_input rp) ! i) (ns_of (os_input rp) ! i - ci ! i * cs_of (os_input rp) ! i)" "length ci = n"
    and "\<And>t. in_box (bs_of (os_input rp)) t \<Longrightarrow> inside (ns_of (os_input rp)) (cs_of (os_input rp)) (bs_of (os_input rp)) ci bi t \<Longrightarrow>
          block ! nat (flat (bs_of (os_input rp)) t) = A (place (cs_of (os_input rp)) (bs_of (os_input rp)) ci bi t)"
  shows "iarray_reduce_item_iter rp u block input_chunkshape (bi @ bs) item_start item_stop strides c =
    Inr (fold (visit rp A u ci bi) (product_lists T) c)"
proof -
  let ?a = "os_input rp"
  note l = plain_slots [OF assms(1)]
  have n: "n \<le> length fresh_slots" using l assms(2) by (simp add: fresh_slots_def IARRAY_DIMENSION_MAX_def)
  show ?thesis
    unfolding iarray_reduce_item_iter_def Let_def assms(2) [symmetric] assms(4) [symmetric]
  proof (rule index_iter_Inr [OF n])
    fix t c assume "t \<in> set (product_lists (map (\<lambda>i. between (item_start ! i) (item_stop ! i)) [0..<n]))"
    then have t: "in_box (bs_of ?a) t" using assms(4,5) by simp
    have "iarray_check_input_padding (bi @ bs) (t @ drop n fresh_slots) input_chunkshape rp \<longleftrightarrow>
        \<not> inside (ns_of ?a) (cs_of ?a) (bs_of ?a) ci bi t"
      unfolding iarray_check_input_padding_def Let_def by (rule padding_inside [OF assms(1,2,3) t assms(7,8)])
    moreover have "strided n (t @ drop n fresh_slots) strides = flat (bs_of ?a) t"
      using l assms(2) in_box_length [OF t] by (intro strided_flat [OF _ _ assms(6)]) simp_all
    ultimately show "(if iarray_check_input_padding (bi @ bs) (t @ drop n fresh_slots) input_chunkshape rp then Inr c
        else Inr (take_item (os_ufunc rp) u c (block ! nat (strided n (t @ drop n fresh_slots) strides)))) =
      Inr (visit rp A u ci bi t c)"
      using assms(9) [OF t] by (simp add: visit_def Let_def)
  qed
qed

lemma block_iter:
  assumes "plain_container (os_input rp)" "n = ndim (dtshape (os_input rp))"
    and "map (\<lambda>i. between (blk_start ! i) (blk_stop ! i)) [0..<n] = B" "\<And>t. t \<in> set (product_lists B) \<Longrightarrow> in_box (blocks_of (cs_of (os_input rp)) (bs_of (os_input rp))) t"
    and "take n blk_strides = strides_of (blocks_of (cs_of (os_input rp)) (bs_of (os_input rp)))"
    and "\<And>i. i < L \<Longrightarrow> \<not> pad (int i) \<Longrightarrow> map (\<lambda>k. between (item_start (int i) ! k) (item_stop (int i) ! k)) [0..<n] = T i"
    and "\<And>i t. i < L \<Longrightarrow> \<not> pad (int i) \<Longrightarrow> t \<in> set (product_lists (T i)) \<Longrightarrow> in_box (bs_of (os_input rp)) t"
    and "take n strides = strides_of (bs_of (os_input rp))"
    and "\<And>i. i < n \<Longrightarrow> input_chunkshape ! i = min (cs_of (os_input rp) ! i) (ns_of (os_input rp) ! i - ci ! i * cs_of (os_input rp) ! i)" "length ci = n"
    and "\<And>bi. in_box (blocks_of (cs_of (os_input rp)) (bs_of (os_input rp))) bi \<Longrightarrow> \<exists>block.
       getitem_ctx api chunk (flat (blocks_of (cs_of (os_input rp)) (bs_of (os_input rp))) bi * blocknitems (catarr (os_input rp)))
         (blocknitems (catarr (os_input rp))) = Some block \<and>
       (\<forall>t. in_box (bs_of (os_input rp)) t \<longrightarrow> inside (ns_of (os_input rp)) (cs_of (os_input rp)) (bs_of (os_input rp)) ci bi t \<longrightarrow>
          block ! nat (flat (bs_of (os_input rp)) t) = A (place (cs_of (os_input rp)) (bs_of (os_input rp)) ci bi t))"
    and "length cells = L"
  shows "iarray_reduce_block_iter api rp u chunk aux input_chunkshape blk_start blk_stop blk_strides pad item_start item_stop strides cells =
    Inr (map (\<lambda>i. fold (\<lambda>bi c. if pad (int i) then c
       else fold (visit rp A (u\<lparr>ud_mean := mean_at aux (int i)\<rparr>) ci bi) (product_lists (T i)) c) (product_lists B) (cells ! i)) [0..<L])"
proof -
  let ?a = "os_input rp"
  note l = plain_slots [OF assms(1)]
  have n: "n \<le> length fresh_slots" using l assms(2) by (simp add: fresh_slots_def IARRAY_DIMENSION_MAX_def)
  show ?thesis
    unfolding iarray_reduce_block_iter_def Let_def assms(2) [symmetric] index_iter_all [OF n] assms(3)
  proof (rule res_fold_cells [OF _ assms(12)])
    fix bi cs assume bi: "bi \<in> set (product_lists B)" and cs: "length (cs :: reduce_cell list) = L"
    note b = assms(4) [OF bi]
    obtain block where block: "getitem_ctx api chunk (flat (blocks_of (cs_of ?a) (bs_of ?a)) bi * blocknitems (catarr ?a))
         (blocknitems (catarr ?a)) = Some block"
       "\<And>t. in_box (bs_of ?a) t \<Longrightarrow> inside (ns_of ?a) (cs_of ?a) (bs_of ?a) ci bi t \<Longrightarrow>
          block ! nat (flat (bs_of ?a) t) = A (place (cs_of ?a) (bs_of ?a) ci bi t)"
      using assms(11) [OF b] by blast
    have lb: "length (blocks_of (cs_of ?a) (bs_of ?a)) = n" using l assms(2) by simp
    have s: "strided n (bi @ drop n fresh_slots) blk_strides = flat (blocks_of (cs_of ?a) (bs_of ?a)) bi"
      by (rule strided_flat [OF lb _ assms(5)]) (use in_box_length [OF b] lb in simp)
    have "for_items (\<lambda>i c. if pad i then Inr c else iarray_reduce_item_iter rp (u\<lparr>ud_mean := mean_at aux i\<rparr>) block input_chunkshape
          (bi @ drop n fresh_slots) (item_start i) (item_stop i) strides c) cs =
        Inr (map (\<lambda>i. if pad (int i) then cs ! i
          else fold (visit rp A (u\<lparr>ud_mean := mean_at aux (int i)\<rparr>) ci bi) (product_lists (T i)) (cs ! i)) [0..<length cs])"
    proof (rule for_items_Inr)
      fix i assume "i < length cs"
      then have i: "i < L" using cs by simp
      show "(if pad (int i) then Inr (cs ! i) else iarray_reduce_item_iter rp (u\<lparr>ud_mean := mean_at aux (int i)\<rparr>) block input_chunkshape
            (bi @ drop n fresh_slots) (item_start (int i)) (item_stop (int i)) strides (cs ! i)) =
          Inr (if pad (int i) then cs ! i
            else fold (visit rp A (u\<lparr>ud_mean := mean_at aux (int i)\<rparr>) ci bi) (product_lists (T i)) (cs ! i))"
        using item_iter [OF assms(1,2) b assms(6) [OF i] assms(7) [OF i] assms(8-10) block(2)] by simp
    qed
    then show "(case getitem_ctx api chunk (strided n (bi @ drop n fresh_slots) blk_strides * blocknitems (catarr ?a)) (blocknitems (catarr ?a)) of
          None \<Rightarrow> Inl IARRAY_ERR_BLOSC_FAILED
        | Some block \<Rightarrow> for_items (\<lambda>i c. if pad i then Inr c else iarray_reduce_item_iter rp (u\<lparr>ud_mean := mean_at aux i\<rparr>) block input_chunkshape
            (bi @ drop n fresh_slots) (item_start i) (item_stop i) strides c) cs) =
        Inr (map (\<lambda>i. if pad (int i) then cs ! i
          else fold (visit rp A (u\<lparr>ud_mean := mean_at aux (int i)\<rparr>) ci bi) (product_lists (T i)) (cs ! i)) [0..<L])"
      unfolding s by (simp add: block(1) cs)
  qed
qed

lemma chunk_iter:
  assumes "plain_container (os_input rp)" "n = ndim (dtshape (os_input rp))" "stores api (os_input rp) A"
    and "map (\<lambda>i. between (chk_start ! i) (chk_stop ! i)) [0..<n] = C" "\<And>t. t \<in> set (product_lists C) \<Longrightarrow> in_box (blocks_of (ns_of (os_input rp)) (cs_of (os_input rp))) t"
    and "take n chk_strides = strides_of (blocks_of (ns_of (os_input rp)) (cs_of (os_input rp)))"
    and "map (\<lambda>i. between (blk_start ! i) (blk_stop ! i)) [0..<n] = B" "\<And>t. t \<in> set (product_lists B) \<Longrightarrow> in_box (blocks_of (cs_of (os_input rp)) (bs_of (os_input rp))) t"
    and "take n blk_strides = strides_of (blocks_of (cs_of (os_input rp)) (bs_of (os_input rp)))"
    and "\<And>i. i < L \<Longrightarrow> \<not> pad (int i) \<Longrightarrow> map (\<lambda>k. between (item_start (int i) ! k) (item_stop (int i) ! k)) [0..<n] = T i"
    and "\<And>i t. i < L \<Longrightarrow> \<not> pad (int i) \<Longrightarrow> t \<in> set (product_lists (T i)) \<Longrightarrow> in_box (bs_of (os_input rp)) t"
    and "take n strides = strides_of (bs_of (os_input rp))" "length cells = L"
  shows "iarray_reduce_chunk_iter api rp u aux chk_start chk_stop chk_strides blk_start blk_stop blk_strides pad item_start item_stop strides cells =
    Inr (map (\<lambda>i. fold (\<lambda>ci. fold (\<lambda>bi c. if pad (int i) then c
       else fold (visit rp A (u\<lparr>ud_mean := mean_at aux (int i)\<rparr>) ci bi) (product_lists (T i)) c) (product_lists B)) (product_lists C) (cells ! i)) [0..<L])"
proof -
  let ?a = "os_input rp" let ?z = "replicate IARRAY_DIMENSION_MAX 0"
  note l = plain_slots [OF assms(1)]
  have n: "n \<le> length ?z" "n \<le> 8" using l assms(2) by (simp_all add: IARRAY_DIMENSION_MAX_def)
  define ext where "ext index = set_prefix n (\<lambda>i.
      if set_prefix n (\<lambda>i. index ! i * c_chunkshape (catarr ?a) ! i) ?z ! i + c_chunkshape (catarr ?a) ! i \<le> c_shape (catarr ?a) ! i
      then c_chunkshape (catarr ?a) ! i
      else c_shape (catarr ?a) ! i - set_prefix n (\<lambda>i. index ! i * c_chunkshape (catarr ?a) ! i) ?z ! i) ?z" for index
  show ?thesis
    unfolding iarray_reduce_chunk_iter_def Let_def assms(2) [symmetric] index_iter_all [OF n(1)] assms(4) ext_def [symmetric]
  proof (rule res_fold_cells [OF _ assms(13)])
    fix ci cs assume ci: "ci \<in> set (product_lists C)" and cs: "length (cs :: reduce_cell list) = L"
    note c = assms(5) [OF ci]
    have lc: "length (blocks_of (ns_of ?a) (cs_of ?a)) = n" using l assms(2) by simp
    then have lci: "length ci = n" using in_box_length [OF c] by simp
    have s: "strided n (ci @ drop n ?z) chk_strides = flat (blocks_of (ns_of ?a) (cs_of ?a)) ci"
      by (rule strided_flat [OF lc lci assms(6)])
    have e: "ext (ci @ drop n ?z) ! i = min (cs_of ?a ! i) (ns_of ?a ! i - ci ! i * cs_of ?a ! i)" if "i < n" for i
      using that n lci assms(2) plain_fields(1,2) [OF assms(1)]
      by (simp add: ext_def set_prefix_nth IARRAY_DIMENSION_MAX_def nth_append min_def)
    obtain chunk where chunk: "get_lazychunk api (c_data (catarr ?a)) (flat (blocks_of (ns_of ?a) (cs_of ?a)) ci) = Some chunk"
      "\<And>bi. in_box (blocks_of (cs_of ?a) (bs_of ?a)) bi \<Longrightarrow> (\<exists>block.
         getitem_ctx api chunk (flat (blocks_of (cs_of ?a) (bs_of ?a)) bi * blocknitems (catarr ?a)) (blocknitems (catarr ?a)) = Some block \<and>
         (\<forall>t. in_box (bs_of ?a) t \<longrightarrow> inside (ns_of ?a) (cs_of ?a) (bs_of ?a) ci bi t \<longrightarrow>
            block ! nat (flat (bs_of ?a) t) = A (place (cs_of ?a) (bs_of ?a) ci bi t)))"
      using stores_place [OF assms(1,3) c] by blast
    have "iarray_reduce_block_iter api rp u chunk aux (ext (ci @ drop n ?z)) blk_start blk_stop blk_strides pad
            item_start item_stop strides cs =
        Inr (map (\<lambda>i. fold (\<lambda>bi c. if pad (int i) then c
          else fold (visit rp A (u\<lparr>ud_mean := mean_at aux (int i)\<rparr>) ci bi) (product_lists (T i)) c) (product_lists B) (cs ! i)) [0..<L])"
      by (rule block_iter [OF assms(1,2,7)]) (use assms(8-12) e lci chunk(2) cs in simp_all)
    then show "(case get_lazychunk api (c_data (catarr ?a)) (strided n (ci @ drop n ?z) chk_strides) of
          None \<Rightarrow> Inl IARRAY_ERR_BLOSC_FAILED
        | Some chunk \<Rightarrow> iarray_reduce_block_iter api rp u chunk aux (ext (ci @ drop n ?z)) blk_start blk_stop blk_strides pad
            item_start item_stop strides cs) =
        Inr (map (\<lambda>i. fold (\<lambda>bi c. if pad (int i) then c
          else fold (visit rp A (u\<lparr>ud_mean := mean_at aux (int i)\<rparr>) ci bi) (product_lists (T i)) c) (product_lists B) (cs ! i)) [0..<L])"
      unfolding s by (simp add: chunk(1))
  qed
qed

text \<open>All the visits of an item, in order.\<close>

lemma fold_visits:
  "fold (\<lambda>ci. fold (\<lambda>bi. fold (visit rp A u ci bi) T) B) C c =
   take_items (os_ufunc rp) u (map A (map (\<lambda>(ci, bi, t). place (cs_of (os_input rp)) (bs_of (os_input rp)) ci bi t)
     (filter (\<lambda>(ci, bi, t). inside (ns_of (os_input rp)) (cs_of (os_input rp)) (bs_of (os_input rp)) ci bi t)
       (List.product C (List.product B T))))) c"
proof -
  have v: "fold (\<lambda>ci. fold (\<lambda>bi. fold (visit rp A u ci bi) T) B) C c =
      fold (\<lambda>(ci, bi, t). visit rp A u ci bi t) (List.product C (List.product B T)) c"
    unfolding fold_product [symmetric] by (simp add: fold_product [symmetric] case_prod_beta' prod.case_distrib)
  show ?thesis
    unfolding v take_items_def foldl_conv_fold fold_map fold_filter comp_def
    by (intro fold_cong) (auto simp: visit_def Let_def)
qed

text \<open>The value of an item of the result: the items \<open>xs\<close> of its fibre are taken in, with the mean \<open>m\<close>.\<close>

definition oneshot_cell :: "iarray_reduce_function \<Rightarrow> user_data_os \<Rightarrow> ina_val \<Rightarrow> ina_val list \<Rightarrow> reduce_cell \<Rightarrow> reduce_cell" where
  "oneshot_cell f u m xs c = take_items f (u\<lparr>ud_mean := m\<rparr>) xs (rf_init f (c\<lparr>medians := []\<rparr>))"

definition oneshot_value :: "iarray_reduce_function \<Rightarrow> user_data_os \<Rightarrow> ina_val \<Rightarrow> ina_val list \<Rightarrow> reduce_cell \<Rightarrow> ina_val" where
  "oneshot_value f u m xs c = c_res (the (rf_finish f u (oneshot_cell f u m xs c)))"

text \<open>The end of the reduction has a result for every non-empty fibre, and for padding, which has no items.\<close>

definition ends :: "iarray_reduce_function \<Rightarrow> bool" where
  "ends f \<longleftrightarrow> (\<forall>u m c xs. xs \<noteq> [] \<longrightarrow> rf_finish f u (oneshot_cell f u m xs c) \<noteq> None)"

definition ends_empty :: "iarray_reduce_function \<Rightarrow> bool" where
  "ends_empty f \<longleftrightarrow> (\<forall>u c. rf_finish f u (rf_init f (c\<lparr>medians := []\<rparr>)) \<noteq> None)"

definition unpadded :: "int list \<Rightarrow> int list \<Rightarrow> int list \<Rightarrow> bool" where
  "unpadded ns cs bs \<longleftrightarrow> (\<forall>i < length bs. ns ! i mod cs ! i = 0 \<and> cs ! i mod bs ! i = 0)"

lemma whole_blocks:
  fixes k x b n :: int
  assumes "0 < b" "0 < n" "n mod b = 0" "k < ceil_blocks n b" "x < b"
  shows "k * b + x < n"
proof -
  have "ceil_blocks n b = n div b" using assms by (simp add: ceil_blocks_def c_arith)
  then have "(k + 1) * b \<le> n div b * b" using assms by (intro mult_right_mono) simp_all
  also have "n div b * b = n" using assms by (simp add: mod_0_imp_dvd)
  finally show ?thesis using assms by (simp add: distrib_right)
qed

lemma unpadded_live:
  assumes "nested ns cs bs" "unpadded ns cs bs" "0 \<le> q" "q < block_count ns cs" "0 \<le> w" "w < block_count cs bs" "0 \<le> e" "e < prod_list bs"
  shows "live ns cs bs q w e"
proof -
  note g = nested_good [OF assms(1), THEN conjunct1] nested_good [OF assms(1), THEN conjunct2] and p = nested_pos [OF assms(1)]
  have l: "length ns = length bs" "length cs = length bs" using assms(1) by (simp_all add: nested_def)
  have pos: "0 < ns ! i" "0 < cs ! i" "0 < bs ! i" if "i < length bs" for i using p that l by (auto simp: all_pos_nth)
  have e: "0 \<le> unflat bs e ! i" "unflat bs e ! i < bs ! i" if "i < length bs" for i
    using unflat_in_box [of bs e] p assms(7,8) that by (auto simp: in_box_nth)
  have w: "0 \<le> unflat (blocks_of cs bs) w ! i" "unflat (blocks_of cs bs) w ! i < ceil_blocks (cs ! i) (bs ! i)" if "i < length bs" for i
    using block_digit [OF g(2), of w i] assms(5,6) that by (simp_all add: block_count_def)
  have q: "unflat (blocks_of ns cs) q ! i < ceil_blocks (ns ! i) (cs ! i)" if "i < length bs" for i
    using block_digit(2) [OF g(1), of q i] assms(3,4) that l by (simp add: block_count_def)
  have c: "unflat (blocks_of cs bs) w ! i * bs ! i + unflat bs e ! i < cs ! i" if "i < length bs" for i
    using whole_blocks [OF pos(3) pos(2) _ w(2) e(2), of i] that assms(2) by (simp add: unpadded_def)
  have n: "unflat (blocks_of ns cs) q ! i * cs ! i + (unflat (blocks_of cs bs) w ! i * bs ! i + unflat bs e ! i) < ns ! i"
    if "i < length bs" for i
    using whole_blocks [OF pos(2) pos(1) _ q c, of i] that assms(2) by (simp add: unpadded_def)
  show ?thesis
    unfolding live_def in_box_nth using l c n e w pos
    by (auto simp: local_item_def block_start_nth block_extent_nth add_nonneg_nonneg less_imp_le less_diff_eq add.commute)
qed

lemma fibre_nonempty:
  assumes "nested ns cs bs" "in_box (keep_dims red (length bs) ns) ix"
  shows "fibre_order red ns cs bs ix \<noteq> []"
proof -
  let ?n = "length bs" let ?z = "map (\<lambda>i. if red ! i then 0 else ix ! kept_pos red i) [0..<?n]"
  have l: "length ns = ?n" "length ix = length (kept red ?n)" using assms in_box_length [OF assms(2)] by (simp_all add: nested_def)
  have "0 < ns ! i" if "i < ?n" for i using nested_pos [OF assms(1)] that l by (simp add: all_pos_nth)
  moreover have "0 \<le> ix ! kept_pos red i \<and> ix ! kept_pos red i < ns ! i" if "i < ?n" "\<not> red ! i" for i
  proof -
    have "0 \<le> ix ! kept_pos red i \<and> ix ! kept_pos red i < keep_dims red ?n ns ! kept_pos red i"
      using assms(2) kept_pos [OF that] by (simp add: in_box_nth)
    then show ?thesis unfolding keep_dims_pos [OF that] .
  qed
  ultimately have "in_box ns ?z" "keep_dims red ?n ?z = ix" using l by (simp_all add: in_box_nth keep_dims_eq)
  then have "?z \<in> set (fibre_order red ns cs bs ix)" using fibre_order_once(2) [OF assms] by simp
  then show ?thesis by auto
qed

lemma fold_skip_fun: "fold (\<lambda>x c. c) xs = (\<lambda>c. c)"
  by (rule ext) (rule fold_skip)

definition oneshot_user_data :: "int list \<Rightarrow> nat list \<Rightarrow> fp \<Rightarrow> user_data_os" where
  "oneshot_user_data sh axis correction =
     \<lparr> inv_nelem = inverse_count sh axis correction, ud_correction = correction, ud_mean = VInt 0 \<rparr>"

lemma general_prefilter:
  assumes "oneshot_ready rp" "stores api (os_input rp) A" "ends (os_ufunc rp)"
    and "ends_empty (os_ufunc rp) \<or> unpadded (ns_of (os_result rp)) (cs_of (os_result rp)) (bs_of (os_result rp))"
    and "0 \<le> w" "w < block_count (cs_of (os_result rp)) (bs_of (os_result rp))" "length cells = nat (prod_list (bs_of (os_result rp)))"
    and "read_aux_block api rp w = Inr aux"
  shows "\<exists>block. reduce_general_prefilter api rp cells w = Inr block \<and> length block = length cells \<and>
    (\<forall>i < length cells. live (ns_of (os_result rp)) (cs_of (os_result rp)) (bs_of (os_result rp)) (os_nchunk rp) w (int i) \<longrightarrow>
       block ! i = oneshot_value (os_ufunc rp)
         (oneshot_user_data (shape (dtshape (os_input rp))) (os_axis rp) (os_correction rp)) (mean_at aux (int i))
         (map A (fibre_order (axis_flags (os_axis rp)) (ns_of (os_input rp)) (cs_of (os_input rp)) (bs_of (os_input rp))
           (item_at (ns_of (os_result rp)) (cs_of (os_result rp)) (bs_of (os_result rp)) (os_nchunk rp) w (int i)))) (cells ! i))"
proof -
  let ?a = "os_input rp" and ?b = "os_result rp" and ?f = "os_ufunc rp" and ?q = "os_nchunk rp"
  let ?ns = "ns_of ?a" and ?cs = "cs_of ?a" and ?bs = "bs_of ?a" and ?ns' = "ns_of ?b" and ?cs' = "cs_of ?b" and ?bs' = "bs_of ?b"
  let ?live = "\<lambda>i. live ?ns' ?cs' ?bs' ?q w i" and ?ix = "\<lambda>i. item_at ?ns' ?cs' ?bs' ?q w i"
  define n m red L where nm: "n = ndim (dtshape ?a)" "m = c_ndim (catarr ?b)" "red = axis_flags (os_axis rp)" "L = length cells"
  define u where "u = oneshot_user_data (shape (dtshape ?a)) (os_axis rp) (os_correction rp)"
  have a: "plain_container ?a" and b: "plain_container ?b" and sh: "ndim (dtshape ?b) = length (kept red n)" "?ns' = keep_dims red n ?ns"
    "?cs' = keep_dims red n ?cs" "?bs' = keep_dims red n ?bs" and q: "0 \<le> ?q" "?q < block_count ?ns' ?cs'"
    and oc: "\<forall>i < ndim (dtshape ?b). os_out_chunkshape rp ! i = block_extent ?ns' ?cs' ?q ! i"
    using assms(1) unfolding oneshot_ready_def Let_def nm by blast+
  note la = plain_slots [OF a] and lb = plain_slots [OF b] and na = plain_nested [OF a] and nb = plain_nested [OF b]
  have m: "m = ndim (dtshape ?b)" "m = length (kept red n)" using lb(1) nm sh by simp_all
  have n8: "n \<le> 8" "m \<le> 8" using la lb nm m by simp_all
  have len: "length ?ns = n" "length ?cs = n" "length ?bs = n" "length ?ns' = m" "length ?cs' = m" "length ?bs' = m"
    using la lb nm m by simp_all
  have bl: "keep_dims red n (blocks_of ?ns ?cs) = blocks_of ?ns' ?cs'" "keep_dims red n (blocks_of ?cs ?bs) = blocks_of ?cs' ?bs'"
    using map2_keep_dims [of n ?ns ?cs ceil_blocks red] map2_keep_dims [of n ?cs ?bs ceil_blocks red] len sh by (simp_all add: blocks_of_def)
  have pos: "all_pos (blocks_of ?ns' ?cs')" "all_pos (blocks_of ?cs' ?bs')" "all_pos ?bs'"
    using nested_good [OF nb] nested_pos [OF nb] good_blocks_of by (auto simp: good_shape_def)
  define uq uw ue where un: "uq = unflat (blocks_of ?ns' ?cs') ?q" "uw = unflat (blocks_of ?cs' ?bs') w" "ue = (\<lambda>i. unflat ?bs' i)"
  have bq: "in_box (blocks_of ?ns' ?cs') uq" and bw: "in_box (blocks_of ?cs' ?bs') uw"
    and be: "in_box ?bs' (ue (int i))" if "i < L" for i
    using unflat_in_box [OF pos(1) q(1)] unflat_in_box [OF pos(2) assms(5)] unflat_in_box [OF pos(3), of "int i"] q assms(6,7) that un nm(4)
    by (simp_all add: block_count_def nat_less_iff)
  show ?thesis
  proof (cases "L = 0")
    case True
    have "0 < prod_list ?bs'" using plain_counts(2) [OF b] .
    then show ?thesis using True assms(7) nm(4) by simp
  next
    case False
    then have L: "0 < L" by simp
    note bq = bq [OF L] and bw = bw [OF L]
    have luq: "length uq = m" "length uw = m" "length (ue i) = m" for i using un len by simp_all
    define dq dw de where dd: "dq = decode m (grid m (c_extshape (catarr ?b)) (c_chunkshape (catarr ?b))) ?q"
      "dw = decode m (grid m (c_extchunkshape (catarr ?b)) (c_blockshape (catarr ?b))) w"
      "de = (\<lambda>i. decode m (set_prefix m (\<lambda>i. c_blockshape (catarr ?b) ! i) (replicate IARRAY_DIMENSION_MAX 0)) i)"
    have dq: "dq = uq @ replicate (8 - m) 0" and dw: "dw = uw @ replicate (8 - m) 0"
      unfolding dd un using grid_plain [OF b m(1)] pos q assms(5) n8 by (intro decode_unflat; simp)+
    have oi: "take m (set_prefix m (\<lambda>i. c_blockshape (catarr ?b) ! i) (replicate IARRAY_DIMENSION_MAX 0)) = ?bs'"
      using n8 len plain_fields(3) [OF b] m(1) by (intro nth_equalityI) (simp_all add: set_prefix_nth IARRAY_DIMENSION_MAX_def)
    have de: "de (int i) = ue (int i) @ replicate (8 - m) 0" for i
      unfolding dd un using oi pos n8 by (intro decode_unflat) (simp_all add: IARRAY_DIMENSION_MAX_def)
    have fa: "cdiv (c_extshape (catarr ?a) ! i) (c_chunkshape (catarr ?a) ! i) = blocks_of ?ns ?cs ! i"
      "cdiv (c_extchunkshape (catarr ?a) ! i) (c_blockshape (catarr ?a) ! i) = blocks_of ?cs ?bs ! i"
      "c_blockshape (catarr ?a) ! i = ?bs ! i" if "i < n" for i
      using that plain_fields [OF a, of i] nm len by (simp_all add: c_arith ceil_blocks_nonneg blocks_of_nth)
    define C B T where cbt: "C = axis_ranges red (blocks_of ?ns ?cs) uq" "B = axis_ranges red (blocks_of ?cs ?bs) uw"
      "T = (\<lambda>i. axis_ranges red ?bs (ue (int i)))"
    have rC: "map (\<lambda>i. between (start_index n red (stop_index n red (\<lambda>i. cdiv (c_extshape (catarr ?a) ! i) (c_chunkshape (catarr ?a) ! i)) dq) ! i)
        (stop_index n red (\<lambda>i. cdiv (c_extshape (catarr ?a) ! i) (c_chunkshape (catarr ?a) ! i)) dq ! i)) [0..<n] = C"
      unfolding cbt using len fa luq m by (intro loop_ranges [OF n8(1)]) (simp_all add: dq nth_append)
    have rB: "map (\<lambda>i. between (start_index n red (stop_index n red (\<lambda>i. cdiv (c_extchunkshape (catarr ?a) ! i) (c_blockshape (catarr ?a) ! i)) dw) ! i)
        (stop_index n red (\<lambda>i. cdiv (c_extchunkshape (catarr ?a) ! i) (c_blockshape (catarr ?a) ! i)) dw ! i)) [0..<n] = B"
      unfolding cbt using len fa luq m by (intro loop_ranges [OF n8(1)]) (simp_all add: dw nth_append)
    have rT: "map (\<lambda>k. between (start_index n red (stop_index n red (\<lambda>k. c_blockshape (catarr ?a) ! k) (de (int i))) ! k)
        (stop_index n red (\<lambda>k. c_blockshape (catarr ?a) ! k) (de (int i)) ! k)) [0..<n] = T i" for i
      unfolding cbt using len fa luq m by (intro loop_ranges [OF n8(1)]) (simp_all add: de nth_append)
    have inC: "in_box (blocks_of ?ns ?cs) t" if "t \<in> set (product_lists C)" for t
      using axis_ranges_box [of red "blocks_of ?ns ?cs" uq t] that bq bl len by (simp add: cbt)
    have inB: "in_box (blocks_of ?cs ?bs) t" if "t \<in> set (product_lists B)" for t
      using axis_ranges_box [of red "blocks_of ?cs ?bs" uw t] that bw bl len by (simp add: cbt)
    have inT: "in_box ?bs t" if "i < L" "t \<in> set (product_lists (T i))" for i t
      using axis_ranges_box [of red ?bs "ue (int i)" t] that be [OF that(1)] sh len by (simp add: cbt)
    define sC sB sT where ss: "sC = compute_strides n (grid n (c_extshape (catarr ?a)) (c_chunkshape (catarr ?a))) fresh_slots"
      "sB = compute_strides n (grid n (c_extchunkshape (catarr ?a)) (c_blockshape (catarr ?a))) fresh_slots"
      "sT = compute_strides n (set_prefix n (\<lambda>i. c_blockshape (catarr ?a) ! i) (replicate IARRAY_DIMENSION_MAX 0)) fresh_slots"
    have ii: "take n (set_prefix n (\<lambda>i. c_blockshape (catarr ?a) ! i) (replicate IARRAY_DIMENSION_MAX 0)) = ?bs"
      using n8 len fa by (intro nth_equalityI) (simp_all add: set_prefix_nth IARRAY_DIMENSION_MAX_def)
    have sC: "take n sC = strides_of (blocks_of ?ns ?cs)" and sB: "take n sB = strides_of (blocks_of ?cs ?bs)" and sT: "take n sT = strides_of ?bs"
      unfolding ss using grid_plain [OF a nm(1)] ii n8 by (intro strides_slots; simp add: fresh_slots_def IARRAY_DIMENSION_MAX_def)+
    define pad where "pad i = iarray_check_output_padding dw (de i) rp" for i
    have loc: "in_chunk ?bs' uw (ue i) = local_item ?cs' ?bs' w i" for i by (simp add: in_chunk_def local_item_def block_start_def un)
    have ins: "inside ?ns' ?cs' ?bs' uq uw (ue i) \<longleftrightarrow> ?live i" for i
      by (simp add: inside_def live_def block_extent_def block_start_def un loc [unfolded un])
    have pad: "pad (int i) \<longleftrightarrow> \<not> ?live (int i)" if i: "i < L" for i
    proof -
      have "os_out_chunkshape rp ! k = min (?cs' ! k) (?ns' ! k - uq ! k * ?cs' ! k)" if "k < m" for k
        using oc that m(1) len by (simp add: block_extent_nth block_start_nth un)
      from padding_inside [OF b m(1) bw be [OF i] this luq(1)] show ?thesis
        unfolding pad_def iarray_check_output_padding_def Let_def dw de ins by simp
    qed
    define cells1 where "cells1 = iarray_reduce_init rp cells"
    have c1: "length cells1 = L" "cells1 ! i = rf_init ?f ((cells ! i)\<lparr>medians := []\<rparr>)" if "i < L" for i
      using that nm(4) by (simp_all add: cells1_def iarray_reduce_init_def)
    define cells2 where "cells2 = map (\<lambda>i. fold (\<lambda>ci. fold (\<lambda>bi c. if pad (int i) then c
       else fold (visit rp A (u\<lparr>ud_mean := mean_at aux (int i)\<rparr>) ci bi) (product_lists (T i)) c) (product_lists B)) (product_lists C) (cells1 ! i)) [0..<L]"
    have loops: "iarray_reduce_chunk_iter api rp u aux
        (start_index n red (stop_index n red (\<lambda>i. cdiv (c_extshape (catarr ?a) ! i) (c_chunkshape (catarr ?a) ! i)) dq))
        (stop_index n red (\<lambda>i. cdiv (c_extshape (catarr ?a) ! i) (c_chunkshape (catarr ?a) ! i)) dq) sC
        (start_index n red (stop_index n red (\<lambda>i. cdiv (c_extchunkshape (catarr ?a) ! i) (c_blockshape (catarr ?a) ! i)) dw))
        (stop_index n red (\<lambda>i. cdiv (c_extchunkshape (catarr ?a) ! i) (c_blockshape (catarr ?a) ! i)) dw) sB pad
        (\<lambda>i. start_index n red (stop_index n red (\<lambda>k. c_blockshape (catarr ?a) ! k) (de i)))
        (\<lambda>i. stop_index n red (\<lambda>k. c_blockshape (catarr ?a) ! k) (de i)) sT cells1 = Inr cells2"
      unfolding cells2_def
      by (rule chunk_iter [OF a nm(1) assms(2) rC inC sC rB inB sB])
        (use inT sT c1(1) [OF L] in \<open>simp_all only: rT\<close>)
    have c2: "cells2 ! i = (if ?live (int i) then oneshot_cell ?f u (mean_at aux (int i)) (map A (fibre_order red ?ns ?cs ?bs (?ix (int i)))) (cells ! i)
        else rf_init ?f ((cells ! i)\<lparr>medians := []\<rparr>))" if i: "i < L" for i
    proof (cases "?live (int i)")
      case True
      have pl: "?ix (int i) = place ?cs' ?bs' uq uw (ue (int i))" by (simp add: item_at_def place_def loc [unfolded un] block_start_def un)
      have dg: "chunk_digits ?cs' (?ix (int i)) = uq" "block_digits ?cs' ?bs' (?ix (int i)) = uw" "item_digits ?cs' ?bs' (?ix (int i)) = ue (int i)"
        unfolding pl using True ins be [OF i] luq len by (intro place_digits [of _ _ _ _ _ ?ns']; simp add: in_box_nth)+
      have "fibre_order red ?ns ?cs ?bs (?ix (int i)) = map (\<lambda>(ci, bi, t). place ?cs ?bs ci bi t)
          (filter (\<lambda>(ci, bi, t). inside ?ns ?cs ?bs ci bi t)
            (List.product (product_lists C) (List.product (product_lists B) (product_lists (T i)))))"
        unfolding fibre_order_def fibre_places_def Let_def cbt using dg sh len by simp
      then show ?thesis
        using True i pad [OF i] fold_visits [of rp A "u\<lparr>ud_mean := mean_at aux (int i)\<rparr>" "product_lists (T i)" "product_lists B" "product_lists C"]
        by (simp add: cells2_def oneshot_cell_def c1(2) [OF i])
    next
      case False
      then show ?thesis using i pad [OF i] by (simp add: cells2_def c1(2) [OF i] fold_skip_fun)
    qed
    have fin: "rf_finish ?f u (cells2 ! i) \<noteq> None" if i: "i < L" for i
    proof (cases "?live (int i)")
      case True
      have "in_box (keep_dims red n ?ns) (?ix (int i))" using live_in_box [OF nb q True] sh by simp
      then have "fibre_order red ?ns ?cs ?bs (?ix (int i)) \<noteq> []" using fibre_nonempty [OF na] len by simp
      then show ?thesis using True c2 [OF i] assms(3) by (simp add: ends_def)
    next
      case False
      have "int i < prod_list ?bs'" using i assms(7) nm(4) plain_counts(2) [OF b] by (simp add: nat_less_iff)
      then have "\<not> unpadded ?ns' ?cs' ?bs'" using unpadded_live [OF nb _ q assms(5,6), of "int i"] False by auto
      then show ?thesis using assms(4) False c2 [OF i] by (simp add: ends_empty_def)
    qed
    have l2: "length cells2 = L" by (simp add: cells2_def)
    have "iarray_reduce_finish rp u cells2 = Inr (map (\<lambda>i. the (rf_finish ?f u (cells2 ! i))) [0..<L])"
      unfolding iarray_reduce_finish_def l2 [symmetric] using fin l2
      by (intro for_items_Inr) (auto split: option.splits)
    then have "reduce_general_prefilter api rp cells w = Inr (map c_res (map (\<lambda>i. the (rf_finish ?f u (cells2 ! i))) [0..<L]))"
      unfolding reduce_general_prefilter_def Let_def assms(8) res_bind_simps nm(1-3) [symmetric] dd [symmetric] ss [symmetric]
        oneshot_user_data_def [symmetric] u_def [symmetric] cells1_def [symmetric] pad_def [symmetric] loops by simp
    then show ?thesis using c2 nm(3,4) by (auto simp: oneshot_value_def u_def)
  qed
qed

section \<open>All chunks of the result\<close>

text \<open>The shape of the result: the reduced dimensions are marked with -1, then the others move up.\<close>

definition mark_axes :: "nat list \<Rightarrow> int list \<Rightarrow> int list" where
  "mark_axes axis sh = fold (\<lambda>k sh. sh[k := -1]) axis sh"

definition reduce2_shape :: "nat \<Rightarrow> nat list \<Rightarrow> int list \<Rightarrow> int list" where
  "reduce2_shape n axis sh = fst (fold (\<lambda>i (d, inc). if d ! i = -1 then (d, inc + 1) else (d[i - inc := sh ! i], inc)) [0..<n]
     (mark_axes axis (set_prefix n (\<lambda>i. 0) fresh_slots), 0))"

text \<open>
  \<open>_iarray_reduce2_udf\<close>. \<open>fresh\<close> is what the output buffer and the user data hold before a block is written. A chunk of the
  means that cannot be read ends the call, as a failed compression does.
\<close>

definition iarray_reduce2_udf ::
    "('d, 'k) blosc_api \<Rightarrow> (int \<Rightarrow> int \<Rightarrow> nat \<Rightarrow> reduce_cell) \<Rightarrow>
     (iarray_compression_codec \<Rightarrow> int) \<Rightarrow> blosc2_cparams \<Rightarrow> iarray_config \<Rightarrow>
     (caterva_params \<Rightarrow> caterva_storage \<Rightarrow> 'd caterva_array res) \<Rightarrow> 'd container \<Rightarrow> iarray_reduce_function \<Rightarrow> iarray_reduce_func \<Rightarrow>
     nat list \<Rightarrow> iarray_storage \<Rightarrow> iarray_data_type \<Rightarrow> 'd container option \<Rightarrow> fp \<Rightarrow> 'd container res" where
  "iarray_reduce2_udf api fresh zfp_code cparams_defaults cfg caterva_empty a ufunc func axis st res_dtype aux correction =
     (if ndim (dtshape a) < 1 then Inl IARRAY_ERR_INVALID_NDIM
      else let n = ndim (dtshape a);
               d = \<lparr> dtype = res_dtype, dtype_size = 0, ndim = n - length axis, shape = reduce2_shape n axis (shape (dtshape a)) \<rparr>
      in res_bind (iarray_empty caterva_empty d st) (\<lambda>c.
         let cat = catarr c;
             shape_of_chunks = grid (ndim (dtshape c)) (c_extshape cat) (c_chunkshape cat);
             cparams = iarray_create_blosc_cparams zfp_code cparams_defaults cfg (c_itemsize cat) (blocknitems cat * c_itemsize cat)
         in res_bind (compress_chunks api cparams
             (\<lambda>c chunk_index nchunk nblock.
               let cat = catarr c;
                   elem_index = set_prefix (ndim (dtshape c)) (\<lambda>i. chunk_index ! i * c_chunkshape cat ! i) (replicate IARRAY_DIMENSION_MAX 0);
                   chunk_shape = set_prefix (ndim (dtshape c)) (\<lambda>i.
                       if elem_index ! i + c_chunkshape cat ! i \<le> c_shape cat ! i then c_chunkshape cat ! i
                       else c_shape cat ! i - elem_index ! i) (replicate IARRAY_DIMENSION_MAX 0);
                   aux_chunk = (if needs_mean func then
                       case aux of None \<Rightarrow> None | Some x \<Rightarrow> get_lazychunk api (c_data (catarr x)) nchunk else None);
                   rp = \<lparr> os_ufunc = ufunc, os_func = func, os_input = a, os_result = c, os_axis = axis, os_correction = correction,
                     os_out_chunkshape = chunk_shape, os_nchunk = nchunk, os_aux_chunk = aux_chunk, os_aux = aux \<rparr>
               in if needs_mean func \<and> aux_chunk = None then Inl IARRAY_ERR_BLOSC_FAILED
                  else reduce_general_prefilter api rp (map (fresh nchunk nblock) [0..<nat (blocknitems cat)]) nblock)
             (\<lambda>chunk_index nchunk. iarray_index_unidim_to_multidim_shape (ndim (dtshape c)) shape_of_chunks (nchunk + 1) chunk_index)
             (cdiv (extnitems cat) (chunknitems cat)) (c, replicate IARRAY_DIMENSION_MAX 0)) (\<lambda>(c, chunk_index). Inr c)))"

lemma mark_axes_nth: "length (mark_axes axis sh) = length sh"
  "i < length sh \<Longrightarrow> mark_axes axis sh ! i = (if i \<in> set axis then -1 else sh ! i)"
proof -
  show "length (mark_axes axis sh) = length sh" unfolding mark_axes_def by (rule fold_length_inv) simp
  have "i < length sh \<Longrightarrow> fold (\<lambda>k sh. sh[k := -1]) axis sh ! i = (if i \<in> set axis then -1 else sh ! i)" for sh :: "int list"
  proof (induction axis arbitrary: sh)
    case (Cons k axis)
    then show ?case by (cases "k = i") simp_all
  qed simp
  then show "i < length sh \<Longrightarrow> mark_axes axis sh ! i = (if i \<in> set axis then -1 else sh ! i)" by (simp add: mark_axes_def)
qed

text \<open>Entries that move up past the marked ones.\<close>

lemma move_up:
  assumes "m \<le> length xs" "\<And>i. i < m \<Longrightarrow> xs ! i = -1 \<longleftrightarrow> red ! i"
  shows "\<exists>ys. fold (\<lambda>i (d, inc). if d ! i = -1 then (d, inc + 1) else (d[i - inc := sh ! i], inc)) [0..<m] (xs, 0) =
      (ys, m - length (kept red m)) \<and> length ys = length xs \<and> take (length (kept red m)) ys = map ((!) sh) (kept red m) \<and>
      (\<forall>i. m \<le> i \<longrightarrow> i < length xs \<longrightarrow> ys ! i = xs ! i)"
  using assms
proof (induction m)
  case 0
  then show ?case by (simp add: kept_def)
next
  case (Suc m)
  let ?l = "length (kept red m)"
  have l: "?l \<le> m" by (rule kept_length)
  obtain ys where ys: "fold (\<lambda>i (d, inc). if d ! i = -1 then (d, inc + 1) else (d[i - inc := sh ! i], inc)) [0..<m] (xs, 0) =
      (ys, m - ?l)" "length ys = length xs" "take ?l ys = map ((!) sh) (kept red m)"
      "\<And>i. m \<le> i \<Longrightarrow> i < length xs \<Longrightarrow> ys ! i = xs ! i"
    using Suc by auto
  have m: "ys ! m = -1 \<longleftrightarrow> red ! m" using ys(4) [of m] Suc.prems by simp
  show ?case
  proof (cases "red ! m")
    case True
    then show ?thesis using ys m l by (simp add: kept_Suc Suc_diff_le)
  next
    case False
    have "take (Suc ?l) (ys[?l := sh ! m]) = take ?l ys @ [sh ! m]"
      using l ys(2) Suc.prems by (simp add: take_Suc_conv_app_nth)
    then show ?thesis using False ys m l by (simp add: kept_Suc)
  qed
qed

lemma reduce2_shape:
  assumes "n \<le> 8" "n \<le> length sh"
  shows "length (reduce2_shape n axis sh) = 8"
    "take (length (kept (axis_flags axis) n)) (reduce2_shape n axis sh) = keep_dims (axis_flags axis) n (take n sh)"
proof -
  let ?xs = "mark_axes axis (set_prefix n (\<lambda>i. 0) fresh_slots)"
  have "?xs ! i = -1 \<longleftrightarrow> axis_flags axis ! i" if "i < n" for i
    using that assms by (simp add: mark_axes_nth set_prefix_nth axis_flags_nth fresh_slots_def IARRAY_DIMENSION_MAX_def)
  then obtain ys where "reduce2_shape n axis sh = ys" "length ys = length ?xs"
      "take (length (kept (axis_flags axis) n)) ys = map ((!) sh) (kept (axis_flags axis) n)"
    using move_up [of n ?xs "axis_flags axis" sh] assms
    by (auto simp: reduce2_shape_def mark_axes_nth fresh_slots_def IARRAY_DIMENSION_MAX_def)
  moreover have "keep_dims (axis_flags axis) n (take n sh) = map ((!) sh) (kept (axis_flags axis) n)"
    unfolding keep_dims_def using kept_bound [of _ "axis_flags axis" n] assms(2)
    by (intro map_cong refl) (auto simp: kept_def)
  ultimately show "length (reduce2_shape n axis sh) = 8"
    "take (length (kept (axis_flags axis) n)) (reduce2_shape n axis sh) = keep_dims (axis_flags axis) n (take n sh)"
    by (simp_all add: mark_axes_nth fresh_slots_def IARRAY_DIMENSION_MAX_def)
qed

lemma length_kept:
  assumes "distinct axis" "set axis \<subseteq> {..<n}" "n \<le> 8"
  shows "length (kept (axis_flags axis) n) = n - length axis"
proof -
  have "set (kept (axis_flags axis) n) = {..<n} - set axis" using assms(3) by (auto simp: kept_def axis_flags_nth)
  moreover have "distinct (kept (axis_flags axis) n)" by (simp add: kept_def)
  ultimately have "length (kept (axis_flags axis) n) = card ({..<n} - set axis)" using distinct_card by fastforce
  then show ?thesis using assms(1,2) by (simp add: card_Diff_subset distinct_card)
qed

text \<open>The request: the storage has the chunks and blocks of the input without the reduced dimensions.\<close>

definition oneshot_request :: "'d container \<Rightarrow> nat list \<Rightarrow> iarray_storage \<Rightarrow> bool" where
  "oneshot_request a axis st \<longleftrightarrow> (let n = ndim (dtshape a); m = n - length axis; red = axis_flags axis in
     plain_container a \<and> 0 < n \<and> distinct axis \<and> set axis \<subseteq> {..<n} \<and>
     m \<le> length (chunkshape st) \<and> m \<le> length (blockshape st) \<and>
     take m (chunkshape st) = keep_dims red n (cs_of a) \<and> take m (blockshape st) = keep_dims red n (bs_of a))"

lemma oneshot_result:
  assumes "oneshot_request a axis st" "caterva_create_spec caterva_empty" "out \<noteq> IARRAY_DATA_TYPE_MAX"
  obtains c where "iarray_empty caterva_empty \<lparr> dtype = out, dtype_size = 0, ndim = ndim (dtshape a) - length axis,
      shape = reduce2_shape (ndim (dtshape a)) axis (shape (dtshape a)) \<rparr> st = Inr c"
    "plain_container c" "storage c = st" "dtype (dtshape c) = out" "container_viewed c = None"
    "ndim (dtshape c) = length (kept (axis_flags axis) (ndim (dtshape a)))"
    "ns_of c = keep_dims (axis_flags axis) (ndim (dtshape a)) (ns_of a)"
    "cs_of c = keep_dims (axis_flags axis) (ndim (dtshape a)) (cs_of a)"
    "bs_of c = keep_dims (axis_flags axis) (ndim (dtshape a)) (bs_of a)"
proof -
  let ?n = "ndim (dtshape a)" let ?red = "axis_flags axis" let ?m = "?n - length axis"
  have a: "plain_container a" "distinct axis" "set axis \<subseteq> {..<?n}" using assms(1) by (simp_all add: oneshot_request_def Let_def)
  note l = plain_slots [OF a(1)]
  have m: "length (kept ?red ?n) = ?m" using length_kept [OF a(2,3) l(2)] .
  note sh = reduce2_shape [OF l(2,7), of axis, unfolded m]
  let ?d = "\<lparr> dtype = out, dtype_size = 0, ndim = ?m, shape = reduce2_shape ?n axis (shape (dtshape a)) \<rparr>"
  have req: "good_request ?d st"
    using assms(1,3) sh nested_keep_dims [OF plain_nested [OF a(1)], of ?n ?red] l
    by (simp add: good_request_def oneshot_request_def Let_def)
  obtain c where c: "construct_with caterva_empty ?d st = Inr c" "plain_container c" "storage c = st"
    "dtshape c = ?d\<lparr>dtype_size := itemsize_of (dtype ?d)\<rparr>" "container_viewed c = None"
    using construct_plain [OF assms(2) req] by blast
  have st: "take ?m (chunkshape st) = keep_dims ?red ?n (cs_of a)" "take ?m (blockshape st) = keep_dims ?red ?n (bs_of a)"
    using assms(1) by (simp_all add: oneshot_request_def Let_def)
  have "ns_of c = keep_dims ?red ?n (ns_of a)" using c(4) sh(2) [unfolded l(9)] by (simp add: ns_of_def [of c])
  moreover have "cs_of c = keep_dims ?red ?n (cs_of a)" "bs_of c = keep_dims ?red ?n (bs_of a)"
    using c(3,4) st by (simp_all add: cs_of_def [of c] bs_of_def [of c])
  ultimately show thesis using c m by (intro that [of c]) (simp_all add: iarray_empty_def)
qed

text \<open>The reduction does not depend on what a cell held before.\<close>

definition oneshot_fresh :: "iarray_reduce_function \<Rightarrow> bool" where
  "oneshot_fresh f \<longleftrightarrow> (\<forall>u m xs c c'. xs \<noteq> [] \<longrightarrow> oneshot_value f u m xs c = oneshot_value f u m xs c')"

text \<open>The array of means has the shape of the result \<open>c\<close> and stores \<open>M\<close>.\<close>

definition mean_source :: "('d, 'k) blosc_api \<Rightarrow> iarray_reduce_func \<Rightarrow> 'd container option \<Rightarrow> 'd container \<Rightarrow> (int list \<Rightarrow> ina_val) \<Rightarrow> bool" where
  "mean_source api func aux c M \<longleftrightarrow> (if needs_mean func
     then \<exists>x. aux = Some x \<and> plain_container x \<and> ns_of x = ns_of c \<and> cs_of x = cs_of c \<and> bs_of x = bs_of c \<and> stores api x M
     else M = (\<lambda>_. VInt 0))"

text \<open>The array of the reductions of all fibres.\<close>

definition oneshot_reduced ::
    "iarray_reduce_function \<Rightarrow> user_data_os \<Rightarrow> bool list \<Rightarrow> int list \<Rightarrow> int list \<Rightarrow> int list \<Rightarrow> (int list \<Rightarrow> ina_val) \<Rightarrow> (int list \<Rightarrow> ina_val) \<Rightarrow>
     int list \<Rightarrow> ina_val" where
  "oneshot_reduced f u red ns cs bs M A ix = oneshot_value f u (M ix) (map A (fibre_order red ns cs bs ix)) empty_cell"

lemma reduce2_block:
  assumes "oneshot_request a axis st" "stores api a A" "ends f" "oneshot_fresh f"
    and "ends_empty f \<or> unpadded (ns_of c) (cs_of c) (bs_of c)"
    and c: "plain_container c" "ndim (dtshape c) = length (kept (axis_flags axis) (ndim (dtshape a)))"
      "ns_of c = keep_dims (axis_flags axis) (ndim (dtshape a)) (ns_of a)"
      "cs_of c = keep_dims (axis_flags axis) (ndim (dtshape a)) (cs_of a)"
      "bs_of c = keep_dims (axis_flags axis) (ndim (dtshape a)) (bs_of a)"
    and "mean_source api func aux c M"
    and q: "0 \<le> q" "q < block_count (ns_of c) (cs_of c)" and w: "0 \<le> w" "w < block_count (cs_of c) (bs_of c)"
    and oc: "\<forall>i < ndim (dtshape c). oc ! i = block_extent (ns_of c) (cs_of c) q ! i"
    and ac: "ac = (if needs_mean func then case aux of None \<Rightarrow> None | Some x \<Rightarrow> get_lazychunk api (c_data (catarr x)) q else None)"
  shows "\<not> (needs_mean func \<and> ac = None)"
    "\<exists>block. reduce_general_prefilter api
       \<lparr> os_ufunc = f, os_func = func, os_input = a, os_result = c, os_axis = axis, os_correction = correction,
         os_out_chunkshape = oc, os_nchunk = q, os_aux_chunk = ac, os_aux = aux \<rparr>
       (map fresh [0..<nat (blocknitems (catarr c))]) w = Inr block \<and>
     right_block c (oneshot_reduced f (oneshot_user_data (shape (dtshape a)) axis correction) (axis_flags axis)
       (ns_of a) (cs_of a) (bs_of a) M A) q w block"
proof -
  let ?rp = "\<lparr> os_ufunc = f, os_func = func, os_input = a, os_result = c, os_axis = axis, os_correction = correction,
         os_out_chunkshape = oc, os_nchunk = q, os_aux_chunk = ac, os_aux = aux \<rparr>"
  let ?P = "nat (prod_list (bs_of c))" and ?ix = "item_at (ns_of c) (cs_of c) (bs_of c) q w"
  note pc = plain_counts [OF c(1)]
  have a: "plain_container a" using assms(1) by (simp add: oneshot_request_def Let_def)
  have ready: "oneshot_ready ?rp" using a c q oc by (simp add: oneshot_ready_def Let_def)
  have aux: "\<not> (needs_mean func \<and> ac = None) \<and> (\<exists>m. read_aux_block api ?rp w = Inr m \<and>
      (\<forall>i < ?P. live (ns_of c) (cs_of c) (bs_of c) q w (int i) \<longrightarrow> mean_at m (int i) = M (?ix (int i))))"
  proof (cases "needs_mean func")
    case False
    then show ?thesis using assms(11) by (simp add: mean_source_def read_aux_block_def mean_at_def)
  next
    case True
    then obtain x where x: "aux = Some x" "plain_container x" "ns_of x = ns_of c" "cs_of x = cs_of c" "bs_of x = bs_of c" "stores api x M"
      using assms(11) by (auto simp: mean_source_def)
    obtain k where k: "get_lazychunk api (c_data (catarr x)) q = Some k"
      "\<And>w. 0 \<le> w \<Longrightarrow> w < block_count (cs_of x) (bs_of x) \<Longrightarrow> \<exists>block.
        getitem_ctx api k (w * prod_list (bs_of x)) (prod_list (bs_of x)) = Some block \<and>
        (\<forall>e. 0 \<le> e \<longrightarrow> e < prod_list (bs_of x) \<longrightarrow> live (ns_of x) (cs_of x) (bs_of x) q w e \<longrightarrow>
           block ! nat e = M (item_at (ns_of x) (cs_of x) (bs_of x) q w e))"
      using x(6) q x(3,4) unfolding stores_def stores_chunk_def by auto
    obtain block where "getitem_ctx api k (w * prod_list (bs_of c)) (prod_list (bs_of c)) = Some block"
        and block: "\<And>e. 0 \<le> e \<Longrightarrow> e < prod_list (bs_of c) \<Longrightarrow> live (ns_of c) (cs_of c) (bs_of c) q w e \<Longrightarrow> block ! nat e = M (?ix e)"
      using k(2) [of w] w x(3-5) by auto
    then have "read_aux_block api ?rp w = Inr (Some block)" "\<not> (needs_mean func \<and> ac = None)"
      using True k(1) x ac plain_counts(1) [OF x(2)] by (simp_all add: read_aux_block_def)
    moreover have "mean_at (Some block) (int i) = M (?ix (int i))" if "i < ?P" "live (ns_of c) (cs_of c) (bs_of c) q w (int i)" for i
      using block [of "int i"] that by (simp add: mean_at_def zless_nat_eq_int_zless)
    ultimately show ?thesis by blast
  qed
  then show "\<not> (needs_mean func \<and> ac = None)" by blast
  obtain m where m: "read_aux_block api ?rp w = Inr m"
      "\<And>i. i < ?P \<Longrightarrow> live (ns_of c) (cs_of c) (bs_of c) q w (int i) \<Longrightarrow> mean_at m (int i) = M (?ix (int i))"
    using aux by blast
  have len: "length (map fresh [0..<nat (blocknitems (catarr c))]) = ?P" using pc(1) by simp
  obtain block where block: "reduce_general_prefilter api ?rp (map fresh [0..<nat (blocknitems (catarr c))]) w = Inr block"
    "length block = ?P"
    "\<And>i. i < ?P \<Longrightarrow> live (ns_of c) (cs_of c) (bs_of c) q w (int i) \<Longrightarrow> block ! i =
       oneshot_value f (oneshot_user_data (shape (dtshape a)) axis correction) (mean_at m (int i))
         (map A (fibre_order (axis_flags axis) (ns_of a) (cs_of a) (bs_of a) (?ix (int i)))) (fresh i)"
    using general_prefilter [OF ready, of api A w "map fresh [0..<nat (blocknitems (catarr c))]" m] assms(2,3,5) w m(1) len
    by auto
  have "block ! nat e = oneshot_reduced f (oneshot_user_data (shape (dtshape a)) axis correction) (axis_flags axis)
       (ns_of a) (cs_of a) (bs_of a) M A (?ix e)" if e: "0 \<le> e" "e < prod_list (bs_of c)" "live (ns_of c) (cs_of c) (bs_of c) q w e" for e
  proof -
    have "in_box (keep_dims (axis_flags axis) (length (bs_of a)) (ns_of a)) (?ix e)"
      using live_in_box [OF plain_nested [OF c(1)] q e(3)] c(3) plain_slots(5) [OF a] by simp
    then have "map A (fibre_order (axis_flags axis) (ns_of a) (cs_of a) (bs_of a) (?ix e)) \<noteq> []"
      using fibre_nonempty [OF plain_nested [OF a]] by simp
    then have "oneshot_value f u (M (?ix e)) (map A (fibre_order (axis_flags axis) (ns_of a) (cs_of a) (bs_of a) (?ix e))) (fresh (nat e)) =
        oneshot_value f u (M (?ix e)) (map A (fibre_order (axis_flags axis) (ns_of a) (cs_of a) (bs_of a) (?ix e))) empty_cell" for u
      using assms(4) unfolding oneshot_fresh_def by blast
    then show ?thesis using block(3) [of "nat e"] m(2) [of "nat e"] e by (simp add: oneshot_reduced_def nat_less_iff)
  qed
  then have "right_block c (oneshot_reduced f (oneshot_user_data (shape (dtshape a)) axis correction) (axis_flags axis)
       (ns_of a) (cs_of a) (bs_of a) M A) q w block"
    using block(2) pc(2) by (simp add: right_block_def)
  then show "\<exists>block. reduce_general_prefilter api ?rp (map fresh [0..<nat (blocknitems (catarr c))]) w = Inr block \<and>
     right_block c (oneshot_reduced f (oneshot_user_data (shape (dtshape a)) axis correction) (axis_flags axis)
       (ns_of a) (cs_of a) (bs_of a) M A) q w block"
    using block(1) by blast
qed

lemma reduce2_udf_correct:
  assumes "oneshot_request a axis st" "stores api a A" "ends f" "oneshot_fresh f"
    and "ends_empty f \<or> unpadded (keep_dims (axis_flags axis) (ndim (dtshape a)) (ns_of a))
        (keep_dims (axis_flags axis) (ndim (dtshape a)) (cs_of a)) (keep_dims (axis_flags axis) (ndim (dtshape a)) (bs_of a))"
    and "out \<noteq> IARRAY_DATA_TYPE_MAX" "caterva_create_spec caterva_empty"
    and "schunk_spec (get_lazychunk api) (update_chunk api) caterva_empty"
    and "\<And>ts bs. blosc_exact api (iarray_create_blosc_cparams zfp_code cparams_defaults cfg ts bs)"
    and aux: "\<And>c :: 'd container. ns_of c = keep_dims (axis_flags axis) (ndim (dtshape a)) (ns_of a) \<Longrightarrow>
        cs_of c = keep_dims (axis_flags axis) (ndim (dtshape a)) (cs_of a) \<Longrightarrow>
        bs_of c = keep_dims (axis_flags axis) (ndim (dtshape a)) (bs_of a) \<Longrightarrow> mean_source api func aux c M"
  shows "\<exists>b. iarray_reduce2_udf api fresh zfp_code cparams_defaults cfg caterva_empty (a :: 'd container) f func axis st out aux correction = Inr b \<and>
    plain_container b \<and> container_viewed b = None \<and> storage b = st \<and> dtype (dtshape b) = out \<and>
    ndim (dtshape b) = length (kept (axis_flags axis) (ndim (dtshape a))) \<and>
    ns_of b = keep_dims (axis_flags axis) (ndim (dtshape a)) (ns_of a) \<and>
    cs_of b = keep_dims (axis_flags axis) (ndim (dtshape a)) (cs_of a) \<and> bs_of b = keep_dims (axis_flags axis) (ndim (dtshape a)) (bs_of a) \<and>
    stores api b (oneshot_reduced f (oneshot_user_data (shape (dtshape a)) axis correction) (axis_flags axis) (ns_of a) (cs_of a) (bs_of a) M A)"
proof -
  obtain c where c0: "iarray_empty caterva_empty \<lparr> dtype = out, dtype_size = 0, ndim = ndim (dtshape a) - length axis,
      shape = reduce2_shape (ndim (dtshape a)) axis (shape (dtshape a)) \<rparr> st = Inr c"
    and c: "plain_container c" "ndim (dtshape c) = length (kept (axis_flags axis) (ndim (dtshape a)))"
    "ns_of c = keep_dims (axis_flags axis) (ndim (dtshape a)) (ns_of a)"
    "cs_of c = keep_dims (axis_flags axis) (ndim (dtshape a)) (cs_of a)"
    "bs_of c = keep_dims (axis_flags axis) (ndim (dtshape a)) (bs_of a)"
    and c1: "storage c = st" "dtype (dtshape c) = out" "container_viewed c = None"
    using oneshot_result [OF assms(1,7,6)] by metis
  have a: "0 < ndim (dtshape a)" using assms(1) by (simp add: oneshot_request_def Let_def)
  let ?n = "ndim (dtshape c)" and ?B = "blocks_of (ns_of c) (cs_of c)"
  let ?R = "oneshot_reduced f (oneshot_user_data (shape (dtshape a)) axis correction) (axis_flags axis) (ns_of a) (cs_of a) (bs_of a) M A"
  note l = plain_slots [OF c(1)] and pc = plain_counts [OF c(1)] and gd = nested_good [OF plain_nested [OF c(1)]]
  have pos: "all_pos ?B" using gd good_blocks_of by (auto simp: good_shape_def)
  define I where "I = (\<lambda>q idx. idx = unflat ?B q @ replicate (8 - ?n) 0)"
  define oc where "oc idx c = (let cat = catarr c; elem_index = set_prefix (ndim (dtshape c)) (\<lambda>i. idx ! i * c_chunkshape cat ! i) (replicate IARRAY_DIMENSION_MAX 0)
      in set_prefix (ndim (dtshape c)) (\<lambda>i. if elem_index ! i + c_chunkshape cat ! i \<le> c_shape cat ! i then c_chunkshape cat ! i
        else c_shape cat ! i - elem_index ! i) (replicate IARRAY_DIMENSION_MAX 0))" for idx and c :: "'d container"
  define ac where "ac q = (if needs_mean func then
      case aux of None \<Rightarrow> None | Some x \<Rightarrow> get_lazychunk api (c_data (catarr x)) q else None)" for q
  define PF where "PF = (\<lambda>(c :: 'd container) chunk_index nchunk nblock.
      if needs_mean func \<and> ac nchunk = None then Inl IARRAY_ERR_BLOSC_FAILED
      else reduce_general_prefilter api \<lparr> os_ufunc = f, os_func = func, os_input = a, os_result = c, os_axis = axis,
         os_correction = correction, os_out_chunkshape = oc chunk_index c, os_nchunk = nchunk, os_aux_chunk = ac nchunk, os_aux = aux \<rparr>
         (map (fresh nchunk nblock) [0..<nat (blocknitems (catarr c))]) nblock)"
  define AI where "AI = (\<lambda>chunk_index nchunk. iarray_index_unidim_to_multidim_shape ?n (grid ?n (c_extshape (catarr c)) (c_chunkshape (catarr c))) (nchunk + 1) chunk_index)"
  have "\<exists>x s'. compress_chunks api
      (iarray_create_blosc_cparams zfp_code cparams_defaults cfg (c_itemsize (catarr c)) (blocknitems (catarr c) * c_itemsize (catarr c)))
      PF AI (block_count (ns_of c) (cs_of c)) (c, replicate IARRAY_DIMENSION_MAX 0) = Inr (map_data (\<lambda>_. x) c, s') \<and>
      stores api (map_data (\<lambda>_. x) c) ?R"
  proof (rule compress_chunks_stores [where I = I, OF c0 [unfolded iarray_empty_def] c(1) assms(8,9) _ _ refl])
    show "I 0 (replicate IARRAY_DIMENSION_MAX 0)"
      using l(2-4) by (simp add: I_def unflat_zero replicate_add [symmetric] IARRAY_DIMENSION_MAX_def)
    fix x idx q w assume q: "0 \<le> q" "q < block_count (ns_of c) (cs_of c)" "I q idx" "0 \<le> w" "w < block_count (cs_of c) (bs_of c)"
    let ?c = "map_data (\<lambda>_. x) c"
    have "\<forall>i < ?n. oc idx c ! i = block_extent (ns_of c) (cs_of c) q ! i"
      using l(2-4) plain_fields(1,2) [OF c(1)] q(3)
      by (auto simp: oc_def Let_def I_def set_prefix_nth IARRAY_DIMENSION_MAX_def block_extent_nth block_start_nth nth_append)
    then have o: "\<forall>i < ndim (dtshape ?c). oc idx ?c ! i = block_extent (ns_of ?c) (cs_of ?c) q ! i"
      by (simp add: plain_map_data oc_def Let_def cong: if_cong)
    have same: "plain_container ?c" "ndim (dtshape ?c) = length (kept (axis_flags axis) (ndim (dtshape a)))"
      "ns_of ?c = keep_dims (axis_flags axis) (ndim (dtshape a)) (ns_of a)" "cs_of ?c = keep_dims (axis_flags axis) (ndim (dtshape a)) (cs_of a)"
      "bs_of ?c = keep_dims (axis_flags axis) (ndim (dtshape a)) (bs_of a)"
      using c by (simp_all add: plain_map_data)
    have un: "ends_empty f \<or> unpadded (ns_of ?c) (cs_of ?c) (bs_of ?c)" using assms(5) same by simp
    have qc: "q < block_count (ns_of ?c) (cs_of ?c)" "w < block_count (cs_of ?c) (bs_of ?c)" using q by (simp_all add: plain_map_data)
    note blk = reduce2_block(1) [OF assms(1-4) un same aux [OF same(3-5)] q(1) qc(1) q(4) qc(2) o ac_def [of q]]
      reduce2_block(2) [where correction = correction and fresh = "fresh q w",
        OF assms(1-4) un same aux [OF same(3-5)] q(1) qc(1) q(4) qc(2) o ac_def [of q]]
    show "\<exists>block. PF ?c idx q w = Inr block \<and> right_block c ?R q w block"
      using blk by (simp add: PF_def right_block_def plain_map_data)
  next
    fix idx q assume q: "0 \<le> q" "q < block_count (ns_of c) (cs_of c)" "I q idx"
    then show "I (q + 1) (AI idx q)"
      using unidim_to_multidim_shape_unflat [of ?n "grid ?n (c_extshape (catarr c)) (c_chunkshape (catarr c))" idx "q + 1"]
        grid_plain(1) [OF c(1) refl] pos l(2-4) by (simp add: I_def AI_def CATERVA_MAX_DIM_def)
  qed (simp_all add: cparams_sizes)
  then obtain x s' where r: "compress_chunks api
      (iarray_create_blosc_cparams zfp_code cparams_defaults cfg (c_itemsize (catarr c)) (blocknitems (catarr c) * c_itemsize (catarr c)))
      PF AI (block_count (ns_of c) (cs_of c)) (c, replicate IARRAY_DIMENSION_MAX 0) = Inr (map_data (\<lambda>_. x) c, s')"
    "stores api (map_data (\<lambda>_. x) c) ?R" by blast
  have "iarray_reduce2_udf api fresh zfp_code cparams_defaults cfg caterva_empty a f func axis st out aux correction = Inr (map_data (\<lambda>_. x) c)"
    using a c0 r(1) unfolding iarray_reduce2_udf_def PF_def AI_def oc_def ac_def Let_def by (simp add: pc(4))
  then show ?thesis
    using r(2) c c1 by (intro exI [of _ "map_data (\<lambda>_. x) c"]) (simp add: plain_map_data, simp add: map_data_def)
qed

end
