(* ===== verification/Copying.thy ===== *)
theory Copying
  imports Fibres Iterators
begin

text \<open>
  \<open>iarray_copy\<close> (\<^verbatim>\<open>src/iarray_constructor.c\<close>). An array is copied by caterva; a view is read with a block iterator and
  written with another one, block by block in the chunk shape of the copy. Shown is that the copy has every item of the
  view at its index.
\<close>

text \<open>
  The functions of caterva that \<open>iarray_copy\<close> calls, and the transposition of a buffer by \<open>mkl_?omatcopy\<close>; the last one is
  \<open>BLOSC2_MAX_OVERHEAD\<close>.
\<close>

record 'd copy_api =
  ca_empty :: "caterva_params \<Rightarrow> caterva_storage \<Rightarrow> 'd caterva_array res"
  ca_copy :: "'d caterva_array \<Rightarrow> caterva_storage \<Rightarrow> 'd caterva_array res"
  ca_get_slice_buffer :: "'d caterva_array \<Rightarrow> int list \<Rightarrow> int list \<Rightarrow> int list \<Rightarrow> ina_val list res"
  ca_set_slice_buffer :: "'d caterva_array \<Rightarrow> int list \<Rightarrow> int list \<Rightarrow> int list \<Rightarrow> ina_val list \<Rightarrow> 'd caterva_array res"
  ca_omatcopy :: "int \<Rightarrow> int \<Rightarrow> ina_val list \<Rightarrow> ina_val list"
  ca_overhead :: int

text \<open>
  What the two iterators call: the reader gives the items of a slice of the source (for an empty array it leaves the
  buffer as it is), the writer stores its buffer in the array. The state of the writer is its buffer and the array.
\<close>

definition copy_reader :: "'d copy_api \<Rightarrow> 'd container \<Rightarrow> int list \<Rightarrow> int list \<Rightarrow> int list \<Rightarrow> int \<Rightarrow> ina_val list res" where
  "copy_reader api src start stop bshape buflen =
     res_bind (iarray_get_slice_buffer (ca_get_slice_buffer api) (ca_omatcopy api) src start stop buflen)
       (\<lambda>r. Inr (case r of None \<Rightarrow> [] | Some buf \<Rightarrow> buf))"

definition copy_writer :: "'d copy_api \<Rightarrow> int list \<Rightarrow> int list \<Rightarrow> int list \<Rightarrow> ina_val list \<times> 'd caterva_array \<Rightarrow>
    (ina_val list \<times> 'd caterva_array) res" where
  "copy_writer api start stop shp = (\<lambda>(buf, arr).
     case ca_set_slice_buffer api arr shp start stop buf of Inl _ \<Rightarrow> Inl IARRAY_ERR_BLOSC_FAILED | Inr arr \<Rightarrow> Inr (buf, arr))"

text \<open>The iterator never holds a compressed chunk here.\<close>

definition no_chunk :: "int \<Rightarrow> 's \<Rightarrow> 's res" where
  "no_chunk q s = Inl IARRAY_ERR_BLOSC_FAILED"

text \<open>
  The loop: an error of \<open>has_next\<close> ends it like the end of the array, an error of \<open>next\<close> is returned. The last step is the
  \<^verbatim>\<open>memcpy\<close> of a block.
\<close>

fun copy_blocks :: "'d copy_api \<Rightarrow> 'd container \<Rightarrow> 'd container \<Rightarrow> nat \<Rightarrow> read_block_iter \<Rightarrow>
    write_block_iter \<times> ina_val list \<times> 'd caterva_array \<Rightarrow> 'd caterva_array res option" where
  "copy_blocks api src dest 0 rit st = None"
| "copy_blocks api src dest (Suc fuel) rit st =
     (case iarray_iter_write_block_has_next no_chunk (copy_writer api) dest st of
        Inl e \<Rightarrow> Some (Inr (snd (snd st)))
      | Inr (s, Inl e) \<Rightarrow> Some (Inr (snd s))
      | Inr (s, Inr _) \<Rightarrow>
        if \<not> succeeds (iarray_iter_read_block_has_next rit) then Some (Inr (snd s))
        else case iarray_iter_read_block_next (copy_reader api src) (ca_overhead api) src 0 rit of
               Inl e \<Rightarrow> Some (Inl e)
             | Inr (rit, block) \<Rightarrow>
               (case iarray_iter_write_block_next no_chunk (copy_writer api) (ca_overhead api) dest 0 (fst st, s) of
                  Inl e \<Rightarrow> Some (Inl e)
                | Inr (wit, buf, arr) \<Rightarrow>
                  let n = nat (wb_cur_block_size wit)
                  in copy_blocks api src dest fuel rit (wit, take n block @ drop n buf, arr)))"

text \<open>
  The results of the functions that make the iterators are not looked at; where one fails the code goes on with an
  uninitialised pointer, for which the model returns the error. \<open>buf\<close> is what the buffer of the writer holds at first.
\<close>

definition iarray_copy :: "'d copy_api \<Rightarrow> ina_val list \<Rightarrow> 'd container \<Rightarrow> bool \<Rightarrow> iarray_storage \<Rightarrow> 'd container res" where
  "iarray_copy api buf src view st =
     (if container_viewed src \<noteq> None \<and> view then Inl IARRAY_ERR_INVALID_STORAGE
      else if container_viewed src \<noteq> None then
        res_bind (iarray_empty (ca_empty api) (dtshape src) st) (\<lambda>dest.
          let n = ndim (dtshape src);
              nelem = fold (\<lambda>i m. m * shape (dtshape src) ! i) [0..<n] 1
          in if nelem = 0 then Inr dest
             else
               let iter_blockshape = set_prefix n (\<lambda>i. chunkshape st ! i) fresh_slots
               in res_bind (iarray_iter_read_block_new src (Some iter_blockshape) False) (\<lambda>rit.
                  res_bind (iarray_iter_write_block_new dest (Some iter_blockshape) False) (\<lambda>wit.
                  case copy_blocks api src dest (nat (wb_total_blocks wit) + 1) rit (wit, buf, catarr dest) of
                    None \<Rightarrow> Inl INA_ERR_FAILED
                  | Some r \<Rightarrow> res_bind r (\<lambda>arr. Inr (dest\<lparr>catarr := arr\<rparr>)))))
      else
        res_bind (iarray_container_new (dtshape src) st (catarr src)) (\<lambda>dest.
        res_bind (iarray_create_caterva_storage (dtshape src) st) (\<lambda>cs.
        res_bind (ca_copy api (catarr src) cs) (\<lambda>arr. Inr (dest\<lparr>catarr := arr\<rparr>)))))"

section \<open>Copies of an array\<close>

text \<open>
  The documented behaviour of \<open>caterva_copy\<close>: the same items in the chunks and blocks of the storage. \<open>stores_cat\<close> says
  it of the array that the super-chunk stores.
\<close>

definition copy_spec :: "('d, 'k) blosc_api \<Rightarrow> ('d caterva_array \<Rightarrow> caterva_storage \<Rightarrow> 'd caterva_array res) \<Rightarrow> bool" where
  "copy_spec api copy \<longleftrightarrow> (\<forall>c st cs A. plain_container c \<longrightarrow> stores api c A \<longrightarrow>
     good_request (dtshape c) st \<longrightarrow> iarray_create_caterva_storage (dtshape c) st = Inr cs \<longrightarrow>
     (\<exists>arr. copy (catarr c) cs = Inr arr \<and> c_itemsize arr = c_itemsize (catarr c) \<and>
        caterva_holds arr (ndim (dtshape c)) (ns_of c) (take (ndim (dtshape c)) (chunkshape st)) (take (ndim (dtshape c)) (blockshape st)) \<and>
        stores api (c\<lparr>catarr := arr, storage := st\<rparr>) A))"

lemma stores_same:
  assumes "dtshape c = dtshape c'" "storage c = storage c'" "catarr c = catarr c'"
  shows "stores api c A \<longleftrightarrow> stores api c' A"
  using assms by (simp add: stores_def stores_chunk_def ns_of_def cs_of_def bs_of_def)

lemma iarray_copy_array:
  assumes "plain_container c" "container_viewed c = None" "stores bapi c A" "good_request (dtshape c) st" "copy_spec bapi (ca_copy api)"
  shows "\<exists>b. iarray_copy api buf c view st = Inr b \<and> plain_container b \<and> storage b = st \<and> dtshape b = dtshape c \<and>
    ns_of b = ns_of c \<and> container_viewed b = None \<and> stores bapi b A"
proof -
  let ?d = "dtshape c" let ?n = "ndim ?d"
  have d: "dtype ?d \<noteq> IARRAY_DATA_TYPE_MAX" "dtype_size ?d = itemsize_of (dtype ?d)" "?n \<le> 8"
    using assms(1) plain_slots(2) [OF assms(1)] by (simp_all add: plain_container_def good_request_def)
  have "iarray_set_dtype_size ?d = Inr ?d" using set_dtype_size_eq [OF d(1)] d(2) by simp
  then obtain b where b: "iarray_container_new ?d st (catarr c) = Inr b" "dtshape b = ?d" "storage b = st" "container_viewed b = None"
    using d(3) by (simp add: iarray_container_new_def CATERVA_MAX_DIM_def)
  obtain cs where cs: "iarray_create_caterva_storage ?d st = Inr cs"
    by (auto simp: iarray_create_caterva_storage_def iarray_serialize_meta_def not_less)
  obtain arr where arr: "ca_copy api (catarr c) cs = Inr arr" "c_itemsize arr = c_itemsize (catarr c)"
    "caterva_holds arr ?n (ns_of c) (take ?n (chunkshape st)) (take ?n (blockshape st))"
    "stores bapi (c\<lparr>catarr := arr, storage := st\<rparr>) A"
    using assms(5) [unfolded copy_spec_def, THEN spec, THEN spec, THEN spec, THEN spec, THEN mp, THEN mp, THEN mp, THEN mp, OF assms(1,3,4) cs]
    by blast
  have "stores bapi (b\<lparr>catarr := arr\<rparr>) A"
    using arr(4) by (subst stores_same [of _ "c\<lparr>catarr := arr, storage := st\<rparr>"]) (simp_all add: b)
  moreover have "plain_container (b\<lparr>catarr := arr\<rparr>)"
    using assms(1,4) b arr by (simp add: plain_container_def ns_of_def cs_of_def bs_of_def)
  moreover have "iarray_copy api buf c view st = Inr (b\<lparr>catarr := arr\<rparr>)"
    using assms(2) b(1) cs arr(1) by (simp add: iarray_copy_def)
  ultimately show ?thesis using b by (intro exI [of _ "b\<lparr>catarr := arr\<rparr>"]) (simp add: ns_of_def)
qed

section \<open>A copy for the examples\<close>

text \<open>The item of an index, and the super-chunk with every item at its place; the padding is filled with zeros.\<close>

definition plain_item :: "ina_val list list caterva_array \<Rightarrow> int list \<Rightarrow> ina_val" where
  "plain_item arr ix = (let n = c_ndim arr; ns = take n (c_shape arr); cs = take n (c_chunkshape arr); bs = take n (c_blockshape arr);
       chunk = c_data arr ! nat (flat (blocks_of ns cs) (chunk_digits cs ix))
     in take (nat (prod_list bs)) (drop (nat (flat (blocks_of cs bs) (block_digits cs bs ix) * prod_list bs)) chunk) !
          nat (flat bs (item_digits cs bs ix)))"

definition plain_chunks :: "int list \<Rightarrow> int list \<Rightarrow> int list \<Rightarrow> (int list \<Rightarrow> ina_val) \<Rightarrow> ina_val list list" where
  "plain_chunks ns cs bs A = map (\<lambda>q. concat (map (\<lambda>w. map (\<lambda>e. if live ns cs bs q w e then A (item_at ns cs bs q w e) else VInt 0)
     (below (prod_list bs))) (below (block_count cs bs)))) (below (block_count ns cs))"

definition plain_copy :: "ina_val list list caterva_array \<Rightarrow> caterva_storage \<Rightarrow> ina_val list list caterva_array res" where
  "plain_copy arr s = (let n = c_ndim arr in
     res_bind (plain_create \<lparr> cp_ndim = n, cp_itemsize = c_itemsize arr, cp_shape = c_shape arr \<rparr> s) (\<lambda>new.
       Inr (new\<lparr>c_data := plain_chunks (take n (c_shape arr)) (take n (cs_chunkshape s)) (take n (cs_blockshape s)) (plain_item arr)\<rparr>)))"

lemma plain_item_stored:
  assumes "plain_container c" "stores plain_api c A" "in_box (ns_of c) ix"
  shows "plain_item (catarr c) ix = A ix"
proof -
  let ?ns = "ns_of c" and ?cs = "cs_of c" and ?bs = "bs_of c"
  let ?ci = "chunk_digits ?cs ix" and ?bi = "block_digits ?cs ?bs ix" and ?t = "item_digits ?cs ?bs ix"
  note l = plain_slots [OF assms(1)] and nest = plain_nested [OF assms(1)] and pc = plain_counts [OF assms(1)]
  note d = digits_inside [OF nest assms(3)]
  have arr: "c_ndim (catarr c) = ndim (dtshape c)" "take (ndim (dtshape c)) (c_shape (catarr c)) = ?ns"
    "take (ndim (dtshape c)) (c_chunkshape (catarr c)) = ?cs" "take (ndim (dtshape c)) (c_blockshape (catarr c)) = ?bs"
    using assms(1) by (simp_all add: plain_container_def caterva_holds_def)
  obtain chunk block where chunk: "get_lazychunk plain_api (c_data (catarr c)) (flat (blocks_of ?ns ?cs) ?ci) = Some chunk"
    "getitem_ctx plain_api chunk (flat (blocks_of ?cs ?bs) ?bi * blocknitems (catarr c)) (blocknitems (catarr c)) = Some block"
    "block ! nat (flat ?bs ?t) = A (place ?cs ?bs ?ci ?bi ?t)"
    using stores_place [OF assms(1,2) d(2)] d by blast
  have "place ?cs ?bs ?ci ?bi ?t = ix"
    using place_of_digits [of ix ?bs ?cs] in_box_length [OF assms(3)] l by simp
  then show ?thesis
    using chunk pc(1) by (auto simp: plain_item_def plain_api_def arr Let_def split: if_splits)
qed

lemma plain_chunks_stored:
  assumes "plain_container c" "c_data (catarr c) = plain_chunks (ns_of c) (cs_of c) (bs_of c) A"
  shows "stores plain_api c A"
  unfolding stores_def stores_chunk_def
proof (intro allI impI)
  fix q :: int assume q: "0 \<le> q" "q < block_count (ns_of c) (cs_of c)"
  let ?P = "prod_list (bs_of c)" and ?N = "block_count (cs_of c) (bs_of c)"
  let ?f = "\<lambda>w e. if live (ns_of c) (cs_of c) (bs_of c) q w e then A (item_at (ns_of c) (cs_of c) (bs_of c) q w e) else VInt 0"
  let ?blocks = "map (\<lambda>w. map (?f w) (below ?P)) (below ?N)"
  have k: "get_lazychunk plain_api (c_data (catarr c)) q = Some (concat ?blocks)"
    using q assms(2) below_nth [of "nat q" "block_count (ns_of c) (cs_of c)"]
    by (simp add: plain_api_def plain_chunks_def nat_less_iff cong: if_cong)
  have "getitem_ctx plain_api (concat ?blocks) (w * ?P) ?P = Some (map (?f w) (below ?P))" if w: "0 \<le> w" "w < ?N" for w
  proof -
    have "take (nat ?P) (drop (nat w * nat ?P) (concat ?blocks)) = ?blocks ! nat w"
      using w by (intro concat_block) auto
    then show ?thesis using w by (simp add: plain_api_def nat_mult_distrib below_nth)
  qed
  then show "\<exists>k. get_lazychunk plain_api (c_data (catarr c)) q = Some k \<and>
      (\<forall>w. 0 \<le> w \<longrightarrow> w < ?N \<longrightarrow> (\<exists>block. getitem_ctx plain_api k (w * ?P) ?P = Some block \<and>
        (\<forall>e. 0 \<le> e \<longrightarrow> e < ?P \<longrightarrow> live (ns_of c) (cs_of c) (bs_of c) q w e \<longrightarrow>
           block ! nat e = A (item_at (ns_of c) (cs_of c) (bs_of c) q w e))))"
    using k by (intro exI [of _ "concat ?blocks"]) (simp add: below_nth nat_less_iff)
qed

lemma plain_copy_spec: "copy_spec plain_api plain_copy"
  unfolding copy_spec_def
proof (intro allI impI)
  fix c :: "ina_val list list container" and st cs A
  assume c: "plain_container c" "stores plain_api c A" and g: "good_request (dtshape c) st"
    and cs: "iarray_create_caterva_storage (dtshape c) st = Inr cs"
  let ?n = "ndim (dtshape c)" let ?cs = "take ?n (chunkshape st)" and ?bs = "take ?n (blockshape st)"
  let ?p = "\<lparr> cp_ndim = ?n, cp_itemsize = c_itemsize (catarr c), cp_shape = c_shape (catarr c) \<rparr>"
  have arr: "c_ndim (catarr c) = ?n" "take ?n (c_shape (catarr c)) = ns_of c"
    using c(1) by (simp_all add: plain_container_def caterva_holds_def)
  have nest: "nested (ns_of c) ?cs ?bs" using g by (simp add: good_request_def ns_of_def)
  note t = caterva_storage_shapes [OF g cs]
  obtain new where new: "plain_create ?p cs = Inr new" "c_itemsize new = c_itemsize (catarr c)" "caterva_holds new ?n (ns_of c) ?cs ?bs"
    using plain_create_specs(1) [unfolded caterva_create_spec_def Let_def, THEN spec [of _ ?p], THEN spec [of _ cs]]
      arr nest plain_slots(3) [OF c(1)] t by auto
  let ?new = "new\<lparr>c_data := plain_chunks (ns_of c) ?cs ?bs (plain_item (catarr c))\<rparr>"
  let ?c = "c\<lparr>catarr := ?new, storage := st\<rparr>"
  have parts: "ns_of ?c = ns_of c" "cs_of ?c = ?cs" "bs_of ?c = ?bs" by (simp_all add: ns_of_def cs_of_def bs_of_def)
  have holds: "caterva_holds ?new ?n (ns_of c) ?cs ?bs" using new(3) by (simp add: caterva_holds_def)
  have p: "plain_container ?c"
    unfolding plain_container_def parts using g c(1) holds new(2) by (simp add: plain_container_def)
  have "stores plain_api ?c (plain_item (catarr c))" using plain_chunks_stored [OF p, of "plain_item (catarr c)"] by (simp add: parts)
  then have "stores plain_api ?c A"
    by (rule stores_cong [OF p]) (use plain_item_stored [OF c] parts in simp)
  moreover have "plain_copy (catarr c) cs = Inr ?new" using new(1) arr t by (simp add: plain_copy_def Let_def)
  ultimately show "\<exists>arr. plain_copy (catarr c) cs = Inr arr \<and> c_itemsize arr = c_itemsize (catarr c) \<and>
        caterva_holds arr ?n (ns_of c) ?cs ?bs \<and> stores plain_api (c\<lparr>catarr := arr, storage := st\<rparr>) A"
    using holds new(2) by auto
qed

end
