(* ===== verification/ReduceMulti.thy ===== *)
theory ReduceMulti
  imports ReduceOneshot Copying
begin

text \<open>
  The entry points of the reductions: \<open>iarray_reduce_multi\<close> and \<open>iarray_reduce\<close> (\<^verbatim>\<open>src/reductions/iarray_reduce.c\<close>) and
  \<open>_iarray_reduce_oneshot\<close> with \<open>_iarray_reduce2\<close> (\<^verbatim>\<open>src/reductions/iarray_reduce_oneshot.c\<close>). The one algorithm reduces one
  dimension after the other, the other all at once; for the variance this one first reduces to the mean, by a call of
  the entry point.
\<close>

section \<open>The code\<close>

text \<open>
  The library calls and the contents of fresh memory. \<open>re_access\<close>, \<open>re_remove\<close>, \<open>re_rename\<close>: whether a file is there, whether
  its removal and its renaming succeed; \<open>re_open path c\<close>: the container made from the file \<open>path\<close>, in which the array \<open>c\<close>,
  freed by now, has been stored.
\<close>

record ('d, 'k) reduce_env =
  re_api :: "('d, 'k) blosc_api"
  re_torn :: "ina_val list \<Rightarrow> int \<Rightarrow> ina_val"
  re_fresh :: "int \<Rightarrow> int \<Rightarrow> nat \<Rightarrow> reduce_cell"
  re_zfp :: "iarray_compression_codec \<Rightarrow> int"
  re_defaults :: blosc2_cparams
  re_cfg :: iarray_config
  re_copy :: "'d copy_api"
  re_buffer :: "ina_val list"
  re_access :: "string \<Rightarrow> bool"
  re_remove :: "string \<Rightarrow> bool"
  re_rename :: "string \<Rightarrow> string \<Rightarrow> bool"
  re_open :: "string \<Rightarrow> 'd container \<Rightarrow> 'd container res"

text \<open>\<open>_iarray_reduce2\<close>; \<open>mean\<close> is the call of \<open>iarray_reduce_multi\<close> for the means, with correction 0.\<close>

type_synonym 'd mean_call = "'d container \<Rightarrow> iarray_reduce_func \<Rightarrow> nat list \<Rightarrow> iarray_storage \<Rightarrow> 'd container res"

definition iarray_reduce2 ::
    "('d, 'k) reduce_env \<Rightarrow> 'd mean_call \<Rightarrow> 'd container \<Rightarrow> iarray_reduce_func \<Rightarrow> nat list \<Rightarrow> iarray_storage \<Rightarrow> fp \<Rightarrow> 'd container res" where
  "iarray_reduce2 env mean a func axis st correction =
     res_bind (oneshot_table func (dtype (dtshape a))) (\<lambda>(f, out).
       let mean_storage = st\<lparr>urlpath := (case urlpath st of None \<Rightarrow> None | Some _ \<Rightarrow> Some ''_iarray_mean_reduce.iarray'')\<rparr>
       in res_bind
         (if func \<in> {IARRAY_REDUCE_STD, IARRAY_REDUCE_VAR}
            then res_bind (mean a IARRAY_REDUCE_MEAN axis mean_storage) (\<lambda>m. Inr (Some m))
          else if func \<in> {IARRAY_REDUCE_NAN_STD, IARRAY_REDUCE_NAN_VAR}
            then res_bind (mean a IARRAY_REDUCE_NAN_MEAN axis mean_storage) (\<lambda>m. Inr (Some m))
          else Inr None)
         (\<lambda>aux. iarray_reduce2_udf (re_api env) (re_fresh env) (re_zfp env) (re_defaults env) (re_cfg env) (ca_empty (re_copy env))
            a f func axis st out aux correction))"

text \<open>
  The axes: more than the dimension of the array, or used before. For an array of eight dimensions the axis 8 reads the
  flag after the last one.
\<close>

fun oneshot_axes :: "nat \<Rightarrow> bool list \<Rightarrow> nat list \<Rightarrow> unit res" where
  "oneshot_axes n used [] = Inr ()"
| "oneshot_axes n used (k # ks) =
     (if k > n \<or> used ! k then Inl IARRAY_ERR_INVALID_AXIS else oneshot_axes n (used[k := True]) ks)"

text \<open>The chunks and blocks of the result, with the same marking of the reduced dimensions as for the shape.\<close>

definition oneshot_storage :: "nat \<Rightarrow> nat list \<Rightarrow> iarray_storage \<Rightarrow> iarray_storage \<Rightarrow> iarray_storage" where
  "oneshot_storage n axis st src =
     (let cs = mark_axes axis (set_prefix n (\<lambda>j. chunkshape src ! j) fresh_slots);
          bs = mark_axes axis (set_prefix n (\<lambda>j. blockshape src ! j) fresh_slots);
          (cs, bs, inc) = fold (\<lambda>i (cs, bs, inc).
             if cs ! i = -1 then (cs, bs, inc + 1) else (cs[i - inc := cs ! i], bs[i - inc := bs ! i], inc)) [0..<n] (cs, bs, 0)
      in \<lparr> urlpath = (case urlpath st of None \<Rightarrow> None | Some _ \<Rightarrow> Some ''_iarray_red.iarr''), contiguous = contiguous st,
           chunkshape = cs, blockshape = bs \<rparr>)"

text \<open>
  The end of both algorithms: a copy if the result does not have the chunks and blocks asked for, otherwise its file gets
  the name asked for. \<open>second\<close>: there is a second temporary file.
\<close>

definition needs_copy :: "iarray_storage \<Rightarrow> 'd container \<Rightarrow> bool" where
  "needs_copy st c \<longleftrightarrow> list_ex (\<lambda>i. chunkshape st ! i \<noteq> chunkshape (storage c) ! i \<or> blockshape st ! i \<noteq> blockshape (storage c) ! i)
     [0..<ndim (dtshape c)]"

definition finish_reduction :: "('d, 'k) reduce_env \<Rightarrow> bool \<Rightarrow> iarray_storage \<Rightarrow> 'd container \<Rightarrow> 'd container res" where
  "finish_reduction env second st c =
     (let second_kept = (second \<and> \<not> re_remove env ''_iarray_red_2.iarr'')
      in if needs_copy st c then
           res_bind (iarray_copy (re_copy env) (re_buffer env) c False st) (\<lambda>b.
             if urlpath st \<noteq> None \<and> (\<not> re_remove env ''_iarray_red.iarr'' \<or> second_kept) then Inl INA_ERR_OPERATION_INVALID
             else Inr b)
         else case urlpath st of
             None \<Rightarrow> Inr c
           | Some path \<Rightarrow> if \<not> re_rename env ''_iarray_red.iarr'' path \<or> second_kept then Inl INA_ERR_OPERATION_INVALID
               else re_open env path c)"

text \<open>The copy of a view; the result of \<open>iarray_copy\<close> is not looked at, and without a copy there is no array to go on with.\<close>

definition oneshot_input :: "('d, 'k) reduce_env \<Rightarrow> 'd container \<Rightarrow> 'd container res" where
  "oneshot_input env a =
     (if container_viewed a \<noteq> None then
        if urlpath (storage a) \<noteq> None \<and> re_access env ''_iarray_view.iarr'' then Inl INA_ERR_INVALID
        else iarray_copy (re_copy env) (re_buffer env) a False
          ((storage a)\<lparr>urlpath := (case urlpath (storage a) of None \<Rightarrow> None | Some _ \<Rightarrow> Some ''_iarray_view.iarr'')\<rparr>)
      else Inr a)"

definition iarray_reduce_oneshot ::
    "('d, 'k) reduce_env \<Rightarrow> 'd mean_call \<Rightarrow> 'd container \<Rightarrow> iarray_reduce_func \<Rightarrow> nat list \<Rightarrow> iarray_storage \<Rightarrow> fp \<Rightarrow> 'd container res" where
  "iarray_reduce_oneshot env mean a func axis st correction =
     (if length axis > ndim (dtshape a) then Inl IARRAY_ERR_INVALID_AXIS
      else res_bind (oneshot_axes (ndim (dtshape a)) (replicate IARRAY_DIMENSION_MAX False) axis) (\<lambda>_.
        res_bind (oneshot_input env a) (\<lambda>aa.
          let storage_red = oneshot_storage (ndim (dtshape aa)) axis st (storage aa)
          in if urlpath storage_red \<noteq> None \<and> re_access env ''_iarray_red.iarr'' then Inl INA_ERR_INVALID
             else res_bind (iarray_reduce2 env mean aa func axis storage_red correction) (\<lambda>c.
               finish_reduction env False st c))))"

text \<open>\<open>iarray_reduce_multi\<close>. Here a repeated axis is passed over.\<close>

fun multi_axes :: "nat \<Rightarrow> bool list \<Rightarrow> nat list \<Rightarrow> nat list \<Rightarrow> nat list res" where
  "multi_axes n used axis_new [] = Inr axis_new"
| "multi_axes n used axis_new (k # ks) =
     (if k > n then Inl IARRAY_ERR_INVALID_AXIS
      else if used ! k then multi_axes n used axis_new ks
      else multi_axes n (used[k := True]) (axis_new @ [k]) ks)"

text \<open>One dimension less, in the storage of the previous step.\<close>

definition drop_axis_storage :: "nat \<Rightarrow> 'd container \<Rightarrow> iarray_storage \<Rightarrow> iarray_storage" where
  "drop_axis_storage k aa st = (let n = ndim (dtshape aa); move = (\<lambda>xs j. if j < k then xs ! j else xs ! (j + 1))
     in st\<lparr>chunkshape := set_prefix n (move (chunkshape (storage aa))) (chunkshape st),
           blockshape := set_prefix n (move (blockshape (storage aa))) (blockshape st)\<rparr>)"

text \<open>
  The loop over the axes that are left, \<open>i\<close> of them are done. An array on disk is renamed before it is read again;
  a third one needs the second name, which is removed first.
\<close>

fun multi_loop ::
    "('d, 'k) reduce_env \<Rightarrow> iarray_reduce_func \<Rightarrow> iarray_storage \<Rightarrow> nat \<Rightarrow> nat list \<Rightarrow> 'd container \<times> iarray_storage \<Rightarrow> 'd container res" where
  "multi_loop env func st i [] (aa, storage_red) = Inr aa"
| "multi_loop env func st i (k # ks) (aa, storage_red) =
     res_bind (if i > 0 \<and> urlpath st \<noteq> None then
         if (i > 1 \<and> \<not> re_remove env ''_iarray_red_2.iarr'') \<or> \<not> re_rename env ''_iarray_red.iarr'' ''_iarray_red_2.iarr''
         then Inl INA_ERR_OPERATION_INVALID else re_open env ''_iarray_red_2.iarr'' aa
       else Inr aa) (\<lambda>aa.
     let storage_red = drop_axis_storage k aa storage_red
     in res_bind (iarray_reduce1 (re_api env) (re_torn env) (re_fresh env) (re_zfp env) (re_defaults env) (re_cfg env) (ca_empty (re_copy env))
          aa func k storage_red) (\<lambda>c.
        multi_loop env func st (i + 1) (map (\<lambda>j. if j > k then j - 1 else j) ks) (c, storage_red)))"

text \<open>Without any axis the code reads through a null pointer in the end, for which the model returns an error.\<close>

definition iarray_reduce_multi_with ::
    "('d, 'k) reduce_env \<Rightarrow> 'd mean_call \<Rightarrow> 'd container \<Rightarrow> iarray_reduce_func \<Rightarrow> nat list \<Rightarrow> iarray_storage \<Rightarrow> bool \<Rightarrow> fp \<Rightarrow> 'd container res" where
  "iarray_reduce_multi_with env mean a func axis st oneshot correction =
     (if \<not> needs_mean func \<and> correction \<noteq> Fin 0 then Inl INA_ERR_INVALID_ARGUMENT
      else if needs_mean func \<or> func \<in> {IARRAY_REDUCE_MEDIAN, IARRAY_REDUCE_NAN_MEDIAN, IARRAY_REDUCE_NAN_MEAN} \<or> oneshot then
        if \<not> oneshot then Inl INA_ERR_OPERATION_INVALID
        else iarray_reduce_oneshot env mean a func axis st correction
      else if length axis > ndim (dtshape a) then Inl IARRAY_ERR_INVALID_AXIS
      else res_bind (multi_axes (ndim (dtshape a)) (replicate IARRAY_DIMENSION_MAX False) [] axis) (\<lambda>axis_new.
        res_bind (if container_viewed a \<noteq> None then iarray_copy (re_copy env) (re_buffer env) a False (storage a) else Inr a) (\<lambda>aa.
          if axis_new = [] then Inl INA_ERR_FAILED
          else
            let storage_red = \<lparr> urlpath = (case urlpath st of None \<Rightarrow> None | Some _ \<Rightarrow> Some ''_iarray_red.iarr''),
                  contiguous = contiguous st, chunkshape = fresh_slots, blockshape = fresh_slots \<rparr>
            in res_bind (multi_loop env func st 0 axis_new (aa, storage_red)) (\<lambda>c.
               finish_reduction env (length axis_new > 1) st c))))"

text \<open>The recursion by way of \<open>_iarray_reduce2\<close> ends at once: the mean needs no mean.\<close>

definition reduce_mean :: "('d, 'k) reduce_env \<Rightarrow> 'd mean_call" where
  "reduce_mean env a func axis st =
     iarray_reduce_multi_with env (\<lambda>_ _ _ _. Inl INA_ERR_FAILED) a func axis st True (Fin 0)"

definition iarray_reduce_multi ::
    "('d, 'k) reduce_env \<Rightarrow> 'd container \<Rightarrow> iarray_reduce_func \<Rightarrow> nat list \<Rightarrow> iarray_storage \<Rightarrow> bool \<Rightarrow> fp \<Rightarrow> 'd container res" where
  "iarray_reduce_multi env a func axis st oneshot correction =
     iarray_reduce_multi_with env (reduce_mean env) a func axis st oneshot correction"

definition iarray_reduce ::
    "('d, 'k) reduce_env \<Rightarrow> 'd container \<Rightarrow> iarray_reduce_func \<Rightarrow> nat \<Rightarrow> iarray_storage \<Rightarrow> bool \<Rightarrow> fp \<Rightarrow> 'd container res" where
  "iarray_reduce env a func axis st oneshot correction = iarray_reduce_multi env a func [axis] st oneshot correction"

section \<open>The functions of the one-shot table\<close>

text \<open>
  A part of a cell, on which the reduction works: what initialisation, items and end do to it depends on it alone.
\<close>

lemma oneshot_freshI:
  assumes "\<And>c c'. R (rf_init f c) (rf_init f c')"
    and "\<And>u c c' x. R c c' \<Longrightarrow> R (take_item f u c x) (take_item f u c' x)"
    and "\<And>u c c'. R c c' \<Longrightarrow> map_option c_res (rf_finish f u c) = map_option c_res (rf_finish f u c')" "ends f"
  shows "oneshot_fresh f"
  unfolding oneshot_fresh_def
proof (intro allI impI)
  fix u m xs c c' assume xs: "xs \<noteq> ([] :: ina_val list)"
  have t: "R c c' \<Longrightarrow> R (take_items f u xs c) (take_items f u xs c')" for u xs c c'
    unfolding take_items_def using assms(2) by (induction xs arbitrary: c c') simp_all
  have "map_option c_res (rf_finish f u (oneshot_cell f u m xs c)) = map_option c_res (rf_finish f u (oneshot_cell f u m xs c'))"
    unfolding oneshot_cell_def by (intro assms(3) t assms(1))
  moreover have "rf_finish f u (oneshot_cell f u m xs c) \<noteq> None" "rf_finish f u (oneshot_cell f u m xs c') \<noteq> None"
    using assms(4) xs by (simp_all add: ends_def)
  ultimately show "oneshot_value f u m xs c = oneshot_value f u m xs c'" by (auto simp: oneshot_value_def)
qed

lemma fresh_item: "oneshot_fresh \<lparr> rf_init = set_res x, rf_reduction = on_item g, rf_finish = no_finish \<rparr>"
  by (rule oneshot_freshI [where R = "\<lambda>c c'. c_res c = c_res c'"])
    (simp_all add: set_res_def take_item_def on_item_def no_finish_def ends_def)

lemma fresh_mean: "oneshot_fresh (MEAN_fn d nan oneshot)"
  by (rule oneshot_freshI [where R = "\<lambda>c c'. c_res c = c_res c' \<and> not_nan_nelems c = not_nan_nelems c'"])
    (simp_all add: MEAN_fn_def MEAN_I_def set_res_def take_item_def on_item_def on_vector_def nanMEAN_R_def MEAN_F_def nanMEAN_F_def ends_def)

lemma fresh_var: "oneshot_fresh (VAR_fn d nan)" "oneshot_fresh (STD_fn d nan)"
  by (rule oneshot_freshI [where R = "\<lambda>c c'. c_res c = c_res c' \<and> not_nan_nelems c = not_nan_nelems c'"];
    simp add: VAR_fn_def STD_fn_def VAR_I_def take_item_def nanVAR_R_def VAR_R_def VAR_F_def nanVAR_F_def STD_root_def ends_def Let_def)+

text \<open>The median stores the items it counts.\<close>

lemma median_cell:
  "take_items (MEDIAN_fn itype otype nan) u xs c = (let ys = filter (\<lambda>x. \<not> c_isnan x) xs
     in c\<lparr>medians := medians c @ (if nan then ys else xs), not_nan_nelems := not_nan_nelems c + int (length ys),
         nan_nelems := nan_nelems c + int (length xs - length ys)\<rparr>)"
proof (induction xs arbitrary: c)
  case (Cons x xs)
  have "length (filter (\<lambda>x. \<not> c_isnan x) xs) \<le> length xs" by simp
  then show ?case using Cons
    by (simp add: take_items_def take_item_def MEDIAN_fn_def MEDIAN_R_def nanMEDIAN_R_def Let_def of_nat_diff Suc_diff_le)
qed (simp add: take_items_def)

lemma median_of_some: "xs \<noteq> [] \<Longrightarrow> median_of itype otype xs \<noteq> None"
  by (simp add: median_of_def Let_def)

lemma ends_median: "ends (MEDIAN_fn itype otype nan)"
  unfolding ends_def
proof (intro allI impI)
  fix u m c xs assume xs: "xs \<noteq> ([] :: ina_val list)"
  let ?ys = "filter (\<lambda>x. \<not> c_isnan x) xs"
  have "length ?ys \<le> length xs" by simp
  then have nan: "length xs - length ?ys = 0 \<Longrightarrow> ?ys = xs"
    by (metis diff_is_0_eq filter_id_conv length_filter_less linorder_not_less)
  have cell: "oneshot_cell (MEDIAN_fn itype otype nan) u m xs c = (let c = MEDIAN_I (c\<lparr>medians := []\<rparr>)
     in c\<lparr>medians := (if nan then ?ys else xs), not_nan_nelems := int (length ?ys), nan_nelems := int (length xs - length ?ys)\<rparr>)"
    by (simp add: oneshot_cell_def median_cell Let_def) (simp add: MEDIAN_fn_def MEDIAN_I_def)
  show "rf_finish (MEDIAN_fn itype otype nan) u (oneshot_cell (MEDIAN_fn itype otype nan) u m xs c) \<noteq> None"
    unfolding cell using xs nan median_of_some [of xs] median_of_some [of ?ys]
    by (auto simp: MEDIAN_fn_def MEDIAN_F_def nanMEDIAN_F_def MEDIAN_I_def Let_def filter_empty_conv)
qed

lemma fresh_median: "oneshot_fresh (MEDIAN_fn itype otype nan)"
  by (rule oneshot_freshI [where R = "\<lambda>c c'. medians c = medians c' \<and> not_nan_nelems c = not_nan_nelems c' \<and> nan_nelems c = nan_nelems c'",
        OF _ _ _ ends_median])
    (auto simp: MEDIAN_fn_def MEDIAN_I_def take_item_def MEDIAN_R_def nanMEDIAN_R_def MEDIAN_F_def nanMEDIAN_F_def set_res_def Let_def
      option.map_comp comp_def)

lemma oneshot_table_functions:
  assumes "oneshot_table func d = Inr (f, out)"
  shows "ends f" "oneshot_fresh f" "func \<noteq> IARRAY_REDUCE_MEDIAN \<Longrightarrow> ends_empty f" "out \<noteq> IARRAY_DATA_TYPE_MAX"
proof -
  note tables = oneshot_table_def oneshot_tables reduce_tables var_table_def nan_var_table_def std_table_def nan_std_table_def
    median_table_def nan_median_table_def nan_mean_table_def table_entry_def
  show "ends f" using assms ends_median
    by (cases func) (auto simp: tables reduce_fns VAR_fn_def STD_fn_def ends_def no_finish_def MEAN_F_def nanMEAN_F_def split: if_splits)
  show "oneshot_fresh f" using assms
    by (cases func) (auto simp: tables SUM_fn_def PROD_fn_def MAX_fn_def MIN_fn_def ALL_fn_def ANY_fn_def fresh_item fresh_mean
        fresh_var fresh_median split: if_splits)
  show "ends_empty f" if "func \<noteq> IARRAY_REDUCE_MEDIAN" using assms that
    by (cases func) (auto simp: tables reduce_fns VAR_fn_def STD_fn_def ends_empty_def no_finish_def MEAN_F_def nanMEAN_F_def
        MEDIAN_fn_def nanMEDIAN_F_def MEDIAN_I_def split: if_splits)
  show "out \<noteq> IARRAY_DATA_TYPE_MAX" using assms
    by (cases func) (auto simp: tables known_dtype_def is_fp_def real_dtype_def wide_dtype_def split: if_splits)
qed

section \<open>The storage of the result\<close>

text \<open>Two arrays move up at once, the first one has the marks.\<close>

lemma move_up2:
  assumes "m \<le> length xs" "length xs = length ys" "\<And>i. i < m \<Longrightarrow> xs ! i = -1 \<longleftrightarrow> red ! i"
  shows "\<exists>xs' ys'. fold (\<lambda>i (cs, bs, inc). if cs ! i = -1 then (cs, bs, inc + 1) else (cs[i - inc := cs ! i], bs[i - inc := bs ! i], inc))
        [0..<m] (xs, ys, 0) = (xs', ys', m - length (kept red m)) \<and> length xs' = length xs \<and> length ys' = length ys \<and>
      take (length (kept red m)) xs' = map ((!) xs) (kept red m) \<and> take (length (kept red m)) ys' = map ((!) ys) (kept red m) \<and>
      (\<forall>i. m \<le> i \<longrightarrow> i < length xs \<longrightarrow> xs' ! i = xs ! i \<and> ys' ! i = ys ! i)"
  using assms
proof (induction m)
  case 0
  then show ?case by (simp add: kept_def)
next
  case (Suc m)
  let ?l = "length (kept red m)"
  have l: "?l \<le> m" by (rule kept_length)
  obtain xs' ys' where r: "fold (\<lambda>i (cs, bs, inc). if cs ! i = -1 then (cs, bs, inc + 1) else (cs[i - inc := cs ! i], bs[i - inc := bs ! i], inc))
        [0..<m] (xs, ys, 0) = (xs', ys', m - ?l)" "length xs' = length xs" "length ys' = length ys"
      "take ?l xs' = map ((!) xs) (kept red m)" "take ?l ys' = map ((!) ys) (kept red m)"
      "\<And>i. m \<le> i \<Longrightarrow> i < length xs \<Longrightarrow> xs' ! i = xs ! i \<and> ys' ! i = ys ! i"
    using Suc by auto
  have m: "xs' ! m = xs ! m" "ys' ! m = ys ! m" using r(6) [of m] Suc.prems by simp_all
  show ?case
  proof (cases "red ! m")
    case True
    then show ?thesis using r m l Suc.prems by (simp add: kept_Suc Suc_diff_le)
  next
    case False
    have "take (Suc ?l) (xs'[?l := xs ! m]) = take ?l xs' @ [xs ! m]" "take (Suc ?l) (ys'[?l := ys ! m]) = take ?l ys' @ [ys ! m]"
      using l r(2,3) Suc.prems by (simp_all add: take_Suc_conv_app_nth)
    then show ?thesis using False r m l Suc.prems by (simp add: kept_Suc)
  qed
qed

lemma oneshot_storage:
  assumes "plain_container a" "n = ndim (dtshape a)"
  shows "length (chunkshape (oneshot_storage n axis st (storage a))) = 8" "length (blockshape (oneshot_storage n axis st (storage a))) = 8"
    "take (length (kept (axis_flags axis) n)) (chunkshape (oneshot_storage n axis st (storage a))) = keep_dims (axis_flags axis) n (cs_of a)"
    "take (length (kept (axis_flags axis) n)) (blockshape (oneshot_storage n axis st (storage a))) = keep_dims (axis_flags axis) n (bs_of a)"
    "urlpath (oneshot_storage n axis st (storage a)) = (case urlpath st of None \<Rightarrow> None | Some _ \<Rightarrow> Some ''_iarray_red.iarr'')"
proof -
  let ?red = "axis_flags axis"
  let ?xs = "mark_axes axis (set_prefix n (\<lambda>j. chunkshape (storage a) ! j) fresh_slots)"
    and ?ys = "mark_axes axis (set_prefix n (\<lambda>j. blockshape (storage a) ! j) fresh_slots)"
  note l = plain_slots [OF assms(1)]
  have n: "n \<le> 8" using l assms(2) by simp
  have cs: "cs_of a ! i = chunkshape (storage a) ! i" "bs_of a ! i = blockshape (storage a) ! i" if "i < n" for i
    using that assms(2) by (simp_all add: cs_of_def bs_of_def)
  have pos: "0 < chunkshape (storage a) ! i" if "i < n" for i using plain_fields(8) [OF assms(1), of i] cs that assms(2) by simp
  have x: "?xs ! i = (if ?red ! i then -1 else cs_of a ! i)" "?ys ! i = (if ?red ! i then -1 else bs_of a ! i)" if "i < n" for i
    using that n by (simp_all add: mark_axes_nth set_prefix_nth axis_flags_nth cs)
  have "?xs ! i = -1 \<longleftrightarrow> ?red ! i" if "i < n" for i using x [OF that] pos [OF that] cs [OF that] by simp
  then obtain xs' ys' where r: "fold (\<lambda>i (cs, bs, inc). if cs ! i = -1 then (cs, bs, inc + 1) else (cs[i - inc := cs ! i], bs[i - inc := bs ! i], inc))
        [0..<n] (?xs, ?ys, 0) = (xs', ys', n - length (kept ?red n))" "length xs' = 8" "length ys' = 8"
      "take (length (kept ?red n)) xs' = map ((!) ?xs) (kept ?red n)" "take (length (kept ?red n)) ys' = map ((!) ?ys) (kept ?red n)"
    using move_up2 [of n ?xs ?ys ?red] n by (auto simp: mark_axes_nth)
  have k: "map ((!) ?xs) (kept ?red n) = keep_dims ?red n (cs_of a)" "map ((!) ?ys) (kept ?red n) = keep_dims ?red n (bs_of a)"
    unfolding keep_dims_def by (rule map_cong; auto simp: x kept_def)+
  have s: "oneshot_storage n axis st (storage a) =
      \<lparr> urlpath = (case urlpath st of None \<Rightarrow> None | Some _ \<Rightarrow> Some ''_iarray_red.iarr''), contiguous = contiguous st, chunkshape = xs', blockshape = ys' \<rparr>"
    unfolding oneshot_storage_def Let_def r(1) by simp
  show "length (chunkshape (oneshot_storage n axis st (storage a))) = 8" "length (blockshape (oneshot_storage n axis st (storage a))) = 8"
    "take (length (kept ?red n)) (chunkshape (oneshot_storage n axis st (storage a))) = keep_dims ?red n (cs_of a)"
    "take (length (kept ?red n)) (blockshape (oneshot_storage n axis st (storage a))) = keep_dims ?red n (bs_of a)"
    "urlpath (oneshot_storage n axis st (storage a)) = (case urlpath st of None \<Rightarrow> None | Some _ \<Rightarrow> Some ''_iarray_red.iarr'')"
    unfolding s using r(2-5) k by simp_all
qed

section \<open>The one-shot algorithm\<close>

text \<open>
  \<open>exact_library\<close>: the documented behaviour of caterva and c-blosc2 without lossy compression. \<open>multi_request\<close>: an array that is
  not a view, distinct axes of it, and chunks and blocks for the result that fit into it.
\<close>

definition exact_library :: "('d, 'k) reduce_env \<Rightarrow> bool" where
  "exact_library env \<longleftrightarrow> caterva_create_spec (ca_empty (re_copy env)) \<and>
     schunk_spec (get_lazychunk (re_api env)) (update_chunk (re_api env)) (ca_empty (re_copy env)) \<and>
     (\<forall>ts bs. blosc_exact (re_api env) (iarray_create_blosc_cparams (re_zfp env) (re_defaults env) (re_cfg env) ts bs)) \<and>
     copy_spec (re_api env) (ca_copy (re_copy env))"

definition multi_request :: "'d container \<Rightarrow> nat list \<Rightarrow> iarray_storage \<Rightarrow> bool" where
  "multi_request a axis st \<longleftrightarrow> (let n = ndim (dtshape a); m = n - length axis in
     plain_container a \<and> container_viewed a = None \<and> 0 < n \<and> distinct axis \<and> set axis \<subseteq> {..<n} \<and>
     m \<le> length (chunkshape st) \<and> m \<le> length (blockshape st) \<and> urlpath st = None \<and>
     nested (keep_dims (axis_flags axis) n (ns_of a)) (take m (chunkshape st)) (take m (blockshape st)))"

lemma finish_in_memory:
  assumes "plain_container c" "container_viewed c = None" "stores (re_api env) c A" "good_request (dtshape c) st"
    and "exact_library env" "urlpath st = None"
  shows "\<exists>b. finish_reduction env second st c = Inr b \<and> plain_container b \<and> container_viewed b = None \<and> dtshape b = dtshape c \<and>
    ns_of b = ns_of c \<and> cs_of b = take (ndim (dtshape c)) (chunkshape st) \<and> bs_of b = take (ndim (dtshape c)) (blockshape st) \<and>
    stores (re_api env) b A"
proof (cases "needs_copy st c")
  case True
  obtain b where "iarray_copy (re_copy env) (re_buffer env) c False st = Inr b" "plain_container b" "storage b = st" "dtshape b = dtshape c"
      "ns_of b = ns_of c" "container_viewed b = None" "stores (re_api env) b A"
    using iarray_copy_array [OF assms(1-4)] assms(5) unfolding exact_library_def by blast
  then show ?thesis using True assms(6) by (simp add: finish_reduction_def Let_def cs_of_def bs_of_def)
next
  case False
  have l: "ndim (dtshape c) \<le> length (chunkshape st)" "ndim (dtshape c) \<le> length (blockshape st)"
    "length (cs_of c) = ndim (dtshape c)" "length (bs_of c) = ndim (dtshape c)"
    using assms(4) plain_slots(4,5) [OF assms(1)] by (simp_all add: good_request_def)
  have "chunkshape st ! i = chunkshape (storage c) ! i" "blockshape st ! i = blockshape (storage c) ! i" if "i < ndim (dtshape c)" for i
    using False that by (auto simp: needs_copy_def list_ex_iff)
  then have "cs_of c = take (ndim (dtshape c)) (chunkshape st)" "bs_of c = take (ndim (dtshape c)) (blockshape st)"
    using l by (intro nth_equalityI; simp add: cs_of_def bs_of_def)+
  then show ?thesis using False assms(1-3,6) by (simp add: finish_reduction_def)
qed

lemma oneshot_axes_distinct:
  assumes "distinct axis" "set axis \<subseteq> {..<n}" "\<And>k. k \<in> set axis \<Longrightarrow> \<not> used ! k"
  shows "oneshot_axes n used axis = Inr ()"
  using assms
proof (induction axis arbitrary: used)
  case (Cons k ks)
  then have "\<not> used[k := True] ! j" if "j \<in> set ks" for j
    using that by (cases "j = k") simp_all
  then show ?case using Cons by (simp add: less_imp_le)
qed simp

lemma request_parts:
  assumes "multi_request a axis st" "n = ndim (dtshape a)"
  shows "plain_container a" "container_viewed a = None" "0 < n" "distinct axis" "set axis \<subseteq> {..<n}" "length axis \<le> n"
    "length (kept (axis_flags axis) n) = n - length axis" "urlpath st = None"
    "oneshot_axes n (replicate IARRAY_DIMENSION_MAX False) axis = Inr ()"
proof -
  show r: "plain_container a" "container_viewed a = None" "0 < n" "distinct axis" "set axis \<subseteq> {..<n}" "urlpath st = None"
    using assms by (simp_all add: multi_request_def Let_def)
  have n: "n \<le> 8" using plain_slots(2) [OF r(1)] assms(2) by simp
  show "length axis \<le> n" using r(4,5) card_mono [OF _ r(5)] by (simp add: distinct_card)
  show "length (kept (axis_flags axis) n) = n - length axis" using length_kept [OF r(4,5) n] .
  show "oneshot_axes n (replicate IARRAY_DIMENSION_MAX False) axis = Inr ()"
    using r(4,5) n by (intro oneshot_axes_distinct) (auto simp: IARRAY_DIMENSION_MAX_def)
qed

text \<open>The reductions over the kept dimensions \<open>red\<close> of \<open>a\<close>; the result is the array \<open>R\<close> in a container with chunks and blocks \<open>cs\<close>, \<open>bs\<close>.\<close>

definition reduced_to ::
    "('d, 'k) reduce_env \<Rightarrow> 'd container \<Rightarrow> nat list \<Rightarrow> iarray_data_type \<Rightarrow> int list \<Rightarrow> int list \<Rightarrow> (int list \<Rightarrow> ina_val) \<Rightarrow> 'd container \<Rightarrow> bool" where
  "reduced_to env a axis out cs bs R b \<longleftrightarrow> plain_container b \<and> container_viewed b = None \<and> dtype (dtshape b) = out \<and>
     ndim (dtshape b) = length (kept (axis_flags axis) (ndim (dtshape a))) \<and>
     ns_of b = keep_dims (axis_flags axis) (ndim (dtshape a)) (ns_of a) \<and> cs_of b = cs \<and> bs_of b = bs \<and> stores (re_api env) b R"

definition fibre_reduced ::
    "iarray_reduce_function \<Rightarrow> 'd container \<Rightarrow> nat list \<Rightarrow> fp \<Rightarrow> (int list \<Rightarrow> ina_val) \<Rightarrow> (int list \<Rightarrow> ina_val) \<Rightarrow> int list \<Rightarrow> ina_val" where
  "fibre_reduced f a axis correction M A = oneshot_reduced f (oneshot_user_data (shape (dtshape a)) axis correction) (axis_flags axis)
     (ns_of a) (cs_of a) (bs_of a) M A"

lemma storage_request:
  assumes "multi_request a axis st" "n = ndim (dtshape a)"
  shows "oneshot_request a axis (oneshot_storage n axis st (storage a))"
    "urlpath (oneshot_storage n axis st (storage a)) = None"
    "take (n - length axis) (chunkshape (oneshot_storage n axis st (storage a))) = keep_dims (axis_flags axis) n (cs_of a)"
    "take (n - length axis) (blockshape (oneshot_storage n axis st (storage a))) = keep_dims (axis_flags axis) n (bs_of a)"
    "multi_request a axis (oneshot_storage n axis st (storage a))"
proof -
  note r = request_parts [OF assms] and s = oneshot_storage [OF request_parts(1) [OF assms] assms(2), of axis st]
  have n: "n \<le> 8" "length (bs_of a) = n" using plain_slots(2,5) [OF r(1)] assms(2) by simp_all
  show u: "urlpath (oneshot_storage n axis st (storage a)) = None" using s(5) r(8) by simp
  show t: "take (n - length axis) (chunkshape (oneshot_storage n axis st (storage a))) = keep_dims (axis_flags axis) n (cs_of a)"
    "take (n - length axis) (blockshape (oneshot_storage n axis st (storage a))) = keep_dims (axis_flags axis) n (bs_of a)"
    using s(3,4) r(7) by simp_all
  show "oneshot_request a axis (oneshot_storage n axis st (storage a))"
    unfolding oneshot_request_def Let_def assms(2) [symmetric] using r s(1,2) t n by simp
  have "nested (keep_dims (axis_flags axis) n (ns_of a)) (keep_dims (axis_flags axis) n (cs_of a)) (keep_dims (axis_flags axis) n (bs_of a))"
    using nested_keep_dims [OF plain_nested [OF r(1)]] n by simp
  then show "multi_request a axis (oneshot_storage n axis st (storage a))"
    unfolding multi_request_def Let_def assms(2) [symmetric] using r s(1,2) t n u by simp
qed

lemma udf_reduced:
  fixes a :: "'d container" and env :: "('d, 'k) reduce_env"
  assumes "multi_request a axis st" "stores (re_api env) a A" "exact_library env" "oneshot_table func (dtype (dtshape a)) = Inr (f, out)"
    and "func = IARRAY_REDUCE_MEDIAN \<longrightarrow> unpadded (keep_dims (axis_flags axis) (ndim (dtshape a)) (ns_of a))
        (keep_dims (axis_flags axis) (ndim (dtshape a)) (cs_of a)) (keep_dims (axis_flags axis) (ndim (dtshape a)) (bs_of a))"
    and "\<And>c :: 'd container. ns_of c = keep_dims (axis_flags axis) (ndim (dtshape a)) (ns_of a) \<Longrightarrow>
        cs_of c = keep_dims (axis_flags axis) (ndim (dtshape a)) (cs_of a) \<Longrightarrow>
        bs_of c = keep_dims (axis_flags axis) (ndim (dtshape a)) (bs_of a) \<Longrightarrow> mean_source (re_api env) func aux c M"
  shows "\<exists>b. iarray_reduce2_udf (re_api env) (re_fresh env) (re_zfp env) (re_defaults env) (re_cfg env) (ca_empty (re_copy env))
      a f func axis (oneshot_storage (ndim (dtshape a)) axis st (storage a)) out aux correction = Inr b \<and>
    reduced_to env a axis out (keep_dims (axis_flags axis) (ndim (dtshape a)) (cs_of a)) (keep_dims (axis_flags axis) (ndim (dtshape a)) (bs_of a))
      (fibre_reduced f a axis correction M A) b"
proof -
  note t = oneshot_table_functions [OF assms(4)]
  have lib: "caterva_create_spec (ca_empty (re_copy env))" "schunk_spec (get_lazychunk (re_api env)) (update_chunk (re_api env)) (ca_empty (re_copy env))"
    "\<And>ts bs. blosc_exact (re_api env) (iarray_create_blosc_cparams (re_zfp env) (re_defaults env) (re_cfg env) ts bs)"
    using assms(3) unfolding exact_library_def by blast+
  have e: "ends_empty f \<or> unpadded (keep_dims (axis_flags axis) (ndim (dtshape a)) (ns_of a))
        (keep_dims (axis_flags axis) (ndim (dtshape a)) (cs_of a)) (keep_dims (axis_flags axis) (ndim (dtshape a)) (bs_of a))"
    using t(3) assms(5) by blast
  show ?thesis
    using reduce2_udf_correct [OF storage_request(1) [OF assms(1) refl] assms(2) t(1,2) e t(4) lib assms(6)]
    unfolding reduced_to_def fibre_reduced_def by blast
qed

lemma oneshot_of_reduce2:
  assumes "multi_request a axis st" "exact_library env" "out \<noteq> IARRAY_DATA_TYPE_MAX"
    and "\<exists>c. iarray_reduce2 env mean a func axis (oneshot_storage (ndim (dtshape a)) axis st (storage a)) correction = Inr c \<and>
      reduced_to env a axis out cs bs R c"
  shows "\<exists>b. iarray_reduce_oneshot env mean a func axis st correction = Inr b \<and>
    reduced_to env a axis out (take (ndim (dtshape a) - length axis) (chunkshape st)) (take (ndim (dtshape a) - length axis) (blockshape st)) R b"
proof -
  obtain c where c: "iarray_reduce2 env mean a func axis (oneshot_storage (ndim (dtshape a)) axis st (storage a)) correction = Inr c"
    "plain_container c" "container_viewed c = None" "dtype (dtshape c) = out"
    "ndim (dtshape c) = length (kept (axis_flags axis) (ndim (dtshape a)))" "ns_of c = keep_dims (axis_flags axis) (ndim (dtshape a)) (ns_of a)"
    "stores (re_api env) c R"
    using assms(4) by (auto simp: reduced_to_def)
  note r = request_parts [OF assms(1) refl] and s = storage_request [OF assms(1) refl]
  have m: "ndim (dtshape c) = ndim (dtshape a) - length axis" using c(5) r(7) by simp
  have "good_request (dtshape c) st"
    using assms(1,3) c(4,6) m plain_slots(7) [OF c(2)] plain_slots(9) [OF c(2)]
    by (simp add: good_request_def multi_request_def Let_def)
  from finish_in_memory [OF c(2,3,7) this assms(2) r(8), of False] obtain b where "finish_reduction env False st c = Inr b"
    "plain_container b" "container_viewed b = None" "dtshape b = dtshape c" "ns_of b = ns_of c"
    "cs_of b = take (ndim (dtshape c)) (chunkshape st)" "bs_of b = take (ndim (dtshape c)) (blockshape st)" "stores (re_api env) b R" by blast
  then show ?thesis
    using c r s(2) m by (simp add: iarray_reduce_oneshot_def oneshot_input_def Let_def reduced_to_def)
qed

text \<open>A reduction that needs no mean.\<close>

lemma oneshot_no_mean:
  fixes a :: "'d container" and env :: "('d, 'k) reduce_env"
  assumes "multi_request a axis st" "stores (re_api env) a A" "exact_library env" "oneshot_table func (dtype (dtshape a)) = Inr (f, out)"
    and "func = IARRAY_REDUCE_MEDIAN \<longrightarrow> unpadded (keep_dims (axis_flags axis) (ndim (dtshape a)) (ns_of a))
        (keep_dims (axis_flags axis) (ndim (dtshape a)) (cs_of a)) (keep_dims (axis_flags axis) (ndim (dtshape a)) (bs_of a))"
    and "\<not> needs_mean func"
  shows "\<exists>b. iarray_reduce_oneshot env mean a func axis st correction = Inr b \<and>
    reduced_to env a axis out (take (ndim (dtshape a) - length axis) (chunkshape st)) (take (ndim (dtshape a) - length axis) (blockshape st))
      (fibre_reduced f a axis correction (\<lambda>_. VInt 0) A) b"
proof (rule oneshot_of_reduce2 [OF assms(1,3) oneshot_table_functions(4) [OF assms(4)]])
  have "iarray_reduce2 env mean a func axis st' correction = iarray_reduce2_udf (re_api env) (re_fresh env) (re_zfp env)
      (re_defaults env) (re_cfg env) (ca_empty (re_copy env)) a f func axis st' out None correction" for st'
    using assms(4,6) by (auto simp: iarray_reduce2_def needs_mean_def Let_def)
  then show "\<exists>c. iarray_reduce2 env mean a func axis (oneshot_storage (ndim (dtshape a)) axis st (storage a)) correction = Inr c \<and>
      reduced_to env a axis out (keep_dims (axis_flags axis) (ndim (dtshape a)) (cs_of a)) (keep_dims (axis_flags axis) (ndim (dtshape a)) (bs_of a))
        (fibre_reduced f a axis correction (\<lambda>_. VInt 0) A) c"
    using udf_reduced [OF assms(1-5), of None "\<lambda>_. VInt 0"] assms(6) by (simp add: mean_source_def)
qed

text \<open>The mean that a reduction needs: of all items, or of those that are numbers.\<close>

definition mean_func :: "iarray_reduce_func \<Rightarrow> iarray_reduce_func" where
  "mean_func func = (if func \<in> {IARRAY_REDUCE_STD, IARRAY_REDUCE_VAR} then IARRAY_REDUCE_MEAN else IARRAY_REDUCE_NAN_MEAN)"

definition fibre_means :: "iarray_reduce_func \<Rightarrow> 'd container \<Rightarrow> nat list \<Rightarrow> (int list \<Rightarrow> ina_val) \<Rightarrow> int list \<Rightarrow> ina_val" where
  "fibre_means func a axis A = (if needs_mean func
     then case oneshot_table (mean_func func) (dtype (dtshape a)) of Inr (f, out) \<Rightarrow> fibre_reduced f a axis (Fin 0) (\<lambda>_. VInt 0) A
       | Inl _ \<Rightarrow> (\<lambda>_. VInt 0)
     else (\<lambda>_. VInt 0))"

lemma reduce_mean_reduced:
  fixes a :: "'d container" and env :: "('d, 'k) reduce_env"
  assumes "multi_request a axis st" "stores (re_api env) a A" "exact_library env" "needs_mean func"
    and "oneshot_table func (dtype (dtshape a)) = Inr (f, out)"
  shows "\<exists>b out. reduce_mean env a (mean_func func) axis st = Inr b \<and>
    reduced_to env a axis out (take (ndim (dtshape a) - length axis) (chunkshape st)) (take (ndim (dtshape a) - length axis) (blockshape st))
      (fibre_means func a axis A) b"
proof -
  have m: "\<not> needs_mean (mean_func func)" "mean_func func \<noteq> IARRAY_REDUCE_MEDIAN" by (simp_all add: mean_func_def needs_mean_def)
  have "\<exists>g out. oneshot_table (mean_func func) (dtype (dtshape a)) = Inr (g, out)"
    using assms(4,5)
    by (auto simp: needs_mean_def mean_func_def oneshot_table_def oneshot_tables reduce_tables var_table_def nan_var_table_def
        std_table_def nan_std_table_def nan_mean_table_def table_entry_def split: if_splits)
  then obtain g out where t: "oneshot_table (mean_func func) (dtype (dtshape a)) = Inr (g, out)" by blast
  have "mean_func func = IARRAY_REDUCE_MEDIAN \<longrightarrow> P" for P using m(2) by simp
  from oneshot_no_mean [OF assms(1-3) t this m(1), of "\<lambda>_ _ _ _. Inl INA_ERR_FAILED" "Fin 0"] show ?thesis
    using m assms(4) t by (auto simp: reduce_mean_def iarray_reduce_multi_with_def fibre_means_def)
qed

lemma oneshot_needs_mean:
  fixes a :: "'d container" and env :: "('d, 'k) reduce_env"
  assumes "multi_request a axis st" "stores (re_api env) a A" "exact_library env" "oneshot_table func (dtype (dtshape a)) = Inr (f, out)"
    and "needs_mean func"
  shows "\<exists>b. iarray_reduce_oneshot env (reduce_mean env) a func axis st correction = Inr b \<and>
    reduced_to env a axis out (take (ndim (dtshape a) - length axis) (chunkshape st)) (take (ndim (dtshape a) - length axis) (blockshape st))
      (fibre_reduced f a axis correction (fibre_means func a axis A) A) b"
proof (rule oneshot_of_reduce2 [OF assms(1,3) oneshot_table_functions(4) [OF assms(4)]])
  let ?st = "oneshot_storage (ndim (dtshape a)) axis st (storage a)"
  let ?cs = "keep_dims (axis_flags axis) (ndim (dtshape a)) (cs_of a)" and ?bs = "keep_dims (axis_flags axis) (ndim (dtshape a)) (bs_of a)"
  note s = storage_request [OF assms(1) refl]
  obtain x out' where x: "reduce_mean env a (mean_func func) axis ?st = Inr x" "reduced_to env a axis out' ?cs ?bs (fibre_means func a axis A) x"
    using reduce_mean_reduced [OF s(5) assms(2,3,5,4)] s(3,4) by auto
  have st: "?st\<lparr>urlpath := (case urlpath ?st of None \<Rightarrow> None | Some _ \<Rightarrow> Some ''_iarray_mean_reduce.iarray'')\<rparr> = ?st" using s(2) by simp
  have eq: "iarray_reduce2 env (reduce_mean env) a func axis ?st correction = iarray_reduce2_udf (re_api env) (re_fresh env) (re_zfp env)
      (re_defaults env) (re_cfg env) (ca_empty (re_copy env)) a f func axis ?st out (Some x) correction"
    unfolding iarray_reduce2_def Let_def st using assms(4,5) x(1) by (auto simp: needs_mean_def mean_func_def)
  have med: "func = IARRAY_REDUCE_MEDIAN \<longrightarrow> P" for P using assms(5) by (auto simp: needs_mean_def)
  have src: "mean_source (re_api env) func (Some x) c (fibre_means func a axis A)"
    if "ns_of c = keep_dims (axis_flags axis) (ndim (dtshape a)) (ns_of a)" "cs_of c = ?cs" "bs_of c = ?bs" for c :: "'d container"
    using x(2) that assms(5) by (simp add: mean_source_def reduced_to_def)
  show "\<exists>c. iarray_reduce2 env (reduce_mean env) a func axis ?st correction = Inr c \<and>
      reduced_to env a axis out ?cs ?bs (fibre_reduced f a axis correction (fibre_means func a axis A) A) c"
    unfolding eq by (rule udf_reduced [OF assms(1-4) med src])
qed

lemma reduce_oneshot_fibres:
  fixes a :: "'d container" and env :: "('d, 'k) reduce_env"
  assumes "multi_request a axis st" "stores (re_api env) a A" "exact_library env" "oneshot_table func (dtype (dtshape a)) = Inr (f, out)"
    and "needs_mean func \<or> correction = Fin 0"
    and "func = IARRAY_REDUCE_MEDIAN \<longrightarrow> unpadded (keep_dims (axis_flags axis) (ndim (dtshape a)) (ns_of a))
        (keep_dims (axis_flags axis) (ndim (dtshape a)) (cs_of a)) (keep_dims (axis_flags axis) (ndim (dtshape a)) (bs_of a))"
  shows "\<exists>b. iarray_reduce_multi env a func axis st True correction = Inr b \<and>
    reduced_to env a axis out (take (ndim (dtshape a) - length axis) (chunkshape st)) (take (ndim (dtshape a) - length axis) (blockshape st))
      (fibre_reduced f a axis correction (fibre_means func a axis A) A) b"
proof -
  have m: "iarray_reduce_multi env a func axis st True correction = iarray_reduce_oneshot env (reduce_mean env) a func axis st correction"
    using assms(5) by (auto simp: iarray_reduce_multi_def iarray_reduce_multi_with_def)
  show ?thesis
  proof (cases "needs_mean func")
    case True
    then show ?thesis using oneshot_needs_mean [OF assms(1-4)] unfolding m by blast
  next
    case False
    then show ?thesis using oneshot_no_mean [OF assms(1-4,6)] unfolding m fibre_means_def by auto
  qed
qed

text \<open>
  Claim C2. Reducing several dimensions at once: for distinct axes of an array that is not a view, an exact library and a
  result in memory whose chunks and blocks fit, the call succeeds; the result has the type of the table, the shape
  without the reduced dimensions and the chunks and blocks that were asked for. Its item at an index is the function of
  the table over all items of the array whose index agrees on the kept dimensions, each of them taken once however the
  array is cut; a variance or deviation uses the mean of the same items, reduced by the same code before. Only the
  median needs chunks and blocks without padding.
\<close>

theorem reduce_oneshot_correct:
  fixes a :: "'d container" and env :: "('d, 'k) reduce_env"
  assumes "multi_request a axis st" "stores (re_api env) a A" "exact_library env" "oneshot_table func (dtype (dtshape a)) = Inr (f, out)"
    and "needs_mean func \<or> correction = Fin 0"
    and "func = IARRAY_REDUCE_MEDIAN \<longrightarrow> unpadded (keep_dims (axis_flags axis) (ndim (dtshape a)) (ns_of a))
        (keep_dims (axis_flags axis) (ndim (dtshape a)) (cs_of a)) (keep_dims (axis_flags axis) (ndim (dtshape a)) (bs_of a))"
  shows "\<exists>b. iarray_reduce_multi env a func axis st True correction = Inr b \<and>
    reduced_to env a axis out (take (ndim (dtshape a) - length axis) (chunkshape st)) (take (ndim (dtshape a) - length axis) (blockshape st))
      (fibre_reduced f a axis correction (fibre_means func a axis A) A) b \<and>
    (\<forall>ix. in_box (ns_of b) ix \<longrightarrow> distinct (fibre_order (axis_flags axis) (ns_of a) (cs_of a) (bs_of a) ix) \<and>
       set (fibre_order (axis_flags axis) (ns_of a) (cs_of a) (bs_of a) ix) =
         {z. in_box (ns_of a) z \<and> keep_dims (axis_flags axis) (ndim (dtshape a)) z = ix})"
proof -
  note p = request_parts(1) [OF assms(1) refl]
  obtain b where b: "iarray_reduce_multi env a func axis st True correction = Inr b"
    "reduced_to env a axis out (take (ndim (dtshape a) - length axis) (chunkshape st)) (take (ndim (dtshape a) - length axis) (blockshape st))
      (fibre_reduced f a axis correction (fibre_means func a axis A) A) b"
    using reduce_oneshot_fibres [OF assms] by blast
  have "ns_of b = keep_dims (axis_flags axis) (ndim (dtshape a)) (ns_of a)" using b(2) by (simp add: reduced_to_def)
  then show ?thesis
    using b fibre_order_once [OF plain_nested [OF p], of "axis_flags axis"] plain_slots(5) [OF p] by auto
qed

definition plain_env :: "(ina_val list list, ina_val list) reduce_env" where
  "plain_env = \<lparr> re_api = plain_api, re_torn = (\<lambda>_ _. VInt 0), re_fresh = (\<lambda>_ _ _. empty_cell), re_zfp = (\<lambda>_. 33),
     re_defaults = blosc2_cparams_example, re_cfg = IARRAY_CONFIG_DEFAULTS,
     re_copy = \<lparr> ca_empty = plain_create, ca_copy = plain_copy, ca_get_slice_buffer = (\<lambda>_ _ _ _. Inl INA_ERR_FAILED),
       ca_set_slice_buffer = (\<lambda>_ _ _ _ _. Inl INA_ERR_FAILED), ca_omatcopy = (\<lambda>_ _ xs. xs), ca_overhead = 32 \<rparr>,
     re_buffer = [], re_access = (\<lambda>_. False), re_remove = (\<lambda>_. True), re_rename = (\<lambda>_ _. True), re_open = (\<lambda>_ c. Inr c) \<rparr>"

lemma plain_env_exact: "exact_library plain_env"
  using plain_create_specs plain_exact plain_copy_spec by (simp add: exact_library_def plain_env_def)

definition block_storage :: iarray_storage where
  "block_storage = \<lparr> urlpath = None, contiguous = True, chunkshape = [2, 0, 0, 0, 0, 0, 0, 0], blockshape = [2, 0, 0, 0, 0, 0, 0, 0] \<rparr>"

lemma small_matrix_multi: "multi_request small_matrix [1] block_storage"
proof -
  have "keep_dims (axis_flags [1]) 2 [2, 3 :: int] = [2]" by code_simp
  moreover have "length (kept (axis_flags [1]) 2) = 1" by code_simp
  moreover have "container_viewed small_matrix = None" by (simp add: small_matrix_def)
  ultimately show ?thesis
    by (simp add: multi_request_def small_matrix_plain small_matrix_parts block_storage_def nested_def)
qed

text \<open>The sample variances of the rows, in one chunk.\<close>

theorem reduce_oneshot_correct_witness:
  "\<exists>b. iarray_reduce_multi plain_env small_matrix IARRAY_REDUCE_VAR [1] block_storage True (Fin 1) = Inr b \<and>
    cs_of b = [2] \<and> stores plain_api b (fibre_reduced (VAR_fn IARRAY_DATA_TYPE_DOUBLE False) small_matrix [1] (Fin 1)
      (fibre_means IARRAY_REDUCE_VAR small_matrix [1] small_entry) small_entry) \<and>
    fibre_reduced (VAR_fn IARRAY_DATA_TYPE_DOUBLE False) small_matrix [1] (Fin 1)
      (fibre_means IARRAY_REDUCE_VAR small_matrix [1] small_entry) small_entry [1] = VFp (Fin 1)"
proof -
  have t: "oneshot_table IARRAY_REDUCE_VAR (dtype (dtshape small_matrix)) = Inr (VAR_fn IARRAY_DATA_TYPE_DOUBLE False, IARRAY_DATA_TYPE_DOUBLE)"
    by (simp add: oneshot_table_def small_matrix_parts var_table_def table_entry_def known_dtype_def real_dtype_def)
  have v: "fibre_reduced (VAR_fn IARRAY_DATA_TYPE_DOUBLE False) small_matrix [1] (Fin 1)
      (fibre_means IARRAY_REDUCE_VAR small_matrix [1] small_entry) small_entry [1] = VFp (Fin 1)"
    by code_simp
  have "stores (re_api plain_env) small_matrix small_entry" using small_matrix_stores by (simp add: plain_env_def)
  from reduce_oneshot_correct [OF small_matrix_multi this plain_env_exact t, of "Fin 1"] v show ?thesis
    by (auto simp: needs_mean_def reduced_to_def small_matrix_parts block_storage_def plain_env_def)
qed

end
