(* ===== verification/ReduceAxes.thy ===== *)
theory ReduceAxes
  imports ReduceMulti "HOL-Library.Multiset"
begin

text \<open>
  The reduction of one dimension after the other by \<open>iarray_reduce_multi\<close>, and its agreement with the one-shot algorithm
  for the sums, products, maxima and minima of integers.
\<close>

section \<open>One dimension after the other\<close>

text \<open>Without a dimension the later axes have other numbers.\<close>

definition renumber :: "nat \<Rightarrow> nat list \<Rightarrow> nat list" where
  "renumber k ks = map (\<lambda>j. if j > k then j - 1 else j) ks"

lemma length_renumber [simp]: "length (renumber k ks) = length ks"
  by (simp add: renumber_def)

fun drop_dims :: "nat list \<Rightarrow> 'a list \<Rightarrow> 'a list" where
  "drop_dims [] xs = xs"
| "drop_dims (k # ks) xs = drop_dims (renumber k ks) (del k xs)"

declare drop_dims.simps(2) [simp del]

lemma renumber_range:
  assumes "distinct (k # ks)" "set (k # ks) \<subseteq> {..<n}"
  shows "distinct (renumber k ks)" "set (renumber k ks) \<subseteq> {..<n - 1}"
proof -
  have "inj_on (\<lambda>j. if j > k then j - 1 else j) (set ks)"
  proof (rule inj_onI)
    fix x y assume "x \<in> set ks" "y \<in> set ks" and e: "(if x > k then x - 1 else x) = (if y > k then y - 1 else y)"
    then have "x \<noteq> k" "y \<noteq> k" using assms(1) by auto
    then show "x = y" using e by (cases "x > k"; cases "y > k") auto
  qed
  then show "distinct (renumber k ks)" using assms(1) by (simp add: renumber_def distinct_map)
  show "set (renumber k ks) \<subseteq> {..<n - 1}"
  proof
    fix i assume "i \<in> set (renumber k ks)"
    then obtain j where "j \<in> set ks" "i = (if j > k then j - 1 else j)" by (auto simp: renumber_def)
    then show "i \<in> {..<n - 1}" using assms by (cases "j = k") auto
  qed
qed

lemma nths_cong: "(\<And>i. i < length xs \<Longrightarrow> i \<in> A \<longleftrightarrow> i \<in> B) \<Longrightarrow> nths xs A = nths xs B"
  unfolding nths_def by (intro arg_cong [where f = "map fst"] filter_cong) (auto simp: set_zip)

lemma del_nths: "k < length xs \<Longrightarrow> del k xs = nths xs (- {k})"
proof -
  assume k: "k < length xs"
  have "nths xs (- {k}) = nths (take k xs @ xs ! k # drop (Suc k) xs) (- {k})" using k by (simp add: id_take_nth_drop [symmetric])
  also have "\<dots> = nths (take k xs) (- {k}) @ nths (drop (Suc k) xs) {j. j + Suc k \<noteq> k}"
    using k by (simp add: nths_append nths_Cons min_absorb2)
  also have "nths (take k xs) (- {k}) = nths (take k xs) UNIV" using k by (intro nths_cong) auto
  finally show ?thesis by (simp add: del_def nths_all)
qed

lemma drop_dims_nths:
  assumes "distinct ks" "set ks \<subseteq> {..<length xs}"
  shows "drop_dims ks xs = nths xs (- set ks)"
  using assms
proof (induction "length ks" arbitrary: ks xs)
  case 0
  then show ?case by (simp add: nths_all)
next
  case (Suc m)
  then obtain k js where ks: "ks = k # js" by (cases ks) auto
  have k: "k < length xs" "k \<notin> set js" using Suc.prems ks by simp_all
  note r = renumber_range [of k js "length xs", folded ks, OF Suc.prems]
  have "drop_dims ks xs = nths (del k xs) (- set (renumber k js))"
    using Suc.hyps(1) [of "renumber k js" "del k xs"] Suc.hyps(2) r k ks by (simp add: drop_dims.simps)
  also have "\<dots> = nths xs {i \<in> - {k}. \<exists>j \<in> - set (renumber k js). card {i' \<in> - {k}. i' < i} = j}"
    unfolding del_nths [OF k(1)] nths_nths by simp
  also have "{i \<in> - {k}. \<exists>j \<in> - set (renumber k js). card {i' \<in> - {k}. i' < i} = j} = - set ks"
  proof (intro set_eqI)
    fix i
    have "{i'. i' \<noteq> k \<and> i' < i} = {..<i} - {k}" by auto
    then have c: "card {i'. i' \<noteq> k \<and> i' < i} = (if i > k then i - 1 else i)" by (simp add: card_Diff_singleton_if)
    have "(if i > k then i - 1 else i) \<in> set (renumber k js) \<longleftrightarrow> i \<in> set js" if "i \<noteq> k"
    proof
      assume "(if i > k then i - 1 else i) \<in> set (renumber k js)"
      then obtain j where "j \<in> set js" "(if i > k then i - 1 else i) = (if j > k then j - 1 else j)" by (auto simp: renumber_def)
      moreover have "j \<noteq> k" using \<open>j \<in> set js\<close> k by auto
      ultimately have "i = j" using that by (auto split: if_splits)
      then show "i \<in> set js" using \<open>j \<in> set js\<close> by simp
    qed (force simp: renumber_def)
    then show "i \<in> {i \<in> - {k}. \<exists>j \<in> - set (renumber k js). card {i' \<in> - {k}. i' < i} = j} \<longleftrightarrow> i \<in> - set ks"
      unfolding ks by (auto simp: c)
  qed
  finally show ?case .
qed

lemma keep_dims_nths: "keep_dims red (length xs) xs = nths xs {i. \<not> red ! i}"
proof -
  have z: "zip xs [0..<length xs] = map (\<lambda>i. (xs ! i, i)) [0..<length xs]" by (rule nth_equalityI) simp_all
  show ?thesis unfolding nths_def keep_dims_def kept_def z by (simp add: filter_map comp_def)
qed

lemma drop_dims_keep:
  assumes "distinct ks" "set ks \<subseteq> {..<length xs}" "length xs \<le> 8"
  shows "drop_dims ks xs = keep_dims (axis_flags ks) (length xs) xs"
  unfolding drop_dims_nths [OF assms(1,2)] keep_dims_nths
  using assms(3) by (intro nths_cong) (auto simp: axis_flags_nth)

text \<open>The result of all steps: its type and the array.\<close>

fun axes_reduced ::
    "iarray_reduce_func \<Rightarrow> nat list \<Rightarrow> iarray_data_type \<Rightarrow> int list \<Rightarrow> (int list \<Rightarrow> ina_val) \<Rightarrow>
     (iarray_data_type \<times> (int list \<Rightarrow> ina_val)) res" where
  "axes_reduced func [] d ns A = Inr (d, A)"
| "axes_reduced func (k # ks) d ns A =
     res_bind (reduce_table func d) (\<lambda>(f, out). axes_reduced func (renumber k ks) out (del k ns) (reduced f (ns ! k) k A))"

text \<open>What the loop needs of the storage it writes the shapes into.\<close>

definition loop_storage :: "iarray_storage \<Rightarrow> bool" where
  "loop_storage st \<longleftrightarrow> urlpath st = None \<and> length (chunkshape st) = 8 \<and> length (blockshape st) = 8"

lemma drop_axis_request:
  assumes "plain_container a" "k < ndim (dtshape a)" "loop_storage st"
  shows "reduce_request a k (drop_axis_storage k a st)" "loop_storage (drop_axis_storage k a st)"
proof -
  let ?n = "ndim (dtshape a)"
  note l = plain_slots [OF assms(1)]
  have len: "?n \<le> length (chunkshape (storage a))" "?n \<le> length (blockshape (storage a))"
    using assms(1) by (auto simp: plain_container_def good_request_def)
  have t: "take (?n - 1) (set_prefix ?n (\<lambda>j. if j < k then xs ! j else xs ! (j + 1)) ys) = del k (take ?n xs)"
    if "?n \<le> length xs" "length ys = 8" for xs ys :: "int list"
    using that assms(2) l(2) by (intro nth_equalityI) (auto simp: set_prefix_nth del_nth)
  show "loop_storage (drop_axis_storage k a st)" using assms(3) by (simp add: loop_storage_def drop_axis_storage_def Let_def)
  then show "reduce_request a k (drop_axis_storage k a st)"
    using assms l(2) t [OF len(1), of "chunkshape st"] t [OF len(2), of "blockshape st"]
    by (simp add: reduce_request_def loop_storage_def drop_axis_storage_def Let_def cs_of_def bs_of_def)
qed

lemma multi_loop_reduced:
  fixes a :: "'d container" and env :: "('d, 'k) reduce_env"
  assumes "plain_container a" "container_viewed a = None" "stores (re_api env) a A" "exact_library env"
    and "distinct ks" "set ks \<subseteq> {..<ndim (dtshape a)}" "loop_storage st_red" "urlpath st = None"
    and "func \<in> {IARRAY_REDUCE_ALL, IARRAY_REDUCE_ANY} \<longrightarrow> itemsize_of (dtype (dtshape a)) = 1"
    and "axes_reduced func ks (dtype (dtshape a)) (ns_of a) A = Inr (d, R)"
  shows "\<exists>b. multi_loop env func st i ks (a, st_red) = Inr b \<and> plain_container b \<and> container_viewed b = None \<and>
    dtype (dtshape b) = d \<and> ns_of b = drop_dims ks (ns_of a) \<and> stores (re_api env) b R"
  using assms
proof (induction "length ks" arbitrary: ks a A i st_red)
  case 0
  then show ?case by simp
next
  case (Suc m)
  then obtain k js where ks: "ks = k # js" by (cases ks) auto
  have lib: "caterva_create_spec (ca_empty (re_copy env))" "schunk_spec (get_lazychunk (re_api env)) (update_chunk (re_api env)) (ca_empty (re_copy env))"
    "\<And>ts bs. blosc_exact (re_api env) (iarray_create_blosc_cparams (re_zfp env) (re_defaults env) (re_cfg env) ts bs)"
    using Suc.prems(4) unfolding exact_library_def by blast+
  obtain f out where t: "reduce_table func (dtype (dtshape a)) = Inr (f, out)"
    "axes_reduced func (renumber k js) out (del k (ns_of a)) (reduced f (ns_of a ! k) k A) = Inr (d, R)"
    using Suc.prems(10) ks by (auto simp: res_bind_eq_Inr_iff)
  have k: "k < ndim (dtshape a)" using Suc.prems(6) ks by simp
  note r = drop_axis_request [OF Suc.prems(1) k Suc.prems(7)]
  note n = plain_slots(3) [OF Suc.prems(1)]
  obtain c where c: "iarray_reduce1 (re_api env) (re_torn env) (re_fresh env) (re_zfp env) (re_defaults env) (re_cfg env) (ca_empty (re_copy env))
        a func k (drop_axis_storage k a st_red) = Inr c" "plain_container c" "dtype (dtshape c) = out" "ns_of c = del k (ns_of a)"
      "container_viewed c = None" "stores (re_api env) c (reduced f (ns_of a ! k) k A)"
    using reduce1_stores [OF t(1) Suc.prems(9) r(1) Suc.prems(3) lib] by blast
  have nc: "ndim (dtshape c) = ndim (dtshape a) - 1" using c(4) plain_slots(3) [OF c(2)] n k by simp
  note rr = renumber_range [of k js "ndim (dtshape a)", folded ks, OF Suc.prems(5,6)]
  have "out = IARRAY_DATA_TYPE_BOOL" if "func \<in> {IARRAY_REDUCE_ALL, IARRAY_REDUCE_ANY}"
    using t(1) that by (auto simp: reduce_table_def all_table_def any_table_def table_entry_def split: if_splits)
  then have sz: "func \<in> {IARRAY_REDUCE_ALL, IARRAY_REDUCE_ANY} \<longrightarrow> itemsize_of (dtype (dtshape c)) = 1"
    using c(3) by (auto simp: itemsize_of_def iarray_set_dtype_size.simps)
  have ih: "\<exists>b. multi_loop env func st (i + 1) (renumber k js) (c, drop_axis_storage k a st_red) = Inr b \<and> plain_container b \<and>
    container_viewed b = None \<and> dtype (dtshape b) = d \<and> ns_of b = drop_dims (renumber k js) (ns_of c) \<and> stores (re_api env) b R"
    using Suc.hyps(1) [of "renumber k js" c "reduced f (ns_of a ! k) k A" "drop_axis_storage k a st_red" "i + 1"] Suc.hyps(2)
      c(2,3,5,6) Suc.prems(4,8) rr nc r(2) sz t(2) c(4) ks by simp
  have "multi_loop env func st i ks (a, st_red) = multi_loop env func st (i + 1) (renumber k js) (c, drop_axis_storage k a st_red)"
    unfolding ks using Suc.prems(8) c(1) by (simp add: Let_def renumber_def)
  then show ?case using ih c(4) ks by (simp add: drop_dims.simps)
qed

lemma multi_axes_distinct:
  assumes "distinct axis" "set axis \<subseteq> {..<n}" "\<And>k. k \<in> set axis \<Longrightarrow> \<not> used ! k"
  shows "multi_axes n used acc axis = Inr (acc @ axis)"
  using assms
proof (induction axis arbitrary: used acc)
  case (Cons k ks)
  then have "\<not> used[k := True] ! j" if "j \<in> set ks" for j
    using that by (cases "j = k") simp_all
  then show ?case using Cons by (simp add: less_imp_le)
qed simp

lemma reduce_axes_steps:
  fixes a :: "'d container" and env :: "('d, 'k) reduce_env"
  assumes "multi_request a axis st" "axis \<noteq> []" "stores (re_api env) a A" "exact_library env"
    and "func \<in> {IARRAY_REDUCE_ALL, IARRAY_REDUCE_ANY} \<longrightarrow> itemsize_of (dtype (dtshape a)) = 1"
    and "axes_reduced func axis (dtype (dtshape a)) (ns_of a) A = Inr (d, R)"
  shows "\<exists>b. iarray_reduce_multi env a func axis st False (Fin 0) = Inr b \<and>
    reduced_to env a axis d (take (ndim (dtshape a) - length axis) (chunkshape st)) (take (ndim (dtshape a) - length axis) (blockshape st)) R b"
proof -
  let ?n = "ndim (dtshape a)"
  let ?red = "\<lparr> urlpath = None, contiguous = contiguous st, chunkshape = fresh_slots, blockshape = fresh_slots \<rparr>"
  note r = request_parts [OF assms(1) refl] and l = plain_slots [OF request_parts(1) [OF assms(1) refl]]
  have lr: "loop_storage ?red" by (simp add: loop_storage_def IARRAY_DIMENSION_MAX_def)
  obtain c where c: "multi_loop env func st 0 axis (a, ?red) = Inr c" "plain_container c" "container_viewed c = None"
    "dtype (dtshape c) = d" "ns_of c = drop_dims axis (ns_of a)" "stores (re_api env) c R"
    using multi_loop_reduced [OF r(1,2) assms(3,4) r(4,5) lr r(8) assms(5,6), of 0] by blast
  have ns: "ns_of c = keep_dims (axis_flags axis) ?n (ns_of a)"
    using drop_dims_keep [of axis "ns_of a"] r(4,5) l(2,3) c(5) by simp
  then have m: "ndim (dtshape c) = ?n - length axis" using plain_slots(3) [OF c(2)] r(7) by simp
  have "good_request (dtshape c) st"
    using assms(1) ns m plain_slots(7) [OF c(2)] plain_slots(9) [OF c(2)] c(2)
    by (simp add: good_request_def multi_request_def Let_def plain_container_def)
  from finish_in_memory [OF c(2,3,6) this assms(4) r(8), of "length axis > 1"] obtain b where
    "finish_reduction env (length axis > 1) st c = Inr b" "plain_container b" "container_viewed b = None" "dtshape b = dtshape c"
    "ns_of b = ns_of c" "cs_of b = take (ndim (dtshape c)) (chunkshape st)" "bs_of b = take (ndim (dtshape c)) (blockshape st)"
    "stores (re_api env) b R" by blast
  moreover have "multi_axes ?n (replicate IARRAY_DIMENSION_MAX False) [] axis = Inr axis"
    using r(4,5) l(2) by (subst multi_axes_distinct) (auto simp: IARRAY_DIMENSION_MAX_def)
  moreover have "\<not> needs_mean func" "func \<notin> {IARRAY_REDUCE_MEDIAN, IARRAY_REDUCE_NAN_MEDIAN, IARRAY_REDUCE_NAN_MEAN}"
    using assms(2,6) by (cases axis; cases func; auto simp: needs_mean_def reduce_table_def)+
  ultimately show ?thesis
    using c(1,4) r assms(2) m ns
    by (simp add: iarray_reduce_multi_def iarray_reduce_multi_with_def reduced_to_def Let_def)
qed

text \<open>
  Claim C3. Reducing several dimensions one after the other: for distinct axes of an array that is not a view, an exact
  library and a result in memory whose chunks and blocks fit, the call succeeds and the result stores what the steps
  give, each the reduction of the lines of the array before in the type that the table has for it; the axes that are
  left are numbered anew after each step.
\<close>

theorem reduce_axes_correct:
  fixes a :: "'d container" and env :: "('d, 'k) reduce_env"
  assumes "multi_request a axis st" "axis \<noteq> []" "stores (re_api env) a A" "exact_library env"
    and "func \<in> {IARRAY_REDUCE_ALL, IARRAY_REDUCE_ANY} \<longrightarrow> itemsize_of (dtype (dtshape a)) = 1"
    and "axes_reduced func axis (dtype (dtshape a)) (ns_of a) A = Inr (d, R)"
  shows "\<exists>b. iarray_reduce_multi env a func axis st False (Fin 0) = Inr b \<and>
    reduced_to env a axis d (take (ndim (dtshape a) - length axis) (chunkshape st)) (take (ndim (dtshape a) - length axis) (blockshape st)) R b"
  using reduce_axes_steps [OF assms] .

section \<open>Agreement of the two algorithms\<close>

text \<open>
  An operation on integers that may take its arguments in any order, and results of parts in place of their items.
\<close>

locale mergeable =
  fixes g :: "int \<Rightarrow> int \<Rightarrow> int" and e :: int
  assumes commutes: "g x (g y s) = g y (g x s)"
    and merge: "g (fold g ys e) (fold g xs e) = fold g ys (fold g xs e)"
begin

lemma fold_mset_eq: "mset xs = mset ys \<Longrightarrow> fold g xs e = fold g ys e"
  using fold_multiset_equiv [of xs g ys] commutes by (simp add: comp_def)

lemma fold_of_folds: "fold g (map (\<lambda>w. fold g (L w) e) ws) e = fold g (concat (map L ws)) e"
proof (induction ws rule: rev_induct)
  case (snoc w ws)
  then show ?case by (simp add: merge)
qed simp

end

text \<open>Sums and products that wrap around.\<close>

locale wrapping =
  fixes W :: "int \<Rightarrow> int" and m :: "int \<Rightarrow> int \<Rightarrow> int" and e :: int
  assumes wrap: "W (m (W a) b) = W (m a b)" and comm: "m a b = m b a" and assoc: "m (m a b) c = m a (m b c)"
    and neutral: "m a e = a" and unit: "W e = e"
begin

lemma wrap_twice: "W (W a) = W a"
  using wrap [of a e] by (simp add: neutral)

lemma fold_wrap: "W s = s \<Longrightarrow> fold (\<lambda>x s. W (m s x)) xs s = W (m s (fold m xs e))"
proof (induction xs arbitrary: s)
  case (Cons x xs)
  have f: "m a (fold m xs (m x c)) = m (m a x) (fold m xs c)" for a c
  proof (induction xs arbitrary: c)
    case (Cons y ys)
    have "m y (m x c) = m x (m y c)" using assoc comm by metis
    then show ?case using Cons by simp
  qed (simp add: assoc)
  show ?case using Cons.IH [of "W (m s x)"] Cons.prems f [of s e] by (simp add: wrap_twice wrap)
qed (simp add: neutral)

end

sublocale wrapping \<subseteq> mergeable "\<lambda>x s. W (m s x)" e
proof
  show "W (m (W (m s y)) x) = W (m (W (m s x)) y)" for x y s
    unfolding wrap using assoc comm by metis
  fix xs ys :: "int list"
  let ?S = "fold (\<lambda>x s. W (m s x)) xs e"
  have S: "W ?S = ?S" unfolding fold_wrap [OF unit] by (rule wrap_twice)
  have "W (m ?S (fold (\<lambda>x s. W (m s x)) ys e)) = W (m ?S (W (fold m ys e)))"
    unfolding fold_wrap [OF unit, of ys] by (simp add: comm [of e] neutral)
  also have "\<dots> = W (m ?S (fold m ys e))" by (simp add: comm [of ?S] wrap)
  finally show "W (m ?S (fold (\<lambda>x s. W (m s x)) ys e)) = fold (\<lambda>x s. W (m s x)) ys ?S"
    unfolding fold_wrap [OF S] .
qed

lemma wrap_eq: "x mod 2 ^ w = y mod 2 ^ w \<Longrightarrow> wrap_signed w x = wrap_signed w y"
  unfolding wrap_signed_def using mod_add_cong [of x "2 ^ w" y] by metis

lemma wrap_operand: "wrap_signed w (wrap_signed w a + b) = wrap_signed w (a + b)" "wrap_signed w (wrap_signed w a * b) = wrap_signed w (a * b)"
  by (intro wrap_eq mod_add_cong mod_mult_cong wrap_cong refl)+

interpretation sum_signed: wrapping "wrap_signed 64" "(+)" 0
  by unfold_locales (simp_all add: wrap_operand, simp add: wrap_signed_def)

interpretation sum_unsigned: wrapping "wrap_unsigned 64" "(+)" 0
  by unfold_locales (simp_all add: wrap_unsigned_def mod_simps)

interpretation prod_signed: wrapping "wrap_signed 64" "(*)" 1
  by unfold_locales (simp_all add: wrap_operand, simp add: wrap_signed_def)

interpretation prod_unsigned: wrapping "wrap_unsigned 64" "(*)" 1
  by unfold_locales (simp_all add: wrap_unsigned_def mod_simps)

interpretation maxima: mergeable "\<lambda>x s. if s < x then x else s" e for e
proof
  fix xs ys :: "int list"
  have le: "s \<le> fold (\<lambda>x s. if s < x then x else s) xs s" for xs :: "int list" and s
    by (induction xs arbitrary: s) (auto, (meson dual_order.strict_trans1 less_imp_le order_trans)+)
  have m: "fold (\<lambda>x s. if s < x then x else s) ys s = max s (fold (\<lambda>x s. if s < x then x else s) ys e)" if "e \<le> s" for s
    using that
  proof (induction ys rule: rev_induct)
    case (snoc y ys)
    then show ?case by (auto simp: max_def)
  qed (simp add: max_def)
  show "(if fold (\<lambda>x s. if s < x then x else s) xs e < fold (\<lambda>x s. if s < x then x else s) ys e then fold (\<lambda>x s. if s < x then x else s) ys e
      else fold (\<lambda>x s. if s < x then x else s) xs e) = fold (\<lambda>x s. if s < x then x else s) ys (fold (\<lambda>x s. if s < x then x else s) xs e)"
    using m [OF le [of e xs]] by (simp add: max_def)
qed auto

interpretation minima: mergeable "\<lambda>x s. if x < s then x else s" e for e
proof
  fix xs ys :: "int list"
  have le: "fold (\<lambda>x s. if x < s then x else s) xs s \<le> s" for xs :: "int list" and s
    by (induction xs arbitrary: s) (auto, (meson dual_order.strict_trans1 less_imp_le order_trans)+)
  have m: "fold (\<lambda>x s. if x < s then x else s) ys s = min s (fold (\<lambda>x s. if x < s then x else s) ys e)" if "s \<le> e" for s
    using that
  proof (induction ys rule: rev_induct)
    case (snoc y ys)
    then show ?case by (auto simp: min_def)
  qed (simp add: min_def)
  show "(if fold (\<lambda>x s. if x < s then x else s) ys e < fold (\<lambda>x s. if x < s then x else s) xs e then fold (\<lambda>x s. if x < s then x else s) ys e
      else fold (\<lambda>x s. if x < s then x else s) xs e) = fold (\<lambda>x s. if x < s then x else s) ys (fold (\<lambda>x s. if x < s then x else s) xs e)"
    using m [OF le [of xs e]] by (simp add: min_def)
qed auto

text \<open>The step and the start of the reduction of integers of type \<open>d\<close>.\<close>

definition int_step :: "iarray_reduce_func \<Rightarrow> iarray_data_type \<Rightarrow> int \<Rightarrow> int \<Rightarrow> int" where
  "int_step func d x s = (case func of IARRAY_REDUCE_SUM \<Rightarrow> int_to_dtype (wide_dtype d) (s + x)
     | IARRAY_REDUCE_PROD \<Rightarrow> int_to_dtype (wide_dtype d) (s * x)
     | IARRAY_REDUCE_MAX \<Rightarrow> if s < x then x else s | _ \<Rightarrow> if x < s then x else s)"

definition int_start :: "iarray_reduce_func \<Rightarrow> iarray_data_type \<Rightarrow> int" where
  "int_start func d = (case func of IARRAY_REDUCE_SUM \<Rightarrow> 0 | IARRAY_REDUCE_PROD \<Rightarrow> 1
     | IARRAY_REDUCE_MAX \<Rightarrow> to_int (lowest d) | _ \<Rightarrow> to_int (highest d))"

definition merging :: "iarray_reduce_func \<Rightarrow> iarray_data_type \<Rightarrow> bool" where
  "merging func d \<longleftrightarrow> func \<in> {IARRAY_REDUCE_SUM, IARRAY_REDUCE_PROD, IARRAY_REDUCE_MAX, IARRAY_REDUCE_MIN} \<and>
     \<not> is_fp d \<and> d \<noteq> IARRAY_DATA_TYPE_MAX"

lemma int_to_wide: "merging func d \<Longrightarrow> int_to_dtype (wide_dtype d) = (if is_unsigned_dtype d then wrap_unsigned 64 else wrap_signed 64)"
  by (cases d) (auto simp: merging_def wide_dtype_def is_fp_def is_unsigned_dtype_def is_signed_dtype_def int_to_dtype_def fun_eq_iff)

lemma step_mergeable:
  assumes "merging func d"
  shows "mergeable (int_step func d) (int_start func d)"
proof -
  have f: "func = IARRAY_REDUCE_SUM \<or> func = IARRAY_REDUCE_PROD \<or> func = IARRAY_REDUCE_MAX \<or> func = IARRAY_REDUCE_MIN"
    using assms by (auto simp: merging_def)
  note w = int_to_wide [OF assms]
  show ?thesis
    using f sum_signed.mergeable_axioms sum_unsigned.mergeable_axioms prod_signed.mergeable_axioms prod_unsigned.mergeable_axioms
      maxima.mergeable_axioms minima.mergeable_axioms
    by (auto simp: int_step_def [abs_def] int_start_def w)
qed

text \<open>The type of the result merges with itself.\<close>

lemma merging_table:
  assumes "merging func d" "reduce_table func d = Inr (f, out)"
  shows "merging func out" "int_step func out = int_step func d" "int_start func out = int_start func d"
  using assms by (auto simp: merging_def reduce_table_def reduce_tables table_entry_def wide_dtype_def is_fp_def is_unsigned_dtype_def
      int_step_def [abs_def] int_start_def split: if_splits)

lemma merging_tables: "merging func d \<Longrightarrow> \<exists>f g out. reduce_table func d = Inr (f, out) \<and> oneshot_table func d = Inr (g, out)"
  by (auto simp: merging_def reduce_table_def oneshot_table_def reduce_tables oneshot_tables table_entry_def known_dtype_def)

text \<open>A line, and a fibre.\<close>

lemma foldl_ints:
  assumes "\<And>s x. step (VInt s) (VInt x) = VInt (g x s)"
  shows "foldl step (VInt s) (map (\<lambda>z. VInt (V z)) zs) = VInt (fold g (map V zs) s)"
  using assms by (induction zs arbitrary: s) simp_all

lemmas int_folds = SUM_R_def PROD_R_def MAX_R_def MIN_R_def

lemma nth_all: "length xs = n \<Longrightarrow> map ((!) xs) [0..<n] = xs"
  by (auto intro: nth_equalityI)

lemma int_line:
  assumes "merging func d" "reduce_table func d = Inr (f, out)"
  shows "reduced f len k (\<lambda>ix. VInt (V ix)) = (\<lambda>ix. VInt (fold (int_step func d) (map (\<lambda>z. V (ins k z ix)) (below len)) (int_start func d)))"
  using assms
  by (auto simp: reduced_def reduce_line_def take_vector_def reduce_table_def reduce_tables table_entry_def reduce_fns on_vector_def set_res_def
      no_finish_def nth_all merging_def int_folds int_start_def lowest_def highest_def c_zero_def c_one_def wide_dtype_def is_fp_def
      fun_eq_iff int_step_def [abs_def] c_add_def c_mul_def split: if_splits intro!: foldl_ints)

lemma item_steps:
  assumes "\<And>s x. step (VInt s) (VInt x) = VInt (g x s)"
  shows "c_res (foldl (take_item \<lparr> rf_init = i, rf_reduction = on_item step, rf_finish = e \<rparr> u) (c\<lparr>c_res := VInt s\<rparr>) (map (\<lambda>z. VInt (V z)) zs)) =
    VInt (fold g (map V zs) s)"
proof -
  have "c_res (foldl (take_item \<lparr> rf_init = i, rf_reduction = on_item step, rf_finish = e \<rparr> u) c xs) = foldl step (c_res c) xs" for c xs
    by (induction xs arbitrary: c) (simp_all add: take_item_def on_item_def set_res_def)
  then show ?thesis using foldl_ints [of step g, OF assms] by simp
qed

lemmas int_items = oneshotSUM_R_def oneshotPROD_R_def oneshotMAX_R_def oneshotMIN_R_def

lemma int_fibre:
  assumes "merging func d" "oneshot_table func d = Inr (f, out)"
  shows "oneshot_value f u m (map (\<lambda>ix. VInt (V ix)) zs) c = VInt (fold (int_step func d) (map V zs) (int_start func d))"
  using assms
  by (auto simp: oneshot_value_def oneshot_cell_def take_items_def oneshot_table_def oneshot_tables reduce_tables table_entry_def
      reduce_fns set_res_def no_finish_def merging_def int_items int_start_def lowest_def highest_def c_zero_def c_one_def wide_dtype_def
      is_fp_def int_step_def [abs_def] c_add_def c_mul_def split: if_splits intro!: item_steps)

text \<open>The fibres of the next step, put together from lines.\<close>

lemma lines_of_fibre:
  assumes "k < length ns" "distinct L" "set L = {w. in_box (del k ns) w \<and> drop_dims (renumber k js) w = ix}"
  defines "L' \<equiv> concat (map (\<lambda>w. map (\<lambda>t. ins k t w) (below (ns ! k))) L)"
  shows "distinct L'" "set L' = {z. in_box ns z \<and> drop_dims (k # js) z = ix}"
proof -
  have len: "length w = length ns - 1" if "w \<in> set L" for w
    using that assms(1,3) by (auto dest: in_box_length)
  have e: "L' = map (\<lambda>(w, t). ins k t w) (List.product L (below (ns ! k)))"
    unfolding L'_def by (simp add: product_concat_map map_concat comp_def)
  have "inj_on (\<lambda>(w, t). ins k t w) (set (List.product L (below (ns ! k))))"
  proof (rule inj_onI)
    fix x y assume xy: "x \<in> set (List.product L (below (ns ! k)))" "y \<in> set (List.product L (below (ns ! k)))"
      "(case x of (w, t) \<Rightarrow> ins k t w) = (case y of (w, t) \<Rightarrow> ins k t w)"
    obtain v s w t where v: "x = (v, s)" "y = (w, t)" by (metis surj_pair)
    have l: "k \<le> length v" "k \<le> length w" using xy(1,2) v len assms(1) by auto
    have i: "ins k s v = ins k t w" using xy(3) v by simp
    have "v = del k (ins k s v)" "w = del k (ins k t w)" using l by simp_all
    moreover have "s = ins k s v ! k" "t = ins k t w ! k" using l by (simp_all add: ins_nth)
    ultimately show "x = y" using i v by simp
  qed
  then show "distinct L'" unfolding e using assms(2) by (simp add: distinct_map distinct_product)
  have "z \<in> set L' \<longleftrightarrow> in_box ns z \<and> drop_dims (k # js) z = ix" for z
  proof
    assume "z \<in> set L'"
    then obtain w t where w: "w \<in> set L" "0 \<le> t" "t < ns ! k" "z = ins k t w" by (auto simp: L'_def)
    then show "in_box ns z \<and> drop_dims (k # js) z = ix"
      using assms(1,3) len [OF w(1)] by (simp add: in_box_ins drop_dims.simps)
  next
    assume z: "in_box ns z \<and> drop_dims (k # js) z = ix"
    then have k: "k < length z" using assms(1) in_box_length [of ns z] by simp
    then have "in_box ns (ins k (z ! k) (del k z))" using z by simp
    then have "in_box (del k ns) (del k z)" "0 \<le> z ! k" "z ! k < ns ! k" using assms(1) by (simp_all add: in_box_ins)
    moreover have "drop_dims (renumber k js) (del k z) = ix" using z by (simp add: drop_dims.simps)
    ultimately have "del k z \<in> set L" "z ! k \<in> set (below (ns ! k))" using assms(3) by simp_all
    then have "del k z \<in> set L" "ins k (z ! k) (del k z) \<in> set (map (\<lambda>t. ins k t (del k z)) (below (ns ! k)))"
      using imageI [of "z ! k" "set (below (ns ! k))" "\<lambda>t. ins k t (del k z)"] by (simp_all only: set_map)
    then have "ins k (z ! k) (del k z) \<in> set L'" unfolding L'_def by auto
    then show "z \<in> set L'" using k by simp
  qed
  then show "set L' = {z. in_box ns z \<and> drop_dims (k # js) z = ix}" by blast
qed

lemma axes_reduced_ints:
  assumes "merging func d" "reduce_table func d = Inr (f, out)" "distinct ks" "set ks \<subseteq> {..<length ns}" "ks \<noteq> []"
  shows "\<exists>R. axes_reduced func ks d ns (\<lambda>ix. VInt (V ix)) = Inr (out, R) \<and> (\<forall>ix. in_box (drop_dims ks ns) ix \<longrightarrow>
    (\<exists>L. distinct L \<and> set L = {z. in_box ns z \<and> drop_dims ks z = ix} \<and>
      R ix = VInt (fold (int_step func d) (map V L) (int_start func d))))"
  using assms
proof (induction "length ks" arbitrary: ks d f ns V)
  case (Suc m)
  then obtain k js where ks: "ks = k # js" by (cases ks) auto
  let ?g = "int_step func d" and ?e = "int_start func d"
  let ?V = "\<lambda>ix. fold ?g (map (\<lambda>z. V (ins k z ix)) (below (ns ! k))) ?e"
  note t = merging_table [OF Suc.prems(1,2)] and line = int_line [OF Suc.prems(1,2), of "ns ! k" k V]
  have k: "k < length ns" using Suc.prems(4) ks by simp
  have out: "reduce_table func out = Inr (f', out') \<Longrightarrow> out' = out" for f' out'
    using Suc.prems(1,2) by (auto simp: merging_def reduce_table_def reduce_tables table_entry_def wide_dtype_def is_fp_def
      is_unsigned_dtype_def split: if_splits)
  have mb: "mergeable ?g ?e" by (rule step_mergeable [OF Suc.prems(1)])
  have step: "axes_reduced func ks d ns (\<lambda>ix. VInt (V ix)) = axes_reduced func (renumber k js) out (del k ns) (\<lambda>ix. VInt (?V ix))"
    using Suc.prems(2) by (simp add: ks line)
  show ?case
  proof (cases "js = []")
    case True
    have "\<exists>L. distinct L \<and> set L = {z. in_box ns z \<and> drop_dims ks z = ix} \<and> VInt (?V ix) = VInt (fold ?g (map V L) ?e)"
      if "in_box (drop_dims ks ns) ix" for ix
    proof -
      let ?L = "map (\<lambda>t. ins k t ix) (below (ns ! k))"
      have b: "in_box (del k ns) ix" using that ks True by (simp add: drop_dims.simps renumber_def)
      have "set [ix] = {w. in_box (del k ns) w \<and> drop_dims (renumber k js) w = ix}" using b True by (auto simp: renumber_def)
      from lines_of_fibre [OF k _ this] have "distinct ?L" "set ?L = {z. in_box ns z \<and> drop_dims ks z = ix}" using ks True by simp_all
      then show ?thesis by (intro exI [of _ ?L]) (simp add: comp_def)
    qed
    then show ?thesis unfolding step using True by (intro exI [of _ "\<lambda>ix. VInt (?V ix)"]) (simp add: renumber_def)
  next
    case False
    obtain f' out' where t': "reduce_table func out = Inr (f', out')" using merging_tables [OF t(1)] by blast
    note r = renumber_range [of k js "length ns", folded ks, OF Suc.prems(3,4)]
    obtain R where R: "axes_reduced func (renumber k js) out (del k ns) (\<lambda>ix. VInt (?V ix)) = Inr (out, R)"
      "\<And>ix. in_box (drop_dims (renumber k js) (del k ns)) ix \<Longrightarrow>
        \<exists>L. distinct L \<and> set L = {z. in_box (del k ns) z \<and> drop_dims (renumber k js) z = ix} \<and> R ix = VInt (fold ?g (map ?V L) ?e)"
      using Suc.hyps(1) [of "renumber k js" out f' "del k ns" ?V] Suc.hyps(2) t(1) t' out [OF t'] r k False ks
      by (auto simp: t(2,3) renumber_def)
    have "\<exists>L. distinct L \<and> set L = {z. in_box ns z \<and> drop_dims ks z = ix} \<and> R ix = VInt (fold ?g (map V L) ?e)"
      if ix: "in_box (drop_dims ks ns) ix" for ix
    proof -
      obtain L where L: "distinct L" "set L = {z. in_box (del k ns) z \<and> drop_dims (renumber k js) z = ix}" "R ix = VInt (fold ?g (map ?V L) ?e)"
        using R(2) [of ix] ix ks by (auto simp: drop_dims.simps)
      let ?L = "concat (map (\<lambda>w. map (\<lambda>t. ins k t w) (below (ns ! k))) L)"
      have "fold ?g (map ?V L) ?e = fold ?g (map V ?L) ?e"
        using mergeable.fold_of_folds [OF mb, of "\<lambda>w. map (\<lambda>z. V (ins k z w)) (below (ns ! k))" L] by (simp add: map_concat comp_def)
      then show ?thesis using lines_of_fibre [OF k L(1,2)] L(3) ks by (intro exI [of _ ?L]) simp
    qed
    then show ?thesis unfolding step using R(1) by blast
  qed
qed simp

text \<open>
  Claim C4. For sums, products, maxima and minima of integers both algorithms of \<open>iarray_reduce_multi\<close> give the same array,
  in any order of the axes and for every way the input is cut: the sums and products of 64 bits wrap around in the same
  way, whether the items are taken in one after the other or the results of lines.
\<close>

theorem reductions_agree:
  fixes a :: "'d container" and env :: "('d, 'k) reduce_env"
  assumes "multi_request a axis st" "axis \<noteq> []" "stores (re_api env) a (\<lambda>ix. VInt (V ix))" "exact_library env"
    and "func \<in> {IARRAY_REDUCE_SUM, IARRAY_REDUCE_PROD, IARRAY_REDUCE_MAX, IARRAY_REDUCE_MIN}" "\<not> is_fp (dtype (dtshape a))"
  shows "\<exists>b c out R. iarray_reduce_multi env a func axis st False (Fin 0) = Inr b \<and> iarray_reduce_multi env a func axis st True (Fin 0) = Inr c \<and>
    reduced_to env a axis out (take (ndim (dtshape a) - length axis) (chunkshape st)) (take (ndim (dtshape a) - length axis) (blockshape st)) R b \<and>
    reduced_to env a axis out (take (ndim (dtshape a) - length axis) (chunkshape st)) (take (ndim (dtshape a) - length axis) (blockshape st)) R c"
proof -
  let ?d = "dtype (dtshape a)" and ?ns = "ns_of a"
  let ?cs = "take (ndim (dtshape a) - length axis) (chunkshape st)" and ?bs = "take (ndim (dtshape a) - length axis) (blockshape st)"
  note r = request_parts [OF assms(1) refl] and l = plain_slots [OF request_parts(1) [OF assms(1) refl]]
  have mg: "merging func ?d" using assms(5,6) r(1) by (simp add: merging_def plain_container_def good_request_def)
  obtain f g out where t: "reduce_table func ?d = Inr (f, out)" "oneshot_table func ?d = Inr (g, out)"
    using merging_tables [OF mg] by blast
  have nf: "\<not> needs_mean func" "func \<noteq> IARRAY_REDUCE_MEDIAN" "func \<notin> {IARRAY_REDUCE_ALL, IARRAY_REDUCE_ANY}"
    using assms(5) by (auto simp: needs_mean_def)
  have rng: "set axis \<subseteq> {..<length ?ns}" using r(5) l(3) by simp
  obtain R where R: "axes_reduced func axis ?d ?ns (\<lambda>ix. VInt (V ix)) = Inr (out, R)"
    "\<And>ix. in_box (drop_dims axis ?ns) ix \<Longrightarrow> \<exists>L. distinct L \<and> set L = {z. in_box ?ns z \<and> drop_dims axis z = ix} \<and>
      R ix = VInt (fold (int_step func ?d) (map V L) (int_start func ?d))"
    using axes_reduced_ints [OF mg t(1) r(4) rng assms(2), of V] by blast
  let ?F = "fibre_reduced g a axis (Fin 0) (fibre_means func a axis (\<lambda>ix. VInt (V ix))) (\<lambda>ix. VInt (V ix))"
  obtain b where b: "iarray_reduce_multi env a func axis st False (Fin 0) = Inr b" "reduced_to env a axis out ?cs ?bs R b"
    using reduce_axes_steps [OF assms(1-4) _ R(1)] nf by blast
  obtain c where c: "iarray_reduce_multi env a func axis st True (Fin 0) = Inr c" "reduced_to env a axis out ?cs ?bs ?F c"
    using reduce_oneshot_fibres [OF assms(1,3,4) t(2)] nf by blast
  have keep: "drop_dims axis z = keep_dims (axis_flags axis) (ndim (dtshape a)) z" if "length z = ndim (dtshape a)" for z :: "int list"
    using drop_dims_keep [of axis z] that r(4,5) l(2) by simp
  have "R ix = ?F ix" if ix: "in_box (keep_dims (axis_flags axis) (ndim (dtshape a)) ?ns) ix" for ix
  proof -
    let ?M = "fibre_order (axis_flags axis) ?ns (cs_of a) (bs_of a) ix"
    obtain L where L: "distinct L" "set L = {z. in_box ?ns z \<and> drop_dims axis z = ix}"
      "R ix = VInt (fold (int_step func ?d) (map V L) (int_start func ?d))"
      using R(2) [of ix] ix keep [of ?ns] l(3) by auto
    have "distinct ?M" "set ?M = {z. in_box ?ns z \<and> keep_dims (axis_flags axis) (ndim (dtshape a)) z = ix}"
      using fibre_order_once [OF plain_nested [OF r(1)], of "axis_flags axis" ix] ix l(5) by simp_all
    moreover have "{z. in_box ?ns z \<and> keep_dims (axis_flags axis) (ndim (dtshape a)) z = ix} = {z. in_box ?ns z \<and> drop_dims axis z = ix}"
      using keep l(3) by (auto dest: in_box_length)
    ultimately have "mset L = mset ?M" using L by (simp add: set_eq_iff_mset_eq_distinct [symmetric])
    then have "mset (map V L) = mset (map V ?M)" by simp
    then have "fold (int_step func ?d) (map V L) (int_start func ?d) = fold (int_step func ?d) (map V ?M) (int_start func ?d)"
      by (rule mergeable.fold_mset_eq [OF step_mergeable [OF mg]])
    then show ?thesis using L(3) by (simp add: fibre_reduced_def oneshot_reduced_def int_fibre [OF mg t(2)])
  qed
  then have "stores (re_api env) c R"
    using c(2) stores_cong [of c "re_api env" ?F R] by (simp add: reduced_to_def)
  then have "reduced_to env a axis out ?cs ?bs R c" using c(2) by (simp add: reduced_to_def)
  then show ?thesis using b c(1) by blast
qed

text \<open>Both dimensions of the matrix.\<close>

lemma small_matrix_both: "multi_request small_matrix [1, 0] block_storage"
proof -
  have "kept (axis_flags [1, 0]) 2 = []" by code_simp
  moreover have "container_viewed small_matrix = None" by (simp add: small_matrix_def)
  ultimately show ?thesis
    by (auto simp: multi_request_def small_matrix_plain small_matrix_parts block_storage_def nested_def keep_dims_def)
qed

theorem reduce_axes_correct_witness:
  "\<exists>b. iarray_reduce_multi plain_env small_matrix IARRAY_REDUCE_SUM [1, 0] block_storage False (Fin 0) = Inr b \<and>
    stores plain_api b (reduced (SUM_fn IARRAY_DATA_TYPE_INT64 False False) 2 0
      (reduced (SUM_fn IARRAY_DATA_TYPE_INT64 False False) 3 1 small_entry)) \<and>
    reduced (SUM_fn IARRAY_DATA_TYPE_INT64 False False) 2 0 (reduced (SUM_fn IARRAY_DATA_TYPE_INT64 False False) 3 1 small_entry) [] = VInt 21"
proof -
  let ?R = "reduced (SUM_fn IARRAY_DATA_TYPE_INT64 False False) 2 0 (reduced (SUM_fn IARRAY_DATA_TYPE_INT64 False False) 3 1 small_entry)"
  have r: "axes_reduced IARRAY_REDUCE_SUM [1, 0] (dtype (dtshape small_matrix)) (ns_of small_matrix) small_entry = Inr (IARRAY_DATA_TYPE_INT64, ?R)"
    by (simp add: small_matrix_parts reduce_table_def sum_table_def table_entry_def known_dtype_def wide_dtype_def is_fp_def
        is_unsigned_dtype_def renumber_def del_def)
  have v: "?R [] = VInt 21" by code_simp
  have "stores (re_api plain_env) small_matrix small_entry" using small_matrix_stores by (simp add: plain_env_def)
  from reduce_axes_correct [OF small_matrix_both _ this plain_env_exact _ r] v show ?thesis
    by (auto simp: reduced_to_def plain_env_def)
qed

theorem reductions_agree_witness:
  "\<exists>b c R. iarray_reduce_multi plain_env small_matrix IARRAY_REDUCE_MAX [1, 0] block_storage False (Fin 0) = Inr b \<and>
    iarray_reduce_multi plain_env small_matrix IARRAY_REDUCE_MAX [1, 0] block_storage True (Fin 0) = Inr c \<and>
    stores plain_api b R \<and> stores plain_api c R"
proof -
  have "stores (re_api plain_env) small_matrix (\<lambda>ix. VInt (3 * ix ! 0 + ix ! 1 + 1))"
    using small_matrix_stores by (simp add: plain_env_def small_entry_def [abs_def])
  from reductions_agree [OF small_matrix_both _ this plain_env_exact, of IARRAY_REDUCE_MAX] show ?thesis
    by (auto simp: reduced_to_def plain_env_def small_matrix_parts is_fp_def)
qed

end
