(* ===== verification/Linalg.thy ===== *)
theory Linalg
  imports Compressor
begin

text \<open>
  Products of matrices (\<^verbatim>\<open>src/linalg\<close>). \<open>iarray_linalg_matmul\<close> copies a strip of rows of the first operand and a strip of
  columns of the second one into caches for each chunk of the result, and a prefilter multiplies the parts of a block
  (\<^verbatim>\<open>matmul.c\<close>, \<^verbatim>\<open>matmul/gemm.c\<close>, \<^verbatim>\<open>matmul/gemv.c\<close>); the variants \<open>iarray_opt_gemm\<close>, \<open>iarray_opt_gemm_a\<close>,
  \<open>iarray_opt_gemm_b\<close> and \<open>iarray_opt_gemv\<close> demand matching chunks and blocks and multiply block by block.
\<close>

section \<open>What the products call\<close>

text \<open>
  The routines of MKL without transposition: \<open>gemm d m n k a lda b ldb acc c ldc\<close> is \<^verbatim>\<open>cblas_dgemm\<close> or \<^verbatim>\<open>cblas_sgemm\<close> with
  alpha 1 and beta 1 (\<open>acc\<close>) or 0, and gives the new contents of \<open>c\<close>; \<open>gemv d m n a lda x acc y\<close> likewise.
\<close>

record blas =
  gemm :: "iarray_data_type \<Rightarrow> int \<Rightarrow> int \<Rightarrow> int \<Rightarrow> ina_val list \<Rightarrow> int \<Rightarrow> ina_val list \<Rightarrow> int \<Rightarrow> bool \<Rightarrow> ina_val list \<Rightarrow> int \<Rightarrow> ina_val list"
  gemv :: "iarray_data_type \<Rightarrow> int \<Rightarrow> int \<Rightarrow> ina_val list \<Rightarrow> int \<Rightarrow> ina_val list \<Rightarrow> bool \<Rightarrow> ina_val list \<Rightarrow> ina_val list"

text \<open>
  The bytes of a chunk and the constants of the header of c-blosc2 that say where its fields are.
\<close>

record 'k chunk_format =
  chunk_byte :: "'k \<Rightarrow> int \<Rightarrow> 8 word"
  BLOSC2_CHUNK_FLAGS :: int
  BLOSC2_CHUNK_TYPESIZE :: int
  BLOSC2_CHUNK_NBYTES :: int
  BLOSC2_CHUNK_BLOCKSIZE :: int
  BLOSC2_CHUNK_BLOSC2_FLAGS :: int
  BLOSC_EXTENDED_HEADER_LENGTH :: int
  BLOSC2_SPECIAL_MASK :: "8 word"
  BLOSC2_SPECIAL_ZERO :: "8 word"

text \<open>
  \<open>la_get_slice\<close>, \<open>la_omatcopy\<close>: reading of a slice by caterva and transposition of a buffer. \<open>la_reorder\<close>:
  \<open>blosc2_schunk_reorder_offsets\<close>. \<open>la_decompress k mask buf\<close>: \<open>blosc2_decompress_ctx\<close> after \<open>blosc2_set_maskout\<close>, the
  buffer \<open>buf\<close> with the blocks that are not masked. \<open>la_fresh\<close>, \<open>la_out\<close>: what fresh memory for a number of items and
  the block of the output hold at first.
\<close>

record ('d, 'k) linalg_env =
  la_api :: "('d, 'k) blosc_api"
  la_format :: "'k chunk_format"
  la_blas :: blas
  la_create :: "caterva_params \<Rightarrow> caterva_storage \<Rightarrow> 'd caterva_array res"
  la_zfp :: "iarray_compression_codec \<Rightarrow> int"
  la_defaults :: blosc2_cparams
  la_cfg :: iarray_config
  la_get_slice :: "'d caterva_array \<Rightarrow> int list \<Rightarrow> int list \<Rightarrow> int list \<Rightarrow> ina_val list res"
  la_omatcopy :: "int \<Rightarrow> int \<Rightarrow> ina_val list \<Rightarrow> ina_val list"
  la_reorder :: "'d \<Rightarrow> int list \<Rightarrow> 'd"
  la_decompress :: "'k \<Rightarrow> bool list \<Rightarrow> ina_val list \<Rightarrow> ina_val list option"
  la_fresh :: "int \<Rightarrow> ina_val list"
  la_out :: "int \<Rightarrow> int \<Rightarrow> ina_val list"

definition la_cparams :: "('d, 'k) linalg_env \<Rightarrow> 'd container \<Rightarrow> blosc2_cparams" where
  "la_cparams env c = iarray_create_blosc_cparams (la_zfp env) (la_defaults env) (la_cfg env) (c_itemsize (catarr c))
     (blocknitems (catarr c) * c_itemsize (catarr c))"

section \<open>Products with caches\<close>

text \<open>The position of the first item of a block in its chunk; a vector has the entry of one dimension.\<close>

definition gemm_prefilter_block_info :: "'d container \<Rightarrow> int \<Rightarrow> int list" where
  "gemm_prefilter_block_info c nblock =
     (let n = ndim (dtshape c); cat = catarr c;
          strides_block = compute_strides n (grid n (c_extchunkshape cat) (c_blockshape cat)) fresh_slots;
          nblock_ndim = set_prefix n (\<lambda>i.
            if i \<noteq> 0 then cdiv (cmod nblock (strides_block ! (i - 1))) (strides_block ! i)
            else cdiv (cmod nblock (cdiv (extchunknitems cat) (blocknitems cat))) (strides_block ! i)) fresh_slots
      in set_prefix n (\<lambda>i. nblock_ndim ! i * c_blockshape cat ! i) [0, 0])"

text \<open>Every type that is not \<open>double\<close> is taken for \<open>float\<close>.\<close>

definition blas_type :: "iarray_data_type \<Rightarrow> iarray_data_type" where
  "blas_type d = (if d = IARRAY_DATA_TYPE_DOUBLE then IARRAY_DATA_TYPE_DOUBLE else IARRAY_DATA_TYPE_FLOAT)"

definition gemm_prefilter ::
    "('d, 'k) linalg_env \<Rightarrow> 'd container \<Rightarrow> 'd container \<Rightarrow> 'd container \<Rightarrow> ina_val list \<Rightarrow> ina_val list \<Rightarrow> ina_val list \<Rightarrow> int \<Rightarrow> ina_val list res" where
  "gemm_prefilter env a b c cache_a cache_b out nblock =
     (let start = gemm_prefilter_block_info c nblock;
          buffer_a = drop (nat (start ! 0 * shape (dtshape a) ! 1)) cache_a;
          buffer_b = drop (nat (start ! 1 * shape (dtshape b) ! 0)) cache_b;
          m = blockshape (storage c) ! 0;
          k = shape (dtshape a) ! 1;
          n = blockshape (storage c) ! 1
      in Inr (gemm (la_blas env) (blas_type (dtype (dtshape c))) m n k buffer_a k buffer_b n False out n))"

text \<open>
  The columns of the strip, \<open>k\<close> of them at a time, one block after the other. \<open>write_at\<close> is \<^verbatim>\<open>memcpy\<close> into the cache.
\<close>

definition write_at :: "int \<Rightarrow> ina_val list \<Rightarrow> ina_val list \<Rightarrow> ina_val list" where
  "write_at pos xs cache = take (nat pos) cache @ xs @ drop (nat pos + length xs) cache"

definition gemm_repart_caches :: "int \<Rightarrow> int \<Rightarrow> int \<Rightarrow> ina_val list \<Rightarrow> ina_val list \<Rightarrow> ina_val list" where
  "gemm_repart_caches m n k cache_aux cache =
     fst (fold (\<lambda>nblock. fold (\<lambda>i (cache, cache_aux_pointer).
         (write_at cache_aux_pointer (take (nat k) (drop (nat (i * n + nblock * k)) cache_aux)) cache, cache_aux_pointer + k))
       (below m)) (below (cdiv n k)) (cache, 0))"

text \<open>
  The state of the loop over the chunks of the result, which goes through the columns of chunks. \<open>gs_row\<close> is the
  column the cache \<open>gs_cache_b\<close> belongs to.
\<close>

record gemm_state =
  gs_index :: "int list"
  gs_row :: int
  gs_cache_a :: "ina_val list"
  gs_cache_b :: "ina_val list"
  gs_order :: "int list"

definition cut_chunk :: "'d container \<Rightarrow> nat \<Rightarrow> int \<Rightarrow> int" where
  "cut_chunk c i elem_index = (if elem_index + c_chunkshape (catarr c) ! i \<le> c_shape (catarr c) ! i then c_chunkshape (catarr c) ! i
     else c_shape (catarr c) ! i - elem_index)"

text \<open>
  The caches for a chunk. The second operand is read into the memory of the first cache, and the result of this reading
  is not looked at.
\<close>

definition gemm_load ::
    "('d, 'k) linalg_env \<Rightarrow> 'd container \<Rightarrow> 'd container \<Rightarrow> 'd container \<Rightarrow> gemm_state \<Rightarrow> int \<Rightarrow> gemm_state res" where
  "gemm_load env a b c s nchunk =
     (let cat = catarr c; index = gs_index s;
          elem_index = map (\<lambda>i. index ! i * c_chunkshape cat ! i) [0..<2];
          chunk_shape = map (\<lambda>i. cut_chunk c i (elem_index ! i)) [0..<2];
          cache_size_b = shape (dtshape b) ! 0 * c_extchunkshape cat ! 1 * c_itemsize cat;
          cache_size_a = c_extchunkshape cat ! 0 * shape (dtshape a) ! 1 * c_itemsize cat;
          s = (if gs_row s \<noteq> index ! 1 then
              let cache_aux_b = (case iarray_get_slice_buffer_raw (la_get_slice env) (la_omatcopy env) b [0, elem_index ! 1]
                    [shape (dtshape b) ! 0, elem_index ! 1 + chunk_shape ! 1] [shape (dtshape b) ! 0, c_extchunkshape cat ! 1] cache_size_b of
                  Inl _ \<Rightarrow> gs_cache_a s | Inr buf \<Rightarrow> write_at 0 buf (gs_cache_a s))
              in s\<lparr>gs_row := index ! 1, gs_cache_a := cache_aux_b,
                   gs_cache_b := gemm_repart_caches (shape (dtshape b) ! 0) (c_extchunkshape cat ! 1) (c_blockshape cat ! 1) cache_aux_b (gs_cache_b s)\<rparr>
            else s)
      in res_bind (iarray_get_slice_buffer_raw (la_get_slice env) (la_omatcopy env) a [elem_index ! 0, 0]
           [elem_index ! 0 + chunk_shape ! 0, shape (dtshape a) ! 1] [c_extchunkshape cat ! 0, shape (dtshape a) ! 1] cache_size_a)
         (\<lambda>buf. Inr (s\<lparr>gs_cache_a := write_at 0 buf (gs_cache_a s)\<rparr>)))"

text \<open>\<open>gemm_blosc\<close>: the chunks are stored in the order of the loop, then put into place.\<close>

definition gemm_blosc :: "('d, 'k) linalg_env \<Rightarrow> 'd container \<Rightarrow> 'd container \<Rightarrow> 'd container \<Rightarrow> 'd container res" where
  "gemm_blosc env a b c =
     (let cat = catarr c;
          rows = cdiv (c_extshape cat ! 0) (c_chunkshape cat ! 0);
          cols = cdiv (c_extshape cat ! 1) (c_chunkshape cat ! 1);
          n = cdiv (extnitems cat) (chunknitems cat);
          cache_b = shape (dtshape b) ! 0 * c_extchunkshape cat ! 1;
          cache_a = max (c_extchunkshape cat ! 0 * shape (dtshape a) ! 1) cache_b
      in res_bind (compress_loading (la_api env) (la_cparams env c)
           (\<lambda>c. gemm_load env a b c)
           (\<lambda>c s nchunk nblock. gemm_prefilter env a b c (gs_cache_a s) (gs_cache_b s) (la_out env nchunk nblock) nblock)
           (\<lambda>s nchunk. s\<lparr>gs_order := (gs_order s)[nat (gs_index s ! 1 + gs_index s ! 0 * cols) := nchunk],
              gs_index := [cmod (nchunk + 1) rows, cdiv (nchunk + 1) rows]\<rparr>)
           n (c, \<lparr>gs_index = [0, 0], gs_row = -1, gs_cache_a = la_fresh env cache_a, gs_cache_b = la_fresh env cache_b, gs_order = replicate (nat n) 0\<rparr>))
         (\<lambda>(c, s). Inr (map_data (\<lambda>d. la_reorder env d (gs_order s)) c)))"

text \<open>\<open>gemv_blosc\<close>: the vector is read once.\<close>

definition gemv_prefilter ::
    "('d, 'k) linalg_env \<Rightarrow> 'd container \<Rightarrow> 'd container \<Rightarrow> 'd container \<Rightarrow> ina_val list \<Rightarrow> ina_val list \<Rightarrow> ina_val list \<Rightarrow> int \<Rightarrow> ina_val list res" where
  "gemv_prefilter env a b c cache_a cache_b out nblock =
     (let start = gemm_prefilter_block_info c nblock;
          buffer_a = drop (nat (start ! 0 * shape (dtshape a) ! 1)) cache_a;
          buffer_b = drop (nat (start ! 1 * shape (dtshape b) ! 0)) cache_b;
          m = blockshape (storage c) ! 0;
          n = shape (dtshape a) ! 1
      in Inr (gemv (la_blas env) (blas_type (dtype (dtshape c))) m n buffer_a n buffer_b False out))"

definition gemv_load :: "('d, 'k) linalg_env \<Rightarrow> 'd container \<Rightarrow> 'd container \<Rightarrow> int \<Rightarrow> ina_val list res" where
  "gemv_load env a c nchunk =
     (let cat = catarr c; elem_index = nchunk * c_chunkshape cat ! 0
      in iarray_get_slice_buffer_raw (la_get_slice env) (la_omatcopy env) a [elem_index, 0]
           [elem_index + cut_chunk c 0 elem_index, shape (dtshape a) ! 1] [c_extchunkshape cat ! 0, shape (dtshape a) ! 1]
           (c_extchunkshape cat ! 0 * shape (dtshape a) ! 1 * c_itemsize cat))"

definition gemv_blosc :: "('d, 'k) linalg_env \<Rightarrow> 'd container \<Rightarrow> 'd container \<Rightarrow> 'd container \<Rightarrow> 'd container res" where
  "gemv_blosc env a b c =
     res_bind (iarray_get_slice_buffer_raw (la_get_slice env) (la_omatcopy env) b [0] [shape (dtshape b) ! 0] [c_extshape (catarr b) ! 0]
         (c_extshape (catarr b) ! 0 * c_itemsize (catarr b)))
       (\<lambda>cache_b. res_bind (compress_loading (la_api env) (la_cparams env c)
           (\<lambda>c s nchunk. gemv_load env a c nchunk)
           (\<lambda>c cache_a nchunk nblock. gemv_prefilter env a b c cache_a cache_b (la_out env nchunk nblock) nblock)
           (\<lambda>cache_a nchunk. ()) (cdiv (extnitems (catarr c)) (chunknitems (catarr c))) (c, ()))
         (\<lambda>(c, s). Inr c))"

definition iarray_linalg_matmul ::
    "('d, 'k) linalg_env \<Rightarrow> 'd container \<Rightarrow> 'd container \<Rightarrow> iarray_storage \<Rightarrow> 'd container res" where
  "iarray_linalg_matmul env a b st =
     (let nb = ndim (dtshape b) in
      if ndim (dtshape a) \<noteq> 2 \<or> nb \<noteq> 1 \<and> nb \<noteq> 2 then Inl IARRAY_ERR_INVALID_NDIM
      else if shape (dtshape a) ! 1 \<noteq> shape (dtshape b) ! 0 then Inl IARRAY_ERR_INVALID_SHAPE
      else if dtype (dtshape a) \<noteq> dtype (dtshape b) then Inl IARRAY_ERR_INVALID_DTYPE
      else
        let d = \<lparr> dtype = dtype (dtshape a), dtype_size = 0, ndim = nb,
              shape = (replicate IARRAY_DIMENSION_MAX 0)[0 := shape (dtshape a) ! 0, 1 := if nb > 1 then shape (dtshape b) ! 1 else 0] \<rparr>
        in if list_ex (\<lambda>i. shape d ! i < chunkshape st ! i) [0..<nb] then Inl IARRAY_ERR_INVALID_CHUNKSHAPE
           else res_bind (iarray_empty (la_create env) d st) (\<lambda>c.
             if nb = 2 then gemm_blosc env a b c else gemv_blosc env a b c))"

text \<open>
  \<open>iarray_linalg_transpose\<close>: a view with the shape turned round. The code does not look at the result of
  \<open>_iarray_view_new\<close> and writes into the container it may not have got; here its error is the result.
\<close>

definition iarray_linalg_transpose :: "'d view_env \<Rightarrow> nat \<Rightarrow> 'd container \<Rightarrow> 'd container res" where
  "iarray_linalg_transpose env addr a =
     (if container_viewed a \<noteq> None then Inl INA_ERR_NOT_SUPPORTED
      else if ndim (dtshape a) \<noteq> 2 then Inl IARRAY_ERR_INVALID_NDIM
      else
        let n = ndim (dtshape a);
            d = \<lparr> dtype = dtype (dtshape a), dtype_size = 0, ndim = n, shape = replicate IARRAY_DIMENSION_MAX 0 \<rparr>
        in res_bind (iarray_set_dtype_size d) (\<lambda>d.
             let d = d\<lparr>shape := set_prefix n (\<lambda>i. shape (dtshape a) ! (n - 1 - i)) (shape d)\<rparr>
             in res_bind (iarray_view_new env addr a d (replicate IARRAY_DIMENSION_MAX 0)) (\<lambda>b. Inr (b\<lparr>transposed := True\<rparr>))))"


section \<open>Matrices\<close>

text \<open>The places of an array of two dimensions.\<close>

lemma unflat2: "unflat [a, b] k = [k div b, k mod b]"
  by simp

lemma prod2: "prod_list [a, b] = a * (b :: int)"
  by simp

lemma div_mod_less:
  fixes k a b :: int
  assumes "0 \<le> k" "k < a * b" "0 < b"
  shows "0 \<le> k div b" "k div b < a" "0 \<le> k mod b" "k mod b < b" "k div b * b + k mod b = k"
  using assms by (simp_all add: pos_imp_zdiv_nonneg_iff div_less_of_mult)

lemma place_div_mod:
  fixes x y b :: int
  assumes "0 \<le> y" "y < b"
  shows "(x * b + y) div b = x" "(x * b + y) mod b = y"
  using assms by simp_all

lemma place_less:
  fixes x y a b :: int
  assumes "0 \<le> x" "x < a" "0 \<le> y" "y < b"
  shows "0 \<le> x * b + y" "x * b + y < a * b"
proof -
  have "(x + 1) * b \<le> a * b" using assms by (intro mult_right_mono) simp_all
  then show "x * b + y < a * b" using assms by (simp add: distrib_right)
  show "0 \<le> x * b + y" using assms by simp
qed

text \<open>A number of the places column by column, as a number row by row.\<close>

definition by_rows :: "int \<Rightarrow> int \<Rightarrow> int \<Rightarrow> int" where
  "by_rows rows cols q = q div rows + q mod rows * cols"

lemma by_rows:
  assumes "0 \<le> q" "q < rows * cols" "0 < rows"
  shows "0 \<le> by_rows rows cols q" "by_rows rows cols q < rows * cols" "by_rows rows cols q div cols = q mod rows"
    "by_rows rows cols q mod cols = q div rows" "by_rows cols rows (by_rows rows cols q) = q"
proof -
  have d: "0 \<le> q div rows" "q div rows < cols" "0 \<le> q mod rows" "q mod rows < rows" "q div rows * rows + q mod rows = q"
    using div_mod_less [of q cols rows] assms by (simp_all add: mult.commute)
  have e: "by_rows rows cols q = q mod rows * cols + q div rows" by (simp add: by_rows_def)
  show "0 \<le> by_rows rows cols q" "by_rows rows cols q < rows * cols" unfolding e by (rule place_less [OF d(3,4,1,2)])+
  show m: "by_rows rows cols q div cols = q mod rows" "by_rows rows cols q mod cols = q div rows"
    unfolding e using d by simp_all
  show "by_rows cols rows (by_rows rows cols q) = q"
    unfolding by_rows_def [of cols rows] m using d(5) by simp
qed

lemma block_start2: "block_start [m, n] [a, b] k = [k div ceil_blocks n b * a, k mod ceil_blocks n b * b]"
  by (simp add: block_start_def blocks_of_def)

lemma item_at2: "item_at [m, n] [a, b] [x, y] q w e =
  [q div ceil_blocks n b * a + (w div ceil_blocks b y * x + e div y), q mod ceil_blocks n b * b + (w mod ceil_blocks b y * y + e mod y)]"
  by (simp add: item_at_def local_item_def block_start2)

lemma live2: "live [m, n] [a, b] [x, y] q w e \<longleftrightarrow>
  0 \<le> w div ceil_blocks b y * x + e div y \<and> w div ceil_blocks b y * x + e div y < min a (m - q div ceil_blocks n b * a) \<and>
  0 \<le> w mod ceil_blocks b y * y + e mod y \<and> w mod ceil_blocks b y * y + e mod y < min b (n - q mod ceil_blocks n b * b)"
  by (simp add: live_def local_item_def block_extent_def block_start2)

lemma list_of_two: "length xs = 2 \<longleftrightarrow> xs = [xs ! 0, xs ! 1]"
  by (auto simp: list_eq_iff_nth_eq less_Suc_eq numeral_2_eq_2)

lemma plain_two:
  assumes "plain_container c" "ndim (dtshape c) = 2"
  obtains m n a b x y where "ns_of c = [m, n]" "cs_of c = [a, b]" "bs_of c = [x, y]" "0 < m" "0 < n" "0 < a" "0 < b" "0 < x" "0 < y"
proof -
  have l: "length (ns_of c) = 2" "length (cs_of c) = 2" "length (bs_of c) = 2" using plain_slots [OF assms(1)] assms(2) by simp_all
  have p: "0 < ns_of c ! i" "0 < cs_of c ! i" "0 < bs_of c ! i" if "i < 2" for i
    using plain_fields(7-9) [OF assms(1), of i] that assms(2) by simp_all
  show thesis
    using that [of "ns_of c ! 0" "ns_of c ! 1" "cs_of c ! 0" "cs_of c ! 1" "bs_of c ! 0" "bs_of c ! 1"] l p [of 0] p [of 1]
    by (simp add: list_of_two)
qed

section \<open>What the products rely on\<close>

text \<open>
  \<open>reads_slices\<close>: \<open>caterva_get_slice_buffer\<close> puts the slice into the corner of a buffer that is large enough.
\<close>

definition reads_slices :: "('d caterva_array \<Rightarrow> int list \<Rightarrow> int list \<Rightarrow> int list \<Rightarrow> ina_val list res) \<Rightarrow> 'd caterva_array \<Rightarrow> (int list \<Rightarrow> ina_val) \<Rightarrow> bool" where
  "reads_slices getter arr A \<longleftrightarrow> (\<forall>s e b. let n = c_ndim arr in length s = 8 \<longrightarrow> length e = 8 \<longrightarrow> length b = 8 \<longrightarrow>
     (\<forall>i < n. 0 \<le> s ! i \<and> s ! i \<le> e ! i \<and> e ! i \<le> c_shape arr ! i \<and> e ! i - s ! i \<le> b ! i) \<longrightarrow>
     (\<exists>buf. getter arr s e b = Inr buf \<and> int (length buf) = prod_list (take n b) \<and>
       (\<forall>ix. in_box (map2 (-) (take n e) (take n s)) ix \<longrightarrow> buf ! nat (flat (take n b) ix) = A (map2 (+) (take n s) ix))))"

text \<open>\<open>mkl_?omatcopy\<close> transposes a matrix of \<open>r\<close> rows and \<open>c\<close> columns.\<close>

definition omatcopy_spec :: "(int \<Rightarrow> int \<Rightarrow> ina_val list \<Rightarrow> ina_val list) \<Rightarrow> bool" where
  "omatcopy_spec omatcopy \<longleftrightarrow> (\<forall>r c x. 0 \<le> r \<longrightarrow> 0 \<le> c \<longrightarrow> int (length x) = r * c \<longrightarrow> length (omatcopy r c x) = length x \<and>
     (\<forall>i j. 0 \<le> i \<longrightarrow> i < r \<longrightarrow> 0 \<le> j \<longrightarrow> j < c \<longrightarrow> omatcopy r c x ! nat (j * r + i) = x ! nat (i * c + j)))"

text \<open>
  \<open>matrix\<close>: a container of two dimensions, perhaps a view or the transpose of an array, whose item at \<open>[i, j]\<close> is \<open>F i j\<close>.
\<close>

definition matrix :: "('d, 'k) linalg_env \<Rightarrow> 'd container \<Rightarrow> (int \<Rightarrow> int \<Rightarrow> ina_val) \<Rightarrow> bool" where
  "matrix env c F \<longleftrightarrow> (\<exists>A. unsqueezed c \<and> ndim (dtshape c) = 2 \<and> dtype_size (dtshape c) = itemsize_of (dtype (dtshape c)) \<and>
     reads_slices (la_get_slice env) (catarr c) A \<and>
     (let off = aux_offset (auxshape c); sh = shape (dtshape c); base = c_shape (catarr c) in
      if transposed c then
        dtype (dtshape c) \<in> {IARRAY_DATA_TYPE_DOUBLE, IARRAY_DATA_TYPE_FLOAT} \<and>
        0 \<le> off ! 0 \<and> off ! 0 + sh ! 0 \<le> base ! 1 \<and> 0 \<le> off ! 1 \<and> off ! 1 + sh ! 1 \<le> base ! 0 \<and> (\<forall>i j. F i j = A [off ! 1 + j, off ! 0 + i])
      else
        0 \<le> off ! 0 \<and> off ! 0 + sh ! 0 \<le> base ! 0 \<and> 0 \<le> off ! 1 \<and> off ! 1 + sh ! 1 \<le> base ! 1 \<and> (\<forall>i j. F i j = A [off ! 0 + i, off ! 1 + j])))"

lemma take2: "2 \<le> length xs \<Longrightarrow> take 2 xs = [xs ! 0, xs ! 1]"
  by (simp add: list_eq_iff_nth_eq less_Suc_eq numeral_2_eq_2)

lemma reads_slices2:
  assumes "reads_slices getter arr A" "c_ndim arr = 2" "length s = 8" "length e = 8" "length b = 8"
    "0 \<le> s ! 0" "s ! 0 \<le> e ! 0" "e ! 0 \<le> c_shape arr ! 0" "e ! 0 - s ! 0 \<le> b ! 0"
    "0 \<le> s ! 1" "s ! 1 \<le> e ! 1" "e ! 1 \<le> c_shape arr ! 1" "e ! 1 - s ! 1 \<le> b ! 1"
  obtains buf where "getter arr s e b = Inr buf" "int (length buf) = b ! 0 * b ! 1"
    "\<And>i j. 0 \<le> i \<Longrightarrow> i < e ! 0 - s ! 0 \<Longrightarrow> 0 \<le> j \<Longrightarrow> j < e ! 1 - s ! 1 \<Longrightarrow> buf ! nat (i * b ! 1 + j) = A [s ! 0 + i, s ! 1 + j]"
proof -
  have "\<forall>i < c_ndim arr. 0 \<le> s ! i \<and> s ! i \<le> e ! i \<and> e ! i \<le> c_shape arr ! i \<and> e ! i - s ! i \<le> b ! i"
    using assms by (auto simp: less_Suc_eq numeral_2_eq_2)
  then obtain buf where "getter arr s e b = Inr buf" "int (length buf) = prod_list (take 2 b)"
    and buf: "\<forall>ix. in_box (map2 (-) (take 2 e) (take 2 s)) ix \<longrightarrow> buf ! nat (flat (take 2 b) ix) = A (map2 (+) (take 2 s) ix)"
    using assms(1-5) unfolding reads_slices_def Let_def by metis
  moreover have "buf ! nat (i * b ! 1 + j) = A [s ! 0 + i, s ! 1 + j]"
    if "0 \<le> i" "i < e ! 0 - s ! 0" "0 \<le> j" "j < e ! 1 - s ! 1" for i j
    using buf [rule_format, of "[i, j]"] that assms(3-5) by (simp add: take2)
  ultimately show thesis using that [of buf] assms(5) by (simp add: take2)
qed

text \<open>A rectangle of a matrix.\<close>

lemma matrix_slice:
  assumes "matrix env c F" "omatcopy_spec (la_omatcopy env)" "0 \<le> s0" "s0 \<le> e0" "e0 \<le> shape (dtshape c) ! 0" "e0 - s0 \<le> b0"
    "0 \<le> s1" "s1 \<le> e1" "e1 \<le> shape (dtshape c) ! 1" "e1 - s1 \<le> b1" "b0 * b1 * itemsize_of (dtype (dtshape c)) \<le> buflen"
  shows "\<exists>buf. iarray_get_slice_buffer_raw (la_get_slice env) (la_omatcopy env) c [s0, s1] [e0, e1] [b0, b1] buflen = Inr buf \<and>
    int (length buf) = b0 * b1 \<and>
    (\<forall>i j. 0 \<le> i \<longrightarrow> i < e0 - s0 \<longrightarrow> 0 \<le> j \<longrightarrow> j < e1 - s1 \<longrightarrow> buf ! nat (i * b1 + j) = F (s0 + i) (s1 + j))"
proof -
  let ?off = "aux_offset (auxshape c)" and ?s = "slice_start c [s0, s1]" and ?e = "slice_stop c [e0, e1]" and ?b = "slice_buffer_shape c [b0, b1]"
  obtain A where u: "unsqueezed c" "ndim (dtshape c) = 2" "dtype_size (dtshape c) = itemsize_of (dtype (dtshape c))"
    and rd: "reads_slices (la_get_slice env) (catarr c) A"
    and tr: "transposed c \<Longrightarrow> dtype (dtshape c) \<in> {IARRAY_DATA_TYPE_DOUBLE, IARRAY_DATA_TYPE_FLOAT} \<and>
        0 \<le> ?off ! 0 \<and> ?off ! 0 + shape (dtshape c) ! 0 \<le> c_shape (catarr c) ! 1 \<and> 0 \<le> ?off ! 1 \<and>
        ?off ! 1 + shape (dtshape c) ! 1 \<le> c_shape (catarr c) ! 0 \<and> (\<forall>i j. F i j = A [?off ! 1 + j, ?off ! 0 + i])"
    and nt: "\<not> transposed c \<Longrightarrow> 0 \<le> ?off ! 0 \<and> ?off ! 0 + shape (dtshape c) ! 0 \<le> c_shape (catarr c) ! 0 \<and> 0 \<le> ?off ! 1 \<and>
        ?off ! 1 + shape (dtshape c) ! 1 \<le> c_shape (catarr c) ! 1 \<and> (\<forall>i j. F i j = A [?off ! 0 + i, ?off ! 1 + j])"
    using assms(1) unfolding matrix_def Let_def by - (elim exE conjE, rule that, (assumption | simp)+)
  have n: "c_ndim (catarr c) = 2" and wf: "wf_container c" and id: "aux_index (auxshape c) ! 0 = 0" "aux_index (auxshape c) ! 1 = 1"
    using u by (auto simp: unsqueezed_def intro: unsqueezed_wf)
  have at: "?s ! 0 = ?off ! 0 + s0" "?s ! 1 = ?off ! 1 + s1" "?e ! 0 = ?off ! 0 + e0" "?e ! 1 = ?off ! 1 + e1" "?b ! 0 = b0" "?b ! 1 = b1"
    using slice_start_at [OF wf, of 0] slice_start_at [OF wf, of 1] slice_stop_at [OF wf, of 0] slice_stop_at [OF wf, of 1]
      slice_buffer_shape_at [OF wf, of 0] slice_buffer_shape_at [OF wf, of 1] u(2) id assms(3-10)
    by (simp_all add: norm_bound_def)
  have two: "(\<exists>i < 2. P i) \<longleftrightarrow> P 0 \<or> P 1" for P :: "nat \<Rightarrow> bool" by (auto simp: less_Suc_eq numeral_2_eq_2)
  have nitems: "fold (\<lambda>i s. s * b ! i) [0..<c_ndim (catarr c)] 1 = b ! 0 * b ! 1" for b :: "int list"
    using n by (simp add: numeral_2_eq_2)
  show ?thesis
  proof (cases "transposed c")
    case False
    obtain buf where "la_get_slice env (catarr c) ?s ?e ?b = Inr buf" "int (length buf) = b0 * b1"
      "\<And>i j. 0 \<le> i \<Longrightarrow> i < e0 - s0 \<Longrightarrow> 0 \<le> j \<Longrightarrow> j < e1 - s1 \<Longrightarrow> buf ! nat (i * b1 + j) = A [?off ! 0 + s0 + i, ?off ! 1 + s1 + j]"
      by (rule reads_slices2 [OF rd n, of ?s ?e ?b]) (use assms(3-10) at nt [OF False] in simp_all)
    then show ?thesis
      using nt [OF False] assms(3-11) u(2,3) at False
      by (simp add: iarray_get_slice_buffer_raw_def swap_dims_def two nitems Let_def add.assoc)
  next
    case True
    let ?sw = "swap_dims True 2"
    have sw: "length (?sw xs) = length xs" "?sw xs ! 0 = xs ! Suc 0" "?sw xs ! Suc 0 = xs ! 0" if "length xs = 8" for xs
      using that by (simp_all add: swap_dims_def set_prefix_nth)
    obtain buf where g: "la_get_slice env (catarr c) (?sw ?s) (?sw ?e) (?sw ?b) = Inr buf" "int (length buf) = b1 * b0"
      "\<And>i j. 0 \<le> i \<Longrightarrow> i < e1 - s1 \<Longrightarrow> 0 \<le> j \<Longrightarrow> j < e0 - s0 \<Longrightarrow> buf ! nat (i * b0 + j) = A [?off ! 1 + s1 + i, ?off ! 0 + s0 + j]"
      by (rule reads_slices2 [OF rd n, of "?sw ?s" "?sw ?e" "?sw ?b"]) (use assms(3-10) at tr [OF True] in \<open>simp_all add: sw\<close>)
    have b: "0 \<le> b1" "0 \<le> b0" using assms(4,6,8,10) by simp_all
    have o: "length (la_omatcopy env b1 b0 buf) = length buf"
      "0 \<le> i \<Longrightarrow> i < b1 \<Longrightarrow> 0 \<le> j \<Longrightarrow> j < b0 \<Longrightarrow> la_omatcopy env b1 b0 buf ! nat (j * b1 + i) = buf ! nat (i * b0 + j)" for i j
      using assms(2) b g(2) unfolding omatcopy_spec_def by blast+
    have "iarray_get_slice_buffer_raw (la_get_slice env) (la_omatcopy env) c [s0, s1] [e0, e1] [b0, b1] buflen = Inr (la_omatcopy env b1 b0 buf)"
      using tr [OF True] True assms(4,8,11) u(2,3) at g(1) sw
      by (auto simp: iarray_get_slice_buffer_raw_def two nitems Let_def mult.commute)
    moreover have "la_omatcopy env b1 b0 buf ! nat (i * b1 + j) = F (s0 + i) (s1 + j)"
      if "0 \<le> i" "i < e0 - s0" "0 \<le> j" "j < e1 - s1" for i j
      using o(2) [of j i] g(3) [of j i] that tr [OF True] assms(6,10) by (simp add: add.assoc)
    ultimately show ?thesis using o(1) g(2) by (simp add: mult.commute)
  qed
qed


text \<open>
  A sum without rounding, whatever the order of its additions: all terms are integers, and their absolute values sum to at
  most \<open>2 ^ 53\<close> (\<open>2 ^ 24\<close> for floats), so that every partial sum is a number of the format.
\<close>

definition exact_dot :: "iarray_data_type \<Rightarrow> rat \<Rightarrow> rat list \<Rightarrow> bool" where
  "exact_dot d c ps \<longleftrightarrow> list_all (\<lambda>p. of_int \<lfloor>p\<rfloor> = p) (c # ps) \<and>
     (\<Sum>p\<leftarrow>c # ps. \<bar>p\<bar>) \<le> (if d = IARRAY_DATA_TYPE_DOUBLE then 2 ^ 53 else 2 ^ 24)"

text \<open>The entries of the product of an \<open>m\<close> by \<open>k\<close> and a \<open>k\<close> by \<open>n\<close> matrix are such sums.\<close>

definition exact_entries :: "iarray_data_type \<Rightarrow> int \<Rightarrow> int \<Rightarrow> int \<Rightarrow> (int \<Rightarrow> int \<Rightarrow> rat) \<Rightarrow> (int \<Rightarrow> int \<Rightarrow> rat) \<Rightarrow> bool" where
  "exact_entries d m k n \<alpha> \<beta> \<longleftrightarrow>
     list_all (\<lambda>i. list_all (\<lambda>j. exact_dot d 0 (map (\<lambda>l. \<alpha> i l * \<beta> l j) (below k))) (below n)) (below m)"

lemma exact_entriesD: "exact_entries d m k n \<alpha> \<beta> \<Longrightarrow> 0 \<le> i \<Longrightarrow> i < m \<Longrightarrow> 0 \<le> j \<Longrightarrow> j < n \<Longrightarrow> exact_dot d 0 (map (\<lambda>l. \<alpha> i l * \<beta> l j) (below k))"
  by (simp add: exact_entries_def list_all_iff)

text \<open>
  The documented meaning of the routines of MKL: an item of the result is the sum of the products (and the item there before,
  if \<open>acc\<close>), whatever the other items are; the rest of \<open>c\<close> stays. MKL rounds and orders the additions as it likes, so
  nothing is said of sums that are not exact.
\<close>

definition gemm_spec :: "blas \<Rightarrow> bool" where
  "gemm_spec bl \<longleftrightarrow> (\<forall>d m n k a lda b ldb acc c ldc. d \<in> {IARRAY_DATA_TYPE_DOUBLE, IARRAY_DATA_TYPE_FLOAT} \<longrightarrow>
     0 < m \<longrightarrow> 0 < n \<longrightarrow> 0 < k \<longrightarrow> k \<le> lda \<longrightarrow> n \<le> ldb \<longrightarrow> n \<le> ldc \<longrightarrow> (m - 1) * lda + k \<le> int (length a) \<longrightarrow>
     (k - 1) * ldb + n \<le> int (length b) \<longrightarrow> (m - 1) * ldc + n \<le> int (length c) \<longrightarrow>
     (let c' = gemm bl d m n k a lda b ldb acc c ldc in length c' = length c \<and>
       (\<forall>i j \<alpha> \<beta> \<gamma>. 0 \<le> i \<longrightarrow> i < m \<longrightarrow> 0 \<le> j \<longrightarrow> j < n \<longrightarrow> (acc \<longrightarrow> c ! nat (i * ldc + j) = VFp (Fin \<gamma>)) \<longrightarrow>
          (\<forall>l. 0 \<le> l \<longrightarrow> l < k \<longrightarrow> a ! nat (i * lda + l) = VFp (Fin (\<alpha> l)) \<and> b ! nat (l * ldb + j) = VFp (Fin (\<beta> l))) \<longrightarrow>
          exact_dot d (if acc then \<gamma> else 0) (map (\<lambda>l. \<alpha> l * \<beta> l) (below k)) \<longrightarrow>
          c' ! nat (i * ldc + j) = VFp (Fin ((if acc then \<gamma> else 0) + (\<Sum>l\<leftarrow>below k. \<alpha> l * \<beta> l)))) \<and>
       (\<forall>i j. 0 \<le> i \<longrightarrow> 0 \<le> j \<longrightarrow> j < ldc \<longrightarrow> m \<le> i \<or> n \<le> j \<longrightarrow> i * ldc + j < int (length c) \<longrightarrow>
          c' ! nat (i * ldc + j) = c ! nat (i * ldc + j))))"

definition gemv_spec :: "blas \<Rightarrow> bool" where
  "gemv_spec bl \<longleftrightarrow> (\<forall>d m n a lda x acc y. d \<in> {IARRAY_DATA_TYPE_DOUBLE, IARRAY_DATA_TYPE_FLOAT} \<longrightarrow>
     0 \<le> m \<longrightarrow> 0 \<le> n \<longrightarrow> 0 < n \<or> acc \<longrightarrow> 0 < lda \<longrightarrow> n \<le> lda \<longrightarrow> (m - 1) * lda + n \<le> int (length a) \<longrightarrow> n \<le> int (length x) \<longrightarrow>
     m \<le> int (length y) \<longrightarrow>
     (let y' = gemv bl d m n a lda x acc y in length y' = length y \<and>
       (\<forall>i \<alpha> \<beta> \<gamma>. 0 \<le> i \<longrightarrow> i < m \<longrightarrow> (acc \<longrightarrow> y ! nat i = VFp (Fin \<gamma>)) \<longrightarrow>
          (\<forall>l. 0 \<le> l \<longrightarrow> l < n \<longrightarrow> a ! nat (i * lda + l) = VFp (Fin (\<alpha> l)) \<and> x ! nat l = VFp (Fin (\<beta> l))) \<longrightarrow>
          exact_dot d (if acc then \<gamma> else 0) (map (\<lambda>l. \<alpha> l * \<beta> l) (below n)) \<longrightarrow>
          y' ! nat i = VFp (Fin ((if acc then \<gamma> else 0) + (\<Sum>l\<leftarrow>below n. \<alpha> l * \<beta> l)))) \<and>
       (\<forall>i. m \<le> i \<longrightarrow> i < int (length y) \<longrightarrow> y' ! nat i = y ! nat i)))"

text \<open>\<open>blosc2_schunk_reorder_offsets\<close>: the chunk \<open>order[i]\<close> becomes the chunk \<open>i\<close>.\<close>

definition reorder_spec :: "('d, 'k) blosc_api \<Rightarrow> ('d \<Rightarrow> int list \<Rightarrow> 'd) \<Rightarrow> bool" where
  "reorder_spec api reorder \<longleftrightarrow> (\<forall>d order i. (\<forall>j. 0 \<le> j \<longrightarrow> j < int (length order) \<longrightarrow> get_lazychunk api d j \<noteq> None) \<longrightarrow>
     distinct order \<longrightarrow> set order = set (below (int (length order))) \<longrightarrow> 0 \<le> i \<longrightarrow> i < int (length order) \<longrightarrow>
     get_lazychunk api (reorder d order) i = get_lazychunk api d (order ! nat i))"

text \<open>The product of two matrices.\<close>

definition mat_product :: "int \<Rightarrow> (int \<Rightarrow> int \<Rightarrow> rat) \<Rightarrow> (int \<Rightarrow> int \<Rightarrow> rat) \<Rightarrow> int list \<Rightarrow> ina_val" where
  "mat_product k \<alpha> \<beta> ix = VFp (Fin (\<Sum>l\<leftarrow>below k. \<alpha> (ix ! 0) l * \<beta> l (ix ! 1)))"

section \<open>The caches\<close>

lemma write_at_nth: "0 \<le> pos \<Longrightarrow> nat pos + length xs \<le> length cache \<Longrightarrow> write_at pos xs cache ! i =
    (if i < nat pos then cache ! i else if i < nat pos + length xs then xs ! (i - nat pos) else cache ! i)"
  by (auto simp: write_at_def nth_append)

lemma length_write_at: "0 \<le> pos \<Longrightarrow> nat pos + length xs \<le> length cache \<Longrightarrow> length (write_at pos xs cache) = length cache"
  by (simp add: write_at_def)

lemma write_at_start: "length xs \<le> length cache \<Longrightarrow> write_at 0 xs cache = xs @ drop (length xs) cache"
  by (simp add: write_at_def)

lemma fold_over_pairs: "fold (\<lambda>x. fold (\<lambda>y. g (x, y)) ys) xs s = fold g (List.product xs ys) s"
  by (induction xs arbitrary: s) (simp_all add: fold_map comp_def)

text \<open>Pieces of the same length, written one after the other.\<close>

lemma fold_write_at:
  assumes "\<And>x. x \<in> set xs \<Longrightarrow> length (f x) = k" "p + k * length xs \<le> length cache"
  shows "fold (\<lambda>x (cache, pos). (write_at pos (f x) cache, pos + int k)) xs (cache, int p) =
    (take p cache @ concat (map f xs) @ drop (p + k * length xs) cache, int (p + k * length xs))"
  using assms
proof (induction xs arbitrary: cache p)
  case (Cons x xs)
  have "fold (\<lambda>x (cache, pos). (write_at pos (f x) cache, pos + int k)) xs (write_at (int p) (f x) cache, int (p + k)) =
      (take (p + k) (write_at (int p) (f x) cache) @ concat (map f xs) @ drop (p + k + k * length xs) (write_at (int p) (f x) cache),
       int (p + k + k * length xs))"
    using Cons.prems by (intro Cons.IH) (simp_all add: length_write_at)
  then show ?case using Cons.prems by (simp add: write_at_def ac_simps)
qed simp

lemma gemm_repart_caches:
  assumes "0 \<le> m" "0 < k" "0 \<le> g" "n = g * k" "m * n \<le> int (length aux)" "m * n \<le> int (length cache)"
  shows "length (gemm_repart_caches m n k aux cache) = length cache"
    "0 \<le> l \<Longrightarrow> l < m \<Longrightarrow> 0 \<le> t \<Longrightarrow> t < g \<Longrightarrow> 0 \<le> j \<Longrightarrow> j < k \<Longrightarrow>
     gemm_repart_caches m n k aux cache ! nat (t * (m * k) + l * k + j) = aux ! nat (l * n + t * k + j)"
proof -
  define f where "f x = take (nat k) (drop (nat (snd x * n + fst x * k)) aux)" for x
  let ?ps = "List.product (below g) (below m)"
  have g: "cdiv n k = g" using assms by (simp add: cdiv_nonneg)
  have in_row: "0 \<le> l * n + t * k" "l * n + t * k + k \<le> int (length aux)" if "0 \<le> t" "t < g" "0 \<le> l" "l < m" for t l
  proof -
    have "(t + 1) * k \<le> g * k" "(l + 1) * n \<le> m * n" using that assms by (auto intro!: mult_right_mono)
    then show "l * n + t * k + k \<le> int (length aux)" using assms(4,5) by (simp add: distrib_right)
    show "0 \<le> l * n + t * k" using that assms by simp
  qed
  have lf: "length (f x) = nat k" if "x \<in> set ?ps" for x
    using that in_row [of "fst x" "snd x"] assms(2) by (auto simp: f_def nat_le_iff)
  have nk: "nat k * length ?ps = nat (m * n)" using assms by (simp add: nat_mult_distrib length_product)
  have "gemm_repart_caches m n k aux cache =
      fst (fold (\<lambda>x (cache, pos). (write_at pos (f x) cache, pos + int (nat k))) ?ps (cache, int 0))"
    unfolding gemm_repart_caches_def g fold_over_pairs [symmetric] using assms(2) by (simp add: f_def case_prod_unfold)
  also have "\<dots> = concat (map f ?ps) @ drop (nat (m * n)) cache"
    using assms(6) lf nk by (subst fold_write_at) simp_all
  finally have r: "gemm_repart_caches m n k aux cache = concat (map f ?ps) @ drop (nat (m * n)) cache" .
  have lc: "length (concat (map f ?ps)) = nat (m * n)"
  proof -
    have "map (\<lambda>x. length (f x)) ?ps = map (\<lambda>x. nat k) ?ps" using lf by (intro map_cong) auto
    then have "length (concat (map f ?ps)) = sum_list (map (\<lambda>x. nat k) ?ps)" by (simp only: length_concat map_map comp_def)
    then show ?thesis using nk by (simp add: sum_list_triv mult.commute)
  qed
  show "length (gemm_repart_caches m n k aux cache) = length cache" unfolding r using assms(6) lc by simp
  assume b: "0 \<le> l" "l < m" "0 \<le> t" "t < g" "0 \<le> j" "j < k"
  have i: "nat t * nat m + nat l < length ?ps"
  proof -
    have "(t + 1) * m \<le> g * m" using b assms by (intro mult_right_mono) simp_all
    then have "t * m + l < g * m" using b by (simp add: distrib_right)
    then have "nat (t * m + l) < nat (g * m)" using b assms by (subst nat_less_eq_zless) simp_all
    then show ?thesis using b assms by (simp add: nat_add_distrib nat_mult_distrib)
  qed
  have e: "nat (t * (m * k) + l * k + j) = (nat t * nat m + nat l) * nat k + nat j"
    using b assms by (simp add: nat_add_distrib nat_mult_distrib algebra_simps)
  have p: "?ps ! (nat t * nat m + nat l) = (t, l)"
    using b i by (subst product_nth) (simp_all add: below_nth)
  have "concat (map f ?ps) ! ((nat t * nat m + nat l) * nat k + nat j) = f (t, l) ! nat j"
  proof -
    have q: "take (nat k) (drop ((nat t * nat m + nat l) * nat k) (concat (map f ?ps))) = map f ?ps ! (nat t * nat m + nat l)"
      using lf i by (intro concat_block) auto
    have le: "(nat t * nat m + nat l) * nat k \<le> length (concat (map f ?ps))"
      using mult_le_mono1 [OF less_imp_le [OF i], of "nat k"] lc nk by (metis mult.commute)
    show ?thesis
      using arg_cong [OF q, of "\<lambda>xs. xs ! nat j"] b i le p by simp
  qed
  moreover have "f (t, l) ! nat j = aux ! nat (l * n + t * k + j)"
    using in_row [OF b(3,4,1,2)] b assms(2) by (simp add: f_def nat_add_distrib)
  moreover have "(nat t * nat m + nat l) * nat k + nat j < length (concat (map f ?ps))"
  proof -
    have "(nat t * nat m + nat l + 1) * nat k \<le> length ?ps * nat k" using i by (intro mult_right_mono) simp_all
    moreover have "length ?ps * nat k = nat (m * n)" using nk by (simp only: mult.commute)
    moreover have "nat j < nat k" using b by simp
    ultimately show ?thesis unfolding lc distrib_right by linarith
  qed
  ultimately show "gemm_repart_caches m n k aux cache ! nat (t * (m * k) + l * k + j) = aux ! nat (l * n + t * k + j)"
    unfolding r e by (simp add: nth_append)
qed


section \<open>The products of a block\<close>

lemma plain_two_fields:
  assumes "plain_container c" "ndim (dtshape c) = 2" "ns_of c = [m, n]" "cs_of c = [a, b]" "bs_of c = [x, y]"
  shows "c_shape (catarr c) ! 0 = m" "c_shape (catarr c) ! 1 = n" "c_chunkshape (catarr c) ! 0 = a" "c_chunkshape (catarr c) ! 1 = b"
    "c_blockshape (catarr c) ! 0 = x" "c_blockshape (catarr c) ! 1 = y" "blockshape (storage c) ! 0 = x" "blockshape (storage c) ! 1 = y"
    "c_extshape (catarr c) ! 0 = ceil_blocks m a * a" "c_extshape (catarr c) ! 1 = ceil_blocks n b * b"
    "c_extchunkshape (catarr c) ! 0 = ceil_blocks a x * x" "c_extchunkshape (catarr c) ! 1 = ceil_blocks b y * y"
    "0 < m" "0 < n" "0 < a" "0 < b" "0 < x" "0 < y"
  using plain_fields [OF assms(1), of 0] plain_fields [OF assms(1), of 1] take_eq_nth [OF plain_slots(8) [OF assms(1)], of 0]
    take_eq_nth [OF plain_slots(8) [OF assms(1)], of 1] assms(2-5)
  by simp_all

lemma gemm_block_info:
  assumes "plain_container c" "ndim (dtshape c) = 2" "cs_of c = [a, b]" "bs_of c = [x, y]" "0 \<le> w" "w < ceil_blocks a x * ceil_blocks b y"
  shows "gemm_prefilter_block_info c w = [w div ceil_blocks b y * x, w mod ceil_blocks b y * y]"
proof -
  let ?g = "grid 2 (c_extchunkshape (catarr c)) (c_blockshape (catarr c))"
  obtain m n where ns: "ns_of c = [m, n]" using plain_two [OF assms(1,2)] by metis
  note f = plain_two_fields [OF assms(1,2) ns assms(3,4)]
  have g: "0 < ceil_blocks a x" "0 < ceil_blocks b y" using f(13-18) by (simp_all add: ceil_blocks_pos)
  have s: "compute_strides 2 ?g fresh_slots ! 0 = ceil_blocks b y" "compute_strides 2 ?g fresh_slots ! Suc 0 = 1"
    using take_eq_nth [OF strides_slots [OF grid_plain(2) [OF assms(1) assms(2) [symmetric]], of fresh_slots], of 0]
      take_eq_nth [OF strides_slots [OF grid_plain(2) [OF assms(1) assms(2) [symmetric]], of fresh_slots], of 1] assms(3,4)
    by (simp_all add: blocks_of_def)
  have l: "2 \<le> length (c_extchunkshape (catarr c))" and t: "take 2 (c_extchunkshape (catarr c)) = [ceil_blocks a x * x, ceil_blocks b y * y]"
    and nd: "c_ndim (catarr c) = 2"
    using assms(1-4) by (auto simp: plain_container_def caterva_holds_def blocks_of_def dest: arg_cong [where f = length])
  have "extchunknitems (catarr c) = (ceil_blocks a x * x) * (ceil_blocks b y * y)" by (simp add: extchunknitems_def nd t)
  also have "\<dots> = (ceil_blocks a x * ceil_blocks b y) * (x * y)" by (simp add: ac_simps)
  finally have k: "cdiv (extchunknitems (catarr c)) (blocknitems (catarr c)) = ceil_blocks a x * ceil_blocks b y"
    using plain_counts(1) [OF assms(1)] assms(4) f(17,18) g by (simp add: cdiv_nonneg)
  have "cdiv (cmod w (ceil_blocks a x * ceil_blocks b y)) (ceil_blocks b y) = w div ceil_blocks b y"
    "cdiv (cmod w (ceil_blocks b y)) 1 = w mod ceil_blocks b y"
    using assms(5,6) g by (simp_all add: c_arith)
  then show ?thesis
    using assms(2) f s k by (simp add: gemm_prefilter_block_info_def Let_def set_prefix_nth set_prefix_eq numeral_2_eq_2)
qed

text \<open>
  What the caches hold for a chunk whose first item has the index \<open>[i0, j0]\<close>: \<open>rows\<close> and \<open>cols\<close> are the numbers of
  rows and columns of the chunk inside the array; the cache of the columns is divided in strips of \<open>y\<close> of them.
\<close>

definition holds_rows :: "int \<Rightarrow> (int \<Rightarrow> int \<Rightarrow> ina_val) \<Rightarrow> int \<Rightarrow> int \<Rightarrow> ina_val list \<Rightarrow> bool" where
  "holds_rows k F i0 rows cache \<longleftrightarrow> (\<forall>i l. 0 \<le> i \<longrightarrow> i < rows \<longrightarrow> 0 \<le> l \<longrightarrow> l < k \<longrightarrow> cache ! nat (i * k + l) = F (i0 + i) l)"

definition holds_columns :: "int \<Rightarrow> int \<Rightarrow> (int \<Rightarrow> int \<Rightarrow> ina_val) \<Rightarrow> int \<Rightarrow> int \<Rightarrow> ina_val list \<Rightarrow> bool" where
  "holds_columns k y G j0 cols cache \<longleftrightarrow> (\<forall>l t j. 0 \<le> l \<longrightarrow> l < k \<longrightarrow> 0 \<le> t \<longrightarrow> 0 \<le> j \<longrightarrow> j < y \<longrightarrow> t * y + j < cols \<longrightarrow>
     cache ! nat (t * (k * y) + l * y + j) = G l (j0 + (t * y + j)))"

lemma nth_drop_int: "0 \<le> s \<Longrightarrow> 0 \<le> i \<Longrightarrow> s \<le> int (length xs) \<Longrightarrow> drop (nat s) xs ! nat i = xs ! nat (s + i)"
  by (simp add: nat_add_distrib)

lemma gemm_prefilter_product:
  assumes plain: "plain_container c" "ndim (dtshape c) = 2" "ns_of c = [m, n]" "cs_of c = [a, b]" "bs_of c = [x, y]"
    and "gemm_spec (la_blas env)" "dtype (dtshape c) \<in> {IARRAY_DATA_TYPE_DOUBLE, IARRAY_DATA_TYPE_FLOAT}"
    and k: "shape (dtshape A) ! 1 = k" "shape (dtshape B) ! 0 = k" "0 < k"
    and q: "0 \<le> q" "q < ceil_blocks m a * ceil_blocks n b" and w: "0 \<le> w" "w < ceil_blocks a x * ceil_blocks b y"
    and "int (length out) = x * y" "ceil_blocks a x * x * k \<le> int (length cache_a)" "k * (ceil_blocks b y * y) \<le> int (length cache_b)"
    and rows: "holds_rows k (\<lambda>i l. VFp (Fin (\<alpha> i l))) (q div ceil_blocks n b * a) (min a (m - q div ceil_blocks n b * a)) cache_a"
    and cols: "holds_columns k y (\<lambda>l j. VFp (Fin (\<beta> l j))) (q mod ceil_blocks n b * b) (min b (n - q mod ceil_blocks n b * b)) cache_b"
    and exact: "exact_entries (dtype (dtshape c)) m k n \<alpha> \<beta>"
  shows "\<exists>block. gemm_prefilter env A B c cache_a cache_b out w = Inr block \<and> right_block c (mat_product k \<alpha> \<beta>) q w block"
proof -
  note f = plain_two_fields [OF plain]
  let ?s0 = "w div ceil_blocks b y * x" and ?s1 = "w mod ceil_blocks b y * y"
  let ?i0 = "q div ceil_blocks n b * a" and ?j0 = "q mod ceil_blocks n b * b"
  let ?a = "drop (nat (?s0 * k)) cache_a" and ?b = "drop (nat (?s1 * k)) cache_b"
  let ?r = "gemm (la_blas env) (dtype (dtshape c)) x y k ?a k ?b y False out y"
  have g: "0 < ceil_blocks b y" using f by (simp add: ceil_blocks_pos)
  have wd: "0 \<le> w div ceil_blocks b y" "w div ceil_blocks b y < ceil_blocks a x" "0 \<le> w mod ceil_blocks b y" "w mod ceil_blocks b y < ceil_blocks b y"
    using div_mod_less [OF w g] by simp_all
  have "0 < ceil_blocks n b" using f by (simp add: ceil_blocks_pos)
  then have ij: "0 \<le> ?i0" "0 \<le> ?j0" using div_mod_less [OF q] f by simp_all
  have s0: "0 \<le> ?s0" "?s0 + x \<le> ceil_blocks a x * x" "0 \<le> ?s1" "?s1 + y \<le> ceil_blocks b y * y"
    using wd f(17,18) mult_right_mono [of "w div ceil_blocks b y + 1" "ceil_blocks a x" x]
      mult_right_mono [of "w mod ceil_blocks b y + 1" "ceil_blocks b y" y] by (simp_all add: distrib_right)
  have ka: "(?s0 + x) * k \<le> int (length cache_a)" "(?s1 + y) * k \<le> int (length cache_b)"
    using order_trans [OF mult_right_mono [OF s0(2), of k] assms(16)] order_trans [OF mult_right_mono [OF s0(4), of k], of "int (length cache_b)"]
      k(3) assms(17) by (simp_all add: mult.commute [of _ k])
  then have le: "?s0 * k \<le> int (length cache_a)" "?s1 * k \<le> int (length cache_b)" "0 \<le> ?s0 * k" "0 \<le> ?s1 * k"
    using mult_nonneg_nonneg [of x k] mult_nonneg_nonneg [of y k] mult_nonneg_nonneg [OF s0(1), of k] mult_nonneg_nonneg [OF s0(3), of k]
      k(3) f(17,18) unfolding distrib_right by linarith+
  have la: "(x - 1) * k + k \<le> int (length ?a)" "(k - 1) * y + y \<le> int (length ?b)"
    using ka le by (simp_all add: algebra_simps)
  have spec: "length ?r = length out"
    "0 \<le> i \<Longrightarrow> i < x \<Longrightarrow> 0 \<le> j \<Longrightarrow> j < y \<Longrightarrow>
      (\<And>l. 0 \<le> l \<Longrightarrow> l < k \<Longrightarrow> ?a ! nat (i * k + l) = VFp (Fin (\<alpha>' l)) \<and> ?b ! nat (l * y + j) = VFp (Fin (\<beta>' l))) \<Longrightarrow>
      exact_dot (dtype (dtshape c)) 0 (map (\<lambda>l. \<alpha>' l * \<beta>' l) (below k)) \<Longrightarrow>
      ?r ! nat (i * y + j) = VFp (Fin (\<Sum>l\<leftarrow>below k. \<alpha>' l * \<beta>' l))" for i j \<alpha>' \<beta>'
  proof -
    have h: "(x - 1) * y + y \<le> int (length out)" using assms(15) by (simp add: left_diff_distrib)
    note sp = assms(6) [unfolded gemm_spec_def Let_def, rule_format, OF assms(7) f(17,18) k(3) order.refl order.refl order.refl la h, of False]
    show "length ?r = length out" using sp by blast
    show "0 \<le> i \<Longrightarrow> i < x \<Longrightarrow> 0 \<le> j \<Longrightarrow> j < y \<Longrightarrow>
      (\<And>l. 0 \<le> l \<Longrightarrow> l < k \<Longrightarrow> ?a ! nat (i * k + l) = VFp (Fin (\<alpha>' l)) \<and> ?b ! nat (l * y + j) = VFp (Fin (\<beta>' l))) \<Longrightarrow>
      exact_dot (dtype (dtshape c)) 0 (map (\<lambda>l. \<alpha>' l * \<beta>' l) (below k)) \<Longrightarrow>
      ?r ! nat (i * y + j) = VFp (Fin (\<Sum>l\<leftarrow>below k. \<alpha>' l * \<beta>' l))"
      using sp by simp
  qed
  have "gemm_prefilter env A B c cache_a cache_b out w = Inr ?r"
    using assms(7) by (auto simp: gemm_prefilter_def gemm_block_info [OF plain(1,2,4,5) w] blas_type_def f k Let_def simp del: One_nat_def)
  moreover have "?r ! nat e = mat_product k \<alpha> \<beta> (item_at [m, n] [a, b] [x, y] q w e)"
    if e: "0 \<le> e" "e < x * y" and lv: "live [m, n] [a, b] [x, y] q w e" for e
  proof -
    note d = div_mod_less [OF e f(18)]
    have v: "?s0 + e div y < min a (m - ?i0)" "?s1 + e mod y < min b (n - ?j0)" using lv by (simp_all add: live2)
    have "?a ! nat (e div y * k + l) = VFp (Fin (\<alpha> (?i0 + (?s0 + e div y)) l))" if l: "0 \<le> l" "l < k" for l
    proof -
      have "?a ! nat (e div y * k + l) = cache_a ! nat ((?s0 + e div y) * k + l)"
        using le l d k(3) by (subst nth_drop_int) (simp_all add: distrib_right add.assoc)
      also have "\<dots> = VFp (Fin (\<alpha> (?i0 + (?s0 + e div y)) l))" using rows v(1) l s0 d unfolding holds_rows_def by simp
      finally show ?thesis .
    qed
    moreover have "?b ! nat (l * y + e mod y) = VFp (Fin (\<beta> l (?j0 + (?s1 + e mod y))))" if l: "0 \<le> l" "l < k" for l
    proof -
      have "?b ! nat (l * y + e mod y) = cache_b ! nat (w mod ceil_blocks b y * (k * y) + l * y + e mod y)"
        using le l d f(18) by (subst nth_drop_int) (simp_all add: ac_simps)
      also have "\<dots> = VFp (Fin (\<beta> l (?j0 + (?s1 + e mod y))))" using cols v(2) l wd d unfolding holds_columns_def by simp
      finally show ?thesis .
    qed
    moreover have "exact_dot (dtype (dtshape c)) 0 (map (\<lambda>l. \<alpha> (?i0 + (?s0 + e div y)) l * \<beta> l (?j0 + (?s1 + e mod y))) (below k))"
      by (rule exact_entriesD [OF exact]) (use v s0 d ij in simp_all)
    ultimately have "?r ! nat (e div y * y + e mod y) =
        VFp (Fin (\<Sum>l\<leftarrow>below k. \<alpha> (?i0 + (?s0 + e div y)) l * \<beta> l (?j0 + (?s1 + e mod y))))"
      using d by (intro spec(2)) simp_all
    then show ?thesis by (simp add: mat_product_def item_at2)
  qed
  ultimately show ?thesis using spec(1) assms(15) plain by (simp add: right_block_def)
qed


section \<open>The loop over the chunks\<close>

lemma upt_two: "[0..<2] = [0, 1 :: nat]"
  by (simp add: upt_rec)

lemma nth_two: "[x, y] ! 0 = x" "[x, y] ! 1 = y"
  by simp_all

lemma cut_chunk_min: "cut_chunk c i e = min (c_chunkshape (catarr c) ! i) (c_shape (catarr c) ! i - e)"
  by (auto simp: cut_chunk_def)

lemma columns_read:
  assumes "0 < y" "0 \<le> k" "0 \<le> cols" "cols \<le> g * y" "k * (g * y) \<le> int (length aux)" "k * (g * y) \<le> int (length cache)" "0 \<le> g"
    and "\<And>l j. 0 \<le> l \<Longrightarrow> l < k \<Longrightarrow> 0 \<le> j \<Longrightarrow> j < cols \<Longrightarrow> aux ! nat (l * (g * y) + j) = G l (j0 + j)"
  shows "holds_columns k y G j0 cols (gemm_repart_caches k (g * y) y aux cache)"
  unfolding holds_columns_def
proof (intro allI impI)
  fix l t j :: int
  assume h: "0 \<le> l" "l < k" "0 \<le> t" "0 \<le> j" "j < y" "t * y + j < cols"
  then have "t * y < g * y" using assms(4) by linarith
  then have "t < g" using assms(1) by simp
  then have "gemm_repart_caches k (g * y) y aux cache ! nat (t * (k * y) + l * y + j) = aux ! nat (l * (g * y) + t * y + j)"
    using h assms by (intro gemm_repart_caches(2)) simp_all
  also have "\<dots> = G l (j0 + (t * y + j))" using assms(8) [of l "t * y + j"] h assms(1) by (simp add: add.assoc)
  finally show "gemm_repart_caches k (g * y) y aux cache ! nat (t * (k * y) + l * y + j) = G l (j0 + (t * y + j))" .
qed

text \<open>
  The state before the chunk \<open>q\<close> of the loop is compressed: the columns in the cache are those of the chunk before it, and
  the chunks so far have their places in the order.
\<close>

definition gemm_inv :: "int \<Rightarrow> (int \<Rightarrow> int \<Rightarrow> ina_val) \<Rightarrow> 'd container \<Rightarrow> int \<Rightarrow> gemm_state \<Rightarrow> bool" where
  "gemm_inv k G c q s \<longleftrightarrow>
     (let cat = catarr c; b = c_chunkshape cat ! 1; rows = ceil_blocks (c_shape cat ! 0) (c_chunkshape cat ! 0);
          cols = ceil_blocks (c_shape cat ! 1) b; width = k * c_extchunkshape cat ! 1 in
      gs_index s = [q mod rows, q div rows] \<and> gs_row s = (if q = 0 then -1 else (q - 1) div rows) \<and>
      int (length (gs_cache_a s)) = max (c_extchunkshape cat ! 0 * k) width \<and> int (length (gs_cache_b s)) = width \<and>
      (q \<noteq> 0 \<longrightarrow> holds_columns k (c_blockshape cat ! 1) G ((q - 1) div rows * b) (min b (c_shape cat ! 1 - (q - 1) div rows * b)) (gs_cache_b s)) \<and>
      int (length (gs_order s)) = rows * cols \<and>
      (\<forall>p. 0 \<le> p \<longrightarrow> p < q \<longrightarrow> gs_order s ! nat (by_rows rows cols p) = p))"

definition gemm_loaded :: "int \<Rightarrow> (int \<Rightarrow> int \<Rightarrow> ina_val) \<Rightarrow> (int \<Rightarrow> int \<Rightarrow> ina_val) \<Rightarrow> 'd container \<Rightarrow> int \<Rightarrow> gemm_state \<Rightarrow> bool" where
  "gemm_loaded k F G c q s \<longleftrightarrow>
     (let cat = catarr c; a = c_chunkshape cat ! 0; b = c_chunkshape cat ! 1; rows = ceil_blocks (c_shape cat ! 0) a;
          cols = ceil_blocks (c_shape cat ! 1) b; width = k * c_extchunkshape cat ! 1 in
      gs_index s = [q mod rows, q div rows] \<and> gs_row s = q div rows \<and>
      int (length (gs_cache_a s)) = max (c_extchunkshape cat ! 0 * k) width \<and> int (length (gs_cache_b s)) = width \<and>
      holds_rows k F (q mod rows * a) (min a (c_shape cat ! 0 - q mod rows * a)) (gs_cache_a s) \<and>
      holds_columns k (c_blockshape cat ! 1) G (q div rows * b) (min b (c_shape cat ! 1 - q div rows * b)) (gs_cache_b s) \<and>
      int (length (gs_order s)) = rows * cols \<and>
      (\<forall>p. 0 \<le> p \<longrightarrow> p < q \<longrightarrow> gs_order s ! nat (by_rows rows cols p) = p))"

lemma gemm_load_caches:
  assumes plain: "plain_container c" "ndim (dtshape c) = 2" "ns_of c = [m, n]" "cs_of c = [a, b]" "bs_of c = [x, y]"
    and ops: "matrix env A F" "matrix env B G" "omatcopy_spec (la_omatcopy env)"
    and shs: "shape (dtshape A) ! 0 = m" "shape (dtshape A) ! 1 = k" "shape (dtshape B) ! 0 = k" "shape (dtshape B) ! 1 = n" "0 < k"
    and "dtype (dtshape A) = dtype (dtshape c)" "dtype (dtshape B) = dtype (dtshape c)"
    and q: "0 \<le> q" "q < ceil_blocks m a * ceil_blocks n b" and inv: "gemm_inv k G c q s"
  shows "\<exists>t. gemm_load env A B c s q = Inr t \<and> gemm_loaded k F G c q t"
proof -
  note f = plain_two_fields [OF plain]
  let ?rows = "ceil_blocks m a" and ?cols = "ceil_blocks n b" and ?e0 = "ceil_blocks a x * x" and ?e1 = "ceil_blocks b y * y"
  let ?I = "q mod ?rows" and ?J = "q div ?rows"
  let ?h = "min a (m - ?I * a)" and ?v = "min b (n - ?J * b)"
  have g: "0 < ?rows" using f by (simp add: ceil_blocks_pos)
  have IJ: "0 \<le> ?J" "?J < ?cols" "0 \<le> ?I" "?I < ?rows" using div_mod_less [of q ?cols ?rows] q g by (simp_all add: mult.commute)
  have inside: "?I * a < m" "?J * b < n" using block_start_less [of ?I m a] block_start_less [of ?J n b] IJ f by simp_all
  have e: "a \<le> ?e0" "b \<le> ?e1" using ceil_blocks_mult_ge(1) f by simp_all
  have cut: "0 \<le> ?I * a" "0 \<le> ?h" "?I * a + ?h \<le> m" "?h \<le> ?e0" "0 \<le> ?J * b" "0 \<le> ?v" "?J * b + ?v \<le> n" "?v \<le> ?e1"
    using IJ inside f(15,16) e mult_nonneg_nonneg [OF IJ(3), of a] mult_nonneg_nonneg [OF IJ(1), of b] by linarith+
  have sz: "c_itemsize (catarr c) = itemsize_of (dtype (dtshape c))" by (rule plain_counts(6) [OF plain(1)])
  have i: "gs_index s = [?I, ?J]" "gs_row s = (if q = 0 then -1 else (q - 1) div ?rows)"
    "int (length (gs_cache_a s)) = max (?e0 * k) (k * ?e1)" "int (length (gs_cache_b s)) = k * ?e1"
    "q \<noteq> 0 \<Longrightarrow> holds_columns k y G ((q - 1) div ?rows * b) (min b (n - (q - 1) div ?rows * b)) (gs_cache_b s)"
    using inv unfolding gemm_inv_def Let_def f by simp_all
  define s1 where "s1 = (if gs_row s \<noteq> ?J then
      let aux = (case iarray_get_slice_buffer_raw (la_get_slice env) (la_omatcopy env) B [0, ?J * b] [k, ?J * b + ?v] [k, ?e1] (k * ?e1 * c_itemsize (catarr c)) of
                  Inl _ \<Rightarrow> gs_cache_a s | Inr buf \<Rightarrow> write_at 0 buf (gs_cache_a s))
      in s\<lparr>gs_row := ?J, gs_cache_a := aux, gs_cache_b := gemm_repart_caches k ?e1 y aux (gs_cache_b s)\<rparr> else s)"
  have s1: "gs_index s1 = [?I, ?J]" "gs_row s1 = ?J" "gs_order s1 = gs_order s" "length (gs_cache_a s1) = length (gs_cache_a s)"
    "length (gs_cache_b s1) = length (gs_cache_b s)" "holds_columns k y G (?J * b) ?v (gs_cache_b s1)"
  proof -
    have "\<exists>buf. iarray_get_slice_buffer_raw (la_get_slice env) (la_omatcopy env) B [0, ?J * b] [k, ?J * b + ?v] [k, ?e1]
        (k * ?e1 * c_itemsize (catarr c)) = Inr buf \<and> int (length buf) = k * ?e1 \<and>
      (\<forall>l j. 0 \<le> l \<longrightarrow> l < k - 0 \<longrightarrow> 0 \<le> j \<longrightarrow> j < ?J * b + ?v - ?J * b \<longrightarrow> buf ! nat (l * ?e1 + j) = G (0 + l) (?J * b + j))"
      by (rule matrix_slice [OF ops(2,3)]) (use cut e shs sz assms(15) in simp_all)
    then obtain buf where buf: "iarray_get_slice_buffer_raw (la_get_slice env) (la_omatcopy env) B [0, ?J * b] [k, ?J * b + ?v] [k, ?e1]
        (k * ?e1 * c_itemsize (catarr c)) = Inr buf" "int (length buf) = k * ?e1"
      "\<And>l j. 0 \<le> l \<Longrightarrow> l < k \<Longrightarrow> 0 \<le> j \<Longrightarrow> j < ?v \<Longrightarrow> buf ! nat (l * ?e1 + j) = G l (?J * b + j)"
      by auto
    let ?aux = "write_at 0 buf (gs_cache_a s)"
    have aux: "length ?aux = length (gs_cache_a s)" "?aux = buf @ drop (length buf) (gs_cache_a s)"
      using i(3) buf(2) by (simp_all add: length_write_at write_at_start)
    have "holds_columns k y G (?J * b) ?v (gemm_repart_caches k ?e1 y ?aux (gs_cache_b s))"
    proof (rule columns_read)
      fix l j :: int assume h: "0 \<le> l" "l < k" "0 \<le> j" "j < ?v"
      then have "l * ?e1 + j < k * ?e1" "0 \<le> l * ?e1 + j" using place_less [of l k j ?e1] e by simp_all
      then have "nat (l * ?e1 + j) < length buf" using buf(2) by simp
      then show "?aux ! nat (l * ?e1 + j) = G l (?J * b + j)" unfolding aux(2) using buf(3) [OF h] by (simp add: nth_append)
    qed (use i(3,4) aux(1) f(16,18) cut(6,8) shs(5) in \<open>simp_all add: ceil_blocks_nonneg\<close>)
    moreover have "length (gemm_repart_caches k ?e1 y ?aux (gs_cache_b s)) = length (gs_cache_b s)"
      using i(3,4) aux(1) f(16,18) shs(5) by (intro gemm_repart_caches(1) [where g = "ceil_blocks b y"]) (simp_all add: ceil_blocks_nonneg)
    moreover have "holds_columns k y G (?J * b) ?v (gs_cache_b s)" if "gs_row s = ?J"
      using that i(2,5) IJ(1) by (auto split: if_splits)
    ultimately show "gs_index s1 = [?I, ?J]" "gs_row s1 = ?J" "gs_order s1 = gs_order s" "length (gs_cache_a s1) = length (gs_cache_a s)"
      "length (gs_cache_b s1) = length (gs_cache_b s)" "holds_columns k y G (?J * b) ?v (gs_cache_b s1)"
      using i(1) buf(1) aux(1) by (simp_all add: s1_def Let_def)
  qed
  have "\<exists>buf. iarray_get_slice_buffer_raw (la_get_slice env) (la_omatcopy env) A [?I * a, 0] [?I * a + ?h, k] [?e0, k]
      (?e0 * k * c_itemsize (catarr c)) = Inr buf \<and> int (length buf) = ?e0 * k \<and>
    (\<forall>i l. 0 \<le> i \<longrightarrow> i < ?I * a + ?h - ?I * a \<longrightarrow> 0 \<le> l \<longrightarrow> l < k - 0 \<longrightarrow> buf ! nat (i * k + l) = F (?I * a + i) (0 + l))"
    by (rule matrix_slice [OF ops(1,3)]) (use cut e shs sz assms(14) in simp_all)
  then obtain buf where buf: "iarray_get_slice_buffer_raw (la_get_slice env) (la_omatcopy env) A [?I * a, 0] [?I * a + ?h, k] [?e0, k]
      (?e0 * k * c_itemsize (catarr c)) = Inr buf" "int (length buf) = ?e0 * k"
    "\<And>i l. 0 \<le> i \<Longrightarrow> i < ?h \<Longrightarrow> 0 \<le> l \<Longrightarrow> l < k \<Longrightarrow> buf ! nat (i * k + l) = F (?I * a + i) l"
    by auto
  let ?t = "s1\<lparr>gs_cache_a := write_at 0 buf (gs_cache_a s1)\<rparr>"
  have aux: "length (write_at 0 buf (gs_cache_a s1)) = length (gs_cache_a s1)" "write_at 0 buf (gs_cache_a s1) = buf @ drop (length buf) (gs_cache_a s1)"
    using i(3) buf(2) s1(4) by (simp_all add: length_write_at write_at_start)
  have "holds_rows k F (?I * a) ?h (write_at 0 buf (gs_cache_a s1))"
    unfolding holds_rows_def
  proof (intro allI impI)
    fix i l :: int assume h: "0 \<le> i" "i < ?h" "0 \<le> l" "l < k"
    then have "i * k + l < ?e0 * k" "0 \<le> i * k + l" using place_less [of i ?e0 l k] e by simp_all
    then have "nat (i * k + l) < length buf" using buf(2) by simp
    then show "write_at 0 buf (gs_cache_a s1) ! nat (i * k + l) = F (?I * a + i) l"
      unfolding aux(2) using buf(3) [OF h] by (simp add: nth_append)
  qed
  then have "gemm_loaded k F G c q ?t"
    using s1 i inv aux(1) unfolding gemm_loaded_def gemm_inv_def Let_def f by simp
  moreover have "gemm_load env A B c s q = Inr ?t"
    unfolding gemm_load_def Let_def cut_chunk_min i(1) upt_two list.map nth_two f shs s1_def [unfolded Let_def, symmetric] buf(1) res_bind_simps ..
  ultimately show ?thesis by blast
qed


lemma gemm_load_map_data: "gemm_load env A B (map_data f c) = gemm_load env A B c"
  unfolding gemm_load_def [abs_def] Let_def cut_chunk_def map_data_sizes ..

lemma gemm_prefilter_map_data: "gemm_prefilter env A B (map_data f c) = gemm_prefilter env A B c"
  unfolding gemm_prefilter_def [abs_def] gemm_prefilter_block_info_def Let_def map_data_sizes map_data_fields ..

definition gemm_advance :: "int \<Rightarrow> int \<Rightarrow> gemm_state \<Rightarrow> int \<Rightarrow> gemm_state" where
  "gemm_advance rows cols s nchunk = s\<lparr>gs_order := (gs_order s)[nat (gs_index s ! 1 + gs_index s ! 0 * cols) := nchunk],
     gs_index := [cmod (nchunk + 1) rows, cdiv (nchunk + 1) rows]\<rparr>"

lemma gemm_advance_inv:
  assumes "plain_container c" "ndim (dtshape c) = 2" "ns_of c = [m, n]" "cs_of c = [a, b]" "bs_of c = [x, y]"
    and "0 \<le> q" "q < ceil_blocks m a * ceil_blocks n b" "gemm_loaded k F G c q s"
  shows "gemm_inv k G c (q + 1) (gemm_advance (ceil_blocks m a) (ceil_blocks n b) s q)"
proof -
  note f = plain_two_fields [OF assms(1-5)]
  let ?rows = "ceil_blocks m a" and ?cols = "ceil_blocks n b"
  have g: "0 < ?rows" using f by (simp add: ceil_blocks_pos)
  have l: "gs_index s = [q mod ?rows, q div ?rows]" "int (length (gs_order s)) = ?rows * ?cols"
    "\<And>p. 0 \<le> p \<Longrightarrow> p < q \<Longrightarrow> gs_order s ! nat (by_rows ?rows ?cols p) = p"
    using assms(8) unfolding gemm_loaded_def Let_def f by simp_all
  have pos: "gs_index s ! 1 + gs_index s ! 0 * ?cols = by_rows ?rows ?cols q" by (simp add: l(1) by_rows_def)
  have r: "0 \<le> by_rows ?rows ?cols p" "by_rows ?rows ?cols p < ?rows * ?cols" "by_rows ?cols ?rows (by_rows ?rows ?cols p) = p"
    if "0 \<le> p" "p \<le> q" for p
    using by_rows(1,2,5) [of p ?rows ?cols] that assms(7) g by simp_all
  have "(gs_order s)[nat (by_rows ?rows ?cols q) := q] ! nat (by_rows ?rows ?cols p) = p" if "0 \<le> p" "p < q + 1" for p
  proof (cases "p = q")
    case True
    then show ?thesis using r [of q] l(2) assms(6) by simp
  next
    case False
    then have "by_rows ?rows ?cols p \<noteq> by_rows ?rows ?cols q" using r(3) [of p] r(3) [of q] that by auto
    then show ?thesis using l(3) [of p] r(1) [of p] r(1) [of q] that False assms(6) by (simp add: nat_eq_iff)
  qed
  then show ?thesis
    using assms(6,8) l(2) g unfolding gemm_loaded_def gemm_inv_def gemm_advance_def pos Let_def f by (simp add: c_arith)
qed

lemma chunk_blocks_mono:
  "chunk_blocks api c q R \<Longrightarrow> (\<And>w block. 0 \<le> w \<Longrightarrow> w < block_count (cs_of c) (bs_of c) \<Longrightarrow> R w block \<Longrightarrow> R' w block) \<Longrightarrow> chunk_blocks api c q R'"
  unfolding chunk_blocks_def by blast

lemma gemm_blosc_stores:
  assumes "construct_with (la_create env) d st = Inr c"
    and plain: "plain_container c" "ndim (dtshape c) = 2" "ns_of c = [m, n]" "cs_of c = [a, b]" "bs_of c = [x, y]"
    and calls: "schunk_spec (get_lazychunk (la_api env)) (update_chunk (la_api env)) (la_create env)"
      "blosc_exact (la_api env) (la_cparams env c)" "reorder_spec (la_api env) (la_reorder env)"
      "gemm_spec (la_blas env)" "omatcopy_spec (la_omatcopy env)"
    and mem: "\<And>i. 0 \<le> i \<Longrightarrow> int (length (la_fresh env i)) = i" "\<And>q w. int (length (la_out env q w)) = x * y"
    and ops: "matrix env A (\<lambda>i j. VFp (Fin (\<alpha> i j)))" "matrix env B (\<lambda>i j. VFp (Fin (\<beta> i j)))"
    and shs: "shape (dtshape A) ! 0 = m" "shape (dtshape A) ! 1 = k" "shape (dtshape B) ! 0 = k" "shape (dtshape B) ! 1 = n" "0 < k"
    and dts: "dtype (dtshape A) = dtype (dtshape c)" "dtype (dtshape B) = dtype (dtshape c)"
      "dtype (dtshape c) \<in> {IARRAY_DATA_TYPE_DOUBLE, IARRAY_DATA_TYPE_FLOAT}"
    and exact: "exact_entries (dtype (dtshape c)) m k n \<alpha> \<beta>"
  shows "\<exists>x. gemm_blosc env A B c = Inr (map_data (\<lambda>_. x) c) \<and> stores (la_api env) (map_data (\<lambda>_. x) c) (mat_product k \<alpha> \<beta>)"
proof -
  note f = plain_two_fields [OF plain]
  let ?rows = "ceil_blocks m a" and ?cols = "ceil_blocks n b" and ?api = "la_api env" and ?M = "mat_product k \<alpha> \<beta>"
  let ?F = "\<lambda>i j. VFp (Fin (\<alpha> i j))" and ?G = "\<lambda>i j. VFp (Fin (\<beta> i j))" and ?N = "ceil_blocks m a * ceil_blocks n b"
  define load where "load = (\<lambda>c. gemm_load env A B c)"
  define pf where "pf = (\<lambda>c (s :: gemm_state) nchunk nblock. gemm_prefilter env A B c (gs_cache_a s) (gs_cache_b s) (la_out env nchunk nblock) nblock)"
  let ?wb = "k * (ceil_blocks b y * y)" and ?wa = "ceil_blocks a x * x * k"
  define s0 where "s0 = \<lparr>gs_index = [0, 0], gs_row = -1, gs_cache_a = la_fresh env (max ?wa ?wb), gs_cache_b = la_fresh env ?wb,
    gs_order = replicate (nat ?N) 0\<rparr>"
  have g: "0 < ?rows" "0 < ?cols" "0 < ceil_blocks a x" "0 < ceil_blocks b y" using f by (simp_all add: ceil_blocks_pos)
  have N: "cdiv (extnitems (catarr c)) (chunknitems (catarr c)) = ?N" "?N = block_count (ns_of c) (cs_of c)"
    using plain_counts(4) [OF plain(1)] plain by (simp_all add: block_count_def blocks_of_def)
  have grid: "cdiv (?rows * a) a = ?rows" "cdiv (?cols * b) b = ?cols" using g f by (simp_all add: cdiv_nonneg)
  have init: "gemm_inv k ?G c 0 s0"
    using mem(1) [of ?wb] mem(1) [of "max ?wa ?wb"] shs(5) f(17,18) g unfolding gemm_inv_def s0_def Let_def f by simp
  have sizes: "typesize (la_cparams env c) = c_itemsize (catarr c)" "blocksize (la_cparams env c) = blocknitems (catarr c) * c_itemsize (catarr c)"
    by (simp_all add: la_cparams_def)
  have bc: "block_count (cs_of c) (bs_of c) = ceil_blocks a x * ceil_blocks b y" using plain by (simp add: block_count_def blocks_of_def)
  have "\<exists>z s'. compress_loading ?api (la_cparams env c) load pf (gemm_advance ?rows ?cols) ?N (c, s0) = Inr (map_data (\<lambda>_. z) c, s') \<and>
      gemm_inv k ?G c ?N s' \<and> (\<forall>q. 0 \<le> q \<longrightarrow> q < ?N \<longrightarrow> chunk_blocks ?api (map_data (\<lambda>_. z) c) q (\<lambda>w. right_block c ?M (by_rows ?rows ?cols q) w))"
  proof (rule compress_loading_blocks [where I = "gemm_inv k ?G c" and L = "gemm_loaded k ?F ?G c", OF assms(1) plain(1) calls(1,2) sizes N(2) init])
    fix z s q assume q: "0 \<le> q" "q < ?N" "gemm_inv k ?G c q s"
    show "\<exists>t. load (map_data (\<lambda>_. z) c) s q = Inr t \<and> gemm_loaded k ?F ?G c q t"
      unfolding load_def gemm_load_map_data
      using gemm_load_caches [OF plain ops calls(5) shs dts(1,2) q] .
  next
    fix t q assume q: "0 \<le> q" "q < ?N" "gemm_loaded k ?F ?G c q t"
    show "gemm_inv k ?G c (q + 1) (gemm_advance ?rows ?cols t q)" by (rule gemm_advance_inv [OF plain q])
    fix z w assume w: "0 \<le> w" "w < block_count (cs_of c) (bs_of c)"
    have t: "?wa \<le> int (length (gs_cache_a t))" "?wb \<le> int (length (gs_cache_b t))"
      "holds_rows k ?F (q mod ?rows * a) (min a (m - q mod ?rows * a)) (gs_cache_a t)"
      "holds_columns k y ?G (q div ?rows * b) (min b (n - q div ?rows * b)) (gs_cache_b t)"
      using q(3) unfolding gemm_loaded_def Let_def f by simp_all
    note r = by_rows [OF q(1,2) g(1)]
    have "\<exists>block. gemm_prefilter env A B c (gs_cache_a t) (gs_cache_b t) (la_out env q w) w = Inr block \<and>
        right_block c ?M (by_rows ?rows ?cols q) w block"
      by (rule gemm_prefilter_product [OF plain calls(4) dts(3) shs(2,3,5) r(1,2) w [unfolded bc] mem(2) t(1,2)])
        (use t(3,4) r(3,4) exact in simp_all)
    then show "\<exists>block. pf (map_data (\<lambda>_. z) c) t q w = Inr block \<and> int (length block) = prod_list (bs_of c) \<and>
        right_block c ?M (by_rows ?rows ?cols q) w block"
      unfolding pf_def gemm_prefilter_map_data by (auto simp: right_block_def)
  qed
  then obtain z s' where z: "compress_loading ?api (la_cparams env c) load pf (gemm_advance ?rows ?cols) ?N (c, s0) = Inr (map_data (\<lambda>_. z) c, s')"
    "gemm_inv k ?G c ?N s'"
    "\<And>q. 0 \<le> q \<Longrightarrow> q < ?N \<Longrightarrow> chunk_blocks ?api (map_data (\<lambda>_. z) c) q (\<lambda>w. right_block c ?M (by_rows ?rows ?cols q) w)"
    by blast
  let ?z = "la_reorder env z (gs_order s')"
  have run: "gemm_blosc env A B c = Inr (map_data (\<lambda>_. ?z) c)"
    using z(1) unfolding gemm_blosc_def Let_def N(1) f shs grid load_def pf_def s0_def gemm_advance_def
    by (simp add: plain_map_data comp_def)
  have o: "int (length (gs_order s')) = ?N" "\<And>p. 0 \<le> p \<Longrightarrow> p < ?N \<Longrightarrow> gs_order s' ! nat (by_rows ?rows ?cols p) = p"
    using z(2) unfolding gemm_inv_def Let_def f by simp_all
  have inv: "0 \<le> by_rows ?cols ?rows i" "by_rows ?cols ?rows i < ?N" "by_rows ?rows ?cols (by_rows ?cols ?rows i) = i" if "0 \<le> i" "i < ?N" for i
    using by_rows(1,2,5) [of i ?cols ?rows] that g(2) by (simp_all add: mult.commute)
  have at: "gs_order s' ! nat i = by_rows ?cols ?rows i" if "0 \<le> i" "i < ?N" for i
    using o(2) [OF inv(1,2) [OF that]] inv(3) [OF that] by simp
  have order: "gs_order s' = map (by_rows ?cols ?rows) (below ?N)"
    using o(1) at [of "int i" for i] by (intro nth_equalityI) (auto simp: below_nth)
  have "inj_on (by_rows ?cols ?rows) (set (below ?N))" by (rule inj_on_inverseI [where g = "by_rows ?rows ?cols"]) (use inv(3) in simp)
  moreover have "by_rows ?cols ?rows ` set (below ?N) = set (below ?N)"
  proof (intro equalityI image_subsetI subsetI)
    fix i assume "i \<in> set (below ?N)"
    then show "by_rows ?cols ?rows i \<in> set (below ?N)" using inv(1,2) by simp
  next
    fix i assume "i \<in> set (below ?N)"
    then have "i = by_rows ?cols ?rows (by_rows ?rows ?cols i)" "by_rows ?rows ?cols i \<in> set (below ?N)"
      using by_rows(1,2,5) [of i ?rows ?cols] g(1) by simp_all
    then show "i \<in> by_rows ?cols ?rows ` set (below ?N)" by (rule image_eqI)
  qed
  ultimately have perm: "distinct (gs_order s')" "set (gs_order s') = set (below (int (length (gs_order s'))))"
    unfolding order set_map by (simp_all only: distinct_map distinct_below length_map length_below int_nat_eq) (use o(1) in simp)
  have "get_lazychunk ?api z i \<noteq> None" if "0 \<le> i" "i < ?N" for i
    using z(3) [OF that] by (auto simp: chunk_blocks_def)
  then have re: "get_lazychunk ?api ?z i = get_lazychunk ?api z (by_rows ?cols ?rows i)" if "0 \<le> i" "i < ?N" for i
    using calls(3) perm that o(1) at [OF that] unfolding reorder_spec_def by metis
  have "stores_chunk ?api (map_data (\<lambda>_. ?z) c) ?M i" if i: "0 \<le> i" "i < ?N" for i
  proof -
    have "chunk_blocks ?api (map_data (\<lambda>_. ?z) c) i (\<lambda>w. right_block c ?M i w)"
      using z(3) [OF inv(1,2) [OF i]] re [OF i] inv(3) [OF i] by (simp add: chunk_blocks_def plain_map_data)
    then show ?thesis unfolding chunk_blocks_stores by (rule chunk_blocks_mono) (simp add: right_block_def plain_map_data)
  qed
  then have "stores ?api (map_data (\<lambda>_. ?z) c) ?M" using N(2) by (simp add: stores_def plain_map_data)
  then show ?thesis using run by blast
qed


section \<open>The product of two matrices\<close>

text \<open>What the products rely on, each the documented behaviour of a call when nothing fails and no codec loses anything.\<close>

definition exact_products :: "('d, 'k) linalg_env \<Rightarrow> bool" where
  "exact_products env \<longleftrightarrow> caterva_create_spec (la_create env) \<and>
     schunk_spec (get_lazychunk (la_api env)) (update_chunk (la_api env)) (la_create env) \<and>
     (\<forall>ts bs. blosc_exact (la_api env) (iarray_create_blosc_cparams (la_zfp env) (la_defaults env) (la_cfg env) ts bs)) \<and>
     reorder_spec (la_api env) (la_reorder env) \<and> gemm_spec (la_blas env) \<and> gemv_spec (la_blas env) \<and>
     omatcopy_spec (la_omatcopy env) \<and> (\<forall>i. 0 \<le> i \<longrightarrow> int (length (la_fresh env i)) = i)"

definition product_shape :: "'d container \<Rightarrow> 'd container \<Rightarrow> iarray_dtshape" where
  "product_shape a b = (let nb = ndim (dtshape b) in \<lparr> dtype = dtype (dtshape a), dtype_size = 0, ndim = nb,
     shape = (replicate IARRAY_DIMENSION_MAX 0)[0 := shape (dtshape a) ! 0, 1 := if nb > 1 then shape (dtshape b) ! 1 else 0] \<rparr>)"

definition holds_product :: "('d, 'k) linalg_env \<Rightarrow> 'd container \<Rightarrow> iarray_dtshape \<Rightarrow> iarray_storage \<Rightarrow> (int list \<Rightarrow> ina_val) \<Rightarrow> bool" where
  "holds_product env c d st P \<longleftrightarrow> plain_container c \<and> dtshape c = d\<lparr>dtype_size := itemsize_of (dtype d)\<rparr> \<and> storage c = st \<and>
     stores (la_api env) c P"

lemma product_created:
  assumes "exact_products env" "good_request (product_shape A B) st"
  obtains c where "construct_with (la_create env) (product_shape A B) st = Inr c" "plain_container c" "storage c = st"
    "dtshape c = (product_shape A B)\<lparr>dtype_size := itemsize_of (dtype (dtshape A))\<rparr>"
  using construct_plain [of "la_create env" "product_shape A B" st] assms by (auto simp: exact_products_def product_shape_def Let_def)

lemma matmul_checked:
  assumes "ndim (dtshape A) = 2" "ndim (dtshape B) = 1 \<or> ndim (dtshape B) = 2" "shape (dtshape A) ! 1 = shape (dtshape B) ! 0"
    "dtype (dtshape A) = dtype (dtshape B)" "good_request (product_shape A B) st" "construct_with (la_create env) (product_shape A B) st = Inr c"
  shows "iarray_linalg_matmul env A B st = (if ndim (dtshape B) = 2 then gemm_blosc env A B c else gemv_blosc env A B c)"
proof -
  have "chunkshape st ! i \<le> shape (product_shape A B) ! i" if "i < ndim (dtshape B)" for i
    using assms(5) that by (auto simp: good_request_def nested_def product_shape_def Let_def)
  then have "\<not> list_ex (\<lambda>i. shape (product_shape A B) ! i < chunkshape st ! i) [0..<ndim (dtshape B)]"
    by (auto simp: list_ex_iff not_less)
  then show ?thesis
    using assms by (auto simp: iarray_linalg_matmul_def product_shape_def Let_def iarray_empty_def)
qed

text \<open>
  Claim C13. The product of matrices: if the shapes and types of the operands fit, \<open>iarray_linalg_matmul\<close> returns an array of the
  shape asked for that stores the sums of products, whatever the chunks and blocks of the three arrays are; the operands
  may be views or transposed. The chunks of the result are computed column by column and put into row order at the end. The entries
  are integers, small enough for sums that are never rounded (\<open>exact_entries\<close>): of other sums MKL promises no value.
\<close>

theorem matmul_correct:
  assumes "exact_products env" "matrix env A (\<lambda>i j. VFp (Fin (\<alpha> i j)))" "matrix env B (\<lambda>i j. VFp (Fin (\<beta> i j)))"
    and "shape (dtshape A) ! 1 = shape (dtshape B) ! 0" "0 < shape (dtshape B) ! 0" "dtype (dtshape A) = dtype (dtshape B)"
    and "dtype (dtshape A) \<in> {IARRAY_DATA_TYPE_DOUBLE, IARRAY_DATA_TYPE_FLOAT}"
    and "good_request (product_shape A B) st" "\<And>q w. int (length (la_out env q w)) = prod_list (take 2 (blockshape st))"
    and "exact_entries (dtype (dtshape A)) (shape (dtshape A) ! 0) (shape (dtshape B) ! 0) (shape (dtshape B) ! 1) \<alpha> \<beta>"
  shows "\<exists>c. iarray_linalg_matmul env A B st = Inr c \<and>
    holds_product env c (product_shape A B) st (mat_product (shape (dtshape B) ! 0) \<alpha> \<beta>)"
proof -
  obtain c where c: "construct_with (la_create env) (product_shape A B) st = Inr c" "plain_container c" "storage c = st"
    "dtshape c = (product_shape A B)\<lparr>dtype_size := itemsize_of (dtype (dtshape A))\<rparr>"
    by (rule product_created [OF assms(1,8)])
  have n: "ndim (dtshape A) = 2" "ndim (dtshape B) = 2" using assms(2,3) by (auto simp: matrix_def)
  then have nc: "ndim (dtshape c) = 2" "dtype (dtshape c) = dtype (dtshape A)" by (simp_all add: c(4) product_shape_def Let_def)
  obtain m n' a b x y where p: "ns_of c = [m, n']" "cs_of c = [a, b]" "bs_of c = [x, y]" using plain_two [OF c(2) nc(1)] by metis
  have shs: "shape (dtshape A) ! 0 = m" "shape (dtshape B) ! 1 = n'"
    using p(1) n nc(1) by (simp_all add: ns_of_def c(4) product_shape_def Let_def take2 IARRAY_DIMENSION_MAX_def)
  have out: "prod_list (take 2 (blockshape st)) = x * y" using p(3) nc(1) by (simp add: bs_of_def c(3))
  have "\<exists>z. gemm_blosc env A B c = Inr (map_data (\<lambda>_. z) c) \<and> stores (la_api env) (map_data (\<lambda>_. z) c) (mat_product (shape (dtshape B) ! 0) \<alpha> \<beta>)"
    using assms(1) unfolding exact_products_def
    by (intro gemm_blosc_stores [OF c(1,2) nc(1) p _ _ _ _ _ _ _ assms(2,3) shs(1) assms(4) refl shs(2) assms(5)])
      (use assms(6,7,9,10) nc out shs in \<open>simp_all add: la_cparams_def\<close>)
  then obtain z where z: "gemm_blosc env A B c = Inr (map_data (\<lambda>_. z) c)"
    "stores (la_api env) (map_data (\<lambda>_. z) c) (mat_product (shape (dtshape B) ! 0) \<alpha> \<beta>)" by blast
  then show ?thesis
    using matmul_checked [OF n(1) _ assms(4,6,8) c(1)] n(2) c
    by (auto simp: holds_product_def plain_map_data product_shape_def Let_def)
qed


section \<open>The product of a matrix and a vector\<close>

definition vector :: "('d, 'k) linalg_env \<Rightarrow> 'd container \<Rightarrow> (int \<Rightarrow> ina_val) \<Rightarrow> bool" where
  "vector env c f \<longleftrightarrow> (\<exists>A. unsqueezed c \<and> ndim (dtshape c) = 1 \<and> \<not> transposed c \<and> dtype_size (dtshape c) = itemsize_of (dtype (dtshape c)) \<and>
     c_itemsize (catarr c) = itemsize_of (dtype (dtshape c)) \<and> reads_slices (la_get_slice env) (catarr c) A \<and>
     (let off = aux_offset (auxshape c) ! 0 in 0 \<le> off \<and> off + shape (dtshape c) ! 0 \<le> c_shape (catarr c) ! 0 \<and>
        c_shape (catarr c) ! 0 \<le> c_extshape (catarr c) ! 0 \<and> (\<forall>i. f i = A [off + i])))"

lemma take1: "1 \<le> length xs \<Longrightarrow> take (Suc 0) xs = [xs ! 0]"
  by (cases xs) auto

lemma vector_read:
  assumes "vector env c f" "0 \<le> shape (dtshape c) ! 0" "c_extshape (catarr c) ! 0 = e"
  shows "\<exists>buf. iarray_get_slice_buffer_raw (la_get_slice env) (la_omatcopy env) c [0] [shape (dtshape c) ! 0] [e]
      (e * c_itemsize (catarr c)) = Inr buf \<and> int (length buf) = e \<and> shape (dtshape c) ! 0 \<le> e \<and>
    (\<forall>i. 0 \<le> i \<longrightarrow> i < shape (dtshape c) ! 0 \<longrightarrow> buf ! nat i = f i)"
proof -
  let ?k = "shape (dtshape c) ! 0"
  let ?off = "aux_offset (auxshape c) ! 0" and ?s = "slice_start c [0]" and ?e = "slice_stop c [?k]" and ?b = "slice_buffer_shape c [e]"
  obtain A where u: "unsqueezed c" "ndim (dtshape c) = 1" "\<not> transposed c" "dtype_size (dtshape c) = itemsize_of (dtype (dtshape c))"
    "c_itemsize (catarr c) = itemsize_of (dtype (dtshape c))"
    and rd: "reads_slices (la_get_slice env) (catarr c) A" and o: "0 \<le> ?off" "?off + ?k \<le> c_shape (catarr c) ! 0"
      "c_shape (catarr c) ! 0 \<le> e" "\<forall>i. f i = A [?off + i]"
    using assms(1,3) unfolding vector_def Let_def by auto
  have wf: "wf_container c" using u(1) by (rule unsqueezed_wf)
  have n: "c_ndim (catarr c) = 1" and id: "aux_index (auxshape c) ! 0 = 0" using u by (auto simp: unsqueezed_def)
  have at: "?s ! 0 = ?off" "?e ! 0 = ?off + ?k" "?b ! 0 = e"
    using slice_start_at [OF wf, of 0] slice_stop_at [OF wf, of 0] slice_buffer_shape_at [OF wf, of 0] u(2) id assms(2)
    by (simp_all add: norm_bound_def)
  have t: "take 1 ?s = [?off]" "take 1 ?e = [?off + ?k]" "take 1 ?b = [e]" using at by (simp_all add: take1)
  have "\<forall>i < c_ndim (catarr c). 0 \<le> ?s ! i \<and> ?s ! i \<le> ?e ! i \<and> ?e ! i \<le> c_shape (catarr c) ! i \<and> ?e ! i - ?s ! i \<le> ?b ! i"
    using n at o assms(2) by simp
  then obtain buf where buf: "la_get_slice env (catarr c) ?s ?e ?b = Inr buf" "int (length buf) = prod_list (take 1 ?b)"
    "\<forall>ix. in_box (map2 (-) (take 1 ?e) (take 1 ?s)) ix \<longrightarrow> buf ! nat (flat (take 1 ?b) ix) = A (map2 (+) (take 1 ?s) ix)"
    using rd n unfolding reads_slices_def Let_def by (metis length_slice)
  have "buf ! nat i = f i" if "0 \<le> i" "i < ?k" for i
    using buf(3) [rule_format, of "[i]"] that t o(4) by simp
  then show ?thesis
    using buf(1,2) t u n at o assms(2) by (simp add: iarray_get_slice_buffer_raw_def swap_dims_def Let_def)
qed

lemma plain_one:
  assumes "plain_container c" "ndim (dtshape c) = 1"
  obtains m a x where "ns_of c = [m]" "cs_of c = [a]" "bs_of c = [x]" "0 < m" "0 < a" "0 < x"
    "c_shape (catarr c) ! 0 = m" "c_chunkshape (catarr c) ! 0 = a" "c_blockshape (catarr c) ! 0 = x" "blockshape (storage c) ! 0 = x"
    "c_extchunkshape (catarr c) ! 0 = ceil_blocks a x * x"
proof -
  have l: "length (ns_of c) = 1" "length (cs_of c) = 1" "length (bs_of c) = 1" using plain_slots [OF assms(1)] assms(2) by simp_all
  then show thesis
    using that [of "ns_of c ! 0" "cs_of c ! 0" "bs_of c ! 0"] plain_fields [OF assms(1), of 0] assms(2)
      take_eq_nth [OF plain_slots(8) [OF assms(1)], of 0]
    by (simp add: length_Suc_conv) (metis nth_Cons_0)
qed

lemma gemv_block_info:
  assumes "plain_container c" "ndim (dtshape c) = 1" "cs_of c = [a]" "bs_of c = [x]" "c_blockshape (catarr c) ! 0 = x" "0 < a" "0 < x"
    "0 \<le> w" "w < ceil_blocks a x"
  shows "gemm_prefilter_block_info c w = [w * x, 0]"
proof -
  have s: "compute_strides 1 (grid 1 (c_extchunkshape (catarr c)) (c_blockshape (catarr c))) fresh_slots ! 0 = 1"
    using take_eq_nth [OF strides_slots [OF grid_plain(2) [OF assms(1) assms(2) [symmetric]], of fresh_slots], of 0] assms(3,4)
    by (simp add: blocks_of_def)
  have t: "take 1 (c_extchunkshape (catarr c)) = [ceil_blocks a x * x]" and nd: "c_ndim (catarr c) = 1"
    using assms(1-4) by (auto simp: plain_container_def caterva_holds_def blocks_of_def)
  have "cdiv (extchunknitems (catarr c)) (blocknitems (catarr c)) = ceil_blocks a x"
    using plain_counts(1) [OF assms(1)] assms(4,6,7) t nd ceil_blocks_pos [of a x] by (simp add: extchunknitems_def cdiv_nonneg)
  then show ?thesis
    using assms(2,5,8,9) s by (simp add: gemm_prefilter_block_info_def Let_def set_prefix_nth set_prefix_eq c_arith)
qed

lemma gemv_prefilter_product:
  assumes plain: "plain_container c" "ndim (dtshape c) = 1" "ns_of c = [m]" "cs_of c = [a]" "bs_of c = [x]" "0 < m" "0 < a" "0 < x"
      "c_blockshape (catarr c) ! 0 = x" "blockshape (storage c) ! 0 = x"
    and "gemv_spec (la_blas env)" "dtype (dtshape c) \<in> {IARRAY_DATA_TYPE_DOUBLE, IARRAY_DATA_TYPE_FLOAT}"
    and k: "shape (dtshape A) ! 1 = k" "0 < k"
    and w: "0 \<le> w" "w < ceil_blocks a x"
    and mem: "int (length out) = x" "ceil_blocks a x * x * k \<le> int (length cache_a)" "k \<le> int (length cache_b)"
    and rows: "holds_rows k (\<lambda>i l. VFp (Fin (\<alpha> i l))) (q * a) (min a (m - q * a)) cache_a"
    and col: "\<And>l. 0 \<le> l \<Longrightarrow> l < k \<Longrightarrow> cache_b ! nat l = VFp (Fin (\<beta> l))"
    and exact: "exact_entries (dtype (dtshape c)) m k 1 \<alpha> (\<lambda>l _. \<beta> l)" "0 \<le> q"
  shows "\<exists>block. gemv_prefilter env A B c cache_a cache_b out w = Inr block \<and>
    right_block c (mat_product k \<alpha> (\<lambda>l _. \<beta> l)) q w block"
proof -
  let ?a = "drop (nat (w * x * k)) cache_a"
  let ?r = "gemv (la_blas env) (dtype (dtshape c)) x k ?a k cache_b False out"
  have s: "0 \<le> w * x" "w * x + x \<le> ceil_blocks a x * x"
    using w plain(8) mult_right_mono [of "w + 1" "ceil_blocks a x" x] by (simp_all add: distrib_right)
  have "(w * x + x) * k \<le> int (length cache_a)" using order_trans [OF mult_right_mono [OF s(2), of k] mem(2)] k(2) by simp
  then have le: "w * x * k + x * k \<le> int (length cache_a)" "0 \<le> w * x * k" "w * x * k \<le> int (length cache_a)"
    using s(1) k(2) plain(8) mult_nonneg_nonneg [of x k] mult_nonneg_nonneg [OF s(1), of k] unfolding distrib_right by linarith+
  then have la: "(x - 1) * k + k \<le> int (length ?a)" by (simp add: algebra_simps)
  note sp = assms(11) [unfolded gemv_spec_def Let_def, rule_format, OF assms(12) less_imp_le [OF plain(8)] less_imp_le [OF k(2)] disjI1 [OF k(2), of False] k(2) order.refl la mem(3), of out]
  have "gemv_prefilter env A B c cache_a cache_b out w = Inr ?r"
    using assms(12) by (auto simp: gemv_prefilter_def gemv_block_info [OF plain(1,2,4,5,9,7,8) w] blas_type_def plain(10) k Let_def simp del: One_nat_def)
  moreover have "?r ! nat e = mat_product k \<alpha> (\<lambda>l _. \<beta> l) (item_at [m] [a] [x] q w e)"
    if e: "0 \<le> e" "e < x" and lv: "live [m] [a] [x] q w e" for e
  proof -
    have v: "w * x + e < min a (m - q * a)" using lv by (simp add: live_def local_item_def block_extent_def block_start_def blocks_of_def)
    have "?a ! nat (e * k + l) = VFp (Fin (\<alpha> (q * a + (w * x + e)) l))" if l: "0 \<le> l" "l < k" for l
    proof -
      have "?a ! nat (e * k + l) = cache_a ! nat ((w * x + e) * k + l)"
        using le l e k(2) by (subst nth_drop_int) (simp_all add: distrib_right add.assoc)
      also have "\<dots> = VFp (Fin (\<alpha> (q * a + (w * x + e)) l))" using rows v l s e unfolding holds_rows_def by simp
      finally show ?thesis .
    qed
    moreover have "exact_dot (dtype (dtshape c)) 0 (map (\<lambda>l. \<alpha> (q * a + (w * x + e)) l * \<beta> l) (below k))"
      by (rule exact_entriesD [OF exact(1), of _ 0]) (use v s e exact(2) plain(7) in simp_all)
    ultimately have "?r ! nat e = VFp (Fin (\<Sum>l\<leftarrow>below k. \<alpha> (q * a + (w * x + e)) l * \<beta> l))"
      using sp mem(1) col e by simp
    then show ?thesis by (simp add: mat_product_def item_at_def local_item_def block_start_def blocks_of_def)
  qed
  ultimately show ?thesis using sp mem(1) plain(3-5) by (simp add: right_block_def)
qed


lemma gemv_map_data: "gemv_load env A (map_data f c) = gemv_load env A c" "gemv_prefilter env A B (map_data f c) = gemv_prefilter env A B c"
  unfolding gemv_load_def [abs_def] gemv_prefilter_def [abs_def] gemm_prefilter_block_info_def cut_chunk_def Let_def map_data_sizes map_data_fields
  by (rule refl)+

lemma gemv_blosc_stores:
  assumes "construct_with (la_create env) d st = Inr c" "plain_container c" "ndim (dtshape c) = 1" "exact_products env"
    and mem: "\<And>q w. int (length (la_out env q w)) = prod_list (bs_of c)"
    and ops: "matrix env A (\<lambda>i j. VFp (Fin (\<alpha> i j)))" "vector env B (\<lambda>l. VFp (Fin (\<beta> l)))"
    and shs: "shape (dtshape A) ! 0 = shape (dtshape c) ! 0" "shape (dtshape A) ! 1 = k" "shape (dtshape B) ! 0 = k" "0 < k"
    and dts: "dtype (dtshape A) = dtype (dtshape c)" "dtype (dtshape c) \<in> {IARRAY_DATA_TYPE_DOUBLE, IARRAY_DATA_TYPE_FLOAT}"
    and exact: "exact_entries (dtype (dtshape c)) (shape (dtshape A) ! 0) k 1 \<alpha> (\<lambda>l _. \<beta> l)"
  shows "\<exists>x. gemv_blosc env A B c = Inr (map_data (\<lambda>_. x) c) \<and>
    stores (la_api env) (map_data (\<lambda>_. x) c) (mat_product k \<alpha> (\<lambda>l _. \<beta> l))"
proof -
  obtain m a x where plain: "ns_of c = [m]" "cs_of c = [a]" "bs_of c = [x]" and pos: "0 < m" "0 < a" "0 < x"
    and f: "c_shape (catarr c) ! 0 = m" "c_chunkshape (catarr c) ! 0 = a" "c_blockshape (catarr c) ! 0 = x" "blockshape (storage c) ! 0 = x"
      "c_extchunkshape (catarr c) ! 0 = ceil_blocks a x * x"
    by (rule plain_one [OF assms(2,3)])
  let ?e0 = "ceil_blocks a x * x" and ?N = "ceil_blocks m a" and ?M = "mat_product k \<alpha> (\<lambda>l _. \<beta> l)" and ?api = "la_api env"
  have calls: "schunk_spec (get_lazychunk ?api) (update_chunk ?api) (la_create env)" "blosc_exact ?api (la_cparams env c)"
    "gemv_spec (la_blas env)" "omatcopy_spec (la_omatcopy env)"
    using assms(4) by (simp_all add: exact_products_def la_cparams_def)
  have m: "shape (dtshape A) ! 0 = m" using plain_fields(4) [OF assms(2), of 0] assms(3) shs(1) plain(1) by simp
  obtain cache_b where cb: "iarray_get_slice_buffer_raw (la_get_slice env) (la_omatcopy env) B [0] [k] [c_extshape (catarr B) ! 0]
      (c_extshape (catarr B) ! 0 * c_itemsize (catarr B)) = Inr cache_b" "k \<le> int (length cache_b)"
    "\<And>l. 0 \<le> l \<Longrightarrow> l < k \<Longrightarrow> cache_b ! nat l = VFp (Fin (\<beta> l))"
    using vector_read [OF ops(2) _ refl] shs(3,4) by auto
  have e: "a \<le> ?e0" using ceil_blocks_mult_ge(1) [of a x] pos by simp
  have sz: "c_itemsize (catarr c) = itemsize_of (dtype (dtshape c))" by (rule plain_counts(6) [OF assms(2)])
  have N: "cdiv (extnitems (catarr c)) (chunknitems (catarr c)) = ?N" "?N = block_count (ns_of c) (cs_of c)"
    using plain_counts(4) [OF assms(2)] plain by (simp_all add: block_count_def blocks_of_def)
  have sizes: "typesize (la_cparams env c) = c_itemsize (catarr c)" "blocksize (la_cparams env c) = blocknitems (catarr c) * c_itemsize (catarr c)"
    by (simp_all add: la_cparams_def)
  have bc: "block_count (cs_of c) (bs_of c) = ceil_blocks a x" using plain by (simp add: block_count_def blocks_of_def)
  have out: "int (length (la_out env q w)) = x" for q w using mem plain(3) by simp
  define pf where "pf = (\<lambda>c cache_a nchunk nblock. gemv_prefilter env A B c cache_a cache_b (la_out env nchunk nblock) nblock)"
  define load where "load = (\<lambda>c (s :: unit) nchunk. gemv_load env A c nchunk)"
  define L where "L = (\<lambda>q cache_a. int (length cache_a) = ?e0 * k \<and>
    holds_rows k (\<lambda>i j. VFp (Fin (\<alpha> i j))) (q * a) (min a (m - q * a)) cache_a)"
  have "\<exists>z s'. compress_loading ?api (la_cparams env c) load pf (\<lambda>_ _. ()) ?N (c, ()) = Inr (map_data (\<lambda>_. z) c, s') \<and> True \<and>
      (\<forall>q. 0 \<le> q \<longrightarrow> q < ?N \<longrightarrow> chunk_blocks ?api (map_data (\<lambda>_. z) c) q (\<lambda>w. right_block c ?M q w))"
  proof (rule compress_loading_blocks [where I = "\<lambda>_ _. True" and L = L, OF assms(1,2) calls(1,2) sizes N(2) TrueI])
    fix z s q assume q: "0 \<le> q" "q < ?N"
    have i: "q * a < m" using block_start_less [OF q] pos by simp
    let ?h = "min a (m - q * a)"
    have cut: "0 \<le> q * a" "0 \<le> ?h" "q * a + ?h \<le> m" "?h \<le> ?e0" using q i pos e by simp_all
    have "\<exists>buf. iarray_get_slice_buffer_raw (la_get_slice env) (la_omatcopy env) A [q * a, 0] [q * a + ?h, k] [?e0, k]
        (?e0 * k * c_itemsize (catarr c)) = Inr buf \<and> int (length buf) = ?e0 * k \<and>
      (\<forall>i l. 0 \<le> i \<longrightarrow> i < q * a + ?h - q * a \<longrightarrow> 0 \<le> l \<longrightarrow> l < k - 0 \<longrightarrow> buf ! nat (i * k + l) = VFp (Fin (\<alpha> (q * a + i) (0 + l))))"
      by (rule matrix_slice [OF ops(1) calls(4)]) (use cut m shs dts(1) sz in simp_all)
    then show "\<exists>t. load (map_data (\<lambda>_. z) c) s q = Inr t \<and> L q t"
      unfolding load_def gemv_map_data gemv_load_def L_def Let_def cut_chunk_min f shs by (auto simp: holds_rows_def)
  next
    fix z t q w assume q: "0 \<le> q" "q < ?N" "L q t" and w: "0 \<le> w" "w < block_count (cs_of c) (bs_of c)"
    have l: "?e0 * k \<le> int (length t)" "holds_rows k (\<lambda>i j. VFp (Fin (\<alpha> i j))) (q * a) (min a (m - q * a)) t"
      using q(3) by (simp_all add: L_def)
    show "\<exists>block. pf (map_data (\<lambda>_. z) c) t q w = Inr block \<and> int (length block) = prod_list (bs_of c) \<and> right_block c ?M q w block"
      using gemv_prefilter_product [where env = env, OF assms(2,3) plain pos f(3,4) calls(3) dts(2) shs(2,4) w [unfolded bc] out l(1) cb(2) l(2) cb(3) exact [unfolded m] q(1)]
      unfolding pf_def gemv_map_data by (auto simp: right_block_def)
  qed (simp_all)
  then obtain z s' where z: "compress_loading ?api (la_cparams env c) load pf (\<lambda>_ _. ()) ?N (c, ()) = Inr (map_data (\<lambda>_. z) c, s')"
    "\<And>q. 0 \<le> q \<Longrightarrow> q < ?N \<Longrightarrow> chunk_blocks ?api (map_data (\<lambda>_. z) c) q (\<lambda>w. right_block c ?M q w)"
    by blast
  have "gemv_blosc env A B c = Inr (map_data (\<lambda>_. z) c)"
    using z(1) cb(1) unfolding gemv_blosc_def N(1) load_def pf_def shs(3) by simp
  moreover have "stores_chunk ?api (map_data (\<lambda>_. z) c) ?M i" if i: "0 \<le> i" "i < ?N" for i
    unfolding chunk_blocks_stores by (rule chunk_blocks_mono [OF z(2) [OF i]]) (simp add: right_block_def plain_map_data)
  ultimately show ?thesis using N(2) by (auto simp: stores_def plain_map_data)
qed

text \<open>
  Claim C26. The product of a matrix and a vector: \<open>iarray_linalg_matmul\<close> returns a vector that stores the sums of products,
  whatever the chunks and blocks are, as long as no sum is rounded (\<open>exact_entries\<close>). The whole vector is read once, into a
  buffer of its length with padding.
\<close>

theorem matvec_correct:
  assumes "exact_products env" "matrix env A (\<lambda>i j. VFp (Fin (\<alpha> i j)))" "vector env B (\<lambda>l. VFp (Fin (\<beta> l)))"
    and "shape (dtshape A) ! 1 = shape (dtshape B) ! 0" "0 < shape (dtshape B) ! 0" "dtype (dtshape A) = dtype (dtshape B)"
    and "dtype (dtshape A) \<in> {IARRAY_DATA_TYPE_DOUBLE, IARRAY_DATA_TYPE_FLOAT}"
    and "good_request (product_shape A B) st" "\<And>q w. int (length (la_out env q w)) = prod_list (take 1 (blockshape st))"
    and "exact_entries (dtype (dtshape A)) (shape (dtshape A) ! 0) (shape (dtshape B) ! 0) 1 \<alpha> (\<lambda>l _. \<beta> l)"
  shows "\<exists>c. iarray_linalg_matmul env A B st = Inr c \<and>
    holds_product env c (product_shape A B) st (mat_product (shape (dtshape B) ! 0) \<alpha> (\<lambda>l _. \<beta> l))"
proof -
  obtain c where c: "construct_with (la_create env) (product_shape A B) st = Inr c" "plain_container c" "storage c = st"
    "dtshape c = (product_shape A B)\<lparr>dtype_size := itemsize_of (dtype (dtshape A))\<rparr>"
    by (rule product_created [OF assms(1,8)])
  have n: "ndim (dtshape A) = 2" "ndim (dtshape B) = 1" using assms(2,3) by (auto simp: matrix_def vector_def)
  then have nc: "ndim (dtshape c) = 1" "dtype (dtshape c) = dtype (dtshape A)" "shape (dtshape A) ! 0 = shape (dtshape c) ! 0"
    by (simp_all add: c(4) product_shape_def Let_def IARRAY_DIMENSION_MAX_def)
  have out: "int (length (la_out env q w)) = prod_list (bs_of c)" for q w using assms(9) nc(1) by (simp add: bs_of_def c(3))
  obtain z where z: "gemv_blosc env A B c = Inr (map_data (\<lambda>_. z) c)"
    "stores (la_api env) (map_data (\<lambda>_. z) c) (mat_product (shape (dtshape B) ! 0) \<alpha> (\<lambda>l _. \<beta> l))"
    using gemv_blosc_stores [OF c(1,2) nc(1) assms(1) out assms(2,3) nc(3) assms(4) refl assms(5)] assms(7,10) nc(2) by auto
  then show ?thesis
    using matmul_checked [OF n(1) _ assms(4,6,8) c(1)] n(2) c
    by (auto simp: holds_product_def plain_map_data product_shape_def Let_def)
qed


section \<open>An exact library, for the examples\<close>

definition rat_of :: "ina_val \<Rightarrow> rat" where
  "rat_of v = (case v of VFp (Fin r) \<Rightarrow> r | _ \<Rightarrow> 0)"

lemma rat_of_Fin [simp]: "rat_of (VFp (Fin r)) = r"
  by (simp add: rat_of_def)

definition plain_blas :: blas where
  "plain_blas = \<lparr>
     gemm = (\<lambda>d m n k a lda b ldb acc c ldc. map (\<lambda>p. let i = p div ldc; j = p mod ldc in
       if i < m \<and> j < n then VFp (Fin ((if acc then rat_of (c ! nat p) else 0) +
         (\<Sum>l\<leftarrow>below k. rat_of (a ! nat (i * lda + l)) * rat_of (b ! nat (l * ldb + j)))))
       else c ! nat p) (below (int (length c)))),
     gemv = (\<lambda>d m n a lda x acc y. map (\<lambda>i. if i < m then VFp (Fin ((if acc then rat_of (y ! nat i) else 0) +
         (\<Sum>l\<leftarrow>below n. rat_of (a ! nat (i * lda + l)) * rat_of (x ! nat l)))) else y ! nat i) (below (int (length y)))) \<rparr>"

lemma map_below_nth: "0 \<le> k \<Longrightarrow> k < n \<Longrightarrow> map f (below n) ! nat k = f k"
  by (simp add: below_nth)

lemma sum_below_cong: "(\<And>l. 0 \<le> l \<Longrightarrow> l < k \<Longrightarrow> f l = g l) \<Longrightarrow> (\<Sum>l\<leftarrow>below k. f l) = (\<Sum>l\<leftarrow>below k. g l)"
  by (intro arg_cong [where f = sum_list] map_cong) simp_all

lemma plain_blas_specs: "gemm_spec plain_blas" "gemv_spec plain_blas"
proof -
  show "gemm_spec plain_blas"
    unfolding gemm_spec_def Let_def
  proof (intro allI impI conjI)
    fix d :: iarray_data_type and m n k lda ldb ldc i j :: int and a b c :: "ina_val list" and acc :: bool
    assume h: "(0 :: int) < m" "0 < n" "n \<le> ldc" "(m - 1) * ldc + n \<le> int (length c)" "0 \<le> i" "0 \<le> j"
    have at: "gemm plain_blas d m n k a lda b ldb acc c ldc ! nat (i * ldc + j) = (if i < m \<and> j < n
        then VFp (Fin ((if acc then rat_of (c ! nat (i * ldc + j)) else 0) +
          (\<Sum>l\<leftarrow>below k. rat_of (a ! nat (i * lda + l)) * rat_of (b ! nat (l * ldb + j)))))
        else c ! nat (i * ldc + j))" if "j < ldc" "i * ldc + j < int (length c)"
      using h that place_div_mod [of j ldc i] by (simp add: plain_blas_def below_nth nat_less_iff Let_def)
    show "gemm plain_blas d m n k a lda b ldb acc c ldc ! nat (i * ldc + j) = c ! nat (i * ldc + j)"
      if "j < ldc" "m \<le> i \<or> n \<le> j" "i * ldc + j < int (length c)"
      using at that by auto
    fix \<alpha> \<beta> \<gamma>
    assume r: "i < m" "j < n" "acc \<longrightarrow> c ! nat (i * ldc + j) = VFp (Fin \<gamma>)"
      "\<forall>l. 0 \<le> l \<longrightarrow> l < k \<longrightarrow> a ! nat (i * lda + l) = VFp (Fin (\<alpha> l)) \<and> b ! nat (l * ldb + j) = VFp (Fin (\<beta> l))"
    have "i * ldc \<le> (m - 1) * ldc" using r(1) h by (intro mult_right_mono) simp_all
    then have "i * ldc + j < int (length c)" "j < ldc" using h r(2) by linarith+
    then show "gemm plain_blas d m n k a lda b ldb acc c ldc ! nat (i * ldc + j) = VFp (Fin ((if acc then \<gamma> else 0) + (\<Sum>l\<leftarrow>below k. \<alpha> l * \<beta> l)))"
      using at r by (auto intro: sum_below_cong)
  qed (simp add: plain_blas_def)
  show "gemv_spec plain_blas"
    unfolding gemv_spec_def Let_def plain_blas_def by (auto simp: below_nth nat_less_iff intro!: sum_below_cong)
qed

definition plain_omatcopy :: "int \<Rightarrow> int \<Rightarrow> ina_val list \<Rightarrow> ina_val list" where
  "plain_omatcopy r c x = map (\<lambda>p. x ! nat (p mod r * c + p div r)) (below (r * c))"

lemma plain_omatcopy_spec: "omatcopy_spec plain_omatcopy"
  unfolding omatcopy_spec_def
proof (intro allI impI conjI)
  fix r c i j :: int and x :: "ina_val list"
  assume h: "0 \<le> i" "i < r" "0 \<le> j" "j < c"
  then have "0 \<le> j * r + i" "j * r + i < r * c" using place_less [of j c i r] by (simp_all add: mult.commute)
  then show "plain_omatcopy r c x ! nat (j * r + i) = x ! nat (i * c + j)"
    using h place_div_mod [of i r j] by (simp add: plain_omatcopy_def below_nth)
qed (simp add: plain_omatcopy_def)

text \<open>The reader gives the items of an array \<open>A\<close>.\<close>

definition plain_reader :: "(int list \<Rightarrow> ina_val) \<Rightarrow> 'd caterva_array \<Rightarrow> int list \<Rightarrow> int list \<Rightarrow> int list \<Rightarrow> ina_val list res" where
  "plain_reader A arr s e b = (let n = c_ndim arr in
     Inr (map (\<lambda>p. A (map2 (+) (take n s) (unflat (take n b) p))) (below (prod_list (take n b)))))"

lemma plain_reader_reads:
  assumes "c_ndim arr \<le> 8"
  shows "reads_slices (plain_reader A) arr A"
  unfolding reads_slices_def Let_def
proof (intro allI impI)
  fix s e b :: "int list"
  let ?n = "c_ndim arr"
  assume l: "length s = 8" "length e = 8" "length b = 8"
    and h: "\<forall>i < ?n. 0 \<le> s ! i \<and> s ! i \<le> e ! i \<and> e ! i \<le> c_shape arr ! i \<and> e ! i - s ! i \<le> b ! i"
  have "map (\<lambda>p. A (map2 (+) (take ?n s) (unflat (take ?n b) p))) (below (prod_list (take ?n b))) ! nat (flat (take ?n b) ix) =
      A (map2 (+) (take ?n s) ix)"
    if "in_box (map2 (-) (take ?n e) (take ?n s)) ix" for ix
  proof -
    have "in_box (take ?n b) ix" using that l h assms by (fastforce simp: in_box_nth)
    then show ?thesis using unflat_flat flat_bounds by (simp add: map_below_nth del: nth_map)
  qed
  moreover have "0 \<le> prod_list (take ?n b)"
    using h l assms by (intro prod_list_nonneg) (fastforce simp: in_set_conv_nth)
  ultimately show "\<exists>buf. plain_reader A arr s e b = Inr buf \<and> int (length buf) = prod_list (take ?n b) \<and>
      (\<forall>ix. in_box (map2 (-) (take ?n e) (take ?n s)) ix \<longrightarrow> buf ! nat (flat (take ?n b) ix) = A (map2 (+) (take ?n s) ix))"
    by (simp add: plain_reader_def Let_def)
qed

definition no_format :: "'k chunk_format" where
  "no_format = \<lparr> chunk_byte = (\<lambda>_ _. 0), BLOSC2_CHUNK_FLAGS = 2, BLOSC2_CHUNK_TYPESIZE = 3, BLOSC2_CHUNK_NBYTES = 4,
     BLOSC2_CHUNK_BLOCKSIZE = 8, BLOSC2_CHUNK_BLOSC2_FLAGS = 31, BLOSC_EXTENDED_HEADER_LENGTH = 32, BLOSC2_SPECIAL_MASK = 7,
     BLOSC2_SPECIAL_ZERO = 1 \<rparr>"

definition plain_linalg :: "(int list \<Rightarrow> ina_val) \<Rightarrow> int \<Rightarrow> (ina_val list list, ina_val list) linalg_env" where
  "plain_linalg A out = \<lparr> la_api = plain_api, la_format = no_format, la_blas = plain_blas, la_create = plain_create, la_zfp = (\<lambda>_. 33),
     la_defaults = blosc2_cparams_example, la_cfg = IARRAY_CONFIG_DEFAULTS, la_get_slice = plain_reader A, la_omatcopy = plain_omatcopy,
     la_reorder = (\<lambda>d order. map (\<lambda>i. d ! nat i) order), la_decompress = (\<lambda>k mask buf. None),
     la_fresh = (\<lambda>n. replicate (nat n) (VInt 0)), la_out = (\<lambda>_ _. replicate (nat out) (VInt 0)) \<rparr>"

lemma plain_reorder: "reorder_spec plain_api (\<lambda>d order. map (\<lambda>i. d ! nat i) order)"
  unfolding reorder_spec_def
proof (intro allI impI)
  fix d :: "ina_val list list" and order :: "int list" and i :: int
  assume h: "\<forall>j. 0 \<le> j \<longrightarrow> j < int (length order) \<longrightarrow> get_lazychunk plain_api d j \<noteq> None"
    and o: "set order = set (below (int (length order)))" "0 \<le> i" "i < int (length order)"
  have "order ! nat i \<in> set (below (int (length order)))" unfolding o(1) [symmetric] using o(2,3) by simp
  then have "0 \<le> order ! nat i" "order ! nat i < int (length order)" unfolding in_below by blast+
  then have "get_lazychunk plain_api d (order ! nat i) = Some (d ! nat (order ! nat i))"
    using h by (fastforce simp: plain_api_def split: if_splits)
  then show "get_lazychunk plain_api (map (\<lambda>i. d ! nat i) order) i = get_lazychunk plain_api d (order ! nat i)"
    using o by (simp add: plain_api_def nat_less_iff)
qed

lemma plain_linalg_exact: "exact_products (plain_linalg A out)"
  using plain_create_specs plain_exact plain_reorder plain_blas_specs plain_omatcopy_spec
  by (simp add: exact_products_def plain_linalg_def)

text \<open>Two rows and two columns, in chunks of one row and blocks of one item; its transpose; and a vector of two.\<close>

definition square :: "bool \<Rightarrow> ina_val list list container" where
  "square tr = \<lparr>
     dtshape = \<lparr> dtype = IARRAY_DATA_TYPE_DOUBLE, dtype_size = 8, ndim = 2, shape = [2, 2, 0, 0, 0, 0, 0, 0] \<rparr>,
     auxshape = \<lparr> aux_offset = [0, 0, 0, 0, 0, 0, 0, 0], shape_wos = [2, 2, 0, 0, 0, 0, 0, 0],
       chunkshape_wos = [1, 2, 0, 0, 0, 0, 0, 0], blockshape_wos = [1, 1, 0, 0, 0, 0, 0, 0],
       aux_index = [0, 1, 0, 0, 0, 0, 0, 0] \<rparr>,
     catarr = \<lparr> c_ndim = 2, c_shape = [2, 2, 1, 1, 1, 1, 1, 1], c_chunkshape = [1, 2, 1, 1, 1, 1, 1, 1],
       c_blockshape = [1, 1, 1, 1, 1, 1, 1, 1], c_extshape = [2, 2, 1, 1, 1, 1, 1, 1],
       c_extchunkshape = [1, 2, 1, 1, 1, 1, 1, 1], c_itemsize = 8, c_nitems = 4, c_nchunks = 2, c_data = [] \<rparr>,
     storage = \<lparr> urlpath = None, contiguous = True, chunkshape = [1, 2, 0, 0, 0, 0, 0, 0],
       blockshape = [1, 1, 0, 0, 0, 0, 0, 0] \<rparr>,
     container_viewed = (if tr then Some 1 else None), transposed = tr \<rparr>"

definition pair :: "ina_val list list container" where
  "pair = (square False)\<lparr>
     dtshape := \<lparr> dtype = IARRAY_DATA_TYPE_DOUBLE, dtype_size = 8, ndim = 1, shape = [2, 0, 0, 0, 0, 0, 0, 0] \<rparr>,
     catarr := (catarr (square False))\<lparr> c_ndim := 1, c_shape := [2, 1, 1, 1, 1, 1, 1, 1] \<rparr> \<rparr>"

definition square_entry :: "int \<Rightarrow> int \<Rightarrow> rat" where
  "square_entry i j = of_int (2 * i + j + 1)"

definition pair_entry :: "int \<Rightarrow> rat" where
  "pair_entry i = of_int (i + 1)"

definition la_items :: "int list \<Rightarrow> ina_val" where
  "la_items ix = VFp (Fin (if length ix = 1 then pair_entry (ix ! 0) else square_entry (ix ! 0) (ix ! 1)))"

lemma square_matrix:
  "matrix (plain_linalg la_items out) (square False) (\<lambda>i j. VFp (Fin (square_entry i j)))"
  "matrix (plain_linalg la_items out) (square True) (\<lambda>i j. VFp (Fin (square_entry j i)))"
  unfolding matrix_def Let_def
  by (rule exI [of _ la_items],
      simp add: la_items_def square_def plain_linalg_def unsqueezed_def plain_reader_reads itemsize_of_def iarray_set_dtype_size.simps less_2_cases_iff all_conj_distrib
        less_Suc_eq numeral_2_eq_2)+

text \<open>A matrix times its transpose, in four chunks of one item.\<close>

definition square_storage :: iarray_storage where
  "square_storage = \<lparr> urlpath = None, contiguous = True, chunkshape = [1, 1, 0, 0, 0, 0, 0, 0], blockshape = [1, 1, 0, 0, 0, 0, 0, 0] \<rparr>"

theorem matmul_correct_witness:
  "\<exists>c. iarray_linalg_matmul (plain_linalg la_items 1) (square False) (square True) square_storage = Inr c \<and>
    stores plain_api c (mat_product 2 square_entry (\<lambda>i j. square_entry j i)) \<and>
    mat_product 2 square_entry (\<lambda>i j. square_entry j i) [1, 0] = VFp (Fin 11)"
proof -
  have g: "good_request (product_shape (square False) (square True)) square_storage"
    by (simp add: good_request_def product_shape_def square_def square_storage_def nested_def IARRAY_DIMENSION_MAX_def Let_def less_Suc_eq numeral_2_eq_2)
  have v: "mat_product 2 square_entry (\<lambda>i j. square_entry j i) [1, 0] = VFp (Fin 11)" by code_simp
  have x: "exact_entries IARRAY_DATA_TYPE_DOUBLE 2 2 2 square_entry (\<lambda>i j. square_entry j i)" by code_simp
  have s: "shape (dtshape (square tr)) ! 0 = 2" "shape (dtshape (square tr)) ! 1 = 2" "dtype (dtshape (square tr)) = IARRAY_DATA_TYPE_DOUBLE" for tr
    by (simp_all add: square_def)
  have "\<exists>c. iarray_linalg_matmul (plain_linalg la_items 1) (square False) (square True) square_storage = Inr c \<and>
    holds_product (plain_linalg la_items 1) c (product_shape (square False) (square True)) square_storage
      (mat_product (shape (dtshape (square True)) ! 0) square_entry (\<lambda>i j. square_entry j i))"
    by (rule matmul_correct [OF plain_linalg_exact square_matrix _ _ _ _ g])
      (use s x in \<open>simp_all add: plain_linalg_def square_storage_def\<close>)
  then show ?thesis using v s by (auto simp: holds_product_def plain_linalg_def)
qed

lemma pair_vector: "vector (plain_linalg la_items out) pair (\<lambda>i. VFp (Fin (pair_entry i)))"
  unfolding vector_def Let_def
  by (rule exI [of _ la_items], simp add: la_items_def pair_def square_def plain_linalg_def unsqueezed_def plain_reader_reads itemsize_of_def
      iarray_set_dtype_size.simps)

text \<open>A matrix times a vector, in two chunks.\<close>

theorem matvec_correct_witness:
  "\<exists>c. iarray_linalg_matmul (plain_linalg la_items 1) (square False) pair square_storage = Inr c \<and>
    stores plain_api c (mat_product 2 square_entry (\<lambda>l _. pair_entry l)) \<and>
    mat_product 2 square_entry (\<lambda>l _. pair_entry l) [1] = VFp (Fin 11)"
proof -
  have g: "good_request (product_shape (square False) pair) square_storage"
    by (simp add: good_request_def product_shape_def pair_def square_def square_storage_def nested_def IARRAY_DIMENSION_MAX_def Let_def)
  have v: "mat_product 2 square_entry (\<lambda>l _. pair_entry l) [1] = VFp (Fin 11)" by code_simp
  have x: "exact_entries IARRAY_DATA_TYPE_DOUBLE 2 2 1 square_entry (\<lambda>l _. pair_entry l)" by code_simp
  have s: "shape (dtshape (square False)) ! 0 = 2" "shape (dtshape (square False)) ! 1 = 2" "dtype (dtshape (square False)) = IARRAY_DATA_TYPE_DOUBLE"
    "shape (dtshape pair) ! 0 = 2" "dtype (dtshape pair) = IARRAY_DATA_TYPE_DOUBLE"
    by (simp_all add: square_def pair_def)
  have "\<exists>c. iarray_linalg_matmul (plain_linalg la_items 1) (square False) pair square_storage = Inr c \<and>
    holds_product (plain_linalg la_items 1) c (product_shape (square False) pair) square_storage
      (mat_product (shape (dtshape pair) ! 0) square_entry (\<lambda>l _. pair_entry l))"
    by (rule matvec_correct [OF plain_linalg_exact square_matrix(1) pair_vector _ _ _ _ g])
      (use s x in \<open>simp_all add: plain_linalg_def square_storage_def\<close>)
  then show ?thesis using v s by (auto simp: holds_product_def plain_linalg_def)
qed

end
