(* ===== verification/LinalgOpt.thy ===== *)
theory LinalgOpt
  imports Linalg
begin

text \<open>
  The products block by block (\<^verbatim>\<open>iarray_gemm.c\<close>, \<^verbatim>\<open>iarray_gemm_a.c\<close>, \<^verbatim>\<open>iarray_gemm_b.c\<close>, \<^verbatim>\<open>iarray_gemv.c\<close> in
  \<^verbatim>\<open>src/linalg\<close>). They demand operands whose chunks and blocks match those of the result, read one block of each operand
  at a time, add its product to the block of the result, and pass over chunks and blocks that c-blosc2 marks as zeros.
  Buffers are lists of items, so offsets count items where the code counts bytes; \<open>INA_ERR_FAILED\<close> stands for the -1 that a
  prefilter returns to c-blosc2; \<open>cparams.schunk\<close>, which these files set besides, is not part of the model.
\<close>

section \<open>Products block by block\<close>

text \<open>Whether a chunk, or a block of it, is all zeros, from the bytes of the chunk.\<close>

definition chunk_is_zeros :: "'k chunk_format \<Rightarrow> 'k \<Rightarrow> bool" where
  "chunk_is_zeros fmt k =
     (let blosc2_flags = chunk_byte fmt k (BLOSC2_CHUNK_BLOSC2_FLAGS fmt);
          special_value = drop_bit 4 blosc2_flags AND BLOSC2_SPECIAL_MASK fmt
      in special_value = BLOSC2_SPECIAL_ZERO fmt)"

definition read_int32 :: "'k chunk_format \<Rightarrow> 'k \<Rightarrow> int \<Rightarrow> int" where
  "read_int32 fmt k pos = to_i32 (fold (\<lambda>i x. x + uint (chunk_byte fmt k (pos + int i)) * 256 ^ i) [0..<4] 0)"

text \<open>The streams of a block that is split, one for each byte of an item.\<close>

fun streams_are_zeros :: "'k chunk_format \<Rightarrow> 'k \<Rightarrow> nat \<Rightarrow> int \<Rightarrow> bool" where
  "streams_are_zeros fmt k 0 cdata = True"
| "streams_are_zeros fmt k (Suc i) cdata =
     (let csize = read_int32 fmt k cdata in if csize \<noteq> 0 then False else streams_are_zeros fmt k i (cdata + 4 + csize))"

definition block_is_zeros :: "'k chunk_format \<Rightarrow> 'k \<Rightarrow> int \<Rightarrow> bool" where
  "block_is_zeros fmt k nblock =
     (let blosc_flags = chunk_byte fmt k (BLOSC2_CHUNK_FLAGS fmt);
          memcpyed = blosc_flags AND 0x02 \<noteq> 0;
          split = blosc_flags AND 0x04 \<noteq> 0;
          itemsize = unat (chunk_byte fmt k (BLOSC2_CHUNK_TYPESIZE fmt));
          blosc2_flags = chunk_byte fmt k (BLOSC2_CHUNK_BLOSC2_FLAGS fmt);
          special_value = drop_bit 4 blosc2_flags AND BLOSC2_SPECIAL_MASK fmt;
          lazy = blosc2_flags AND 0x08 \<noteq> 0;
          bstarts = BLOSC_EXTENDED_HEADER_LENGTH fmt
      in if memcpyed \<or> special_value \<noteq> 0 then False
         else if lazy then
           let nbytes = read_int32 fmt k (BLOSC2_CHUNK_NBYTES fmt);
               blocksize = read_int32 fmt k (BLOSC2_CHUNK_BLOCKSIZE fmt);
               nblocks = (if cmod nbytes blocksize = 0 then cdiv nbytes blocksize else cdiv nbytes blocksize + 1);
               trailer = bstarts + 4 * nblocks;
               csizes = trailer + 4 + 8
           in read_int32 fmt k (csizes + 4 * nblock) = 0
         else
           let cdata = read_int32 fmt k (bstarts + 4 * nblock)
           in if split then streams_are_zeros fmt k itemsize cdata else read_int32 fmt k cdata = 0)"

text \<open>The output starts with zeros; another type than the two of floating-point numbers ends the prefilter.\<close>

definition zero_output :: "iarray_data_type \<Rightarrow> int \<Rightarrow> ina_val list \<Rightarrow> ina_val list res" where
  "zero_output d n out = res_fold (\<lambda>i out. if d = IARRAY_DATA_TYPE_DOUBLE \<or> d = IARRAY_DATA_TYPE_FLOAT then Inr (out[nat i := VFp (Fin 0)]) else Inl INA_ERR_FAILED) (below n) out"

section \<open>The general product\<close>



text \<open>The switch over the element type.\<close>

definition blas_switch :: "iarray_data_type \<Rightarrow> 'v \<Rightarrow> 'v res" where
  "blas_switch d v = (if d = IARRAY_DATA_TYPE_DOUBLE \<or> d = IARRAY_DATA_TYPE_FLOAT then Inr v else Inl INA_ERR_FAILED)"




text \<open>The tests of shapes, one after the other. That the rows of \<open>b\<close> are as many as the columns of \<open>a\<close> is not tested.\<close>

fun check_all :: "(bool \<times> ina_err) list \<Rightarrow> unit res" where
  "check_all [] = Inr ()"
| "check_all ((ok, e) # cs) = (if ok then check_all cs else Inl e)"


text \<open>The result has the type of \<open>a\<close>; the members of the structure that are not set are \<open>fresh_slots\<close>.\<close>

definition opt_dtshape :: "nat \<Rightarrow> 'd container \<Rightarrow> 'd container \<Rightarrow> iarray_dtshape" where
  "opt_dtshape n a b = \<lparr> dtype = dtype (dtshape a), dtype_size = 0, ndim = n,
     shape = (if n = 1 then fresh_slots[0 := shape (dtshape a) ! 0]
       else fresh_slots[0 := shape (dtshape a) ! 0, 1 := shape (dtshape b) ! 1]) \<rparr>"


section \<open>The first operand in whole rows of chunks\<close>

text \<open>
  \<open>iarray_opt_gemm_a\<close>: a chunk of \<open>a\<close> has all columns, and its blocks are decompressed before the chunk of the result is
  compressed; a block of the result belongs to one chunk of \<open>b\<close>.
\<close>

definition opt_gemm_a_prefilter ::
    "('d, 'k) linalg_env \<Rightarrow> 'd container \<Rightarrow> 'd container \<Rightarrow> ina_val list \<Rightarrow> bool list \<Rightarrow> ina_val list \<Rightarrow> int \<Rightarrow> ina_val list res" where
  "opt_gemm_a_prefilter env a b a_blocks a_block_zeros out c_nblock =
     (let acat = catarr a; bcat = catarr b in
      res_bind (zero_output (dtype (dtshape a)) (c_blockshape acat ! 0 * c_blockshape bcat ! 1) out) (\<lambda>out.
        case get_lazychunk (la_api env) (c_data bcat) c_nblock of
          None \<Rightarrow> Inl INA_ERR_FAILED
        | Some b_chunk \<Rightarrow>
            if chunk_is_zeros (la_format env) b_chunk then Inr out
            else res_fold (\<lambda>b_nblock out.
              if a_block_zeros ! nat b_nblock then Inr out
              else if block_is_zeros (la_format env) b_chunk b_nblock then Inr out
              else (case getitem_ctx (la_api env) b_chunk (b_nblock * blocknitems bcat) (blocknitems bcat) of
                None \<Rightarrow> Inl INA_ERR_FAILED
              | Some b_block \<Rightarrow> blas_switch (dtype (dtshape a))
                  (gemm (la_blas env) (dtype (dtshape a)) (c_blockshape acat ! 0) (c_blockshape bcat ! 1) (c_blockshape acat ! 1)
                     (drop (nat (b_nblock * blocknitems acat)) a_blocks) (c_blockshape acat ! 1) b_block (c_blockshape bcat ! 1)
                     True out (c_blockshape bcat ! 1))))
              (below (cdiv (c_extchunkshape bcat ! 0) (c_blockshape bcat ! 0))) out))"

definition opt_gemm_a_checks :: "'d container \<Rightarrow> 'd container \<Rightarrow> iarray_storage \<Rightarrow> unit res" where
  "opt_gemm_a_checks a b st = (let acat = catarr a; bcat = catarr b in check_all [
     (c_ndim acat = 2, IARRAY_ERR_INVALID_NDIM),
     (c_ndim bcat = 2, IARRAY_ERR_INVALID_NDIM),
     (c_shape acat ! 1 = c_shape bcat ! 0, IARRAY_ERR_INVALID_SHAPE),
     (c_shape acat ! 1 \<le> c_chunkshape acat ! 1, IARRAY_ERR_INVALID_CHUNKSHAPE),
     (c_shape bcat ! 0 \<le> c_chunkshape bcat ! 0, IARRAY_ERR_INVALID_CHUNKSHAPE),
     (c_chunkshape acat ! 1 = c_chunkshape bcat ! 0, IARRAY_ERR_INVALID_CHUNKSHAPE),
     (c_chunkshape acat ! 0 = chunkshape st ! 0, IARRAY_ERR_INVALID_CHUNKSHAPE),
     (c_shape bcat ! 1 \<le> chunkshape st ! 1, IARRAY_ERR_INVALID_CHUNKSHAPE),
     (c_chunkshape acat ! 0 = blockshape st ! 0, IARRAY_ERR_INVALID_BLOCKSHAPE),
     (c_chunkshape bcat ! 1 = blockshape st ! 1, IARRAY_ERR_INVALID_BLOCKSHAPE),
     (c_chunkshape acat ! 0 = c_blockshape acat ! 0, IARRAY_ERR_INVALID_BLOCKSHAPE),
     (c_chunkshape bcat ! 1 = c_blockshape bcat ! 1, IARRAY_ERR_INVALID_BLOCKSHAPE),
     (c_blockshape acat ! 1 = c_blockshape bcat ! 0, IARRAY_ERR_INVALID_BLOCKSHAPE)])"

text \<open>
  The blocks of a chunk of \<open>c\<close> that are not zeros, in the buffer \<open>blocks\<close>, and which are zeros. A chunk that cannot be
  read is used nevertheless, through a pointer that is not set: here this is an error.
\<close>

definition load_blocks :: "('d, 'k) linalg_env \<Rightarrow> 'd container \<Rightarrow> int \<Rightarrow> ina_val list \<Rightarrow> int \<Rightarrow> (ina_val list \<times> bool list) res" where
  "load_blocks env c nblocks blocks nchunk =
     (case get_lazychunk (la_api env) (c_data (catarr c)) nchunk of
        None \<Rightarrow> Inl INA_ERR_FAILED
      | Some chunk \<Rightarrow>
          let zeros = map (block_is_zeros (la_format env) chunk) (below nblocks)
          in (case la_decompress env chunk zeros blocks of None \<Rightarrow> Inl INA_ERR_FAILED | Some blocks \<Rightarrow> Inr (blocks, zeros)))"

definition iarray_opt_gemm_a ::
    "('d, 'k) linalg_env \<Rightarrow> 'd container \<Rightarrow> 'd container \<Rightarrow> iarray_storage \<Rightarrow> 'd container res" where
  "iarray_opt_gemm_a env a b st =
     res_bind (opt_gemm_a_checks a b st) (\<lambda>_.
     res_bind (iarray_empty (la_create env) (opt_dtshape 2 a b) st) (\<lambda>c.
       let a_nblocks_in_chunk = cdiv (c_extchunkshape (catarr a) ! 1) (c_blockshape (catarr a) ! 1)
       in res_bind (compress_loading (la_api env) (la_cparams env c)
            (\<lambda>c a_blocks nchunk. load_blocks env a a_nblocks_in_chunk a_blocks nchunk)
            (\<lambda>c (a_blocks, a_block_zeros) nchunk nblock. opt_gemm_a_prefilter env a b a_blocks a_block_zeros (la_out env nchunk nblock) nblock)
            (\<lambda>(a_blocks, a_block_zeros) nchunk. a_blocks) (c_nchunks (catarr c)) (c, la_fresh env (extchunknitems (catarr a))))
          (\<lambda>(c, s). Inr c)))"

section \<open>The second operand in whole columns of chunks\<close>

definition opt_gemm_b_prefilter ::
    "('d, 'k) linalg_env \<Rightarrow> 'd container \<Rightarrow> 'd container \<Rightarrow> ina_val list \<Rightarrow> bool list \<Rightarrow> ina_val list \<Rightarrow> int \<Rightarrow> ina_val list res" where
  "opt_gemm_b_prefilter env a b b_blocks b_block_zeros out c_nblock =
     (let acat = catarr a; bcat = catarr b in
      res_bind (zero_output (dtype (dtshape a)) (c_blockshape acat ! 0 * c_blockshape bcat ! 1) out) (\<lambda>out.
        case get_lazychunk (la_api env) (c_data acat) c_nblock of
          None \<Rightarrow> Inl INA_ERR_FAILED
        | Some a_chunk \<Rightarrow>
            if chunk_is_zeros (la_format env) a_chunk then Inr out
            else res_fold (\<lambda>a_nblock out.
              if b_block_zeros ! nat a_nblock then Inr out
              else if block_is_zeros (la_format env) a_chunk a_nblock then Inr out
              else (case getitem_ctx (la_api env) a_chunk (a_nblock * blocknitems acat) (blocknitems acat) of
                None \<Rightarrow> Inl INA_ERR_FAILED
              | Some a_block \<Rightarrow> blas_switch (dtype (dtshape a))
                  (gemm (la_blas env) (dtype (dtshape a)) (c_blockshape acat ! 0) (c_blockshape bcat ! 1) (c_blockshape acat ! 1)
                     a_block (c_blockshape acat ! 1) (drop (nat (a_nblock * blocknitems bcat)) b_blocks) (c_blockshape bcat ! 1)
                     True out (c_blockshape bcat ! 1))))
              (below (cdiv (c_extchunkshape acat ! 1) (c_blockshape acat ! 1))) out))"

definition opt_gemm_b_checks :: "'d container \<Rightarrow> 'd container \<Rightarrow> iarray_storage \<Rightarrow> unit res" where
  "opt_gemm_b_checks a b st = (let acat = catarr a; bcat = catarr b in check_all [
     (c_ndim acat = 2, IARRAY_ERR_INVALID_NDIM),
     (c_ndim bcat = 2, IARRAY_ERR_INVALID_NDIM),
     (c_shape acat ! 1 = c_shape bcat ! 0, IARRAY_ERR_INVALID_SHAPE),
     (c_shape acat ! 1 \<le> c_chunkshape acat ! 1, IARRAY_ERR_INVALID_CHUNKSHAPE),
     (c_shape bcat ! 0 \<le> c_chunkshape bcat ! 0, IARRAY_ERR_INVALID_CHUNKSHAPE),
     (c_chunkshape acat ! 1 = c_chunkshape bcat ! 0, IARRAY_ERR_INVALID_CHUNKSHAPE),
     (c_shape acat ! 0 \<le> chunkshape st ! 0, IARRAY_ERR_INVALID_CHUNKSHAPE),
     (c_chunkshape bcat ! 1 = chunkshape st ! 1, IARRAY_ERR_INVALID_CHUNKSHAPE),
     (c_chunkshape acat ! 0 = blockshape st ! 0, IARRAY_ERR_INVALID_BLOCKSHAPE),
     (c_chunkshape bcat ! 1 = blockshape st ! 1, IARRAY_ERR_INVALID_BLOCKSHAPE),
     (c_chunkshape acat ! 0 = c_blockshape acat ! 0, IARRAY_ERR_INVALID_BLOCKSHAPE),
     (c_chunkshape bcat ! 1 = c_blockshape bcat ! 1, IARRAY_ERR_INVALID_BLOCKSHAPE),
     (c_blockshape acat ! 1 = c_blockshape bcat ! 0, IARRAY_ERR_INVALID_BLOCKSHAPE)])"

definition iarray_opt_gemm_b ::
    "('d, 'k) linalg_env \<Rightarrow> 'd container \<Rightarrow> 'd container \<Rightarrow> iarray_storage \<Rightarrow> 'd container res" where
  "iarray_opt_gemm_b env a b st =
     res_bind (opt_gemm_b_checks a b st) (\<lambda>_.
     res_bind (iarray_empty (la_create env) (opt_dtshape 2 a b) st) (\<lambda>c.
       let b_nblocks_in_chunk = cdiv (c_extchunkshape (catarr b) ! 0) (c_blockshape (catarr b) ! 0)
       in res_bind (compress_loading (la_api env) (la_cparams env c)
            (\<lambda>c b_blocks nchunk. load_blocks env b b_nblocks_in_chunk b_blocks nchunk)
            (\<lambda>c (b_blocks, b_block_zeros) nchunk nblock. opt_gemm_b_prefilter env a b b_blocks b_block_zeros (la_out env nchunk nblock) nblock)
            (\<lambda>(b_blocks, b_block_zeros) nchunk. b_blocks) (c_nchunks (catarr c)) (c, la_fresh env (extchunknitems (catarr b))))
          (\<lambda>(c, s). Inr c)))"


section \<open>The product of a matrix and a vector\<close>

definition part_inside :: "int \<Rightarrow> int \<Rightarrow> int \<Rightarrow> int \<Rightarrow> int \<Rightarrow> int option" where
  "part_inside chunk_len nchunk block_len nblock len =
     (if chunk_len * nchunk + block_len * nblock > len then None
      else if chunk_len * nchunk + block_len * (nblock + 1) > len then Some (len - (chunk_len * nchunk + block_len * nblock))
      else Some block_len)"

definition opt_gemv_block ::
    "('d, 'k) linalg_env \<Rightarrow> 'd container \<Rightarrow> 'd container \<Rightarrow> int \<Rightarrow> int \<Rightarrow> int \<Rightarrow> 'k \<Rightarrow> 'k \<Rightarrow> int \<Rightarrow> int \<Rightarrow> ina_val list \<Rightarrow> ina_val list res" where
  "opt_gemv_block env a b blocks_shape1 c_nchunk b_nchunk a_chunk b_chunk c_nblock b_nblock out =
     (let acat = catarr a; bcat = catarr b; a_nblock = c_nblock * blocks_shape1 + b_nblock
      in if block_is_zeros (la_format env) a_chunk a_nblock then Inr out
         else if block_is_zeros (la_format env) b_chunk b_nblock then Inr out
         else case part_inside (c_chunkshape acat ! 0) c_nchunk (c_blockshape acat ! 0) c_nblock (c_shape acat ! 0) of
             None \<Rightarrow> Inr out
           | Some M \<Rightarrow> (case part_inside (c_chunkshape acat ! 1) b_nchunk (c_blockshape acat ! 1) b_nblock (c_shape acat ! 1) of
             None \<Rightarrow> Inr out
           | Some K \<Rightarrow> (case getitem_ctx (la_api env) a_chunk (a_nblock * blocknitems acat) (blocknitems acat) of
             None \<Rightarrow> Inl INA_ERR_FAILED
           | Some a_block \<Rightarrow> (case getitem_ctx (la_api env) b_chunk (b_nblock * blocknitems bcat) (blocknitems bcat) of
             None \<Rightarrow> Inl INA_ERR_FAILED
           | Some b_block \<Rightarrow> blas_switch (dtype (dtshape a))
               (gemv (la_blas env) (dtype (dtshape a)) M K a_block (c_blockshape acat ! 1) b_block True out)))))"

definition opt_gemv_chunk ::
    "('d, 'k) linalg_env \<Rightarrow> 'd container \<Rightarrow> 'd container \<Rightarrow> int \<Rightarrow> int \<Rightarrow> int \<Rightarrow> int \<Rightarrow> int \<Rightarrow> ina_val list \<Rightarrow> ina_val list res" where
  "opt_gemv_chunk env a b chunks_shape1 blocks_shape1 c_nchunk c_nblock b_nchunk out =
     (case get_lazychunk (la_api env) (c_data (catarr b)) b_nchunk of
        None \<Rightarrow> Inl INA_ERR_FAILED
      | Some b_chunk \<Rightarrow>
          if chunk_is_zeros (la_format env) b_chunk then Inr out
          else (case get_lazychunk (la_api env) (c_data (catarr a)) (c_nchunk * chunks_shape1 + b_nchunk) of
            None \<Rightarrow> Inl INA_ERR_FAILED
          | Some a_chunk \<Rightarrow>
              if chunk_is_zeros (la_format env) a_chunk then Inr out
              else res_fold (opt_gemv_block env a b blocks_shape1 c_nchunk b_nchunk a_chunk b_chunk c_nblock) (below blocks_shape1) out))"

definition opt_gemv_prefilter ::
    "('d, 'k) linalg_env \<Rightarrow> 'd container \<Rightarrow> 'd container \<Rightarrow> int \<Rightarrow> int \<Rightarrow> int \<Rightarrow> ina_val list \<Rightarrow> int \<Rightarrow> ina_val list res" where
  "opt_gemv_prefilter env a b chunks_shape1 blocks_shape1 c_nchunk out c_nblock =
     res_bind (zero_output (dtype (dtshape a)) (c_blockshape (catarr a) ! 0) out)
       (res_fold (opt_gemv_chunk env a b chunks_shape1 blocks_shape1 c_nchunk c_nblock) (below chunks_shape1))"

definition opt_gemv_checks :: "'d container \<Rightarrow> 'd container \<Rightarrow> iarray_storage \<Rightarrow> unit res" where
  "opt_gemv_checks a b st = (let acat = catarr a; bcat = catarr b in check_all [
     (c_ndim acat = 2, IARRAY_ERR_INVALID_NDIM),
     (c_ndim bcat = 1, IARRAY_ERR_INVALID_NDIM),
     (c_chunkshape acat ! 0 = chunkshape st ! 0, IARRAY_ERR_INVALID_CHUNKSHAPE),
     (c_chunkshape acat ! 1 = c_chunkshape bcat ! 0, IARRAY_ERR_INVALID_CHUNKSHAPE),
     (c_blockshape acat ! 0 = blockshape st ! 0, IARRAY_ERR_INVALID_BLOCKSHAPE),
     (c_blockshape acat ! 1 = c_blockshape bcat ! 0, IARRAY_ERR_INVALID_BLOCKSHAPE)])"

definition iarray_opt_gemv ::
    "('d, 'k) linalg_env \<Rightarrow> 'd container \<Rightarrow> 'd container \<Rightarrow> iarray_storage \<Rightarrow> 'd container res" where
  "iarray_opt_gemv env a b st =
     res_bind (opt_gemv_checks a b st) (\<lambda>_.
     res_bind (iarray_empty (la_create env) (opt_dtshape 1 a b) st) (\<lambda>c.
       let acat = catarr a;
           chunks_shape0 = cdiv (c_extshape acat ! 0) (c_chunkshape acat ! 0);
           chunks_shape1 = cdiv (c_extshape acat ! 1) (c_chunkshape acat ! 1);
           blocks_shape1 = cdiv (c_extchunkshape acat ! 1) (c_blockshape acat ! 1)
       in res_bind (compress_chunks (la_api env) (la_cparams env c)
            (\<lambda>c s nchunk nblock. opt_gemv_prefilter env a b chunks_shape1 blocks_shape1 nchunk (la_out env nchunk nblock) nblock)
            (\<lambda>s nchunk. ()) chunks_shape0 (c, ()))
          (\<lambda>(c, s). Inr c)))"

section \<open>Blocks and sums\<close>





text \<open>The block of the output, whose entry \<open>[i, j]\<close> is \<open>S i j\<close> so far for the places that matter, \<open>P\<close>.\<close>

definition so_far :: "int \<Rightarrow> int \<Rightarrow> (int \<Rightarrow> int \<Rightarrow> bool) \<Rightarrow> (int \<Rightarrow> int \<Rightarrow> rat) \<Rightarrow> ina_val list \<Rightarrow> bool" where
  "so_far x y P S out \<longleftrightarrow> int (length out) = x * y \<and>
     (\<forall>i j. 0 \<le> i \<longrightarrow> i < x \<longrightarrow> 0 \<le> j \<longrightarrow> j < y \<longrightarrow> P i j \<longrightarrow> out ! nat (i * y + j) = VFp (Fin (S i j)))"

lemma zero_output:
  assumes "d \<in> {IARRAY_DATA_TYPE_DOUBLE, IARRAY_DATA_TYPE_FLOAT}" "int (length out) = n"
  shows "zero_output d n out = Inr (replicate (length out) (VFp (Fin 0)))"
proof -
  have "zero_output d n out = Inr (fold (\<lambda>i out. out[nat i := VFp (Fin 0)]) (below n) out)"
    unfolding zero_output_def using assms(1) by (intro res_fold_Inr) auto
  also have "fold (\<lambda>i out. out[nat i := VFp (Fin 0)]) (below n) out = replicate (length out) (VFp (Fin 0))"
  proof (rule nth_equalityI)
    fix i assume "i < length (fold (\<lambda>i out. out[nat i := VFp (Fin 0)]) (below n) out)"
    then have i: "i < length out" by simp
    then have "i \<in> nat ` set (below n)" using assms(2) by (intro image_eqI [of _ _ "int i"]) simp_all
    then show "fold (\<lambda>i out. out[nat i := VFp (Fin 0)]) (below n) out ! i = replicate (length out) (VFp (Fin 0)) ! i"
      using i by (subst fold_writes [where h = "\<lambda>_. VFp (Fin 0)"]) auto
  qed simp
  finally show ?thesis .
qed




















section \<open>The general product is the product of matrices\<close>






text \<open>A loop that adds to the block.\<close>

lemma so_far_cong: "so_far x y P S out \<Longrightarrow> (\<And>i j. P i j \<Longrightarrow> S i j = S' i j) \<Longrightarrow> so_far x y P S' out"
  by (simp add: so_far_def)



















end
