(* ===== verification/Spec2Isabelle.thy ===== *)
theory Spec2Isabelle
  imports Index Types Config Partition Views Container Iterators ItemIterators Btune Constructors ConstructBlock Zproxy ReduceOps Reduce ReduceAxes LinalgOpt
begin

text \<open>
  Verification development for the ironArray C library: multidimensional, chunked and compressed arrays on top of
  caterva and c-blosc2.

  The program. A container (\<open>iarray_container_t\<close>) ties an element type and a shape to a caterva array, which is
  cut into chunks and each chunk into blocks; chunks are compressed by c-blosc2. The public header
  \<^verbatim>\<open>include/libiarray/iarray.h\<close> declares the operations: configuration and partition advice (\<^verbatim>\<open>src/iarray.c\<close>),
  creation (\<^verbatim>\<open>src/iarray_constructor.c\<close>, \<^verbatim>\<open>src/constructors\<close>), slices, views, storage and size changes
  (\<^verbatim>\<open>src/iarray_container.c\<close>, \<^verbatim>\<open>src/iarray_views.c\<close>), iteration (\<^verbatim>\<open>src/iarray_iterator.c\<close>), reductions
  (\<^verbatim>\<open>src/reductions\<close>), expressions, products of matrices, random numbers. The tuner (\<^verbatim>\<open>src/btune\<close>) is called
  by c-blosc2 around each chunk. Data is written in two ways: through an iterator that stores whole blocks or items,
  or through a prefilter, a function that c-blosc2 calls for every block of a chunk it compresses.

  The theories, from the bottom:
  \<^item> \<open>Prelude\<close>, \<open>Floats\<close>: error codes and results (\<open>'a res\<close> for \<open>ina_rc_t\<close> and the output arguments), loops that may
    fail (\<open>res_fold\<close>, \<open>res_map\<close>), C division, wrap-around; rounding and arithmetic of \<open>float\<close> and \<open>double\<close>.
  \<^item> \<open>Index\<close> (inline functions of \<^verbatim>\<open>src/iarray_private.h\<close>): strides, flattening and decoding of indexes. The
    locale \<open>numbering\<close> is the contract of a decoder, each routine an interpretation: every index is met once.
  \<^item> \<open>Types\<close>, \<open>Config\<close>, \<open>BtuneConfig\<close>: enumerations and records of the public header, the metalayer with the element
    type, compression and storage parameters from a configuration and back.
  \<^item> \<open>Partition\<close>: choice of chunk and block shapes. The loops without a bound are \<open>partial_function (option)\<close>:
    that they end is proved where they do, and so is that they do not for extreme arguments.
  \<^item> \<open>Container\<close>, \<open>Views\<close>: containers as records, slices and slice views with the offsets they translate,
    squeezing, resizing, saving and loading; casts of items and the postfilters that read a block of a view.
  \<^item> \<open>Tiling\<close>, \<open>Iterators\<close>, \<open>ItemIterators\<close>: blocks of an array; the locale \<open>block_walk\<close> is the contract between
    a block iterator and its clients, interpreted by the four iterators: the regions they visit partition the array,
    and the loops of their clients end after the last one.
  \<^item> \<open>Chunks\<close>, \<open>Constructors\<close>, \<open>Compressor\<close>, \<open>ConstructBlock\<close>: two levels of blocks; creation of containers,
    splitting and concatenating; \<open>stores api c A\<close>, the super-chunk of \<open>c\<close> holds the array \<open>A\<close>, a function from
    indexes to items; the loop over all chunks with a prefilter (\<open>compress_chunks\<close>); constructors by item. The
    refinement shown is always: if each block holds the items of \<open>A\<close> at its places, the result stores \<open>A\<close>.
  \<^item> \<open>ReduceOps\<close>, \<open>Reduce\<close>: the reduction functions and their tables (locale \<open>vector_reduction\<close>: a vector may be
    split anywhere); the prefilter that reduces a dimension. Each item of the result is the reduction of its whole line.
  \<^item> \<open>Fibres\<close>, \<open>ReduceOneshot\<close>, \<open>Copying\<close>, \<open>ReduceMulti\<close>, \<open>ReduceAxes\<close>: nested loops over chunks, blocks and items that fix the kept
    dimensions, and the order in which they meet the items of a fibre, each once; the prefilter that reduces several
    dimensions (\<^verbatim>\<open>src/reductions/iarray_reduce_oneshot.c\<close>); \<open>iarray_copy\<close>; the two algorithms behind
    \<open>iarray_reduce_multi\<close>, and that they agree on integers (locales \<open>mergeable\<close>, \<open>wrapping\<close>: an operation that may
    merge parts in any order). Files are arguments (\<open>reduce_env\<close>); the results shown are for storage in memory.
  \<^item> \<open>Linalg\<close>, \<open>LinalgOpt\<close> (\<^verbatim>\<open>src/linalg\<close>): products of matrices and vectors, through caches of whole rows and
    columns (\<^verbatim>\<open>matmul\<close>) or block by block, passing over blocks of zeros (\<^verbatim>\<open>iarray_gemm.c\<close>), and the transposed view.
    The result stores the matrix of the sums of products. Theorems cover \<open>iarray_linalg_matmul\<close> and \<open>iarray_opt_gemm\<close>; the
    variants \<open>iarray_opt_gemm_a\<close>, \<open>iarray_opt_gemm_b\<close>, \<open>iarray_opt_gemv\<close> are defined, without theorems.
  \<^item> \<open>Zproxy\<close> (\<^verbatim>\<open>src/iarray_zproxy.c\<close>): blocks of a remote array, fetched by a user-defined reader.
  \<^item> \<open>Btune\<close>: the tuner as a state machine, with the reachable states of its loop: parameters stay in range, the
    schedule of readapts is the documented one, and with the repeat mode \<open>STOP\<close> it stops or, for the configurations
    \<open>waits_forever\<close>, provably never does.

  Conventions. \<open>int64_t\<close> lengths and indexes are integers: signed overflow is undefined in C, and where it decides
  what the code does the wrap-around is written out (\<open>to_i64\<close>, \<open>to_i32\<close>, \<open>wrap_signed\<close>). Arrays of
  \<open>CATERVA_MAX_DIM\<close> slots are lists of that length; slots that the code leaves uninitialised are those of
  \<open>fresh_slots\<close>, about which nothing is used. Early returns are branches of the sum type; memory that cannot be
  allocated is not modelled. Functions of caterva, c-blosc2 and the mathematical library are arguments; what the
  proofs use of them is a named hypothesis (\<open>caterva_create_spec\<close>, \<open>schunk_spec\<close>, \<open>blosc_exact\<close>), which an exact
  example compressor (\<open>plain_api\<close>) satisfies in the witnesses. The creation of a super-chunk, which keeps the compression
  parameters it is given, is such an argument of the reports about an array (\<open>keeps_params\<close>); what a view needs of its
  context is the record \<open>view_env\<close>. Of MKL the products assume (\<open>gemm_spec\<close>, \<open>gemv_spec\<close>) that a sum of products is exact when
  it cannot be rounded: the products are integers whose absolute values sum to at most \<open>2 ^ 53\<close> (\<open>2 ^ 24\<close> for floats); of other
  sums nothing is said. Loops over a counter are folds over \<open>below n\<close>
  and need no fuel; the iterators' client loops take a bound that is proved to suffice (the number of blocks
  or items), and the tuner is run for any number of chunks.

  Not modelled: the expression evaluator (\<^verbatim>\<open>src/iarray_expression.c\<close>), which hands blocks to code compiled at run
  time, and the compiler itself (\<^verbatim>\<open>contribs/minjugg\<close>); the routines of MKL; random numbers (\<^verbatim>\<open>src/constructors/random\<close>, \<^verbatim>\<open>src/iarray_random.c\<close>),
  made by VSL; contexts and global initialisation, locks and threads; tools,
  benchmarks, examples and tests.
\<close>

section \<open>The tuner under the configuration of the library\<close>

lemma configured_tuner:
  assumes "cfg_btune cfg" "compression_level cfg \<noteq> 0" "compression_favor cfg \<noteq> IARRAY_COMPRESSION_FAVOR_CRATIO"
  obtains tc where "udbtune (snd (iarray_create_caterva_cfg zfp_code cfg)) = Some tc"
    "tc = BTUNE_CONFIG_DEFAULTS\<lparr>comp_mode := comp_mode tc\<rparr>" "comp_mode tc \<noteq> BTUNE_COMP_HCR"
  using assms by (cases "compression_favor cfg") (auto simp: iarray_create_caterva_cfg_def Let_def)

text \<open>
  Claim C11. The tuner that \<open>iarray_create_caterva_cfg\<close> installs for the goals speed and balance can be
  initialised on any compression context, its schedule is a hard readapt, five soft ones and a last hard one, and
  whatever the compressor reports it ends in \<open>STOP\<close>.
\<close>

theorem configured_tuner_stops:
  assumes "cfg_btune cfg" "compression_level cfg \<noteq> 0" "compression_favor cfg \<noteq> IARRAY_COMPRESSION_FAVOR_CRATIO"
  shows "\<exists>tc bt n. udbtune (snd (iarray_create_caterva_cfg zfp_code cfg)) = Some tc \<and>
    iabtune_init bc (Some tc) cctx dctx = Some bt \<and>
    btune_plan bt = [HARD, SOFT, SOFT, SOFT, SOFT, SOFT, HARD] \<and>
    (\<forall>k. map_option (bt_state \<circ> fst) (btune_run bc ctx t (n + k) (bt, cctx)) = Some STOP)"
proof -
  obtain tc where tc: "udbtune (snd (iarray_create_caterva_cfg zfp_code cfg)) = Some tc"
    "tc = BTUNE_CONFIG_DEFAULTS\<lparr>comp_mode := comp_mode tc\<rparr>" "comp_mode tc \<noteq> BTUNE_COMP_HCR"
    using configured_tuner [OF assms] .
  have b: "behaviour tc = \<lparr> nwaits_before_readapt = 0, nsofts_before_hard = 5, nhards_before_stop = 1,
       repeat_mode = BTUNE_STOP \<rparr>" "\<not> cparams_hint tc"
    using arg_cong [OF tc(2), of behaviour] arg_cong [OF tc(2), of cparams_hint] by (simp_all add: BTUNE_CONFIG_DEFAULTS_def)
  obtain bt where bt: "iabtune_init bc (Some tc) cctx dctx = Some bt"
    using tc(3) by (auto simp: iabtune_init_def btune_get_codecs_def Let_def)
  have p: "plannable tc" by (simp add: plannable_def b)
  have "btune_plan bt = [HARD, SOFT, SOFT, SOFT, SOFT, SOFT, HARD]"
    using init_plan(2) [OF bt p] b by (simp add: documented_plan_def rounds_def numeral_eq_Suc)
  moreover have "\<exists>n. \<forall>k. map_option (bt_state \<circ> fst) (btune_run bc ctx t (n + k) (bt, cctx)) = Some STOP"
    using tc(3) b(2) by (intro tuner_stops [OF bt p]; cases "comp_mode tc"; simp)
  ultimately show ?thesis using tc(1) bt by blast
qed

theorem configured_tuner_stops_witness:
  "\<exists>tc bt n. udbtune (snd (iarray_create_caterva_cfg (\<lambda>_. 33) IARRAY_CONFIG_DEFAULTS)) = Some tc \<and>
    iabtune_init ex_const (Some tc) ex_cctx None = Some bt \<and>
    map_option (bt_state \<circ> fst) (btune_run ex_const (\<lambda>_. ex_cctx) (\<lambda>_. Fin 1) n (bt, ex_cctx)) = Some STOP"
proof -
  have "cfg_btune IARRAY_CONFIG_DEFAULTS" "compression_level IARRAY_CONFIG_DEFAULTS \<noteq> 0"
    "compression_favor IARRAY_CONFIG_DEFAULTS \<noteq> IARRAY_COMPRESSION_FAVOR_CRATIO"
    by (simp_all add: IARRAY_CONFIG_DEFAULTS_def)
  from configured_tuner_stops [OF this, of "\<lambda>_. 33" ex_const ex_cctx None "\<lambda>_. ex_cctx" "\<lambda>_. Fin 1"]
  show ?thesis by blast
qed

end
